(* ===== verification/Prelude.thy ===== *)
theory Prelude
  imports Main "HOL-Library.Word" "HOL-Library.Multiset" "HOL-Library.Signed_Division"
begin

text \<open>
  What the component theories share: the machine-integer names, the error values the
  models return where the C code stops the machine or leaves defined behaviour, the
  sequencing operator of those results, and generic lemmas on lists and maps.
\<close>

section \<open>Machine integers\<close>

type_synonym u8 = "8 word"
type_synonym u16 = "16 word"
type_synonym u32 = "32 word"
type_synonym u64 = "64 word"
type_synonym s64 = "64 word"

text \<open>A pointer into the kernel heap; 0 is NULL.\<close>

type_synonym ptr = nat

section \<open>Results\<close>

text \<open>
  A C statement of the kernel can stop the machine (\<^verbatim>\<open>assert\<close> prints and calls
  \<^verbatim>\<open>exit\<close>, which powers the machine off), read through a NULL pointer, touch an object
  that was freed, free an object twice, index an array out of its bounds, divide by zero, or never return.
  Each is a value of \<open>kerr\<close>, and a result is either such an error or the normal value.
\<close>

datatype kerr =
    Assert_fail
  | Null_deref
  | Use_after_free
  | Double_free
  | Out_of_bounds
  | Div_by_zero
  | No_return

type_synonym 'a res = "kerr + 'a"

fun rbind :: "'a res \<Rightarrow> ('a \<Rightarrow> 'b res) \<Rightarrow> 'b res" where
  "rbind (Inl e) f = Inl e"
| "rbind (Inr a) f = f a"

definition rassert :: "bool \<Rightarrow> unit res" where
  "rassert b = (if b then Inr () else Inl Assert_fail)"

named_theorems res_simps \<open>unfolding of sequenced results\<close>

lemma rbind_Inr_iff [res_simps]:
  "rbind m f = Inr b \<longleftrightarrow> (\<exists>a. m = Inr a \<and> f a = Inr b)"
  by (cases m) auto

lemma rbindE:
  assumes "rbind m f = Inr b"
  obtains a where "m = Inr a" "f a = Inr b"
  using assms by (cases m) auto

lemma map_sum_Inr_iff [res_simps]: "map_sum id f m = Inr b \<longleftrightarrow> (\<exists>a. m = Inr a \<and> b = f a)"
  by (cases m) auto

lemma rassertE:
  assumes "rassert b = Inr u"
  obtains b
  using assms by (simp add: rassert_def split: if_splits)

lemma rassert_Inr_iff [res_simps]: "rassert b = Inr u \<longleftrightarrow> b"
  by (simp add: rassert_def)

lemma rassert_True [simp]: "rassert True = Inr ()"
  by (simp add: rassert_def)

lemma rassert_False [simp]: "rassert False = Inl Assert_fail"
  by (simp add: rassert_def)

section \<open>Words\<close>

lemma unat_and_mask: "unat (and x (mask n) :: 64 word) = unat x mod 2 ^ n"
  by (simp only: take_bit_eq_mask [symmetric] unsigned_take_bit_eq take_bit_eq_mod [where 'a = nat])

lemma unat_suc_16: "unat (w :: 16 word) < 65535 \<Longrightarrow> unat (w + 1) = Suc (unat w)"
  by (simp add: unat_word_ariths)

lemma unat_lt_64: "unat (x :: 64 word) < 18446744073709551616"
  using unsigned_less [of x, where 'a = nat] by simp

section \<open>Lists\<close>

lemma butlast_last_snoc: "xs \<noteq> [] \<Longrightarrow> butlast xs @ [last xs] = xs"
  by simp

lemma mset_butlast_last:
  "xs \<noteq> [] \<Longrightarrow> mset xs = add_mset (last xs) (mset (butlast xs))"
  using butlast_last_snoc [of xs] by (metis mset.simps add_mset_commute mset_append
      union_mset_add_mset_right add_0_right)

lemma sorted_map_last_max:
  "sorted (map f xs) \<Longrightarrow> y \<in> set xs \<Longrightarrow> f y \<le> f (last xs)"
  by (induction xs) (auto split: if_splits)

lemma sorted_map_butlast: "sorted (map f xs) \<Longrightarrow> sorted (map f (butlast xs))"
  by (metis map_butlast sorted_butlast)

lemma distinct_butlast_last: "distinct xs \<Longrightarrow> xs \<noteq> [] \<Longrightarrow> last xs \<notin> set (butlast xs)"
  by (metis butlast_last_snoc distinct_butlast not_distinct_conv_prefix
      append.right_neutral distinct_append disjoint_iff in_set_conv_decomp list.set_intros(1))

lemma length_filter_update:
  "i < length xs \<Longrightarrow> int (length (filter P (xs[i := y]))) =
     int (length (filter P xs)) - of_bool (P (xs ! i)) + of_bool (P y)"
proof (induction xs arbitrary: i)
  case (Cons a xs)
  then show ?case using Cons.IH [of "i - 1"] by (cases i) auto
qed simp

lemma map_update_same:
  assumes "i < length ns" "f x = f (ns ! i)"
  shows "map f (ns[i := x]) = map f ns"
proof -
  have "map f (ns[i := x]) = (map f ns)[i := map f ns ! i]" using assms by (simp add: map_update)
  then show ?thesis by (simp only: list_update_id)
qed

lemma length_filter_mono:
  "(\<And>x. x \<in> set xs \<Longrightarrow> P x \<Longrightarrow> Q x) \<Longrightarrow> length (filter P xs) \<le> length (filter Q xs)"
  by (induction xs) auto

lemma length_filter_less_ex:
  "length (filter P xs) < length xs \<Longrightarrow> \<exists>i < length xs. \<not> P (xs ! i)"
  by (metis filter_True in_set_conv_nth less_irrefl)

end
