(* ===== verification/HashProbe.thy ===== *)
theory HashProbe
  imports Prelude
begin

text \<open>
  Arithmetic behind the probe sequence of \<^verbatim>\<open>src/lib/hash/hash.c\<close>. Once the
  perturbation of the hash code has been shifted out, the sequence steps from \<open>x\<close> to
  \<open>5 * x + 1\<close>; modulo a power of two that step runs through every residue before it
  repeats one, so the sequence visits every slot of the table.
\<close>

fun probe_iter :: "nat \<Rightarrow> nat \<Rightarrow> nat" where
  "probe_iter 0 x = x"
| "probe_iter (Suc j) x = 5 * probe_iter j x + 1"

definition five_sum :: "nat \<Rightarrow> nat" where
  "five_sum j = (\<Sum>i<j. 5 ^ i)"

lemma five_sum_0 [simp]: "five_sum 0 = 0"
  by (simp add: five_sum_def)

lemma five_sum_Suc [simp]: "five_sum (Suc j) = five_sum j + 5 ^ j"
  by (simp add: five_sum_def)

lemma pow5_five_sum: "(5::nat) ^ j = 4 * five_sum j + 1"
  by (induction j) auto

lemma five_sum_Suc': "five_sum (Suc j) = 5 * five_sum j + 1"
  by (simp add: pow5_five_sum)

lemma probe_iter_eq: "probe_iter j x = 5 ^ j * x + five_sum j"
  by (induction j) (auto simp: algebra_simps pow5_five_sum)

lemma five_sum_add: "five_sum (i + j) = five_sum i + 5 ^ i * five_sum j"
  by (induction j) (auto simp: algebra_simps power_add)

lemma five_sum_double: "five_sum (2 * j) = five_sum j * (5 ^ j + 1)"
  by (simp only: mult_2 five_sum_add) (simp add: algebra_simps)

lemma even_five_sum: "even (five_sum j) \<longleftrightarrow> even j"
  by (induction j) auto

lemma dvd_half_five_sum: "(5::nat) ^ j + 1 = 2 * (2 * five_sum j + 1)"
  by (simp add: pow5_five_sum)

lemma pow2_dvd_five_sum: "2 ^ n dvd five_sum j \<Longrightarrow> 2 ^ n dvd j"
proof (induction n arbitrary: j)
  case 0
  then show ?case by simp
next
  case (Suc n)
  have "even (five_sum j)" using Suc.prems by (metis dvd_trans dvd_triv_left power_Suc)
  then obtain i where i: "j = 2 * i" by (auto simp: even_five_sum)
  have "2 * 2 ^ n dvd 2 * (five_sum i * (2 * five_sum i + 1))"
    using Suc.prems i by (simp only: five_sum_double dvd_half_five_sum mult.left_commute power_Suc)
  then have "2 ^ n dvd five_sum i * (2 * five_sum i + 1)"
    using nat_mult_dvd_cancel1 [OF zero_less_numeral] by blast
  moreover have c: "coprime ((2::nat) ^ n) (2 * five_sum i + 1)"
    by (simp add: coprime_left_2_iff_odd)
  ultimately have "2 ^ n dvd five_sum i"
    using coprime_dvd_mult_left_iff [OF c] by blast
  then have "2 ^ n dvd i" by (rule Suc.IH)
  then show ?case using i by simp
qed

lemma probe_iter_repeat:
  assumes "i \<le> j" "probe_iter i x mod 2 ^ n = probe_iter j x mod 2 ^ n"
  shows "2 ^ n dvd j - i"
proof -
  define d where "d = j - i"
  have j: "j = i + d" using assms d_def by simp
  have "probe_iter j x = probe_iter i x + 5 ^ i * (five_sum d * (4 * x + 1))"
    unfolding j probe_iter_eq power_add five_sum_add pow5_five_sum [of d]
    by (simp add: algebra_simps)
  then have "2 ^ n dvd 5 ^ i * (five_sum d * (4 * x + 1))"
    using assms(2) by (metis add_diff_cancel_left' le_add1 mod_eq_dvd_iff_nat)
  moreover have c: "coprime ((2::nat) ^ n) (5 ^ i)" "coprime ((2::nat) ^ n) (4 * x + 1)"
    by (simp_all add: coprime_left_2_iff_odd)
  ultimately have "2 ^ n dvd five_sum d"
    using coprime_dvd_mult_right_iff [OF c(1)] coprime_dvd_mult_left_iff [OF c(2)] by blast
  then show ?thesis using pow2_dvd_five_sum d_def by blast
qed

lemma probe_iter_covers:
  assumes "y < 2 ^ n"
  shows "\<exists>j < 2 ^ n. probe_iter j x mod 2 ^ n = y"
proof -
  let ?f = "\<lambda>j. probe_iter j x mod 2 ^ n"
  have "inj_on ?f {..<2 ^ n}"
  proof (rule linorder_inj_onI)
    fix i j :: nat
    assume ij: "i < j" "i \<in> {..<2 ^ n}" "j \<in> {..<2 ^ n}"
    show "?f i \<noteq> ?f j"
    proof
      assume "?f i = ?f j"
      then have "2 ^ n dvd j - i" using probe_iter_repeat ij by simp
      then show False using ij by (auto dest: dvd_imp_le)
    qed
  qed auto
  then have "card (?f ` {..<2 ^ n}) = card {..<(2::nat) ^ n}" by (rule card_image)
  moreover have "?f ` {..<2 ^ n} \<subseteq> {..<2 ^ n}" by auto
  ultimately have "?f ` {..<2 ^ n} = {..<2 ^ n}" by (simp add: card_subset_eq)
  with assms show ?thesis by (metis (mono_tags, lifting) imageE lessThan_iff)
qed

end
