(* ===== verification/HashTable.thy ===== *)
theory HashTable
  imports HashProbe
begin

text \<open>
  The kernel's generic hash table, \<^verbatim>\<open>src/lib/hash/hash.c\<close>: open addressing with
  the probe sequence of CPython's dictionaries, deleted markers, growth at two thirds and
  shrinking at a quarter of the slots. It maps process ids to processes, semaphore ids to
  semaphores and shared page names to shared pages.

  Keys and values are \<^verbatim>\<open>void *\<close>, 64-bit words. The outcome of \<^verbatim>\<open>malloc\<close> for a
  number of bytes is the parameter \<open>alloc\<close>; a probe that never ends is \<open>None\<close>.
\<close>

unbundle bit_operations_syntax

section \<open>Data\<close>

definition HASH_MINSIZE :: u64 where
  "HASH_MINSIZE = 8"

datatype slot_mode = SL_EMPTY | SL_ACTIVE | SL_DELETED

record hash_slot_t =
  s_key :: u64
  s_value :: u64
  s_hash :: u64
  s_mode :: slot_mode

record hash_t =
  h_fill :: int
  h_count :: int
  h_mask :: u64
  h_table :: "hash_slot_t list"
  h_hfunc :: "u64 \<Rightarrow> u64"
  h_cmp :: "u64 \<Rightarrow> u64 \<Rightarrow> bool"

definition empty_slot :: hash_slot_t where
  "empty_slot = \<lparr>s_key = 0, s_value = 0, s_hash = 0, s_mode = SL_EMPTY\<rparr>"

section \<open>Operations\<close>

definition hash_initialize :: "(u64 \<Rightarrow> bool) \<Rightarrow> hash_t \<Rightarrow> u64 \<Rightarrow> int \<times> hash_t" where
  "hash_initialize alloc m sz =
     (if \<not> alloc (sz * 32) then (-1, m)
      else (0, m\<lparr>h_fill := 0, h_count := 0, h_mask := sz - 1,
                 h_table := replicate (unat sz) empty_slot\<rparr>))"

definition slot_matches :: "hash_t \<Rightarrow> u64 \<Rightarrow> u64 \<Rightarrow> hash_slot_t \<Rightarrow> bool" where
  "slot_matches m key hash s =
     (s_mode s = SL_ACTIVE \<and> (s_key s = key \<or> s_hash s = hash \<and> h_cmp m (s_key s) key))"

text \<open>The loop of \<^verbatim>\<open>hash_lookup\<close>; slots are named by their index in the table.\<close>

partial_function (option) hash_probe ::
    "hash_t \<Rightarrow> u64 \<Rightarrow> u64 \<Rightarrow> u64 \<Rightarrow> u64 \<Rightarrow> nat \<Rightarrow> nat option \<Rightarrow> nat option" where
  "hash_probe m key hash index perturb slot freeslot =
     (let s = h_table m ! slot in
      if s_mode s = SL_EMPTY then Some (case freeslot of None \<Rightarrow> slot | Some f \<Rightarrow> f)
      else if slot_matches m key hash s then Some slot
      else
        (let freeslot' = (if s_mode s = SL_DELETED \<and> freeslot = None then Some slot else freeslot);
             index' = 5 * index + perturb + 1
         in hash_probe m key hash index' (drop_bit 5 perturb) (unat (index' AND h_mask m)) freeslot'))"

definition hash_lookup :: "hash_t \<Rightarrow> u64 \<Rightarrow> u64 \<Rightarrow> nat option" where
  "hash_lookup m key hash =
     (let index = hash AND h_mask m in hash_probe m key hash index hash (unat index) None)"

fun hash_copy :: "hash_t \<Rightarrow> hash_slot_t list \<Rightarrow> hash_t option" where
  "hash_copy m [] = Some m"
| "hash_copy m (old # olds) =
     (if s_mode old \<noteq> SL_ACTIVE then hash_copy m olds
      else
        (case hash_lookup m (s_key old) (h_hfunc m (s_key old)) of
           None \<Rightarrow> None
         | Some new \<Rightarrow>
             hash_copy
               (m\<lparr>h_table := (h_table m)[new := old\<lparr>s_mode := SL_ACTIVE\<rparr>],
                  h_fill := h_fill m + 1, h_count := h_count m + 1\<rparr>) olds))"

definition hash_rebuild :: "(u64 \<Rightarrow> bool) \<Rightarrow> hash_t \<Rightarrow> u64 \<Rightarrow> (int \<times> hash_t) option" where
  "hash_rebuild alloc m new_size =
     (let (r, m1) = hash_initialize alloc m new_size in
      if r = -1 then Some (-1, m)
      else map_option (\<lambda>m2. (0, m2)) (hash_copy m1 (h_table m)))"

definition hash_update :: "(u64 \<Rightarrow> bool) \<Rightarrow> hash_t \<Rightarrow> (int \<times> hash_t) option" where
  "hash_update alloc m =
     (let old_size = h_mask m + 1 in
      if 3 * h_fill m \<ge> 2 * sint old_size then
        (let new_size = push_bit 1 old_size in
         if sint new_size < sint old_size then Some (-1, m)
         else hash_rebuild alloc m new_size)
      else if sint old_size > sint HASH_MINSIZE \<and> 4 * h_count m \<le> sint old_size then
        hash_rebuild alloc m (signed_drop_bit 1 old_size)
      else Some (0, m))"

definition hash_init ::
    "(u64 \<Rightarrow> bool) \<Rightarrow> hash_t \<Rightarrow> (u64 \<Rightarrow> u64) \<Rightarrow> (u64 \<Rightarrow> u64 \<Rightarrow> bool) \<Rightarrow> int \<times> hash_t" where
  "hash_init alloc m hfunc cmp =
     (let (r, m1) = hash_initialize alloc m HASH_MINSIZE in
      if r = -1 then (-1, m1) else (0, m1\<lparr>h_hfunc := hfunc, h_cmp := cmp\<rparr>))"

fun hash_isset :: "hash_t option \<Rightarrow> u64 \<Rightarrow> bool option" where
  "hash_isset None key = Some False"
| "hash_isset (Some m) key =
     map_option (\<lambda>i. s_mode (h_table m ! i) = SL_ACTIVE) (hash_lookup m key (h_hfunc m key))"

fun hash_get :: "hash_t option \<Rightarrow> u64 \<Rightarrow> u64 \<Rightarrow> u64 option" where
  "hash_get None key dflt = Some dflt"
| "hash_get (Some m) key dflt =
     map_option (\<lambda>i. if s_mode (h_table m ! i) = SL_ACTIVE then s_value (h_table m ! i) else dflt)
       (hash_lookup m key (h_hfunc m key))"

definition slot_store :: "hash_t \<Rightarrow> nat \<Rightarrow> hash_slot_t \<Rightarrow> hash_t" where
  "slot_store m i s = m\<lparr>h_table := (h_table m)[i := s]\<rparr>"

fun hash_set :: "(u64 \<Rightarrow> bool) \<Rightarrow> hash_t option \<Rightarrow> u64 \<Rightarrow> u64 \<Rightarrow> (int \<times> hash_t option) option" where
  "hash_set alloc None key val = Some (-1, None)"
| "hash_set alloc (Some m) key val =
     (let hash = h_hfunc m key in
      case hash_lookup m key hash of
        None \<Rightarrow> None
      | Some i \<Rightarrow>
          (let s = h_table m ! i in
           if s_mode s = SL_ACTIVE then Some (0, Some (slot_store m i (s\<lparr>s_value := val\<rparr>)))
           else
             (let m1 = m\<lparr>h_count := h_count m + 1\<rparr>;
                  m2 = (if s_mode s = SL_EMPTY then m1\<lparr>h_fill := h_fill m1 + 1\<rparr> else m1);
                  m3 = slot_store m2 i
                         \<lparr>s_key = key, s_value = val, s_hash = hash, s_mode = SL_ACTIVE\<rparr>
              in map_option (\<lambda>(r, m'). (r, Some m')) (hash_update alloc m3))))"

fun hash_del :: "(u64 \<Rightarrow> bool) \<Rightarrow> hash_t option \<Rightarrow> u64 \<Rightarrow> (int \<times> hash_t option) option" where
  "hash_del alloc None key = Some (-1, None)"
| "hash_del alloc (Some m) key =
     (case hash_lookup m key (h_hfunc m key) of
        None \<Rightarrow> None
      | Some i \<Rightarrow>
          (if s_mode (h_table m ! i) \<noteq> SL_ACTIVE then Some (0, Some m)
           else
             (let m1 = slot_store m i \<lparr>s_key = 0, s_value = 0, s_hash = 0, s_mode = SL_DELETED\<rparr>;
                  m2 = m1\<lparr>h_count := h_count m1 - 1\<rparr>
              in map_option (\<lambda>(r, m'). (r, Some m')) (hash_update alloc m2))))"

section \<open>Key functions\<close>

definition hash_direct_cmp :: "u64 \<Rightarrow> u64 \<Rightarrow> bool" where
  "hash_direct_cmp key1 key2 = (key1 = key2)"

definition hash_direct_hfunc :: "u64 \<Rightarrow> u64" where
  "hash_direct_hfunc key = key"

text \<open>
  String keys are pointers to NUL-terminated strings: \<open>str\<close> is the content of the memory
  they point to, the bytes before the terminator. \<^verbatim>\<open>char\<close> is unsigned on RISC-V.
\<close>

definition hash_string_cmp :: "(u64 \<Rightarrow> u8 list) \<Rightarrow> u64 \<Rightarrow> u64 \<Rightarrow> bool" where
  "hash_string_cmp str key1 key2 = (str key1 = str key2)"

definition hash_string_hfunc :: "(u64 \<Rightarrow> u8 list) \<Rightarrow> u64 \<Rightarrow> u64" where
  "hash_string_hfunc str key =
     fold (\<lambda>c hash. (push_bit 5 hash + hash) XOR ucast c) (str key) 5381"

definition hash_init_direct :: "(u64 \<Rightarrow> bool) \<Rightarrow> hash_t \<Rightarrow> int \<times> hash_t" where
  "hash_init_direct alloc m = hash_init alloc m hash_direct_hfunc hash_direct_cmp"

definition hash_init_string ::
    "(u64 \<Rightarrow> bool) \<Rightarrow> (u64 \<Rightarrow> u8 list) \<Rightarrow> hash_t \<Rightarrow> int \<times> hash_t" where
  "hash_init_string alloc str m = hash_init alloc m (hash_string_hfunc str) (hash_string_cmp str)"

section \<open>The probe sequence\<close>

fun pindex :: "u64 \<Rightarrow> u64 \<Rightarrow> nat \<Rightarrow> u64" where
  "pindex mk h 0 = h AND mk"
| "pindex mk h (Suc j) = 5 * pindex mk h j + drop_bit (5 * j) h + 1"

definition pslot :: "hash_t \<Rightarrow> u64 \<Rightarrow> nat \<Rightarrow> nat" where
  "pslot m h j = unat (pindex (h_mask m) h j AND h_mask m)"

definition wf_table :: "hash_t \<Rightarrow> bool" where
  "wf_table m = (\<exists>n. 3 \<le> n \<and> n \<le> 31 \<and> length (h_table m) = 2 ^ n \<and> h_mask m = mask n)"

lemma pslot_less: "wf_table m \<Longrightarrow> pslot m h j < length (h_table m)"
  by (auto simp: wf_table_def pslot_def unat_and_mask)

lemma unat_probe_step:
  assumes "n \<le> 31"
  shows "unat (5 * x + 1 :: u64) mod 2 ^ n = (5 * unat x + 1) mod 2 ^ n"
proof -
  have "(2::nat) ^ n dvd 2 ^ 64" by (rule le_imp_power_dvd) (use assms in simp)
  then show ?thesis
    by (simp add: unat_word_ariths mod_mod_cancel mod_simps)
qed

lemma pindex_late:
  assumes "n \<le> 31"
  shows "unat (pindex mk h (13 + j)) mod 2 ^ n = probe_iter j (unat (pindex mk h 13)) mod 2 ^ n"
proof (induction j)
  case 0
  show ?case by simp
next
  case (Suc j)
  have z: "drop_bit (5 * (13 + j)) h = 0"
    by (rule bit_word_eqI) (auto simp: bit_drop_bit_eq dest: bit_imp_le_length)
  have "pindex mk h (13 + Suc j) = 5 * pindex mk h (13 + j) + 1"
    by (simp only: add_Suc_right pindex.simps z add_0_right)
  then have "unat (pindex mk h (13 + Suc j)) mod 2 ^ n =
      (5 * unat (pindex mk h (13 + j)) + 1) mod 2 ^ n"
    by (simp only: unat_probe_step [OF assms])
  also have "\<dots> = (5 * probe_iter j (unat (pindex mk h 13)) + 1) mod 2 ^ n"
    by (intro mod_add_cong mod_mult_cong refl Suc.IH)
  finally show ?case by simp
qed

lemma pslot_covers:
  assumes "wf_table m" "i < length (h_table m)"
  shows "\<exists>j. pslot m h j = i"
proof -
  obtain n where n: "n \<le> 31" "length (h_table m) = 2 ^ n" "h_mask m = mask n"
    using assms(1) by (auto simp: wf_table_def)
  obtain j where "probe_iter j (unat (pindex (mask n) h 13)) mod 2 ^ n = i"
    using probe_iter_covers assms(2) n(2) by metis
  then have "pslot m h (13 + j) = i"
    using pindex_late [OF n(1)] n(3) by (simp add: pslot_def unat_and_mask)
  then show ?thesis by blast
qed

definition probe_stop :: "hash_t \<Rightarrow> u64 \<Rightarrow> u64 \<Rightarrow> nat \<Rightarrow> bool" where
  "probe_stop m key h j =
     (let s = h_table m ! pslot m h j in s_mode s = SL_EMPTY \<or> slot_matches m key h s)"

text \<open>
  What the loop returns when it stops at \<open>J\<close>, having started at \<open>j\<close> with a remembered
  free slot \<open>free\<close>: the slot at \<open>J\<close>, but the first free slot on the way if that is empty.
\<close>

definition probe_result :: "hash_t \<Rightarrow> u64 \<Rightarrow> nat \<Rightarrow> nat \<Rightarrow> nat option \<Rightarrow> nat \<Rightarrow> bool" where
  "probe_result m h J j free r =
     (if s_mode (h_table m ! pslot m h J) = SL_EMPTY
      then (case free of
              Some f \<Rightarrow> r = f
            | None \<Rightarrow> \<exists>j'. j \<le> j' \<and> j' \<le> J \<and> r = pslot m h j' \<and> s_mode (h_table m ! r) \<noteq> SL_ACTIVE)
      else r = pslot m h J)"

lemma probe_result_step:
  assumes r: "probe_result m h J (Suc j) free' r" and "j \<le> J"
    and f: "free' = (if s_mode (h_table m ! pslot m h j) = SL_DELETED \<and> free = None
                     then Some (pslot m h j) else free)"
  shows "probe_result m h J j free r"
proof (cases "s_mode (h_table m ! pslot m h J) = SL_EMPTY \<and> free = None")
  case False
  then show ?thesis using r f by (cases free) (auto simp: probe_result_def)
next
  case True
  show ?thesis
  proof (cases "s_mode (h_table m ! pslot m h j) = SL_DELETED")
    case D: True
    then have "r = pslot m h j" using r f True by (simp add: probe_result_def)
    then show ?thesis using True D assms(2) by (auto simp: probe_result_def intro: exI [of _ j])
  next
    case False
    then obtain j' where "Suc j \<le> j'" "j' \<le> J" "r = pslot m h j'" "s_mode (h_table m ! r) \<noteq> SL_ACTIVE"
      using r f True by (auto simp: probe_result_def)
    then show ?thesis using True by (auto simp: probe_result_def intro!: exI [of _ j'])
  qed
qed

text \<open>The loop stops where the probe sequence first meets an empty or a matching slot.\<close>

lemma hash_probe_stops:
  assumes "j \<le> J" "probe_stop m key h J" "\<And>j'. j \<le> j' \<Longrightarrow> j' < J \<Longrightarrow> \<not> probe_stop m key h j'"
  shows "\<exists>r. hash_probe m key h (pindex (h_mask m) h j) (drop_bit (5 * j) h) (pslot m h j) free = Some r
    \<and> probe_result m h J j free r"
  using assms
proof (induction "J - j" arbitrary: j free)
  case 0
  then have "j = J" by simp
  with 0 show ?case
    by (subst hash_probe.simps)
       (auto simp: probe_stop_def probe_result_def Let_def slot_matches_def split: option.splits
             intro: exI [of _ J])
next
  case (Suc d)
  define free' where "free' = (if s_mode (h_table m ! pslot m h j) = SL_DELETED \<and> free = None
    then Some (pslot m h j) else free)"
  have ns: "\<not> probe_stop m key h j" using Suc by auto
  have step: "hash_probe m key h (pindex (h_mask m) h j) (drop_bit (5 * j) h) (pslot m h j) free =
     hash_probe m key h (pindex (h_mask m) h (Suc j)) (drop_bit (5 * Suc j) h) (pslot m h (Suc j)) free'"
    using ns by (subst hash_probe.simps)
      (simp add: probe_stop_def Let_def free'_def pslot_def drop_bit_drop_bit add.commute)
  have "\<exists>r. hash_probe m key h (pindex (h_mask m) h (Suc j)) (drop_bit (5 * Suc j) h) (pslot m h (Suc j)) free' = Some r
      \<and> probe_result m h J (Suc j) free' r"
    by (rule Suc.hyps(1)) (use Suc.hyps(2) Suc.prems in auto)
  then show ?case
    unfolding step using probe_result_step [OF _ Suc.prems(1) free'_def] by blast
qed

section \<open>The invariant\<close>

definition keq :: "hash_t \<Rightarrow> u64 \<Rightarrow> u64 \<Rightarrow> bool" where
  "keq m a b = (a = b \<or> h_hfunc m a = h_hfunc m b \<and> h_cmp m a b)"

definition active :: "hash_t \<Rightarrow> nat \<Rightarrow> bool" where
  "active m i = (i < length (h_table m) \<and> s_mode (h_table m ! i) = SL_ACTIVE)"

definition kof :: "hash_t \<Rightarrow> nat \<Rightarrow> u64" where
  "kof m i = s_key (h_table m ! i)"

text \<open>Slot \<open>i\<close> is on the probe path of hash code \<open>h\<close> and no empty slot comes before it.\<close>

definition reach :: "hash_t \<Rightarrow> u64 \<Rightarrow> nat \<Rightarrow> bool" where
  "reach m h i =
     (\<exists>j. pslot m h j = i \<and> (\<forall>j' < j. s_mode (h_table m ! pslot m h j') \<noteq> SL_EMPTY))"

definition nonempty_count :: "hash_t \<Rightarrow> nat" where
  "nonempty_count m = length (filter (\<lambda>s. s_mode s \<noteq> SL_EMPTY) (h_table m))"

definition active_count :: "hash_t \<Rightarrow> nat" where
  "active_count m = length (filter (\<lambda>s. s_mode s = SL_ACTIVE) (h_table m))"

definition wf_hash :: "hash_t \<Rightarrow> bool" where
  "wf_hash m \<longleftrightarrow> wf_table m \<and> equivp (keq m) \<and>
     h_fill m = int (nonempty_count m) \<and> h_count m = int (active_count m) \<and>
     (\<forall>i. active m i \<longrightarrow> s_hash (h_table m ! i) = h_hfunc m (kof m i) \<and>
        reach m (h_hfunc m (kof m i)) i) \<and>
     (\<forall>i i'. active m i \<longrightarrow> active m i' \<longrightarrow> keq m (kof m i) (kof m i') \<longrightarrow> i = i')"

definition has_room :: "hash_t \<Rightarrow> bool" where
  "has_room m = (h_fill m < int (length (h_table m)))"

text \<open>The table between two operations.\<close>

definition hash_inv :: "hash_t \<Rightarrow> bool" where
  "hash_inv m = (wf_hash m \<and> 3 * h_fill m < 2 * int (length (h_table m)))"

definition hmap :: "hash_t \<Rightarrow> u64 \<rightharpoonup> u64" where
  "hmap m k = map_option s_value
     (List.find (\<lambda>s. s_mode s = SL_ACTIVE \<and> keq m (s_key s) k) (h_table m))"

lemma wf_hashD:
  assumes "wf_hash m"
  shows "wf_table m" "equivp (keq m)" "h_fill m = int (nonempty_count m)"
    "h_count m = int (active_count m)"
    "active m i \<Longrightarrow> s_hash (h_table m ! i) = h_hfunc m (kof m i)"
    "active m i \<Longrightarrow> reach m (h_hfunc m (kof m i)) i"
    "active m i \<Longrightarrow> active m i' \<Longrightarrow> keq m (kof m i) (kof m i') \<Longrightarrow> i = i'"
  using assms by (auto simp: wf_hash_def)

lemma keq_sym: "wf_hash m \<Longrightarrow> keq m a b \<Longrightarrow> keq m b a"
  using wf_hashD(2) equivp_symp by metis

lemma keq_trans: "wf_hash m \<Longrightarrow> keq m a b \<Longrightarrow> keq m b c \<Longrightarrow> keq m a c"
  using wf_hashD(2) equivp_transp by metis

lemma keq_refl [simp]: "keq m a a"
  by (simp add: keq_def)

lemma keq_hash: "keq m a b \<Longrightarrow> h_hfunc m a = h_hfunc m b"
  by (auto simp: keq_def)

lemma slot_matches_keq:
  assumes "wf_hash m" "i < length (h_table m)"
  shows "slot_matches m key (h_hfunc m key) (h_table m ! i) \<longleftrightarrow> active m i \<and> keq m (kof m i) key"
  using wf_hashD(5) [OF assms(1), of i] assms(2)
  by (auto simp: slot_matches_def active_def keq_def kof_def)

lemma hmap_Some_iff:
  assumes "wf_hash m"
  shows "hmap m k = Some v \<longleftrightarrow> (\<exists>i. active m i \<and> keq m (kof m i) k \<and> v = s_value (h_table m ! i))"
proof
  assume "hmap m k = Some v"
  then show "\<exists>i. active m i \<and> keq m (kof m i) k \<and> v = s_value (h_table m ! i)"
    by (auto simp: hmap_def find_Some_iff active_def kof_def)
next
  assume "\<exists>i. active m i \<and> keq m (kof m i) k \<and> v = s_value (h_table m ! i)"
  then obtain i where i: "active m i" "keq m (kof m i) k" "v = s_value (h_table m ! i)" by blast
  have "List.find (\<lambda>s. s_mode s = SL_ACTIVE \<and> keq m (s_key s) k) (h_table m) = Some (h_table m ! i)"
    unfolding find_Some_iff
  proof (intro exI [of _ i] conjI allI impI)
    fix j assume j: "j < i"
    show "\<not> (s_mode (h_table m ! j) = SL_ACTIVE \<and> keq m (s_key (h_table m ! j)) k)"
    proof
      assume a: "s_mode (h_table m ! j) = SL_ACTIVE \<and> keq m (s_key (h_table m ! j)) k"
      then have "active m j" using j i(1) by (simp add: active_def)
      moreover have "keq m (kof m j) (kof m i)"
        using a i(2) keq_sym [OF assms] keq_trans [OF assms] unfolding kof_def by blast
      ultimately show False using wf_hashD(7) [OF assms] i(1) j by blast
    qed
  qed (use i in \<open>auto simp: active_def kof_def\<close>)
  with i show "hmap m k = Some v" by (simp add: hmap_def)
qed

lemma hmap_None_iff:
  assumes "wf_hash m"
  shows "hmap m k = None \<longleftrightarrow> (\<forall>i. active m i \<longrightarrow> \<not> keq m (kof m i) k)"
  using hmap_Some_iff [OF assms] by (metis not_None_eq)

lemma has_room_ex_empty:
  assumes "wf_hash m" "has_room m"
  shows "\<exists>i < length (h_table m). s_mode (h_table m ! i) = SL_EMPTY"
  using length_filter_less_ex [of "\<lambda>s. s_mode s \<noteq> SL_EMPTY" "h_table m"] wf_hashD(3) [OF assms(1)]
    assms(2) by (auto simp: has_room_def nonempty_count_def)

lemma hash_inv_room: "hash_inv m \<Longrightarrow> wf_hash m \<and> has_room m"
  using wf_hashD(3) [of m] by (auto simp: hash_inv_def has_room_def)

section \<open>Lookup\<close>

lemma hash_lookup_spec:
  assumes wf: "wf_hash m" and "has_room m"
  obtains r where "hash_lookup m key (h_hfunc m key) = Some r" "r < length (h_table m)"
    and "active m r \<Longrightarrow> keq m (kof m r) key"
    and "\<not> active m r \<Longrightarrow> hmap m key = None \<and> reach m (h_hfunc m key) r"
proof -
  let ?h = "h_hfunc m key"
  note wt = wf_hashD(1) [OF wf]
  obtain i where i: "i < length (h_table m)" "s_mode (h_table m ! i) = SL_EMPTY"
    using has_room_ex_empty [OF assms] by blast
  obtain j where "pslot m ?h j = i" using pslot_covers [OF wt i(1)] by blast
  then have "probe_stop m key ?h j" using i(2) by (simp add: probe_stop_def)
  then obtain J where J: "probe_stop m key ?h J" and first: "\<And>j'. j' < J \<Longrightarrow> \<not> probe_stop m key ?h j'"
    using exists_least_iff [of "probe_stop m key ?h"] by metis
  have ne: "s_mode (h_table m ! pslot m ?h j') \<noteq> SL_EMPTY" if "j' < J" for j'
    using first [OF that] by (auto simp: probe_stop_def Let_def)
  obtain r where r: "hash_lookup m key ?h = Some r" and pr: "probe_result m ?h J 0 None r"
    using hash_probe_stops [of 0 J m key ?h None] J first
    by (auto simp: hash_lookup_def Let_def pslot_def)
  show ?thesis
  proof (cases "s_mode (h_table m ! pslot m ?h J) = SL_EMPTY")
    case False
    then have rJ: "r = pslot m ?h J" using pr by (simp add: probe_result_def)
    then have "r < length (h_table m)" using pslot_less [OF wt] by simp
    moreover have "active m r \<and> keq m (kof m r) key"
      using J False rJ slot_matches_keq [OF wf] calculation by (auto simp: probe_stop_def Let_def)
    ultimately show ?thesis using that [OF r] by blast
  next
    case True
    then obtain j' where j': "j' \<le> J" "r = pslot m ?h j'" "s_mode (h_table m ! r) \<noteq> SL_ACTIVE"
      using pr by (auto simp: probe_result_def)
    have rl: "r < length (h_table m)" using j'(2) pslot_less [OF wt] by simp
    have na: "\<not> active m r" using j'(3) by (simp add: active_def)
    have "hmap m key = None"
      unfolding hmap_None_iff [OF wf]
    proof (intro allI impI notI)
      fix q assume q: "active m q" "keq m (kof m q) key"
      then obtain k where k: "pslot m ?h k = q"
        "\<forall>j' < k. s_mode (h_table m ! pslot m ?h j') \<noteq> SL_EMPTY"
        using wf_hashD(6) [OF wf q(1)] keq_hash [OF q(2)] by (auto simp: reach_def)
      have "\<not> J < k" using k(2) True by blast
      moreover have "k \<noteq> J" using k(1) True q(1) by (auto simp: active_def)
      ultimately have "k < J" by simp
      moreover have "probe_stop m key ?h k"
        using k(1) q slot_matches_keq [OF wf] by (auto simp: probe_stop_def Let_def active_def)
      ultimately show False using first by blast
    qed
    moreover have "reach m ?h r"
      unfolding reach_def using j' ne by (intro exI [of _ j']) auto
    ultimately show ?thesis using that [OF r rl] na by blast
  qed
qed

section \<open>Storing a slot\<close>

definition store_slot :: "hash_t \<Rightarrow> nat \<Rightarrow> hash_slot_t \<Rightarrow> hash_t" where
  "store_slot m r s =
     m\<lparr>h_table := (h_table m)[r := s],
       h_fill := h_fill m + of_bool (s_mode (h_table m ! r) = SL_EMPTY),
       h_count := h_count m - of_bool (s_mode (h_table m ! r) = SL_ACTIVE)
                  + of_bool (s_mode s = SL_ACTIVE)\<rparr>"

lemma store_slot_simps [simp]:
  "h_table (store_slot m r s) = (h_table m)[r := s]"
  "h_mask (store_slot m r s) = h_mask m"
  "h_hfunc (store_slot m r s) = h_hfunc m"
  "h_cmp (store_slot m r s) = h_cmp m"
  "h_fill (store_slot m r s) = h_fill m + of_bool (s_mode (h_table m ! r) = SL_EMPTY)"
  by (simp_all add: store_slot_def)

lemma pslot_store_slot [simp]: "pslot (store_slot m r s) = pslot m"
  by (simp add: pslot_def fun_eq_iff)

lemma keq_store_slot [simp]: "keq (store_slot m r s) = keq m"
  by (simp add: keq_def fun_eq_iff)

lemma active_store_slot:
  "r < length (h_table m) \<Longrightarrow>
    active (store_slot m r s) i \<longleftrightarrow> (if i = r then s_mode s = SL_ACTIVE else active m i)"
  by (auto simp: active_def)

lemma kof_store_slot:
  "r < length (h_table m) \<Longrightarrow> kof (store_slot m r s) i = (if i = r then s_key s else kof m i)"
  by (auto simp: kof_def)

lemma reach_store_slot:
  assumes "reach m h i" "s_mode s \<noteq> SL_EMPTY"
  shows "reach (store_slot m r s) h i"
proof -
  obtain j where j: "pslot m h j = i" "\<forall>j' < j. s_mode (h_table m ! pslot m h j') \<noteq> SL_EMPTY"
    using assms(1) by (auto simp: reach_def)
  have "s_mode ((h_table m)[r := s] ! q) \<noteq> SL_EMPTY" if "s_mode (h_table m ! q) \<noteq> SL_EMPTY" for q
    using that assms(2)
    by (cases "r < length (h_table m)"; cases "q = r") (simp_all add: list_update_beyond)
  with j show ?thesis by (auto simp: reach_def intro: exI [of _ j])
qed

lemma wf_hash_store:
  assumes wf: "wf_hash m" and r: "r < length (h_table m)" and ne: "s_mode s \<noteq> SL_EMPTY"
    and ac: "s_mode s = SL_ACTIVE \<Longrightarrow> s_hash s = h_hfunc m (s_key s) \<and> reach m (h_hfunc m (s_key s)) r \<and>
      (\<forall>i. active m i \<longrightarrow> i \<noteq> r \<longrightarrow> \<not> keq m (kof m i) (s_key s))"
  shows "wf_hash (store_slot m r s)"
  unfolding wf_hash_def
proof (intro conjI)
  show "wf_table (store_slot m r s)" using wf_hashD(1) [OF wf] by (simp add: wf_table_def)
  show "equivp (keq (store_slot m r s))" using wf_hashD(2) [OF wf] by simp
  show "h_fill (store_slot m r s) = int (nonempty_count (store_slot m r s))"
    using wf_hashD(3) [OF wf] ne length_filter_update [OF r, of "\<lambda>s. s_mode s \<noteq> SL_EMPTY" s]
    by (auto simp: nonempty_count_def)
  show "h_count (store_slot m r s) = int (active_count (store_slot m r s))"
    using wf_hashD(4) [OF wf] length_filter_update [OF r, of "\<lambda>s. s_mode s = SL_ACTIVE" s]
    by (simp add: active_count_def store_slot_def)
  show "\<forall>i. active (store_slot m r s) i \<longrightarrow>
      s_hash (h_table (store_slot m r s) ! i) = h_hfunc (store_slot m r s) (kof (store_slot m r s) i) \<and>
      reach (store_slot m r s) (h_hfunc (store_slot m r s) (kof (store_slot m r s) i)) i"
    using wf_hashD(5,6) [OF wf] ac ne r
    by (auto simp: active_store_slot kof_store_slot reach_store_slot)
  show "\<forall>i i'. active (store_slot m r s) i \<longrightarrow> active (store_slot m r s) i' \<longrightarrow>
      keq (store_slot m r s) (kof (store_slot m r s) i) (kof (store_slot m r s) i') \<longrightarrow> i = i'"
  proof (intro allI impI)
    fix i i'
    assume a: "active (store_slot m r s) i" "active (store_slot m r s) i'"
      "keq (store_slot m r s) (kof (store_slot m r s) i) (kof (store_slot m r s) i')"
    note b = a [unfolded active_store_slot [OF r] kof_store_slot [OF r] keq_store_slot]
    show "i = i'"
    proof (cases "i = r"; cases "i' = r")
      assume c: "i = r" "i' \<noteq> r"
      then have "active m i'" "keq m (kof m i') (s_key s)" "s_mode s = SL_ACTIVE"
        using b keq_sym [OF wf] by simp_all
      then show ?thesis using ac c by simp
    next
      assume c: "i \<noteq> r" "i' = r"
      then have "active m i" "keq m (kof m i) (s_key s)" "s_mode s = SL_ACTIVE"
        using b by simp_all
      then show ?thesis using ac c by simp
    next
      assume c: "i \<noteq> r" "i' \<noteq> r"
      then have "active m i" "active m i'" "keq m (kof m i) (kof m i')" using b by simp_all
      then show ?thesis by (rule wf_hashD(7) [OF wf])
    qed simp
  qed
qed

lemma hmap_store:
  assumes wf: "wf_hash m" and wf': "wf_hash (store_slot m r s)" and r: "r < length (h_table m)"
  shows "hmap (store_slot m r s) k =
    (if s_mode s = SL_ACTIVE \<and> keq m (s_key s) k then Some (s_value s)
     else if active m r \<and> keq m (kof m r) k then None else hmap m k)"
proof -
  have "hmap (store_slot m r s) k = Some v \<longleftrightarrow>
      s_mode s = SL_ACTIVE \<and> keq m (s_key s) k \<and> v = s_value s \<or>
      (\<exists>i. i \<noteq> r \<and> active m i \<and> keq m (kof m i) k \<and> v = s_value (h_table m ! i))" for v
    using r by (auto simp: hmap_Some_iff [OF wf'] active_store_slot kof_store_slot)
  note A = this
  consider "s_mode s = SL_ACTIVE \<and> keq m (s_key s) k"
    | "\<not> (s_mode s = SL_ACTIVE \<and> keq m (s_key s) k)" "active m r \<and> keq m (kof m r) k"
    | "\<not> (s_mode s = SL_ACTIVE \<and> keq m (s_key s) k)" "\<not> (active m r \<and> keq m (kof m r) k)"
    by blast
  then show ?thesis
  proof cases
    case 1
    then show ?thesis using A [of "s_value s"] by simp
  next
    case 2
    have "\<not> (\<exists>i. i \<noteq> r \<and> active m i \<and> keq m (kof m i) k)"
      using 2(2) wf_hashD(7) [OF wf] keq_sym [OF wf] keq_trans [OF wf] by blast
    then have "hmap (store_slot m r s) k = None" using A 2(1) by (metis not_None_eq)
    then show ?thesis using 2 by simp
  next
    case 3
    then have "hmap (store_slot m r s) k = Some v \<longleftrightarrow> hmap m k = Some v" for v
      using A [of v] hmap_Some_iff [OF wf, of k v] by metis
    then have "hmap (store_slot m r s) k = hmap m k" by (metis not_None_eq)
    then show ?thesis using 3 by (simp only: if_False if_not_P)
  qed
qed


section \<open>Rebuilding the table\<close>

definition no_deleted :: "hash_t \<Rightarrow> bool" where
  "no_deleted m = (\<forall>s \<in> set (h_table m). s_mode s \<noteq> SL_DELETED)"

definition live :: "hash_slot_t \<Rightarrow> bool" where
  "live s = (s_mode s = SL_ACTIVE)"

text \<open>The old slots still to copy: their hash codes are right and no two hold equal keys.\<close>

definition copyable :: "hash_t \<Rightarrow> hash_slot_t list \<Rightarrow> bool" where
  "copyable m olds =
     ((\<forall>s \<in> set olds. live s \<longrightarrow> s_hash s = h_hfunc m (s_key s)) \<and>
      sorted_wrt (\<lambda>a b. live a \<longrightarrow> live b \<longrightarrow> \<not> keq m (s_key a) (s_key b)) olds)"

definition slots_map :: "hash_t \<Rightarrow> hash_slot_t list \<Rightarrow> u64 \<rightharpoonup> u64" where
  "slots_map m ss k = map_option s_value (List.find (\<lambda>s. live s \<and> keq m (s_key s) k) ss)"

lemma hmap_slots_map: "hmap m = slots_map m (h_table m)"
  by (simp add: hmap_def slots_map_def live_def fun_eq_iff)

lemma hash_copy_step:
  assumes wf: "wf_hash m" and room: "has_room m" and nd: "no_deleted m"
    and lv: "live old" and hs: "s_hash old = h_hfunc m (s_key old)" and new: "hmap m (s_key old) = None"
  obtains r where "hash_lookup m (s_key old) (h_hfunc m (s_key old)) = Some r"
    and "m\<lparr>h_table := (h_table m)[r := old\<lparr>s_mode := SL_ACTIVE\<rparr>], h_fill := h_fill m + 1,
           h_count := h_count m + 1\<rparr> = store_slot m r old"
    and "wf_hash (store_slot m r old)" and "no_deleted (store_slot m r old)"
    and "h_fill (store_slot m r old) = h_fill m + 1"
    and "\<And>k. hmap (store_slot m r old) k = (if keq m (s_key old) k then Some (s_value old) else hmap m k)"
proof -
  obtain r where r: "hash_lookup m (s_key old) (h_hfunc m (s_key old)) = Some r"
    and rl: "r < length (h_table m)" and ra: "active m r \<Longrightarrow> keq m (kof m r) (s_key old)"
    and rn: "\<not> active m r \<Longrightarrow> hmap m (s_key old) = None \<and> reach m (h_hfunc m (s_key old)) r"
    using hash_lookup_spec [OF wf room] by metis
  have na: "\<not> active m r" using ra new hmap_None_iff [OF wf] by blast
  have em: "s_mode (h_table m ! r) = SL_EMPTY"
    using na rl nd by (cases "s_mode (h_table m ! r)") (auto simp: active_def no_deleted_def)
  have old: "old\<lparr>s_mode := SL_ACTIVE\<rparr> = old" "s_mode old = SL_ACTIVE" using lv by (simp_all add: live_def)
  have eq: "m\<lparr>h_table := (h_table m)[r := old\<lparr>s_mode := SL_ACTIVE\<rparr>], h_fill := h_fill m + 1,
           h_count := h_count m + 1\<rparr> = store_slot m r old"
    by (simp add: store_slot_def old em)
  have wf': "wf_hash (store_slot m r old)"
    by (rule wf_hash_store [OF wf rl]) (use old hs rn na new hmap_None_iff [OF wf] in auto)
  have "no_deleted (store_slot m r old)"
    using nd old set_update_subset_insert [of "h_table m" r old] by (auto simp: no_deleted_def)
  moreover have "hmap (store_slot m r old) k =
      (if keq m (s_key old) k then Some (s_value old) else hmap m k)" for k
    using hmap_store [OF wf wf' rl, of k] old na by simp
  ultimately show ?thesis using that [OF r eq wf'] em by simp
qed

lemma slots_map_None: "slots_map m ss k = None \<longleftrightarrow> (\<forall>s \<in> set ss. live s \<longrightarrow> \<not> keq m (s_key s) k)"
  by (auto simp: slots_map_def find_None_iff)

lemma slots_map_Cons: "slots_map m (s # ss) k =
    (if live s \<and> keq m (s_key s) k then Some (s_value s) else slots_map m ss k)"
  by (simp add: slots_map_def)

definition same_shape :: "hash_t \<Rightarrow> hash_t \<Rightarrow> bool" where
  "same_shape m m' = (length (h_table m') = length (h_table m) \<and> h_mask m' = h_mask m \<and>
     h_hfunc m' = h_hfunc m \<and> h_cmp m' = h_cmp m)"

lemma same_shape_keq: "same_shape m m' \<Longrightarrow> keq m' = keq m"
  by (simp add: same_shape_def keq_def fun_eq_iff)

lemma hash_copy_spec:
  assumes "wf_hash m" "no_deleted m" "copyable m olds"
    and "h_fill m + int (length (filter live olds)) < int (length (h_table m))"
    and "\<forall>s \<in> set olds. live s \<longrightarrow> hmap m (s_key s) = None"
  shows "\<exists>m'. hash_copy m olds = Some m' \<and> wf_hash m' \<and> same_shape m m' \<and>
    h_fill m' = h_fill m + int (length (filter live olds)) \<and>
    (\<forall>k. hmap m' k = (case slots_map m olds k of None \<Rightarrow> hmap m k | Some v \<Rightarrow> Some v))"
  using assms
proof (induction olds arbitrary: m)
  case Nil
  then show ?case by (simp add: same_shape_def slots_map_def)
next
  case (Cons s ss)
  show ?case
  proof (cases "live s")
    case False
    have "copyable m ss" using Cons.prems(3) by (simp add: copyable_def)
    then show ?thesis
      using Cons.IH [OF Cons.prems(1,2)] Cons.prems(4,5) False
      by (simp add: slots_map_Cons) (simp add: live_def)
  next
    case lv: True
    have room: "has_room m" using Cons.prems(4) lv by (simp add: has_room_def)
    have hs: "s_hash s = h_hfunc m (s_key s)" using Cons.prems(3) lv by (simp add: copyable_def)
    obtain r where r: "hash_lookup m (s_key s) (h_hfunc m (s_key s)) = Some r"
      and st: "m\<lparr>h_table := (h_table m)[r := s\<lparr>s_mode := SL_ACTIVE\<rparr>], h_fill := h_fill m + 1,
           h_count := h_count m + 1\<rparr> = store_slot m r s"
      and wf': "wf_hash (store_slot m r s)" and nd': "no_deleted (store_slot m r s)"
      and fl: "h_fill (store_slot m r s) = h_fill m + 1"
      and hm: "\<And>k. hmap (store_slot m r s) k = (if keq m (s_key s) k then Some (s_value s) else hmap m k)"
      using hash_copy_step [OF Cons.prems(1) room Cons.prems(2) lv hs] Cons.prems(5) lv by auto
    have "copyable (store_slot m r s) ss" using Cons.prems(3) by (simp add: copyable_def)
    moreover have ne: "\<not> keq m (s_key s) (s_key t)" if "t \<in> set ss" "live t" for t
      using Cons.prems(3) that lv by (simp add: copyable_def)
    ultimately obtain m' where m': "hash_copy (store_slot m r s) ss = Some m'" "wf_hash m'"
      "same_shape (store_slot m r s) m'"
      "h_fill m' = h_fill (store_slot m r s) + int (length (filter live ss))"
      "\<And>k. hmap m' k = (case slots_map (store_slot m r s) ss k of
          None \<Rightarrow> hmap (store_slot m r s) k | Some v \<Rightarrow> Some v)"
      using Cons.IH [OF wf' nd'] Cons.prems(4,5) fl lv hm by (auto simp del: store_slot_simps(5))
    have sm: "slots_map (store_slot m r s) ss = slots_map m ss"
      by (simp add: slots_map_def fun_eq_iff)
    have "slots_map m ss k = None" if "keq m (s_key s) k" for k
      unfolding slots_map_None using ne keq_trans [OF Cons.prems(1)] keq_sym [OF Cons.prems(1)] that
      by blast
    then have "hmap m' k = (case slots_map m (s # ss) k of None \<Rightarrow> hmap m k | Some v \<Rightarrow> Some v)" for k
      using m'(5) lv by (simp add: sm hm slots_map_Cons split: option.split)
    moreover have "hash_copy m (s # ss) = Some m'"
      using lv r m'(1) by (simp add: st [symmetric]) (simp add: live_def)
    moreover have "same_shape m m'" using m'(3) by (simp add: same_shape_def)
    ultimately show ?thesis using m'(2,4) fl lv by simp
  qed
qed


text \<open>The memory the kernel manages bounds what \<^verbatim>\<open>malloc\<close> can hand out.\<close>

definition alloc_bounded :: "(u64 \<Rightarrow> bool) \<Rightarrow> bool" where
  "alloc_bounded alloc = (\<forall>b. alloc b \<longrightarrow> unat b \<le> 2 ^ 36)"

definition fresh_table :: "hash_t \<Rightarrow> nat \<Rightarrow> hash_t" where
  "fresh_table m n = m\<lparr>h_fill := 0, h_count := 0, h_mask := mask n,
     h_table := replicate (2 ^ n) empty_slot\<rparr>"

lemma unat_two_power_64: "n < 64 \<Longrightarrow> unat (2 ^ n :: u64) = 2 ^ n"
proof -
  assume "n < 64"
  then have "(2::nat) ^ n < 2 ^ 64" by (intro power_strict_increasing) simp_all
  then have "unat (of_nat (2 ^ n) :: u64) = 2 ^ n" by (simp only: unat_of_nat mod_less) simp
  then show ?thesis by simp
qed

lemma unat_two_power: "n \<le> 32 \<Longrightarrow> unat (2 ^ n :: u64) = 2 ^ n"
  by (simp add: unat_two_power_64)

lemma hash_initialize_cases:
  assumes "n \<le> 32"
  shows "hash_initialize alloc m (2 ^ n) =
    (if alloc (2 ^ n * 32) then (0, fresh_table m n) else (-1, m))"
proof -
  have "unat (2 ^ n :: u64) = 2 ^ n" using assms by (rule unat_two_power)
  then show ?thesis
    by (simp add: hash_initialize_def fresh_table_def mask_eq_exp_minus_1)
qed

lemma fresh_table_facts:
  assumes "3 \<le> n" "n \<le> 31" "equivp (keq m)"
  shows "wf_hash (fresh_table m n)" "no_deleted (fresh_table m n)" "hmap (fresh_table m n) = Map.empty"
    "keq (fresh_table m n) = keq m"
proof -
  show k: "keq (fresh_table m n) = keq m" by (simp add: keq_def fresh_table_def fun_eq_iff)
  have na: "\<not> active (fresh_table m n) i" for i by (simp add: active_def fresh_table_def empty_slot_def)
  show wf: "wf_hash (fresh_table m n)"
    using assms na k
    by (auto simp: wf_hash_def wf_table_def nonempty_count_def active_count_def)
       (auto simp: fresh_table_def empty_slot_def)
  show "no_deleted (fresh_table m n)" by (simp add: no_deleted_def fresh_table_def empty_slot_def)
  show "hmap (fresh_table m n) = Map.empty" using hmap_None_iff [OF wf] na by (simp add: fun_eq_iff)
qed

lemma wf_copyable:
  assumes "wf_hash m"
  shows "copyable m (h_table m)"
  unfolding copyable_def sorted_wrt_iff_nth_less
proof (intro conjI ballI impI allI)
  fix s assume "s \<in> set (h_table m)" "live s"
  then obtain i where "active m i" "h_table m ! i = s" by (auto simp: in_set_conv_nth active_def live_def)
  then show "s_hash s = h_hfunc m (s_key s)" using wf_hashD(5) [OF assms] by (auto simp: kof_def)
next
  fix i j assume "i < j" "j < length (h_table m)" "live (h_table m ! i)" "live (h_table m ! j)"
  then show "\<not> keq m (s_key (h_table m ! i)) (s_key (h_table m ! j))"
    using wf_hashD(7) [OF assms, of i j] by (auto simp: active_def live_def kof_def)
qed

lemma hash_rebuild_spec:
  assumes wf: "wf_hash m" and n: "3 \<le> n" "n \<le> 31" and room: "active_count m < 2 ^ n"
  shows "\<exists>m'. hash_rebuild alloc m (2 ^ n) = Some (if alloc (2 ^ n * 32) then (0, m') else (-1, m)) \<and>
    wf_hash m' \<and> hmap m' = hmap m \<and> keq m' = keq m \<and> length (h_table m') = 2 ^ n \<and>
    h_fill m' = int (active_count m) \<and> h_hfunc m' = h_hfunc m \<and> h_cmp m' = h_cmp m"
proof -
  let ?f = "fresh_table m n"
  note ff = fresh_table_facts [OF n wf_hashD(2) [OF wf]]
  have len: "length (h_table ?f) = 2 ^ n" "h_fill ?f = 0" "h_hfunc ?f = h_hfunc m" "h_cmp ?f = h_cmp m"
    by (simp_all add: fresh_table_def)
  have ac: "active_count m = length (filter live (h_table m))"
    by (simp add: active_count_def live_def [abs_def])
  have cp: "copyable ?f (h_table m)"
    using wf_copyable [OF wf] ff(4) len(3) by (simp add: copyable_def)
  obtain m' where m': "hash_copy ?f (h_table m) = Some m'" "wf_hash m'" "same_shape ?f m'"
    "h_fill m' = h_fill ?f + int (length (filter live (h_table m)))"
    "\<And>k. hmap m' k = (case slots_map ?f (h_table m) k of None \<Rightarrow> hmap ?f k | Some v \<Rightarrow> Some v)"
    using hash_copy_spec [OF ff(1,2) cp] room ff(3) len ac by auto
  have "slots_map ?f = slots_map m" by (simp add: slots_map_def ff(4) fun_eq_iff)
  then have "hmap m' = hmap m"
    using m'(5) ff(3) by (auto simp: fun_eq_iff hmap_slots_map split: option.split)
  then show ?thesis
    using m' ff(4) same_shape_keq [OF m'(3)] len ac n
    by (auto simp: hash_rebuild_def hash_initialize_cases same_shape_def split: if_splits)
qed

lemma active_le_nonempty: "active_count m \<le> nonempty_count m"
  unfolding active_count_def nonempty_count_def by (rule length_filter_mono) simp

lemma nonempty_le_length: "nonempty_count m \<le> length (h_table m)"
  by (simp add: nonempty_count_def)


lemma word_size_facts:
  assumes "3 \<le> n" "n \<le> 31"
  shows "mask n + 1 = (2 ^ n :: u64)" "sint (2 ^ n :: u64) = 2 ^ n"
    "push_bit 1 (2 ^ n :: u64) = 2 ^ Suc n" "sint (2 ^ Suc n :: u64) = 2 ^ Suc n"
    "3 < n \<Longrightarrow> signed_drop_bit 1 (2 ^ n :: u64) = 2 ^ (n - 1)"
    "(3 < n) = (sint (2 ^ n :: u64) > sint HASH_MINSIZE)"
proof -
  have si: "sint (2 ^ k :: u64) = 2 ^ k" if "k \<le> 32" for k
  proof -
    have lt: "(2::int) ^ k < 2 ^ 63" using that by (intro power_strict_increasing) simp_all
    have lo: "- 9223372036854775808 \<le> (2::int) ^ k" by (rule order.trans [of _ 0]) simp_all
    have "uint (2 ^ k :: u64) = int (2 ^ k)"
      unfolding uint_nat using unat_two_power [OF that] by simp
    then show ?thesis
      using lt lo unfolding sint_uint by (simp, intro signed_take_bit_int_eq_self) simp_all
  qed
  show "mask n + 1 = (2 ^ n :: u64)" by (simp add: mask_eq_exp_minus_1)
  show s: "sint (2 ^ n :: u64) = 2 ^ n" "sint (2 ^ Suc n :: u64) = 2 ^ Suc n"
    using si [of n] si [of "Suc n"] assms by simp_all
  show "push_bit 1 (2 ^ n :: u64) = 2 ^ Suc n" by (simp add: push_bit_eq_mult)
  show "(3 < n) = (sint (2 ^ n :: u64) > sint HASH_MINSIZE)"
    unfolding s HASH_MINSIZE_def using power_strict_increasing_iff [of "2::int" 3 n] by simp
  show "signed_drop_bit 1 (2 ^ n :: u64) = 2 ^ (n - 1)" if "3 < n"
  proof (rule bit_word_eqI)
    fix k assume "k < LENGTH(64)"
    then show "bit (signed_drop_bit 1 (2 ^ n :: u64)) k = bit (2 ^ (n - 1) :: u64) k"
      using assms that by (auto simp: bit_signed_drop_bit_iff bit_exp_iff)
  qed
qed

text \<open>
  How large a table gets: after \<open>j\<close> commands at most \<open>j\<close> slots were filled, the slots are the first
  eight or at most \<open>3 * j\<close>, and no request goes beyond \<open>96 * j\<close> bytes.
\<close>

definition sized :: "nat \<Rightarrow> hash_t \<Rightarrow> bool" where
  "sized j m \<longleftrightarrow> h_fill m \<le> int j \<and> (length (h_table m) \<le> 8 \<or> length (h_table m) \<le> 3 * j)"

definition refused :: "nat \<Rightarrow> (u64 \<Rightarrow> bool) \<Rightarrow> bool" where
  "refused j alloc \<longleftrightarrow> (\<exists>b. unat b \<le> 96 * j \<and> \<not> alloc b)"

lemma refusedI:
  assumes "\<not> alloc (2 ^ n * 32)" "n \<le> 32" "2 ^ n \<le> 3 * j"
  shows "refused j alloc"
proof -
  have "unat (2 ^ n * 32 :: u64) = unat (2 ^ (n + 5) :: u64)" by (simp add: power_add)
  also have "... = 2 ^ (n + 5)" by (rule unat_two_power_64) (use assms(2) in simp)
  also have "... \<le> 96 * j" using assms(3) by (simp add: power_add)
  finally show ?thesis using assms(1) by (auto simp: refused_def)
qed

lemma hash_update_spec:
  assumes wf: "wf_hash m" and al: "alloc_bounded alloc"
  shows "\<exists>r m'. hash_update alloc m = Some (r, m') \<and> wf_hash m' \<and> hmap m' = hmap m \<and>
    keq m' = keq m \<and> h_hfunc m' = h_hfunc m \<and> h_cmp m' = h_cmp m \<and>
    (r = 0 \<and> hash_inv m' \<and> (\<forall>j. sized j m \<longrightarrow> sized j m') \<or>
     r = -1 \<and> m' = m \<and> (\<forall>j. sized j m \<longrightarrow> refused j alloc))"
proof -
  obtain n where n: "3 \<le> n" "n \<le> 31" "length (h_table m) = 2 ^ n" "h_mask m = mask n"
    using wf_hashD(1) [OF wf] by (auto simp: wf_table_def)
  note ws = word_size_facts [OF n(1,2)]
  have cnt: "active_count m \<le> 2 ^ n" "int (active_count m) \<le> h_fill m"
    using active_le_nonempty [of m] nonempty_le_length [of m] n(3) wf_hashD(3) [OF wf] by auto
  show ?thesis
  proof (cases "3 * h_fill m \<ge> 2 * sint (h_mask m + 1)")
    case True
    have upd: "hash_update alloc m = hash_rebuild alloc m (2 ^ Suc n)"
      using True unfolding hash_update_def Let_def n(4) ws(1) ws(3) ws(4) ws(2) by simp
    have big: "2 * 2 ^ n \<le> 3 * h_fill m" using True by (simp only: n(4) ws(1,2))
    have grown: "2 ^ Suc n \<le> 3 * j" if "sized j m" for j
    proof -
      have "int (2 ^ Suc n) \<le> int (3 * j)" using that big by (simp add: sized_def)
      then show ?thesis by (simp only: of_nat_le_iff)
    qed
    show ?thesis
    proof (cases "alloc (2 ^ Suc n * 32)")
      case False
      then have "hash_rebuild alloc m (2 ^ Suc n) = Some (-1, m)"
        using hash_initialize_cases [of "Suc n" alloc m] n(2) by (simp add: hash_rebuild_def)
      moreover have "refused j alloc" if "sized j m" for j
        by (rule refusedI [where n = "Suc n" and alloc = alloc and j = j, OF False]) (use that n(2) grown [of j] in auto)
      ultimately show ?thesis using wf by (simp add: upd)
    next
      case a: True
      have "n < 31"
      proof (rule ccontr)
        assume "\<not> n < 31"
        then have "n = 31" using n(2) by simp
        then show False using al a by (auto simp: alloc_bounded_def dest: spec)
      qed
      have "active_count m < 2 ^ Suc n" using cnt(1) by (rule le_less_trans) simp
      with \<open>n < 31\<close> obtain m' where m': "hash_rebuild alloc m (2 ^ Suc n) = Some (0, m')" "wf_hash m'"
        "hmap m' = hmap m" "keq m' = keq m" "length (h_table m') = 2 ^ Suc n"
        "h_fill m' = int (active_count m)" "h_hfunc m' = h_hfunc m" "h_cmp m' = h_cmp m"
        using hash_rebuild_spec [OF wf, of "Suc n" alloc] n(1) a by auto
      have "int (active_count m) \<le> 2 ^ n" using cnt(1) by (metis of_nat_le_iff of_nat_numeral of_nat_power)
      then have "3 * int (active_count m) < 4 * 2 ^ n" using zero_less_power [of "2::int" n] by linarith
      then have "hash_inv m'" using m'(2,5,6) by (simp add: hash_inv_def)
      moreover have "sized j m'" if "sized j m" for j
        using that grown [OF that] m'(5,6) cnt(2) by (simp add: sized_def)
      ultimately show ?thesis using m' by (simp add: upd)
    qed
  next
    case small: False
    show ?thesis
    proof (cases "3 < n \<and> 4 * h_count m \<le> 2 ^ n")
      case True
      have upd: "hash_update alloc m = hash_rebuild alloc m (2 ^ (n - 1))"
        using small True ws by (simp add: hash_update_def Let_def n(4))
      obtain k where k: "n = Suc (Suc k)" using True by (metis Suc_lessE Suc_lessD One_nat_def numeral_3_eq_3)
      have c: "int (active_count m) \<le> 2 ^ k" using True wf_hashD(4) [OF wf] k by simp
      then have c': "active_count m \<le> 2 ^ k" by (metis of_nat_le_iff of_nat_numeral of_nat_power)
      have "(2::nat) ^ k < 2 ^ (n - 1)" by (simp add: k)
      with c' have "active_count m < 2 ^ (n - 1)" by (rule le_less_trans)
      moreover have "3 \<le> n - 1" "n - 1 \<le> 31" using conjunct1 [OF True] n(2) by simp_all
      ultimately obtain m' where m': "hash_rebuild alloc m (2 ^ (n - 1)) =
          Some (if alloc (2 ^ (n - 1) * 32) then (0, m') else (-1, m))" "wf_hash m'"
        "hmap m' = hmap m" "keq m' = keq m" "length (h_table m') = 2 ^ (n - 1)"
        "h_fill m' = int (active_count m)" "h_hfunc m' = h_hfunc m" "h_cmp m' = h_cmp m"
        using hash_rebuild_spec [OF wf, of "n - 1" alloc] by blast
      have "3 * int (active_count m) < 4 * 2 ^ k" using c zero_less_power [of "2::int" k] by linarith
      then have "hash_inv m'" using m'(2,5,6) by (simp add: hash_inv_def k)
      moreover have sz: "2 ^ (n - 1) \<le> 3 * j" if "sized j m" for j
      proof -
        have "(2::nat) ^ 3 < 2 ^ n" using True by (intro power_strict_increasing) simp_all
        then have "2 ^ n \<le> 3 * j" using that n(3) by (simp add: sized_def)
        then show ?thesis by (simp add: k)
      qed
      moreover have "sized j m'" if "sized j m" for j
        using that sz [OF that] m'(5,6) cnt(2) by (simp add: sized_def)
      moreover have "refused j alloc" if "sized j m" "\<not> alloc (2 ^ (n - 1) * 32)" for j
        by (rule refusedI [where n = "n - 1" and alloc = alloc and j = j, OF that(2)]) (use n(2) sz [OF that(1)] in auto)
      ultimately show ?thesis using m' wf by (auto simp: upd)
    next
      case False
      then have "hash_update alloc m = Some (0, m)"
        using small ws by (auto simp: hash_update_def Let_def n(4))
      moreover have "hash_inv m" using small wf ws n by (simp add: hash_inv_def)
      ultimately show ?thesis using wf by simp
    qed
  qed
qed


section \<open>The operations as operations on a map\<close>

lemma hash_get_room:
  assumes wf: "wf_hash m" and room: "has_room m"
  shows "hash_get (Some m) k d = Some (case hmap m k of None \<Rightarrow> d | Some v \<Rightarrow> v)"
proof -
  obtain r where r: "hash_lookup m k (h_hfunc m k) = Some r" "r < length (h_table m)"
    "active m r \<Longrightarrow> keq m (kof m r) k" "\<not> active m r \<Longrightarrow> hmap m k = None"
    using hash_lookup_spec [OF wf room] by metis
  show ?thesis
  proof (cases "active m r")
    case True
    then have "hmap m k = Some (s_value (h_table m ! r))" using r(3) hmap_Some_iff [OF wf] by blast
    then show ?thesis using r(1) True by (simp add: active_def)
  next
    case False
    then show ?thesis using r by (simp add: active_def)
  qed
qed

lemma hash_get_hmap:
  "hash_inv m \<Longrightarrow> hash_get (Some m) k d = Some (case hmap m k of None \<Rightarrow> d | Some v \<Rightarrow> v)"
  using hash_inv_room hash_get_room by blast

lemma hash_isset_hmap:
  assumes "hash_inv m"
  shows "hash_isset (Some m) k = Some (hmap m k \<noteq> None)"
proof -
  have wf: "wf_hash m" and room: "has_room m" using hash_inv_room [OF assms] by blast+
  obtain r where r: "hash_lookup m k (h_hfunc m k) = Some r" "r < length (h_table m)"
    "active m r \<Longrightarrow> keq m (kof m r) k" "\<not> active m r \<Longrightarrow> hmap m k = None"
    using hash_lookup_spec [OF wf room] by metis
  have "(hmap m k \<noteq> None) = active m r" using r(3,4) hmap_None_iff [OF wf, of k] by metis
  then show ?thesis using r(1,2) by (simp add: active_def)
qed

lemma store_slot_room:
  assumes "hash_inv m"
  shows "has_room (store_slot m r s)"
proof -
  obtain n where n: "3 \<le> n" "length (h_table m) = 2 ^ n"
    using assms wf_hashD(1) [of m] by (auto simp: hash_inv_def wf_table_def)
  have "int 8 \<le> int (length (h_table m))" using n power_increasing [of 3 n "2::nat"] by (simp only: of_nat_le_iff) simp
  with assms show ?thesis by (simp add: hash_inv_def has_room_def)
qed

lemma hash_set_hmap:
  assumes inv: "hash_inv m" and al: "alloc_bounded alloc"
  shows "\<exists>r m'. hash_set alloc (Some m) k v = Some (r, Some m') \<and>
    (r = 0 \<and> hash_inv m' \<and> (\<forall>j. sized j m \<longrightarrow> sized (Suc j) m') \<or>
     r = -1 \<and> wf_hash m' \<and> has_room m' \<and> (\<forall>j. sized j m \<longrightarrow> refused (Suc j) alloc)) \<and>
    hmap m' = (\<lambda>x. if keq m k x then Some v else hmap m x) \<and>
    keq m' = keq m \<and> h_hfunc m' = h_hfunc m \<and> h_cmp m' = h_cmp m"
proof -
  have wf: "wf_hash m" and room: "has_room m" using hash_inv_room [OF inv] by blast+
  obtain r where r: "hash_lookup m k (h_hfunc m k) = Some r" and rl: "r < length (h_table m)"
    and ra: "active m r \<Longrightarrow> keq m (kof m r) k"
    and rn: "\<not> active m r \<Longrightarrow> hmap m k = None \<and> reach m (h_hfunc m k) r"
    using hash_lookup_spec [OF wf room] by metis
  let ?s = "h_table m ! r"
  show ?thesis
  proof (cases "active m r")
    case True
    let ?m = "store_slot m r (?s\<lparr>s_value := v\<rparr>)"
    have am: "s_mode ?s = SL_ACTIVE" using True by (simp add: active_def)
    have kk: "keq m (s_key ?s) k" using ra [OF True] by (simp add: kof_def)
    have eq: "slot_store m r (?s\<lparr>s_value := v\<rparr>) = ?m"
      using am by (simp add: slot_store_def store_slot_def)
    have other: "\<not> keq m (kof m i) (s_key ?s)" if "active m i" "i \<noteq> r" for i
      using wf_hashD(7) [OF wf that(1) True] that(2) by (auto simp: kof_def)
    have wf': "wf_hash ?m"
      by (rule wf_hash_store [OF wf rl])
        (use am wf_hashD(5,6) [OF wf True] other in \<open>auto simp: kof_def\<close>)
    have same: "keq m (s_key ?s) x = keq m k x" for x
      using kk keq_sym [OF wf] keq_trans [OF wf] by blast
    have "hmap ?m x = (if keq m k x then Some v else hmap m x)" for x
      using hmap_store [OF wf wf' rl, of x] am same by (simp add: kof_def)
    moreover have "hash_inv ?m" using inv wf' am by (simp add: hash_inv_def)
    moreover have "sized (Suc j) ?m" if "sized j m" for j using that am by (auto simp: sized_def)
    moreover have "hash_set alloc (Some m) k v = Some (0, Some ?m)"
      using r am by (simp add: eq)
    ultimately show ?thesis by (auto simp: fun_eq_iff)
  next
    case False
    let ?n = "\<lparr>s_key = k, s_value = v, s_hash = h_hfunc m k, s_mode = SL_ACTIVE\<rparr>"
    let ?m = "store_slot m r ?n"
    have am: "s_mode ?s \<noteq> SL_ACTIVE" using False rl by (simp add: active_def)
    have none: "\<not> keq m (kof m i) k" if "active m i" for i
      using rn [OF False] hmap_None_iff [OF wf] that by blast
    have wf': "wf_hash ?m"
      by (rule wf_hash_store [OF wf rl]) (use rn [OF False] none in auto)
    have hm: "hmap ?m x = (if keq m k x then Some v else hmap m x)" for x
      using hmap_store [OF wf wf' rl, of x] False by simp
    obtain q m' where u: "hash_update alloc ?m = Some (q, m')" "wf_hash m'" "hmap m' = hmap ?m"
      "keq m' = keq ?m" "h_hfunc m' = h_hfunc ?m" "h_cmp m' = h_cmp ?m"
      "q = 0 \<and> hash_inv m' \<and> (\<forall>j. sized j ?m \<longrightarrow> sized j m') \<or>
       q = -1 \<and> m' = ?m \<and> (\<forall>j. sized j ?m \<longrightarrow> refused j alloc)"
      using hash_update_spec [OF wf' al] by blast
    have sz: "sized j m \<Longrightarrow> sized (Suc j) ?m" for j by (auto simp: sized_def)
    have rm: "has_room ?m" using store_slot_room [OF inv] .
    have "slot_store (m\<lparr>h_count := h_count m + 1, h_fill := h_fill m + 1\<rparr>) r ?n = ?m"
      if "s_mode ?s = SL_EMPTY"
      by (rule hash_t.equality) (use that in \<open>simp_all add: slot_store_def store_slot_def\<close>)
    moreover have "slot_store (m\<lparr>h_count := h_count m + 1\<rparr>) r ?n = ?m" if "s_mode ?s \<noteq> SL_EMPTY"
      by (rule hash_t.equality) (use am that in \<open>simp_all add: slot_store_def store_slot_def\<close>)
    ultimately have "hash_set alloc (Some m) k v = Some (q, Some m')"
      using r am u(1) by (simp add: Let_def)
    then show ?thesis using u hm sz rm by (auto simp: fun_eq_iff)
  qed
qed

lemma hash_del_hmap:
  assumes inv: "hash_inv m" and al: "alloc_bounded alloc"
  shows "\<exists>r m'. hash_del alloc (Some m) k = Some (r, Some m') \<and>
    (r = 0 \<and> hash_inv m' \<and> (\<forall>j. sized j m \<longrightarrow> sized (Suc j) m') \<or>
     r = -1 \<and> wf_hash m' \<and> has_room m' \<and> (\<forall>j. sized j m \<longrightarrow> refused (Suc j) alloc)) \<and>
    hmap m' = (\<lambda>x. if keq m k x then None else hmap m x) \<and>
    keq m' = keq m \<and> h_hfunc m' = h_hfunc m \<and> h_cmp m' = h_cmp m"
proof -
  have wf: "wf_hash m" and room: "has_room m" using hash_inv_room [OF inv] by blast+
  obtain r where r: "hash_lookup m k (h_hfunc m k) = Some r" and rl: "r < length (h_table m)"
    and ra: "active m r \<Longrightarrow> keq m (kof m r) k" and rn: "\<not> active m r \<Longrightarrow> hmap m k = None"
    using hash_lookup_spec [OF wf room] by metis
  let ?s = "h_table m ! r"
  show ?thesis
  proof (cases "active m r")
    case False
    have "hmap m x = None" if "keq m k x" for x
      using rn [OF False] that hmap_None_iff [OF wf] keq_sym [OF wf] keq_trans [OF wf] by metis
    then have "hmap m = (\<lambda>x. if keq m k x then None else hmap m x)" by (auto simp: fun_eq_iff)
    moreover have "hash_del alloc (Some m) k = Some (0, Some m)"
      using r rl False by (simp add: active_def)
    moreover have "sized (Suc j) m" if "sized j m" for j using that by (auto simp: sized_def)
    ultimately show ?thesis using inv by auto
  next
    case True
    let ?n = "\<lparr>s_key = 0, s_value = 0, s_hash = 0, s_mode = SL_DELETED\<rparr>"
    let ?m = "store_slot m r ?n"
    have am: "s_mode ?s = SL_ACTIVE" using True by (simp add: active_def)
    have kk: "keq m (kof m r) x = keq m k x" for x
      using ra [OF True] keq_sym [OF wf] keq_trans [OF wf] by blast
    have wf': "wf_hash ?m" by (rule wf_hash_store [OF wf rl]) auto
    have hm: "hmap ?m x = (if keq m k x then None else hmap m x)" for x
      using hmap_store [OF wf wf' rl, of x] True kk by simp
    obtain q m' where u: "hash_update alloc ?m = Some (q, m')" "wf_hash m'" "hmap m' = hmap ?m"
      "keq m' = keq ?m" "h_hfunc m' = h_hfunc ?m" "h_cmp m' = h_cmp ?m"
      "q = 0 \<and> hash_inv m' \<and> (\<forall>j. sized j ?m \<longrightarrow> sized j m') \<or>
       q = -1 \<and> m' = ?m \<and> (\<forall>j. sized j ?m \<longrightarrow> refused j alloc)"
      using hash_update_spec [OF wf' al] by blast
    have sz: "sized j m \<Longrightarrow> sized (Suc j) ?m" for j by (auto simp: sized_def)
    have rm: "has_room ?m" using store_slot_room [OF inv] .
    have eq: "(slot_store m r ?n)\<lparr>h_count := h_count (slot_store m r ?n) - 1\<rparr> = ?m"
      by (rule hash_t.equality) (use am in \<open>simp_all add: slot_store_def store_slot_def\<close>)
    have "hash_del alloc (Some m) k = Some (q, Some m')"
      using r am u(1) by (simp add: Let_def eq)
    then show ?thesis using u hm sz rm by (auto simp: fun_eq_iff)
  qed
qed


section \<open>Tables keyed by value\<close>

definition direct :: "hash_t \<Rightarrow> bool" where
  "direct m = (h_hfunc m = hash_direct_hfunc \<and> h_cmp m = hash_direct_cmp)"

lemma direct_keq: "direct m \<Longrightarrow> keq m a b \<longleftrightarrow> a = b"
  by (auto simp: direct_def keq_def hash_direct_hfunc_def hash_direct_cmp_def)

lemma hash_init_inv:
  assumes "hash_init alloc m hf cmp = (0, m')" "equivp (\<lambda>a b. a = b \<or> hf a = hf b \<and> cmp a b)"
  shows "hash_inv m' \<and> hmap m' = Map.empty \<and> h_hfunc m' = hf \<and> h_cmp m' = cmp"
proof -
  have sz: "HASH_MINSIZE = 2 ^ 3" by (simp add: HASH_MINSIZE_def)
  let ?m = "m\<lparr>h_hfunc := hf, h_cmp := cmp\<rparr>"
  have m': "m' = fresh_table ?m 3"
    using assms(1) hash_initialize_cases [of 3 alloc m]
    by (auto simp: hash_init_def sz fresh_table_def split: if_splits)
  have "equivp (keq ?m)" using assms(2) by (simp add: keq_def [abs_def])
  note ff = fresh_table_facts [OF _ _ this, of 3]
  show ?thesis using ff by (simp add: m' hash_inv_def) (simp add: fresh_table_def)
qed

text \<open>
  A lookup in a table with no empty slot and no equal key never returns; the growth rule keeps
  a third of the slots empty, so this state needs failing allocations.
\<close>

lemma probe_returns_stop:
  assumes "hash_probe m key hash index p slot free = Some r" "slot < length (h_table m)" "wf_table m"
  shows "\<exists>s \<in> set (h_table m). s_mode s = SL_EMPTY \<or> slot_matches m key hash s"
  using assms
proof (induction rule: hash_probe.raw_induct [rotated, consumes 1, case_names step])
  case (step f m key hash index p slot free r)
  let ?s = "h_table m ! slot"
  have s: "?s \<in> set (h_table m)" using step.prems by simp
  show ?case
  proof (cases "s_mode ?s = SL_EMPTY \<or> slot_matches m key hash ?s")
    case False
    then obtain i q fr where "f m key hash i q (unat (i AND h_mask m)) fr = Some r"
      using step.hyps by (auto simp: Let_def)
    moreover have "unat (i AND h_mask m) < length (h_table m)"
      using step.prems(2) by (auto simp: wf_table_def unat_and_mask)
    ultimately show ?thesis using step.IH step.prems(2) by blast
  qed (use s in blast)
qed

lemma hash_lookup_diverges:
  assumes "wf_table m" "\<forall>s \<in> set (h_table m). s_mode s \<noteq> SL_EMPTY \<and> \<not> slot_matches m key hash s"
  shows "hash_lookup m key hash = None"
proof (rule ccontr)
  assume "hash_lookup m key hash \<noteq> None"
  then obtain r where "hash_lookup m key hash = Some r" by blast
  moreover have "unat (hash AND h_mask m) < length (h_table m)"
    using assms(1) by (auto simp: wf_table_def unat_and_mask)
  ultimately show False
    using probe_returns_stop [OF _ _ assms(1)] assms(2) unfolding hash_lookup_def Let_def by blast
qed


section \<open>The table as a dictionary\<close>

declare hash_set.simps(2) [simp del] hash_del.simps(2) [simp del] hash_get.simps(2) [simp del]
  hash_isset.simps(2) [simp del]

text \<open>
  What the kernel relies on where it keeps a table: lookups answer from a map, and an update
  either returns 0 and keeps the table usable, or returns -1 because memory refused a request of
  a size the number of commands allows, after the update took effect. A command carries the state
  of the memory in which it runs, as the outcome of \<^verbatim>\<open>malloc\<close>. A run stops at the first command
  that does not return 0.
\<close>

datatype dict_op = DSet u64 u64 | DDel u64

fun map_op :: "(u64 \<rightharpoonup> u64) \<Rightarrow> dict_op \<Rightarrow> (u64 \<rightharpoonup> u64)" where
  "map_op f (DSet k v) = f(k \<mapsto> v)"
| "map_op f (DDel k) = f(k := None)"

definition map_run :: "dict_op list \<Rightarrow> (u64 \<rightharpoonup> u64)" where
  "map_run ops = foldl map_op Map.empty ops"

fun dict_run :: "('t \<Rightarrow> 'c \<Rightarrow> (int \<times> 't option) option) \<Rightarrow> 't \<Rightarrow> 'c list \<Rightarrow> (int \<times> 't) option"
  where
    "dict_run stp t [] = Some (0, t)"
  | "dict_run stp t (c # cs) =
       (case stp t c of
          Some (r, Some t') \<Rightarrow> if r = 0 then dict_run stp t' cs else Some (r, t')
        | _ \<Rightarrow> None)"

definition answers :: "('t \<Rightarrow> u64 \<Rightarrow> u64 \<Rightarrow> u64 option) \<Rightarrow> 't \<Rightarrow> (u64 \<rightharpoonup> u64) \<Rightarrow> bool" where
  "answers fetch t f \<longleftrightarrow> (\<forall>k d. fetch t k d = Some (case f k of None \<Rightarrow> d | Some v \<Rightarrow> v))"

locale dict =
  fixes inv :: "nat \<Rightarrow> 't \<Rightarrow> bool" and content :: "'t \<Rightarrow> (u64 \<rightharpoonup> u64)"
    and fetch :: "'t \<Rightarrow> u64 \<Rightarrow> u64 \<Rightarrow> u64 option"
    and ok :: "'c \<Rightarrow> bool" and opof :: "'c \<Rightarrow> dict_op"
    and refuses :: "nat \<Rightarrow> 'c \<Rightarrow> bool"
    and stp :: "'t \<Rightarrow> 'c \<Rightarrow> (int \<times> 't option) option"
  assumes fetch_content: "inv j t \<Longrightarrow> answers fetch t (content t)"
    and stp_content: "inv j t \<Longrightarrow> ok c \<Longrightarrow> \<exists>r t'. stp t c = Some (r, Some t') \<and>
      content t' = map_op (content t) (opof c) \<and>
      (r = 0 \<and> inv (Suc j) t' \<or> r = -1 \<and> refuses (Suc j) c \<and> answers fetch t' (content t'))"
begin

text \<open>A run applies a prefix of the commands: all of them, or up to the first one whose memory refused.\<close>

lemma run_fetch:
  "inv j t \<Longrightarrow> list_all ok cs \<Longrightarrow> \<exists>n r t'. dict_run stp t cs = Some (r, t') \<and> n \<le> length cs \<and>
    answers fetch t' (foldl map_op (content t) (map opof (take n cs))) \<and>
    (r = 0 \<and> n = length cs \<or> r = -1 \<and> 0 < n \<and> refuses (j + n) (cs ! (n - 1)))"
proof (induction cs arbitrary: j t)
  case Nil
  then show ?case using fetch_content by auto
next
  case (Cons c cs)
  obtain r t' where s: "stp t c = Some (r, Some t')" "content t' = map_op (content t) (opof c)"
    "r = 0 \<and> inv (Suc j) t' \<or> r = -1 \<and> refuses (Suc j) c \<and> answers fetch t' (content t')"
    using stp_content [OF Cons.prems(1), of c] Cons.prems(2) by auto
  show ?case
  proof (cases "r = 0")
    case True
    then obtain n q u where "dict_run stp t' cs = Some (q, u)" "n \<le> length cs"
      "answers fetch u (foldl map_op (content t') (map opof (take n cs)))"
      "q = 0 \<and> n = length cs \<or> q = -1 \<and> 0 < n \<and> refuses (Suc j + n) (cs ! (n - 1))"
      using Cons.IH [of "Suc j" t'] Cons.prems(2) s(3) by auto
    then show ?thesis using s True
      by (intro exI [of _ "Suc n"] exI [of _ q] exI [of _ u]) (auto simp: nth_Cons')
  next
    case False
    then show ?thesis using s by (intro exI [of _ 1] exI [of _ r] exI [of _ t']) simp
  qed
qed

end

fun hash_op :: "hash_t \<Rightarrow> (u64 \<Rightarrow> bool) \<times> dict_op \<Rightarrow> (int \<times> hash_t option) option" where
  "hash_op m (alloc, DSet k v) = hash_set alloc (Some m) k v"
| "hash_op m (alloc, DDel k) = hash_del alloc (Some m) k"

lemma hash_op_direct:
  assumes inv: "hash_inv m" and d: "direct m" and al: "alloc_bounded (fst c)"
  shows "\<exists>r m'. hash_op m c = Some (r, Some m') \<and> hmap m' = map_op (hmap m) (snd c) \<and>
    (r = 0 \<and> hash_inv m' \<and> direct m' \<and> (\<forall>j. sized j m \<longrightarrow> sized (Suc j) m') \<or>
     r = -1 \<and> (\<forall>j. sized j m \<longrightarrow> refused (Suc j) (fst c)) \<and> answers (\<lambda>m. hash_get (Some m)) m' (hmap m'))"
proof -
  obtain alloc x where c: "c = (alloc, x)" by (cases c)
  have al: "alloc_bounded alloc" using al c by simp
  have upd: "(\<lambda>x. if keq m k x then y else hmap m x) = (hmap m)(k := y)" for k y
    using direct_keq [OF d] by (auto simp: fun_upd_def fun_eq_iff)
  show ?thesis
  proof (cases x)
    case (DSet k v)
    obtain r m' where "hash_set alloc (Some m) k v = Some (r, Some m')"
      "r = 0 \<and> hash_inv m' \<and> (\<forall>j. sized j m \<longrightarrow> sized (Suc j) m') \<or>
       r = -1 \<and> wf_hash m' \<and> has_room m' \<and> (\<forall>j. sized j m \<longrightarrow> refused (Suc j) alloc)" "hmap m' = (hmap m)(k \<mapsto> v)"
      "h_hfunc m' = h_hfunc m" "h_cmp m' = h_cmp m"
      using hash_set_hmap [OF inv al, of k v] unfolding upd by blast
    then show ?thesis using d hash_get_room [of m'] by (auto simp: c DSet direct_def answers_def)
  next
    case (DDel k)
    obtain r m' where "hash_del alloc (Some m) k = Some (r, Some m')"
      "r = 0 \<and> hash_inv m' \<and> (\<forall>j. sized j m \<longrightarrow> sized (Suc j) m') \<or>
       r = -1 \<and> wf_hash m' \<and> has_room m' \<and> (\<forall>j. sized j m \<longrightarrow> refused (Suc j) alloc)" "hmap m' = (hmap m)(k := None)"
      "h_hfunc m' = h_hfunc m" "h_cmp m' = h_cmp m"
      using hash_del_hmap [OF inv al, of k] unfolding upd by blast
    then show ?thesis using d hash_get_room [of m'] by (auto simp: c DDel direct_def answers_def)
  qed
qed

definition table_inv :: "nat \<Rightarrow> hash_t \<Rightarrow> bool" where
  "table_inv j m \<longleftrightarrow> hash_inv m \<and> direct m \<and> sized j m"

interpretation hd: dict table_inv hmap "\<lambda>m. hash_get (Some m)"
    "\<lambda>c. alloc_bounded (fst c)" snd "\<lambda>j c. refused j (fst c)" hash_op
proof unfold_locales
  fix j m assume "table_inv j m"
  then show "answers (\<lambda>m. hash_get (Some m)) m (hmap m)" using hash_get_hmap by (auto simp: table_inv_def answers_def)
next
  fix j m and c :: "(u64 \<Rightarrow> bool) \<times> dict_op" assume "table_inv j m" "alloc_bounded (fst c)"
  then show "\<exists>r m'. hash_op m c = Some (r, Some m') \<and> hmap m' = map_op (hmap m) (snd c) \<and>
      (r = 0 \<and> table_inv (Suc j) m' \<or> r = -1 \<and> refused (Suc j) (fst c) \<and> answers (\<lambda>m. hash_get (Some m)) m' (hmap m'))"
    using hash_op_direct [of m c] unfolding table_inv_def by blast
qed

section \<open>Properties\<close>

lemma hash_init_direct_inv:
  assumes "hash_init_direct alloc m0 = (0, m)"
  shows "table_inv 0 m \<and> hmap m = Map.empty"
proof -
  have "equivp (\<lambda>a b. a = b \<or> hash_direct_hfunc a = hash_direct_hfunc b \<and> hash_direct_cmp a b)"
    by (auto simp: hash_direct_cmp_def hash_direct_hfunc_def intro: equivpI reflpI sympI transpI)
  moreover have "sized 0 m"
    using assms by (auto simp: hash_init_direct_def hash_init_def hash_initialize_def sized_def HASH_MINSIZE_def Let_def split: if_split_asm)
  ultimately show ?thesis
    using hash_init_inv assms by (auto simp: hash_init_direct_def direct_def table_inv_def)
qed

text \<open>
  C1. Process-id and semaphore tables are maps. After \<^verbatim>\<open>hash_init_direct\<close>, a run of
  \<^verbatim>\<open>hash_set\<close> and \<^verbatim>\<open>hash_del\<close>, which stops at the first call that does not return 0, comes to
  an end (no probe loops for ever, through every growth, shrink and deleted marker). Either every
  command was applied and returned 0; or the last command that ran returned -1, and then memory
  refused it a table of at most 96 bytes for each command run so far, although the command itself was
  applied. In both cases \<^verbatim>\<open>hash_get\<close> answers for every key and default what the map built by the
  commands that ran holds. (Commands after a failed one can fill the table, see
  \<open>hash_full_table_hangs\<close>; memory grants no request above 64 GiB.)
\<close>

theorem hash_run_is_map:
  assumes "hash_init_direct alloc m0 = (0, m)" "list_all (\<lambda>c. alloc_bounded (fst c)) cs"
  shows "\<exists>n r m'. dict_run hash_op m cs = Some (r, m') \<and> n \<le> length cs \<and>
    answers (\<lambda>t. hash_get (Some t)) m' (map_run (map snd (take n cs))) \<and>
    (r = 0 \<and> n = length cs \<or> r = -1 \<and> 0 < n \<and> refused n (fst (cs ! (n - 1))))"
  using hd.run_fetch [OF _ assms(2), of 0 m] hash_init_direct_inv [OF assms(1)] by (simp add: map_run_def)

definition some_mem :: "u64 \<Rightarrow> bool" where
  "some_mem b = (b \<le> 65536)"

lemma some_mem_bounded: "alloc_bounded some_mem"
proof -
  have "unat b \<le> 2 ^ 36" if "some_mem b" for b
  proof -
    have "unat b \<le> unat (65536 :: u64)" using that by (simp add: some_mem_def word_le_nat_alt)
    then show ?thesis by simp
  qed
  then show ?thesis by (simp add: alloc_bounded_def)
qed

definition blank_hash :: hash_t where
  "blank_hash = \<lparr>h_fill = 0, h_count = 0, h_mask = 0, h_table = [], h_hfunc = \<lambda>_. 0, h_cmp = \<lambda>_ _. False\<rparr>"

definition small_hash :: hash_t where
  "small_hash = snd (hash_init_direct some_mem blank_hash)"

lemma small_hash_init: "hash_init_direct some_mem blank_hash = (0, small_hash)"
  by (simp add: small_hash_def hash_init_direct_def hash_init_def hash_initialize_def some_mem_def
      HASH_MINSIZE_def)

definition small_hash1 :: hash_t where
  "small_hash1 = \<lparr>h_fill = 1, h_count = 1, h_mask = 7,
     h_table = (replicate 8 empty_slot)[5 := \<lparr>s_key = 5, s_value = 7, s_hash = 5, s_mode = SL_ACTIVE\<rparr>],
     h_hfunc = hash_direct_hfunc, h_cmp = hash_direct_cmp\<rparr>"

lemma small_hash_eq: "small_hash = \<lparr>h_fill = 0, h_count = 0, h_mask = 7, h_table = replicate 8 empty_slot,
    h_hfunc = hash_direct_hfunc, h_cmp = hash_direct_cmp\<rparr>"
  by (simp add: small_hash_def hash_init_direct_def hash_init_def hash_initialize_def some_mem_def HASH_MINSIZE_def blank_hash_def)

lemma small_hash_lookup: "hash_lookup small_hash 5 5 = Some 5" "hash_lookup small_hash1 5 5 = Some 5"
  unfolding hash_lookup_def Let_def
  by (subst hash_probe.simps; simp add: small_hash_eq small_hash1_def empty_slot_def slot_matches_def hash_direct_cmp_def)+

lemma small_hash_set: "hash_set some_mem (Some small_hash) 5 7 = Some (0, Some small_hash1)"
proof -
  have "hash_update some_mem small_hash1 = Some (0, small_hash1)"
    by (simp add: hash_update_def small_hash1_def HASH_MINSIZE_def Let_def)
  moreover have "h_hfunc small_hash 5 = 5" by (simp add: small_hash_eq hash_direct_hfunc_def)
  moreover have "slot_store (small_hash\<lparr>h_count := 1, h_fill := 1\<rparr>) 5
      \<lparr>s_key = 5, s_value = 7, s_hash = 5, s_mode = SL_ACTIVE\<rparr> = small_hash1"
    by (simp add: slot_store_def small_hash_eq small_hash1_def)
  ultimately show ?thesis
    using small_hash_lookup(1) by (simp add: hash_set.simps Let_def) (simp add: small_hash_eq empty_slot_def hash_direct_hfunc_def)
qed

lemma small_hash_del: "\<exists>m. hash_del (\<lambda>_. False) (Some small_hash1) 5 = Some (0, Some m)"
proof -
  have "h_hfunc small_hash1 5 = 5" "s_mode (h_table small_hash1 ! 5) = SL_ACTIVE"
    by (simp_all add: small_hash1_def hash_direct_hfunc_def)
  then show ?thesis
    using small_hash_lookup(2)
    by (simp add: hash_del.simps Let_def hash_update_def) (simp add: small_hash1_def slot_store_def HASH_MINSIZE_def)
qed

text \<open>Memory that refuses everything stops no command of a small table: it never asks for any.\<close>

theorem hash_run_is_map_witness:
  "\<exists>m'. dict_run hash_op small_hash [(some_mem, DSet 5 7), (\<lambda>_. False, DDel 5)] = Some (0, m') \<and>
     answers (\<lambda>t. hash_get (Some t)) m' Map.empty"
proof -
  let ?cs = "[(some_mem, DSet 5 7), (\<lambda>_. False, DDel 5)]"
  have "list_all (\<lambda>c. alloc_bounded (fst c)) ?cs" by (simp add: some_mem_bounded) (simp add: alloc_bounded_def)
  from hash_run_is_map [OF small_hash_init this] obtain n r m' where
    r: "dict_run hash_op small_hash ?cs = Some (r, m')" "n \<le> length ?cs"
      "answers (\<lambda>t. hash_get (Some t)) m' (map_run (map snd (take n ?cs)))"
      "r = 0 \<and> n = length ?cs \<or> r = -1 \<and> 0 < n \<and> refused n (fst (?cs ! (n - 1)))" by blast
  have "\<exists>m'. dict_run hash_op small_hash ?cs = Some (0, m')"
    using small_hash_set small_hash_del by auto
  with r(1) have "r = 0" by auto
  with r show ?thesis by (auto simp: map_run_def)
qed

text \<open>
  A table built by \<^verbatim>\<open>hash_init_string\<close> is keyed by the text and not by the address: after a
  successful \<^verbatim>\<open>hash_set\<close>, \<^verbatim>\<open>hash_get\<close> through any pointer to an equal string finds the value,
  and every other key keeps its answer.
\<close>

theorem hash_string_content:
  assumes "hash_init_string alloc str m0 = (0, m)" "alloc_bounded alloc"
    and "hash_set alloc (Some m) p v = Some (0, Some m')"
  shows "hash_get (Some m') q d = Some (if str q = str p then v else d)"
proof -
  have "equivp (\<lambda>a b. a = b \<or> hash_string_hfunc str a = hash_string_hfunc str b \<and> hash_string_cmp str a b)"
    by (intro equivpI reflpI sympI transpI) (auto simp: hash_string_cmp_def hash_string_hfunc_def)
  then have i: "hash_inv m \<and> hmap m = Map.empty \<and> h_hfunc m = hash_string_hfunc str \<and>
      h_cmp m = hash_string_cmp str"
    using hash_init_inv assms(1) by (auto simp: hash_init_string_def)
  then have k: "keq m a b \<longleftrightarrow> str b = str a" for a b
    by (auto simp: keq_def hash_string_cmp_def hash_string_hfunc_def)
  show ?thesis
    using hash_set_hmap [OF conjunct1 [OF i] assms(2), of p v] assms(3) hash_get_hmap [of m' q d] i k
    by auto
qed

definition two_strings :: "u64 \<Rightarrow> u8 list" where
  "two_strings p = (if p = 16 \<or> p = 32 then [115, 104, 109] else [102, 98])"

definition names_hash :: hash_t where
  "names_hash = snd (hash_init_string some_mem two_strings blank_hash)"

definition names_hash1 :: hash_t where
  "names_hash1 = the (snd (the (hash_set some_mem (Some names_hash) 16 99)))"

lemma names_hash_set: "hash_set some_mem (Some names_hash) 16 99 = Some (0, Some names_hash1)"
  by (simp add: names_hash1_def hash_set.simps names_hash_def hash_init_string_def hash_init_def
      hash_initialize_def some_mem_def HASH_MINSIZE_def Let_def hash_lookup_def hash_probe.simps
      hash_string_hfunc_def two_strings_def blank_hash_def empty_slot_def slot_store_def
      hash_update_def)

theorem hash_string_content_witness:
  "hash_get (Some names_hash1) 32 0 = Some 99"
proof -
  have i: "hash_init_string some_mem two_strings blank_hash = (0, names_hash)"
    by (simp add: names_hash_def hash_init_string_def hash_init_def hash_initialize_def some_mem_def
        HASH_MINSIZE_def)
  show ?thesis
    using hash_string_content [OF i some_mem_bounded names_hash_set, of 32 0]
    by (simp add: two_strings_def)
qed

text \<open>
  \<^verbatim>\<open>hash_lookup\<close> in a table without an empty slot and without the key never returns. The
  kernel ignores what \<^verbatim>\<open>hash_set\<close> reports in most places, so a table whose growth failed often
  enough ends in this state.
\<close>

theorem hash_full_table_hangs:
  assumes "wf_table m" "\<forall>s \<in> set (h_table m). s_mode s \<noteq> SL_EMPTY"
    and "\<forall>s \<in> set (h_table m). s_mode s = SL_ACTIVE \<longrightarrow>
      s_key s \<noteq> key \<and> \<not> (s_hash s = h_hfunc m key \<and> h_cmp m (s_key s) key)"
  shows "hash_get (Some m) key d = None \<and> hash_isset (Some m) key = None \<and>
    hash_set alloc (Some m) key v = None"
proof -
  have "hash_lookup m key (h_hfunc m key) = None"
    by (rule hash_lookup_diverges [OF assms(1)]) (use assms(2,3) in \<open>auto simp: slot_matches_def\<close>)
  then show ?thesis by (simp add: hash_get.simps hash_isset.simps hash_set.simps Let_def)
qed

definition full_hash :: hash_t where
  "full_hash = \<lparr>h_fill = 8, h_count = 0, h_mask = 7,
     h_table = replicate 8 \<lparr>s_key = 0, s_value = 0, s_hash = 0, s_mode = SL_DELETED\<rparr>,
     h_hfunc = hash_direct_hfunc, h_cmp = hash_direct_cmp\<rparr>"

theorem hash_full_table_hangs_witness: "hash_get (Some full_hash) 42 0 = None"
proof -
  have "wf_table full_hash"
    unfolding wf_table_def by (rule exI [of _ 3]) (simp add: full_hash_def mask_eq_exp_minus_1)
  then show ?thesis
    using hash_full_table_hangs [of full_hash 42 0] by (auto simp: full_hash_def)
qed

end
