(* ===== verification/Frames.thy ===== *)
theory Frames
  imports Prelude
begin

text \<open>
  The physical frame allocator, \<^verbatim>\<open>src/kernel/memory/frame_dist.c\<close>: the free frames form a
  singly linked list whose links are stored in the first double word of each free frame.

  \<open>ram\<close> is the physical memory, one 64-bit value per address (the code here accesses it by
  aligned double words). \<open>_free_memory_start\<close> and \<open>_memory_end\<close> are symbols of the linker.
\<close>

unbundle bit_operations_syntax

section \<open>State and operations\<close>

definition FRAME_SIZE :: u64 where
  "FRAME_SIZE = 4096"

record frame_state =
  free_memory_start :: u64
  memory_end :: u64
  mem_ptr :: u64
  mem_usage :: u64
  mem_total :: u64
  ram :: "u64 \<Rightarrow> u64"

definition get_remaining_frames :: "frame_state \<Rightarrow> u64" where
  "get_remaining_frames s = mem_total s - mem_usage s"

partial_function (option) init_frames_loop ::
    "u64 \<Rightarrow> (u64 \<Rightarrow> u64) \<Rightarrow> u64 \<Rightarrow> ((u64 \<Rightarrow> u64) \<times> u64) option" where
  "init_frames_loop me r curptr =
     (if curptr + FRAME_SIZE < me
      then init_frames_loop me (r(curptr := curptr + FRAME_SIZE)) (curptr + FRAME_SIZE)
      else Some (r, curptr))"

definition init_frames :: "frame_state \<Rightarrow> frame_state res" where
  "init_frames s =
     (case init_frames_loop (memory_end s) (ram s) (free_memory_start s) of
        None \<Rightarrow> Inl No_return
      | Some (r, curptr) \<Rightarrow>
          (let r' = r(curptr := 0);
               s' = s\<lparr>ram := r', mem_ptr := free_memory_start s, mem_usage := 0,
                      mem_total := (memory_end s - free_memory_start s) div FRAME_SIZE\<rparr>
           in rbind (rassert (curptr < memory_end s)) (\<lambda>_.
              rbind (rassert (curptr + FRAME_SIZE \<ge> memory_end s)) (\<lambda>_.
              rbind (rassert (r' curptr = 0)) (\<lambda>_. Inr s')))))"

definition get_frame :: "frame_state \<Rightarrow> u64 \<times> frame_state" where
  "get_frame s =
     (if ram s (mem_ptr s) = 0 then (0, s)
      else (mem_ptr s, s\<lparr>mem_usage := mem_usage s + 1, mem_ptr := ram s (mem_ptr s)\<rparr>))"

definition release_frame :: "u64 \<Rightarrow> frame_state \<Rightarrow> frame_state" where
  "release_frame frame s =
     (if frame < free_memory_start s \<or> frame > memory_end s then s
      else if frame AND 0xFFF \<noteq> 0 then s
      else s\<lparr>mem_usage := mem_usage s - 1, mem_ptr := frame, ram := (ram s)(frame := mem_ptr s)\<rparr>)"

section \<open>The free list\<close>

fun chain :: "(u64 \<Rightarrow> u64) \<Rightarrow> u64 \<Rightarrow> u64 list \<Rightarrow> bool" where
  "chain r p [] = (p = 0)"
| "chain r p (x # xs) = (p = x \<and> x \<noteq> 0 \<and> chain r (r x) xs)"

lemma chain_cong: "(\<And>x. x \<in> set xs \<Longrightarrow> r' x = r x) \<Longrightarrow> chain r' p xs = chain r p xs"
  by (induction xs arbitrary: p) auto

lemma chain_upd: "f \<notin> set xs \<Longrightarrow> chain (r(f := v)) p xs = chain r p xs"
  by (rule chain_cong) auto

lemma chain_nz: "chain r p xs \<Longrightarrow> 0 \<notin> set xs"
  by (induction xs arbitrary: p) auto

text \<open>The frames of the machine: the aligned addresses between the two symbols.\<close>

definition is_frame :: "frame_state \<Rightarrow> u64 \<Rightarrow> bool" where
  "is_frame s f = (free_memory_start s \<le> f \<and> f < memory_end s \<and> f AND 0xFFF = 0 \<and> f \<noteq> 0)"

definition frames_inv :: "frame_state \<Rightarrow> u64 list \<Rightarrow> bool" where
  "frames_inv s xs =
     (chain (ram s) (mem_ptr s) xs \<and> distinct xs \<and> xs \<noteq> [] \<and> (\<forall>x \<in> set xs. is_frame s x) \<and>
      unat (mem_total s - mem_usage s) = length xs)"

lemma distinct_words_short:
  fixes f :: u64
  assumes "distinct xs" "0 \<notin> set xs" "f \<notin> set xs" "f \<noteq> 0"
  shows "length xs < 2 ^ 64 - 1"
proof -
  have "length xs = card (set xs)" using assms(1) by (simp add: distinct_card)
  also have "\<dots> \<le> card (UNIV - {f, 0 :: u64})" by (rule card_mono) (use assms in auto)
  also have "\<dots> = 2 ^ 64 - 2" using assms(4) by (simp add: card_Diff_subset card_word)
  finally show ?thesis by simp
qed

lemma get_frame_inv:
  assumes "frames_inv s xs"
  shows "get_frame s = (if tl xs = [] then (0, s)
      else (hd xs, s\<lparr>mem_usage := mem_usage s + 1, mem_ptr := hd (tl xs)\<rparr>))"
    and "tl xs \<noteq> [] \<Longrightarrow> frames_inv (snd (get_frame s)) (tl xs)"
proof -
  obtain x ys where xs: "xs = x # ys" using assms by (cases xs) (auto simp: frames_inv_def)
  have p: "mem_ptr s = x" "chain (ram s) (ram s x) ys" using assms by (auto simp: frames_inv_def xs)
  show g: "get_frame s = (if tl xs = [] then (0, s)
      else (hd xs, s\<lparr>mem_usage := mem_usage s + 1, mem_ptr := hd (tl xs)\<rparr>))"
    using p by (cases ys) (auto simp: get_frame_def xs)
  assume ne: "tl xs \<noteq> []"
  then obtain y zs where ys: "ys = y # zs" by (cases ys) (auto simp: xs)
  have l: "unat (mem_total s - mem_usage s) = Suc (length ys)"
    using assms by (simp add: frames_inv_def xs)
  have "unat (mem_total s - mem_usage s - 1) = unat (mem_total s - mem_usage s) - 1"
    by (rule unat_minus_one) (use l in auto)
  then have "unat (mem_total s - (mem_usage s + 1)) = length ys"
    using l by (simp add: algebra_simps)
  then show "frames_inv (snd (get_frame s)) (tl xs)"
    using assms p unfolding g by (auto simp: frames_inv_def xs ys is_frame_def)
qed

lemma release_frame_inv:
  assumes inv: "frames_inv s xs" and f: "is_frame s f" "f \<notin> set xs"
  shows "frames_inv (release_frame f s) (f # xs)"
proof -
  have "0 \<notin> set xs" using inv chain_nz by (auto simp: frames_inv_def)
  then have l: "length xs < 2 ^ 64 - 1"
    using inv f by (intro distinct_words_short [of _ f]) (auto simp: frames_inv_def is_frame_def)
  have r: "release_frame f s = s\<lparr>mem_usage := mem_usage s - 1, mem_ptr := f, ram := (ram s)(f := mem_ptr s)\<rparr>"
    using f by (auto simp: release_frame_def is_frame_def)
  have c: "chain ((ram s)(f := mem_ptr s)) (mem_ptr s) xs"
    using inv chain_upd [OF f(2)] by (simp add: frames_inv_def)
  have "unat (mem_total s - mem_usage s) = length xs" using inv by (simp add: frames_inv_def)
  then have "unat (mem_total s - mem_usage s + 1) = Suc (length xs)"
    using l by (subst unat_add_lem [THEN iffD1]) auto
  then have "unat (mem_total s - (mem_usage s - 1)) = Suc (length xs)"
    by (simp add: algebra_simps)
  then show ?thesis
    using inv f c by (auto simp: frames_inv_def r is_frame_def)
qed


section \<open>Initialisation\<close>

fun frames_from :: "u64 \<Rightarrow> nat \<Rightarrow> u64 list" where
  "frames_from c 0 = []"
| "frames_from c (Suc k) = c # frames_from (c + FRAME_SIZE) k"

lemma unat_FRAME_SIZE [simp]: "unat FRAME_SIZE = 4096"
  by (simp add: FRAME_SIZE_def)

lemma unat_next_frame:
  "unat c + 4096 < 2 ^ 64 \<Longrightarrow> unat (c + FRAME_SIZE) = unat c + 4096"
  by (subst unat_add_lem [THEN iffD1]) simp_all

lemma frames_from_range:
  "x \<in> set (frames_from c k) \<Longrightarrow> unat c + 4096 * k < 2 ^ 64 \<Longrightarrow>
    unat c \<le> unat x \<and> unat x < unat c + 4096 * k"
proof (induction k arbitrary: c)
  case (Suc k)
  then have "unat (c + FRAME_SIZE) = unat c + 4096" by (intro unat_next_frame) simp
  then show ?case using Suc by fastforce
qed simp

lemma distinct_frames_from: "unat c + 4096 * k < 2 ^ 64 \<Longrightarrow> distinct (frames_from c k)"
proof (induction k arbitrary: c)
  case (Suc k)
  then have u: "unat (c + FRAME_SIZE) = unat c + 4096" by (intro unat_next_frame) simp
  then have "c \<notin> set (frames_from (c + FRAME_SIZE) k)"
    using frames_from_range [of c "c + FRAME_SIZE" k] Suc.prems by auto
  then show ?case using Suc u by simp
qed simp

lemma low_bits_frame: "c AND 0xFFF = 0 \<longleftrightarrow> unat (c :: u64) mod 4096 = 0"
proof -
  have "unat (c AND 0xFFF) = unat c mod 4096"
    using unat_and_mask [of c 12] by (simp add: mask_eq_exp_minus_1)
  then show ?thesis by (metis unsigned_0 unsigned_eq_0_iff)
qed

lemma next_frame_aligned: "unat (c + FRAME_SIZE) mod 4096 = unat c mod 4096"
proof -
  have "unat (c + FRAME_SIZE) mod 4096 = (unat c + 4096) mod 18446744073709551616 mod 4096"
    by (simp add: unat_word_ariths)
  also have "\<dots> = (unat c + 4096) mod 4096" by (rule mod_mod_cancel) simp
  finally show ?thesis by simp
qed

lemma frames_from_aligned:
  "x \<in> set (frames_from c k) \<Longrightarrow> c AND 0xFFF = 0 \<Longrightarrow> x AND 0xFFF = 0"
  by (induction k arbitrary: c) (auto simp: low_bits_frame next_frame_aligned)

lemma length_frames_from [simp]: "length (frames_from c k) = k"
  by (induction k arbitrary: c) auto

lemma init_frames_loop_spec:
  assumes "unat me = unat c + 4096 * Suc k" "c \<noteq> 0"
  shows "\<exists>r' l. init_frames_loop me r c = Some (r', l) \<and> chain (r'(l := 0)) c (frames_from c (Suc k)) \<and>
    l < me \<and> l + FRAME_SIZE \<ge> me \<and> c \<le> l \<and> (\<forall>x < c. r' x = r x)"
  using assms
proof (induction k arbitrary: c r)
  case 0
  have m: "unat c + 4096 < 2 ^ 64" using 0(1) unat_lt_64 [of me] by simp
  then have u: "unat (c + FRAME_SIZE) = unat me" using unat_next_frame 0(1) by simp
  then have "c + FRAME_SIZE = me" by (simp add: word_unat_eq_iff)
  moreover have "c < me" using 0(1) by (simp add: word_less_nat_alt)
  ultimately show ?case using 0 by (subst init_frames_loop.simps) auto
next
  case (Suc k)
  let ?d = "c + FRAME_SIZE"
  have m: "unat c + 4096 * Suc (Suc k) < 2 ^ 64" using Suc.prems(1) unat_lt_64 [of me] by simp
  then have u: "unat ?d = unat c + 4096" by (intro unat_next_frame) simp
  then have lt: "?d < me" "c < ?d" and nz: "?d \<noteq> 0"
    using Suc.prems(1) by (auto simp: word_less_nat_alt unat_eq_0)
  have step: "unat me = unat ?d + 4096 * Suc k" using Suc.prems(1) u by simp
  obtain r' l where r': "init_frames_loop me (r(c := ?d)) ?d = Some (r', l)"
    "chain (r'(l := 0)) ?d (frames_from ?d (Suc k))"
    "l < me" "l + FRAME_SIZE \<ge> me" "?d \<le> l" "\<forall>x < ?d. r' x = (r(c := ?d)) x"
    using Suc.IH [OF step nz, of "r(c := ?d)"] by blast
  have "r' c = ?d" "l \<noteq> c" using r'(5,6) lt by auto
  moreover have "\<forall>x < c. r' x = r x" using r'(6) lt(2) by auto
  moreover have "init_frames_loop me r c = Some (r', l)"
    using r'(1) lt(1) by (subst init_frames_loop.simps) simp
  moreover have "chain (r'(l := 0)) c (frames_from c (Suc (Suc k)))"
    using r'(2) Suc.prems(2) \<open>r' c = ?d\<close> \<open>l \<noteq> c\<close> frames_from.simps(2) [of c "Suc k"]
    by (simp only: chain.simps fun_upd_other not_False_eq_True simp_thms)
  moreover have "c \<le> l" using r'(5) lt(2) by simp
  ultimately show ?case using r'(3,4) by blast
qed

text \<open>The memory the linker gives: \<open>n\<close> whole frames between the two symbols, none at 0.\<close>

definition boot_memory :: "frame_state \<Rightarrow> nat \<Rightarrow> bool" where
  "boot_memory s n \<longleftrightarrow> 0 < n \<and> free_memory_start s \<noteq> 0 \<and> free_memory_start s AND 0xFFF = 0 \<and>
     unat (memory_end s) = unat (free_memory_start s) + 4096 * n"

lemma init_frames_inv:
  assumes "boot_memory s n"
  shows "\<exists>s'. init_frames s = Inr s' \<and> frames_inv s' (frames_from (free_memory_start s) n) \<and>
    free_memory_start s' = free_memory_start s \<and> memory_end s' = memory_end s"
proof -
  let ?a = "free_memory_start s" and ?m = "memory_end s"
  obtain k where k: "n = Suc k" using assms by (cases n) (auto simp: boot_memory_def)
  have b: "unat ?m = unat ?a + 4096 * n" "?a \<noteq> 0" "?a AND 0xFFF = 0" using assms by (auto simp: boot_memory_def)
  obtain r l where r: "init_frames_loop ?m (ram s) ?a = Some (r, l)"
    "chain (r(l := 0)) ?a (frames_from ?a n)" "l < ?m" "l + FRAME_SIZE \<ge> ?m"
    using init_frames_loop_spec [OF b(1) [unfolded k] b(2)] unfolding k by blast
  have lim: "unat ?a + 4096 * n < 2 ^ 64" using b(1) unat_lt_64 [of ?m] by simp
  have "?a \<le> ?m" using b(1) by (simp add: word_le_nat_alt)
  then have "unat (?m - ?a) = 4096 * n" using b(1) by (simp add: unat_sub)
  then have tot: "unat ((?m - ?a) div FRAME_SIZE) = n" by (simp add: unat_div_distrib)
  have "x \<noteq> 0 \<and> ?a \<le> x \<and> x < ?m \<and> x AND 0xFFF = 0" if "x \<in> set (frames_from ?a n)" for x
    using frames_from_range [OF that lim] frames_from_aligned [OF that b(3)] b(1) chain_nz [OF r(2)] that
    by (auto simp: word_le_nat_alt word_less_nat_alt)
  then show ?thesis
    using r tot distinct_frames_from [OF lim]
    by (auto simp: init_frames_def Let_def frames_inv_def is_frame_def k)
qed


section \<open>Runs of the allocator\<close>

text \<open>
  A client asks for frames, gives back frames it holds, and writes into frames it holds.
  \<open>held\<close> is what it holds.
\<close>

datatype fop = Get | Release u64 | Write u64 u64

definition frame_of :: "u64 \<Rightarrow> u64" where
  "frame_of a = a AND NOT 0xFFF"

fun frame_step :: "fop \<Rightarrow> u64 list \<times> frame_state \<Rightarrow> u64 list \<times> frame_state" where
  "frame_step Get (held, s) =
     (let (f, s') = get_frame s in (if f = 0 then held else f # held, s'))"
| "frame_step (Release f) (held, s) = (remove1 f held, release_frame f s)"
| "frame_step (Write a v) (held, s) = (held, s\<lparr>ram := (ram s)(a := v)\<rparr>)"

fun client_ok :: "fop \<Rightarrow> u64 list \<Rightarrow> bool" where
  "client_ok Get held = True"
| "client_ok (Release f) held = (f \<in> set held)"
| "client_ok (Write a v) held = (frame_of a \<in> set held)"

fun frame_run :: "fop list \<Rightarrow> u64 list \<times> frame_state \<Rightarrow> (u64 list \<times> frame_state) option" where
  "frame_run [] c = Some c"
| "frame_run (x # xs) c = (if client_ok x (fst c) then frame_run xs (frame_step x c) else None)"

definition run_inv :: "nat \<Rightarrow> u64 list \<times> frame_state \<Rightarrow> bool" where
  "run_inv n c = (\<exists>xs. frames_inv (snd c) xs \<and> distinct (fst c @ xs) \<and>
     (\<forall>f \<in> set (fst c). is_frame (snd c) f) \<and> length (fst c) + length xs = n)"

lemma frame_of_frame:
  assumes "is_frame s f"
  shows "frame_of f = f"
proof -
  have m: "(0xFFF :: u64) = mask 12" by (simp add: mask_eq_exp_minus_1)
  have "f AND mask 12 = 0" using assms unfolding m [symmetric] by (simp add: is_frame_def)
  then have "\<not> bit (f AND mask 12) k" for k by simp
  then show ?thesis
    unfolding frame_of_def m by (intro bit_word_eqI) (auto simp: bit_and_iff bit_not_iff bit_mask_iff)
qed

lemma is_frame_update [simp]:
  "is_frame (s\<lparr>ram := r\<rparr>) f = is_frame s f" "is_frame (s\<lparr>mem_usage := u\<rparr>) f = is_frame s f"
  "is_frame (s\<lparr>mem_ptr := p\<rparr>) f = is_frame s f"
  by (simp_all add: is_frame_def)

lemma is_frame_get [simp]: "is_frame (snd (get_frame s)) f = is_frame s f"
  by (simp add: get_frame_def)

lemma is_frame_release [simp]: "is_frame (release_frame g s) f = is_frame s f"
  by (simp add: release_frame_def)

lemma frame_step_inv:
  assumes inv: "run_inv n c" and ok: "client_ok x (fst c)"
  shows "run_inv n (frame_step x c)"
proof -
  obtain held s where c: "c = (held, s)" by (cases c)
  obtain xs where i: "frames_inv s xs" "distinct (held @ xs)" "\<forall>f \<in> set held. is_frame s f"
    "length held + length xs = n" using inv by (auto simp: run_inv_def c)
  show ?thesis
  proof (cases x)
    case Get
    show ?thesis
    proof (cases "tl xs = []")
      case True
      then have "frame_step x c = c" using get_frame_inv(1) [OF i(1)] by (simp add: Get c)
      then show ?thesis using inv by simp
    next
      case False
      then obtain y ys where xs: "xs = y # ys" "ys \<noteq> []" by (cases xs) auto
      have y: "y \<noteq> 0" "is_frame s y" using i(1) by (auto simp: frames_inv_def xs is_frame_def)
      have g: "get_frame s = (y, snd (get_frame s))" "frames_inv (snd (get_frame s)) ys"
        using get_frame_inv [OF i(1)] by (simp_all add: xs)
      have "frame_step x c = (y # held, snd (get_frame s))"
        using y(1) by (subst Get, subst c, subst frame_step.simps, subst g(1)) simp
      then show ?thesis using g(2) i y by (auto simp: run_inv_def xs intro!: exI [of _ ys])
    qed
  next
    case (Release f)
    then have f: "f \<in> set held" "is_frame s f" "f \<notin> set xs" using ok i by (auto simp: c)
    have "0 < length held" using f(1) by (rule length_pos_if_in_set)
    moreover have "frames_inv (release_frame f s) (f # xs)" by (rule release_frame_inv [OF i(1) f(2,3)])
    ultimately show ?thesis
      using i f by (auto simp: run_inv_def Release c length_remove1 distinct_remove1 in_set_remove1
          Suc_pred length_pos_if_in_set intro!: exI [of _ "f # xs"] dest: in_set_remove1 [THEN iffD1])
  next
    case (Write a v)
    have "a \<notin> set xs"
    proof
      assume "a \<in> set xs"
      then have "frame_of a = a" using i(1) frame_of_frame by (auto simp: frames_inv_def)
      then show False using ok i(2) \<open>a \<in> set xs\<close> by (auto simp: Write c)
    qed
    then have "frames_inv (s\<lparr>ram := (ram s)(a := v)\<rparr>) xs"
      using i(1) chain_upd by (simp add: frames_inv_def)
    then show ?thesis using i by (auto simp: run_inv_def Write c)
  qed
qed

lemma frame_run_inv: "run_inv n c \<Longrightarrow> frame_run xs c = Some c' \<Longrightarrow> run_inv n c'"
proof (induction xs arbitrary: c)
  case (Cons x xs)
  then have "client_ok x (fst c)" "frame_run xs (frame_step x c) = Some c'"
    by (simp_all split: if_splits)
  then show ?case using Cons.IH frame_step_inv [OF Cons.prems(1)] by blast
qed simp

lemma frame_step_bounds:
  "free_memory_start (snd (frame_step x c)) = free_memory_start (snd c)"
  "memory_end (snd (frame_step x c)) = memory_end (snd c)"
  by (cases x; cases c; simp add: get_frame_def release_frame_def Let_def)+

lemma frame_run_bounds:
  "frame_run xs c = Some c' \<Longrightarrow> free_memory_start (snd c') = free_memory_start (snd c) \<and>
    memory_end (snd c') = memory_end (snd c)"
  by (induction xs arbitrary: c) (auto simp: frame_step_bounds split: if_splits)

section \<open>Properties\<close>

text \<open>
  C18. Frames are exclusive. After \<^verbatim>\<open>init_frames\<close> on \<open>n\<close> frames of memory and any sequence of
  \<^verbatim>\<open>get_frame\<close>, \<^verbatim>\<open>release_frame\<close> of held frames and writes into held frames, the held frames
  are distinct aligned frames of the managed memory, the next frame handed out is none of
  them, \<^verbatim>\<open>get_remaining_frames\<close> is exactly the number of frames not held, and \<^verbatim>\<open>get_frame\<close>
  fails exactly when one frame is left: the last frame is never handed out.
\<close>

theorem frames_exclusive:
  assumes "boot_memory s0 n" and "init_frames s0 = Inr s" and "frame_run ops ([], s) = Some (held, s')"
  shows "distinct held \<and> (\<forall>f \<in> set held. is_frame s0 f) \<and>
    fst (get_frame s') \<notin> set held \<and> (fst (get_frame s') = 0 \<longleftrightarrow> length held + 1 = n) \<and>
    unat (get_remaining_frames s') = n - length held"
proof -
  have b: "free_memory_start s = free_memory_start s0" "memory_end s = memory_end s0"
    "run_inv n ([], s)"
    using init_frames_inv [OF assms(1)] assms(2) distinct_frames_from
    by (auto simp: run_inv_def frames_inv_def)
  have "run_inv n (held, s')" using frame_run_inv [OF b(3) assms(3)] .
  then obtain xs where i: "frames_inv s' xs" "distinct (held @ xs)" "\<forall>f \<in> set held. is_frame s' f"
    "length held + length xs = n" by (auto simp: run_inv_def)
  have f: "is_frame s' f = is_frame s0 f" for f
    using frame_run_bounds [OF assms(3)] b(1,2) by (simp add: is_frame_def)
  have ne: "xs \<noteq> []" "0 \<notin> set xs" using i(1) chain_nz by (auto simp: frames_inv_def)
  have h: "hd xs \<noteq> 0" using ne(2) hd_in_set [OF ne(1)] by metis
  have z: "0 \<notin> set held" using i(3) by (auto simp: is_frame_def)
  have "fst (get_frame s') = 0 \<longleftrightarrow> tl xs = []" "tl xs \<noteq> [] \<Longrightarrow> fst (get_frame s') = hd xs"
    using get_frame_inv(1) [OF i(1)] h by auto
  moreover have "tl xs = [] \<longleftrightarrow> length held + 1 = n" using i(4) ne(1) by (cases xs) auto
  moreover have "hd xs \<notin> set held" using i(2) ne(1) by (auto simp: disjoint_iff)
  moreover have "unat (get_remaining_frames s') = n - length held"
    using i(1,4) by (auto simp: frames_inv_def get_remaining_frames_def)
  ultimately show ?thesis using i(2,3) f z by (cases "tl xs = []") auto
qed

definition boot4 :: frame_state where
  "boot4 = \<lparr>free_memory_start = 0x80200000, memory_end = 0x80204000, mem_ptr = 0, mem_usage = 0,
     mem_total = 0, ram = \<lambda>_. 0\<rparr>"

theorem frames_exclusive_witness:
  "\<exists>s held s'. init_frames boot4 = Inr s \<and> frame_run [Get, Get, Release 0x80200000] ([], s) = Some (held, s')
     \<and> fst (get_frame s') \<notin> set held"
proof -
  have b: "boot_memory boot4 4" by (simp add: boot_memory_def boot4_def)
  obtain s where s: "init_frames boot4 = Inr s" using init_frames_inv [OF b] by blast
  have "frame_run [Get, Get, Release 0x80200000] ([], s) \<noteq> None"
    using s by (simp add: init_frames_def init_frames_loop.simps boot4_def FRAME_SIZE_def Let_def)
       (auto simp: get_frame_def)
  then obtain held s' where "frame_run [Get, Get, Release 0x80200000] ([], s) = Some (held, s')" by auto
  then show ?thesis using frames_exclusive [OF b s] s by blast
qed

end
