(* ===== verification/Pages.thy ===== *)
theory Pages
  imports Frames
begin

text \<open>
  Page-table entries and tables, \<^verbatim>\<open>src/kernel/memory/pages.c\<close> and \<^verbatim>\<open>pages.h\<close>, and the kernel's
  own table, \<^verbatim>\<open>src/kernel/memory/virtual_memory.c\<close>.

  The bit fields of the packed structure \<^verbatim>\<open>page_table_entry\<close> are the fields of the record
  \<open>pte\<close>; \<open>pte_word\<close> and \<open>word_pte\<close> give their layout in the 64-bit value the memory holds. A table is
  the 512 double words of a frame.
\<close>

unbundle bit_operations_syntax

section \<open>Entries\<close>

record pte =
  valid :: bool
  readb :: bool
  writeb :: bool
  exec :: bool
  resU :: bool
  globalb :: bool
  resA :: bool
  resD :: bool
  rsw :: "2 word"
  ppn0 :: "9 word"
  ppn1 :: "9 word"
  ppn2 :: "26 word"
  reserved :: "7 word"
  pbmt :: "2 word"
  nb :: bool

definition pte_word :: "pte \<Rightarrow> u64" where
  "pte_word p =
     of_bool (valid p) OR push_bit 1 (of_bool (readb p)) OR push_bit 2 (of_bool (writeb p)) OR
     push_bit 3 (of_bool (exec p)) OR push_bit 4 (of_bool (resU p)) OR push_bit 5 (of_bool (globalb p)) OR
     push_bit 6 (of_bool (resA p)) OR push_bit 7 (of_bool (resD p)) OR push_bit 8 (ucast (rsw p)) OR
     push_bit 10 (ucast (ppn0 p)) OR push_bit 19 (ucast (ppn1 p)) OR push_bit 28 (ucast (ppn2 p)) OR
     push_bit 54 (ucast (reserved p)) OR push_bit 61 (ucast (pbmt p)) OR push_bit 63 (of_bool (nb p))"

definition word_pte :: "u64 \<Rightarrow> pte" where
  "word_pte w =
     \<lparr>valid = bit w 0, readb = bit w 1, writeb = bit w 2, exec = bit w 3, resU = bit w 4,
      globalb = bit w 5, resA = bit w 6, resD = bit w 7, rsw = ucast (drop_bit 8 w),
      ppn0 = ucast (drop_bit 10 w), ppn1 = ucast (drop_bit 19 w), ppn2 = ucast (drop_bit 28 w),
      reserved = ucast (drop_bit 54 w), pbmt = ucast (drop_bit 61 w), nb = bit w 63\<rparr>"

datatype page_size = GIGA | MEGA | KILO

definition set_valid :: "pte \<Rightarrow> pte" where
  "set_valid p = p\<lparr>valid := True, resA := False, resU := False, resD := False, reserved := 0\<rparr>"

definition set_invalid :: "pte \<Rightarrow> pte" where
  "set_invalid p = p\<lparr>valid := False\<rparr>"

definition check_validity :: "pte \<Rightarrow> bool" where
  "check_validity p = (valid p \<and> \<not> (resA p \<or> resD p \<or> resU p \<or> reserved p \<noteq> 0))"

definition is_leaf :: "pte \<Rightarrow> bool" where
  "is_leaf p = (readb p \<or> exec p)"

definition set_write :: "bool \<Rightarrow> pte \<Rightarrow> pte" where
  "set_write b p = p\<lparr>writeb := b\<rparr>"

definition set_exec :: "bool \<Rightarrow> pte \<Rightarrow> pte" where
  "set_exec b p = p\<lparr>exec := b\<rparr>"

definition set_read :: "bool \<Rightarrow> pte \<Rightarrow> pte" where
  "set_read b p = p\<lparr>readb := b\<rparr>"

definition set_user_mode :: "bool \<Rightarrow> pte \<Rightarrow> pte" where
  "set_user_mode b p = p\<lparr>resU := b\<rparr>"

definition set_ppn0 :: "u32 \<Rightarrow> pte \<Rightarrow> pte res" where
  "set_ppn0 ppn p = rbind (rassert (ppn < 0x1FF)) (\<lambda>_. Inr (p\<lparr>ppn0 := ucast ppn\<rparr>))"

definition set_ppn1 :: "u32 \<Rightarrow> pte \<Rightarrow> pte res" where
  "set_ppn1 ppn p = rbind (rassert (ppn < 0x1FF)) (\<lambda>_. Inr (p\<lparr>ppn1 := ucast ppn\<rparr>))"

definition set_ppn2 :: "u32 \<Rightarrow> pte \<Rightarrow> pte res" where
  "set_ppn2 ppn p = rbind (rassert (ppn < 0x3FFFFFF)) (\<lambda>_. Inr (p\<lparr>ppn2 := ucast ppn\<rparr>))"

definition link_pte :: "u64 \<Rightarrow> pte \<Rightarrow> pte" where
  "link_pte address p =
     (let a0 = drop_bit 12 address;
          a1 = drop_bit 9 a0;
          a2 = drop_bit 9 a1
      in p\<lparr>ppn0 := ucast (a0 AND 0x1FF), ppn1 := ucast (a1 AND 0x1FF), ppn2 := ucast (a2 AND 0x3FFFFFF)\<rparr>)"

definition configure_page_entry ::
    "u64 \<Rightarrow> bool \<Rightarrow> bool \<Rightarrow> bool \<Rightarrow> bool \<Rightarrow> page_size \<Rightarrow> pte \<Rightarrow> pte res" where
  "configure_page_entry address rd wr ex user_mode sz p =
     (let p1 = set_user_mode user_mode (set_exec ex (set_write wr (set_read rd (set_valid p)))) in
      case sz of
        GIGA \<Rightarrow> rbind (set_ppn0 0 (link_pte address p1)) (set_ppn1 0)
      | MEGA \<Rightarrow> set_ppn0 0 (link_pte address p1)
      | KILO \<Rightarrow> Inr (link_pte address p1))"

definition GIGA_SIZE :: u64 where "GIGA_SIZE = 0x40000000"
definition MEGA_SIZE :: u64 where "MEGA_SIZE = 0x200000"
definition KILO_SIZE :: u64 where "KILO_SIZE = 0x1000"

definition find_pte_adress :: "pte \<Rightarrow> u64" where
  "find_pte_adress p = ucast (ppn2 p) * GIGA_SIZE + ucast (ppn1 p) * MEGA_SIZE + ucast (ppn0 p) * KILO_SIZE"

section \<open>Tables in memory\<close>

definition pte_addr :: "u64 \<Rightarrow> nat \<Rightarrow> u64" where
  "pte_addr t i = t + 8 * of_nat i"

definition read_pte :: "frame_state \<Rightarrow> u64 \<Rightarrow> nat \<Rightarrow> pte" where
  "read_pte s t i = word_pte (ram s (pte_addr t i))"

definition write_pte :: "u64 \<Rightarrow> nat \<Rightarrow> pte \<Rightarrow> frame_state \<Rightarrow> frame_state" where
  "write_pte t i p s = s\<lparr>ram := (ram s)(pte_addr t i := pte_word p)\<rparr>"

definition configure_entry_at ::
    "u64 \<Rightarrow> nat \<Rightarrow> u64 \<Rightarrow> bool \<Rightarrow> bool \<Rightarrow> bool \<Rightarrow> bool \<Rightarrow> page_size \<Rightarrow> frame_state \<Rightarrow> frame_state res" where
  "configure_entry_at t i address rd wr ex user sz s =
     rbind (configure_page_entry address rd wr ex user sz (read_pte s t i)) (\<lambda>p. Inr (write_pte t i p s))"

definition zero_frame :: "u64 \<Rightarrow> frame_state \<Rightarrow> frame_state" where
  "zero_frame t s = s\<lparr>ram := (\<lambda>x. if x - t < FRAME_SIZE then 0 else ram s x)\<rparr>"

definition copy_frame :: "u64 \<Rightarrow> u64 \<Rightarrow> frame_state \<Rightarrow> frame_state" where
  "copy_frame dst src s = s\<lparr>ram := (\<lambda>x. if x - dst < FRAME_SIZE then ram s (src + (x - dst)) else ram s x)\<rparr>"

definition create_page_table :: "frame_state \<Rightarrow> u64 \<times> frame_state" where
  "create_page_table s =
     (let (ptr, s1) = get_frame s in if ptr = 0 then (0, s1) else (ptr, zero_frame ptr s1))"

section \<open>The kernel's table\<close>

definition KERNEL_SPACE :: nat where "KERNEL_SPACE = 0"
definition USERSPACE :: nat where "USERSPACE = 1"
definition VRAM_SPACE_1 :: nat where "VRAM_SPACE_1 = 2"
definition VRAM_SPACE_2 :: nat where "VRAM_SPACE_2 = 3"
definition KERNEL_SPACE_ADDRESS :: u64 where "KERNEL_SPACE_ADDRESS = 0"
definition USERSPACE_ADDRESS :: u64 where "USERSPACE_ADDRESS = 0x40000000"
definition VRAM_SPACE_1_ADDRESS :: u64 where "VRAM_SPACE_1_ADDRESS = 0x80000000"
definition VRAM_SPACE_2_ADDRESS :: u64 where "VRAM_SPACE_2_ADDRESS = 0xC0000000"

text \<open>\<open>virt\<close> is the build flag \<^verbatim>\<open>VIRTMACHINE\<close>.\<close>

definition init_directory :: "bool \<Rightarrow> frame_state \<Rightarrow> (u64 \<times> frame_state) res" where
  "init_directory virt s =
     (let (d, s0) = create_page_table s in
      if d = 0 then Inr (0, s0)
      else if \<not> virt then
        rbind (configure_entry_at d KERNEL_SPACE KERNEL_SPACE_ADDRESS True True True False GIGA s0) (\<lambda>s1.
        rbind (configure_entry_at d USERSPACE USERSPACE_ADDRESS False False False True GIGA s1) (\<lambda>s2.
        rbind (configure_entry_at d VRAM_SPACE_1 VRAM_SPACE_1_ADDRESS True True False False GIGA s2) (\<lambda>s3.
        rbind (configure_entry_at d VRAM_SPACE_2 VRAM_SPACE_2_ADDRESS True True False False GIGA s3) (\<lambda>s4.
          Inr (d, s4)))))
      else
        rbind (configure_entry_at d KERNEL_SPACE KERNEL_SPACE_ADDRESS True True True False GIGA s0) (\<lambda>s1.
        rbind (configure_entry_at d VRAM_SPACE_1 VRAM_SPACE_1_ADDRESS True True True False GIGA s1) (\<lambda>s2.
          Inr (d, s2))))"

text \<open>The result is the return value, the table and the value written to \<^verbatim>\<open>satp\<close>.\<close>

definition set_up_virtual_memory :: "bool \<Rightarrow> frame_state \<Rightarrow> (int \<times> u64 \<times> u64 option \<times> frame_state) res" where
  "set_up_virtual_memory virt s =
     rbind (init_directory virt s) (\<lambda>(d, s1).
       if d = 0 then Inr (-1, d, None, s1)
       else Inr (0, d, Some (0x8000000000000000 OR drop_bit 12 d), s1))"

section \<open>Layout\<close>

lemma bit_short:
  "bit (push_bit 8 (ucast (a :: 2 word)) :: u64) n \<longleftrightarrow> 8 \<le> n \<and> n < 10 \<and> bit a (n - 8)"
  "bit (push_bit 10 (ucast (b :: 9 word)) :: u64) n \<longleftrightarrow> 10 \<le> n \<and> n < 19 \<and> bit b (n - 10)"
  "bit (push_bit 19 (ucast (b :: 9 word)) :: u64) n \<longleftrightarrow> 19 \<le> n \<and> n < 28 \<and> bit b (n - 19)"
  "bit (push_bit 28 (ucast (c :: 26 word)) :: u64) n \<longleftrightarrow> 28 \<le> n \<and> n < 54 \<and> bit c (n - 28)"
  "bit (push_bit 54 (ucast (d :: 7 word)) :: u64) n \<longleftrightarrow> 54 \<le> n \<and> n < 61 \<and> bit d (n - 54)"
  "bit (push_bit 61 (ucast (a :: 2 word)) :: u64) n \<longleftrightarrow> 61 \<le> n \<and> n < 63 \<and> bit a (n - 61)"
  by (auto simp: bit_push_bit_iff bit_ucast_iff dest: bit_imp_le_length)

lemma bit_flag:
  "k < 64 \<Longrightarrow> bit (push_bit k (of_bool b) :: u64) n \<longleftrightarrow> n = k \<and> b"
  by (auto simp: bit_push_bit_iff bit_of_bool_iff)

lemma bit_pte_word:
  "bit (pte_word p) n \<longleftrightarrow>
     n = 0 \<and> valid p \<or> n = 1 \<and> readb p \<or> n = 2 \<and> writeb p \<or> n = 3 \<and> exec p \<or> n = 4 \<and> resU p \<or>
     n = 5 \<and> globalb p \<or> n = 6 \<and> resA p \<or> n = 7 \<and> resD p \<or>
     8 \<le> n \<and> n < 10 \<and> bit (rsw p) (n - 8) \<or> 10 \<le> n \<and> n < 19 \<and> bit (ppn0 p) (n - 10) \<or>
     19 \<le> n \<and> n < 28 \<and> bit (ppn1 p) (n - 19) \<or> 28 \<le> n \<and> n < 54 \<and> bit (ppn2 p) (n - 28) \<or>
     54 \<le> n \<and> n < 61 \<and> bit (reserved p) (n - 54) \<or> 61 \<le> n \<and> n < 63 \<and> bit (pbmt p) (n - 61) \<or>
     n = 63 \<and> nb p"
  unfolding pte_word_def bit_or_iff bit_short
  by (simp only: bit_flag bit_of_bool_iff)

lemma bit_field:
  "bit (ucast (drop_bit k (w :: u64)) :: 'a::len word) n \<longleftrightarrow> n < LENGTH('a) \<and> bit w (k + n)"
  by (auto simp: bit_ucast_iff bit_drop_bit_eq)

lemma word_pte_word [simp]: "word_pte (pte_word p) = p"
proof -
  have "ucast (drop_bit 8 (pte_word p)) = rsw p" "ucast (drop_bit 10 (pte_word p)) = ppn0 p"
    "ucast (drop_bit 19 (pte_word p)) = ppn1 p" "ucast (drop_bit 28 (pte_word p)) = ppn2 p"
    "ucast (drop_bit 54 (pte_word p)) = reserved p" "ucast (drop_bit 61 (pte_word p)) = pbmt p"
    by (rule bit_word_eqI, simp add: bit_field bit_pte_word)+
  then show ?thesis by (simp add: word_pte_def bit_pte_word)
qed

lemma field_cases:
  assumes "(n::nat) < 64" "n < 8 \<Longrightarrow> P" "8 \<le> n \<Longrightarrow> n < 10 \<Longrightarrow> P" "10 \<le> n \<Longrightarrow> n < 19 \<Longrightarrow> P"
    "19 \<le> n \<Longrightarrow> n < 28 \<Longrightarrow> P" "28 \<le> n \<Longrightarrow> n < 54 \<Longrightarrow> P" "54 \<le> n \<Longrightarrow> n < 61 \<Longrightarrow> P"
    "61 \<le> n \<Longrightarrow> n < 63 \<Longrightarrow> P" "n = 63 \<Longrightarrow> P"
  shows P
proof -
  have "n = 63" if "63 \<le> n" using that assms(1) by simp
  then show P using assms(2-9) linorder_not_less by meson
qed

lemma pte_word_pte [simp]: "pte_word (word_pte w) = w"
proof (rule bit_word_eqI)
  fix n assume "n < LENGTH(64)"
  then have n: "n < 64" by simp
  show "bit (pte_word (word_pte w)) n = bit w n"
  proof (rule field_cases [OF n])
    assume "n < 8"
    then have "n = 0 \<or> n = 1 \<or> n = 2 \<or> n = 3 \<or> n = 4 \<or> n = 5 \<or> n = 6 \<or> n = 7"
      by (auto simp: numeral_eq_Suc less_Suc_eq)
    then show ?thesis by (elim disjE) (simp_all add: bit_pte_word word_pte_def)
  qed (auto simp: bit_pte_word word_pte_def bit_field)
qed

text \<open>An aligned physical address of at most 56 bits survives its three fields.\<close>

lemma link_pte_ppns:
  "ppn0 (link_pte a p) = ucast (drop_bit 12 a)" "ppn1 (link_pte a p) = ucast (drop_bit 21 a)"
  "ppn2 (link_pte a p) = ucast (drop_bit 30 a)"
proof -
  have m: "(0x1FF :: u64) = mask 9" "(0x3FFFFFF :: u64) = mask 26" by (simp_all add: mask_eq_exp_minus_1)
  show "ppn0 (link_pte a p) = ucast (drop_bit 12 a)" "ppn1 (link_pte a p) = ucast (drop_bit 21 a)"
    "ppn2 (link_pte a p) = ucast (drop_bit 30 a)"
    unfolding link_pte_def Let_def m
    by (simp_all, (rule bit_word_eqI, auto simp: bit_field bit_ucast_iff bit_and_iff bit_mask_iff
          bit_drop_bit_eq add.assoc)+)
qed

lemma short_bits:
  assumes "a < (2 :: u64) ^ 56" "bit a n"
  shows "n < 56"
proof -
  have "unat a < 2 ^ 56" using assms(1) by (simp add: word_less_nat_alt)
  then have "unat (take_bit 56 a) = unat a"
    by (simp only: unsigned_take_bit_eq take_bit_nat_eq_self)
  then have "take_bit 56 a = a" by (simp only: word_unat_eq_iff)
  then have "bit (take_bit 56 a) n" using assms(2) by simp
  then show ?thesis by (simp add: bit_take_bit_iff)
qed

lemma aligned_bits:
  assumes "(a :: u64) AND 0xFFF = 0" "bit a n"
  shows "12 \<le> n"
proof (rule ccontr)
  assume "\<not> 12 \<le> n"
  then have "bit (a AND mask 12) n" using assms(2) by (simp add: bit_and_iff bit_mask_iff)
  then show False using assms(1) by (simp add: mask_eq_exp_minus_1)
qed

lemma bit_base: "bit (push_bit k (ucast (x :: 'a::len word)) :: u64) n \<longleftrightarrow> k \<le> n \<and> n < 64 \<and> bit x (n - k)"
  by (auto simp: bit_push_bit_iff bit_ucast_iff)

lemma find_pte_adress_bits:
  "find_pte_adress p = push_bit 30 (ucast (ppn2 p)) OR push_bit 21 (ucast (ppn1 p)) OR push_bit 12 (ucast (ppn0 p))"
proof -
  have g: "x * GIGA_SIZE = push_bit 30 x" "x * MEGA_SIZE = push_bit 21 x" "x * KILO_SIZE = push_bit 12 x" for x
    by (simp_all add: push_bit_eq_mult GIGA_SIZE_def MEGA_SIZE_def KILO_SIZE_def)
  have "find_pte_adress p =
      (push_bit 30 (ucast (ppn2 p)) OR push_bit 21 (ucast (ppn1 p))) + push_bit 12 (ucast (ppn0 p))"
    unfolding find_pte_adress_def g
    by (subst disjunctive_add) (auto simp: bit_base dest: bit_imp_le_length)
  also have "\<dots> = (push_bit 30 (ucast (ppn2 p)) OR push_bit 21 (ucast (ppn1 p))) OR push_bit 12 (ucast (ppn0 p))"
    by (subst disjunctive_add) (auto simp: bit_base bit_or_iff dest: bit_imp_le_length)
  finally show ?thesis by (simp add: or.assoc)
qed

lemma link_find:
  assumes "a AND 0xFFF = 0" "a < 2 ^ 56"
  shows "find_pte_adress (link_pte a p) = a"
proof (rule bit_word_eqI)
  fix n assume n: "n < LENGTH(64)"
  have n: "n < 64" using n by simp
  consider "n < 12" | "12 \<le> n" "n < 21" | "21 \<le> n" "n < 30" | "30 \<le> n" "n < 56" | "56 \<le> n"
    by (meson linorder_not_less)
  then show "bit (find_pte_adress (link_pte a p)) n = bit a n"
    using aligned_bits [OF assms(1), of n] short_bits [OF assms(2), of n] n
    by cases (auto simp: find_pte_adress_bits link_pte_ppns bit_or_iff bit_base bit_field)
qed

lemma configure_KILO:
  "configure_page_entry a rd wr ex us KILO p =
     Inr (link_pte a (set_user_mode us (set_exec ex (set_write wr (set_read rd (set_valid p))))))"
  by (simp add: configure_page_entry_def Let_def)

section \<open>Properties\<close>

text \<open>
  C30. The entry written in memory for a page leads back to its frame: for every aligned address
  of at most 56 bits, configuring an entry, storing it as its 64-bit value and reading it
  back gives the requested rights and the same address, whatever the entry held before.
\<close>

theorem pte_address_roundtrip:
  assumes "a AND 0xFFF = 0" "a < 2 ^ 56"
  shows "\<exists>s'. configure_entry_at t i a rd wr ex us KILO s = Inr s' \<and>
    find_pte_adress (read_pte s' t i) = a \<and> valid (read_pte s' t i) \<and>
    readb (read_pte s' t i) = rd \<and> writeb (read_pte s' t i) = wr \<and> exec (read_pte s' t i) = ex \<and>
    resU (read_pte s' t i) = us \<and> (\<forall>x. x \<noteq> pte_addr t i \<longrightarrow> ram s' x = ram s x)"
  using link_find [OF assms]
  by (auto simp: configure_entry_at_def configure_KILO write_pte_def read_pte_def)
     (auto simp: link_pte_def set_user_mode_def set_exec_def set_write_def set_read_def set_valid_def)

theorem pte_address_roundtrip_witness:
  "\<exists>s'. configure_entry_at 0x80300000 511 0x80FFF000 True True False True KILO boot4 = Inr s' \<and>
    find_pte_adress (read_pte s' 0x80300000 511) = 0x80FFF000"
  using pte_address_roundtrip [where a = "0x80FFF000" and t = "0x80300000" and i = 511 and us = True
      and rd = True and wr = True and ex = False and s = boot4] by auto

text \<open>
  The packed layout loses nothing: the 64-bit value of an entry determines its fields and
  every 64-bit value is the value of exactly one entry.
\<close>

theorem pte_layout_bijective: "word_pte (pte_word p) = p \<and> pte_word (word_pte w) = w"
  by simp

text \<open>
  \<^verbatim>\<open>check_validity\<close> rejects every user page: an entry \<^verbatim>\<open>configure_page_entry\<close> made is valid for
  it exactly when it is not a user page, since it counts the user bit as reserved.
\<close>

theorem check_validity_kernel_only:
  "configure_page_entry a rd wr ex us sz p = Inr p' \<Longrightarrow> check_validity p' = (\<not> us)"
  by (cases sz)
     (auto simp: configure_page_entry_def Let_def link_pte_def set_ppn0_def set_ppn1_def res_simps
        set_user_mode_def set_exec_def set_write_def set_read_def set_valid_def check_validity_def)

theorem check_validity_kernel_only_witness:
  "\<not> check_validity (projr (configure_page_entry 0x80000000 True True False True KILO (word_pte 0)))"
  using check_validity_kernel_only [where a = "0x80000000" and rd = True and wr = True and ex = False
      and us = True and sz = KILO and p = "word_pte 0"]
  by (simp add: configure_KILO)

end
