(* ===== verification/ProcMem.thy ===== *)
theory ProcMem
  imports Pages
begin

text \<open>
  The memory of a process, \<^verbatim>\<open>src/kernel/process/process_memory.c\<close>: its level-2 table, the single
  level-1 table of its user gigapage and the level-0 tables under it, divided into a region for
  code (growing up) and stack (growing down), one for the heap and one for shared pages.

  A list of \<^verbatim>\<open>page_table_link_list\<close> nodes is the sequence of its nodes, from head to tail. The
  outcomes of the coming \<^verbatim>\<open>malloc\<close> calls are the list \<open>mallocs\<close> (every call past its end
  succeeds). The table \<^verbatim>\<open>link_index_table\<close> is written and never read; it is left out.
\<close>

unbundle bit_operations_syntax

section \<open>State\<close>

datatype page_t = CODE_PAGE | STACK_PAGE | HEAP_PAGE | SHARED_PAGE | NONE_PAGE

record page_node =
  pn_table :: u64
  pn_type :: page_t
  pn_index :: int
  pn_usage :: u16

record lvl1_node =
  l1_table :: u64
  l1_index :: int
  l1_usage :: u16
  l1_code :: u16
  l1_stack :: u16
  l1_heap :: u16
  l1_shared :: u16
  l1_children :: "page_node list"

record mem_proc =
  code_usage :: u32
  stack_usage :: u32
  heap_usage :: u32
  shared_pages_usage :: u32
  sbrk_pointer :: u64
  start_heap_add :: u64

record proc_mem =
  page_table_level_2 :: u64
  page_tables_lvl_1_list :: "lvl1_node option"
  mem_info :: mem_proc
  stack_shift :: u32
  sscratch_frame :: u64

record frame_loc =
  lvl2_index :: u16
  lvl1_index :: u16
  lvl0_index :: u16
  loc_table :: u64

record mm =
  frames :: frame_state
  mallocs :: "bool list"

definition kmalloc :: "mm \<Rightarrow> bool \<times> mm" where
  "kmalloc m = (case mallocs m of [] \<Rightarrow> (True, m) | b # bs \<Rightarrow> (b, m\<lparr>mallocs := bs\<rparr>))"

definition PT_SIZE :: nat where "PT_SIZE = 512"
definition STACK_FRAME_SIZE :: nat where "STACK_FRAME_SIZE = 128"
definition HEAP_FRAME_SIZE :: nat where "HEAP_FRAME_SIZE = 128"
definition SHARED_FRAME_SIZE :: nat where "SHARED_FRAME_SIZE = 256"
definition STACK_CODE_SPACE_START :: int where "STACK_CODE_SPACE_START = 0"
definition STACK_CODE_SPACE_END :: int where "STACK_CODE_SPACE_END = 127"
definition HEAP_SPACE_START :: int where "HEAP_SPACE_START = 128"
definition HEAP_SPACE_END :: int where "HEAP_SPACE_END = 255"
definition SHARED_MEMORY_START :: int where "SHARED_MEMORY_START = 256"
definition SHARED_MEMORY_END :: int where "SHARED_MEMORY_END = 511"

lemmas mem_layout_defs = PT_SIZE_def STACK_FRAME_SIZE_def HEAP_FRAME_SIZE_def SHARED_FRAME_SIZE_def
  STACK_CODE_SPACE_START_def STACK_CODE_SPACE_END_def HEAP_SPACE_START_def HEAP_SPACE_END_def
  SHARED_MEMORY_START_def SHARED_MEMORY_END_def

definition CUSTOM_MOD_DIV :: "nat \<Rightarrow> nat \<Rightarrow> nat" where
  "CUSTOM_MOD_DIV number divisor =
     (if number mod divisor > 0 then number div divisor + 1 else number div divisor)"

text \<open>\<^verbatim>\<open>map_address_for_process\<close> of \<^verbatim>\<open>memory_api.c\<close>, the virtual address of a location.\<close>

definition map_address_for_process :: "u16 \<Rightarrow> u16 \<Rightarrow> u16 \<Rightarrow> u64" where
  "map_address_for_process l2 l1 l0 = ucast l2 * GIGA_SIZE + ucast l1 * MEGA_SIZE + ucast l0 * KILO_SIZE"

section \<open>Level-0 tables\<close>

definition save_frame_data :: "page_node \<Rightarrow> page_t \<Rightarrow> frame_loc" where
  "save_frame_data n ty =
     \<lparr>lvl2_index = of_nat USERSPACE, lvl1_index = word_of_int (pn_index n),
      lvl0_index = (if ty = STACK_PAGE then of_nat PT_SIZE - 1 - pn_usage n else pn_usage n),
      loc_table = pn_table n\<rparr>"

text \<open>
  \<^verbatim>\<open>configure_page_table_linked_list_entry\<close> for a child of the level-1 node: the position in
  the level-1 table and the parent's counters. \<open>None\<close> is the return value -1.
\<close>

definition configure_child_entry :: "u64 \<Rightarrow> lvl1_node \<Rightarrow> page_t \<Rightarrow> mm \<Rightarrow> (page_node \<times> lvl1_node) option \<times> mm" where
  "configure_child_entry table parent ty m =
     (if table = 0 then (None, m)
      else
        (let (ok, m1) = kmalloc m in
         if \<not> ok then (None, m1)
         else
           (let (idx, parent1) =
              (case ty of
                 CODE_PAGE \<Rightarrow> (STACK_CODE_SPACE_START + uint (l1_code parent), parent\<lparr>l1_code := l1_code parent + 1\<rparr>)
               | STACK_PAGE \<Rightarrow> (STACK_CODE_SPACE_END - uint (l1_stack parent), parent\<lparr>l1_stack := l1_stack parent + 1\<rparr>)
               | HEAP_PAGE \<Rightarrow> (HEAP_SPACE_START + uint (l1_heap parent), parent\<lparr>l1_heap := l1_heap parent + 1\<rparr>)
               | SHARED_PAGE \<Rightarrow> (SHARED_MEMORY_START + uint (l1_shared parent), parent\<lparr>l1_shared := l1_shared parent + 1\<rparr>)
               | NONE_PAGE \<Rightarrow> (0, parent))
            in (Some (\<lparr>pn_table = table, pn_type = ty, pn_index = idx, pn_usage = 0\<rparr>,
                      parent1\<lparr>l1_usage := l1_usage parent1 + 1\<rparr>), m1))))"

text \<open>The same function for the level-1 node itself, which has no parent.\<close>

definition configure_top_entry :: "u64 \<Rightarrow> int \<Rightarrow> mm \<Rightarrow> lvl1_node option \<times> mm" where
  "configure_top_entry table custom_index m =
     (if table = 0 then (None, m)
      else
        (let (ok, m1) = kmalloc m in
         if \<not> ok then (None, m1)
         else
           (let (ok2, m2) = kmalloc m1 in
            if \<not> ok2 then (None, m2)
            else (Some \<lparr>l1_table = table, l1_index = custom_index, l1_usage = 0, l1_code = 0, l1_stack = 0,
                        l1_heap = 0, l1_shared = 0, l1_children = []\<rparr>, m2))))"

definition add_child_node_page_table :: "lvl1_node \<Rightarrow> page_t \<Rightarrow> mm \<Rightarrow> lvl1_node option \<times> mm" where
  "add_child_node_page_table parent ty m =
     (if unat (l1_usage parent) \<ge> PT_SIZE \<or> unat (l1_stack parent) \<ge> STACK_FRAME_SIZE \<or>
         unat (l1_heap parent) \<ge> HEAP_FRAME_SIZE \<or> unat (l1_shared parent) \<ge> SHARED_FRAME_SIZE
      then (None, m)
      else
        (let (t, f1) = create_page_table (frames m); m1 = m\<lparr>frames := f1\<rparr> in
         if t = 0 then (None, m1)
         else
           (case configure_child_entry t parent ty m1 of
              (None, m2) \<Rightarrow> (None, m2)
            | (Some (node, parent1), m2) \<Rightarrow>
                (Some (parent1\<lparr>l1_children := l1_children parent1 @ [node]\<rparr>), m2))))"

definition link_lvl1_table_direct :: "proc_mem \<Rightarrow> nat \<Rightarrow> int \<Rightarrow> u64 \<Rightarrow> mm \<Rightarrow> (int \<times> mm) res" where
  "link_lvl1_table_direct pm lvl2 lvl1 lvl0_table m =
     (case page_tables_lvl_1_list pm of
        None \<Rightarrow> Inr (-1, m)
      | Some l1 \<Rightarrow>
          if lvl0_table = 0 then Inr (-1, m)
          else if l1_index l1 \<noteq> int lvl2 then Inl Null_deref
          else rbind (configure_entry_at (l1_table l1) (nat lvl1) lvl0_table False False False True KILO (frames m))
                 (\<lambda>f. Inr (0, m\<lparr>frames := f\<rparr>)))"

text \<open>The range of level-1 positions of a kind of page, and its counter.\<close>

fun page_range :: "page_t \<Rightarrow> int \<times> int" where
  "page_range CODE_PAGE = (STACK_CODE_SPACE_START, STACK_CODE_SPACE_END)"
| "page_range STACK_PAGE = (STACK_CODE_SPACE_START, STACK_CODE_SPACE_END)"
| "page_range HEAP_PAGE = (HEAP_SPACE_START, HEAP_SPACE_END)"
| "page_range SHARED_PAGE = (SHARED_MEMORY_START, SHARED_MEMORY_END)"
| "page_range NONE_PAGE = (0, -1)"

fun count_page :: "page_t \<Rightarrow> mem_proc \<Rightarrow> mem_proc" where
  "count_page CODE_PAGE i = i\<lparr>code_usage := code_usage i + 1\<rparr>"
| "count_page STACK_PAGE i = i\<lparr>stack_usage := stack_usage i + 1\<rparr>"
| "count_page HEAP_PAGE i = i\<lparr>heap_usage := heap_usage i + 1\<rparr>"
| "count_page SHARED_PAGE i = i\<lparr>shared_pages_usage := shared_pages_usage i + 1\<rparr>"
| "count_page NONE_PAGE i = i"

definition has_slot :: "page_t \<Rightarrow> page_node \<Rightarrow> bool" where
  "has_slot ty n = (fst (page_range ty) \<le> pn_index n \<and> pn_index n \<le> snd (page_range ty) \<and>
     pn_type n = ty \<and> unat (pn_usage n) < PT_SIZE)"

text \<open>The loop over the level-0 tables: take the next slot of the first that has one.\<close>

fun take_slot :: "page_t \<Rightarrow> page_node list \<Rightarrow> (frame_loc \<times> page_node list) option" where
  "take_slot ty [] = None"
| "take_slot ty (n # ns) =
     (if has_slot ty n then Some (save_frame_data n ty, n\<lparr>pn_usage := pn_usage n + 1\<rparr> # ns)
      else map_option (\<lambda>(loc, ns'). (loc, n # ns')) (take_slot ty ns))"

definition last_used :: "lvl1_node \<Rightarrow> lvl1_node" where
  "last_used l1 = l1\<lparr>l1_children := butlast (l1_children l1) @
     [(last (l1_children l1))\<lparr>pn_usage := pn_usage (last (l1_children l1)) + 1\<rparr>]\<rparr>"

definition no_loc :: frame_loc where
  "no_loc = \<lparr>lvl2_index = 0, lvl1_index = 0, lvl0_index = 0, loc_table = 0\<rparr>"

definition add_frame_to_process :: "page_t \<Rightarrow> proc_mem \<Rightarrow> mm \<Rightarrow> (int \<times> frame_loc \<times> proc_mem \<times> mm) res" where
  "add_frame_to_process ty pm m =
     (case page_tables_lvl_1_list pm of
        None \<Rightarrow> Inr (-1, no_loc, pm, m)
      | Some l1 \<Rightarrow>
          (let pm1 = pm\<lparr>mem_info := count_page ty (mem_info pm)\<rparr> in
           case take_slot ty (l1_children l1) of
             Some (loc, ns) \<Rightarrow>
               Inr (0, loc, pm1\<lparr>page_tables_lvl_1_list := Some (l1\<lparr>l1_children := ns\<rparr>)\<rparr>, m)
           | None \<Rightarrow>
               (case add_child_node_page_table l1 ty m of
                  (None, m1) \<Rightarrow> Inr (-1, no_loc, pm1, m1)
                | (Some l1', m1) \<Rightarrow>
                    (let tl = last (l1_children l1');
                         loc = save_frame_data tl ty;
                         pm2 = pm1\<lparr>page_tables_lvl_1_list := Some l1'\<rparr>;
                         pm3 = pm1\<lparr>page_tables_lvl_1_list := Some (last_used l1')\<rparr>
                     in if ty = SHARED_PAGE then
                          rbind (link_lvl1_table_direct pm2 USERSPACE (pn_index tl) (pn_table tl) m1) (\<lambda>(r, m2).
                            if r < 0 then Inr (-1, loc, pm2, m2) else Inr (0, loc, pm3, m2))
                        else Inr (0, loc, pm3, m1)))))"

section \<open>Allocation\<close>

text \<open>
  The loop of \<^verbatim>\<open>add_and_allocate_frames\<close>. The test \<^verbatim>\<open>add_frame_to_process(...) < -1\<close> never holds,
  so a failed call goes on with an all-zero location. The frames handed out are returned.
\<close>

fun allocate_loop :: "nat \<Rightarrow> page_t \<Rightarrow> u64 list \<Rightarrow> proc_mem \<Rightarrow> mm \<Rightarrow> (int \<times> u64 list \<times> proc_mem \<times> mm) res" where
  "allocate_loop 0 ty acc pm m = Inr (0, acc, pm, m)"
| "allocate_loop (Suc k) ty acc pm m =
     rbind (add_frame_to_process ty pm m) (\<lambda>(r, loc, pm1, m1).
     if r < -1 then Inr (-1, acc, pm1, m1)
     else
       rbind (if lvl0_index loc = 0 \<or> ty = STACK_PAGE \<and> unat (lvl0_index loc) = PT_SIZE - 1 then
                (case page_tables_lvl_1_list pm1 of
                   None \<Rightarrow> Inl Null_deref
                 | Some l1 \<Rightarrow>
                     if l1_children l1 = [] then Inl Null_deref
                     else
                       (let tl = last (l1_children l1) in
                        rbind (rassert (pn_type tl = ty)) (\<lambda>_.
                        link_lvl1_table_direct pm1 USERSPACE (pn_index tl) (pn_table tl) m1)))
              else Inr (0, m1)) (\<lambda>(r, m2).
       if r < 0 then Inr (-1, acc, pm1, m2)
       else
         (let (fp, f3) = get_frame (frames m2); m3 = m2\<lparr>frames := f3\<rparr> in
          if fp = 0 then Inr (-1, acc, pm1, m3)
          else if loc_table loc = 0 then Inl Null_deref
          else
            rbind (configure_entry_at (loc_table loc) (unat (lvl0_index loc)) fp True True (ty = CODE_PAGE) True
                     KILO (zero_frame fp (frames m3)))
              (\<lambda>f4. allocate_loop k ty (acc @ [fp]) pm1 (m3\<lparr>frames := f4\<rparr>)))))"

definition add_and_allocate_frames :: "nat \<Rightarrow> page_t \<Rightarrow> proc_mem \<Rightarrow> mm \<Rightarrow> (int \<times> u64 list \<times> proc_mem \<times> mm) res" where
  "add_and_allocate_frames page_nb ty pm m =
     (if page_nb > unat (get_remaining_frames (frames m)) then Inr (-1, [], pm, m)
      else allocate_loop page_nb ty [] pm m)"

text \<open>\<open>base\<close> is the kernel's own level-2 table, \<^verbatim>\<open>kernel_base_page_table\<close>.\<close>

definition init_mem_proc :: "u64 \<Rightarrow> proc_mem \<Rightarrow> mm \<Rightarrow> (int \<times> proc_mem \<times> mm) res" where
  "init_mem_proc base pm m =
     (let (l2, f1) = create_page_table (frames m) in
      if l2 = 0 then Inr (-1, pm, m\<lparr>frames := f1\<rparr>)
      else
        (let pm1 = pm\<lparr>page_table_level_2 := l2\<rparr>;
             f2 = copy_frame l2 base f1;
             (t1, f3) = create_page_table f2;
             m3 = m\<lparr>frames := f3\<rparr>
         in if t1 = 0 then Inr (-1, pm1, m3)
            else
              (case configure_top_entry t1 (int USERSPACE) m3 of
                 (None, m4) \<Rightarrow> Inr (-1, pm1, m4)
               | (Some l1, m4) \<Rightarrow>
                   rbind (configure_entry_at l2 USERSPACE t1 False False False True KILO (frames m4)) (\<lambda>f5.
                     Inr (0, pm1\<lparr>page_tables_lvl_1_list := Some l1\<rparr>, m4\<lparr>frames := f5\<rparr>)))))"

text \<open>\<^verbatim>\<open>memcpy\<close> of \<open>n\<close> bytes between aligned areas, on memory seen as double words.\<close>

definition copy_bytes :: "u64 \<Rightarrow> u64 \<Rightarrow> nat \<Rightarrow> frame_state \<Rightarrow> frame_state" where
  "copy_bytes dst src n s = s\<lparr>ram := (\<lambda>x.
     let off = unat (x - dst); w = ram s (src + (x - dst)) in
     if off \<ge> n then ram s x
     else if n - off \<ge> 8 then w
     else (w AND mask (8 * (n - off))) OR (ram s x AND NOT (mask (8 * (n - off)))))\<rparr>"

fun copy_code :: "u64 \<Rightarrow> u64 list \<Rightarrow> nat \<Rightarrow> frame_state \<Rightarrow> frame_state" where
  "copy_code start [] left s = s"
| "copy_code start (fp # fps) left s =
     (if left = 0 then s
      else copy_code (start + FRAME_SIZE) fps (left - 4096) (copy_bytes fp start (min 4096 left) s))"

text \<open>\<open>start\<close> and \<open>stop\<close> are the bounds of the program's image, \<^verbatim>\<open>app_pointer\<close>.\<close>

definition process_memory_allocator ::
    "u64 \<Rightarrow> u64 \<Rightarrow> u64 \<Rightarrow> nat \<Rightarrow> proc_mem \<Rightarrow> mm \<Rightarrow> (int \<times> proc_mem \<times> mm) res" where
  "process_memory_allocator base start stop stack_size pm m =
     rbind (init_mem_proc base pm m) (\<lambda>(r, pm1, m1).
     if r < 0 then Inr (-1, pm1, m1)
     else
       (let code_size = sint (ucast (stop - start) :: u32) in
        if code_size < 0 then Inr (-1, pm1, m1)
        else
          rbind (add_and_allocate_frames (CUSTOM_MOD_DIV (nat code_size) 4096) CODE_PAGE pm1 m1) (\<lambda>(r, fl, pm2, m2).
          if r < 0 then Inr (-1, pm2, m2)
          else
            rbind (add_and_allocate_frames (CUSTOM_MOD_DIV stack_size 4096) STACK_PAGE pm2 m2) (\<lambda>(r, _, pm3, m3).
            if r < 0 then Inr (-1, pm3, m3)
            else
              rbind (add_and_allocate_frames (CUSTOM_MOD_DIV 1 4096) HEAP_PAGE pm3 m3) (\<lambda>(r, _, pm4, m4).
              if r < 0 then Inr (-1, pm4, m4)
              else Inr (0, pm4, m4\<lparr>frames := copy_code start fl (nat code_size) (frames m4)\<rparr>))))))"

section \<open>Release\<close>

text \<open>
  The bounds of both loops are compared as \<^verbatim>\<open>unsigned int\<close>, so a negative last index is a
  huge one.
\<close>

fun free_entries :: "u64 \<Rightarrow> nat list \<Rightarrow> frame_state \<Rightarrow> frame_state" where
  "free_entries t [] s = s"
| "free_entries t (i # is) s = free_entries t is (release_frame (find_pte_adress (read_pte s t i)) s)"

definition free_frames_indexed :: "u64 \<Rightarrow> int \<Rightarrow> int \<Rightarrow> frame_state \<Rightarrow> int \<times> frame_state" where
  "free_frames_indexed t start_index end_index s =
     (if t = 0 then (-1, s)
      else (0, free_entries t [nat (start_index mod 2 ^ 32) ..< nat (end_index mod 2 ^ 32)] s))"

definition free_frames_indexed_inverse :: "u64 \<Rightarrow> int \<Rightarrow> int \<Rightarrow> frame_state \<Rightarrow> int \<times> frame_state" where
  "free_frames_indexed_inverse t start_index end_index s =
     (if t = 0 then (-1, s)
      else (0, free_entries t (rev [Suc (nat (end_index mod 2 ^ 32)) ..< Suc (nat (start_index mod 2 ^ 32))]) s))"

text \<open>\<^verbatim>\<open>free_frames_page_table\<close> on a level-0 node, whose region counters are all 0.\<close>

definition free_frames_lvl0 :: "page_node \<Rightarrow> frame_state \<Rightarrow> frame_state" where
  "free_frames_lvl0 n s =
     (if pn_index n \<ge> SHARED_MEMORY_START then s
      else if pn_type n = STACK_PAGE then
        snd (free_frames_indexed_inverse (pn_table n) (int PT_SIZE - 1) (int PT_SIZE - 1 - uint (pn_usage n)) s)
      else snd (free_frames_indexed (pn_table n) 0 (uint (pn_usage n)) s))"

text \<open>The same function on the level-1 node; with all counters 0 it takes the level-0 branch.\<close>

definition free_frames_lvl1 :: "lvl1_node \<Rightarrow> frame_state \<Rightarrow> frame_state" where
  "free_frames_lvl1 l s =
     (if l1_stack l = 0 \<and> l1_heap l = 0 \<and> l1_shared l = 0 \<and> l1_code l = 0 then
        (if l1_index l \<ge> SHARED_MEMORY_START then s
         else snd (free_frames_indexed (l1_table l) 0 (uint (l1_usage l)) s))
      else
        (let s1 = snd (free_frames_indexed (l1_table l) STACK_CODE_SPACE_START
                         (STACK_CODE_SPACE_START + uint (l1_code l)) s);
             s2 = snd (free_frames_indexed_inverse (l1_table l) STACK_CODE_SPACE_END
                         (STACK_CODE_SPACE_END - uint (l1_stack l)) s1);
             s3 = snd (free_frames_indexed (l1_table l) HEAP_SPACE_START
                         (HEAP_SPACE_START + uint (l1_heap l)) s2)
         in snd (free_frames_indexed (l1_table l) SHARED_MEMORY_START
                         (SHARED_MEMORY_START + uint (l1_shared l)) s3)))"

text \<open>
  The page-table part of \<^verbatim>\<open>free_process_memory\<close>; \<open>all\<close> is \<^verbatim>\<open>del_type == DELETE_ALL\<close>.
\<close>

definition free_page_tables :: "bool \<Rightarrow> proc_mem \<Rightarrow> frame_state \<Rightarrow> frame_state res" where
  "free_page_tables all pm s =
     (if page_table_level_2 pm = 0 then Inr s
      else
        (case page_tables_lvl_1_list pm of
           None \<Rightarrow> Inl Null_deref
         | Some l1 \<Rightarrow>
             (let s1 = fold free_frames_lvl0 (l1_children l1) s;
                  s2 = free_frames_lvl1 l1 s1;
                  s3 = release_frame (l1_table l1) s2
              in if all then Inr (release_frame (sscratch_frame pm) (release_frame (page_table_level_2 pm) s3))
                 else Inr s3)))"

section \<open>Fork, stack growth, heap\<close>

fun copy_slots :: "page_node \<Rightarrow> page_node \<Rightarrow> nat list \<Rightarrow> frame_state \<Rightarrow> (int \<times> frame_state) res" where
  "copy_slots dst src [] s = Inr (0, s)"
| "copy_slots dst src (k # ks) s =
     (let (fp, s1) = get_frame s in
      if fp = 0 then Inr (-1, s1)
      else
        (let i = (if pn_type dst = STACK_PAGE then PT_SIZE - 1 - k else k);
             s2 = zero_frame fp s1;
             s3 = copy_frame fp (find_pte_adress (read_pte s2 (pn_table src) i)) s2
         in rbind (configure_entry_at (pn_table dst) i fp True True (pn_type dst = CODE_PAGE) True KILO s3)
              (\<lambda>s4. copy_slots dst src ks s4)))"

fun copy_tables :: "lvl1_node \<Rightarrow> page_node list \<Rightarrow> page_node list \<Rightarrow> frame_state \<Rightarrow> (int \<times> frame_state) res" where
  "copy_tables l1 olds [] s = Inr (0, s)"
| "copy_tables l1 olds (n # ns) s =
     (case List.find (\<lambda>o'. pn_index o' = pn_index n) olds of
        None \<Rightarrow> Inl Assert_fail
      | Some src \<Rightarrow>
          rbind (rassert (pn_usage src = pn_usage n)) (\<lambda>_.
          rbind (configure_entry_at (l1_table l1) (nat (pn_index n)) (pn_table n) False False False True KILO s) (\<lambda>s1.
          rbind (copy_slots n src [0 ..< unat (pn_usage n)] s1) (\<lambda>(r, s2).
            if r < 0 then Inr (-1, s2) else copy_tables l1 olds ns s2))))"

text \<open>\<^verbatim>\<open>copy_process_memory\<close> up to the shared pages.\<close>

definition copy_private_memory :: "u64 \<Rightarrow> proc_mem \<Rightarrow> proc_mem \<Rightarrow> mm \<Rightarrow> (int \<times> proc_mem \<times> mm) res" where
  "copy_private_memory base old pm m =
     rbind (init_mem_proc base pm m) (\<lambda>(r, pm1, m1).
     if r < 0 then Inr (-1, pm1, m1)
     else rbind (add_and_allocate_frames (unat (code_usage (mem_info old))) CODE_PAGE pm1 m1) (\<lambda>(r, _, pm2, m2).
     if r < 0 then Inr (-1, pm2, m2)
     else rbind (add_and_allocate_frames (unat (stack_usage (mem_info old))) STACK_PAGE pm2 m2) (\<lambda>(r, _, pm3, m3).
     if r < 0 then Inr (-1, pm3, m3)
     else rbind (add_and_allocate_frames (unat (heap_usage (mem_info old))) HEAP_PAGE pm3 m3) (\<lambda>(r, _, pm4, m4).
     if r < 0 then Inr (-1, pm4, m4)
     else
       rbind (rassert (code_usage (mem_info pm4) = code_usage (mem_info old) \<and>
                       stack_usage (mem_info pm4) = stack_usage (mem_info old) \<and>
                       heap_usage (mem_info pm4) = heap_usage (mem_info old))) (\<lambda>_.
       let pm5 = pm4\<lparr>mem_info := (mem_info pm4)\<lparr>sbrk_pointer := sbrk_pointer (mem_info old),
                       start_heap_add := start_heap_add (mem_info old)\<rparr>\<rparr>
       in case (page_tables_lvl_1_list pm5, page_tables_lvl_1_list old) of
            (Some l1, Some lo) \<Rightarrow>
              rbind (copy_tables l1 (l1_children lo) (l1_children l1) (frames m4)) (\<lambda>(r, f).
                Inr (r, pm5, m4\<lparr>frames := f\<rparr>))
          | _ \<Rightarrow> Inl Null_deref)))))"

definition get_first_stack_page :: "proc_mem \<Rightarrow> frame_state \<Rightarrow> u64 res" where
  "get_first_stack_page pm s =
     (case page_tables_lvl_1_list pm of
        None \<Rightarrow> Inl Null_deref
      | Some l1 \<Rightarrow>
          (case List.find (\<lambda>n. pn_type n = STACK_PAGE \<and> pn_index n = STACK_CODE_SPACE_END) (l1_children l1) of
             None \<Rightarrow> Inr 0
           | Some n \<Rightarrow> Inr (find_pte_adress (read_pte s (pn_table n) (PT_SIZE - 1)))))"

definition check_expansion_mem :: "u64 \<Rightarrow> proc_mem \<Rightarrow> mm \<Rightarrow> (int \<times> proc_mem \<times> mm) res" where
  "check_expansion_mem mtval pm m =
     (let sp_limit = 0x40000000 + FRAME_SIZE * ucast (stack_shift pm);
          used_pages = (sp_limit - mtval) div FRAME_SIZE + 1;
          page_diff = sint (used_pages - ucast (stack_usage (mem_info pm)))
      in if page_diff > 0 \<and> uint (stack_usage (mem_info pm)) + page_diff < int (STACK_FRAME_SIZE * PT_SIZE)
         then rbind (add_and_allocate_frames (nat page_diff) STACK_PAGE pm m) (\<lambda>(r, _, pm1, m1). Inr (r, pm1, m1))
         else Inr (-1, pm, m))"

text \<open>The result is the returned pointer, \<open>-1\<close> on failure.\<close>

definition sys_sbrk :: "s64 \<Rightarrow> proc_mem \<Rightarrow> mm \<Rightarrow> (u64 \<times> proc_mem \<times> mm) res" where
  "sys_sbrk increment pm m =
     (let current = sbrk_pointer (mem_info pm);
          c = current + increment;
          abs_inc = (if sint increment < 0 then - increment else increment);
          nb_pages = CUSTOM_MOD_DIV (unat abs_inc) 4096;
          finish = (\<lambda>pm' m'.
            if c < start_heap_add (mem_info pm') then Inr (-1, pm', m')
            else Inr (current, pm'\<lparr>mem_info := (mem_info pm')\<lparr>sbrk_pointer := c\<rparr>\<rparr>, m'))
      in if sint increment > 0 then
           rbind (add_and_allocate_frames (nb_pages mod 2 ^ 32) HEAP_PAGE pm m) (\<lambda>(r, _, pm1, m1).
             if r < 0 then Inr (-1, pm1, m1) else finish pm1 m1)
         else finish pm m)"

end
