(* ===== verification/ProcMemLayout.thy ===== *)
theory ProcMemLayout
  imports ProcMem
begin

text \<open>
  The layout of a process's virtual memory: no two pages given to a process share a virtual
  address, as long as its code and its stack together have at most 128 level-0 tables.
\<close>

section \<open>The invariant of the level-1 node\<close>

definition cnt :: "page_t \<Rightarrow> page_node list \<Rightarrow> nat" where
  "cnt ty ns = count_list (map pn_type ns) ty"

fun slot_index :: "page_t \<Rightarrow> nat \<Rightarrow> int" where
  "slot_index CODE_PAGE i = int i"
| "slot_index STACK_PAGE i = 127 - int i"
| "slot_index HEAP_PAGE i = 128 + int i"
| "slot_index SHARED_PAGE i = 256 + int i"
| "slot_index NONE_PAGE i = 0"

definition wf_children :: "page_node list \<Rightarrow> bool" where
  "wf_children ns \<longleftrightarrow>
     (\<forall>n \<in> set ns. pn_type n \<noteq> NONE_PAGE \<and> unat (pn_usage n) \<le> 512 \<and>
        (\<exists>i < cnt (pn_type n) ns. pn_index n = slot_index (pn_type n) i)) \<and>
     distinct (map (\<lambda>n. (pn_type n, pn_index n)) ns)"

definition wf_l1 :: "lvl1_node \<Rightarrow> bool" where
  "wf_l1 l \<longleftrightarrow> wf_children (l1_children l) \<and> length (l1_children l) \<le> 512 \<and>
     unat (l1_usage l) = length (l1_children l) \<and>
     unat (l1_code l) = cnt CODE_PAGE (l1_children l) \<and> unat (l1_stack l) = cnt STACK_PAGE (l1_children l) \<and>
     unat (l1_heap l) = cnt HEAP_PAGE (l1_children l) \<and> unat (l1_shared l) = cnt SHARED_PAGE (l1_children l) \<and>
     cnt STACK_PAGE (l1_children l) \<le> 128 \<and> cnt HEAP_PAGE (l1_children l) \<le> 128 \<and>
     cnt SHARED_PAGE (l1_children l) \<le> 256"

text \<open>Code and stack do not meet.\<close>

definition apart :: "lvl1_node \<Rightarrow> bool" where
  "apart l = (unat (l1_code l) + unat (l1_stack l) \<le> 128)"

lemma wf_l1_apart_index:
  assumes "wf_l1 l" "apart l" "n \<in> set (l1_children l)" "n' \<in> set (l1_children l)" "pn_index n = pn_index n'"
  shows "pn_type n = pn_type n'"
proof -
  obtain i where i: "i < cnt (pn_type n) (l1_children l)" "pn_index n = slot_index (pn_type n) i" "pn_type n \<noteq> NONE_PAGE"
    using assms(1,3) by (auto simp: wf_l1_def wf_children_def)
  obtain j where j: "j < cnt (pn_type n') (l1_children l)" "pn_index n' = slot_index (pn_type n') j" "pn_type n' \<noteq> NONE_PAGE"
    using assms(1,4) by (auto simp: wf_l1_def wf_children_def)
  show ?thesis
    using i j assms(1,2,5)
    by (cases "pn_type n"; cases "pn_type n'") (auto simp: wf_l1_def apart_def)
qed

lemma slot_index_bounds:
  assumes "wf_l1 l" "n \<in> set (l1_children l)"
  shows "0 \<le> pn_index n \<and> pn_index n < 512"
proof -
  obtain i where i: "i < cnt (pn_type n) (l1_children l)" "pn_index n = slot_index (pn_type n) i" "pn_type n \<noteq> NONE_PAGE"
    using assms by (auto simp: wf_l1_def wf_children_def)
  have "cnt (pn_type n) (l1_children l) \<le> 512"
    using assms(1) count_le_length [of "map pn_type (l1_children l)" "pn_type n"]
    by (simp add: wf_l1_def cnt_def)
  then show ?thesis using i assms(1) by (cases "pn_type n") (auto simp: wf_l1_def)
qed

section \<open>Slots given out\<close>

definition slot_of :: "page_t \<Rightarrow> nat \<Rightarrow> nat" where
  "slot_of ty u = (if ty = STACK_PAGE then 511 - u else u)"

text \<open>The virtual pages in use, as pairs of the positions in the level-1 and level-0 tables.\<close>

definition node_keys :: "page_node \<Rightarrow> (int \<times> nat) set" where
  "node_keys n = (\<lambda>u. (pn_index n, slot_of (pn_type n) u)) ` {..< unat (pn_usage n)}"

definition keys :: "page_node list \<Rightarrow> (int \<times> nat) set" where
  "keys ns = (\<Union>n \<in> set ns. node_keys n)"

definition loc_key :: "frame_loc \<Rightarrow> int \<times> nat" where
  "loc_key loc = (uint (lvl1_index loc), unat (lvl0_index loc))"

lemma loc_key_save:
  assumes "0 \<le> pn_index n" "pn_index n < 512" "unat (pn_usage n) < 512" "pn_type n = ty"
  shows "loc_key (save_frame_data n ty) = (pn_index n, slot_of ty (unat (pn_usage n)))"
proof -
  have "uint (word_of_int (pn_index n) :: u16) = pn_index n"
    by (rule uint_word_of_int_eq [THEN trans]) (use assms in \<open>simp add: take_bit_int_eq_self\<close>)
  moreover have "unat (511 - pn_usage n :: u16) = 511 - unat (pn_usage n)"
    by (subst unat_sub) (use assms(3) in \<open>auto simp: word_le_nat_alt\<close>)
  ultimately show ?thesis
    using assms(4) by (simp add: loc_key_def save_frame_data_def slot_of_def PT_SIZE_def)
qed

lemma slot_of_inj: "u < 512 \<Longrightarrow> v < 512 \<Longrightarrow> slot_of ty u = slot_of ty v \<Longrightarrow> u = v"
  by (auto simp: slot_of_def split: if_splits)


lemma take_slot_Some:
  "take_slot ty ns = Some (loc, ns') \<Longrightarrow> \<exists>i < length ns. has_slot ty (ns ! i) \<and>
     loc = save_frame_data (ns ! i) ty \<and> ns' = ns[i := (ns ! i)\<lparr>pn_usage := pn_usage (ns ! i) + 1\<rparr>]"
proof (induction ns arbitrary: ns')
  case (Cons n ns)
  show ?case
  proof (cases "has_slot ty n")
    case True
    then show ?thesis using Cons.prems by (auto intro!: exI [of _ 0])
  next
    case False
    then obtain ns1 where "take_slot ty ns = Some (loc, ns1)" "ns' = n # ns1" using Cons.prems by auto
    with Cons.IH show ?thesis by (fastforce intro: exI [of _ "Suc _"])
  qed
qed simp

lemma cnt_update: "i < length ns \<Longrightarrow> cnt ty (ns[i := (ns ! i)\<lparr>pn_usage := u\<rparr>]) = cnt ty ns"
  by (simp add: cnt_def map_update_same)

lemma wf_children_update:
  assumes "wf_children ns" "i < length ns" "unat u \<le> 512"
  shows "wf_children (ns[i := (ns ! i)\<lparr>pn_usage := u\<rparr>])"
proof -
  let ?f = "\<lambda>n. (pn_type n, pn_index n)"
  have "map ?f (ns[i := (ns ! i)\<lparr>pn_usage := u\<rparr>]) = map ?f ns"
    using assms(2) by (rule map_update_same) simp
  moreover have "set (ns[i := (ns ! i)\<lparr>pn_usage := u\<rparr>]) \<subseteq> insert ((ns ! i)\<lparr>pn_usage := u\<rparr>) (set ns)"
    by (rule set_update_subset_insert)
  ultimately show ?thesis
    using assms nth_mem [OF assms(2)] unfolding wf_children_def cnt_update [OF assms(2)] by fastforce
qed

lemma wf_l1_update:
  assumes "wf_l1 l" "i < length (l1_children l)" "unat u \<le> 512"
  shows "wf_l1 (l\<lparr>l1_children := (l1_children l)[i := (l1_children l ! i)\<lparr>pn_usage := u\<rparr>]\<rparr>)"
  using assms wf_children_update by (simp add: wf_l1_def cnt_update)

text \<open>Within a well-formed node the next slot of a child is free.\<close>

lemma next_slot_free:
  assumes "wf_l1 l" "apart l" "n \<in> set (l1_children l)" "unat (pn_usage n) < 512"
  shows "(pn_index n, slot_of (pn_type n) (unat (pn_usage n))) \<notin> keys (l1_children l)"
proof
  assume "(pn_index n, slot_of (pn_type n) (unat (pn_usage n))) \<in> keys (l1_children l)"
  then obtain n' u where n': "n' \<in> set (l1_children l)" "pn_index n = pn_index n'" "u < unat (pn_usage n')"
    "slot_of (pn_type n) (unat (pn_usage n)) = slot_of (pn_type n') u"
    by (auto simp: keys_def node_keys_def)
  have "pn_type n = pn_type n'" using wf_l1_apart_index [OF assms(1,2,3) n'(1,2)] .
  then have "n = n'" using assms(1,3) n'(1,2) by (auto simp: wf_l1_def wf_children_def distinct_map inj_on_def)
  moreover have "unat (pn_usage n') \<le> 512" using assms(1) n'(1) by (simp add: wf_l1_def wf_children_def)
  ultimately show False using slot_of_inj [of "unat (pn_usage n)" u] n'(3,4) assms(4) by auto
qed

lemma keys_update:
  assumes "i < length ns" "unat (pn_usage (ns ! i)) < 512"
  shows "keys (ns[i := (ns ! i)\<lparr>pn_usage := pn_usage (ns ! i) + 1\<rparr>]) =
     insert (pn_index (ns ! i), slot_of (pn_type (ns ! i)) (unat (pn_usage (ns ! i)))) (keys ns)"
proof -
  let ?n = "ns ! i" and ?n' = "(ns ! i)\<lparr>pn_usage := pn_usage (ns ! i) + 1\<rparr>"
  have "unat (pn_usage ?n + 1) = Suc (unat (pn_usage ?n))"
    using assms(2) by (intro unat_suc_16) simp
  then have k: "node_keys ?n' = insert (pn_index ?n, slot_of (pn_type ?n) (unat (pn_usage ?n))) (node_keys ?n)"
    by (auto simp: node_keys_def lessThan_Suc)
  have "ns = take i ns @ ?n # drop (Suc i) ns" using assms(1) by (rule id_take_nth_drop)
  then have a: "keys ns = keys (take i ns) \<union> node_keys ?n \<union> keys (drop (Suc i) ns)"
    by (metis (no_types, lifting) UN_Un UN_insert keys_def list.simps(15) set_append sup_assoc)
  have "keys (ns[i := ?n']) = keys (take i ns) \<union> node_keys ?n' \<union> keys (drop (Suc i) ns)"
    using assms(1) by (simp add: upd_conv_take_nth_drop keys_def Un_ac)
  then show ?thesis using a k by auto
qed


lemma add_child_node_spec:
  assumes wf: "wf_l1 l" and r: "add_child_node_page_table l ty m = (Some l', m')" and ty: "ty \<noteq> NONE_PAGE"
  shows "\<exists>n. l1_children l' = l1_children l @ [n] \<and> pn_type n = ty \<and> pn_usage n = 0 \<and> pn_table n \<noteq> 0 \<and>
    wf_l1 l' \<and> unat (l1_code l) \<le> unat (l1_code l') \<and> unat (l1_stack l) \<le> unat (l1_stack l')"
proof -
  have lim: "unat (l1_usage l) < 512" "unat (l1_stack l) < 128" "unat (l1_heap l) < 128" "unat (l1_shared l) < 256"
    using r by (auto simp: add_child_node_page_table_def mem_layout_defs not_le split: if_splits)
  obtain t f n p m2 where t: "create_page_table (frames m) = (t, f)" "t \<noteq> 0"
    "configure_child_entry t l ty (m\<lparr>frames := f\<rparr>) = (Some (n, p), m2)"
    "l' = p\<lparr>l1_children := l1_children p @ [n]\<rparr>"
    using r by (auto simp: add_child_node_page_table_def Let_def split: if_splits prod.splits option.splits)
  have c: "unat (l1_code l) \<le> 512"
    using wf count_le_length [of "map pn_type (l1_children l)" CODE_PAGE] by (simp add: wf_l1_def cnt_def)
  have su: "unat (l1_usage l + 1) = Suc (unat (l1_usage l))" "unat (l1_code l + 1) = Suc (unat (l1_code l))"
    "unat (l1_stack l + 1) = Suc (unat (l1_stack l))" "unat (l1_heap l + 1) = Suc (unat (l1_heap l))"
    "unat (l1_shared l + 1) = Suc (unat (l1_shared l))"
    using lim c by (simp_all add: unat_suc_16)
  let ?ns = "l1_children l"
  have n: "pn_table n = t" "pn_type n = ty" "pn_usage n = 0" "pn_index n = slot_index ty (cnt ty ?ns)"
    and p: "l1_children p = ?ns" "l1_usage p = l1_usage l + 1"
      "l1_code p = (if ty = CODE_PAGE then l1_code l + 1 else l1_code l)"
      "l1_stack p = (if ty = STACK_PAGE then l1_stack l + 1 else l1_stack l)"
      "l1_heap p = (if ty = HEAP_PAGE then l1_heap l + 1 else l1_heap l)"
      "l1_shared p = (if ty = SHARED_PAGE then l1_shared l + 1 else l1_shared l)"
    using t(3) ty wf by (cases ty; auto simp: configure_child_entry_def Let_def wf_l1_def uint_nat
        mem_layout_defs split: if_splits prod.splits)+
  have cn: "cnt ty' (?ns @ [n]) = cnt ty' ?ns + of_bool (ty = ty')" for ty'
    using n(2) by (auto simp: cnt_def)
  have new: "(ty, slot_index ty (cnt ty ?ns)) \<notin> set (map (\<lambda>n. (pn_type n, pn_index n)) ?ns)"
    using wf ty by (cases ty) (auto simp: wf_l1_def wf_children_def)
  have "wf_children (?ns @ [n])"
    unfolding wf_children_def
  proof (intro conjI ballI)
    fix x assume x: "x \<in> set (?ns @ [n])"
    show "pn_type x \<noteq> NONE_PAGE" "unat (pn_usage x) \<le> 512"
      using x wf n ty by (auto simp: wf_l1_def wf_children_def)
    show "\<exists>i < cnt (pn_type x) (?ns @ [n]). pn_index x = slot_index (pn_type x) i"
    proof (cases "x = n")
      case True
      then show ?thesis using n cn by auto
    next
      case False
      then obtain i where "i < cnt (pn_type x) ?ns" "pn_index x = slot_index (pn_type x) i"
        using x wf by (auto simp: wf_l1_def wf_children_def)
      then show ?thesis unfolding cn by (intro exI [of _ i]) simp
    qed
  next
    show "distinct (map (\<lambda>n. (pn_type n, pn_index n)) (?ns @ [n]))"
      using wf new n by (auto simp: wf_l1_def wf_children_def)
  qed
  then have "wf_l1 l'"
    using wf lim su p cn by (auto simp: wf_l1_def t(4))
  then show ?thesis using n p t su by auto
qed


section \<open>One page\<close>

lemma keys_append: "keys (ns @ [n]) = keys ns \<union> node_keys n"
  by (auto simp: keys_def)

lemma keys_empty_node: "pn_usage n = 0 \<Longrightarrow> node_keys n = {}"
  by (simp add: node_keys_def)

definition grows :: "lvl1_node \<Rightarrow> lvl1_node \<Rightarrow> bool" where
  "grows l l' = (unat (l1_code l) \<le> unat (l1_code l') \<and> unat (l1_stack l) \<le> unat (l1_stack l'))"

lemma grows_apart: "grows l l' \<Longrightarrow> apart l' \<Longrightarrow> apart l"
  by (simp add: grows_def apart_def)

lemma add_frame_keys:
  assumes wf: "wf_l1 l" and l: "page_tables_lvl_1_list pm = Some l" and ty: "ty \<noteq> NONE_PAGE"
    and r: "add_frame_to_process ty pm m = Inr (r, loc, pm', m')"
  shows "\<exists>l'. page_tables_lvl_1_list pm' = Some l' \<and> wf_l1 l' \<and> grows l l' \<and>
    (r < 0 \<and> keys (l1_children l') = keys (l1_children l) \<or>
     r = 0 \<and> (apart l' \<longrightarrow> loc_key loc \<notin> keys (l1_children l) \<and>
       keys (l1_children l') = insert (loc_key loc) (keys (l1_children l))))"
proof (cases "take_slot ty (l1_children l)")
  case (Some x)
  let ?ns = "l1_children l"
  obtain ns' where x: "x = (loc, ns')" and r0: "r = 0"
    and pm': "page_tables_lvl_1_list pm' = Some (l\<lparr>l1_children := ns'\<rparr>)"
    using r l Some by (cases x) (auto simp: add_frame_to_process_def Let_def)
  obtain i where i: "i < length ?ns" "has_slot ty (?ns ! i)" "loc = save_frame_data (?ns ! i) ty"
    "ns' = ?ns[i := (?ns ! i)\<lparr>pn_usage := pn_usage (?ns ! i) + 1\<rparr>]"
    using take_slot_Some [OF Some [unfolded x]] by blast
  have mem: "?ns ! i \<in> set ?ns" using i(1) by simp
  have u: "unat (pn_usage (?ns ! i)) < 512" "pn_type (?ns ! i) = ty"
    using i(2) by (auto simp: has_slot_def PT_SIZE_def)
  have su: "unat (pn_usage (?ns ! i) + 1) \<le> 512" using u(1) by (simp add: unat_suc_16)
  have wf': "wf_l1 (l\<lparr>l1_children := ns'\<rparr>)" unfolding i(4) by (rule wf_l1_update [OF wf i(1) su])
  have key: "loc_key loc = (pn_index (?ns ! i), slot_of (pn_type (?ns ! i)) (unat (pn_usage (?ns ! i))))"
    unfolding i(3) using loc_key_save slot_index_bounds [OF wf mem] u by auto
  have "apart (l\<lparr>l1_children := ns'\<rparr>) = apart l" by (simp add: apart_def)
  then show ?thesis
    using pm' wf' r0 key next_slot_free [OF wf _ mem u(1)] keys_update [OF i(1) u(1)] i(4)
    by (auto simp: grows_def)
next
  case None
  show ?thesis
  proof (cases "add_child_node_page_table l ty m")
    case (Pair lo m1)
    show ?thesis
    proof (cases lo)
      case None
      then have "r = -1" "page_tables_lvl_1_list pm' = Some l"
        using r l Pair \<open>take_slot ty (l1_children l) = None\<close> by (auto simp: add_frame_to_process_def Let_def)
      then show ?thesis using wf by (auto simp: grows_def)
    next
      case (Some l1)
      note ac = add_child_node_spec [OF wf Pair [unfolded Some] ty]
      then obtain n where n: "l1_children l1 = l1_children l @ [n]" "pn_type n = ty" "pn_usage n = 0"
        "wf_l1 l1" "grows l l1" by (auto simp: grows_def)
      let ?ns = "l1_children l1" and ?i = "length (l1_children l)"
      have i: "?i < length ?ns" "?ns ! ?i = n" by (simp_all add: n(1))
      have lu: "last_used l1 = l1\<lparr>l1_children := ?ns[?i := (?ns ! ?i)\<lparr>pn_usage := pn_usage (?ns ! ?i) + 1\<rparr>]\<rparr>"
        by (simp add: last_used_def n(1))
      have k1: "keys ?ns = keys (l1_children l)" by (simp add: n(1,3) keys_append keys_empty_node)
      have out: "(r = 0 \<and> page_tables_lvl_1_list pm' = Some (last_used l1) \<and> loc = save_frame_data n ty) \<or>
          (r = -1 \<and> page_tables_lvl_1_list pm' = Some l1)"
        using r l Pair Some \<open>take_slot ty (l1_children l) = None\<close>
        by (auto simp: add_frame_to_process_def Let_def n(1) res_simps split: if_splits prod.splits)
      show ?thesis
      proof (cases "r = 0")
        case False
        then show ?thesis using out n(4,5) k1 by auto
      next
        case True
        then have o: "page_tables_lvl_1_list pm' = Some (last_used l1)" "loc = save_frame_data n ty"
          using out by auto
        have mem: "n \<in> set ?ns" by (simp add: n(1))
        have key: "loc_key loc = (pn_index n, slot_of (pn_type n) (unat (pn_usage n)))"
          unfolding o(2) using loc_key_save slot_index_bounds [OF n(4) mem] n(2,3) by auto
        have wf': "wf_l1 (last_used l1)"
          unfolding lu by (rule wf_l1_update [OF n(4) i(1)]) (simp add: i(2) n(3))
        have "apart (last_used l1) = apart l1" "grows l (last_used l1)"
          using n(5) by (simp_all add: apart_def lu grows_def)
        moreover have "keys (l1_children (last_used l1)) = insert (loc_key loc) (keys ?ns)"
          unfolding lu key using keys_update [OF i(1)] by (simp add: i(2) n(3))
        moreover have "apart l1 \<Longrightarrow> loc_key loc \<notin> keys ?ns"
          using next_slot_free [OF n(4) _ mem] n(3) by (simp add: key)
        ultimately show ?thesis using o wf' True k1 by auto
      qed
    qed
  qed
qed

section \<open>Many pages\<close>

text \<open>The locations given out by a sequence of calls of \<^verbatim>\<open>add_frame_to_process\<close>.\<close>

fun add_pages :: "page_t list \<Rightarrow> proc_mem \<Rightarrow> mm \<Rightarrow> (frame_loc list \<times> proc_mem \<times> mm) res" where
  "add_pages [] pm m = Inr ([], pm, m)"
| "add_pages (ty # tys) pm m =
     rbind (add_frame_to_process ty pm m) (\<lambda>(r, loc, pm1, m1).
     rbind (add_pages tys pm1 m1) (\<lambda>(locs, pm2, m2).
       Inr (if r < 0 then locs else loc # locs, pm2, m2)))"

lemma add_pages_keys:
  "wf_l1 l \<Longrightarrow> page_tables_lvl_1_list pm = Some l \<Longrightarrow> NONE_PAGE \<notin> set tys \<Longrightarrow>
    add_pages tys pm m = Inr (locs, pm', m') \<Longrightarrow>
    \<exists>l'. page_tables_lvl_1_list pm' = Some l' \<and> wf_l1 l' \<and> grows l l' \<and>
      (apart l' \<longrightarrow> distinct (map loc_key locs) \<and> set (map loc_key locs) \<inter> keys (l1_children l) = {} \<and>
        keys (l1_children l') = set (map loc_key locs) \<union> keys (l1_children l))"
proof (induction tys arbitrary: pm m l locs)
  case Nil
  then show ?case by (auto simp: grows_def)
next
  case (Cons ty tys)
  obtain r loc pm1 m1 locs1 where s: "add_frame_to_process ty pm m = Inr (r, loc, pm1, m1)"
    "add_pages tys pm1 m1 = Inr (locs1, pm', m')" "locs = (if r < 0 then locs1 else loc # locs1)"
    using Cons.prems(4) by (auto simp: res_simps)
  obtain l1 where l1: "page_tables_lvl_1_list pm1 = Some l1" "wf_l1 l1" "grows l l1"
    "r < 0 \<and> keys (l1_children l1) = keys (l1_children l) \<or>
     r = 0 \<and> (apart l1 \<longrightarrow> loc_key loc \<notin> keys (l1_children l) \<and>
       keys (l1_children l1) = insert (loc_key loc) (keys (l1_children l)))"
    using add_frame_keys [OF Cons.prems(1,2) _ s(1)] Cons.prems(3) by auto
  obtain l' where l': "page_tables_lvl_1_list pm' = Some l'" "wf_l1 l'" "grows l1 l'"
    "apart l' \<longrightarrow> distinct (map loc_key locs1) \<and> set (map loc_key locs1) \<inter> keys (l1_children l1) = {} \<and>
        keys (l1_children l') = set (map loc_key locs1) \<union> keys (l1_children l1)"
    using Cons.IH [OF l1(2,1) _ s(2)] Cons.prems(3) by auto
  have g: "grows l l'" using l1(3) l'(3) by (auto simp: grows_def)
  show ?case
  proof (intro exI conjI)
    show "apart l' \<longrightarrow> distinct (map loc_key locs) \<and> set (map loc_key locs) \<inter> keys (l1_children l) = {} \<and>
        keys (l1_children l') = set (map loc_key locs) \<union> keys (l1_children l)"
    proof
      assume a: "apart l'"
      note A = l'(4) [rule_format, OF a]
      show "distinct (map loc_key locs) \<and> set (map loc_key locs) \<inter> keys (l1_children l) = {} \<and>
        keys (l1_children l') = set (map loc_key locs) \<union> keys (l1_children l)"
        using A l1(4) grows_apart [OF l'(3) a] by (cases "r < 0") (auto simp: s(3))
    qed
  qed (use l' g in auto)
qed


section \<open>Virtual addresses\<close>

definition loc_vaddr :: "frame_loc \<Rightarrow> u64" where
  "loc_vaddr loc = map_address_for_process (lvl2_index loc) (lvl1_index loc) (lvl0_index loc)"

lemma unat_lt_16: "unat (x :: u16) < 65536"
  using unsigned_less [of x, where 'a = nat] by simp

lemma uint_512: "uint (w :: u16) < 512 \<Longrightarrow> unat w < 512"
  unfolding uint_nat by linarith

lemma loc_vaddr_nat:
  assumes "snd (loc_key loc) < 512" "fst (loc_key loc) < 512"
  shows "unat (loc_vaddr loc) =
    ((unat (lvl2_index loc) * 512 + unat (lvl1_index loc)) * 512 + unat (lvl0_index loc)) * 4096"
proof -
  have b: "unat (lvl2_index loc) < 65536" "unat (lvl1_index loc) < 512" "unat (lvl0_index loc) < 512"
    using assms unat_lt_16 uint_512 by (simp_all add: loc_key_def)
  have u: "unat (ucast w :: u64) = unat w" for w :: u16
    using unat_lt_16 [of w] by (simp add: unsigned_ucast_eq take_bit_nat_eq_self)
  have g: "unat (ucast (lvl2_index loc) * GIGA_SIZE :: u64) = unat (lvl2_index loc) * 1073741824"
    by (subst unat_mult_lem [THEN iffD1]) (use b(1) u in \<open>simp_all add: GIGA_SIZE_def\<close>)
  have m: "unat (ucast (lvl1_index loc) * MEGA_SIZE :: u64) = unat (lvl1_index loc) * 2097152"
    by (subst unat_mult_lem [THEN iffD1]) (use b(2) u in \<open>simp_all add: MEGA_SIZE_def\<close>)
  have k: "unat (ucast (lvl0_index loc) * KILO_SIZE :: u64) = unat (lvl0_index loc) * 4096"
    by (subst unat_mult_lem [THEN iffD1]) (use b(3) u in \<open>simp_all add: KILO_SIZE_def\<close>)
  have s1: "unat (ucast (lvl2_index loc) * GIGA_SIZE + ucast (lvl1_index loc) * MEGA_SIZE :: u64) =
      unat (lvl2_index loc) * 1073741824 + unat (lvl1_index loc) * 2097152"
    by (subst unat_add_lem [THEN iffD1]) (use b in \<open>simp_all add: g m\<close>)
  have "unat (loc_vaddr loc) = unat (lvl2_index loc) * 1073741824 + unat (lvl1_index loc) * 2097152 +
      unat (lvl0_index loc) * 4096"
    unfolding loc_vaddr_def map_address_for_process_def
    by (subst unat_add_lem [THEN iffD1]) (use b in \<open>simp_all add: s1 k\<close>)
  then show ?thesis by simp
qed

lemma base512:
  assumes "x * 512 + c = y * 512 + (d::nat)" "c < 512" "d < 512"
  shows "x = y \<and> c = d"
proof -
  have "(x * 512 + c) mod 512 = (y * 512 + d) mod 512" by (simp only: assms(1))
  then have "c = d" using assms(2,3) by simp
  then show ?thesis using assms(1) by simp
qed

lemma loc_vaddr_inj:
  assumes "snd (loc_key a) < 512" "fst (loc_key a) < 512" "snd (loc_key b) < 512" "fst (loc_key b) < 512"
    and "loc_vaddr a = loc_vaddr b"
  shows "loc_key a = loc_key b"
proof -
  have l: "unat (lvl1_index a) < 512" "unat (lvl0_index a) < 512" "unat (lvl1_index b) < 512" "unat (lvl0_index b) < 512"
    using assms(1-4) uint_512 by (simp_all add: loc_key_def)
  have "((unat (lvl2_index a) * 512 + unat (lvl1_index a)) * 512 + unat (lvl0_index a)) * 4096 =
      ((unat (lvl2_index b) * 512 + unat (lvl1_index b)) * 512 + unat (lvl0_index b)) * 4096"
    using loc_vaddr_nat [OF assms(1,2)] loc_vaddr_nat [OF assms(3,4)] assms(5) by argo
  then have e: "(unat (lvl2_index a) * 512 + unat (lvl1_index a)) * 512 + unat (lvl0_index a) =
      (unat (lvl2_index b) * 512 + unat (lvl1_index b)) * 512 + unat (lvl0_index b)"
    by (simp only: mult_cancel2) simp
  show ?thesis
    using base512 [OF e l(2,4)]
      base512 [OF conjunct1 [OF base512 [OF e l(2,4)]] l(1,3)]
    by (simp add: loc_key_def word_unat_eq_iff [symmetric])
qed

lemma keys_bounds:
  assumes "wf_l1 l" "k \<in> keys (l1_children l)"
  shows "fst k < 512 \<and> snd k < 512"
proof -
  obtain n u where n: "n \<in> set (l1_children l)" "k = (pn_index n, slot_of (pn_type n) u)" "u < unat (pn_usage n)"
    using assms(2) by (auto simp: keys_def node_keys_def)
  have "unat (pn_usage n) \<le> 512" using assms(1) n(1) by (simp add: wf_l1_def wf_children_def)
  then show ?thesis using n slot_index_bounds [OF assms(1) n(1)] by (auto simp: slot_of_def)
qed

definition fresh_l1 :: "u64 \<Rightarrow> lvl1_node" where
  "fresh_l1 t = \<lparr>l1_table = t, l1_index = 1, l1_usage = 0, l1_code = 0, l1_stack = 0, l1_heap = 0,
     l1_shared = 0, l1_children = []\<rparr>"

lemma wf_fresh: "wf_l1 (fresh_l1 t)"
  by (simp add: wf_l1_def fresh_l1_def wf_children_def cnt_def)

section \<open>Properties\<close>

text \<open>
  C19. Pages of a process never share a virtual address: in any sequence of
  \<^verbatim>\<open>add_frame_to_process\<close> calls for code, stack, heap and shared pages of a fresh process, whatever
  fails on the way, the virtual addresses of the pages given out are distinct, provided code and
  stack end with at most 128 level-0 tables together (nothing in the code checks that).
\<close>

theorem pages_distinct_addresses:
  assumes "page_tables_lvl_1_list pm = Some (fresh_l1 t)" and "NONE_PAGE \<notin> set tys"
    and "add_pages tys pm m = Inr (locs, pm', m')"
    and "page_tables_lvl_1_list pm' = Some l'" and "unat (l1_code l') + unat (l1_stack l') \<le> 128"
  shows "distinct (map loc_vaddr locs)"
proof -
  have k: "wf_l1 l'" "distinct (map loc_key locs)" "keys (l1_children l') = set (map loc_key locs)"
    using add_pages_keys [OF wf_fresh assms(1,2,3)] assms(4,5) by (auto simp: apart_def keys_def fresh_l1_def)
  have b: "fst (loc_key x) < 512 \<and> snd (loc_key x) < 512" if "x \<in> set locs" for x
    using keys_bounds [OF k(1)] k(3) that by auto
  have "inj_on loc_vaddr (set locs)"
    using loc_vaddr_inj b k(2) by (metis (no_types, lifting) distinct_map inj_on_def)
  then show ?thesis using k(2) by (simp add: distinct_map)
qed

definition fresh_pm :: proc_mem where
  "fresh_pm = \<lparr>page_table_level_2 = 0x80300000, page_tables_lvl_1_list = Some (fresh_l1 0x80301000),
     mem_info = \<lparr>code_usage = 0, stack_usage = 0, heap_usage = 0, shared_pages_usage = 0, sbrk_pointer = 0,
       start_heap_add = 0\<rparr>, stack_shift = 65536, sscratch_frame = 0\<rparr>"

definition demo_mm :: mm where
  "demo_mm = \<lparr>frames = \<lparr>free_memory_start = 0x80200000, memory_end = 0x80300000, mem_ptr = 0x80200000,
     mem_usage = 0, mem_total = 256, ram = \<lambda>x. x + 4096\<rparr>, mallocs = []\<rparr>"

lemma demo_pages:
  "\<exists>locs pm' m' l'. add_pages [CODE_PAGE, STACK_PAGE, STACK_PAGE] fresh_pm demo_mm = Inr (locs, pm', m') \<and>
     length locs = 3 \<and> page_tables_lvl_1_list pm' = Some l' \<and> unat (l1_code l') + unat (l1_stack l') \<le> 128"
  by (simp add: add_frame_to_process_def fresh_pm_def fresh_l1_def demo_mm_def Let_def
      add_child_node_page_table_def create_page_table_def get_frame_def configure_child_entry_def kmalloc_def
      zero_frame_def last_used_def mem_layout_defs has_slot_def FRAME_SIZE_def)

theorem pages_distinct_addresses_witness:
  "\<exists>locs pm' m'. add_pages [CODE_PAGE, STACK_PAGE, STACK_PAGE] fresh_pm demo_mm = Inr (locs, pm', m') \<and>
     length locs = 3 \<and> distinct (map loc_vaddr locs)"
proof -
  obtain locs pm' m' l' where a: "add_pages [CODE_PAGE, STACK_PAGE, STACK_PAGE] fresh_pm demo_mm = Inr (locs, pm', m')"
    "length locs = 3" "page_tables_lvl_1_list pm' = Some l'" "unat (l1_code l') + unat (l1_stack l') \<le> 128"
    using demo_pages by blast
  have "page_tables_lvl_1_list fresh_pm = Some (fresh_l1 0x80301000)" by (simp add: fresh_pm_def)
  then show ?thesis using pages_distinct_addresses [OF _ _ a(1,3,4)] a(1,2) by simp
qed

text \<open>
  Freeing a stack table: with fewer than 512 pages \<^verbatim>\<open>free_frames_page_table\<close> releases exactly
  the frames of its used slots, from 511 down; with all 512 pages used it releases none, because
  the lower bound of its loop is -1 compared as an unsigned number.
\<close>

theorem stack_table_release:
  assumes "pn_type n = STACK_PAGE" "pn_index n < SHARED_MEMORY_START" "pn_table n \<noteq> 0" "unat (pn_usage n) \<le> 512"
  shows "free_frames_lvl0 n s =
    (if unat (pn_usage n) = 512 then s
     else free_entries (pn_table n) (rev [512 - unat (pn_usage n) ..< 512]) s)"
proof -
  obtain k where k: "unat (pn_usage n) = k" "uint (pn_usage n) = int k" "k \<le> 512"
    using assms(4) uint_nat by metis
  have m: "(511 - int k) mod 4294967296 = 511 - int k" if "k < 512"
    by (rule mod_pos_pos_trivial) (use that in linarith)+
  show ?thesis
  proof (cases "k = 512")
    case True
    then show ?thesis
      using assms k by (simp add: free_frames_lvl0_def free_frames_indexed_inverse_def PT_SIZE_def)
  next
    case False
    then have "Suc (nat (511 - int k)) = 512 - k" using k(3) by linarith
    then show ?thesis
      using assms k False m
      by (simp add: free_frames_lvl0_def free_frames_indexed_inverse_def PT_SIZE_def)
  qed
qed

definition full_stack_table :: page_node where
  "full_stack_table = \<lparr>pn_table = 0x80300000, pn_type = STACK_PAGE, pn_index = 127, pn_usage = 512\<rparr>"

theorem stack_table_release_witness: "free_frames_lvl0 full_stack_table boot4 = boot4"
  using stack_table_release [of full_stack_table boot4]
  by (simp add: full_stack_table_def SHARED_MEMORY_START_def)

end
