(* ===== verification/PQueue.thy ===== *)
theory PQueue
  imports Prelude
begin

text \<open>
  The kernel's generic priority queue, \<^verbatim>\<open>src/lib/include/queue.h\<close>: a circular doubly
  linked list threaded through a \<open>link\<close> field of its elements, kept in ascending order of
  priority, whose last element is the next to leave.

  The first part models the macros on a heap of links, pointer by pointer and with their
  assertions. The second part models what they do to the sequence of elements, and the
  refinement theorems relate the two. The third part is the interface the process queues
  rely on (\<open>prio_queue\<close>), with its laws proved for the sequence operations.
\<close>

section \<open>The macros on a heap of links\<close>

record link =
  lprev :: ptr
  lnext :: ptr

type_synonym link_heap = "ptr \<Rightarrow> link"

definition INIT_LIST_HEAD :: "ptr \<Rightarrow> link_heap \<Rightarrow> link_heap" where
  "INIT_LIST_HEAD l h = h(l := \<lparr>lprev = l, lnext = l\<rparr>)"

definition INIT_LINK :: "ptr \<Rightarrow> link_heap \<Rightarrow> link_heap" where
  "INIT_LINK l h = h(l := \<lparr>lprev = 0, lnext = 0\<rparr>)"

definition set_next :: "ptr \<Rightarrow> ptr \<Rightarrow> link_heap \<Rightarrow> link_heap" where
  "set_next l v h = h(l := (h l)\<lparr>lnext := v\<rparr>)"

definition set_prev :: "ptr \<Rightarrow> ptr \<Rightarrow> link_heap \<Rightarrow> link_heap" where
  "set_prev l v h = h(l := (h l)\<lparr>lprev := v\<rparr>)"

definition queue_empty :: "link_heap \<Rightarrow> ptr \<Rightarrow> bool" where
  "queue_empty h head = (lnext (h head) = head)"

text \<open>
  The search loop of \<^verbatim>\<open>queue_add\<close>: step to the next link, and go on while it is
  neither the head nor an element of a priority at least that of the new element. On a
  list that is not circular it does not return, which is the value \<open>None\<close>.
\<close>

partial_function (option) queue_seek ::
    "(ptr \<Rightarrow> int) \<Rightarrow> link_heap \<Rightarrow> ptr \<Rightarrow> int \<Rightarrow> ptr \<Rightarrow> ptr option" where
  "queue_seek prio h head p cur =
     (let c = lnext (h cur) in
      if c \<noteq> head \<and> prio c < p then queue_seek prio h head p c else Some c)"

definition queue_add :: "(ptr \<Rightarrow> int) \<Rightarrow> ptr \<Rightarrow> ptr \<Rightarrow> link_heap \<Rightarrow> link_heap res" where
  "queue_add prio e head h =
     rbind (rassert (lprev (h e) = 0 \<and> lnext (h e) = 0)) (\<lambda>_.
       case queue_seek prio h head (prio e) head of
         None \<Rightarrow> Inl No_return
       | Some cur \<Rightarrow>
           (let h1 = set_next e cur h;
                h2 = set_prev e (lprev (h1 cur)) h1;
                h3 = set_next (lprev (h2 cur)) e h2;
                h4 = set_prev cur e h3
            in Inr h4))"

definition queue_out :: "ptr \<Rightarrow> link_heap \<Rightarrow> ptr \<times> link_heap" where
  "queue_out head h =
     (let l = lprev (h head) in
      if queue_empty h head then (0, h)
      else
        (let h1 = set_prev head (lprev (h (lprev (h head)))) h;
             h2 = set_next (lprev (h1 head)) head h1;
             h3 = set_prev l 0 h2;
             h4 = set_next l 0 h3
         in (l, h4)))"

definition queue_del :: "ptr \<Rightarrow> link_heap \<Rightarrow> link_heap res" where
  "queue_del e h =
     rbind (rassert (lprev (h e) \<noteq> 0 \<and> lnext (h e) \<noteq> 0)) (\<lambda>_.
       let h1 = set_next (lprev (h e)) (lnext (h e)) h;
           h2 = set_prev (lnext (h1 e)) (lprev (h1 e)) h1;
           h3 = set_next e 0 h2;
           h4 = set_prev e 0 h3
       in Inr h4)"

definition queue_top :: "ptr \<Rightarrow> link_heap \<Rightarrow> ptr" where
  "queue_top head h = (if queue_empty h head then 0 else lprev (h head))"

definition queue_bottom :: "ptr \<Rightarrow> link_heap \<Rightarrow> ptr" where
  "queue_bottom head h = (if queue_empty h head then 0 else lnext (h head))"

section \<open>The queue as a sequence\<close>

text \<open>The elements from the head's next to the head's previous.\<close>

fun pq_add :: "('a \<Rightarrow> int) \<Rightarrow> 'a \<Rightarrow> 'a list \<Rightarrow> 'a list" where
  "pq_add prio e [] = [e]"
| "pq_add prio e (x # xs) =
     (if prio x < prio e then x # pq_add prio e xs else e # x # xs)"

definition pq_top :: "'a list \<Rightarrow> 'a option" where
  "pq_top q = (if q = [] then None else Some (last q))"

definition pq_out :: "'a list \<Rightarrow> 'a option \<times> 'a list" where
  "pq_out q = (if q = [] then (None, []) else (Some (last q), butlast q))"

definition pq_del :: "'a \<Rightarrow> 'a list \<Rightarrow> 'a list" where
  "pq_del e q = remove1 e q"

section \<open>Circular lists\<close>

text \<open>\<open>seg h a xs b\<close>: following next from \<open>a\<close> visits \<open>xs\<close> and then reaches \<open>b\<close>, and
  prev leads back.\<close>

fun seg :: "link_heap \<Rightarrow> ptr \<Rightarrow> ptr list \<Rightarrow> ptr \<Rightarrow> bool" where
  "seg h a [] b = (lnext (h a) = b \<and> lprev (h b) = a)"
| "seg h a (x # xs) b = (lnext (h a) = x \<and> lprev (h x) = a \<and> seg h x xs b)"

definition dll :: "link_heap \<Rightarrow> ptr \<Rightarrow> ptr list \<Rightarrow> bool" where
  "dll h head xs = (distinct (head # xs) \<and> 0 \<notin> set (head # xs) \<and> seg h head xs head)"

lemma set_next_simps [simp]:
  "lnext (set_next l v h x) = (if x = l then v else lnext (h x))"
  "lprev (set_next l v h x) = lprev (h x)"
  by (auto simp: set_next_def)

lemma set_prev_simps [simp]:
  "lprev (set_prev l v h x) = (if x = l then v else lprev (h x))"
  "lnext (set_prev l v h x) = lnext (h x)"
  by (auto simp: set_prev_def)

lemma seg_append:
  "seg h a (xs @ y # ys) b \<longleftrightarrow> seg h a xs y \<and> seg h y ys b"
  by (induction xs arbitrary: a) auto

lemma seg_cong:
  assumes "\<And>x. x \<in> set (a # xs) \<Longrightarrow> lnext (h' x) = lnext (h x)"
    and "\<And>x. x \<in> set (xs @ [b]) \<Longrightarrow> lprev (h' x) = lprev (h x)"
  shows "seg h' a xs b = seg h a xs b"
  using assms by (induction xs arbitrary: a) auto

lemma seg_next_last: "seg h a xs b \<Longrightarrow> lnext (h (last (a # xs))) = b"
  by (induction xs arbitrary: a) auto

lemma seg_prev_last: "seg h a xs b \<Longrightarrow> lprev (h b) = last (a # xs)"
  by (induction xs arbitrary: a) auto

lemma seg_next_first: "seg h a xs b \<Longrightarrow> lnext (h a) = (case xs of [] \<Rightarrow> b | x # _ \<Rightarrow> x)"
  by (cases xs) auto

lemma dll_empty_iff: "dll h head xs \<Longrightarrow> queue_empty h head \<longleftrightarrow> xs = []"
  by (cases xs) (auto simp: dll_def queue_empty_def)

lemma dll_INIT: "l \<noteq> 0 \<Longrightarrow> dll (INIT_LIST_HEAD l h) l []"
  by (simp add: dll_def INIT_LIST_HEAD_def)

section \<open>The macros refine the sequence operations\<close>

lemma seg_retarget:
  assumes "seg h a ls c" "distinct (a # ls)"
    and "lnext (h' (last (a # ls))) = e" "lprev (h' e) = last (a # ls)"
    and "\<And>x. x \<in> set (a # ls) \<Longrightarrow> x \<noteq> last (a # ls) \<Longrightarrow> lnext (h' x) = lnext (h x)"
    and "\<And>x. x \<in> set ls \<Longrightarrow> lprev (h' x) = lprev (h x)"
  shows "seg h' a ls e"
  using assms
proof (induction ls arbitrary: a)
  case Nil
  then show ?case by simp
next
  case (Cons x xs)
  have ne: "a \<noteq> last (x # xs)"
    using Cons.prems(2) last_in_set [of "x # xs"] by auto
  have "seg h' x xs e"
  proof (rule Cons.IH)
    show "lnext (h' y) = lnext (h y)" if "y \<in> set (x # xs)" "y \<noteq> last (x # xs)" for y
      using Cons.prems(5) [of y] that by auto
  qed (use Cons.prems in auto)
  then show ?case using Cons.prems(1) Cons.prems(5) [of a] Cons.prems(6) ne by simp
qed

lemma queue_seek_seg:
  assumes "seg h cur xs head" "head \<notin> set xs"
  shows "queue_seek prio h head p cur =
    Some (case dropWhile (\<lambda>x. prio x < p) xs of [] \<Rightarrow> head | y # _ \<Rightarrow> y)"
  using assms
proof (induction xs arbitrary: cur)
  case Nil
  then show ?case by (subst queue_seek.simps) (simp add: Let_def)
next
  case (Cons x xs)
  then show ?case by (subst queue_seek.simps) (auto simp: Let_def)
qed

lemma pq_add_split:
  "pq_add prio e xs =
     takeWhile (\<lambda>x. prio x < prio e) xs @ e # dropWhile (\<lambda>x. prio x < prio e) xs"
  by (induction xs) auto

lemma seg_insert:
  assumes "seg h a (ls @ rs) a" "distinct (a # ls @ rs)" "e \<notin> set (a # ls @ rs)"
    and c: "c = (case rs of [] \<Rightarrow> a | y # _ \<Rightarrow> y)"
    and nx: "\<And>x. lnext (h' x) = (if x = last (a # ls) then e else if x = e then c else lnext (h x))"
    and pv: "\<And>x. lprev (h' x) = (if x = c then e else if x = e then last (a # ls) else lprev (h x))"
  shows "seg h' a (ls @ e # rs) a"
proof -
  have le: "last (a # ls) \<in> set (a # ls)" by (rule last_in_set) simp
  have cne: "c \<noteq> e" using assms(3) c by (cases rs) auto
  have clo: "c \<notin> set ls" using assms(2) c by (cases rs) auto
  have seg1: "seg h a ls c"
    using assms(1) c by (cases rs) (auto simp: seg_append)
  have A: "seg h' a ls e"
    by (rule seg_retarget [OF seg1])
       (use assms(2,3) nx pv le cne clo in auto)
  have B: "seg h' e rs a"
  proof (cases rs)
    case Nil
    then show ?thesis using nx pv c le assms(3) by auto
  next
    case (Cons y ys)
    have lo: "last (a # ls) \<notin> set (y # ys)" using le assms(2) Cons by auto
    have "seg h' y ys a"
      using assms(1-3) Cons nx pv c lo
      by (subst seg_cong [of y ys h' h]) (auto simp: seg_append)
    moreover have "lnext (h' e) = y" using nx c Cons le assms(3) by auto
    moreover have "lprev (h' y) = e" using pv c Cons by auto
    ultimately show ?thesis using Cons by simp
  qed
  from A B show ?thesis by (simp add: seg_append)
qed

text \<open>What \<^verbatim>\<open>queue_add\<close> does to the links when its search ends at \<open>cur\<close>.\<close>

lemma queue_add_links:
  assumes "lprev (h e) = 0" "lnext (h e) = 0" "queue_seek prio h head (prio e) head = Some cur"
    and "lprev (h cur) \<noteq> e" "cur \<noteq> e"
  obtains h' where "queue_add prio e head h = Inr h'"
    and "\<And>x. lnext (h' x) =
           (if x = lprev (h cur) then e else if x = e then cur else lnext (h x))"
    and "\<And>x. lprev (h' x) =
           (if x = cur then e else if x = e then lprev (h cur) else lprev (h x))"
    and "\<And>x. x \<noteq> cur \<Longrightarrow> x \<noteq> e \<Longrightarrow> x \<noteq> lprev (h cur) \<Longrightarrow> h' x = h x"
proof
  let ?h = "set_prev cur e (set_next (lprev (h cur)) e
              (set_prev e (lprev (h cur)) (set_next e cur h)))"
  show "queue_add prio e head h = Inr ?h"
    using assms by (simp add: queue_add_def Let_def)
  show "lnext (?h x) = (if x = lprev (h cur) then e else if x = e then cur else lnext (h x))" for x
    by simp
  show "lprev (?h x) = (if x = cur then e else if x = e then lprev (h cur) else lprev (h x))" for x
    by simp
  show "?h x = h x" if "x \<noteq> cur" "x \<noteq> e" "x \<noteq> lprev (h cur)" for x
    using that by (simp add: set_prev_def set_next_def)
qed

lemma queue_add_dll:
  assumes d: "dll h head xs" and e: "e \<notin> set (head # xs)" "e \<noteq> 0"
    and l: "lprev (h e) = 0" "lnext (h e) = 0"
  shows "\<exists>h'. queue_add prio e head h = Inr h' \<and> dll h' head (pq_add prio e xs)
    \<and> (\<forall>x. x \<notin> set (head # e # xs) \<longrightarrow> h' x = h x)"
proof -
  define ls where "ls = takeWhile (\<lambda>x. prio x < prio e) xs"
  define rs where "rs = dropWhile (\<lambda>x. prio x < prio e) xs"
  define c where "c = (case rs of [] \<Rightarrow> head | y # _ \<Rightarrow> y)"
  have xs: "xs = ls @ rs" by (simp add: ls_def rs_def)
  have s: "seg h head (ls @ rs) head" and dis: "distinct (head # ls @ rs)" and z: "0 \<notin> set (head # xs)"
    using d xs by (auto simp: dll_def)
  have seek: "queue_seek prio h head (prio e) head = Some c"
    using d by (simp add: dll_def queue_seek_seg c_def rs_def)
  have pc: "lprev (h c) = last (head # ls)"
    using s c_def by (cases rs) (auto simp: seg_append dest: seg_prev_last)
  have le: "last (head # ls) \<in> set (head # xs)"
    using xs last_in_set [of "head # ls"] by auto
  have cin: "c \<in> set (head # xs)" using c_def xs by (cases rs) auto
  obtain h' where h': "queue_add prio e head h = Inr h'"
    and nx: "\<And>x. lnext (h' x) = (if x = last (head # ls) then e else if x = e then c else lnext (h x))"
    and pv: "\<And>x. lprev (h' x) = (if x = c then e else if x = e then last (head # ls) else lprev (h x))"
    and fr: "\<And>x. x \<noteq> c \<Longrightarrow> x \<noteq> e \<Longrightarrow> x \<noteq> last (head # ls) \<Longrightarrow> h' x = h x"
  proof (rule queue_add_links [OF l seek])
    show "lprev (h c) \<noteq> e" "c \<noteq> e" using pc le cin e by auto
  qed (use pc in simp)
  have "seg h' head (ls @ e # rs) head"
    by (rule seg_insert [OF s dis _ c_def nx pv]) (use e xs in auto)
  moreover have "pq_add prio e xs = ls @ e # rs"
    by (simp add: pq_add_split ls_def rs_def)
  ultimately have "dll h' head (pq_add prio e xs)"
    using dis e z xs by (auto simp: dll_def)
  moreover have "h' x = h x" if x: "x \<notin> set (head # e # xs)" for x
  proof (rule fr)
    show "x \<noteq> c" "x \<noteq> e" "x \<noteq> last (head # ls)" using x le cin by (metis list.set_intros set_ConsD)+
  qed
  ultimately show ?thesis using h' by blast
qed

lemma seg_delete:
  assumes "seg h a (ls @ e # rs) a" "distinct (a # ls @ e # rs)"
    and c: "c = (case rs of [] \<Rightarrow> a | y # _ \<Rightarrow> y)"
    and nx: "\<And>x. lnext (h' x) = (if x = e then 0 else if x = last (a # ls) then c else lnext (h x))"
    and pv: "\<And>x. lprev (h' x) = (if x = e then 0 else if x = c then last (a # ls) else lprev (h x))"
  shows "seg h' a (ls @ rs) a"
proof -
  have le: "last (a # ls) \<in> set (a # ls)" by (rule last_in_set) simp
  have ne: "last (a # ls) \<noteq> e" "c \<noteq> e" "c \<notin> set ls" using le assms(2) c by (cases rs; auto)+
  have A: "seg h' a ls c"
    by (rule seg_retarget [where h = h and c = e]) (use assms(1,2) nx pv ne in \<open>auto simp: seg_append\<close>)
  show ?thesis
  proof (cases rs)
    case Nil
    then show ?thesis using A c by simp
  next
    case (Cons y ys)
    have lo: "last (a # ls) \<notin> set (y # ys)" using le assms(2) Cons by auto
    have "seg h' y ys a"
      using assms(1-2) Cons nx pv c lo
      by (subst seg_cong [of y ys h' h]) (auto simp: seg_append)
    then show ?thesis using A c Cons by (simp add: seg_append)
  qed
qed

lemma queue_del_dll:
  assumes d: "dll h head xs" and e: "e \<in> set xs"
  shows "\<exists>h'. queue_del e h = Inr h' \<and> dll h' head (pq_del e xs)
    \<and> lprev (h' e) = 0 \<and> lnext (h' e) = 0 \<and> (\<forall>x. x \<notin> set (head # xs) \<longrightarrow> h' x = h x)"
proof -
  obtain ls rs where xs: "xs = ls @ e # rs" "e \<notin> set ls"
    using split_list_first [OF e] by blast
  define c where "c = (case rs of [] \<Rightarrow> head | y # _ \<Rightarrow> y)"
  have s: "seg h head (ls @ e # rs) head" and dis: "distinct (head # ls @ e # rs)"
    and z: "0 \<notin> set (head # xs)" using d xs by (auto simp: dll_def)
  have "seg h head ls e" "seg h e rs head" using s by (simp_all add: seg_append)
  then have l: "lnext (h e) = c" "lprev (h e) = last (head # ls)"
    using seg_next_first seg_prev_last c_def by blast+
  have le: "last (head # ls) \<in> set (head # ls)" by (rule last_in_set) simp
  have ne: "last (head # ls) \<noteq> e" "c \<noteq> e" using le dis c_def by (cases rs; auto)+
  have sub: "set (head # ls) \<subseteq> set (head # xs)" using xs by auto
  have "last (head # ls) \<noteq> 0" using le sub z by (metis subsetD)
  moreover have "c \<noteq> 0" using z xs c_def by (cases rs) auto
  ultimately have pos: "last (head # ls) \<noteq> 0" "c \<noteq> 0" .
  define h' where "h' = set_prev e 0 (set_next e 0 (set_prev c (last (head # ls))
      (set_next (last (head # ls)) c h)))"
  have res: "queue_del e h = Inr h'"
    using l ne pos by (simp add: queue_del_def Let_def h'_def)
  have "seg h' head (ls @ rs) head"
    by (rule seg_delete [OF s dis c_def]) (use ne in \<open>auto simp: h'_def\<close>)
  moreover have "pq_del e xs = ls @ rs"
    using xs by (simp add: pq_del_def remove1_append)
  ultimately have "dll h' head (pq_del e xs)" using dis z xs by (auto simp: dll_def)
  moreover have "h' x = h x" if "x \<notin> set (head # xs)" for x
  proof -
    have "x \<noteq> c" using that xs c_def by (cases rs) auto
    then show ?thesis using that le xs by (auto simp: h'_def set_prev_def set_next_def)
  qed
  moreover have "lprev (h' e) = 0" "lnext (h' e) = 0" by (auto simp: h'_def)
  ultimately show ?thesis using res by blast
qed

lemma queue_out_dll:
  assumes d: "dll h head (xs @ [e])"
  shows "\<exists>h'. queue_out head h = (e, h') \<and> dll h' head xs
    \<and> lprev (h' e) = 0 \<and> lnext (h' e) = 0 \<and> (\<forall>x. x \<notin> set (head # xs @ [e]) \<longrightarrow> h' x = h x)"
proof -
  have s: "seg h head (xs @ e # []) head" and dis: "distinct (head # xs @ e # [])"
    and z: "0 \<notin> set (head # xs @ [e])" using d by (auto simp: dll_def)
  have l: "lprev (h head) = e" "lprev (h e) = last (head # xs)"
    using s by (auto simp: seg_append dest: seg_prev_last)
  have le: "last (head # xs) \<in> set (head # xs)" by (rule last_in_set) simp
  have ne: "last (head # xs) \<noteq> e" using le dis by auto
  have emp: "\<not> queue_empty h head" using dll_empty_iff [OF d] by simp
  define h' where "h' = set_next e 0 (set_prev e 0 (set_next (last (head # xs)) head
      (set_prev head (last (head # xs)) h)))"
  have res: "queue_out head h = (e, h')"
    using l emp by (simp add: queue_out_def Let_def h'_def)
  have "seg h' head (xs @ []) head"
    by (rule seg_delete [OF s dis, where c = head]) (use ne dis in \<open>auto simp: h'_def\<close>)
  then have "dll h' head xs" using dis z by (auto simp: dll_def)
  moreover have "h' x = h x" if "x \<notin> set (head # xs @ [e])" for x
    using that le by (auto simp: h'_def set_prev_def set_next_def)
  ultimately show ?thesis using res by (auto simp: h'_def)
qed

lemma queue_top_dll:
  assumes "dll h head xs"
  shows "queue_top head h = (case pq_top xs of None \<Rightarrow> 0 | Some x \<Rightarrow> x)"
proof -
  have "lprev (h head) = last (head # xs)"
    using assms by (auto simp: dll_def dest: seg_prev_last)
  then show ?thesis
    using dll_empty_iff [OF assms] by (simp add: queue_top_def pq_top_def)
qed

section \<open>Order: highest priority first, first come first served among equals\<close>

lemma set_pq_add [simp]: "set (pq_add prio e xs) = insert e (set xs)"
  by (induction xs) auto

lemma mset_pq_add [simp]: "mset (pq_add prio e xs) = add_mset e (mset xs)"
  by (induction xs) auto

lemma length_pq_add [simp]: "length (pq_add prio e xs) = Suc (length xs)"
  by (induction xs) auto

lemma pq_add_not_Nil [simp]: "pq_add prio e xs \<noteq> []"
  by (cases xs) auto

lemma sorted_pq_add: "sorted (map prio xs) \<Longrightarrow> sorted (map prio (pq_add prio e xs))"
  by (induction xs) auto

lemma distinct_pq_add [simp]: "distinct (pq_add prio e xs) \<longleftrightarrow> e \<notin> set xs \<and> distinct xs"
  by (induction xs) auto

lemma pq_add_cong: "(\<And>x. x \<in> insert e (set xs) \<Longrightarrow> p x = q x) \<Longrightarrow> pq_add p e xs = pq_add q e xs"
  by (induction xs) auto

lemma filter_prio_pq_add:
  "sorted (map prio xs) \<Longrightarrow> filter (\<lambda>x. prio x = k) (pq_add prio e xs) =
     (if prio e = k then e # filter (\<lambda>x. prio x = k) xs else filter (\<lambda>x. prio x = k) xs)"
  by (induction xs) auto

lemma fold_pq_add:
  "sorted (map prio q) \<Longrightarrow>
    sorted (map prio (fold (pq_add prio) xs q)) \<and>
    mset (fold (pq_add prio) xs q) = mset xs + mset q \<and>
    filter (\<lambda>x. prio x = k) (fold (pq_add prio) xs q) =
      rev (filter (\<lambda>x. prio x = k) xs) @ filter (\<lambda>x. prio x = k) q"
  by (induction xs arbitrary: q) (auto simp: sorted_pq_add filter_prio_pq_add)

text \<open>The order in which the elements added one after the other leave the queue.\<close>

lemma rev_fold_pq_add: "rev (fold (pq_add prio) xs []) = sort_key (\<lambda>x. - prio x) xs"
proof (rule sym, rule properties_for_sort_key)
  note F = fold_pq_add [where prio = prio and q = "[]" and xs = xs, simplified]
  show "mset (rev (fold (pq_add prio) xs [])) = mset xs" using F by simp
  show "filter (\<lambda>x. - prio k = - prio x) (rev (fold (pq_add prio) xs [])) =
        filter (\<lambda>x. - prio k = - prio x) xs" for k
    using F by (simp add: rev_filter [symmetric] eq_commute [of "prio k"])
  show "sorted (map (\<lambda>x. - prio x) (rev (fold (pq_add prio) xs [])))"
    using F by (simp add: rev_map sorted_wrt_rev sorted_wrt_map flip: rev_map)
qed

section \<open>The interface of the process queues\<close>

text \<open>
  What the scheduler, the message queues and the timer rely on: adding keeps every
  element, and the element that leaves (and that \<open>peek\<close> shows) has the highest priority.
\<close>

locale prio_queue =
  fixes prio :: "'a \<Rightarrow> int"
    and enq :: "'a \<Rightarrow> 'q \<Rightarrow> 'q"
    and deq :: "'q \<Rightarrow> 'a option \<times> 'q"
    and peek :: "'q \<Rightarrow> 'a option"
    and elems :: "'q \<Rightarrow> 'a multiset"
    and inv :: "'q \<Rightarrow> bool"
  assumes enq_inv: "inv q \<Longrightarrow> inv (enq x q)"
    and enq_elems: "elems (enq x q) = add_mset x (elems q)"
    and deq_inv: "inv q \<Longrightarrow> inv (snd (deq q))"
    and deq_None: "fst (deq q) = None \<longleftrightarrow> elems q = {#}"
    and deq_elems: "deq q = (Some x, q') \<Longrightarrow> elems q = add_mset x (elems q')"
    and deq_max: "inv q \<Longrightarrow> deq q = (Some x, q') \<Longrightarrow> y \<in># elems q \<Longrightarrow> prio y \<le> prio x"
    and peek_deq: "peek q = fst (deq q)"
begin

lemma peek_max: "inv q \<Longrightarrow> peek q = Some x \<Longrightarrow> y \<in># elems q \<Longrightarrow> prio y \<le> prio x"
  using deq_max [of q x "snd (deq q)" y] by (cases "deq q") (simp add: peek_deq)

lemma peek_in: "peek q = Some x \<Longrightarrow> x \<in># elems q"
  using deq_elems [of q x "snd (deq q)"] by (cases "deq q") (simp add: peek_deq)

lemma peek_None: "peek q = None \<longleftrightarrow> elems q = {#}"
  by (simp add: peek_deq deq_None)

lemma enq_peek_ge: "inv q \<Longrightarrow> \<exists>y. peek (enq x q) = Some y \<and> prio x \<le> prio y"
proof -
  assume i: "inv q"
  obtain y where y: "peek (enq x q) = Some y"
    using peek_None [of "enq x q"] by (cases "peek (enq x q)") (auto simp: enq_elems)
  have "prio x \<le> prio y"
    by (rule peek_max [OF enq_inv [OF i] y]) (simp add: enq_elems)
  with y show ?thesis by blast
qed

lemma size_deq: "deq q = (Some x, q') \<Longrightarrow> size (elems q) = Suc (size (elems q'))"
  using deq_elems [of q x q'] by simp

end

definition pq_sorted :: "('a \<Rightarrow> int) \<Rightarrow> 'a list \<Rightarrow> bool" where
  "pq_sorted prio q = sorted (map prio q)"

interpretation pq: prio_queue prio "pq_add prio" pq_out pq_top mset "pq_sorted prio"
  for prio :: "'a \<Rightarrow> int"
proof (unfold_locales, goal_cases)
  case (1 q x)
  then show ?case by (simp add: pq_sorted_def sorted_pq_add)
next
  case (3 q)
  then show ?case
    by (cases "q = []") (auto simp: pq_sorted_def pq_out_def intro: sorted_map_butlast)
next
  case (5 q x q')
  then show ?case by (auto simp: pq_out_def mset_butlast_last split: if_splits)
next
  case (6 q x q' y)
  then show ?case by (auto simp: pq_out_def pq_sorted_def sorted_map_last_max split: if_splits)
qed (auto simp: pq_out_def pq_top_def)

section \<open>Runs of the macros\<close>

datatype qop = Qadd ptr | Qout | Qdel ptr

text \<open>A run on the heap returns the elements that left, in order.\<close>

fun run_heap :: "(ptr \<Rightarrow> int) \<Rightarrow> ptr \<Rightarrow> qop list \<Rightarrow> link_heap \<Rightarrow> (ptr list \<times> link_heap) res" where
  "run_heap prio head [] h = Inr ([], h)"
| "run_heap prio head (Qadd e # ops) h =
     rbind (queue_add prio e head h) (run_heap prio head ops)"
| "run_heap prio head (Qout # ops) h =
     (let (e, h1) = queue_out head h in
      rbind (run_heap prio head ops h1) (\<lambda>(es, h2). Inr (e # es, h2)))"
| "run_heap prio head (Qdel e # ops) h =
     rbind (queue_del e h) (run_heap prio head ops)"

fun run_seq :: "(ptr \<Rightarrow> int) \<Rightarrow> qop list \<Rightarrow> ptr list \<Rightarrow> ptr list \<times> ptr list" where
  "run_seq prio [] xs = ([], xs)"
| "run_seq prio (Qadd e # ops) xs = run_seq prio ops (pq_add prio e xs)"
| "run_seq prio (Qout # ops) xs =
     (case pq_out xs of (r, xs1) \<Rightarrow>
      case run_seq prio ops xs1 of (es, xs2) \<Rightarrow> ((case r of None \<Rightarrow> 0 | Some e \<Rightarrow> e) # es, xs2))"
| "run_seq prio (Qdel e # ops) xs = run_seq prio ops (pq_del e xs)"

text \<open>The calls respect the macros' contract: no element is added twice, none is removed
  that is not in the queue.\<close>

fun legal :: "(ptr \<Rightarrow> int) \<Rightarrow> ptr \<Rightarrow> qop list \<Rightarrow> ptr list \<Rightarrow> bool" where
  "legal prio head [] xs = True"
| "legal prio head (Qadd e # ops) xs =
     (e \<notin> set (head # xs) \<and> e \<noteq> 0 \<and> legal prio head ops (pq_add prio e xs))"
| "legal prio head (Qout # ops) xs = legal prio head ops (snd (pq_out xs))"
| "legal prio head (Qdel e # ops) xs = (e \<in> set xs \<and> legal prio head ops (pq_del e xs))"

text \<open>The links of every element outside the queue are null, as the assertions want.\<close>

definition queue_rep :: "link_heap \<Rightarrow> ptr \<Rightarrow> ptr list \<Rightarrow> bool" where
  "queue_rep h head xs =
     (dll h head xs \<and> (\<forall>x. x \<notin> set (head # xs) \<longrightarrow> lprev (h x) = 0 \<and> lnext (h x) = 0))"

lemma queue_rep_init:
  "head \<noteq> 0 \<Longrightarrow> queue_rep (INIT_LIST_HEAD head (\<lambda>_. \<lparr>lprev = 0, lnext = 0\<rparr>)) head []"
  by (simp add: queue_rep_def dll_INIT) (simp add: INIT_LIST_HEAD_def)

lemma queue_add_rep:
  assumes "queue_rep h head xs" "e \<notin> set (head # xs)" "e \<noteq> 0"
  obtains h' where "queue_add prio e head h = Inr h'" "queue_rep h' head (pq_add prio e xs)"
proof -
  have "dll h head xs" "lprev (h e) = 0" "lnext (h e) = 0"
    using assms by (auto simp: queue_rep_def)
  from queue_add_dll [OF this(1) assms(2,3) this(2,3), of prio] obtain h'
    where "queue_add prio e head h = Inr h'" "dll h' head (pq_add prio e xs)"
      "\<forall>x. x \<notin> set (head # e # xs) \<longrightarrow> h' x = h x" by blast
  with assms(1) show ?thesis by (intro that [of h']) (auto simp: queue_rep_def)
qed

lemma queue_del_rep:
  assumes "queue_rep h head xs" "e \<in> set xs"
  obtains h' where "queue_del e h = Inr h'" "queue_rep h' head (pq_del e xs)"
proof -
  have d: "dll h head xs" using assms by (simp add: queue_rep_def)
  from queue_del_dll [OF this assms(2)] obtain h'
    where h': "queue_del e h = Inr h'" "dll h' head (pq_del e xs)" "lprev (h' e) = 0"
      "lnext (h' e) = 0" "\<forall>x. x \<notin> set (head # xs) \<longrightarrow> h' x = h x" by blast
  have "lprev (h' x) = 0 \<and> lnext (h' x) = 0" if "x \<notin> set (head # pq_del e xs)" for x
    using that assms(1) h' d by (cases "x = e") (auto simp: queue_rep_def pq_del_def in_set_remove1)
  with h' show ?thesis by (intro that [of h']) (auto simp: queue_rep_def)
qed

lemma queue_out_rep:
  assumes "queue_rep h head xs"
  obtains h' where "queue_out head h = ((case fst (pq_out xs) of None \<Rightarrow> 0 | Some e \<Rightarrow> e), h')"
    "queue_rep h' head (snd (pq_out xs))"
proof (cases "xs = []")
  case True
  have "dll h head xs" using assms by (simp add: queue_rep_def)
  then have "queue_out head h = (0, h)"
    using True dll_empty_iff by (auto simp: queue_out_def Let_def)
  with True assms show ?thesis by (intro that [of h]) (auto simp: pq_out_def)
next
  case False
  then obtain ys e where xs: "xs = ys @ [e]" by (cases xs rule: rev_exhaust) auto
  then have d: "dll h head (ys @ [e])" using assms by (simp add: queue_rep_def)
  from queue_out_dll [OF this] obtain h'
    where h': "queue_out head h = (e, h')" "dll h' head ys" "lprev (h' e) = 0" "lnext (h' e) = 0"
      "\<forall>x. x \<notin> set (head # ys @ [e]) \<longrightarrow> h' x = h x" by blast
  have "lprev (h' x) = 0 \<and> lnext (h' x) = 0" if "x \<notin> set (head # ys)" for x
    using that assms h' xs by (cases "x = e") (auto simp: queue_rep_def)
  with h' xs show ?thesis by (intro that [of h']) (auto simp: queue_rep_def pq_out_def)
qed

lemma run_heap_refines:
  "queue_rep h head xs \<Longrightarrow> legal prio head ops xs \<Longrightarrow>
    \<exists>h'. run_heap prio head ops h = Inr (fst (run_seq prio ops xs), h') \<and>
         queue_rep h' head (snd (run_seq prio ops xs))"
proof (induction prio head ops xs arbitrary: h rule: legal.induct)
  case (1 prio head xs)
  then show ?case by simp
next
  case (2 prio head e ops xs)
  then obtain h1 where "queue_add prio e head h = Inr h1" "queue_rep h1 head (pq_add prio e xs)"
    by (auto elim: queue_add_rep [of h head xs e prio])
  with 2 show ?case by simp
next
  case (3 prio head ops xs)
  from 3(2) obtain h1 where "queue_out head h = ((case fst (pq_out xs) of None \<Rightarrow> 0 | Some e \<Rightarrow> e), h1)"
    "queue_rep h1 head (snd (pq_out xs))" by (rule queue_out_rep)
  with 3 show ?case by (fastforce simp: split_beta)
next
  case (4 prio head e ops xs)
  then obtain h1 where "queue_del e h = Inr h1" "queue_rep h1 head (pq_del e xs)"
    by (auto elim: queue_del_rep [of h head xs e])
  with 4 show ?case by simp
qed

lemma run_seq_adds: "run_seq prio (map Qadd xs @ ops) q = run_seq prio ops (fold (pq_add prio) xs q)"
  by (induction xs arbitrary: q) auto

lemma length_fold_pq_add: "length (fold (pq_add prio) xs q) = length xs + length q"
  by (induction xs arbitrary: q) auto

lemma run_seq_outs_rev: "run_seq prio (replicate (length xs) Qout) (rev xs) = (xs, [])"
  by (induction xs) (auto simp: pq_out_def)

lemma run_seq_outs:
  "run_seq prio (replicate (length xs) Qout) (fold (pq_add prio) xs []) =
     (rev (fold (pq_add prio) xs []), [])"
  using run_seq_outs_rev [of prio "rev (fold (pq_add prio) xs [])"]
  by (simp add: length_fold_pq_add)

section \<open>Properties\<close>

text \<open>
  C10. The pointer-level queue implements the sequence-level one: started from an empty
  head whose elements are unlinked, every run of \<^verbatim>\<open>queue_add\<close>, \<^verbatim>\<open>queue_out\<close> and
  \<^verbatim>\<open>queue_del\<close> that adds no element twice and removes only queued ones meets no failed
  assertion, returns, takes out the same elements in the same order as the run on the
  sequence, and ends in a well-formed circular list of the resulting sequence.
\<close>

theorem queue_run_refines:
  assumes "head \<noteq> 0" and "legal prio head ops []"
  shows "\<exists>h'. run_heap prio head ops (INIT_LIST_HEAD head (\<lambda>_. \<lparr>lprev = 0, lnext = 0\<rparr>)) =
      Inr (fst (run_seq prio ops []), h') \<and> dll h' head (snd (run_seq prio ops []))"
  using run_heap_refines [OF queue_rep_init [OF assms(1)] assms(2)]
  by (auto simp: queue_rep_def)

theorem queue_run_refines_witness:
  "\<exists>h'. run_heap int 100 [Qadd 1, Qadd 3, Qadd 2, Qdel 2, Qout, Qout]
        (INIT_LIST_HEAD 100 (\<lambda>_. \<lparr>lprev = 0, lnext = 0\<rparr>)) = Inr ([3, 1], h') \<and> dll h' 100 []"
  using queue_run_refines [of 100 int "[Qadd 1, Qadd 3, Qadd 2, Qdel 2, Qout, Qout]"]
  by (simp add: pq_del_def pq_out_def)

text \<open>
  The queue serves the highest priority first and, among equal priorities, first come
  first served: the elements added one after the other come out in the order of the stable
  sort by descending priority.
\<close>

theorem queue_priority_fifo:
  "run_seq prio (map Qadd xs @ replicate (length xs) Qout) [] = (sort_key (\<lambda>x. - prio x) xs, [])"
  by (simp add: run_seq_adds run_seq_outs rev_fold_pq_add)

end
