(* ===== verification/KState.thy ===== *)
theory KState
  imports ProcMem PQueue
begin

text \<open>
  The state of the kernel: processes (\<^verbatim>\<open>process_t\<close> of \<^verbatim>\<open>process.h\<close>), the global process
  management record \<^verbatim>\<open>proc_mang_g\<close>, the scheduler's queues, the semaphores, the message queues
  and the shared pages, with the operations of \<^verbatim>\<open>helperfunc.c\<close> every system call uses.

  A process is an object of the kernel heap. The process and semaphore tables and the table of shared
  pages are maps (the theory \<open>HashTable\<close> shows that \<^verbatim>\<open>hash_t\<close> implements one, as long as memory
  does not refuse it a table): \<^verbatim>\<open>hash_set\<close> and \<^verbatim>\<open>hash_del\<close> succeed on them, and the branches that
  test their results for -1 are left out. A queue is the sequence of its
  elements (\<open>PQueue\<close> shows that the macros implement it) and \<open>p_link\<close> says in which
  queue the link of a process is threaded, \<open>None\<close> when the link is null.
\<close>

section \<open>State\<close>

datatype process_state =
  ACTIF | ACTIVATABLE | BLOCKEDSEMAPHORE | BLOCKEDIO | BLOCKEDQUEUE | BLOCKEDWAITCHILD | ASLEEP | ZOMBIE | KILLED

datatype qid = Q_act | Q_io | Q_asleep | Q_dead | Q_cons nat | Q_prod nat

datatype message_status = RECEIVED | ERROR | SENT

record message_t =
  m_value :: int
  m_status :: message_status
  m_blocked_head :: "qid option"

text \<open>A page shared by a process: its key and its place in the process's tables.\<close>

record shared_pages_proc =
  sp_key :: string
  sp_loc :: frame_loc

datatype input_t = CONSOLE_INPUT | RAW_INPUT

record process =
  p_pid :: int
  p_name :: string
  p_state :: process_state
  p_ssize :: u32
  p_prio :: u16
  p_parent :: ptr
  p_children_head :: ptr
  p_children_tail :: ptr
  p_next_sibling :: ptr
  p_link :: "qid option"
  p_return_value :: int
  p_mem :: proc_mem
  p_shared_table :: "(string \<rightharpoonup> shared_pages_proc) option"
  p_shared_pages :: "shared_pages_proc list option"
  p_released :: "frame_loc list"
  p_wake_time :: s64
  p_message :: message_t
  p_sem_signal :: int
  p_semaphore_id :: int
  p_input_type :: input_t

text \<open>
  A semaphore. The list header is \<open>None\<close> until \<^verbatim>\<open>wait\<close> allocates it; the nodes of the list
  name the blocked processes, from head to tail, and \<open>None\<close> is a node that was freed but
  is still linked.
\<close>

record semaphore =
  sem_count :: int
  sem_blocked :: "ptr option list option"

record msg_queue =
  mq_arr :: "int list"
  mq_size :: nat
  mq_number :: nat
  mq_iffc :: nat

record shared_page =
  pg_address :: u64
  pg_usage :: int
  pg_id :: u64

text \<open>A node of the list of forked processes that have not run yet; a trap frame is the list of its words.\<close>

record fork_d =
  fk_pid :: int
  fk_trap_return :: "u64 list"
  fk_next :: ptr
  fk_previous :: ptr

record kernel =
  heap :: "ptr \<rightharpoonup> process"
  fresh :: ptr
  pid_table :: "int \<rightharpoonup> ptr"
  cur_pid :: int
  pid_iterator :: int
  nb_proc_running :: int
  process_id_list :: "int list"
  forked_data_list :: ptr
  fork_nodes :: "ptr \<rightharpoonup> fork_d"
  queues :: "qid \<Rightarrow> ptr list"
  time_counter :: u64
  scheduler_main :: bool
  started_user_process :: bool
  sem_table :: "int \<rightharpoonup> semaphore"
  semaphore_id_counter :: int
  currently_running_semaphores :: int
  parent_block :: bool
  all_queues :: "msg_queue option list"
  shared_memory :: "string \<rightharpoonup> shared_page"
  page_id_counter :: u64
  kmm :: mm
  kernel_base_page_table :: u64

section \<open>Objects\<close>

definition dref :: "ptr \<Rightarrow> kernel \<Rightarrow> process res" where
  "dref p k = (if p = 0 then Inl Null_deref
     else case heap k p of None \<Rightarrow> Inl Use_after_free | Some pr \<Rightarrow> Inr pr)"

definition pmod :: "ptr \<Rightarrow> (process \<Rightarrow> process) \<Rightarrow> kernel \<Rightarrow> kernel res" where
  "pmod p f k = rbind (dref p k) (\<lambda>pr. Inr (k\<lparr>heap := (heap k)(p \<mapsto> f pr)\<rparr>))"

definition kalloc :: "kernel \<Rightarrow> bool \<times> kernel" where
  "kalloc k = (let (ok, m) = kmalloc (kmm k) in (ok, k\<lparr>kmm := m\<rparr>))"

section \<open>Queues of processes\<close>

text \<open>The priority field of the macro call: \<^verbatim>\<open>wake_time\<close> in the asleep queue.\<close>

definition qprio :: "kernel \<Rightarrow> qid \<Rightarrow> ptr \<Rightarrow> int" where
  "qprio k q p = (case heap k p of None \<Rightarrow> 0
     | Some pr \<Rightarrow> if q = Q_asleep then sint (p_wake_time pr) else uint (p_prio pr))"

definition kq_add :: "ptr \<Rightarrow> qid \<Rightarrow> kernel \<Rightarrow> kernel res" where
  "kq_add p q k =
     rbind (dref p k) (\<lambda>pr.
     rbind (rassert (p_link pr = None)) (\<lambda>_.
     if \<not> list_all (\<lambda>x. heap k x \<noteq> None) (queues k q) then Inl Use_after_free
     else Inr (k\<lparr>heap := (heap k)(p \<mapsto> pr\<lparr>p_link := Some q\<rparr>),
                 queues := (queues k)(q := pq_add (qprio k q) p (queues k q))\<rparr>)))"

definition kq_del :: "ptr \<Rightarrow> kernel \<Rightarrow> kernel res" where
  "kq_del p k =
     rbind (dref p k) (\<lambda>pr.
     case p_link pr of
       None \<Rightarrow> Inl Assert_fail
     | Some q \<Rightarrow> Inr (k\<lparr>heap := (heap k)(p \<mapsto> pr\<lparr>p_link := None\<rparr>),
                       queues := (queues k)(q := pq_del p (queues k q))\<rparr>))"

definition kq_top :: "qid \<Rightarrow> kernel \<Rightarrow> ptr" where
  "kq_top q k = (case pq_top (queues k q) of None \<Rightarrow> 0 | Some p \<Rightarrow> p)"

definition kq_out :: "qid \<Rightarrow> kernel \<Rightarrow> (ptr \<times> kernel) res" where
  "kq_out q k =
     (case pq_out (queues k q) of
        (None, _) \<Rightarrow> Inr (0, k)
      | (Some p, rest) \<Rightarrow>
          rbind (dref p k) (\<lambda>pr.
            Inr (p, k\<lparr>heap := (heap k)(p \<mapsto> pr\<lparr>p_link := None\<rparr>), queues := (queues k)(q := rest)\<rparr>)))"

section \<open>Helper functions\<close>

definition getpid :: "kernel \<Rightarrow> int" where
  "getpid k = cur_pid k"

definition get_process_struct_of_pid :: "int \<Rightarrow> kernel \<Rightarrow> ptr" where
  "get_process_struct_of_pid pid k = (case pid_table k pid of None \<Rightarrow> 0 | Some p \<Rightarrow> p)"

definition get_current_process :: "kernel \<Rightarrow> ptr" where
  "get_current_process k = get_process_struct_of_pid (getpid k) k"

definition getname :: "kernel \<Rightarrow> string option res" where
  "getname k =
     (let p = get_process_struct_of_pid (getpid k) k in
      if p = 0 then Inr None else rbind (dref p k) (\<lambda>pr. Inr (Some (p_name pr))))"

definition get_pid_name :: "int \<Rightarrow> kernel \<Rightarrow> string option res" where
  "get_pid_name pid k =
     (let p = get_process_struct_of_pid pid k in
      if p = 0 then Inr None else rbind (dref p k) (\<lambda>pr. Inr (Some (p_name pr))))"

definition get_semaphore_struct :: "int \<Rightarrow> kernel \<Rightarrow> semaphore option" where
  "get_semaphore_struct sem k = sem_table k sem"

definition save_pid :: "int \<Rightarrow> kernel \<Rightarrow> int \<times> kernel" where
  "save_pid pid k =
     (let (ok, k1) = kalloc k in
      if \<not> ok then (-1, k1) else (0, k1\<lparr>process_id_list := pid # process_id_list k1\<rparr>))"

definition get_pid_iterator :: "kernel \<Rightarrow> int" where
  "get_pid_iterator k = pid_iterator k"

definition increment_pid_and_get_new_pid :: "kernel \<Rightarrow> int \<times> kernel" where
  "increment_pid_and_get_new_pid k =
     (case process_id_list k of
        i # is \<Rightarrow> (i, k\<lparr>process_id_list := is\<rparr>)
      | [] \<Rightarrow> (pid_iterator k + 1, k\<lparr>pid_iterator := pid_iterator k + 1\<rparr>))"

text \<open>
  The counter of semaphores is an \<^verbatim>\<open>int\<close> in the code; the model is of runs with fewer than 2^31
  creations, in which it does not overflow. The counter of pages has 64 bits and is returned as an \<^verbatim>\<open>int\<close>.
\<close>

definition increment_semaphore_id :: "kernel \<Rightarrow> int \<times> kernel" where
  "increment_semaphore_id k =
     (semaphore_id_counter k + 1, k\<lparr>semaphore_id_counter := semaphore_id_counter k + 1\<rparr>)"

definition increment_shared_page_counter :: "kernel \<Rightarrow> u64 \<times> kernel" where
  "increment_shared_page_counter k =
     (let c = page_id_counter k + 1 in (scast (ucast c :: 32 word), k\<lparr>page_id_counter := c\<rparr>))"

definition validate_action_process_valid :: "ptr \<Rightarrow> kernel \<Rightarrow> int res" where
  "validate_action_process_valid p k =
     (if p = 0 then Inr (-1)
      else rbind (dref p k) (\<lambda>pr. Inr (if p_state pr = ZOMBIE \<or> p_state pr = KILLED then -1 else 0)))"

end
