(* ===== verification/Shm.thy ===== *)
theory Shm
  imports KState
begin

text \<open>
  Shared pages, \<^verbatim>\<open>src/kernel/process/memory_api.c\<close>: named frames that processes map into the
  shared region of their address space. A release leaves a hole (\<open>p_released\<close>) that the next
  mapping of the process fills.

  The tables keyed by names are maps; their own allocations are not modelled.
\<close>

section \<open>Lookups\<close>

definition get_shared_page :: "string \<Rightarrow> kernel \<Rightarrow> shared_page option" where
  "get_shared_page key k = shared_memory k key"

definition get_shared_page_proc :: "ptr \<Rightarrow> string \<Rightarrow> kernel \<Rightarrow> shared_pages_proc option res" where
  "get_shared_page_proc p key k =
     (if p = 0 then Inr None
      else rbind (dref p k) (\<lambda>pr.
        Inr (case p_shared_table pr of None \<Rightarrow> None | Some t \<Rightarrow> t key)))"

section \<open>Creating and mapping\<close>

text \<open>The frame is used without looking whether \<^verbatim>\<open>get_frame\<close> returned one.\<close>

definition create_shared_page :: "string \<Rightarrow> kernel \<Rightarrow> shared_page option \<times> kernel" where
  "create_shared_page key k =
     (let (page_frame, f) = get_frame (frames (kmm k));
          k1 = k\<lparr>kmm := (kmm k)\<lparr>frames := f\<rparr>\<rparr>;
          (ok, k2) = kalloc k1
      in if \<not> ok then (None, k2)
         else
           (let (i, k3) = increment_shared_page_counter k2;
                pg = \<lparr>pg_address = page_frame, pg_usage = 0, pg_id = i\<rparr>
            in (Some pg, k3\<lparr>shared_memory := (shared_memory k3)(key \<mapsto> pg)\<rparr>)))"

definition create_hash_table_and_shared_pages_wrapper :: "ptr \<Rightarrow> kernel \<Rightarrow> (int \<times> kernel) res" where
  "create_hash_table_and_shared_pages_wrapper p k =
     rbind (dref p k) (\<lambda>pr.
     let (ok1, k1) = (if p_shared_table pr = None then kalloc k else (True, k)) in
     if \<not> ok1 then Inr (-1, k1)
     else
       (let (ok2, k2) = (if p_shared_table pr = None then kalloc k1 else (True, k1));
            pr1 = (if p_shared_table pr = None then pr\<lparr>p_shared_table := Some Map.empty\<rparr> else pr)
        in if \<not> ok2 then Inr (-1, k2\<lparr>heap := (heap k2)(p \<mapsto> pr1)\<rparr>)
           else if p_shared_pages pr1 = None then
             (let (ok3, k3) = kalloc k2 in
              if \<not> ok3 then Inr (-1, k3\<lparr>heap := (heap k3)(p \<mapsto> pr1)\<rparr>)
              else Inr (0, k3\<lparr>heap := (heap k3)(p \<mapsto> pr1\<lparr>p_shared_pages := Some []\<rparr>)\<rparr>))
           else Inr (0, k2\<lparr>heap := (heap k2)(p \<mapsto> pr1)\<rparr>)))"

text \<open>
  The place for the new page: a hole left by a release, else a new slot. The new node is already
  in the process's list; \<open>None\<close> is the return value -1.
\<close>

definition shared_slot :: "process \<Rightarrow> mm \<Rightarrow> (frame_loc option \<times> process \<times> mm) res" where
  "shared_slot pr m =
     (case p_released pr of
        loc # rest \<Rightarrow> Inr (Some loc, pr\<lparr>p_released := rest\<rparr>, m)
      | [] \<Rightarrow>
          rbind (add_frame_to_process SHARED_PAGE (p_mem pr) m) (\<lambda>(r, loc, pm, m1).
            Inr (if r < 0 then None else Some loc, pr\<lparr>p_mem := pm\<rparr>, m1)))"

definition link_shared_page_to_process :: "ptr \<Rightarrow> string \<Rightarrow> kernel \<Rightarrow> (int \<times> kernel) res" where
  "link_shared_page_to_process p key k =
     (case shared_memory k key of
        None \<Rightarrow> Inr (-1, k)
      | Some page_info \<Rightarrow>
          if p = 0 then Inr (-1, k)
          else
            rbind (dref p k) (\<lambda>pr.
            case p_shared_pages pr of
              None \<Rightarrow> Inr (-1, k)
            | Some pages \<Rightarrow>
                (let (ok1, k1) = kalloc k in
                 if \<not> ok1 then Inl Null_deref
                 else
                   (let (ok2, k2) = kalloc k1 in
                    if \<not> ok2 then Inr (-1, k2)
                    else
                      rbind (shared_slot pr (kmm k2)) (\<lambda>(lo, pr1, m3).
                      case lo of
                        None \<Rightarrow>
                          Inr (-1, k2\<lparr>kmm := m3, heap := (heap k2)(p \<mapsto>
                            pr1\<lparr>p_shared_pages := Some (pages @ [\<lparr>sp_key = key, sp_loc = no_loc\<rparr>])\<rparr>)\<rparr>)
                      | Some loc \<Rightarrow>
                          (let node = \<lparr>sp_key = key, sp_loc = loc\<rparr>;
                               pr2 = pr1\<lparr>p_shared_pages := Some (pages @ [node]),
                                         p_shared_table := map_option (\<lambda>t. t(key \<mapsto> node)) (p_shared_table pr1)\<rparr>
                           in rbind (configure_entry_at (loc_table loc) (unat (lvl0_index loc)) (pg_address page_info)
                                       True True False True KILO (frames m3)) (\<lambda>f.
                              Inr (0, k2\<lparr>kmm := m3\<lparr>frames := f\<rparr>, heap := (heap k2)(p \<mapsto> pr2),
                                shared_memory := (shared_memory k2)(key \<mapsto> page_info\<lparr>pg_usage := pg_usage page_info + 1\<rparr>)\<rparr>))))))))"

definition target_process :: "ptr \<Rightarrow> kernel \<Rightarrow> ptr" where
  "target_process proc k = (if proc = 0 then get_process_struct_of_pid (getpid k) k else proc)"

text \<open>The address of the last page of the process's list; 0 is NULL.\<close>

definition tail_address :: "ptr \<Rightarrow> kernel \<Rightarrow> u64 res" where
  "tail_address p k =
     rbind (dref p k) (\<lambda>pr.
     case p_shared_pages pr of
       Some (n # ns) \<Rightarrow>
         (let loc = sp_loc (last (n # ns)) in
          Inr (map_address_for_process (lvl2_index loc) (lvl1_index loc) (lvl0_index loc)))
     | _ \<Rightarrow> Inl Null_deref)"

definition shm_acquire :: "ptr \<Rightarrow> string \<Rightarrow> kernel \<Rightarrow> (u64 \<times> kernel) res" where
  "shm_acquire proc key k =
     (case get_shared_page key k of
        None \<Rightarrow> Inr (0, k)
      | Some _ \<Rightarrow>
          (let p = target_process proc k in
           rbind (create_hash_table_and_shared_pages_wrapper p k) (\<lambda>(r, k1).
           if r < 0 then Inr (0, k1)
           else
             rbind (get_shared_page_proc p key k1) (\<lambda>old.
             if old \<noteq> None then Inr (0, k1)
             else
               rbind (link_shared_page_to_process p key k1) (\<lambda>(r, k2).
               if r < 0 then Inr (0, k2) else rbind (tail_address p k2) (\<lambda>a. Inr (a, k2)))))))"

definition shm_create :: "ptr \<Rightarrow> string \<Rightarrow> kernel \<Rightarrow> (u64 \<times> kernel) res" where
  "shm_create proc key k =
     (let (ok, k0) = kalloc k in
      if \<not> ok then Inl Null_deref
      else if get_shared_page key k0 \<noteq> None then Inr (0, k0)
      else
        (let (pg, k1) = create_shared_page key k0 in
         if pg = None then Inr (0, k1)
         else
           (let p = target_process proc k1 in
            if p = 0 then Inr (0, k1)
            else
              rbind (create_hash_table_and_shared_pages_wrapper p k1) (\<lambda>(r, k2).
              if r < 0 then Inr (0, k2)
              else
                rbind (link_shared_page_to_process p key k2) (\<lambda>(r, k3).
                if r < 0 then Inr (0, k3) else rbind (tail_address p k3) (\<lambda>a. Inr (a, k3)))))))"

section \<open>Releasing\<close>

text \<open>\<open>custom\<close> is the global \<^verbatim>\<open>custom_release_process\<close>, 0 when it is NULL.\<close>

definition shm_release :: "ptr \<Rightarrow> string \<Rightarrow> kernel \<Rightarrow> kernel res" where
  "shm_release custom key k =
     (case get_shared_page key k of
        None \<Rightarrow> Inr k
      | Some page_info \<Rightarrow>
          (let p = target_process custom k in
           if p = 0 then Inr k
           else
             rbind (dref p k) (\<lambda>pr.
             case p_shared_table pr of
               None \<Rightarrow> Inr k
             | Some t \<Rightarrow>
                 (case t key of
                    None \<Rightarrow> Inr k
                  | Some node \<Rightarrow>
                      (let (ok, k1) = kalloc k in
                       if \<not> ok then Inr k1
                       else
                         (let pr1 = pr\<lparr>p_released := sp_loc node # p_released pr\<rparr> in
                          case p_shared_pages pr1 of
                            None \<Rightarrow> Inr (k1\<lparr>heap := (heap k1)(p \<mapsto> pr1)\<rparr>)
                          | Some pages \<Rightarrow>
                              if node \<notin> set pages then Inl Null_deref
                              else
                              (let loc = sp_loc node;
                                   f0 = frames (kmm k1);
                                   f1 = write_pte (loc_table loc) (unat (lvl0_index loc))
                                          (set_invalid (read_pte f0 (loc_table loc) (unat (lvl0_index loc)))) f0
                               in rbind (configure_entry_at (loc_table loc) (unat (lvl0_index loc)) 0
                                           False False False False KILO f1) (\<lambda>f2.
                                  let u = pg_usage page_info - 1;
                                      f3 = (if u = 0 then release_frame (pg_address page_info) f2 else f2);
                                      sm = (shared_memory k1)(key := if u = 0 then None else Some (page_info\<lparr>pg_usage := u\<rparr>));
                                      pr2 = pr1\<lparr>p_shared_pages := Some (remove1 node pages),
                                                p_shared_table := Some (t(key := None))\<rparr>
                                  in Inr (k1\<lparr>kmm := (kmm k1)\<lparr>frames := f3\<rparr>, heap := (heap k1)(p \<mapsto> pr2),
                                             shared_memory := sm\<rparr>))))))))) "

end
