(* ===== verification/Sched.thy ===== *)
theory Sched
  imports Shm
begin

text \<open>
  The end of a process's memory (\<^verbatim>\<open>free_process_memory\<close> of \<^verbatim>\<open>process_memory.c\<close>) and the
  scheduler, \<^verbatim>\<open>src/kernel/process/scheduler.c\<close>.

  A call of the scheduler is modelled up to the context switch: what the switched-out process
  does when it runs again is modelled where the calling system call is, as a second half. The
  registers saved and restored by the switch are not part of the state.
\<close>

section \<open>Freeing a process\<close>

datatype del_t = PRESERVE_FS | DELETE_MEM_FS | DELETE_ALL

definition free_fs_proc :: "ptr \<Rightarrow> del_t \<Rightarrow> kernel \<Rightarrow> int \<times> kernel" where
  "free_fs_proc p d k = (if d = PRESERVE_FS then (0, k) else (0, k))"

fun release_all_shared :: "ptr \<Rightarrow> shared_pages_proc list \<Rightarrow> kernel \<Rightarrow> kernel res" where
  "release_all_shared p [] k = Inr k"
| "release_all_shared p (n # ns) k = rbind (shm_release p (sp_key n) k) (release_all_shared p ns)"

text \<open>
  The shared pages: every page of the list is released, then the list of holes is walked, but
  the loop frees its first element at every step, so a second hole is a double free.
\<close>

definition free_shared_pages :: "ptr \<Rightarrow> kernel \<Rightarrow> kernel res" where
  "free_shared_pages p k =
     rbind (dref p k) (\<lambda>pr.
     if p_shared_table pr = None then Inr k
     else
       (case p_shared_pages pr of
          None \<Rightarrow> Inl Null_deref
        | Some pages \<Rightarrow>
            rbind (release_all_shared p pages k) (\<lambda>k1.
            rbind (dref p k1) (\<lambda>pr1.
            if length (p_released pr1) \<ge> 2 then Inl Double_free else Inr k1))))"

text \<open>\<open>virt\<close> builds also free the file system data, which does nothing.\<close>

definition free_process_memory :: "ptr \<Rightarrow> del_t \<Rightarrow> kernel \<Rightarrow> (int \<times> kernel) res" where
  "free_process_memory p d k =
     (if p = 0 then Inr (-1, k)
      else
        (let (r, k0) = free_fs_proc p d k in
         if r < 0 then Inr (-1, k0)
         else
           rbind (free_shared_pages p k0) (\<lambda>k1.
           rbind (dref p k1) (\<lambda>pr.
           rbind (free_page_tables (d = DELETE_ALL) (p_mem pr) (frames (kmm k1))) (\<lambda>f.
           let k2 = k1\<lparr>kmm := (kmm k1)\<lparr>frames := f\<rparr>\<rparr> in
           if d = DELETE_ALL then
             (let k3 = k2\<lparr>nb_proc_running := nb_proc_running k2 - 1, pid_table := (pid_table k2)(p_pid pr := None)\<rparr>;
                  (_, k4) = save_pid (p_pid pr) k3
              in Inr (0, k4\<lparr>heap := (heap k4)(p := None)\<rparr>))
           else Inr (0, k2))))))"

section \<open>Waking sleepers, burying the dead\<close>

definition current_clock :: "kernel \<Rightarrow> u64" where
  "current_clock k = time_counter k"

definition get_next_wake_time :: "kernel \<Rightarrow> u64 res" where
  "get_next_wake_time k =
     (let p = kq_top Q_asleep k in
      if p = 0 then Inr 0
      else rbind (dref p k) (\<lambda>pr.
        rbind (rassert (sint (- p_wake_time pr) \<ge> 0)) (\<lambda>_. Inr (- p_wake_time pr))))"

text \<open>The loop runs at most once per sleeper, which is the fuel it is given.\<close>

fun awake_loop :: "nat \<Rightarrow> kernel \<Rightarrow> kernel res" where
  "awake_loop 0 k = Inl No_return"
| "awake_loop (Suc n) k =
     rbind (get_next_wake_time k) (\<lambda>wake_time.
     if wake_time \<noteq> 0 \<and> current_clock k > wake_time then
       rbind (kq_out Q_asleep k) (\<lambda>(awake, k1).
       rbind (kq_add awake Q_act k1) (awake_loop n))
     else Inr k)"

definition awake_sleeping_process :: "kernel \<Rightarrow> kernel res" where
  "awake_sleeping_process k = awake_loop (Suc (length (queues k Q_asleep))) k"

fun free_dead_loop :: "nat \<Rightarrow> kernel \<Rightarrow> kernel res" where
  "free_dead_loop 0 k = Inl No_return"
| "free_dead_loop (Suc n) k =
     (if queues k Q_dead = [] then Inr k
      else
        rbind (kq_out Q_dead k) (\<lambda>(top, k1).
        rbind (free_process_memory top DELETE_ALL k1) (\<lambda>(_, k2). free_dead_loop n k2)))"

definition free_dead_process :: "kernel \<Rightarrow> kernel res" where
  "free_dead_process k = free_dead_loop (Suc (length (queues k Q_dead))) k"

section \<open>The scheduler\<close>

definition setpid :: "int \<Rightarrow> kernel \<Rightarrow> int \<times> kernel" where
  "setpid new_pid k =
     (if get_process_struct_of_pid new_pid k = 0 then (-1, k) else (new_pid, k\<lparr>cur_pid := new_pid\<rparr>))"

text \<open>
  Take the top of the activatable queue and make it the running process. With \<open>swap\<close> the
  process \<open>cur\<close> goes back to the queue.
\<close>

definition dispatch :: "bool \<Rightarrow> ptr \<Rightarrow> kernel \<Rightarrow> kernel res" where
  "dispatch swap cur k =
     rbind (kq_out Q_act k) (\<lambda>(top, k1).
     rbind (dref top k1) (\<lambda>tp.
     let (r, k2) = setpid (p_pid tp) k1 in
     if r < 0 then Inr k2
     else
       rbind (if swap then pmod cur (\<lambda>pr. pr\<lparr>p_state := ACTIVATABLE\<rparr>) k2 else Inr k2) (\<lambda>k3.
       rbind (pmod top (\<lambda>pr. pr\<lparr>p_state := ACTIF\<rparr>) k3) (\<lambda>k4.
       if swap then kq_add cur Q_act k4 else Inr k4))))"

text \<open>The choice of the next process, from the test of \<^verbatim>\<open>scheduler_main\<close> to the end.\<close>

definition scheduler_choice :: "kernel \<Rightarrow> kernel res" where
  "scheduler_choice k =
     (if \<not> scheduler_main k then Inr k
      else if getpid k = -1 then
        (if kq_top Q_act k = 0 then Inr k
         else rbind (dispatch False 0 k) (\<lambda>k'.
           if getpid k' = -1 then Inr k' else Inr (k'\<lparr>started_user_process := True\<rparr>)))
      else if \<not> started_user_process k then
        (if get_process_struct_of_pid (getpid k) k = 0 then Inr k
         else Inr (k\<lparr>started_user_process := True\<rparr>))
      else
        (let cur = get_current_process k; top = kq_top Q_act k in
         if top = 0 \<or> cur = 0 then Inr k
         else
           rbind (dref cur k) (\<lambda>cp.
           rbind (dref top k) (\<lambda>tp.
           if p_state cp = ACTIF then
             (if p_prio tp \<ge> p_prio cp then dispatch True cur k else Inr k)
           else if p_state cp = KILLED then
             rbind (kq_add cur Q_dead k) (dispatch False cur)
           else dispatch False cur k))))"

definition scheduler :: "kernel \<Rightarrow> kernel res" where
  "scheduler k = rbind (awake_sleeping_process k) (\<lambda>k1. rbind (free_dead_process k1) scheduler_choice)"

end
