(* ===== verification/Semaphore.thy ===== *)
theory Semaphore
  imports Sched
begin

text \<open>
  Counting semaphores, \<^verbatim>\<open>src/kernel/sync/semaphore_api.c\<close>. \<^verbatim>\<open>wait\<close> blocks the running process on a
  list kept in descending priority; \<^verbatim>\<open>wait_resume\<close> is what it does when it runs again.

  The count is an \<^verbatim>\<open>int16_t\<close>, between -32768 and 32767.
\<close>

unbundle bit_operations_syntax

section \<open>Constants\<close>

definition MAX_COUNT :: int where "MAX_COUNT = 32767"
definition MIN_COUNT :: int where "MIN_COUNT = -32768"
definition NB_MAX_SEMS :: int where "NB_MAX_SEMS = 10000"

text \<open>The enumerator after \<^verbatim>\<open>SRESET_CALL = -4\<close> is -3, the value of \<^verbatim>\<open>SDETETE_CALL\<close>.\<close>

definition SIGNAL_CALL :: int where "SIGNAL_CALL = 0"
definition SDETETE_CALL :: int where "SDETETE_CALL = -3"
definition SRESET_CALL :: int where "SRESET_CALL = -4"
definition KILL_CALL :: int where "KILL_CALL = SRESET_CALL + 1"

definition to_int16 :: "int \<Rightarrow> int" where
  "to_int16 c = sint (word_of_int c :: 16 word)"

section \<open>Blocked processes\<close>

text \<open>A node of the list and its process.\<close>

definition node_proc :: "ptr option \<Rightarrow> ptr res" where
  "node_proc n = (case n of None \<Rightarrow> Inl Use_after_free | Some p \<Rightarrow> Inr p)"

definition node_pid :: "ptr option \<Rightarrow> kernel \<Rightarrow> int res" where
  "node_pid n k = rbind (node_proc n) (\<lambda>p. rbind (dref p k) (\<lambda>pr. Inr (p_pid pr)))"

definition set_blocked :: "int \<Rightarrow> ptr option list \<Rightarrow> kernel \<Rightarrow> kernel" where
  "set_blocked sem l k =
     k\<lparr>sem_table := (sem_table k)(sem := map_option (\<lambda>s. s\<lparr>sem_blocked := Some l\<rparr>) (sem_table k sem))\<rparr>"

text \<open>The end of \<^verbatim>\<open>remove_proc_queue\<close>: the process of the chosen node wakes up.\<close>

definition wake_removed :: "ptr option \<Rightarrow> int \<Rightarrow> kernel \<Rightarrow> (int \<times> kernel) res" where
  "wake_removed n signal_enum k =
     rbind (node_proc n) (\<lambda>p.
     rbind (pmod p (\<lambda>pr. pr\<lparr>p_state := ACTIVATABLE\<rparr>) k) (\<lambda>k1.
     rbind (if signal_enum \<noteq> KILL_CALL then kq_add p Q_act k1 else Inr k1) (\<lambda>k2.
     rbind (pmod p (\<lambda>pr. pr\<lparr>p_sem_signal := signal_enum\<rparr>) k2) (\<lambda>k3. Inr (0, k3)))))"

text \<open>
  The search of a node in the middle: the loop stops at the first node whose pid differs from
  \<open>pid\<close>, which is the head; that node is unlinked from nothing and freed.
\<close>

definition remove_proc_queue :: "int \<Rightarrow> int \<Rightarrow> int \<Rightarrow> kernel \<Rightarrow> (int \<times> kernel) res" where
  "remove_proc_queue sem signal_enum pid k =
     (case get_semaphore_struct sem k of
        None \<Rightarrow> Inl Null_deref
      | Some s \<Rightarrow>
          (case sem_blocked s of
             None \<Rightarrow> Inr (1, k)
           | Some [] \<Rightarrow> Inr (1, k)
           | Some [n] \<Rightarrow>
               rbind (node_pid n k) (\<lambda>i.
                 if i = pid then wake_removed n signal_enum (set_blocked sem [] k) else Inr (-1, k))
           | Some (n # ns) \<Rightarrow>
               rbind (node_pid n k) (\<lambda>i.
               if i = pid then wake_removed n signal_enum (set_blocked sem ns k)
               else
                 rbind (node_pid (last ns) k) (\<lambda>j.
                 if j = pid then wake_removed (last ns) signal_enum (set_blocked sem (n # butlast ns) k)
                 else wake_removed n signal_enum (set_blocked sem (None # ns) k)))))"

definition unblock_process_sem :: "int \<Rightarrow> int \<Rightarrow> kernel \<Rightarrow> (int \<times> kernel) res" where
  "unblock_process_sem sem signal_enum k =
     (case get_semaphore_struct sem k of
        None \<Rightarrow> Inl Null_deref
      | Some s \<Rightarrow>
          (case sem_blocked s of
             None \<Rightarrow> Inr (1, k)
           | Some [] \<Rightarrow> Inr (1, k)
           | Some (n # ns) \<Rightarrow>
               rbind (node_proc n) (\<lambda>p.
               rbind (pmod p (\<lambda>pr. pr\<lparr>p_state := ACTIVATABLE\<rparr>) (set_blocked sem ns k)) (\<lambda>k1.
               rbind (kq_add p Q_act k1) (\<lambda>k2.
               rbind (pmod p (\<lambda>pr. pr\<lparr>p_sem_signal := signal_enum\<rparr>) k2) (\<lambda>k3. Inr (0, k3)))))))"

section \<open>System calls\<close>

definition scount :: "int \<Rightarrow> kernel \<Rightarrow> int" where
  "scount sem k = (case get_semaphore_struct sem k of None \<Rightarrow> -1 | Some s \<Rightarrow> 0xFFFF AND sem_count s)"

definition screate :: "int \<Rightarrow> kernel \<Rightarrow> int \<times> kernel" where
  "screate val k =
     (if val < 0 then (-1, k)
      else if currently_running_semaphores k = NB_MAX_SEMS then (-1, k)
      else
        (let (ok, k1) = kalloc k in
         if \<not> ok then (-1, k1)
         else
           (let k2 = k1\<lparr>parent_block := False\<rparr>; (i, k3) = increment_semaphore_id k2 in
            if i < 0 then (-1, k3)
            else (i, k3\<lparr>sem_table := (sem_table k3)(i \<mapsto> \<lparr>sem_count = val, sem_blocked = None\<rparr>),
                        currently_running_semaphores := currently_running_semaphores k3 + 1\<rparr>))))"

text \<open>The insertion loop of \<^verbatim>\<open>wait\<close>: before the first process of a lower priority.\<close>

fun insert_blocked :: "ptr \<Rightarrow> u16 \<Rightarrow> ptr option list \<Rightarrow> kernel \<Rightarrow> ptr option list res" where
  "insert_blocked p prio [] k = Inr [Some p]"
| "insert_blocked p prio (n # ns) k =
     rbind (node_proc n) (\<lambda>q.
     rbind (dref q k) (\<lambda>pr.
     if prio > p_prio pr then Inr (Some p # n # ns)
     else rbind (insert_blocked p prio ns k) (\<lambda>ns'. Inr (n # ns'))))"

definition set_sem :: "int \<Rightarrow> semaphore \<Rightarrow> kernel \<Rightarrow> kernel" where
  "set_sem sem s k = k\<lparr>sem_table := (sem_table k)(sem \<mapsto> s)\<rparr>"

text \<open>\<open>None\<close> as return value: the scheduler was called, and \<^verbatim>\<open>wait_resume\<close> gives the value.\<close>

definition wait :: "int \<Rightarrow> kernel \<Rightarrow> (int option \<times> kernel) res" where
  "wait sem k =
     (case get_semaphore_struct sem k of
        None \<Rightarrow> Inr (Some (-1), k)
      | Some s \<Rightarrow>
          (let p = get_process_struct_of_pid (getpid k) k in
           if p = 0 then Inr (Some (-1), k)
           else
             rbind (pmod p (\<lambda>pr. pr\<lparr>p_sem_signal := 0\<rparr>) k) (\<lambda>k1.
             if sem_count s = MIN_COUNT then Inr (Some (-2), k1)
             else
               (let s1 = s\<lparr>sem_count := sem_count s - 1\<rparr> in
                if sem_count s1 < 0 then
                  (let (ok1, k2) = (if sem_blocked s1 = None then kalloc k1 else (True, k1));
                       (ok2, k3) = kalloc k2
                   in if \<not> ok1 \<or> \<not> ok2 then Inl Null_deref
                      else
                        rbind (dref p k3) (\<lambda>pr.
                        rbind (insert_blocked p (p_prio pr) (case sem_blocked s1 of None \<Rightarrow> [] | Some l \<Rightarrow> l) k3) (\<lambda>l.
                        rbind (pmod p (\<lambda>pr. pr\<lparr>p_semaphore_id := sem, p_state := BLOCKEDSEMAPHORE\<rparr>)
                                 (set_sem sem (s1\<lparr>sem_blocked := Some l\<rparr>) k3)) (\<lambda>k4.
                        rbind (scheduler k4) (\<lambda>k5. Inr (None, k5))))))
                else rbind (scheduler (set_sem sem s1 k1)) (\<lambda>k2. Inr (None, k2))))))"

definition wait_resume :: "ptr \<Rightarrow> kernel \<Rightarrow> int res" where
  "wait_resume p k = rbind (dref p k) (\<lambda>pr. Inr (p_sem_signal pr))"

definition proc_kill_diag :: "int \<Rightarrow> int \<Rightarrow> int \<Rightarrow> kernel \<Rightarrow> (int \<times> kernel) res" where
  "proc_kill_diag sem signal_enum pid k =
     (case get_semaphore_struct sem k of
        None \<Rightarrow> Inr (-1, k)
      | Some s \<Rightarrow>
          if sem_count s = MAX_COUNT then Inr (-2, k)
          else
            (let s1 = s\<lparr>sem_count := sem_count s + 1\<rparr>; k1 = set_sem sem s1 k in
             if sem_count s1 \<le> 0 then rbind (remove_proc_queue sem KILL_CALL pid k1) (\<lambda>(_, k2). Inr (0, k2))
             else Inr (0, k1)))"

definition signal :: "int \<Rightarrow> kernel \<Rightarrow> (int \<times> kernel) res" where
  "signal sem k =
     (case get_semaphore_struct sem k of
        None \<Rightarrow> Inr (-1, k)
      | Some s \<Rightarrow>
          if sem_count s = MAX_COUNT then Inr (-2, k)
          else
            (let s1 = s\<lparr>sem_count := sem_count s + 1\<rparr>; k1 = set_sem sem s1 k in
             rbind (if sem_count s1 \<le> 0
                    then rbind (unblock_process_sem sem SIGNAL_CALL k1) (\<lambda>(_, k2). Inr k2)
                    else Inr k1) (\<lambda>k2.
             rbind (if \<not> parent_block k2 then scheduler k2 else Inr k2) (\<lambda>k3. Inr (0, k3)))))"

text \<open>The loops of \<^verbatim>\<open>sdelete\<close> and \<^verbatim>\<open>sreset\<close>, with one round per blocked process as fuel.\<close>

fun unblock_all :: "nat \<Rightarrow> int \<Rightarrow> int \<Rightarrow> kernel \<Rightarrow> kernel res" where
  "unblock_all 0 sem signal_enum k = Inl No_return"
| "unblock_all (Suc n) sem signal_enum k =
     rbind (unblock_process_sem sem signal_enum k) (\<lambda>(r, k1).
       if r \<noteq> 1 then unblock_all n sem signal_enum k1 else Inr k1)"

definition blocked_fuel :: "semaphore \<Rightarrow> nat" where
  "blocked_fuel s = Suc (case sem_blocked s of None \<Rightarrow> 0 | Some l \<Rightarrow> length l)"

definition sdelete :: "int \<Rightarrow> kernel \<Rightarrow> (int \<times> kernel) res" where
  "sdelete sem k =
     (case get_semaphore_struct sem k of
        None \<Rightarrow> Inr (-1, k)
      | Some s \<Rightarrow>
          rbind (unblock_all (blocked_fuel s) sem SDETETE_CALL k) (\<lambda>k1.
          rbind (scheduler (k1\<lparr>sem_table := (sem_table k1)(sem := None),
                               currently_running_semaphores := currently_running_semaphores k1 - 1\<rparr>)) (\<lambda>k2.
            Inr (0, k2))))"

definition sreset :: "int \<Rightarrow> int \<Rightarrow> kernel \<Rightarrow> (int \<times> kernel) res" where
  "sreset sem val k =
     (case get_semaphore_struct sem k of
        None \<Rightarrow> Inr (-1, k)
      | Some s \<Rightarrow>
          if val < 0 then Inr (-1, k)
          else
            rbind (unblock_all (blocked_fuel s) sem SRESET_CALL k) (\<lambda>k1.
            case get_semaphore_struct sem k1 of
              None \<Rightarrow> Inl Null_deref
            | Some s1 \<Rightarrow>
                rbind (scheduler (set_sem sem (s1\<lparr>sem_count := to_int16 val\<rparr>) k1)) (\<lambda>k2. Inr (0, k2))))"

definition try_wait :: "int \<Rightarrow> kernel \<Rightarrow> (int \<times> kernel) res" where
  "try_wait sem k =
     (case get_semaphore_struct sem k of
        None \<Rightarrow> Inr (-1, k)
      | Some s \<Rightarrow>
          if sem_count s > 0 then
            rbind (scheduler (set_sem sem (s\<lparr>sem_count := sem_count s - 1\<rparr>) k)) (\<lambda>k1. Inr (0, k1))
          else Inr (-3, k))"

fun signal_times :: "nat \<Rightarrow> int \<Rightarrow> kernel \<Rightarrow> (int \<times> kernel) res" where
  "signal_times 0 sem k = Inr (0, k)"
| "signal_times (Suc n) sem k =
     rbind (signal sem k) (\<lambda>(val, k1). if val \<noteq> 0 then Inr (val, k1) else signal_times n sem k1)"

definition signaln :: "int \<Rightarrow> int \<Rightarrow> kernel \<Rightarrow> (int \<times> kernel) res" where
  "signaln sem n k =
     (case get_semaphore_struct sem k of
        None \<Rightarrow> Inr (-1, k)
      | Some s \<Rightarrow>
          if n < 0 then Inr (-1, k)
          else if sem_count s + n > MAX_COUNT then Inr (-2, k)
          else
            rbind (signal_times (nat n) sem (k\<lparr>parent_block := True\<rparr>)) (\<lambda>(val, k1).
            if val \<noteq> 0 then Inr (val, k1)
            else rbind (scheduler (k1\<lparr>parent_block := False\<rparr>)) (\<lambda>k2. Inr (0, k2))))"

end
