(* ===== verification/ForkList.thy ===== *)
theory ForkList
  imports KState
begin

text \<open>
  The list of saved trap frames of \<^verbatim>\<open>src/kernel/process/process_api.c\<close>
  (\<^verbatim>\<open>add_fork_data_node\<close>, \<^verbatim>\<open>return_from_trap_frame\<close>): a doubly linked list of allocated nodes
  whose head is \<^verbatim>\<open>proc_mang_g.forked_data_list\<close>. The nodes are kept by address, every read and
  write goes through a pointer, and \<open>forks\<close> says which sequence of frames a well linked list
  holds. The lemmas show that an insertion and an unlinking do to that sequence what they mean
  to, leave the links in both directions right, and free exactly the node that is taken.
\<close>

section \<open>Nodes\<close>

definition fork_node :: "ptr \<Rightarrow> kernel \<Rightarrow> fork_d res" where
  "fork_node p k = (if p = 0 then Inl Null_deref
     else case fork_nodes k p of None \<Rightarrow> Inl Use_after_free | Some n \<Rightarrow> Inr n)"

definition fork_mod :: "ptr \<Rightarrow> (fork_d \<Rightarrow> fork_d) \<Rightarrow> kernel \<Rightarrow> kernel res" where
  "fork_mod p f k = rbind (fork_node p k) (\<lambda>n. Inr (k\<lparr>fork_nodes := (fork_nodes k)(p \<mapsto> f n)\<rparr>))"

definition fork_free :: "ptr \<Rightarrow> kernel \<Rightarrow> kernel res" where
  "fork_free p k = rbind (fork_node p k) (\<lambda>_. Inr (k\<lparr>fork_nodes := (fork_nodes k)(p := None)\<rparr>))"

section \<open>Saving a frame\<close>

text \<open>
  The trap frame of the parent, the registers the child starts with, waits in the list until the
  child runs. The new node becomes the head.
\<close>

definition add_fork_data_node :: "int \<Rightarrow> u64 list \<Rightarrow> kernel \<Rightarrow> (int \<times> kernel) res" where
  "add_fork_data_node new_pid tf k =
     (let (ok, k1) = kalloc k in
      if \<not> ok then Inr (-1, k1)
      else
        (let new = fresh k1;
             k2 = k1\<lparr>fresh := Suc new,
                     fork_nodes := (fork_nodes k1)(new \<mapsto>
                       \<lparr>fk_pid = new_pid, fk_trap_return = tf, fk_next = 0, fk_previous = 0\<rparr>)\<rparr> in
         if forked_data_list k2 = 0 then Inr (0, k2\<lparr>forked_data_list := new\<rparr>)
         else
           rbind (fork_mod (forked_data_list k2) (\<lambda>n. n\<lparr>fk_previous := new\<rparr>) k2) (\<lambda>k3.
           rbind (fork_mod new (\<lambda>n. n\<lparr>fk_next := forked_data_list k3\<rparr>) k3) (\<lambda>k4.
           Inr (0, k4\<lparr>forked_data_list := new\<rparr>)))))"

section \<open>Taking a frame\<close>

definition unlink_fork_node :: "ptr \<Rightarrow> kernel \<Rightarrow> kernel res" where
  "unlink_fork_node it k =
     rbind (fork_node it k) (\<lambda>n.
     let nx = fk_next n; pv = fk_previous n in
     if it = forked_data_list k \<and> nx = 0 \<and> pv = 0 then Inr (k\<lparr>forked_data_list := 0\<rparr>)
     else
       rbind (if nx \<noteq> 0 then fork_mod nx (\<lambda>n. n\<lparr>fk_previous := pv\<rparr>) k else Inr k) (\<lambda>k1.
       rbind (if pv \<noteq> 0 then fork_mod pv (\<lambda>n. n\<lparr>fk_next := nx\<rparr>) k1 else Inr k1) (\<lambda>k2.
       Inr (if it = forked_data_list k2 then k2\<lparr>forked_data_list := nx\<rparr> else k2))))"

text \<open>
  The loop of a forked process's first steps. Once its node is found and freed, \<^verbatim>\<open>init_fork\<close>
  jumps to user mode with the frame and does not come back. The number is a bound on the
  iterations.
\<close>

fun return_loop :: "nat \<Rightarrow> ptr \<Rightarrow> kernel \<Rightarrow> (u64 list option \<times> kernel) res" where
  "return_loop 0 it k = Inl No_return"
| "return_loop (Suc n) it k =
     (if it = 0 then Inr (None, k)
      else
        rbind (fork_node it k) (\<lambda>nd.
        if getpid k = fk_pid nd then
          rbind (unlink_fork_node it k) (\<lambda>k1. rbind (fork_free it k1) (\<lambda>k2. Inr (Some (fk_trap_return nd), k2)))
        else return_loop n (fk_next nd) k))"

definition return_from_trap_frame :: "kernel \<Rightarrow> (u64 list option \<times> kernel) res" where
  "return_from_trap_frame k = return_loop (Suc (fresh k)) (forked_data_list k) k"

section \<open>Well linked lists\<close>

text \<open>
  \<open>dseg h q p ns l e\<close>: the nodes from \<open>p\<close> up to \<open>e\<close> are \<open>ns\<close> (address, pid and frame of each), each
  one points back to the one before it, the first to \<open>q\<close>, and \<open>l\<close> is the last of \<open>q\<close> and the nodes.
\<close>

type_synonym saved = "ptr \<times> int \<times> u64 list"

fun dseg :: "(ptr \<rightharpoonup> fork_d) \<Rightarrow> ptr \<Rightarrow> ptr \<Rightarrow> saved list \<Rightarrow> ptr \<Rightarrow> ptr \<Rightarrow> bool" where
  "dseg h q p [] l e \<longleftrightarrow> p = e \<and> q = l"
| "dseg h q p (x # ns) l e \<longleftrightarrow> p = fst x \<and> p \<noteq> 0 \<and>
     (case h p of None \<Rightarrow> False
      | Some n \<Rightarrow> fk_pid n = fst (snd x) \<and> fk_trap_return n = snd (snd x) \<and> fk_previous n = q \<and> dseg h p (fk_next n) ns l e)"

definition forks :: "kernel \<Rightarrow> saved list \<Rightarrow> bool" where
  "forks k ns \<longleftrightarrow> (\<exists>l. dseg (fork_nodes k) 0 (forked_data_list k) ns l 0) \<and> distinct (map fst ns) \<and>
     dom (fork_nodes k) = fst ` set ns \<and> (\<forall>x \<in> set ns. fst x < fresh k)"

definition saved_pid :: "saved \<Rightarrow> int" where
  "saved_pid x = fst (snd x)"

lemma dseg_append:
  "dseg h q p (xs @ ys) l e \<longleftrightarrow> (\<exists>m r. dseg h q p xs m r \<and> dseg h m r ys l e)"
  by (induction xs arbitrary: q p) (auto split: option.splits)

lemma dseg_upd: "a \<notin> fst ` set ns \<Longrightarrow> dseg (h(a := v)) q p ns l e = dseg h q p ns l e"
  by (induction ns arbitrary: q p) (auto split: option.splits)

lemma dseg_head: "dseg h q p ns l 0 \<Longrightarrow> p = 0 \<longleftrightarrow> ns = []"
  by (cases ns) auto

lemma dseg_last: "dseg h 0 p ns l e \<Longrightarrow> l = 0 \<longleftrightarrow> ns = []"
  by (induction ns rule: rev_induct) (auto simp: dseg_append split: option.splits)

text \<open>The first node of a segment can be given another predecessor, the last one another successor.\<close>

lemma dseg_set_previous:
  assumes "dseg h q p ns l e" "ns \<noteq> []" "distinct (map fst ns)" "h p = Some n"
  shows "dseg (h(p \<mapsto> n\<lparr>fk_previous := q'\<rparr>)) q' p ns l e"
  using assms by (cases ns) (auto simp: dseg_upd)

lemma dseg_set_next:
  assumes "dseg h q p ns l e" "ns \<noteq> []" "distinct (map fst ns)" "h l = Some n"
  shows "dseg (h(l \<mapsto> n\<lparr>fk_next := e'\<rparr>)) q p ns l e'"
proof (cases ns rule: rev_cases)
  case (snoc xs x)
  with assms have "l = fst x" "l \<notin> fst ` set xs" by (auto simp: dseg_append split: option.splits)
  with snoc assms show ?thesis by (auto simp: dseg_append dseg_upd)
qed (use assms in simp)

lemma dseg_dom: "dseg h q p ns l e \<Longrightarrow> x \<in> set ns \<Longrightarrow> \<exists>n. h (fst x) = Some n \<and> fst x \<noteq> 0"
  by (induction ns arbitrary: q p) (auto split: option.splits)

lemma dseg_last_in: "dseg h q p ns l e \<Longrightarrow> ns \<noteq> [] \<Longrightarrow> l \<in> fst ` set ns"
  by (cases ns rule: rev_cases) (auto simp: dseg_append split: option.splits)

section \<open>The operations on well linked lists\<close>

lemma forks_fresh:
  assumes "forks k ns"
  shows "fresh k \<notin> fst ` set ns" "fork_nodes k (fresh k) = None"
proof -
  show "fresh k \<notin> fst ` set ns" using assms by (auto simp: forks_def)
  then show "fork_nodes k (fresh k) = None" using assms by (metis domIff forks_def)
qed

lemma forks_transfer:
  "forks k ns \<Longrightarrow> fork_nodes k' = fork_nodes k \<Longrightarrow> forked_data_list k' = forked_data_list k \<Longrightarrow> fresh k \<le> fresh k' \<Longrightarrow> forks k' ns"
  by (fastforce simp: forks_def)

lemma add_fork_data_node_forks:
  assumes f: "forks k ns" and a: "add_fork_data_node pid tf k = Inr (0, k')" and z: "0 < fresh k"
  shows "forks k' ((fresh k, pid, tf) # ns)" "fresh k' = Suc (fresh k)"
proof -
  obtain k1 where k1: "kalloc k = (True, k1)" using a by (auto simp: add_fork_data_node_def Let_def split: prod.split_asm if_split_asm)
  have e: "fork_nodes k1 = fork_nodes k" "forked_data_list k1 = forked_data_list k" "fresh k1 = fresh k"
    using k1 by (auto simp: kalloc_def Let_def split: prod.split_asm)
  obtain l where d: "dseg (fork_nodes k) 0 (forked_data_list k) ns l 0" using f by (auto simp: forks_def)
  have n: "fresh k \<notin> fst ` set ns" "distinct (map fst ns)" "dom (fork_nodes k) = fst ` set ns" "\<forall>x \<in> set ns. fst x < fresh k"
    using f by (auto simp: forks_def)
  show "forks k' ((fresh k, pid, tf) # ns)"
  proof (cases ns)
    case Nil
    then show ?thesis using a d n z k1 e by (auto simp: add_fork_data_node_def forks_def Let_def split: if_split_asm)
  next
    case (Cons x xs)
    let ?p = "forked_data_list k"
    from Cons d obtain nd where h: "?p = fst x" "?p \<noteq> 0" "fork_nodes k ?p = Some nd" by (auto split: option.splits)
    have ne: "?p \<noteq> fresh k" using h(1) n(1) Cons by auto
    have s: "dseg ((fork_nodes k)(?p \<mapsto> nd\<lparr>fk_previous := fresh k\<rparr>)) (fresh k) ?p ns l 0"
      by (rule dseg_set_previous [OF d _ n(2) h(3)]) (simp add: Cons)
    have k': "k' = k1\<lparr>fresh := Suc (fresh k), forked_data_list := fresh k, fork_nodes := (fork_nodes k)(?p \<mapsto> nd\<lparr>fk_previous := fresh k\<rparr>,
        fresh k \<mapsto> \<lparr>fk_pid = pid, fk_trap_return = tf, fk_next = ?p, fk_previous = 0\<rparr>)\<rparr>"
      using a k1 e h ne z by (auto simp: add_fork_data_node_def Let_def fork_mod_def fork_node_def fun_upd_twist)
    have "\<exists>l. dseg (fork_nodes k') 0 (forked_data_list k') ((fresh k, pid, tf) # ns) l 0"
      unfolding k' using s z n(1) by (auto simp: dseg_upd)
    moreover have "dom (fork_nodes k') = fst ` set ((fresh k, pid, tf) # ns)"
      unfolding k' using n(3) h by auto
    ultimately show ?thesis using n by (auto simp: forks_def k')
  qed
  show "fresh k' = Suc (fresh k)"
    using a k1 e by (auto simp: add_fork_data_node_def Let_def fork_mod_def res_simps split: if_split_asm)
qed

text \<open>Unlinking: the three writes take the node out in both directions, and the free removes it.\<close>

lemma unlink_fork_node_forks:
  assumes f: "forks k (xs @ x # ys)"
  shows "\<exists>k1 k2. unlink_fork_node (fst x) k = Inr k1 \<and> fork_free (fst x) k1 = Inr k2 \<and> forks k2 (xs @ ys) \<and>
     k2 = k\<lparr>fork_nodes := fork_nodes k2, forked_data_list := forked_data_list k2\<rparr>"
proof -
  let ?h = "fork_nodes k" and ?p = "fst x"
  obtain l m n where d: "dseg ?h 0 (forked_data_list k) xs m ?p" "?p \<noteq> 0" "?h ?p = Some n" "fk_previous n = m"
      "dseg ?h ?p (fk_next n) ys l 0"
    using f by (auto simp: forks_def dseg_append split: option.splits)
  have D: "distinct (map fst xs)" "distinct (map fst ys)" "?p \<notin> fst ` set xs" "?p \<notin> fst ` set ys" "fst ` set xs \<inter> fst ` set ys = {}"
    "dom ?h = fst ` set (xs @ x # ys)" "\<forall>y \<in> set (xs @ x # ys). fst y < fresh k"
    using f by (auto simp: forks_def)
  have nx: "fk_next n = 0 \<longleftrightarrow> ys = []" using dseg_head [OF d(5)] .
  have pv: "m = 0 \<longleftrightarrow> xs = []" using dseg_last [OF d(1)] .
  have hd: "?p = forked_data_list k \<longleftrightarrow> xs = []"
    using d(1) D(3) by (cases xs) auto
  define h1 where "h1 = (if ys = [] then ?h else ?h(fk_next n \<mapsto> (the (?h (fk_next n)))\<lparr>fk_previous := m\<rparr>))"
  define h2 where "h2 = (if xs = [] then h1 else h1(m \<mapsto> (the (h1 m))\<lparr>fk_next := fk_next n\<rparr>))"
  have ny: "fk_next n \<in> fst ` set ys \<and> (\<exists>a. ?h (fk_next n) = Some a)" if "ys \<noteq> []"
    using d(5) that by (cases ys) (auto split: option.splits)
  have mx: "m \<in> fst ` set xs \<and> (\<exists>a. ?h m = Some a)" if "xs \<noteq> []"
    using dseg_last_in [OF d(1) that] dseg_dom [OF d(1)] by auto
  have mn: "m \<noteq> fk_next n" if "xs \<noteq> []" "ys \<noteq> []" using mx ny D(5) that by blast
  have s1: "(if fk_next n \<noteq> 0 then fork_mod (fk_next n) (\<lambda>n. n\<lparr>fk_previous := m\<rparr>) k else Inr k) = Inr (k\<lparr>fork_nodes := h1\<rparr>)"
    using nx ny by (auto simp: fork_mod_def fork_node_def h1_def)
  have "h1 m = ?h m" if "xs \<noteq> []" using mn that by (simp add: h1_def)
  then have s2: "(if m \<noteq> 0 then fork_mod m (\<lambda>n. n\<lparr>fk_next := fk_next n'\<rparr>) (k\<lparr>fork_nodes := h1\<rparr>) else Inr (k\<lparr>fork_nodes := h1\<rparr>)) =
      Inr (k\<lparr>fork_nodes := if xs = [] then h1 else h1(m \<mapsto> (the (h1 m))\<lparr>fk_next := fk_next n'\<rparr>)\<rparr>)" for n'
    using pv mx by (auto simp: fork_mod_def fork_node_def)
  have f: "fork_node ?p k = Inr n" using d(2,3) by (simp add: fork_node_def)
  have u: "unlink_fork_node ?p k = Inr (k\<lparr>fork_nodes := h2, forked_data_list := (if xs = [] then fk_next n else forked_data_list k)\<rparr>)"
    unfolding unlink_fork_node_def f rbind.simps Let_def d(4)
    unfolding s1 s2 rbind.simps kernel.select_convs kernel.update_convs
    unfolding hd nx pv h2_def
    by (simp add: h1_def iffD2 [OF nx] hd)
  have p2: "h2 ?p = Some n" using d(3) ny mx D(3,4) by (auto simp: h2_def h1_def)
  have y1: "\<exists>l. dseg h1 m (fk_next n) ys l 0"
  proof (cases "ys = []")
    case False
    then obtain a where a: "?h (fk_next n) = Some a" using ny by auto
    show ?thesis using dseg_set_previous [OF d(5) False D(2) a, of m] a False by (auto simp: h1_def)
  qed (use nx in \<open>simp add: h1_def\<close>)
  have x1: "dseg h1 0 (forked_data_list k) xs m ?p"
  proof (cases "ys = []")
    case False
    then have "fk_next n \<notin> fst ` set xs" using ny D(5) by blast
    then show ?thesis using d(1) by (simp add: h1_def dseg_upd)
  qed (use d(1) in \<open>simp add: h1_def\<close>)
  have y2: "\<exists>l. dseg h2 m (fk_next n) ys l 0"
  proof (cases "xs = []")
    case False
    then have "m \<notin> fst ` set ys" using mx D(5) by blast
    then show ?thesis using y1 by (simp add: h2_def dseg_upd)
  qed (use y1 in \<open>simp add: h2_def\<close>)
  have x2: "dseg h2 0 (if xs = [] then fk_next n else forked_data_list k) xs m (fk_next n)"
  proof (cases "xs = []")
    case False
    then obtain a where "h1 m = Some a" using mx mn by (auto simp: h1_def)
    with False dseg_set_next [OF x1 False D(1)] show ?thesis by (simp add: h2_def)
  qed (use pv in simp)
  define k2 where "k2 = k\<lparr>fork_nodes := h2(?p := None), forked_data_list := (if xs = [] then fk_next n else forked_data_list k)\<rparr>"
  have dm: "dom h2 = dom ?h" using ny mx by (auto simp: h2_def h1_def)
  have "\<exists>l. dseg h2 0 (forked_data_list k2) (xs @ ys) l 0" 
    using x2 y2 unfolding dseg_append k2_def kernel.select_convs kernel.update_convs by (cases "xs = []") fastforce+
  then have "\<exists>l. dseg (fork_nodes k2) 0 (forked_data_list k2) (xs @ ys) l 0"
    using dseg_upd [of ?p "xs @ ys" h2 None] D(3,4) by (simp add: k2_def image_Un)
  moreover have "dom (fork_nodes k2) = fst ` set (xs @ ys)" 
  proof -
    have "dom h2 - {?p} = fst ` set (xs @ ys)" using D(3,4) unfolding dm D(6) by (simp add: image_Un)
    then show ?thesis by (simp add: k2_def)
  qed
  ultimately have "forks k2 (xs @ ys)" using D by (auto simp: forks_def k2_def)
  moreover have "fork_free ?p (k\<lparr>fork_nodes := h2, forked_data_list := (if xs = [] then fk_next n else forked_data_list k)\<rparr>) = Inr k2"
    using p2 d(2) by (simp add: fork_free_def fork_node_def k2_def)
  ultimately show ?thesis using u by (intro exI [of _ "k\<lparr>fork_nodes := h2, forked_data_list := (if xs = [] then fk_next n else forked_data_list k)\<rparr>"] exI [of _ k2])
      (simp add: k2_def)
qed

text \<open>The loop passes the nodes of other processes and stops at the first one of the running process.\<close>

lemma return_loop_pass:
  "dseg (fork_nodes k) q p ns l e \<Longrightarrow> (\<forall>x \<in> set ns. saved_pid x \<noteq> getpid k) \<Longrightarrow>
   return_loop (length ns + n) p k = return_loop n e k"
  by (induction ns arbitrary: q p) (auto simp: fork_node_def saved_pid_def split: option.splits)

lemma forks_length: "forks k ns \<Longrightarrow> length ns \<le> fresh k"
proof -
  assume f: "forks k ns"
  then have "fst ` set ns \<subseteq> {..<fresh k}" by (auto simp: forks_def)
  then have "card (fst ` set ns) \<le> fresh k" using subset_eq_atLeast0_lessThan_card by (simp add: lessThan_atLeast0)
  with f show ?thesis using distinct_card [of "map fst ns"] by (simp add: forks_def)
qed

lemma return_from_trap_frame_finds:
  assumes f: "forks k (xs @ x # ys)" and p: "saved_pid x = getpid k" and o: "\<forall>y \<in> set xs. saved_pid y \<noteq> getpid k"
  shows "\<exists>k'. return_from_trap_frame k = Inr (Some (snd (snd x)), k') \<and> forks k' (xs @ ys) \<and>
    k' = k\<lparr>fork_nodes := fork_nodes k', forked_data_list := forked_data_list k'\<rparr>"
proof -
  obtain l m n where d: "dseg (fork_nodes k) 0 (forked_data_list k) xs m (fst x)" "fst x \<noteq> 0" "fork_nodes k (fst x) = Some n"
      "fk_pid n = fst (snd x)" "fk_trap_return n = snd (snd x)"
    using f by (auto simp: forks_def dseg_append split: option.splits)
  obtain j where j: "Suc (fresh k) = length xs + Suc j" using forks_length [OF f] by (auto simp: le_iff_add)
  have "return_from_trap_frame k = return_loop (Suc j) (fst x) k"
    unfolding return_from_trap_frame_def j by (rule return_loop_pass [OF d(1) o])
  then show ?thesis using unlink_fork_node_forks [OF f] d p by (auto simp: fork_node_def saved_pid_def)
qed

lemma return_from_trap_frame_none:
  assumes f: "forks k ns" and o: "\<forall>y \<in> set ns. saved_pid y \<noteq> getpid k"
  shows "return_from_trap_frame k = Inr (None, k)"
proof -
  obtain l where d: "dseg (fork_nodes k) 0 (forked_data_list k) ns l 0" using f by (auto simp: forks_def)
  obtain j where j: "Suc (fresh k) = length ns + Suc j" using forks_length [OF f] by (auto simp: le_iff_add)
  show ?thesis unfolding return_from_trap_frame_def j using return_loop_pass [OF d o, of "Suc j"] by simp
qed

text \<open>Both together, over the map from pids to frames that the list stands for.\<close>

definition frames_of :: "saved list \<Rightarrow> int \<rightharpoonup> u64 list" where
  "frames_of ns = map_of (map snd ns)"

lemma return_from_trap_frame_forks:
  assumes f: "forks k ns" and d: "distinct (map saved_pid ns)"
  shows "\<exists>k'. return_from_trap_frame k = Inr (frames_of ns (getpid k), k') \<and> forks k' (filter (\<lambda>x. saved_pid x \<noteq> getpid k) ns) \<and>
    k' = k\<lparr>fork_nodes := fork_nodes k', forked_data_list := forked_data_list k'\<rparr>"
proof (cases "\<exists>x \<in> set ns. saved_pid x = getpid k")
  case True
  then obtain xs x ys where n: "ns = xs @ x # ys" "saved_pid x = getpid k" "\<forall>y \<in> set xs. saved_pid y \<noteq> getpid k"
    using split_list_first_prop [of ns "\<lambda>x. saved_pid x = getpid k"] by blast
  have ys: "\<forall>y \<in> set ys. saved_pid y \<noteq> getpid k" using d n by (metis (no_types, lifting) distinct.simps(2) distinct_append image_eqI list.set_map list.simps(9) map_append)
  have "frames_of ns (getpid k) = Some (snd (snd x))"
    using n by (cases x) (force simp: frames_of_def saved_pid_def map_add_def split: option.splits dest!: map_of_SomeD)
  moreover have "filter (\<lambda>x. saved_pid x \<noteq> getpid k) ns = xs @ ys" using n ys by (auto simp: filter_id_conv)
  ultimately show ?thesis using return_from_trap_frame_finds [OF _ n(2,3)] f n(1) by simp
next
  case False
  then have "frames_of ns (getpid k) = None" by (auto simp: frames_of_def saved_pid_def map_of_eq_None_iff)
  moreover have "filter (\<lambda>x. saved_pid x \<noteq> getpid k) ns = ns" using False by (auto simp: filter_id_conv)
  ultimately show ?thesis using return_from_trap_frame_none [OF f] f False by auto
qed

end
