(* ===== verification/Process.thy ===== *)
theory Process
  imports Semaphore ForkList
begin

text \<open>
  Processes: \<^verbatim>\<open>src/kernel/process/process_api.c\<close> and the start-up of \<^verbatim>\<open>process.c\<close>.

  \<open>find_app\<close>, the table of the programs linked into the kernel, is generated by the build: it
  is an argument. The file-system part of a process (the \<^verbatim>\<open>VIRTMACHINE\<close> blocks) is in the
  theory of the descriptor tables, and the register context is not part of the state.
  \<^verbatim>\<open>execve\<close> is not modelled.
\<close>

section \<open>Constants\<close>

definition MAX_SIZE_NAME :: nat where "MAX_SIZE_NAME = 256"
definition MAX_NB_PROCESS :: int where "MAX_NB_PROCESS = 1000"
definition MAXPRIO :: int where "MAXPRIO = 256"
definition MINPRIO :: int where "MINPRIO = 1"
definition PROCESS_SETUP_SIZE :: u64 where "PROCESS_SETUP_SIZE = 2"
definition idleId :: int where "idleId = 1"
definition kernelId :: int where "kernelId = 0"

section \<open>Priorities\<close>

definition getprio :: "int \<Rightarrow> kernel \<Rightarrow> int res" where
  "getprio pid k =
     (let p = get_process_struct_of_pid pid k in
      if p = 0 then Inr (-1)
      else rbind (validate_action_process_valid p k) (\<lambda>v.
        if v < 0 then Inr (-1) else rbind (dref p k) (\<lambda>pr. Inr (uint (p_prio pr)))))"

definition chprio :: "int \<Rightarrow> int \<Rightarrow> kernel \<Rightarrow> (int \<times> kernel) res" where
  "chprio pid newprio k =
     (let p = get_process_struct_of_pid pid k in
      if p = 0 then Inr (-1, k)
      else if newprio > MAXPRIO \<or> newprio < MINPRIO then Inr (-1, k)
      else
        rbind (validate_action_process_valid p k) (\<lambda>v.
        if v < 0 then Inr (-1, k)
        else
          rbind (dref p k) (\<lambda>pr.
          rbind (pmod p (\<lambda>pr. pr\<lparr>p_prio := word_of_int newprio\<rparr>) k) (\<lambda>k1.
          rbind (case p_state pr of
              ACTIVATABLE \<Rightarrow> rbind (kq_del p k1) (\<lambda>k2. rbind (kq_add p Q_act k2) scheduler)
            | ACTIF \<Rightarrow> scheduler k1
            | BLOCKEDQUEUE \<Rightarrow>
                rbind (kq_del p k1) (\<lambda>k2.
                case m_blocked_head (p_message pr) of None \<Rightarrow> Inl Null_deref | Some q \<Rightarrow> kq_add p q k2)
            | BLOCKEDIO \<Rightarrow> rbind (kq_del p k1) (kq_add p Q_io)
            | _ \<Rightarrow> Inr k1) (\<lambda>k3.
          Inr (uint (p_prio pr), k3))))))"

definition leave_queue_process_if_needed :: "ptr \<Rightarrow> kernel \<Rightarrow> (int \<times> kernel) res" where
  "leave_queue_process_if_needed p k =
     (if p = 0 then Inr (-1, k)
      else
        rbind (dref p k) (\<lambda>pr.
        if p_state pr = BLOCKEDSEMAPHORE then
          rbind (proc_kill_diag (p_semaphore_id pr) KILL_CALL (p_pid pr) k) (\<lambda>(r, k1). Inr (if r < 0 then -1 else 0, k1))
        else rbind (kq_del p k) (\<lambda>k1. Inr (0, k1))))"

definition check_if_new_prio_is_higher_and_call_scheduler :: "int \<Rightarrow> bool \<Rightarrow> int \<Rightarrow> kernel \<Rightarrow> (int \<times> kernel) res" where
  "check_if_new_prio_is_higher_and_call_scheduler newprio current_or_queue prio_to_compare_queue k =
     (if \<not> (newprio \<le> MAXPRIO \<and> newprio \<ge> MINPRIO) then Inr (-1, k)
      else if current_or_queue then
        rbind (getprio (getpid k) k) (\<lambda>cur.
        if cur < 0 then Inr (-1, k)
        else if cur < newprio then rbind (scheduler k) (\<lambda>k1. Inr (0, k1))
        else Inr (0, k))
      else if prio_to_compare_queue < 0 then Inr (-1, k)
      else if prio_to_compare_queue > newprio then rbind (scheduler k) (\<lambda>k1. Inr (0, k1))
      else Inr (0, k))"

section \<open>The end of a process\<close>

text \<open>A recursion over the tree: every process object is met at most twice.\<close>

definition tree_fuel :: "kernel \<Rightarrow> nat" where
  "tree_fuel k = 2 * fresh k + 2"

definition free_child_zombie_process :: "ptr \<Rightarrow> kernel \<Rightarrow> (int \<times> kernel) res" where
  "free_child_zombie_process p k =
     (if p = 0 then Inr (-1, k)
      else
        rbind (dref p k) (\<lambda>pr.
        if p_state pr \<noteq> ZOMBIE then Inr (-1, k)
        else if p_pid pr = getpid k then rbind (pmod p (\<lambda>pr. pr\<lparr>p_state := KILLED\<rparr>) k) (\<lambda>k1. Inr (0, k1))
        else free_process_memory p DELETE_ALL k))"

fun free_zombies :: "nat \<Rightarrow> ptr \<Rightarrow> kernel \<Rightarrow> (int \<times> kernel) res" where
  "free_zombies 0 t k = Inl No_return"
| "free_zombies (Suc n) t k =
     (if t = 0 then Inr (0, k)
      else
        rbind (dref t k) (\<lambda>tp.
        if p_state tp = ZOMBIE then
          rbind (if p_children_head tp = 0 \<and> p_children_tail tp = 0 then Inr (0, k)
                 else free_zombies n (p_children_head tp) k) (\<lambda>(_, k1).
          rbind (dref t k1) (\<lambda>tp1.
          rbind (free_child_zombie_process t k1) (\<lambda>(r, k2).
          if r < 0 then Inr (-1, k2) else free_zombies n (p_next_sibling tp1) k2)))
        else free_zombies n (p_next_sibling tp) k))"

definition make_children_orphans_and_kill_zombies :: "ptr \<Rightarrow> kernel \<Rightarrow> (int \<times> kernel) res" where
  "make_children_orphans_and_kill_zombies p k =
     (if p = 0 then Inr (-1, k)
      else
        rbind (dref p k) (\<lambda>pr.
        if p_children_head pr = 0 \<and> p_children_tail pr = 0 then Inr (0, k)
        else free_zombies (tree_fuel k) (p_children_head pr) k))"

definition turn_current_process_into_a_zombie_or_kill_it :: "bool \<Rightarrow> int \<Rightarrow> kernel \<Rightarrow> (int \<times> kernel) res" where
  "turn_current_process_into_a_zombie_or_kill_it current_or_custom pid k =
     (let p = get_process_struct_of_pid (if current_or_custom then getpid k else pid) k in
      if p = 0 then Inr (-1, k)
      else
        rbind (make_children_orphans_and_kill_zombies p k) (\<lambda>(r, k1).
        if r < 0 then Inr (-1, k1)
        else
          rbind (pmod p (\<lambda>pr. pr\<lparr>p_state := ZOMBIE\<rparr>) k1) (\<lambda>k2.
          rbind (dref p k2) (\<lambda>pr.
          if p_parent pr = 0 then free_child_zombie_process p k2
          else
            rbind (dref (p_parent pr) k2) (\<lambda>pp.
            if p_state pp = ZOMBIE then free_child_zombie_process p k2
            else if p_state pp = BLOCKEDWAITCHILD then
              rbind (pmod (p_parent pr) (\<lambda>pp. pp\<lparr>p_state := ACTIVATABLE\<rparr>) k2) (\<lambda>k3.
              rbind (kq_add (p_parent pr) Q_act k3) (\<lambda>k4. Inr (0, k4)))
            else Inr (0, k2))))))"

text \<open>\<^verbatim>\<open>exit(-1)\<close> of the kernel stops the machine.\<close>

definition exit_process :: "int \<Rightarrow> kernel \<Rightarrow> kernel res" where
  "exit_process retval k =
     rbind (validate_action_process_valid (get_process_struct_of_pid (getpid k) k) k) (\<lambda>v.
     if v < 0 then Inl Assert_fail
     else
       rbind (turn_current_process_into_a_zombie_or_kill_it True 0 k) (\<lambda>(r, k1).
       if r < 0 then Inl Assert_fail
       else
         rbind (pmod (get_process_struct_of_pid (getpid k1) k1) (\<lambda>pr. pr\<lparr>p_return_value := retval\<rparr>) k1) scheduler))"

text \<open>Unlinking a child from the list of its parent, and freeing it.\<close>

definition unlink_child :: "ptr \<Rightarrow> ptr \<Rightarrow> ptr \<Rightarrow> kernel \<Rightarrow> kernel res" where
  "unlink_child p before parent k =
     rbind (dref p k) (\<lambda>pr.
     rbind (dref parent k) (\<lambda>pp.
     if p = p_children_head pp \<and> p = p_children_tail pp then
       pmod parent (\<lambda>pp. pp\<lparr>p_children_tail := 0, p_children_head := 0\<rparr>) k
     else if p = p_children_head pp then
       pmod parent (\<lambda>pp. pp\<lparr>p_children_head := p_next_sibling pr\<rparr>) k
     else if p = p_children_tail pp then
       rbind (pmod before (\<lambda>b. b\<lparr>p_next_sibling := 0\<rparr>) k) (pmod parent (\<lambda>pp. pp\<lparr>p_children_tail := before\<rparr>))
     else pmod before (\<lambda>b. b\<lparr>p_next_sibling := p_next_sibling pr\<rparr>) k))"

definition free_process_arg_and_fix_tree_link :: "ptr \<Rightarrow> ptr \<Rightarrow> kernel \<Rightarrow> (int \<times> kernel) res" where
  "free_process_arg_and_fix_tree_link p before k =
     rbind (dref p k) (\<lambda>pr.
     if p_parent pr = 0 then Inr (-1, k)
     else if before = 0 then Inr (-1, k)
     else
       rbind (dref (p_parent pr) k) (\<lambda>pp.
       if p_children_head pp = 0 \<or> p_children_tail pp = 0 then Inr (-1, k)
       else rbind (unlink_child p before (p_parent pr) k) (free_child_zombie_process p)))"

section \<open>Creation\<close>

text \<open>A zeroed process structure.\<close>

definition zero_proc_mem :: proc_mem where
  "zero_proc_mem = \<lparr>page_table_level_2 = 0, page_tables_lvl_1_list = None,
     mem_info = \<lparr>code_usage = 0, stack_usage = 0, heap_usage = 0, shared_pages_usage = 0, sbrk_pointer = 0,
       start_heap_add = 0\<rparr>, stack_shift = 0, sscratch_frame = 0\<rparr>"

definition zero_process :: process where
  "zero_process = \<lparr>p_pid = 0, p_name = [], p_state = ACTIF, p_ssize = 0, p_prio = 0, p_parent = 0,
     p_children_head = 0, p_children_tail = 0, p_next_sibling = 0, p_link = None, p_return_value = 0,
     p_mem = zero_proc_mem, p_shared_table = None, p_shared_pages = None, p_released = [], p_wake_time = 0,
     p_message = \<lparr>m_value = 0, m_status = RECEIVED, m_blocked_head = None\<rparr>, p_sem_signal = 0, p_semaphore_id = 0,
     p_input_type = CONSOLE_INPUT\<rparr>"

text \<open>
  Allocation of the structure, its pid and its place in the process table. \<open>None\<close>: the
  allocation failed.
\<close>

definition new_process :: "u16 \<Rightarrow> kernel \<Rightarrow> ptr option \<times> kernel" where
  "new_process prio k =
     (let (ok, k1) = kalloc k in
      if \<not> ok then (None, k1)
      else
        (let p = fresh k1; (pid, k2) = increment_pid_and_get_new_pid k1 in
         (Some p, k2\<lparr>heap := (heap k2)(p \<mapsto> zero_process\<lparr>p_pid := pid, p_prio := prio\<rparr>), fresh := Suc p,
                    pid_table := (pid_table k2)(pid \<mapsto> p)\<rparr>)))"

definition process_name_copy :: "ptr \<Rightarrow> string \<Rightarrow> nat \<Rightarrow> kernel \<Rightarrow> (int \<times> kernel) res" where
  "process_name_copy p name size_arg k =
     (let sz = (if size_arg = 0 then length name else size_arg) in
      if sz > MAX_SIZE_NAME then Inr (-1, k)
      else
        (let (ok, k1) = kalloc k in
         if \<not> ok then Inr (-1, k1)
         else rbind (pmod p (\<lambda>pr. pr\<lparr>p_name := take sz name\<rparr>) k1) (\<lambda>k2. Inr (0, k2))))"

text \<open>The new process becomes the last child of its parent, if it has one.\<close>

definition link_to_parent :: "ptr \<Rightarrow> ptr \<Rightarrow> kernel \<Rightarrow> kernel res" where
  "link_to_parent p parent k =
     rbind (pmod p (\<lambda>pr. pr\<lparr>p_parent := parent\<rparr>) k) (\<lambda>k1.
     rbind (if parent = 0 then Inr k1
            else
              rbind (dref parent k1) (\<lambda>pp.
              if p_children_tail pp \<noteq> 0 then
                rbind (pmod (p_children_tail pp) (\<lambda>c. c\<lparr>p_next_sibling := p\<rparr>) k1)
                  (pmod parent (\<lambda>pp. pp\<lparr>p_children_tail := p\<rparr>))
              else pmod parent (\<lambda>pp. pp\<lparr>p_children_head := p, p_children_tail := p\<rparr>) k1))
       (pmod p (\<lambda>pr. pr\<lparr>p_children_head := 0, p_children_tail := 0, p_next_sibling := 0\<rparr>)))"

text \<open>Memory of a new process: an operation on its memory and the machine's.\<close>

definition with_memory ::
    "ptr \<Rightarrow> (proc_mem \<Rightarrow> mm \<Rightarrow> (int \<times> proc_mem \<times> mm) res) \<Rightarrow> kernel \<Rightarrow> (int \<times> kernel) res" where
  "with_memory p f k =
     rbind (dref p k) (\<lambda>pr.
     rbind (f (p_mem pr) (kmm k)) (\<lambda>(r, pm, m).
       Inr (r, k\<lparr>kmm := m, heap := (heap k)(p \<mapsto> pr\<lparr>p_mem := pm\<rparr>)\<rparr>)))"

text \<open>The kernel stack of a new process; \<open>None\<close> when no frame is left.\<close>

definition interrupt_frame :: "ptr \<Rightarrow> kernel \<Rightarrow> (bool \<times> kernel) res" where
  "interrupt_frame p k =
     (let (fr, f) = get_frame (frames (kmm k)); k1 = k\<lparr>kmm := (kmm k)\<lparr>frames := f\<rparr>\<rparr> in
      if fr = 0 then Inr (False, k1)
      else rbind (pmod p (\<lambda>pr. pr\<lparr>p_mem := (p_mem pr)\<lparr>sscratch_frame := fr\<rparr>\<rparr>) k1) (\<lambda>k2. Inr (True, k2)))"

text \<open>The checks at the head of \<^verbatim>\<open>start\<close> and \<^verbatim>\<open>start_virtual\<close>; the process counter is raised first.\<close>

definition start_checks :: "string option \<Rightarrow> u64 \<Rightarrow> int \<Rightarrow> kernel \<Rightarrow> (bool \<times> kernel) res" where
  "start_checks name ssize prio k =
     (if name = None then Inr (False, k)
      else if nb_proc_running k + 1 > MAX_NB_PROCESS then Inr (False, k)
      else
        (let k1 = k\<lparr>nb_proc_running := nb_proc_running k + 1\<rparr> in
         rbind (if getpid k1 \<noteq> -1 then validate_action_process_valid (get_process_struct_of_pid (getpid k1) k1) k1 else Inr 0) (\<lambda>v.
         Inr (\<not> (v < 0) \<and> prio \<le> MAXPRIO \<and> prio \<ge> MINPRIO \<and> ssize > 0, k1))))"

text \<open>The end of a creation: state, queue, and the scheduler if the new priority is higher.\<close>

definition activate_new :: "ptr \<Rightarrow> kernel \<Rightarrow> (int \<times> kernel) res" where
  "activate_new p k =
     rbind (pmod p (\<lambda>pr. pr\<lparr>p_return_value := 0, p_sem_signal := 0, p_state := ACTIVATABLE\<rparr>) k) (\<lambda>k1.
     rbind (kq_add p Q_act k1) (\<lambda>k2.
     rbind (dref p k2) (\<lambda>pr.
     rbind (check_if_new_prio_is_higher_and_call_scheduler (uint (p_prio pr)) True 0 k2) (\<lambda>(_, k3).
       Inr (p_pid pr, k3)))))"

definition start_virtual ::
    "(string \<Rightarrow> (u64 \<times> u64) option) \<Rightarrow> string option \<Rightarrow> u64 \<Rightarrow> int \<Rightarrow> kernel \<Rightarrow> (int \<times> kernel) res" where
  "start_virtual find_app name ssize prio k =
     rbind (start_checks name ssize prio k) (\<lambda>(good, k1).
     if \<not> good then Inr (-1, k1)
     else
       (case find_app (the name) of
          None \<Rightarrow> Inr (-1, k1)
        | Some (app_start, app_end) \<Rightarrow>
            (case new_process (word_of_int prio) k1 of
               (None, k2) \<Rightarrow> Inr (-1, k2)
             | (Some p, k2) \<Rightarrow>
                 rbind (process_name_copy p (the name) 0 k2) (\<lambda>(r, k3).
                 if r < 0 then Inr (-1, k3)
                 else
                   rbind (pmod p (\<lambda>pr. pr\<lparr>p_ssize := ucast (ssize + PROCESS_SETUP_SIZE)\<rparr>) k3) (\<lambda>k4.
                   rbind (with_memory p (process_memory_allocator (kernel_base_page_table k4) app_start app_end
                            (unat (ucast (ssize + PROCESS_SETUP_SIZE) :: u32))) k4) (\<lambda>(r, k5).
                   if r < 0 then Inr (-1, k5)
                   else
                     (let (ok, k6) = kalloc k5 in
                      if \<not> ok then Inr (-1, k6)
                      else
                        (let heap_start = 0x40000000 + FRAME_SIZE * of_nat (STACK_FRAME_SIZE * PT_SIZE) in
                         rbind (pmod p (\<lambda>pr. pr\<lparr>p_mem := (p_mem pr)\<lparr>stack_shift := of_nat (STACK_FRAME_SIZE * PT_SIZE),
                                  mem_info := (mem_info (p_mem pr))\<lparr>sbrk_pointer := heap_start, start_heap_add := heap_start\<rparr>\<rparr>\<rparr>) k6) (\<lambda>k7.
                         rbind (interrupt_frame p k7) (\<lambda>(ok, k8).
                         if \<not> ok then Inr (-1, k8)
                         else
                           rbind (link_to_parent p (get_process_struct_of_pid (getpid k8) k8) k8)
                             (activate_new p)))))))))))"

text \<open>
  A kernel process has no program image: \<^verbatim>\<open>process_memory_allocator\<close> reads the bounds of the
  image through the null \<^verbatim>\<open>app_pointer\<close> as soon as the tables are set up.
\<close>

definition start :: "string option \<Rightarrow> u64 \<Rightarrow> int \<Rightarrow> kernel \<Rightarrow> (int \<times> kernel) res" where
  "start name ssize prio k =
     rbind (start_checks name ssize prio k) (\<lambda>(good, k1).
     if \<not> good then Inr (-1, k1)
     else
       (case new_process (word_of_int prio) k1 of
          (None, k2) \<Rightarrow> Inr (-1, k2)
        | (Some p, k2) \<Rightarrow>
            rbind (process_name_copy p (the name) 0 k2) (\<lambda>(r, k3).
            if r < 0 then Inr (-1, k3)
            else
              rbind (pmod p (\<lambda>pr. pr\<lparr>p_ssize := ucast (ssize + PROCESS_SETUP_SIZE)\<rparr>) k3) (\<lambda>k4.
              rbind (with_memory p (init_mem_proc (kernel_base_page_table k4)) k4) (\<lambda>(r, k5).
              if r < 0 then Inr (-1, k5) else Inl Null_deref)))))"

section \<open>Fork\<close>

fun acquire_all :: "ptr \<Rightarrow> string list \<Rightarrow> kernel \<Rightarrow> kernel res" where
  "acquire_all p [] k = Inr k"
| "acquire_all p (key # keys) k = rbind (shm_acquire p key k) (\<lambda>(_, k1). acquire_all p keys k1)"

definition copy_process_memory :: "ptr \<Rightarrow> ptr \<Rightarrow> kernel \<Rightarrow> (int \<times> kernel) res" where
  "copy_process_memory new old k =
     rbind (dref old k) (\<lambda>op.
     rbind (with_memory new (copy_private_memory (kernel_base_page_table k) (p_mem op)) k) (\<lambda>(r, k1).
     if r < 0 then Inr (-1, k1)
     else
       (case p_shared_pages op of
          Some pages \<Rightarrow> rbind (acquire_all new (map sp_key pages) k1) (\<lambda>k2. Inr (0, k2))
        | None \<Rightarrow> rbind (pmod new (\<lambda>pr. pr\<lparr>p_shared_pages := None\<rparr>) k1) (\<lambda>k2. Inr (0, k2)))))"

definition fork :: "int \<Rightarrow> u64 list \<Rightarrow> kernel \<Rightarrow> (int \<times> kernel) res" where
  "fork parent_pid tf k =
     (let parent = get_process_struct_of_pid parent_pid k in
      rbind (if getpid k \<noteq> -1 then validate_action_process_valid parent k else Inr 0) (\<lambda>v.
      if v \<noteq> 0 then Inr (-1, k)
      else
        (case new_process 0 k of
           (None, k1) \<Rightarrow> Inr (-1, k1)
         | (Some p, k1) \<Rightarrow>
             rbind (dref parent k1) (\<lambda>pp.
             rbind (pmod p (\<lambda>pr. pr\<lparr>p_prio := p_prio pp\<rparr>) k1) (\<lambda>k2.
             rbind (process_name_copy p (p_name pp) 0 k2) (\<lambda>(r, k3).
             if r < 0 then Inr (-1, k3)
             else
               rbind (pmod p (\<lambda>pr. pr\<lparr>p_ssize := p_ssize pp\<rparr>) k3) (\<lambda>k4.
               rbind (copy_process_memory p parent k4) (\<lambda>(r, k5).
               if r < 0 then Inr (-1, k5)
               else
                 (let (ok, k6) = kalloc k5 in
                  if \<not> ok then Inr (-1, k6)
                  else
                    rbind (interrupt_frame p k6) (\<lambda>(ok, k7).
                    if \<not> ok then Inr (-1, k7)
                    else
                      rbind (dref p k7) (\<lambda>pr.
                      rbind (add_fork_data_node (p_pid pr) tf k7) (\<lambda>(r, k8).
                      if r < 0 then Inr (-1, k8)
                      else
                        rbind (pmod p (\<lambda>pr. pr\<lparr>p_input_type := p_input_type pp\<rparr>) k8) (\<lambda>k9.
                        rbind (link_to_parent p parent k9) (activate_new p))))))))))))))"

section \<open>Waiting for a child\<close>

text \<open>
  A wait either blocks, and is then resumed with the children seen so far, or returns a pid (or
  -1) and the return value it stores through \<^verbatim>\<open>retvalp\<close>.
\<close>

datatype waiting = W_blocked "(ptr \<times> ptr) option" | W_return int "int option"

text \<open>The first child that satisfies \<open>P\<close>, with the one before it (itself when it is the first).\<close>

fun find_child :: "nat \<Rightarrow> (process \<Rightarrow> bool) \<Rightarrow> ptr \<Rightarrow> ptr \<Rightarrow> kernel \<Rightarrow> (ptr \<times> ptr) res" where
  "find_child 0 P before t k = Inl No_return"
| "find_child (Suc n) P before t k =
     (if t = 0 then Inr (before, 0)
      else rbind (dref t k) (\<lambda>tp. if P tp then Inr (before, t) else find_child n P t (p_next_sibling tp) k))"

definition block_on_child :: "(ptr \<times> ptr) option \<Rightarrow> kernel \<Rightarrow> (waiting \<times> kernel) res" where
  "block_on_child resume k =
     rbind (pmod (get_process_struct_of_pid (getpid k) k) (\<lambda>pr. pr\<lparr>p_state := BLOCKEDWAITCHILD\<rparr>) k) (\<lambda>k1.
     rbind (scheduler k1) (\<lambda>k2. Inr (W_blocked resume, k2)))"

definition take_child :: "ptr \<Rightarrow> ptr \<Rightarrow> bool \<Rightarrow> kernel \<Rightarrow> (waiting \<times> kernel) res" where
  "take_child before t want k =
     rbind (dref t k) (\<lambda>tp.
     rbind (free_process_arg_and_fix_tree_link t before k) (\<lambda>(r, k1).
       Inr (W_return (if r < 0 then -1 else p_pid tp) (if want then Some (p_return_value tp) else None), k1)))"

text \<open>One turn of the loop for a negative pid.\<close>

definition wait_any :: "bool \<Rightarrow> kernel \<Rightarrow> (waiting \<times> kernel) res" where
  "wait_any want k =
     rbind (dref (get_process_struct_of_pid (getpid k) k) k) (\<lambda>cp.
     rbind (find_child (tree_fuel k) (\<lambda>tp. p_state tp = ZOMBIE) (p_children_head cp) (p_children_head cp) k) (\<lambda>(before, t).
     if t = 0 then block_on_child None k else take_child before t want k))"

text \<open>One turn of the loop for a given child.\<close>

definition wait_child :: "ptr \<Rightarrow> ptr \<Rightarrow> bool \<Rightarrow> kernel \<Rightarrow> (waiting \<times> kernel) res" where
  "wait_child before t want k =
     rbind (dref t k) (\<lambda>tp.
     if p_state tp = ZOMBIE then take_child before t want k else block_on_child (Some (before, t)) k)"

definition waitpid :: "int \<Rightarrow> bool \<Rightarrow> kernel \<Rightarrow> (waiting \<times> kernel) res" where
  "waitpid pid want k =
     rbind (dref (get_process_struct_of_pid (getpid k) k) k) (\<lambda>cp.
     if p_children_head cp = 0 \<and> p_children_tail cp = 0 then Inr (W_return (-1) None, k)
     else if pid < 0 then wait_any want k
     else
       rbind (find_child (tree_fuel k) (\<lambda>tp. p_pid tp = pid) (p_children_head cp) (p_children_head cp) k) (\<lambda>(before, t).
       if t = 0 then Inr (W_return (-1) None, k) else wait_child before t want k))"

definition waitpid_resume :: "(ptr \<times> ptr) option \<Rightarrow> bool \<Rightarrow> kernel \<Rightarrow> (waiting \<times> kernel) res" where
  "waitpid_resume resume want k =
     (case resume of None \<Rightarrow> wait_any want k | Some (before, t) \<Rightarrow> wait_child before t want k)"

section \<open>Kill\<close>

text \<open>\<open>None\<close>: the caller has ended itself and does not run again.\<close>

definition kill :: "int \<Rightarrow> kernel \<Rightarrow> (int option \<times> kernel) res" where
  "kill pid k =
     (if pid = idleId \<or> pid = kernelId then Inr (Some (-1), k)
      else
        (let p = get_process_struct_of_pid pid k in
         if p = 0 then Inr (Some (-1), k)
         else
           rbind (validate_action_process_valid p k) (\<lambda>v.
           if v < 0 then Inr (Some (-1), k)
           else
             rbind (dref p k) (\<lambda>pr.
             if p_pid pr = getpid k then rbind (exit_process 0 k) (\<lambda>k1. Inr (None, k1))
             else
               rbind (leave_queue_process_if_needed p k) (\<lambda>(r, k1).
               if r < 0 then Inr (Some (-1), k1)
               else
                 rbind (turn_current_process_into_a_zombie_or_kill_it False pid k1) (\<lambda>(r, k2).
                 if r < 0 then Inr (Some (-1), k2)
                 else rbind (pmod p (\<lambda>pr. pr\<lparr>p_return_value := 0\<rparr>) k2) (\<lambda>k3. Inr (Some 0, k3))))))))"

definition set_input_mode :: "int \<Rightarrow> input_t \<Rightarrow> kernel \<Rightarrow> kernel res" where
  "set_input_mode pid ty k =
     (let p = get_process_struct_of_pid pid k in
      if p \<noteq> 0 then pmod p (\<lambda>pr. pr\<lparr>p_input_type := ty\<rparr>) k else Inr k)"

section \<open>Start-up\<close>

definition init_global_variables :: "kernel \<Rightarrow> kernel" where
  "init_global_variables k =
     k\<lparr>pid_table := Map.empty, cur_pid := -1, pid_iterator := 0, nb_proc_running := 0, process_id_list := [],
       forked_data_list := 0\<rparr>"

definition setup_main_context :: "kernel \<Rightarrow> int \<times> kernel" where
  "setup_main_context k =
     (let (ok1, k1) = kalloc k in
      if \<not> ok1 then (-1, k1)
      else (let k2 = k1\<lparr>scheduler_main := True\<rparr>; (ok2, k3) = kalloc k2 in (if ok2 then 0 else -1, k3)))"

text \<open>The three tables: two allocations each, the structure and the slots.\<close>

fun alloc_times :: "nat \<Rightarrow> kernel \<Rightarrow> bool \<times> kernel" where
  "alloc_times 0 k = (True, k)"
| "alloc_times (Suc n) k = (let (ok, k1) = kalloc k in if ok then alloc_times n k1 else (False, k1))"

definition initialize_process_workflow ::
    "(string \<Rightarrow> (u64 \<times> u64) option) \<Rightarrow> kernel \<Rightarrow> (int \<times> kernel) res" where
  "initialize_process_workflow find_app k =
     (let (ok, k1) = alloc_times 6 (init_global_variables k) in
      if \<not> ok then Inr (-1, k1)
      else
        (let (r, k2) = setup_main_context (k1\<lparr>shared_memory := Map.empty, sem_table := Map.empty\<rparr>) in
         if r < 0 then Inr (-1, k2)
         else
           rbind (start_virtual find_app (Some ''idle'') 4000 1 k2) (\<lambda>(r, k3).
           if r < 0 then Inr (-1, k3)
           else
             rbind (start_virtual find_app (Some ''shell'') 4000 2 k3) (\<lambda>(r, k4).
               Inr (if r < 0 then -1 else 0, k4)))))"

end
