(* ===== verification/Quiet.thy ===== *)
theory Quiet
  imports Semaphore
begin

text \<open>
  What the scheduler and the memory operations leave alone: the semaphores, the message queues,
  the clock and the counters. \<open>quiet k k'\<close> collects these facts.
\<close>

definition quiet :: "kernel \<Rightarrow> kernel \<Rightarrow> bool" where
  "quiet k k' \<longleftrightarrow> sem_table k' = sem_table k \<and> all_queues k' = all_queues k \<and>
     semaphore_id_counter k' = semaphore_id_counter k \<and>
     currently_running_semaphores k' = currently_running_semaphores k \<and>
     parent_block k' = parent_block k \<and> time_counter k' = time_counter k \<and>
     scheduler_main k' = scheduler_main k \<and> kernel_base_page_table k' = kernel_base_page_table k"

named_theorems quiets \<open>operations that leave the quiet part of the kernel state alone\<close>

lemma quiet_refl [simp, intro]: "quiet k k"
  by (simp add: quiet_def)

lemma quiet_trans [trans]: "quiet k k' \<Longrightarrow> quiet k' k'' \<Longrightarrow> quiet k k''"
  by (simp add: quiet_def)

lemma quiet_fields [simp]:
  "quiet k (k'\<lparr>heap := h\<rparr>) = quiet k k'" "quiet k (k'\<lparr>queues := q\<rparr>) = quiet k k'"
  "quiet k (k'\<lparr>kmm := m\<rparr>) = quiet k k'" "quiet k (k'\<lparr>shared_memory := sm\<rparr>) = quiet k k'"
  "quiet k (k'\<lparr>cur_pid := c\<rparr>) = quiet k k'" "quiet k (k'\<lparr>nb_proc_running := n\<rparr>) = quiet k k'"
  "quiet k (k'\<lparr>pid_table := t\<rparr>) = quiet k k'" "quiet k (k'\<lparr>process_id_list := il\<rparr>) = quiet k k'"
  "quiet k (k'\<lparr>started_user_process := b\<rparr>) = quiet k k'" "quiet k (k'\<lparr>page_id_counter := u\<rparr>) = quiet k k'"
  "quiet k (k'\<lparr>fresh := p\<rparr>) = quiet k k'" "quiet k (k'\<lparr>pid_iterator := i\<rparr>) = quiet k k'"
  by (simp_all add: quiet_def)

lemma kalloc_quiet [quiets]: "kalloc k = (ok, k') \<Longrightarrow> quiet k k'"
  by (auto simp: kalloc_def split: prod.splits)

lemma pmod_quiet [quiets]: "pmod p f k = Inr k' \<Longrightarrow> quiet k k'"
  by (auto simp: pmod_def elim!: rbindE)

lemma kq_add_quiet [quiets]: "kq_add p q k = Inr k' \<Longrightarrow> quiet k k'"
  by (auto simp: kq_add_def elim!: rbindE split: if_split_asm)

lemma kq_del_quiet [quiets]: "kq_del p k = Inr k' \<Longrightarrow> quiet k k'"
  by (auto simp: kq_del_def elim!: rbindE split: option.split_asm)

lemma kq_out_quiet [quiets]: "kq_out q k = Inr (p, k') \<Longrightarrow> quiet k k'"
  by (auto simp: kq_out_def elim!: rbindE split: option.split_asm prod.split_asm)

lemma shm_release_quiet [quiets]: "shm_release c key k = Inr k' \<Longrightarrow> quiet k k'"
  by (auto simp: shm_release_def Let_def elim!: rbindE dest!: kalloc_quiet
      split: option.split_asm if_split_asm prod.split_asm)

lemma release_all_shared_quiet [quiets]: "release_all_shared p ns k = Inr k' \<Longrightarrow> quiet k k'"
  by (induction ns arbitrary: k) (auto elim!: rbindE dest: shm_release_quiet intro: quiet_trans)

lemma free_shared_pages_quiet [quiets]: "free_shared_pages p k = Inr k' \<Longrightarrow> quiet k k'"
  by (auto simp: free_shared_pages_def elim!: rbindE split: if_split_asm option.split_asm
      dest!: release_all_shared_quiet)

lemma save_pid_quiet [quiets]: "save_pid i k = (r, k') \<Longrightarrow> quiet k k'"
  by (auto simp: save_pid_def Let_def split: prod.split_asm if_split_asm dest!: kalloc_quiet)

lemma free_process_memory_quiet [quiets]:
  assumes "free_process_memory p d k = Inr (r, k')"
  shows "quiet k k'"
proof (cases "p = 0")
  case False
  then obtain k1 pr f where a: "free_shared_pages p k = Inr k1" "dref p k1 = Inr pr"
    "free_page_tables (d = DELETE_ALL) (p_mem pr) (frames (kmm k1)) = Inr f"
    using assms by (auto simp: free_process_memory_def free_fs_proc_def elim!: rbindE)
  have q: "quiet k k1" using a(1) by (rule free_shared_pages_quiet)
  show ?thesis
  proof (cases "d = DELETE_ALL")
    case True
    then obtain r4 k4 k3 where "save_pid (p_pid pr) k3 = (r4, k4)" "quiet k1 k3" "k' = k4\<lparr>heap := (heap k4)(p := None)\<rparr>"
      using assms a False by (auto simp: free_process_memory_def free_fs_proc_def Let_def split: prod.split_asm)
    then show ?thesis using q save_pid_quiet quiet_trans by (metis quiet_fields(1))
  next
    case False
    then have "k' = k1\<lparr>kmm := (kmm k1)\<lparr>frames := f\<rparr>\<rparr>"
      using assms a \<open>p \<noteq> 0\<close> by (auto simp: free_process_memory_def free_fs_proc_def Let_def split: if_split_asm)
    then show ?thesis using q by simp
  qed
qed (use assms in \<open>simp add: free_process_memory_def\<close>)

lemma awake_loop_quiet [quiets]: "awake_loop n k = Inr k' \<Longrightarrow> quiet k k'"
proof (induction n arbitrary: k)
  case (Suc n)
  then show ?case
    by (auto elim!: rbindE split: if_split_asm) (blast intro: quiet_trans kq_out_quiet kq_add_quiet)
qed simp

lemma free_dead_loop_quiet [quiets]: "free_dead_loop n k = Inr k' \<Longrightarrow> quiet k k'"
proof (induction n arbitrary: k)
  case (Suc n)
  then show ?case
    by (auto elim!: rbindE split: if_split_asm)
       (blast intro: quiet_trans kq_out_quiet free_process_memory_quiet)
qed simp

lemma setpid_quiet [quiets]: "setpid i k = (r, k') \<Longrightarrow> quiet k k'"
  by (auto simp: setpid_def split: if_split_asm)

lemma dispatch_quiet [quiets]:
  assumes "dispatch sw c k = Inr k'"
  shows "quiet k k'"
proof -
  obtain top k1 tp where a: "kq_out Q_act k = Inr (top, k1)" "dref top k1 = Inr tp"
    using assms unfolding dispatch_def by (auto elim!: rbindE)
  obtain r k2 where s: "setpid (p_pid tp) k1 = (r, k2)" by (cases "setpid (p_pid tp) k1")
  have q: "quiet k k2" using kq_out_quiet [OF a(1)] setpid_quiet [OF s] by (rule quiet_trans)
  have "quiet k2 k'"
    using assms a s unfolding dispatch_def
    by (auto elim!: rbindE split: if_split_asm) (blast intro: quiet_trans pmod_quiet kq_add_quiet)+
  with q show ?thesis by (rule quiet_trans)
qed

lemma scheduler_quiet [quiets]:
  assumes "scheduler k = Inr k'"
  shows "quiet k k'"
proof -
  obtain k1 k2 where a: "awake_sleeping_process k = Inr k1" "free_dead_process k1 = Inr k2"
    using assms by (auto simp: scheduler_def res_simps)
  have q: "quiet k k2"
    using a awake_loop_quiet free_dead_loop_quiet quiet_trans
    unfolding awake_sleeping_process_def free_dead_process_def by blast
  have "quiet k2 k'"
    using assms a unfolding scheduler_def scheduler_choice_def
    by (auto simp: Let_def elim!: rbindE split: if_split_asm)
       (blast intro: dispatch_quiet quiet_trans [OF kq_add_quiet dispatch_quiet])+
  with q show ?thesis by (rule quiet_trans)
qed

end
