(* ===== verification/KInv.thy ===== *)
theory KInv
  imports Quiet
begin

text \<open>
  The invariant of the process management: every link says in which queue its process is, the
  queues are sorted and without duplicates, and the process table is a bijection between the
  live processes and their pids. It is preserved by the queue operations and by the scheduler.
\<close>

section \<open>The invariant\<close>

definition queues_wf :: "kernel \<Rightarrow> bool" where
  "queues_wf k \<longleftrightarrow> (\<forall>q. distinct (queues k q) \<and> sorted (map (qprio k q) (queues k q)))"

definition links_wf :: "kernel \<Rightarrow> bool" where
  "links_wf k \<longleftrightarrow> (\<forall>q p. p \<in> set (queues k q) \<longleftrightarrow> (\<exists>pr. heap k p = Some pr \<and> p_link pr = Some q))"

definition pids_wf :: "kernel \<Rightarrow> bool" where
  "pids_wf k \<longleftrightarrow> (\<forall>i p. pid_table k i = Some p \<longleftrightarrow> (\<exists>pr. heap k p = Some pr \<and> p_pid pr = i))"

definition kwf :: "kernel \<Rightarrow> bool" where
  "kwf k \<longleftrightarrow> heap k 0 = None \<and> queues_wf k \<and> links_wf k \<and> pids_wf k \<and>
     (\<forall>i. i < 0 \<longrightarrow> pid_table k i = None)"

text \<open>Updates of a process that the invariant does not see.\<close>

definition stable :: "process \<Rightarrow> process \<Rightarrow> bool" where
  "stable pr pr' \<longleftrightarrow> p_pid pr' = p_pid pr \<and> p_prio pr' = p_prio pr \<and> p_wake_time pr' = p_wake_time pr \<and>
     p_link pr' = p_link pr"

text \<open>A step that changes processes in a stable way, and none of the tables and queues.\<close>

definition benign :: "kernel \<Rightarrow> kernel \<Rightarrow> bool" where
  "benign k k' \<longleftrightarrow> queues k' = queues k \<and> pid_table k' = pid_table k \<and>
     (\<forall>p. rel_option stable (heap k p) (heap k' p))"

lemma stable_refl [simp, intro]: "stable pr pr"
  by (simp add: stable_def)

lemma stable_trans: "stable a b \<Longrightarrow> stable b c \<Longrightarrow> stable a c"
  by (simp add: stable_def)

lemma benign_refl [simp, intro]: "benign k k"
  by (simp add: benign_def option.rel_refl)

lemma rel_stable_trans: "rel_option stable x y \<Longrightarrow> rel_option stable y z \<Longrightarrow> rel_option stable x z"
  by (cases x; cases y; cases z) (auto intro: stable_trans)

lemma benign_trans: "benign k k' \<Longrightarrow> benign k' k'' \<Longrightarrow> benign k k''"
  unfolding benign_def using rel_stable_trans by metis

lemma benign_heap:
  assumes "benign k k'" "heap k p = Some pr"
  obtains pr' where "heap k' p = Some pr'" "stable pr pr'"
  using assms unfolding benign_def by (metis option_rel_Some1)

lemma benign_heap':
  assumes "benign k k'" "heap k' p = Some pr'"
  obtains pr where "heap k p = Some pr" "stable pr pr'"
  using assms unfolding benign_def by (metis option_rel_Some2)

lemma benign_None: "benign k k' \<Longrightarrow> heap k' p = None \<longleftrightarrow> heap k p = None"
  unfolding benign_def by (metis option.rel_distinct(1,2) option.exhaust)

lemma benign_qprio: "benign k k' \<Longrightarrow> qprio k' q = qprio k q"
proof
  fix p
  assume b: "benign k k'"
  show "qprio k' q p = qprio k q p"
  proof (cases "heap k p")
    case None
    then show ?thesis using benign_None [OF b, of p] by (simp add: qprio_def)
  next
    case (Some pr)
    then show ?thesis using benign_heap [OF b Some] by (metis (no_types, lifting) option.case(2) qprio_def stable_def)
  qed
qed

lemma benign_ex:
  assumes "benign k k'" "\<And>a b. stable a b \<Longrightarrow> P a \<longleftrightarrow> P b"
  shows "(\<exists>pr. heap k' p = Some pr \<and> P pr) \<longleftrightarrow> (\<exists>pr. heap k p = Some pr \<and> P pr)"
proof -
  have "rel_option stable (heap k p) (heap k' p)" using assms(1) by (simp add: benign_def)
  then show ?thesis using assms(2) by (cases "heap k p"; cases "heap k' p") auto
qed

lemma benign_kwf: "benign k k' \<Longrightarrow> kwf k \<Longrightarrow> kwf k'"
proof -
  assume b: "benign k k'" and w: "kwf k"
  have "queues_wf k'" using b w by (auto simp: kwf_def queues_wf_def benign_qprio) (auto simp: benign_def)
  moreover have "links_wf k'"
    unfolding links_wf_def
  proof (intro allI)
    fix q p
    have "p \<in> set (queues k' q) \<longleftrightarrow> p \<in> set (queues k q)" using b by (simp add: benign_def)
    also have "\<dots> \<longleftrightarrow> (\<exists>pr. heap k p = Some pr \<and> p_link pr = Some q)" using w by (simp add: kwf_def links_wf_def)
    also have "\<dots> \<longleftrightarrow> (\<exists>pr. heap k' p = Some pr \<and> p_link pr = Some q)"
      by (rule benign_ex [OF b, symmetric]) (simp add: stable_def)
    finally show "p \<in> set (queues k' q) \<longleftrightarrow> (\<exists>pr. heap k' p = Some pr \<and> p_link pr = Some q)" .
  qed
  moreover have "pids_wf k'"
    unfolding pids_wf_def
  proof (intro allI)
    fix i p
    have "pid_table k' i = Some p \<longleftrightarrow> (\<exists>pr. heap k p = Some pr \<and> p_pid pr = i)"
      using b w by (simp add: kwf_def pids_wf_def benign_def)
    also have "\<dots> \<longleftrightarrow> (\<exists>pr. heap k' p = Some pr \<and> p_pid pr = i)"
      by (rule benign_ex [OF b, symmetric]) (simp add: stable_def)
    finally show "pid_table k' i = Some p \<longleftrightarrow> (\<exists>pr. heap k' p = Some pr \<and> p_pid pr = i)" .
  qed
  moreover have "\<forall>i. i < 0 \<longrightarrow> pid_table k' i = None" using b w by (simp add: kwf_def benign_def)
  ultimately show ?thesis using b w benign_None [OF b, of 0] by (simp add: kwf_def)
qed

lemma benign_fields [simp]:
  "benign k (k'\<lparr>kmm := m\<rparr>) = benign k k'" "benign k (k'\<lparr>shared_memory := sm\<rparr>) = benign k k'"
  "benign k (k'\<lparr>cur_pid := c\<rparr>) = benign k k'" "benign k (k'\<lparr>nb_proc_running := n\<rparr>) = benign k k'"
  "benign k (k'\<lparr>process_id_list := il\<rparr>) = benign k k'" "benign k (k'\<lparr>sem_table := st\<rparr>) = benign k k'"
  "benign k (k'\<lparr>started_user_process := b\<rparr>) = benign k k'" "benign k (k'\<lparr>page_id_counter := u\<rparr>) = benign k k'"
  "benign k (k'\<lparr>parent_block := b\<rparr>) = benign k k'" "benign k (k'\<lparr>currently_running_semaphores := n\<rparr>) = benign k k'"
  "benign k (k'\<lparr>semaphore_id_counter := n\<rparr>) = benign k k'" "benign k (k'\<lparr>all_queues := aq\<rparr>) = benign k k'"
  "benign k (k'\<lparr>pid_iterator := n\<rparr>) = benign k k'" "benign k (k'\<lparr>fresh := p\<rparr>) = benign k k'"
  "benign k (k'\<lparr>time_counter := tc\<rparr>) = benign k k'"
  by (simp_all add: benign_def)

lemma benign_heap_upd:
  "benign k k' \<Longrightarrow> heap k' p = Some pr \<Longrightarrow> stable pr pr' \<Longrightarrow> benign k (k'\<lparr>heap := (heap k')(p \<mapsto> pr')\<rparr>)"
  by (rule benign_trans [of _ k']) (auto simp: benign_def option.rel_refl)

lemma kalloc_benign: "kalloc k = (ok, k') \<Longrightarrow> benign k k'"
  by (auto simp: kalloc_def split: prod.splits)

lemma pmod_benign: "pmod p f k = Inr k' \<Longrightarrow> (\<And>pr. stable pr (f pr)) \<Longrightarrow> benign k k'"
  by (auto simp: pmod_def dref_def elim!: rbindE split: if_split_asm option.split_asm intro: benign_heap_upd)

section \<open>Queue operations\<close>

lemma kwf_null [simp]: "kwf k \<Longrightarrow> heap k 0 = None"
  by (simp add: kwf_def)

lemma kwf_distinct: "kwf k \<Longrightarrow> distinct (queues k q)"
  by (simp add: kwf_def queues_wf_def)

lemma kwf_sorted: "kwf k \<Longrightarrow> sorted (map (qprio k q) (queues k q))"
  by (simp add: kwf_def queues_wf_def)

lemma kwf_member: "kwf k \<Longrightarrow> p \<in> set (queues k q) \<longleftrightarrow> (\<exists>pr. heap k p = Some pr \<and> p_link pr = Some q)"
  by (simp add: kwf_def links_wf_def)

lemma kwf_pid: "kwf k \<Longrightarrow> pid_table k i = Some p \<longleftrightarrow> (\<exists>pr. heap k p = Some pr \<and> p_pid pr = i)"
  by (simp add: kwf_def pids_wf_def)

lemma kwf_pid_nonneg: "kwf k \<Longrightarrow> heap k p = Some pr \<Longrightarrow> 0 \<le> p_pid pr"
  unfolding kwf_def pids_wf_def by (metis not_less option.distinct(1))

lemma kwf_pid_inj:
  assumes "kwf k" "heap k p = Some pr" "heap k y = Some r" "p_pid r = p_pid pr"
  shows "y = p"
proof -
  have "pid_table k (p_pid pr) = Some p" "pid_table k (p_pid pr) = Some y"
    using assms(2-) by (simp_all add: kwf_pid [OF assms(1)])
  then show ?thesis by simp
qed

lemma dref_Some: "dref p k = Inr pr \<longleftrightarrow> p \<noteq> 0 \<and> heap k p = Some pr"
  by (auto simp: dref_def split: option.splits)

text \<open>
  Threading \<open>p\<close> into or out of a queue: the other queues do not have it, and only its own link
  changes.
\<close>

lemma relink_kwf:
  assumes w: "kwf k" and h: "heap k p = Some pr" and k': "heap k' = (heap k)(p \<mapsto> pr\<lparr>p_link := l\<rparr>)"
    "pid_table k' = pid_table k" and q: "queues k' = (queues k)(q := xs)"
    and lq: "\<And>q'. q' \<noteq> q \<Longrightarrow> (l = Some q' \<longleftrightarrow> p_link pr = Some q')"
    and mem: "set xs - {p} = set (queues k q) - {p}" "p \<in> set xs \<longleftrightarrow> l = Some q"
    and ord: "distinct xs" "sorted (map (qprio k q) xs)"
  shows "kwf k'"
proof -
  have qp: "qprio k' r = qprio k r" for r using h k' by (auto simp: qprio_def)
  have "queues_wf k'" using w q ord by (auto simp: queues_wf_def qp kwf_def)
  moreover have "links_wf k'"
    unfolding links_wf_def
  proof (intro allI)
    fix q' x
    show "x \<in> set (queues k' q') \<longleftrightarrow> (\<exists>r. heap k' x = Some r \<and> p_link r = Some q')"
    proof (cases "x = p")
      case True
      then show ?thesis using k' q mem(2) lq kwf_member [OF w, of p q'] h by (cases "q' = q") auto
    next
      case False
      moreover have "x \<in> set xs \<longleftrightarrow> x \<in> set (queues k q)" using mem(1) False by blast
      ultimately show ?thesis using k' q kwf_member [OF w, of x q'] by (cases "q' = q") auto
    qed
  qed
  moreover have "pids_wf k'"
    unfolding pids_wf_def k'(2) using kwf_pid [OF w] h k'(1) by (auto split: if_splits)
  moreover have "heap k' 0 = None" using kwf_null [OF w] h k'(1) by (cases "p = 0") auto
  moreover have "\<forall>i. i < 0 \<longrightarrow> pid_table k' i = None" using w k' by (simp add: kwf_def)
  ultimately show ?thesis by (simp add: kwf_def)
qed

lemma kq_add_kwf:
  assumes "kwf k" "kq_add p q k = Inr k'"
  shows "kwf k'"
proof -
  obtain pr where p: "heap k p = Some pr" "p_link pr = None"
    and k': "k' = k\<lparr>heap := (heap k)(p \<mapsto> pr\<lparr>p_link := Some q\<rparr>), queues := (queues k)(q := pq_add (qprio k q) p (queues k q))\<rparr>"
    using assms by (auto simp: kq_add_def dref_Some res_simps split: if_split_asm)
  have "p \<notin> set (queues k r)" for r using kwf_member [OF assms(1), of p r] p by simp
  then show ?thesis
    using p assms(1)
    by (intro relink_kwf [OF assms(1) p(1), where q = q and l = "Some q" and xs = "pq_add (qprio k q) p (queues k q)"])
       (auto simp: k' kwf_distinct kwf_sorted sorted_pq_add)
qed

lemma kq_del_kwf:
  assumes "kwf k" "kq_del p k = Inr k'"
  shows "kwf k'"
proof -
  obtain pr q where p: "heap k p = Some pr" "p_link pr = Some q"
    and k': "k' = k\<lparr>heap := (heap k)(p \<mapsto> pr\<lparr>p_link := None\<rparr>), queues := (queues k)(q := pq_del p (queues k q))\<rparr>"
    using assms by (auto simp: kq_del_def dref_Some res_simps split: option.split_asm)
  show ?thesis
    using p assms(1)
    by (intro relink_kwf [OF assms(1) p(1), where q = q and l = None and xs = "pq_del p (queues k q)"])
       (auto simp: k' kwf_distinct kwf_sorted pq_del_def sorted_map_remove1)
qed

lemma kq_out_cases:
  assumes "kq_out q k = Inr (p, k')"
  obtains (empty) "queues k q = []" "p = 0" "k' = k"
  | (top) pr where "queues k q \<noteq> []" "p = last (queues k q)" "p \<noteq> 0" "heap k p = Some pr"
      "k' = k\<lparr>heap := (heap k)(p \<mapsto> pr\<lparr>p_link := None\<rparr>), queues := (queues k)(q := butlast (queues k q))\<rparr>"
  using assms by (auto simp: kq_out_def pq_out_def dref_Some res_simps split: if_split_asm)

lemma kq_out_kwf:
  assumes "kwf k" "kq_out q k = Inr (p, k')"
  shows "kwf k'"
  using assms(2)
proof (cases rule: kq_out_cases)
  case (top pr)
  have l: "p_link pr = Some q" using kwf_member [OF assms(1), of p q] top by auto
  have d: "distinct (queues k q)" using assms(1) by (rule kwf_distinct)
  have n: "p \<notin> set (butlast (queues k q))" using top d distinct_butlast_last by metis
  have "set (queues k q) = insert p (set (butlast (queues k q)))"
    using top(1,2) by (metis butlast_last_snoc Un_insert_right empty_set list.simps(15) set_append sup_bot.right_neutral)
  then show ?thesis
    using top l d n assms(1)
    by (intro relink_kwf [OF assms(1) top(4), where q = q and l = None and xs = "butlast (queues k q)"])
       (auto simp: kwf_sorted sorted_map_butlast distinct_butlast)
qed (use assms in simp)

text \<open>Conversely, the operations succeed whenever the code's assertions hold.\<close>

lemma kq_add_ok:
  assumes "kwf k" "heap k p = Some pr" "p_link pr = None"
  shows "kq_add p q k = Inr (k\<lparr>heap := (heap k)(p \<mapsto> pr\<lparr>p_link := Some q\<rparr>),
     queues := (queues k)(q := pq_add (qprio k q) p (queues k q))\<rparr>)"
proof -
  have "list_all (\<lambda>x. heap k x \<noteq> None) (queues k q)"
    using kwf_member [OF assms(1), of _ q] by (auto simp: list_all_iff)
  moreover have "p \<noteq> 0" using assms by (metis kwf_null option.distinct(1))
  ultimately show ?thesis using assms by (simp add: kq_add_def dref_def)
qed

lemma kq_out_ok:
  assumes "kwf k" "queues k q \<noteq> []"
  obtains pr where "heap k (last (queues k q)) = Some pr" "p_link pr = Some q" "last (queues k q) \<noteq> 0"
    "kq_out q k = Inr (last (queues k q), k\<lparr>heap := (heap k)(last (queues k q) \<mapsto> pr\<lparr>p_link := None\<rparr>),
       queues := (queues k)(q := butlast (queues k q))\<rparr>)"
proof -
  obtain pr where pr: "heap k (last (queues k q)) = Some pr" "p_link pr = Some q"
    using kwf_member [OF assms(1), of "last (queues k q)" q] assms(2) by auto
  have "last (queues k q) \<noteq> 0" using assms pr by (metis kwf_null option.distinct(1))
  then show thesis using assms pr by (intro that [of pr]) (auto simp: kq_out_def pq_out_def dref_def)
qed

end
