(* ===== verification/KSched.thy ===== *)
theory KSched
  imports KInv
begin

text \<open>
  The scheduler keeps the invariant of the process management, leaves alone the processes it is
  not about, and gives the processor to a process of the highest priority.
\<close>

section \<open>What stays untouched\<close>

text \<open>The scheduler works on three queues; a process in none of them is parked.\<close>

definition parked :: "process \<Rightarrow> bool" where
  "parked pr \<longleftrightarrow> p_link pr \<notin> {Some Q_act, Some Q_asleep, Some Q_dead}"

lemma parked_None [simp]: "p_link pr = None \<Longrightarrow> parked pr"
  by (simp add: parked_def)

lemma not_parked: "p_link pr = Some q \<Longrightarrow> q \<in> {Q_act, Q_asleep, Q_dead} \<Longrightarrow> \<not> parked pr"
  by (auto simp: parked_def)

text \<open>Parked processes, \<open>c\<close> excepted, do not change.\<close>

definition frozen :: "ptr \<Rightarrow> kernel \<Rightarrow> kernel \<Rightarrow> bool" where
  "frozen c k k' \<longleftrightarrow> (\<forall>p pr. p \<noteq> c \<longrightarrow> heap k p = Some pr \<longrightarrow> parked pr \<longrightarrow> heap k' p = Some pr)"

definition same_cpu :: "kernel \<Rightarrow> kernel \<Rightarrow> bool" where
  "same_cpu k k' \<longleftrightarrow> cur_pid k' = cur_pid k \<and> started_user_process k' = started_user_process k"

lemma frozen_refl [simp, intro]: "frozen c k k"
  by (simp add: frozen_def)

lemma frozen_trans: "frozen c k k' \<Longrightarrow> frozen c k' k'' \<Longrightarrow> frozen c k k''"
  by (simp add: frozen_def)

lemma same_cpu_refl [simp, intro]: "same_cpu k k"
  by (simp add: same_cpu_def)

lemma same_cpu_trans: "same_cpu k k' \<Longrightarrow> same_cpu k' k'' \<Longrightarrow> same_cpu k k''"
  by (simp add: same_cpu_def)

section \<open>Releasing the shared pages\<close>

text \<open>What a step that works on the one process \<open>p\<close> changes.\<close>

definition on_proc :: "ptr \<Rightarrow> kernel \<Rightarrow> kernel \<Rightarrow> bool" where
  "on_proc p k k' \<longleftrightarrow> benign k k' \<and> (\<forall>x. x \<noteq> p \<longrightarrow> heap k' x = heap k x) \<and> same_cpu k k' \<and>
     rel_option (\<lambda>a b. p_state b = p_state a) (heap k p) (heap k' p)"

lemma on_proc_refl [simp, intro]: "on_proc p k k"
  by (simp add: on_proc_def option.rel_refl)

lemma on_proc_trans: "on_proc p k k' \<Longrightarrow> on_proc p k' k'' \<Longrightarrow> on_proc p k k''"
  unfolding on_proc_def
  by (intro conjI) (auto intro: benign_trans same_cpu_trans elim!: option.rel_cases)

lemma kalloc_on_proc: "kalloc k = (ok, k') \<Longrightarrow> on_proc p k k'"
  by (auto simp: kalloc_def on_proc_def same_cpu_def option.rel_refl split: prod.splits)

lemma shm_release_on_proc:
  assumes "shm_release c key k = Inr k'" "c \<noteq> 0"
  shows "on_proc c k k'"
proof (cases "k' = k")
  case False
  then obtain pr t ok k1 pi where a: "heap k c = Some pr" "p_shared_table pr = Some t" "kalloc k = (ok, k1)"
    "get_shared_page key k = Some pi"
    using assms by (auto simp: shm_release_def target_process_def Let_def dref_Some elim!: rbindE
        split: option.split_asm if_split_asm prod.split_asm)
  have b: "on_proc c k k1" and h: "heap k1 = heap k" using a(3) kalloc_on_proc
    by (auto simp: kalloc_def split: prod.split_asm)
  have "on_proc c k1 k'"
    using assms a h False
    by (auto simp: shm_release_def target_process_def Let_def dref_Some elim!: rbindE
        split: option.split_asm if_split_asm prod.split_asm
        simp: on_proc_def benign_def stable_def same_cpu_def option.rel_refl)
  with b show ?thesis by (rule on_proc_trans)
qed simp

lemma release_all_shared_on_proc:
  "release_all_shared p ns k = Inr k' \<Longrightarrow> p \<noteq> 0 \<Longrightarrow> on_proc p k k'"
proof (induction ns arbitrary: k)
  case (Cons n ns)
  then show ?case by (auto elim!: rbindE) (blast intro: on_proc_trans shm_release_on_proc)
qed simp

lemma free_shared_pages_on_proc: "free_shared_pages p k = Inr k' \<Longrightarrow> on_proc p k k'"
  by (auto simp: free_shared_pages_def dref_Some elim!: rbindE split: if_split_asm option.split_asm
      dest!: release_all_shared_on_proc)

section \<open>Freeing a dead process\<close>

lemma remove_kwf:
  assumes w: "kwf k" and h: "heap k p = Some pr" "p_link pr = None"
    and k': "heap k' = (heap k)(p := None)" "pid_table k' = (pid_table k)(p_pid pr := None)" "queues k' = queues k"
  shows "kwf k'"
proof -
  have np: "p \<notin> set (queues k q)" for q using kwf_member [OF w, of p q] h by simp
  have "map (qprio k' q) (queues k q) = map (qprio k q) (queues k q)" for q
    using np [of q] k'(1) by (intro map_cong refl) (auto simp: qprio_def)
  then have "queues_wf k'" unfolding queues_wf_def k'(3) using kwf_sorted [OF w] kwf_distinct [OF w] by metis
  moreover have "links_wf k'"
    unfolding links_wf_def
  proof (intro allI)
    fix q x
    show "x \<in> set (queues k' q) \<longleftrightarrow> (\<exists>r. heap k' x = Some r \<and> p_link r = Some q)"
      using kwf_member [OF w, of x q] np [of q] k' by (cases "x = p") auto
  qed
  moreover have "pids_wf k'"
    unfolding pids_wf_def
  proof (intro allI)
    fix i x
    have p: "pid_table k (p_pid pr) = Some p" using kwf_pid [OF w, of "p_pid pr" p] h(1) by simp
    show "pid_table k' i = Some x \<longleftrightarrow> (\<exists>r. heap k' x = Some r \<and> p_pid r = i)"
    proof (cases "x = p")
      case True
      then show ?thesis using kwf_pid [OF w, of i p] k' h by simp
    next
      case False
      then have "i = p_pid pr \<Longrightarrow> \<not> (\<exists>r. heap k x = Some r \<and> p_pid r = i)"
        using kwf_pid [OF w, of i x] p by simp
      then show ?thesis using kwf_pid [OF w, of i x] k' False by (cases "i = p_pid pr") simp_all
    qed
  qed
  ultimately show ?thesis using w k' by (auto simp: kwf_def)
qed

lemma save_pid_fields:
  assumes "save_pid i k = (r, k')"
  shows "heap k' = heap k" "pid_table k' = pid_table k" "queues k' = queues k" "same_cpu k k'"
  using assms by (auto simp: save_pid_def kalloc_def same_cpu_def Let_def split: prod.split_asm if_split_asm)

lemma free_process_memory_all:
  assumes "free_process_memory p DELETE_ALL k = Inr (r, k')" "kwf k" "heap k p = Some pr" "p_link pr = None"
  shows "kwf k'" "heap k' = (heap k)(p := None)" "queues k' = queues k" "same_cpu k k'"
proof -
  have p0: "p \<noteq> 0" using assms(2,3) by (metis kwf_null option.distinct(1))
  obtain k1 pr1 f where a: "free_shared_pages p k = Inr k1" "heap k1 p = Some pr1"
    "free_page_tables True (p_mem pr1) (frames (kmm k1)) = Inr f"
    using assms(1) p0 by (auto simp: free_process_memory_def free_fs_proc_def dref_Some elim!: rbindE)
  have o: "on_proc p k k1" using a(1) by (rule free_shared_pages_on_proc)
  then have w1: "kwf k1" and st: "stable pr pr1" using benign_kwf assms(2) a(2) assms(3)
    by (auto simp: on_proc_def) (auto simp: benign_def dest!: spec [of _ p])
  define k3 where "k3 = k1\<lparr>kmm := (kmm k1)\<lparr>frames := f\<rparr>, nb_proc_running := nb_proc_running k1 - 1,
    pid_table := (pid_table k1)(p_pid pr1 := None)\<rparr>"
  obtain r4 k4 where s: "save_pid (p_pid pr1) k3 = (r4, k4)" by (cases "save_pid (p_pid pr1) k3")
  have k': "k' = k4\<lparr>heap := (heap k4)(p := None)\<rparr>"
    using assms(1) p0 a s by (auto simp: free_process_memory_def free_fs_proc_def dref_Some Let_def k3_def [symmetric]
        elim!: rbindE split: prod.split_asm simp: dref_def)
  note s4 = save_pid_fields [OF s]
  have f: "heap k' = (heap k1)(p := None)" "pid_table k' = (pid_table k1)(p_pid pr1 := None)" "queues k' = queues k1"
    using s4 by (simp_all add: k' k3_def)
  show "kwf k'" using w1 a(2) _ f by (rule remove_kwf) (use st assms(4) in \<open>simp add: stable_def\<close>)
  show "heap k' = (heap k)(p := None)" using f o by (auto simp: on_proc_def)
  show "queues k' = queues k" using f o by (simp add: on_proc_def benign_def)
  show "same_cpu k k'" using s4(4) o by (simp add: k' k3_def on_proc_def same_cpu_def)
qed


section \<open>The loops\<close>

lemma kq_out_frozen:
  assumes "kwf k" "kq_out q k = Inr (p, k')" "q \<in> {Q_act, Q_asleep, Q_dead}"
  shows "frozen c k k'"
  using assms(2)
proof (cases rule: kq_out_cases)
  case (top pr)
  have "p_link pr = Some q" using kwf_member [OF assms(1), of p q] top by auto
  moreover have "frozen c k k'" if "p_link pr = Some q"
    unfolding frozen_def
  proof (intro allI impI)
    fix x r
    assume "heap k x = Some r" "parked r"
    moreover then have "x \<noteq> p" using top not_parked [OF that assms(3)] by auto
    ultimately show "heap k' x = Some r" using top by simp
  qed
  ultimately show ?thesis by blast
qed simp

lemma kq_out_same_cpu: "kq_out q k = Inr (p, k') \<Longrightarrow> same_cpu k k'"
  by (auto simp: same_cpu_def elim!: kq_out_cases)

lemma kq_add_frozen:
  assumes "kq_add p q k = Inr k'"
  shows "frozen p k k'" "same_cpu k k'"
  using assms by (auto simp: kq_add_def dref_Some frozen_def same_cpu_def res_simps split: if_split_asm)

text \<open>One round of either loop does not touch what was in no queue before it.\<close>

lemma frozen_round:
  assumes w: "kwf k" and o: "kq_out q k = Inr (p, k1)" and "p \<noteq> 0"
    and f: "frozen p k1 k2" and q: "q \<in> {Q_act, Q_asleep, Q_dead}"
  shows "frozen c k k2"
proof -
  obtain pr where pr: "heap k p = Some pr" "k1 = k\<lparr>heap := (heap k)(p \<mapsto> pr\<lparr>p_link := None\<rparr>), queues := (queues k)(q := butlast (queues k q))\<rparr>"
    "queues k q \<noteq> []" "p = last (queues k q)"
    using o \<open>p \<noteq> 0\<close> by (auto elim!: kq_out_cases)
  have "p_link pr = Some q" using kwf_member [OF w, of p q] pr by auto
  show ?thesis
    unfolding frozen_def
  proof (intro allI impI)
    fix x r
    assume x: "x \<noteq> c" "heap k x = Some r" "parked r"
    then have "x \<noteq> p" using pr(1) not_parked [OF \<open>p_link pr = Some q\<close> q] by auto
    then show "heap k2 x = Some r" using x f pr(2) by (simp add: frozen_def)
  qed
qed

lemma awake_loop_keeps:
  "awake_loop n k = Inr k' \<Longrightarrow> kwf k \<Longrightarrow> kwf k' \<and> frozen c k k' \<and> same_cpu k k'"
proof (induction n arbitrary: k)
  case (Suc n)
  show ?case
  proof (cases "k' = k")
    case False
    then obtain p k1 k2 where a: "kq_out Q_asleep k = Inr (p, k1)" "kq_add p Q_act k1 = Inr k2" "awake_loop n k2 = Inr k'"
      using Suc.prems(1) by (auto elim!: rbindE split: if_split_asm)
    have w: "kwf k1" "kwf k2" using kq_out_kwf kq_add_kwf Suc.prems a by blast+
    have p0: "p \<noteq> 0" using a(2) by (auto simp: kq_add_def dref_Some elim!: rbindE)
    have "frozen c k k2" using Suc.prems(2) a(1) p0 kq_add_frozen(1) [OF a(2)] by (rule frozen_round) simp
    moreover have "same_cpu k k2" using kq_out_same_cpu [OF a(1)] kq_add_frozen(2) [OF a(2)]
      by (rule same_cpu_trans)
    ultimately show ?thesis using Suc.IH [OF a(3) w(2)] frozen_trans same_cpu_trans by blast
  qed (use Suc.prems in simp)
qed simp

lemma free_dead_loop_keeps:
  "free_dead_loop n k = Inr k' \<Longrightarrow> kwf k \<Longrightarrow> kwf k' \<and> frozen c k k' \<and> same_cpu k k' \<and> queues k' = (queues k)(Q_dead := [])"
proof (induction n arbitrary: k)
  case (Suc n)
  show ?case
  proof (cases "queues k Q_dead = []")
    case False
    then obtain p k1 k2 r where a: "kq_out Q_dead k = Inr (p, k1)" "free_process_memory p DELETE_ALL k1 = Inr (r, k2)"
      "free_dead_loop n k2 = Inr k'"
      using Suc.prems(1) by (auto elim!: rbindE)
    obtain pr where pr: "heap k p = Some pr" "p \<noteq> 0"
      "k1 = k\<lparr>heap := (heap k)(p \<mapsto> pr\<lparr>p_link := None\<rparr>), queues := (queues k)(Q_dead := butlast (queues k Q_dead))\<rparr>"
      using a(1) False by (auto elim!: kq_out_cases)
    have w1: "kwf k1" using kq_out_kwf Suc.prems a by blast
    have h1: "heap k1 p = Some (pr\<lparr>p_link := None\<rparr>)" using pr by simp
    note f = free_process_memory_all [OF a(2) w1 h1]
    have w2: "kwf k2" and fr: "frozen p k1 k2" and q2: "queues k2 = queues k1" and sc: "same_cpu k1 k2"
      using f by (simp_all add: frozen_def)
    have "frozen c k k2" using Suc.prems(2) a(1) pr(2) fr by (rule frozen_round) simp
    moreover have "same_cpu k k2" using kq_out_same_cpu [OF a(1)] sc by (rule same_cpu_trans)
    moreover have "(queues k2)(Q_dead := []) = (queues k)(Q_dead := [])" using q2 pr(3) by simp
    ultimately show ?thesis using Suc.IH [OF a(3) w2] frozen_trans same_cpu_trans by metis
  qed (use Suc.prems in auto)
qed simp

section \<open>States through the loops\<close>

text \<open>Every process of \<open>k'\<close> is one of \<open>k\<close>, with its state, pid and priority.\<close>

definition descends :: "kernel \<Rightarrow> kernel \<Rightarrow> bool" where
  "descends k k' \<longleftrightarrow> (\<forall>p pr'. heap k' p = Some pr' \<longrightarrow>
     (\<exists>pr. heap k p = Some pr \<and> p_state pr' = p_state pr \<and> p_pid pr' = p_pid pr \<and> p_prio pr' = p_prio pr))"

lemma descends_refl [simp, intro]: "descends k k"
  by (simp add: descends_def)

lemma descends_trans: "descends k k' \<Longrightarrow> descends k' k'' \<Longrightarrow> descends k k''"
  unfolding descends_def by metis

lemma kq_out_descends: "kq_out q k = Inr (p, k') \<Longrightarrow> descends k k'"
  by (auto simp: descends_def elim!: kq_out_cases split: if_split_asm)

lemma kq_add_descends: "kq_add p q k = Inr k' \<Longrightarrow> descends k k'"
  by (auto simp: kq_add_def dref_Some descends_def elim!: rbindE split: if_split_asm)

lemma free_process_memory_descends:
  assumes "free_process_memory p DELETE_ALL k = Inr (r, k')" "kwf k" "heap k p = Some pr" "p_link pr = None"
  shows "descends k k'"
  using free_process_memory_all(2) [OF assms] by (auto simp: descends_def)

lemma awake_loop_descends:
  "awake_loop n k = Inr k' \<Longrightarrow> descends k k' \<and> set (queues k Q_act) \<subseteq> set (queues k' Q_act)"
proof (induction n arbitrary: k)
  case (Suc n)
  show ?case
  proof (cases "k' = k")
    case False
    then obtain p k1 k2 where a: "kq_out Q_asleep k = Inr (p, k1)" "kq_add p Q_act k1 = Inr k2" "awake_loop n k2 = Inr k'"
      using Suc.prems(1) by (auto elim!: rbindE split: if_split_asm)
    have "descends k k2" using kq_out_descends [OF a(1)] kq_add_descends [OF a(2)] by (rule descends_trans)
    moreover have "queues k1 Q_act = queues k Q_act" using a(1) by (auto elim!: kq_out_cases)
    moreover have "set (queues k1 Q_act) \<subseteq> set (queues k2 Q_act)" using a(2)
      by (auto simp: kq_add_def elim!: rbindE split: if_split_asm)
    ultimately show ?thesis using Suc.IH [OF a(3)] descends_trans by fastforce
  qed simp
qed simp

lemma free_dead_loop_descends:
  "free_dead_loop n k = Inr k' \<Longrightarrow> kwf k \<Longrightarrow> descends k k'"
proof (induction n arbitrary: k)
  case (Suc n)
  show ?case
  proof (cases "queues k Q_dead = []")
    case False
    then obtain p k1 k2 r where a: "kq_out Q_dead k = Inr (p, k1)" "free_process_memory p DELETE_ALL k1 = Inr (r, k2)"
      "free_dead_loop n k2 = Inr k'"
      using Suc.prems(1) by (auto elim!: rbindE)
    obtain pr where pr: "heap k1 p = Some pr" "p_link pr = None" using a(1) False by (auto elim!: kq_out_cases)
    have w1: "kwf k1" using kq_out_kwf Suc.prems(2) a(1) by blast
    have "kwf k2" "descends k1 k2"
      using free_process_memory_all [OF a(2) w1 pr] free_process_memory_descends [OF a(2) w1 pr] by simp_all
    then show ?thesis using Suc.IH [OF a(3)] kq_out_descends [OF a(1)] descends_trans by blast
  qed (use Suc.prems in auto)
qed simp

section \<open>Dispatching\<close>

definition on_cpu :: "kernel \<Rightarrow> bool" where
  "on_cpu k \<longleftrightarrow> (\<exists>pr. heap k (get_current_process k) = Some pr \<and> parked pr \<and>
     (p_state pr = ACTIF \<or> p_state pr = KILLED \<longrightarrow> p_link pr = None))"

text \<open>Only the running process is in state \<open>ACTIF\<close>.\<close>

definition one_actif :: "kernel \<Rightarrow> bool" where
  "one_actif k \<longleftrightarrow> (\<forall>p pr. heap k p = Some pr \<longrightarrow> p_state pr = ACTIF \<longrightarrow> p = get_current_process k)"

lemma kwf_current:
  assumes "kwf k" "heap k p = Some pr"
  shows "get_process_struct_of_pid (p_pid pr) k = p"
  using kwf_pid [OF assms(1), of "p_pid pr" p] assms(2) by (simp add: get_process_struct_of_pid_def)

lemma on_cpuD:
  assumes "kwf k" "on_cpu k"
  obtains pr where "heap k (get_current_process k) = Some pr" "parked pr" "p_pid pr = cur_pid k"
    "get_current_process k \<noteq> 0" "p_state pr = ACTIF \<or> p_state pr = KILLED \<longrightarrow> p_link pr = None"
proof -
  obtain pr where pr: "heap k (get_current_process k) = Some pr" "parked pr"
    "p_state pr = ACTIF \<or> p_state pr = KILLED \<longrightarrow> p_link pr = None" using assms(2) by (auto simp: on_cpu_def)
  have z: "get_current_process k \<noteq> 0" using pr(1) assms(1) by (metis kwf_null option.distinct(1))
  then have "pid_table k (cur_pid k) = Some (get_current_process k)"
    by (auto simp: get_current_process_def get_process_struct_of_pid_def getpid_def split: option.splits)
  then have "p_pid pr = cur_pid k" using kwf_pid [OF assms(1)] pr(1) by auto
  with pr z show thesis using that by blast
qed

definition dispatched :: "kernel \<Rightarrow> ptr \<Rightarrow> process \<Rightarrow> kernel" where
  "dispatched k hi tp =
     k\<lparr>heap := (heap k)(hi \<mapsto> tp\<lparr>p_link := None, p_state := ACTIF\<rparr>),
       queues := (queues k)(Q_act := butlast (queues k Q_act)), cur_pid := p_pid tp\<rparr>"

lemma dispatch_cases:
  assumes w: "kwf k" and ne: "queues k Q_act \<noteq> []"
  obtains hi tp where "hi = last (queues k Q_act)" "heap k hi = Some tp" "p_link tp = Some Q_act"
    "kwf (dispatched k hi tp)" "dispatch False c k = Inr (dispatched k hi tp)"
    "\<And>cp. heap k c = Some cp \<Longrightarrow> p_link cp = None \<Longrightarrow>
      dispatch True c k = kq_add c Q_act ((dispatched k hi tp)\<lparr>heap := (heap (dispatched k hi tp))(c \<mapsto> cp\<lparr>p_state := ACTIVATABLE\<rparr>)\<rparr>)"
proof -
  obtain tp where t: "heap k (last (queues k Q_act)) = Some tp" "p_link tp = Some Q_act" "last (queues k Q_act) \<noteq> 0"
    and o: "kq_out Q_act k = Inr (last (queues k Q_act), k\<lparr>heap := (heap k)(last (queues k Q_act) \<mapsto> tp\<lparr>p_link := None\<rparr>),
       queues := (queues k)(Q_act := butlast (queues k Q_act))\<rparr>)"
    using kq_out_ok [OF w ne] by blast
  define hi where "hi = last (queues k Q_act)"
  define k1 where "k1 = k\<lparr>heap := (heap k)(hi \<mapsto> tp\<lparr>p_link := None\<rparr>), queues := (queues k)(Q_act := butlast (queues k Q_act))\<rparr>"
  have w1: "kwf k1" using kq_out_kwf [OF w o] by (simp add: k1_def hi_def)
  have h1: "heap k1 hi = Some (tp\<lparr>p_link := None\<rparr>)" by (simp add: k1_def)
  have g: "get_process_struct_of_pid (p_pid tp) k1 = hi" using kwf_current [OF w1 h1] by simp
  have pos: "0 \<le> p_pid tp" using kwf_pid_nonneg [OF w1 h1] by simp
  have s: "setpid (p_pid tp) k1 = (p_pid tp, k1\<lparr>cur_pid := p_pid tp\<rparr>)" using g t(3) by (simp add: setpid_def hi_def)
  have b: "benign k1 (dispatched k hi tp)"
    using h1 by (auto simp: benign_def dispatched_def k1_def stable_def option.rel_refl)
  have d: "dispatch False c k = Inr (dispatched k hi tp)"
    using o s pos t(3) h1 by (simp add: dispatch_def dref_Some [THEN iffD2] dref_def pmod_def dispatched_def
        hi_def [symmetric] k1_def [symmetric]) (simp add: k1_def)
  have ds: "dispatch True c k = kq_add c Q_act ((dispatched k hi tp)\<lparr>heap := (heap (dispatched k hi tp))(c \<mapsto> cp\<lparr>p_state := ACTIVATABLE\<rparr>)\<rparr>)"
    if c: "heap k c = Some cp" "p_link cp = None" for cp
  proof -
    have ct: "c \<noteq> hi" using c t by (auto simp: hi_def)
    have c0: "c \<noteq> 0" using c w by (metis kwf_null option.distinct(1))
    have "heap k1 c = Some cp" using c ct by (simp add: k1_def)
    then show ?thesis
      using o s pos t(3) h1 ct c0 by (simp add: dispatch_def dref_def pmod_def hi_def [symmetric] k1_def [symmetric])
        (simp add: k1_def dispatched_def fun_upd_twist)
  qed
  show thesis using t b w1 d ds by (intro that [of hi tp]) (auto simp: hi_def intro: benign_kwf)
qed

lemma dispatch_swap_ok:
  assumes w: "kwf k" and ne: "queues k Q_act \<noteq> []" and c: "heap k c = Some cp" "p_link cp = None"
  shows "\<exists>k'. dispatch True c k = Inr k'"
proof (rule dispatch_cases [OF w ne, of c])
  fix hi tp
  assume h: "heap k hi = Some tp" "p_link tp = Some Q_act" "kwf (dispatched k hi tp)"
    and e: "\<And>cp. heap k c = Some cp \<Longrightarrow> p_link cp = None \<Longrightarrow>
      dispatch True c k = kq_add c Q_act ((dispatched k hi tp)\<lparr>heap := (heap (dispatched k hi tp))(c \<mapsto> cp\<lparr>p_state := ACTIVATABLE\<rparr>)\<rparr>)"
  have hc: "heap (dispatched k hi tp) c = Some cp" using h(1,2) c by (auto simp: dispatched_def)
  have "benign (dispatched k hi tp) ((dispatched k hi tp)\<lparr>heap := (heap (dispatched k hi tp))(c \<mapsto> cp\<lparr>p_state := ACTIVATABLE\<rparr>)\<rparr>)"
    by (rule benign_heap_upd [OF benign_refl hc]) (simp add: stable_def)
  from kq_add_ok [OF benign_kwf [OF this h(3)], of c "cp\<lparr>p_state := ACTIVATABLE\<rparr>" Q_act]
  show ?thesis using e [OF c] c(2) by simp
qed

section \<open>The scheduler\<close>

text \<open>The two loops at the start of the scheduler.\<close>

lemma scheduler_loops:
  assumes "scheduler k = Inr k'" "kwf k"
  obtains k2 where "kwf k2" "frozen 0 k k2" "same_cpu k k2" "descends k k2" "quiet k k2"
    "set (queues k Q_act) \<subseteq> set (queues k2 Q_act)" "scheduler_choice k2 = Inr k'"
proof -
  obtain k1 k2 where a: "awake_sleeping_process k = Inr k1" "free_dead_process k1 = Inr k2"
    using assms by (auto simp: scheduler_def res_simps)
  have 1: "kwf k1 \<and> frozen 0 k k1 \<and> same_cpu k k1" "descends k k1 \<and> set (queues k Q_act) \<subseteq> set (queues k1 Q_act)"
    using a(1) assms(2) awake_loop_keeps awake_loop_descends unfolding awake_sleeping_process_def by blast+
  have 2: "kwf k2 \<and> frozen 0 k1 k2 \<and> same_cpu k1 k2 \<and> queues k2 = (queues k1)(Q_dead := [])" "descends k1 k2"
    using a(2) 1 free_dead_loop_keeps free_dead_loop_descends unfolding free_dead_process_def by blast+
  have q: "quiet k k2" using a quiet_trans awake_loop_quiet free_dead_loop_quiet
    unfolding awake_sleeping_process_def free_dead_process_def by blast
  have "frozen 0 k k2" "same_cpu k k2" "descends k k2" using 1 2 frozen_trans same_cpu_trans descends_trans by blast+
  moreover have "set (queues k Q_act) \<subseteq> set (queues k2 Q_act)" using 1 2 by simp
  moreover have "scheduler_choice k2 = Inr k'" using assms a by (simp add: scheduler_def)
  ultimately show thesis using that 2 q by blast
qed

text \<open>The running process is in state \<open>ACTIF\<close> and no process ready to run has a higher priority.\<close>

definition runs_highest :: "kernel \<Rightarrow> bool" where
  "runs_highest k \<longleftrightarrow> (\<exists>pr. heap k (get_current_process k) = Some pr \<and> p_state pr = ACTIF \<and> p_link pr = None \<and>
     (\<forall>p \<in> set (queues k Q_act). \<exists>r. heap k p = Some r \<and> p_prio r \<le> p_prio pr))"

lemma act_prio_le:
  assumes "kwf k" "p \<in> set (queues k Q_act)" "heap k (last (queues k Q_act)) = Some tp"
  obtains r where "heap k p = Some r" "p_link r = Some Q_act" "p_prio r \<le> p_prio tp"
proof -
  obtain r where r: "heap k p = Some r" "p_link r = Some Q_act" using kwf_member [OF assms(1)] assms(2) by blast
  have "qprio k Q_act p \<le> qprio k Q_act (last (queues k Q_act))"
    using kwf_sorted [OF assms(1)] assms(2) by (rule sorted_map_last_max)
  then have "p_prio r \<le> p_prio tp" using r assms(3) by (simp add: qprio_def word_le_def)
  with r show thesis using that by blast
qed

lemma dispatched_runs:
  assumes w: "kwf k" and ne: "queues k Q_act \<noteq> []" and t: "heap k (last (queues k Q_act)) = Some tp"
    and d: "kwf (dispatched k (last (queues k Q_act)) tp)"
  shows "runs_highest (dispatched k (last (queues k Q_act)) tp)"
    "get_current_process (dispatched k (last (queues k Q_act)) tp) = last (queues k Q_act)"
proof -
  let ?k = "dispatched k (last (queues k Q_act)) tp"
  have h: "heap ?k (last (queues k Q_act)) = Some (tp\<lparr>p_link := None, p_state := ACTIF\<rparr>)" by (simp add: dispatched_def)
  have c: "get_current_process ?k = last (queues k Q_act)"
    using kwf_current [OF d h] by (simp add: get_current_process_def getpid_def dispatched_def)
  have "\<exists>r. heap ?k p = Some r \<and> p_prio r \<le> p_prio tp" if "p \<in> set (queues ?k Q_act)" for p
  proof -
    have "p \<in> set (queues k Q_act)" "p \<noteq> last (queues k Q_act)"
      using that distinct_butlast_last [OF kwf_distinct [OF w] ne] by (auto simp: dispatched_def dest: in_set_butlastD)
    then obtain r where "heap k p = Some r" "p_prio r \<le> p_prio tp" using act_prio_le [OF w _ t] by blast
    then show ?thesis using \<open>p \<noteq> _\<close> by (intro exI [of _ r]) (simp add: dispatched_def)
  qed
  then show "runs_highest ?k" using h c by (simp add: runs_highest_def)
  show "get_current_process ?k = last (queues k Q_act)" by (rule c)
qed

text \<open>The choice at the end of the scheduler, once the loops have run.\<close>

lemma swap_runs_highest:
  assumes w: "kwf k" and ne: "queues k Q_act \<noteq> []" and c: "heap k c = Some cp" "p_link cp = None"
    and le: "\<And>tp. heap k (last (queues k Q_act)) = Some tp \<Longrightarrow> p_prio cp \<le> p_prio tp"
    and act: "\<And>p pr. heap k p = Some pr \<Longrightarrow> p_state pr = ACTIF \<Longrightarrow> p = c"
    and d: "dispatch True c k = Inr k'"
  shows "kwf k' \<and> one_actif k' \<and> runs_highest k'"
proof -
  obtain hi tp where t: "hi = last (queues k Q_act)" "heap k hi = Some tp" "p_link tp = Some Q_act"
    and dk: "kwf (dispatched k hi tp)"
    and e: "dispatch True c k = kq_add c Q_act ((dispatched k hi tp)\<lparr>heap := (heap (dispatched k hi tp))(c \<mapsto> cp\<lparr>p_state := ACTIVATABLE\<rparr>)\<rparr>)"
    using dispatch_cases [OF w ne, of c] c by metis
  have ch: "c \<noteq> hi" using t c by auto
  let ?d = "dispatched k hi tp"
  let ?e = "?d\<lparr>heap := (heap ?d)(c \<mapsto> cp\<lparr>p_state := ACTIVATABLE\<rparr>)\<rparr>"
  have hc: "heap ?d c = Some cp" using c ch by (simp add: dispatched_def)
  have we: "kwf ?e" using dk by (rule benign_kwf [rotated]) (use hc in \<open>auto intro: benign_heap_upd simp: stable_def\<close>)
  have k': "k' = ?e\<lparr>heap := (heap ?e)(c \<mapsto> cp\<lparr>p_state := ACTIVATABLE, p_link := Some Q_act\<rparr>),
     queues := (queues ?e)(Q_act := pq_add (qprio ?e Q_act) c (queues ?e Q_act))\<rparr>"
    using d e kq_add_ok [OF we, of c "cp\<lparr>p_state := ACTIVATABLE\<rparr>" Q_act] c by simp
  have w': "kwf k'" using kq_add_kwf [OF we] d e by simp
  have cur: "get_current_process k' = hi"
    using dispatched_runs(2) [OF w ne] t dk by (simp add: k' get_current_process_def get_process_struct_of_pid_def getpid_def)
  have hh: "heap k' hi = Some (tp\<lparr>p_link := None, p_state := ACTIF\<rparr>)" using ch by (simp add: k' dispatched_def)
  have "\<exists>r. heap k' p = Some r \<and> p_prio r \<le> p_prio tp" if "p \<in> set (queues k' Q_act)" for p
  proof (cases "p = c")
    case True
    then show ?thesis using le t by (simp add: k')
  next
    case False
    then have "p \<in> set (queues ?d Q_act)" using that by (simp add: k')
    moreover obtain pr where "heap ?d (get_current_process ?d) = Some pr" "\<forall>p\<in>set (queues ?d Q_act). \<exists>r. heap ?d p = Some r \<and> p_prio r \<le> p_prio pr"
      using dispatched_runs(1) [OF w ne] t dk unfolding runs_highest_def by blast
    moreover have "pr = tp\<lparr>p_link := None, p_state := ACTIF\<rparr>"
      using calculation(2) dispatched_runs(2) [OF w ne] t dk by (simp add: dispatched_def)
    ultimately show ?thesis using False by (auto simp: k')
  qed
  then have "runs_highest k'" using cur hh by (simp add: runs_highest_def)
  moreover have "p = hi" if h: "heap k' p = Some r" "p_state r = ACTIF" for p r
  proof (rule ccontr)
    assume n: "p \<noteq> hi"
    have nc: "p \<noteq> c" using h by (auto simp: k')
    then have "heap k p = Some r" using h n by (simp add: k' dispatched_def)
    then show False using act h nc by blast
  qed
  then have "one_actif k'" using cur by (simp add: one_actif_def)
  ultimately show ?thesis using w' by simp
qed

lemma plain_runs_highest:
  assumes w: "kwf k" and ne: "queues k Q_act \<noteq> []"
    and act: "\<And>p pr. heap k p = Some pr \<Longrightarrow> p_state pr \<noteq> ACTIF"
    and d: "dispatch False c k = Inr k'"
  shows "kwf k' \<and> one_actif k' \<and> runs_highest k'"
proof -
  obtain hi tp where t: "hi = last (queues k Q_act)" "heap k hi = Some tp"
    and dk: "kwf (dispatched k hi tp)" "dispatch False c k = Inr (dispatched k hi tp)"
    using dispatch_cases [OF w ne, of c] by metis
  have k': "k' = dispatched k hi tp" using d dk by simp
  have "one_actif k'"
    using dispatched_runs(2) [OF w ne] t dk act by (auto simp: one_actif_def k' dispatched_def split: if_splits)
  then show ?thesis using dispatched_runs(1) [OF w ne] t dk k' by simp
qed

lemma loops_on_cpu:
  assumes "kwf k2" "frozen 0 k k2" "same_cpu k k2" "on_cpu k" "kwf k"
  shows "get_current_process k2 = get_current_process k" "heap k2 (get_current_process k) = heap k (get_current_process k)"
    "getpid k2 \<noteq> -1"
proof -
  obtain cp where c: "heap k (get_current_process k) = Some cp" "parked cp" "p_pid cp = cur_pid k"
    "get_current_process k \<noteq> 0"
    using on_cpuD [OF assms(5,4)] by blast
  have h: "heap k2 (get_current_process k) = Some cp" using assms(2) c by (simp add: frozen_def)
  then show "heap k2 (get_current_process k) = heap k (get_current_process k)" using c by simp
  show "get_current_process k2 = get_current_process k"
    using kwf_current [OF assms(1) h] c assms(3) by (simp add: get_current_process_def same_cpu_def getpid_def)
  show "getpid k2 \<noteq> -1" using kwf_pid_nonneg [OF assms(1) h] c assms(3) by (simp add: getpid_def same_cpu_def)
qed

text \<open>
  The states in which the scheduler is called after the first launch: a process runs, and
  another one is ready.
\<close>

definition schedulable :: "kernel \<Rightarrow> bool" where
  "schedulable k \<longleftrightarrow> kwf k \<and> one_actif k \<and> on_cpu k \<and> scheduler_main k \<and> started_user_process k \<and>
     queues k Q_act \<noteq> []"

text \<open>The end of the scheduler, for a process that is running.\<close>

lemma scheduler_end:
  assumes s: "schedulable k" and r: "scheduler k = Inr k'"
  obtains k2 cp and tp :: process where "kwf k2" "frozen 0 k k2" "descends k k2" "queues k2 Q_act \<noteq> []"
    "get_current_process k2 = get_current_process k"
    "heap k2 (get_current_process k) = Some cp" "heap k (get_current_process k) = Some cp"
    "parked cp \<and> (p_state cp = ACTIF \<or> p_state cp = KILLED \<longrightarrow> p_link cp = None)"
    "heap k2 (last (queues k2 Q_act)) = Some tp"
    "(if p_state cp = ACTIF then (if p_prio tp \<ge> p_prio cp then dispatch True (get_current_process k) k2 else Inr k2)
      else if p_state cp = KILLED then rbind (kq_add (get_current_process k) Q_dead k2) (dispatch False (get_current_process k))
      else dispatch False (get_current_process k) k2) = Inr k'"
proof -
  have k: "kwf k" "one_actif k" "on_cpu k" "scheduler_main k" "started_user_process k" "queues k Q_act \<noteq> []"
    using s by (simp_all add: schedulable_def)
  obtain k2 where k2: "kwf k2" "frozen 0 k k2" "same_cpu k k2" "descends k k2" "quiet k k2"
    "set (queues k Q_act) \<subseteq> set (queues k2 Q_act)" and sch: "scheduler_choice k2 = Inr k'"
    using r k(1) by (rule scheduler_loops)
  note lc = loops_on_cpu [OF k2(1,2,3) k(3,1)]
  obtain cp where c: "heap k (get_current_process k) = Some cp"
    "parked cp \<and> (p_state cp = ACTIF \<or> p_state cp = KILLED \<longrightarrow> p_link cp = None)" "get_current_process k \<noteq> 0"
    using on_cpuD [OF k(1,3)] by blast
  have ne: "queues k2 Q_act \<noteq> []" using k2(6) k(6) by auto
  obtain tp where t: "heap k2 (last (queues k2 Q_act)) = Some tp" "last (queues k2 Q_act) \<noteq> 0"
    using kq_out_ok [OF k2(1) ne] by blast
  have tq: "kq_top Q_act k2 = last (queues k2 Q_act)" using ne by (simp add: kq_top_def pq_top_def)
  show thesis
    by (rule that [OF k2(1,2,4) ne _ _ c(1,2) t(1)])
       (use sch k2(3,5) k(4,5) lc c t tq in \<open>simp_all add: scheduler_choice_def same_cpu_def quiet_def dref_def Let_def\<close>)
qed

lemma scheduler_best:
  assumes s: "schedulable k" and r: "scheduler k = Inr k'"
  shows "kwf k' \<and> one_actif k' \<and> runs_highest k'"
proof -
  define c where c_def [symmetric]: "c = get_current_process k"
  obtain k2 cp and tp :: process where k2: "kwf k2" "frozen 0 k k2" "descends k k2" and ne: "queues k2 Q_act \<noteq> []"
    and c2: "get_current_process k2 = c" "heap k2 c = Some cp" and c: "heap k c = Some cp"
      "parked cp \<and> (p_state cp = ACTIF \<or> p_state cp = KILLED \<longrightarrow> p_link cp = None)"
    and t: "heap k2 (last (queues k2 Q_act)) = Some tp"
    and e: "(if p_state cp = ACTIF then (if p_prio tp \<ge> p_prio cp then dispatch True c k2 else Inr k2)
      else if p_state cp = KILLED then rbind (kq_add c Q_dead k2) (dispatch False c)
      else dispatch False c k2) = Inr k'"
    by (rule scheduler_end [OF s r, unfolded c_def])
  have act: "p = c" if h: "heap k2 p = Some pr" "p_state pr = ACTIF" for p pr
  proof -
    obtain r where "heap k p = Some r" "p_state r = ACTIF" using k2(3) h by (fastforce simp: descends_def)
    then show ?thesis using s by (simp add: schedulable_def one_actif_def c_def)
  qed
  show ?thesis
  proof (cases "p_state cp = ACTIF")
    case True
    then have cl: "p_link cp = None" using c(2) by blast
    show ?thesis
    proof (cases "p_prio tp \<ge> p_prio cp")
      case True
      then have "dispatch True c k2 = Inr k'" using e \<open>p_state cp = ACTIF\<close> by simp
      moreover have "p_prio cp \<le> p_prio tp'" if "heap k2 (last (queues k2 Q_act)) = Some tp'" for tp'
        using that t True by simp
      ultimately show ?thesis using swap_runs_highest [OF k2(1) ne c2(2) cl] act by blast
    next
      case False
      then have "k' = k2" using e \<open>p_state cp = ACTIF\<close> by simp
      moreover have "\<exists>r. heap k2 p = Some r \<and> p_prio r \<le> p_prio cp" if m: "p \<in> set (queues k2 Q_act)" for p
      proof -
        obtain r where "heap k2 p = Some r" "p_prio r \<le> p_prio tp" using act_prio_le [OF k2(1) m t] by blast
        then show ?thesis using False by auto
      qed
      then have "runs_highest k2" unfolding runs_highest_def using True c2 cl by simp
      moreover have "one_actif k2" unfolding one_actif_def using act c2(1) by simp
      ultimately show ?thesis using k2(1) by simp
    qed
  next
    case False
    then have na: "p_state pr \<noteq> ACTIF" if "heap k2 p = Some pr" for p pr using act that c2 by fastforce
    show ?thesis
    proof (cases "p_state cp = KILLED")
      case True
      then obtain k3 where k3: "kq_add c Q_dead k2 = Inr k3" "dispatch False c k3 = Inr k'"
        using e False by (auto simp: res_simps)
      have "queues k3 Q_act \<noteq> []" using k3(1) ne by (auto simp: kq_add_def elim!: rbindE split: if_split_asm)
      moreover have "p_state pr \<noteq> ACTIF" if "heap k3 p = Some pr" for p pr
        using kq_add_descends [OF k3(1)] that na unfolding descends_def by metis
      ultimately show ?thesis using plain_runs_highest [OF kq_add_kwf [OF k2(1) k3(1)]] k3(2) by blast
    next
      case F: False
      then show ?thesis using plain_runs_highest [OF k2(1) ne na] e False by simp
    qed
  qed
qed

section \<open>The processes the scheduler leaves alone\<close>

lemma dispatch_plain_frozen:
  assumes "kwf k" "queues k Q_act \<noteq> []" "dispatch False c k = Inr k'"
  shows "frozen x k k'"
  unfolding frozen_def
proof (intro allI impI)
  fix p pr
  obtain hi tp where t: "heap k hi = Some tp" "p_link tp = Some Q_act" "dispatch False c k = Inr (dispatched k hi tp)"
    using dispatch_cases [OF assms(1,2), of c] by metis
  assume "heap k p = Some pr" "parked pr"
  moreover then have "p \<noteq> hi" using t(1) not_parked [OF t(2)] by auto
  moreover have "k' = dispatched k hi tp" using assms(3) t(3) by simp
  ultimately show "heap k' p = Some pr" by (simp add: dispatched_def)
qed

lemma dispatch_swap_frozen:
  assumes "kwf k" "queues k Q_act \<noteq> []" "dispatch True c k = Inr k'" "heap k c = Some cp" "p_link cp = None"
  shows "frozen c k k'"
proof -
  obtain hi tp where e: "dispatch False c k = Inr (dispatched k hi tp)"
      "dispatch True c k = kq_add c Q_act ((dispatched k hi tp)\<lparr>heap := (heap (dispatched k hi tp))(c \<mapsto> cp\<lparr>p_state := ACTIVATABLE\<rparr>)\<rparr>)"
    using dispatch_cases [OF assms(1,2), of c] assms(4,5) by metis
  have "frozen c ((dispatched k hi tp)\<lparr>heap := (heap (dispatched k hi tp))(c \<mapsto> cp\<lparr>p_state := ACTIVATABLE\<rparr>)\<rparr>) k'"
    using assms(3) e kq_add_frozen by auto
  moreover have "frozen c k ((dispatched k hi tp)\<lparr>heap := (heap (dispatched k hi tp))(c \<mapsto> cp\<lparr>p_state := ACTIVATABLE\<rparr>)\<rparr>)"
    using dispatch_plain_frozen [OF assms(1,2) e(1), of c] by (simp add: frozen_def)
  ultimately show ?thesis by (rule frozen_trans [rotated])
qed

lemma frozen_0:
  assumes "kwf k" "frozen 0 k k'"
  shows "frozen c k k'"
  unfolding frozen_def
proof (intro allI impI)
  fix p pr
  assume h: "heap k p = Some pr" "parked pr"
  then have "p \<noteq> 0" using kwf_null [OF assms(1)] by (cases "p = 0") auto
  then show "heap k' p = Some pr" using h assms(2) by (simp add: frozen_def)
qed

lemma scheduler_frozen:
  assumes s: "schedulable k" and r: "scheduler k = Inr k'"
  shows "frozen (get_current_process k) k k'"
    and "heap k (get_current_process k) = Some cp \<Longrightarrow> p_state cp \<noteq> ACTIF \<Longrightarrow> p_state cp \<noteq> KILLED \<Longrightarrow>
      heap k' (get_current_process k) = Some cp"
proof -
  let ?c = "get_current_process k"
  obtain k2 cq and tp :: process where e: "kwf k2" "frozen 0 k k2" "descends k k2" "queues k2 Q_act \<noteq> []"
    "get_current_process k2 = ?c" "heap k2 ?c = Some cq" "heap k ?c = Some cq"
    "parked cq \<and> (p_state cq = ACTIF \<or> p_state cq = KILLED \<longrightarrow> p_link cq = None)"
    "heap k2 (last (queues k2 Q_act)) = Some tp"
    "(if p_state cq = ACTIF then (if p_prio tp \<ge> p_prio cq then dispatch True ?c k2 else Inr k2)
      else if p_state cq = KILLED then rbind (kq_add ?c Q_dead k2) (dispatch False ?c)
      else dispatch False ?c k2) = Inr k'"
    by (rule scheduler_end [OF s r])
  have fk2: "frozen ?c k k2" by (rule frozen_0 [OF _ e(2)]) (use s in \<open>simp add: schedulable_def\<close>)
  have "p_state cq = ACTIF \<and> (dispatch True ?c k2 = Inr k' \<or> k' = k2) \<or>
      p_state cq = KILLED \<and> (\<exists>k3. kq_add ?c Q_dead k2 = Inr k3 \<and> dispatch False ?c k3 = Inr k') \<or>
      p_state cq \<noteq> ACTIF \<and> p_state cq \<noteq> KILLED \<and> dispatch False ?c k2 = Inr k'"
    using e(10) by (simp only: rbind_Inr_iff split: if_split_asm) simp_all
  then consider (swap) "p_state cq = ACTIF" "dispatch True ?c k2 = Inr k'" | (stay) "p_state cq = ACTIF" "k' = k2"
    | (dead) k3 where "p_state cq = KILLED" "kq_add ?c Q_dead k2 = Inr k3" "dispatch False ?c k3 = Inr k'"
    | (plain) "p_state cq \<noteq> ACTIF" "p_state cq \<noteq> KILLED" "dispatch False ?c k2 = Inr k'"
    by blast
  then have "frozen ?c k2 k' \<and> (p_state cq \<noteq> ACTIF \<and> p_state cq \<noteq> KILLED \<longrightarrow> heap k' ?c = Some cq)"
  proof cases
    case swap
    then show ?thesis using dispatch_swap_frozen [OF e(1,4) swap(2) e(6)] e(8) by simp
  next
    case dead
    have w3: "kwf k3" using kq_add_kwf [OF e(1) dead(2)] .
    have q3: "queues k3 Q_act \<noteq> []" using dead(2) e(4) by (auto simp: kq_add_def elim!: rbindE split: if_split_asm)
    have "frozen ?c k3 k'" using dispatch_plain_frozen [OF w3 q3 dead(3)] .
    then show ?thesis using kq_add_frozen(1) [OF dead(2)] frozen_trans dead(1) by blast
  next
    case plain
    have f: "frozen x k2 k'" for x using dispatch_plain_frozen [OF e(1,4) plain(3)] .
    have "heap k' ?c = Some cq" using f [of "Suc ?c"] e(6,8) by (simp add: frozen_def)
    then show ?thesis using f by blast
  qed (simp add: frozen_def)
  then show "frozen (get_current_process k) k k'" "heap k (get_current_process k) = Some cp \<Longrightarrow> p_state cp \<noteq> ACTIF \<Longrightarrow>
      p_state cp \<noteq> KILLED \<Longrightarrow> heap k' (get_current_process k) = Some cp"
    using fk2 frozen_trans e(7) by auto
qed

section \<open>The scheduler returns\<close>

text \<open>The negated wake time of a sleeper does not overflow, as the assertion of the code asks.\<close>

definition sleepers_ok :: "kernel \<Rightarrow> bool" where
  "sleepers_ok k \<longleftrightarrow> (\<forall>p \<in> set (queues k Q_asleep). \<forall>pr. heap k p = Some pr \<longrightarrow> 0 \<le> sint (- p_wake_time pr))"

lemma get_next_wake_time_ok:
  assumes "kwf k" "sleepers_ok k"
  shows "\<exists>w. get_next_wake_time k = Inr w" "queues k Q_asleep = [] \<Longrightarrow> get_next_wake_time k = Inr 0"
proof -
  show "\<exists>w. get_next_wake_time k = Inr w"
  proof (cases "queues k Q_asleep = []")
    case False
    then obtain pr where "heap k (last (queues k Q_asleep)) = Some pr" "last (queues k Q_asleep) \<noteq> 0"
      using kq_out_ok [OF assms(1)] by metis
    moreover then have "0 \<le> sint (- p_wake_time pr)"
      using assms(2) last_in_set [OF False] unfolding sleepers_ok_def by blast
    ultimately show ?thesis using False by (simp add: get_next_wake_time_def kq_top_def pq_top_def dref_def)
  qed (simp add: get_next_wake_time_def kq_top_def pq_top_def)
qed (simp add: get_next_wake_time_def kq_top_def pq_top_def)

lemma awake_loop_ok:
  "kwf k \<Longrightarrow> sleepers_ok k \<Longrightarrow> length (queues k Q_asleep) < n \<Longrightarrow>
     \<exists>k'. awake_loop n k = Inr k' \<and> queues k' Q_dead = queues k Q_dead"
proof (induction n arbitrary: k)
  case (Suc n)
  obtain w where w: "get_next_wake_time k = Inr w" using get_next_wake_time_ok(1) Suc.prems(1,2) by blast
  show ?case
  proof (cases "w \<noteq> 0 \<and> current_clock k > w")
    case True
    then have ne: "queues k Q_asleep \<noteq> []" using get_next_wake_time_ok(2) [OF Suc.prems(1,2)] w by auto
    define p where "p = last (queues k Q_asleep)"
    obtain pr where pr: "heap k p = Some pr" "p_link pr = Some Q_asleep"
      and o: "kq_out Q_asleep k = Inr (p, k\<lparr>heap := (heap k)(p \<mapsto> pr\<lparr>p_link := None\<rparr>), queues := (queues k)(Q_asleep := butlast (queues k Q_asleep))\<rparr>)"
      using kq_out_ok [OF Suc.prems(1) ne] unfolding p_def by metis
    let ?k1 = "k\<lparr>heap := (heap k)(p \<mapsto> pr\<lparr>p_link := None\<rparr>), queues := (queues k)(Q_asleep := butlast (queues k Q_asleep))\<rparr>"
    have w1: "kwf ?k1" using kq_out_kwf [OF Suc.prems(1) o] .
    have a: "kq_add p Q_act ?k1 = Inr (?k1\<lparr>heap := (heap ?k1)(p \<mapsto> pr\<lparr>p_link := Some Q_act\<rparr>),
        queues := (queues ?k1)(Q_act := pq_add (qprio ?k1 Q_act) p (queues ?k1 Q_act))\<rparr>)" (is "_ = Inr ?k2")
      using kq_add_ok [OF w1, of p "pr\<lparr>p_link := None\<rparr>" Q_act] by simp
    have w2: "kwf ?k2" using kq_add_kwf [OF w1 a] .
    have s2: "sleepers_ok ?k2" using Suc.prems(2) pr by (auto simp: sleepers_ok_def dest: in_set_butlastD)
    have "length (queues ?k2 Q_asleep) < n" using Suc.prems(3) ne by (simp, cases "queues k Q_asleep") auto
    then obtain k' where "awake_loop n ?k2 = Inr k'" "queues k' Q_dead = queues ?k2 Q_dead"
      using Suc.IH [OF w2 s2] by blast
    then show ?thesis using w True o a by simp
  qed (use w in auto)
qed simp

lemma scheduler_returns_lemma:
  assumes s: "schedulable k" and d: "queues k Q_dead = []" and sl: "sleepers_ok k"
  shows "\<exists>k'. scheduler k = Inr k'"
proof -
  let ?c = "get_current_process k"
  have k: "kwf k" "on_cpu k" using s by (simp_all add: schedulable_def)
  obtain k1 where a: "awake_sleeping_process k = Inr k1" "queues k1 Q_dead = []"
    using awake_loop_ok [OF k(1) sl, of "Suc (length (queues k Q_asleep))"] d
    unfolding awake_sleeping_process_def by auto
  have f: "free_dead_process k1 = Inr k1" using a(2) by (simp add: free_dead_process_def)
  have 1: "kwf k1 \<and> frozen 0 k k1 \<and> same_cpu k k1" "set (queues k Q_act) \<subseteq> set (queues k1 Q_act)"
    using a(1) k(1) awake_loop_keeps awake_loop_descends unfolding awake_sleeping_process_def by blast+
  have q: "quiet k k1" using a(1) awake_loop_quiet unfolding awake_sleeping_process_def by blast
  have w1: "kwf k1" using 1 by simp
  note lc = loops_on_cpu [OF w1 _ _ k(2,1)]
  obtain cp where c: "heap k ?c = Some cp" "parked cp" "?c \<noteq> 0"
    and cl: "p_state cp = ACTIF \<or> p_state cp = KILLED \<longrightarrow> p_link cp = None" using on_cpuD [OF k] by blast
  have c1: "heap k1 ?c = Some cp" "get_current_process k1 = ?c" "getpid k1 \<noteq> -1" using lc 1 c by simp_all
  have ne: "queues k1 Q_act \<noteq> []" using 1(2) s by (auto simp: schedulable_def)
  obtain tp where t: "heap k1 (last (queues k1 Q_act)) = Some tp" "last (queues k1 Q_act) \<noteq> 0"
    using kq_out_ok [OF w1 ne] by metis
  have tq: "kq_top Q_act k1 = last (queues k1 Q_act)" using ne by (simp add: kq_top_def pq_top_def)
  have plain: "\<exists>k'. dispatch False ?c x = Inr k'" if "kwf x" "queues x Q_act \<noteq> []" for x
    using dispatch_cases [OF that, of ?c] by metis
  note swap = dispatch_swap_ok [OF w1 ne c1(1)]
  have dead: "\<exists>k'. rbind (kq_add ?c Q_dead k1) (dispatch False ?c) = Inr k'" if "p_link cp = None"
  proof -
    have a: "kq_add ?c Q_dead k1 = Inr (k1\<lparr>heap := (heap k1)(?c \<mapsto> cp\<lparr>p_link := Some Q_dead\<rparr>),
        queues := (queues k1)(Q_dead := pq_add (qprio k1 Q_dead) ?c (queues k1 Q_dead))\<rparr>)"
      using kq_add_ok [OF w1 c1(1) that] .
    show ?thesis using plain [OF kq_add_kwf [OF w1 a]] ne by (simp add: a)
  qed
  have sc: "scheduler_choice k1 = (if p_state cp = ACTIF then (if p_prio tp \<ge> p_prio cp then dispatch True ?c k1 else Inr k1)
      else if p_state cp = KILLED then rbind (kq_add ?c Q_dead k1) (dispatch False ?c) else dispatch False ?c k1)"
    using c1 c(3) t tq s q 1(1)
    by (simp add: scheduler_choice_def Let_def dref_def schedulable_def quiet_def same_cpu_def)
  consider "p_state cp = ACTIF" "p_prio tp \<ge> p_prio cp" | "p_state cp = ACTIF" "\<not> p_prio tp \<ge> p_prio cp"
    | "p_state cp \<noteq> ACTIF" "p_state cp = KILLED" | "p_state cp \<noteq> ACTIF" "p_state cp \<noteq> KILLED" by blast
  then have "\<exists>k'. scheduler_choice k1 = Inr k'"
  proof cases
    case 1
    then show ?thesis using swap cl sc by simp
  next
    case 2
    then show ?thesis using sc by simp
  next
    case 3
    then show ?thesis using dead cl sc by simp
  next
    case 4
    then show ?thesis using plain [OF w1 ne] sc by simp
  qed
  then show ?thesis using a(1) f by (simp add: scheduler_def)
qed

section \<open>A small kernel\<close>

text \<open>Idle (pid 1) and a process of priority 5 (pid 3) are ready, pid 2 runs and pid 4 waits for a child.\<close>

definition no_mem :: proc_mem where
  "no_mem = \<lparr>page_table_level_2 = 0, page_tables_lvl_1_list = None,
     mem_info = \<lparr>code_usage = 0, stack_usage = 0, heap_usage = 0, shared_pages_usage = 0, sbrk_pointer = 0,
       start_heap_add = 0\<rparr>, stack_shift = 0, sscratch_frame = 0\<rparr>"

definition plain_process :: "int \<Rightarrow> u16 \<Rightarrow> process_state \<Rightarrow> qid option \<Rightarrow> process" where
  "plain_process i pr st l = \<lparr>p_pid = i, p_name = ''p'', p_state = st, p_ssize = 0, p_prio = pr, p_parent = 0,
     p_children_head = 0, p_children_tail = 0, p_next_sibling = 0, p_link = l, p_return_value = 0, p_mem = no_mem,
     p_shared_table = None, p_shared_pages = None, p_released = [], p_wake_time = 0,
     p_message = \<lparr>m_value = 0, m_status = RECEIVED, m_blocked_head = None\<rparr>, p_sem_signal = 0, p_semaphore_id = 0,
     p_input_type = CONSOLE_INPUT\<rparr>"

definition small_kernel :: kernel where
  "small_kernel = \<lparr>heap = [1 \<mapsto> plain_process 1 1 ACTIVATABLE (Some Q_act), 2 \<mapsto> plain_process 2 3 ACTIF None,
       3 \<mapsto> plain_process 3 5 ACTIVATABLE (Some Q_act), 4 \<mapsto> plain_process 4 7 BLOCKEDWAITCHILD None],
     fresh = 5, pid_table = [1 \<mapsto> 1, 2 \<mapsto> 2, 3 \<mapsto> 3, 4 \<mapsto> 4], cur_pid = 2, pid_iterator = 4, nb_proc_running = 4,
     process_id_list = [], forked_data_list = 0, fork_nodes = Map.empty, queues = (\<lambda>_. [])(Q_act := [1, 3]), time_counter = 0, scheduler_main = True,
     started_user_process = True, sem_table = Map.empty, semaphore_id_counter = 0, currently_running_semaphores = 0,
     parent_block = False, all_queues = [], shared_memory = Map.empty, page_id_counter = 0,
     kmm = \<lparr>frames = boot4, mallocs = []\<rparr>, kernel_base_page_table = 0\<rparr>"

lemma plain_process_fields [simp]:
  "p_pid (plain_process i pr st l) = i" "p_prio (plain_process i pr st l) = pr"
  "p_state (plain_process i pr st l) = st" "p_link (plain_process i pr st l) = l"
  "p_wake_time (plain_process i pr st l) = 0"
  by (simp_all add: plain_process_def)

lemma small_kernel_schedulable: "schedulable small_kernel"
proof -
  have "queues_wf small_kernel" by (simp add: queues_wf_def small_kernel_def qprio_def)
  moreover have "links_wf small_kernel" by (auto simp: links_wf_def small_kernel_def)
  moreover have "pids_wf small_kernel" by (auto simp: pids_wf_def small_kernel_def)
  ultimately have "kwf small_kernel" by (simp add: kwf_def small_kernel_def)
  moreover have "get_current_process small_kernel = 2"
    by (simp add: get_current_process_def get_process_struct_of_pid_def getpid_def small_kernel_def)
  ultimately show ?thesis by (simp add: schedulable_def one_actif_def on_cpu_def) (simp add: small_kernel_def)
qed

lemma small_kernel_returns: "\<exists>k'. scheduler small_kernel = Inr k'"
  by (rule scheduler_returns_lemma [OF small_kernel_schedulable]) (simp_all add: small_kernel_def sleepers_ok_def)

section \<open>Properties\<close>

text \<open>
  C2. The scheduler is a priority scheduler: when it returns, the running process is in state
  ACTIF and in no queue, no ready process has a higher priority, no other process is in state
  ACTIF, and the queues, the links and the process table are consistent.
\<close>

theorem scheduler_picks_highest:
  assumes "schedulable k" "scheduler k = Inr k'"
  shows "kwf k' \<and> (\<exists>pr. heap k' (get_current_process k') = Some pr \<and> p_state pr = ACTIF \<and> p_link pr = None \<and>
     (\<forall>p \<in> set (queues k' Q_act). \<exists>r. heap k' p = Some r \<and> p_prio r \<le> p_prio pr)) \<and>
     (\<forall>p pr. heap k' p = Some pr \<longrightarrow> p_state pr = ACTIF \<longrightarrow> p = get_current_process k')"
  using scheduler_best [OF assms] unfolding runs_highest_def one_actif_def by blast

theorem scheduler_picks_highest_witness:
  "\<exists>k'. scheduler small_kernel = Inr k' \<and> kwf k' \<and> (\<exists>pr. heap k' (get_current_process k') = Some pr \<and> p_state pr = ACTIF)"
  using small_kernel_returns scheduler_picks_highest [OF small_kernel_schedulable] by blast

text \<open>
  C5. The scheduler returns: with no dead process to bury and wake times in range, no assertion
  fails, no null or freed process is touched and both loops end within their fuel.
\<close>

theorem scheduler_returns:
  assumes "schedulable k" "queues k Q_dead = []" "sleepers_ok k"
  shows "\<exists>k'. scheduler k = Inr k'"
  using assms by (rule scheduler_returns_lemma)

theorem scheduler_returns_witness: "\<exists>k'. scheduler small_kernel = Inr k'"
  by (rule scheduler_returns [OF small_kernel_schedulable]) (simp_all add: small_kernel_def sleepers_ok_def)

text \<open>
  The scheduler does not touch a process that is in none of its queues, such as one blocked
  on a semaphore or waiting for a child, nor the running process when it has blocked itself.
\<close>

theorem scheduler_leaves_blocked:
  assumes "schedulable k" "scheduler k = Inr k'" "heap k p = Some pr"
    "p_link pr \<notin> {Some Q_act, Some Q_asleep, Some Q_dead}" "p_state pr \<noteq> ACTIF" "p_state pr \<noteq> KILLED"
  shows "heap k' p = Some pr"
  using scheduler_frozen [OF assms(1,2)] assms(3-) by (cases "p = get_current_process k") (auto simp: frozen_def parked_def)

theorem scheduler_leaves_blocked_witness:
  "\<exists>k'. scheduler small_kernel = Inr k' \<and> heap k' 4 = Some (plain_process 4 7 BLOCKEDWAITCHILD None)"
proof -
  obtain k' where "scheduler small_kernel = Inr k'" using small_kernel_returns by blast
  moreover from this have "heap k' 4 = Some (plain_process 4 7 BLOCKEDWAITCHILD None)"
    by (rule scheduler_leaves_blocked [OF small_kernel_schedulable]) (simp_all add: small_kernel_def)
  ultimately show ?thesis by blast
qed

end
