(* ===== verification/SemInv.thy ===== *)
theory SemInv
  imports KSched
begin

text \<open>
  The invariant of the semaphores: the list of a semaphore holds, without duplicates and in
  descending priority, processes blocked on it, and there are as many as the count is negative.
  Every operation keeps it.
\<close>

section \<open>The invariant\<close>

definition blk :: "semaphore \<Rightarrow> ptr option list" where
  "blk s = (case sem_blocked s of None \<Rightarrow> [] | Some l \<Rightarrow> l)"

definition prio_of :: "kernel \<Rightarrow> ptr \<Rightarrow> u16" where
  "prio_of k p = (case heap k p of None \<Rightarrow> 0 | Some pr \<Rightarrow> p_prio pr)"

definition waiting_on :: "kernel \<Rightarrow> int \<Rightarrow> ptr \<Rightarrow> bool" where
  "waiting_on k i p \<longleftrightarrow> (\<exists>pr. heap k p = Some pr \<and> p_state pr = BLOCKEDSEMAPHORE \<and> p_link pr = None \<and>
     p_semaphore_id pr = i)"

definition waiters :: "kernel \<Rightarrow> int \<Rightarrow> ptr list \<Rightarrow> bool" where
  "waiters k i ps \<longleftrightarrow> distinct ps \<and> (\<forall>p \<in> set ps. waiting_on k i p) \<and>
     sorted_wrt (\<lambda>p q. prio_of k q \<le> prio_of k p) ps"

definition count_ok :: "semaphore \<Rightarrow> bool" where
  "count_ok s \<longleftrightarrow> int (length (blk s)) = max 0 (- sem_count s) \<and> MIN_COUNT \<le> sem_count s \<and> sem_count s \<le> MAX_COUNT"

text \<open>\<open>J\<close>: the semaphores in the middle of an operation.\<close>

definition semwf_but :: "int set \<Rightarrow> kernel \<Rightarrow> bool" where
  "semwf_but J k \<longleftrightarrow> (\<forall>i s. sem_table k i = Some s \<longrightarrow>
     (\<exists>ps. blk s = map Some ps \<and> waiters k i ps) \<and> (i \<notin> J \<longrightarrow> count_ok s))"

definition semwf :: "kernel \<Rightarrow> bool" where
  "semwf k \<longleftrightarrow> semwf_but {} k"

lemma blk_simps [simp]: "blk (s\<lparr>sem_blocked := Some l\<rparr>) = l" "blk (s\<lparr>sem_count := c\<rparr>) = blk s"
  by (simp_all add: blk_def)

lemma semwf_butD:
  assumes "semwf_but J k" "sem_table k i = Some s"
  obtains ps where "blk s = map Some ps" "waiters k i ps" "i \<notin> J \<longrightarrow> count_ok s"
  using assms unfolding semwf_but_def by blast

section \<open>Frame lemmas\<close>

lemma waiters_cong:
  assumes "waiters k i ps" "\<And>p. p \<in> set ps \<Longrightarrow> waiting_on k i p \<Longrightarrow> heap k' p = heap k p"
  shows "waiters k' i ps"
proof -
  have h: "heap k' p = heap k p" if "p \<in> set ps" for p using assms that by (simp add: waiters_def)
  have "sorted_wrt (\<lambda>p q. prio_of k' q \<le> prio_of k' p) ps"
    using assms(1) h unfolding waiters_def by (auto intro: sorted_wrt_mono_rel [rotated] simp: prio_of_def)
  then show ?thesis using assms(1) h by (simp add: waiters_def waiting_on_def)
qed

text \<open>A change of one semaphore and of processes that wait on no other one.\<close>

lemma semwf_but_update:
  assumes w: "semwf_but J k" and t: "sem_table k' = (sem_table k)(i := so)"
    and h: "\<And>p j. j \<noteq> i \<Longrightarrow> waiting_on k j p \<Longrightarrow> heap k' p = heap k p"
    and s: "\<And>s. so = Some s \<Longrightarrow> (\<exists>ps. blk s = map Some ps \<and> waiters k' i ps) \<and> (i \<notin> J' \<longrightarrow> count_ok s)"
    and J: "J - {i} \<subseteq> J'"
  shows "semwf_but J' k'"
  unfolding semwf_but_def
proof (intro allI impI)
  fix j s
  assume j: "sem_table k' j = Some s"
  show "(\<exists>ps. blk s = map Some ps \<and> waiters k' j ps) \<and> (j \<notin> J' \<longrightarrow> count_ok s)"
  proof (cases "j = i")
    case False
    then have "sem_table k j = Some s" using j t by simp
    then obtain ps where "blk s = map Some ps" "waiters k j ps" "j \<notin> J \<longrightarrow> count_ok s"
      by (rule semwf_butD [OF w])
    moreover have "waiters k' j ps" using calculation(2) by (rule waiters_cong) (use h False in blast)
    ultimately show ?thesis using J False by blast
  qed (use j t s in simp)
qed

lemma semwf_but_heap:
  assumes "semwf_but J k" "sem_table k' = sem_table k" "\<And>p j. waiting_on k j p \<Longrightarrow> heap k' p = heap k p"
  shows "semwf_but J k'"
  unfolding semwf_but_def
proof (intro allI impI)
  fix j s
  assume j: "sem_table k' j = Some s"
  obtain ps where "blk s = map Some ps" "waiters k j ps" "j \<notin> J \<longrightarrow> count_ok s"
    by (rule semwf_butD [OF assms(1) j [unfolded assms(2)]])
  moreover have "waiters k' j ps" using calculation(2) by (rule waiters_cong) (use assms(3) in blast)
  ultimately show "(\<exists>ps. blk s = map Some ps \<and> waiters k' j ps) \<and> (j \<notin> J \<longrightarrow> count_ok s)" by blast
qed

section \<open>The running process\<close>

definition cpu_ok :: "kernel \<Rightarrow> bool" where
  "cpu_ok k \<longleftrightarrow> kwf k \<and> one_actif k \<and> scheduler_main k \<and> started_user_process k \<and>
     (\<exists>pr. heap k (get_current_process k) = Some pr \<and> p_state pr = ACTIF \<and> p_link pr = None)"

lemma cpu_ok_schedulable: "cpu_ok k \<Longrightarrow> queues k Q_act \<noteq> [] \<Longrightarrow> schedulable k"
  by (auto simp: cpu_ok_def schedulable_def on_cpu_def)

lemma scheduler_started:
  assumes "schedulable k" "scheduler k = Inr k'"
  shows "started_user_process k'"
proof -
  obtain k2 where k2: "kwf k2" "same_cpu k k2" "scheduler_choice k2 = Inr k'"
    using scheduler_loops [OF assms(2)] assms(1) unfolding schedulable_def by metis
  have d: "started_user_process y = started_user_process x" if "dispatch sw c x = Inr y" for sw c x y
    using that by (auto simp: dispatch_def kq_out_def kq_add_def pmod_def setpid_def Let_def elim!: rbindE
        split: if_split_asm option.split_asm prod.split_asm)
  have a: "started_user_process y = started_user_process x" if "kq_add c q x = Inr y" for c q x y
    using that by (auto simp: kq_add_def elim!: rbindE split: if_split_asm)
  have "started_user_process k2" using k2(2) assms(1) by (simp add: same_cpu_def schedulable_def)
  then show ?thesis using k2(3)
    by (auto simp: scheduler_choice_def Let_def elim!: rbindE split: if_split_asm dest!: d a)
qed

lemma scheduler_cpu_ok:
  assumes "schedulable k" "scheduler k = Inr k'"
  shows "cpu_ok k'"
  using scheduler_best [OF assms] scheduler_started [OF assms] scheduler_quiet [OF assms(2)] assms(1)
  by (auto simp: cpu_ok_def runs_highest_def schedulable_def quiet_def)

lemma scheduler_semwf:
  assumes "schedulable k" "scheduler k = Inr k'" "semwf k"
  shows "semwf k'"
proof -
  have "heap k' p = heap k p" if w: "waiting_on k j p" for p j
  proof -
    obtain pr where pr: "heap k p = Some pr" "p_state pr = BLOCKEDSEMAPHORE" "p_link pr = None"
      using w by (auto simp: waiting_on_def)
    then show ?thesis using scheduler_frozen [OF assms(1,2)] by (cases "p = get_current_process k") (auto simp: frozen_def)
  qed
  moreover have "sem_table k' = sem_table k" using scheduler_quiet [OF assms(2)] by (simp add: quiet_def)
  ultimately show ?thesis using semwf_but_heap [of "{}" k k'] assms(3) by (auto simp: semwf_def)
qed

text \<open>The end of every system call on semaphores.\<close>

definition sem_inv :: "kernel \<Rightarrow> bool" where
  "sem_inv k \<longleftrightarrow> cpu_ok k \<and> semwf k \<and> \<not> parent_block k"

lemma scheduler_sem_inv:
  assumes "schedulable k" "scheduler k = Inr k'" "semwf k" "\<not> parent_block k"
  shows "sem_inv k'"
  using scheduler_cpu_ok [OF assms(1,2)] scheduler_semwf [OF assms(1-3)] scheduler_quiet [OF assms(2)] assms(4)
  by (simp add: sem_inv_def quiet_def)

lemma sem_inv_end:
  assumes "scheduler k = Inr k'" "cpu_ok k" "queues k Q_act \<noteq> []" "semwf k" "\<not> parent_block k"
  shows "sem_inv k'"
  using scheduler_sem_inv [OF cpu_ok_schedulable [OF assms(2,3)] assms(1,4,5)] .

section \<open>Waking the first process\<close>

text \<open>What a step keeps of the state of the running process.\<close>

lemma cpu_ok_step:
  assumes c: "cpu_ok k" and w: "kwf k'" and q: "cur_pid k' = cur_pid k" "pid_table k' = pid_table k"
    "scheduler_main k' = scheduler_main k" "started_user_process k' = started_user_process k"
    and h: "heap k' (get_current_process k) = heap k (get_current_process k)"
    and a: "\<And>p pr. heap k' p = Some pr \<Longrightarrow> p_state pr = ACTIF \<Longrightarrow> \<exists>r. heap k p = Some r \<and> p_state r = ACTIF"
  shows "cpu_ok k'"
proof -
  have g: "get_current_process k' = get_current_process k"
    using q by (simp add: get_current_process_def get_process_struct_of_pid_def getpid_def)
  have "one_actif k'"
    unfolding one_actif_def g
  proof (intro allI impI)
    fix p pr
    assume "heap k' p = Some pr" "p_state pr = ACTIF"
    then obtain r where "heap k p = Some r" "p_state r = ACTIF" using a by blast
    then show "p = get_current_process k" using c by (simp add: cpu_ok_def one_actif_def)
  qed
  then show ?thesis using c w q h by (simp add: cpu_ok_def g)
qed

lemma kq_add_effect:
  assumes "kq_add p q k = Inr k'"
  obtains pr where "heap k p = Some pr" "p_link pr = None" "p \<noteq> 0"
    "k' = k\<lparr>heap := (heap k)(p \<mapsto> pr\<lparr>p_link := Some q\<rparr>), queues := (queues k)(q := pq_add (qprio k q) p (queues k q))\<rparr>"
  using assms by (auto simp: kq_add_def dref_Some rassert_Inr_iff elim!: rbindE split: if_split_asm)

lemma set_blocked_fields [simp]:
  "heap (set_blocked i l k) = heap k" "queues (set_blocked i l k) = queues k"
  "pid_table (set_blocked i l k) = pid_table k" "cur_pid (set_blocked i l k) = cur_pid k"
  "scheduler_main (set_blocked i l k) = scheduler_main k"
  "started_user_process (set_blocked i l k) = started_user_process k"
  "parent_block (set_blocked i l k) = parent_block k"
  by (simp_all add: set_blocked_def)

lemma unblock_process_sem_empty:
  assumes "sem_table k i = Some s" "blk s = []"
  shows "unblock_process_sem i sg k = Inr (1, k)"
  using assms by (simp add: unblock_process_sem_def get_semaphore_struct_def blk_def split: option.splits)

lemma unblock_process_sem_first:
  assumes c: "cpu_ok k" and w: "semwf_but {i} k" and s: "sem_table k i = Some s" "blk s = Some p # ns"
    and u: "unblock_process_sem i sg k = Inr (r, k')"
  shows "r = 0 \<and> cpu_ok k' \<and> semwf_but {i} k' \<and> sem_table k' i = Some (s\<lparr>sem_blocked := Some ns\<rparr>) \<and>
     parent_block k' = parent_block k \<and> queues k' Q_act \<noteq> []"
proof -
  obtain ps where ps: "blk s = map Some ps" "waiters k i ps" by (rule semwf_butD [OF w s(1)])
  obtain qs where qs: "ps = p # qs" "ns = map Some qs" using s(2) ps(1) by (cases ps) auto
  obtain pr where pr: "heap k p = Some pr" "p_state pr = BLOCKEDSEMAPHORE" "p_link pr = None" "p_semaphore_id pr = i"
    using ps(2) qs by (auto simp: waiters_def waiting_on_def)
  have kw: "kwf k" using c by (simp add: cpu_ok_def)
  have p0: "p \<noteq> 0" using kwf_null [OF kw] pr(1) by (cases "p = 0") auto
  have pc: "p \<noteq> get_current_process k" using c pr by (auto simp: cpu_ok_def)
  define k0 where "k0 = set_blocked i ns k"
  define k1 where "k1 = k0\<lparr>heap := (heap k)(p \<mapsto> pr\<lparr>p_state := ACTIVATABLE\<rparr>)\<rparr>"
  define k2 where "k2 = k1\<lparr>heap := (heap k)(p \<mapsto> pr\<lparr>p_state := ACTIVATABLE, p_link := Some Q_act\<rparr>),
    queues := (queues k)(Q_act := pq_add (qprio k1 Q_act) p (queues k Q_act))\<rparr>"
  define k3 where "k3 = k2\<lparr>heap := (heap k)(p \<mapsto> pr\<lparr>p_state := ACTIVATABLE, p_link := Some Q_act, p_sem_signal := sg\<rparr>)\<rparr>"
  have b1: "benign k k1" unfolding k1_def k0_def using pr(1)
    by (auto simp: benign_def stable_def option.rel_refl)
  have w1: "kwf k1" using benign_kwf [OF b1 kw] .
  have a1: "kq_add p Q_act k1 = Inr k2"
    using kq_add_ok [OF w1, of p "pr\<lparr>p_state := ACTIVATABLE\<rparr>" Q_act] pr(3) by (simp add: k1_def k2_def k0_def)
  have b3: "benign k2 k3" unfolding k3_def k2_def by (auto simp: benign_def stable_def option.rel_refl)
  have w3: "kwf k3" using benign_kwf [OF b3 kq_add_kwf [OF w1 a1]] .
  have bl: "sem_blocked s = Some (Some p # ns)" using s(2) by (cases "sem_blocked s") (auto simp: blk_def)
  have k': "r = 0" "k' = k3"
    using u s(1) bl a1 p0 pr(1)
    by (auto simp: unblock_process_sem_def get_semaphore_struct_def node_proc_def pmod_def dref_def
        k0_def [symmetric] k1_def [symmetric] elim!: rbindE) (simp_all add: k0_def k1_def k2_def k3_def)
  have t: "sem_table k3 = (sem_table k)(i \<mapsto> s\<lparr>sem_blocked := Some ns\<rparr>)"
    using s(1) by (simp add: k3_def k2_def k1_def k0_def set_blocked_def)
  have h3: "heap k3 x = heap k x" if "x \<noteq> p" for x using that by (simp add: k3_def)
  have "cpu_ok k3"
    using c w3 by (rule cpu_ok_step) (use pc in \<open>auto simp: k3_def k2_def k1_def k0_def split: if_split_asm\<close>)
  moreover have "semwf_but {i} k3"
  proof (rule semwf_but_update [OF w t])
    show "heap k3 x = heap k x" if "j \<noteq> i" "waiting_on k j x" for x j
      using that pr by (intro h3) (auto simp: waiting_on_def)
    have "waiters k i qs" using ps(2) qs by (simp add: waiters_def)
    moreover have "heap k3 x = heap k x" if "x \<in> set qs" for x using that ps(2) qs by (intro h3) (auto simp: waiters_def)
    ultimately have "waiters k3 i qs" by (rule waiters_cong)
    then show "(\<exists>ps. blk s' = map Some ps \<and> waiters k3 i ps) \<and> (i \<notin> {i} \<longrightarrow> count_ok s')"
      if "Some (s\<lparr>sem_blocked := Some ns\<rparr>) = Some s'" for s' using that qs by auto
  qed simp
  ultimately show ?thesis using k' t by (simp add: k3_def k2_def k1_def k0_def)
qed

section \<open>Fields the process management does not look at\<close>

lemma kwf_fields [simp]:
  "kwf (k\<lparr>sem_table := t\<rparr>) = kwf k" "kwf (k\<lparr>parent_block := b\<rparr>) = kwf k" "kwf (k\<lparr>kmm := m\<rparr>) = kwf k"
  "kwf (k\<lparr>currently_running_semaphores := n\<rparr>) = kwf k" "kwf (k\<lparr>semaphore_id_counter := n\<rparr>) = kwf k"
  by (simp_all add: kwf_def queues_wf_def links_wf_def pids_wf_def qprio_def [abs_def])

lemma current_fields [simp]:
  "get_current_process (k\<lparr>sem_table := t\<rparr>) = get_current_process k"
  "get_current_process (k\<lparr>parent_block := b\<rparr>) = get_current_process k"
  "get_current_process (k\<lparr>kmm := m\<rparr>) = get_current_process k"
  "get_current_process (k\<lparr>currently_running_semaphores := n\<rparr>) = get_current_process k"
  "get_current_process (k\<lparr>semaphore_id_counter := n\<rparr>) = get_current_process k"
  by (simp_all add: get_current_process_def get_process_struct_of_pid_def getpid_def)

lemma cpu_ok_fields [simp]:
  "cpu_ok (k\<lparr>sem_table := t\<rparr>) = cpu_ok k" "cpu_ok (k\<lparr>parent_block := b\<rparr>) = cpu_ok k"
  "cpu_ok (k\<lparr>kmm := m\<rparr>) = cpu_ok k" "cpu_ok (k\<lparr>currently_running_semaphores := n\<rparr>) = cpu_ok k"
  "cpu_ok (k\<lparr>semaphore_id_counter := n\<rparr>) = cpu_ok k"
  by (simp_all add: cpu_ok_def one_actif_def)

lemma waiters_fields [simp]:
  "waiters (k\<lparr>sem_table := t\<rparr>) i ps = waiters k i ps" "waiters (k\<lparr>parent_block := b\<rparr>) i ps = waiters k i ps"
  "waiters (k\<lparr>kmm := m\<rparr>) i ps = waiters k i ps"
  "waiters (k\<lparr>currently_running_semaphores := n\<rparr>) i ps = waiters k i ps"
  "waiters (k\<lparr>semaphore_id_counter := n\<rparr>) i ps = waiters k i ps"
  by (simp_all add: waiters_def waiting_on_def prio_of_def)

lemma semwf_but_fields [simp]:
  "semwf_but J (k\<lparr>parent_block := b\<rparr>) = semwf_but J k" "semwf_but J (k\<lparr>kmm := m\<rparr>) = semwf_but J k"
  "semwf_but J (k\<lparr>currently_running_semaphores := n\<rparr>) = semwf_but J k"
  "semwf_but J (k\<lparr>semaphore_id_counter := n\<rparr>) = semwf_but J k"
  by (simp_all add: semwf_but_def)

lemma semwf_but_table:
  assumes "semwf_but J k" "\<And>s. so = Some s \<Longrightarrow> (\<exists>ps. blk s = map Some ps \<and> waiters k i ps) \<and> (i \<notin> J' \<longrightarrow> count_ok s)"
    "J - {i} \<subseteq> J'"
  shows "semwf_but J' (k\<lparr>sem_table := (sem_table k)(i := so)\<rparr>)"
  using assms by (intro semwf_but_update [OF assms(1), of _ i so]) simp_all

text \<open>Ending an operation: the semaphore left in the middle has its count right again.\<close>

lemma semwf_but_end:
  assumes "semwf_but {i} k" "\<And>s. sem_table k i = Some s \<Longrightarrow> count_ok s"
  shows "semwf k"
  unfolding semwf_def semwf_but_def
proof (intro allI impI)
  fix j s
  assume "sem_table k j = Some s"
  then show "(\<exists>ps. blk s = map Some ps \<and> waiters k j ps) \<and> (j \<notin> {} \<longrightarrow> count_ok s)"
    using assms by (cases "j = i") (auto simp: semwf_but_def)
qed

lemma semwf_but_mono: "semwf k \<Longrightarrow> semwf_but J k"
  by (auto simp: semwf_def semwf_but_def)

section \<open>Waking all the processes\<close>

lemma unblock_all_inv:
  "cpu_ok k \<Longrightarrow> semwf_but {i} k \<Longrightarrow> sem_table k i = Some s \<Longrightarrow> unblock_all n i sg k = Inr k' \<Longrightarrow>
     cpu_ok k' \<and> semwf_but {i} k' \<and> parent_block k' = parent_block k \<and>
     (queues k Q_act \<noteq> [] \<longrightarrow> queues k' Q_act \<noteq> []) \<and>
     (\<exists>s'. sem_table k' i = Some s' \<and> blk s' = [] \<and> sem_count s' = sem_count s)"
proof (induction n arbitrary: k s)
  case (Suc n)
  show ?case
  proof (cases "blk s")
    case Nil
    then show ?thesis using Suc.prems unblock_process_sem_empty [OF Suc.prems(3) Nil] by auto
  next
    case (Cons x ns)
    then obtain p where p: "blk s = Some p # ns" using Suc.prems(2,3) by (auto elim!: semwf_butD)
    obtain r k1 where u: "unblock_process_sem i sg k = Inr (r, k1)" using Suc.prems(4) by (auto elim!: rbindE)
    note f = unblock_process_sem_first [OF Suc.prems(1-3) p u]
    then have "unblock_all n i sg k1 = Inr k'" using Suc.prems(4) u by simp
    from Suc.IH [OF _ _ _ this] show ?thesis using f by fastforce
  qed
qed simp

lemma unblock_all_total:
  assumes "cpu_ok k" "semwf_but {i} k" "sem_table k i = Some s" "length (blk s) < n"
  shows "unblock_all n i sg k \<noteq> Inl No_return"
  using assms
proof (induction n arbitrary: k s)
  case (Suc n)
  show ?case
  proof (cases "blk s")
    case Nil
    then show ?thesis using unblock_process_sem_empty [OF Suc.prems(3) Nil] by simp
  next
    case (Cons x ns)
    then obtain p where p: "blk s = Some p # ns" using Suc.prems(2,3) by (auto elim!: semwf_butD)
    show ?thesis
    proof (cases "unblock_process_sem i sg k")
      case (Inl e)
      have "e \<noteq> No_return" if "unblock_process_sem i sg k = Inl e"
        using that by (auto simp: unblock_process_sem_def node_proc_def pmod_def dref_def kq_add_def rassert_def
            split: option.split_asm list.split_asm if_split_asm)
      then show ?thesis using Inl by simp
    next
      case (Inr b)
      obtain r k1 where u: "unblock_process_sem i sg k = Inr (r, k1)" using Inr by (cases b) auto
      note f = unblock_process_sem_first [OF Suc.prems(1-3) p u]
      have "length (blk (s\<lparr>sem_blocked := Some ns\<rparr>)) < n" using p Suc.prems(4) by simp
      from Suc.IH [OF _ _ _ this] show ?thesis using f u by simp
    qed
  qed
qed simp

section \<open>The operations\<close>

lemma count_okD:
  assumes "count_ok s"
  shows "int (length (blk s)) = max 0 (- sem_count s)" "MIN_COUNT \<le> sem_count s" "sem_count s \<le> MAX_COUNT"
  using assms by (simp_all add: count_ok_def)

text \<open>\<^verbatim>\<open>signal\<close> up to its call of the scheduler.\<close>

lemma signal_pre:
  assumes c: "cpu_ok k" and w: "semwf k" and s: "sem_table k i = Some s" and m: "sem_count s \<noteq> MAX_COUNT"
    and sg: "signal i k = Inr (r, k')"
  obtains k2 where "cpu_ok k2" "semwf k2" "parent_block k2 = parent_block k" "r = 0"
    "queues k Q_act \<noteq> [] \<longrightarrow> queues k2 Q_act \<noteq> []"
    "\<exists>s'. sem_table k2 i = Some s' \<and> sem_count s' = sem_count s + 1"
    "if parent_block k then k' = k2 else scheduler k2 = Inr k'"
proof -
  define s1 where "s1 = s\<lparr>sem_count := sem_count s + 1\<rparr>"
  define k1 where "k1 = set_sem i s1 k"
  obtain ps where ps: "blk s = map Some ps" "waiters k i ps" and co: "count_ok s"
    using w s unfolding semwf_def semwf_but_def by blast
  have c1: "cpu_ok k1" using c by (simp add: k1_def set_sem_def)
  have w1: "semwf_but {i} k1" unfolding k1_def set_sem_def
    by (rule semwf_but_table [OF semwf_but_mono [OF w, of "{i}"]]) (use ps in \<open>auto simp: s1_def\<close>)
  have t1: "sem_table k1 i = Some s1" by (simp add: k1_def set_sem_def)
  show thesis
  proof (cases "sem_count s + 1 \<le> 0")
    case True
    then have "length (blk s) \<noteq> 0" using count_okD(1) [OF co] by (auto simp: max_def split: if_splits)
    then obtain p ns where b: "blk s1 = Some p # ns" using ps by (cases ps) (auto simp: s1_def)
    obtain r2 k2 where u: "unblock_process_sem i SIGNAL_CALL k1 = Inr (r2, k2)"
      using sg s m True by (auto simp: signal_def get_semaphore_struct_def s1_def k1_def Let_def elim!: rbindE)
    note f = unblock_process_sem_first [OF c1 w1 t1 b u]
    have "count_ok (s1\<lparr>sem_blocked := Some ns\<rparr>)"
      using count_okD [OF co] b m True by (auto simp: count_ok_def s1_def max_def split: if_splits)
    then have "semwf k2" using f by (intro semwf_but_end [of i]) auto
    moreover have "r = 0 \<and> (if parent_block k then k' = k2 else scheduler k2 = Inr k')"
      using sg s m True u f by (auto simp: signal_def get_semaphore_struct_def k1_def s1_def set_sem_def Let_def
          elim!: rbindE split: if_split_asm)
    ultimately show thesis using f that [of k2] by (auto simp: k1_def s1_def set_sem_def)
  next
    case False
    have "count_ok s1" using count_okD [OF co] m False by (auto simp: count_ok_def s1_def max_def split: if_splits)
    then have "semwf k1" using w1 t1 by (intro semwf_but_end [of i]) auto
    moreover have "r = 0 \<and> (if parent_block k then k' = k1 else scheduler k1 = Inr k')"
      using sg s m False by (auto simp: signal_def get_semaphore_struct_def k1_def s1_def set_sem_def Let_def
          elim!: rbindE split: if_split_asm)
    ultimately show thesis using c1 that [of k1] by (auto simp: k1_def s1_def set_sem_def)
  qed
qed

lemma signal_keeps:
  assumes i: "sem_inv k" and q: "queues k Q_act \<noteq> []" and s: "signal i k = Inr (r, k')"
  shows "sem_inv k'"
proof (cases "sem_table k i")
  case None
  then show ?thesis using i s by (simp add: signal_def get_semaphore_struct_def)
next
  case (Some sm)
  show ?thesis
  proof (cases "sem_count sm = MAX_COUNT")
    case True
    then show ?thesis using i s Some by (simp add: signal_def get_semaphore_struct_def)
  next
    case False
    from i have c: "cpu_ok k" "semwf k" "\<not> parent_block k" by (simp_all add: sem_inv_def)
    obtain k2 where "cpu_ok k2" "semwf k2" "parent_block k2 = parent_block k" "r = 0"
      "queues k Q_act \<noteq> [] \<longrightarrow> queues k2 Q_act \<noteq> []"
      "\<exists>s'. sem_table k2 i = Some s' \<and> sem_count s' = sem_count sm + 1"
      "if parent_block k then k' = k2 else scheduler k2 = Inr k'"
      using signal_pre [OF c(1,2) Some False s] by blast
    then show ?thesis using sem_inv_end [of k2 k'] c(3) q by simp
  qed
qed

lemma signal_times_pre:
  "cpu_ok k \<Longrightarrow> semwf k \<Longrightarrow> parent_block k \<Longrightarrow> sem_table k i = Some s \<Longrightarrow> sem_count s + int n \<le> MAX_COUNT \<Longrightarrow>
     signal_times n i k = Inr (r, k') \<Longrightarrow>
     r = 0 \<and> cpu_ok k' \<and> semwf k' \<and> (queues k Q_act \<noteq> [] \<longrightarrow> queues k' Q_act \<noteq> [])"
proof (induction n arbitrary: k s)
  case (Suc n)
  have m: "sem_count s \<noteq> MAX_COUNT" using Suc.prems(5) by simp
  obtain r1 k1 where s1: "signal i k = Inr (r1, k1)" using Suc.prems(6) by (auto elim!: rbindE)
  obtain s' where k1: "cpu_ok k1" "semwf k1" "parent_block k1" "r1 = 0" "queues k Q_act \<noteq> [] \<longrightarrow> queues k1 Q_act \<noteq> []"
    "sem_table k1 i = Some s'" "sem_count s' = sem_count s + 1"
    using Suc.prems(3) by (auto intro: signal_pre [OF Suc.prems(1,2,4) m s1])
  have "signal_times n i k1 = Inr (r, k')" using Suc.prems(6) s1 k1(4) by simp
  then show ?case using Suc.IH [OF k1(1,2,3,6)] k1(5,7) Suc.prems(5) by simp
qed simp

lemma signaln_keeps:
  assumes i: "sem_inv k" and q: "queues k Q_act \<noteq> []" and s: "signaln i n k = Inr (r, k')"
  shows "sem_inv k'"
proof (cases "sem_table k i")
  case None
  then show ?thesis using i s by (simp add: signaln_def get_semaphore_struct_def)
next
  case (Some sm)
  show ?thesis
  proof (cases "n < 0 \<or> sem_count sm + n > MAX_COUNT")
    case True
    then show ?thesis using i s Some by (auto simp: signaln_def get_semaphore_struct_def split: if_split_asm)
  next
    case False
    then obtain val k1 where t: "signal_times (nat n) i (k\<lparr>parent_block := True\<rparr>) = Inr (val, k1)"
      using s Some by (auto simp: signaln_def get_semaphore_struct_def elim!: rbindE)
    from i have c: "cpu_ok k" "semwf k" "\<not> parent_block k" by (simp_all add: sem_inv_def)
    have "val = 0 \<and> cpu_ok k1 \<and> semwf k1 \<and> (queues (k\<lparr>parent_block := True\<rparr>) Q_act \<noteq> [] \<longrightarrow> queues k1 Q_act \<noteq> [])"
      using c Some False by (intro signal_times_pre [OF _ _ _ _ _ t, of sm]) (auto simp: semwf_def)
    then have k1: "val = 0" "cpu_ok k1" "semwf k1" "queues k1 Q_act \<noteq> []" using q by simp_all
    have "scheduler (k1\<lparr>parent_block := False\<rparr>) = Inr k'"
      using s Some False t k1(1) by (auto simp: signaln_def get_semaphore_struct_def elim!: rbindE)
    then show ?thesis by (rule sem_inv_end) (use k1 in \<open>simp_all add: semwf_def\<close>)
  qed
qed

lemma try_wait_keeps:
  assumes i: "sem_inv k" and q: "queues k Q_act \<noteq> []" and s: "try_wait i k = Inr (r, k')"
  shows "sem_inv k'"
proof (cases "\<exists>sm. sem_table k i = Some sm \<and> sem_count sm > 0")
  case True
  then obtain sm where sm: "sem_table k i = Some sm" "sem_count sm > 0" by blast
  from i have c: "cpu_ok k" "semwf k" "\<not> parent_block k" by (simp_all add: sem_inv_def)
  obtain ps where ps: "blk sm = map Some ps" "waiters k i ps" and co: "count_ok sm"
    using c(2) sm(1) unfolding semwf_def semwf_but_def by blast
  let ?k1 = "set_sem i (sm\<lparr>sem_count := sem_count sm - 1\<rparr>) k"
  have "count_ok (sm\<lparr>sem_count := sem_count sm - 1\<rparr>)" using count_okD [OF co] sm(2)
    by (auto simp: count_ok_def max_def MIN_COUNT_def split: if_splits)
  then have "semwf ?k1" unfolding semwf_def set_sem_def
    by (intro semwf_but_table [OF c(2) [unfolded semwf_def]]) (use ps in auto)
  moreover have "scheduler ?k1 = Inr k'" using s sm by (auto simp: try_wait_def get_semaphore_struct_def elim!: rbindE)
  ultimately show ?thesis using c q by (intro sem_inv_end [of ?k1 k']) (simp_all add: set_sem_def)
next
  case False
  then show ?thesis using i s by (auto simp: try_wait_def get_semaphore_struct_def split: option.split_asm)
qed

lemma sdelete_keeps:
  assumes i: "sem_inv k" and q: "queues k Q_act \<noteq> []" and s: "sdelete i k = Inr (r, k')"
  shows "sem_inv k'"
proof (cases "sem_table k i")
  case None
  then show ?thesis using i s by (simp add: sdelete_def get_semaphore_struct_def)
next
  case (Some sm)
  from i have c: "cpu_ok k" "semwf k" "\<not> parent_block k" by (simp_all add: sem_inv_def)
  obtain k1 where k1: "unblock_all (blocked_fuel sm) i SDETETE_CALL k = Inr k1" and
    sch: "scheduler (k1\<lparr>sem_table := (sem_table k1)(i := None), currently_running_semaphores := currently_running_semaphores k1 - 1\<rparr>) = Inr k'"
    using s Some by (auto simp: sdelete_def get_semaphore_struct_def elim!: rbindE)
  note f = unblock_all_inv [OF c(1) semwf_but_mono [OF c(2)] Some k1]
  have "semwf_but {} (k1\<lparr>sem_table := (sem_table k1)(i := None)\<rparr>)"
    by (rule semwf_but_table [of "{i}"]) (use f in auto)
  then show ?thesis using f q c(3) by (intro sem_inv_end [OF sch]) (simp_all add: semwf_def)
qed

lemma sreset_keeps:
  assumes i: "sem_inv k" and q: "queues k Q_act \<noteq> []" and v: "val \<le> MAX_COUNT" and s: "sreset i val k = Inr (r, k')"
  shows "sem_inv k'"
proof (cases "sem_table k i = None \<or> val < 0")
  case True
  then show ?thesis using i s by (auto simp: sreset_def get_semaphore_struct_def split: option.split_asm)
next
  case False
  then obtain sm where sm: "sem_table k i = Some sm" by auto
  from i have c: "cpu_ok k" "semwf k" "\<not> parent_block k" by (simp_all add: sem_inv_def)
  obtain k1 where k1: "unblock_all (blocked_fuel sm) i SRESET_CALL k = Inr k1"
    using s sm False by (auto simp: sreset_def get_semaphore_struct_def elim!: rbindE)
  from unblock_all_inv [OF c(1) semwf_but_mono [OF c(2)] sm k1]
  obtain s' where f: "cpu_ok k1" "semwf_but {i} k1" "parent_block k1 = parent_block k"
    "queues k Q_act \<noteq> [] \<longrightarrow> queues k1 Q_act \<noteq> []" "sem_table k1 i = Some s'" "blk s' = []" by blast
  have sch: "scheduler (set_sem i (s'\<lparr>sem_count := to_int16 val\<rparr>) k1) = Inr k'"
    using s sm False k1 f(5) by (auto simp: sreset_def get_semaphore_struct_def elim!: rbindE)
  have "to_int16 val = val"
    using v False by (simp add: to_int16_def MAX_COUNT_def int_word_sint)
  then have "semwf_but {} (set_sem i (s'\<lparr>sem_count := to_int16 val\<rparr>) k1)" unfolding set_sem_def
    by (intro semwf_but_table [OF f(2)]) (use f(6) v False in \<open>auto simp: count_ok_def waiters_def MIN_COUNT_def\<close>)
  then show ?thesis using f q c(3) by (intro sem_inv_end [OF sch]) (simp_all add: semwf_def set_sem_def)
qed

lemma screate_keeps:
  assumes i: "sem_inv k" and v: "val \<le> MAX_COUNT" and s: "screate val k = (r, k')"
  shows "sem_inv k'" "0 < r \<Longrightarrow> sem_table k' r = Some \<lparr>sem_count = val, sem_blocked = None\<rparr>"
proof -
  from i have c: "cpu_ok k" "semwf k" "\<not> parent_block k" by (simp_all add: sem_inv_def)
  obtain ok k1 where a: "kalloc k = (ok, k1)" by (cases "kalloc k")
  then have k1: "\<exists>m. k1 = k\<lparr>kmm := m\<rparr>" by (auto simp: kalloc_def split: prod.splits)
  have "sem_inv k' \<and> (0 < r \<longrightarrow> sem_table k' r = Some \<lparr>sem_count = val, sem_blocked = None\<rparr>)"
  proof (cases "r < 0")
    case True
    then show ?thesis using s a k1 i
      by (auto simp: screate_def increment_semaphore_id_def Let_def sem_inv_def semwf_def split: if_split_asm)
  next
    case False
    let ?n = "semaphore_id_counter k + 1"
    have "val \<ge> 0" using s False by (auto simp: screate_def split: if_split_asm)
    then have "semwf_but {} (k\<lparr>sem_table := (sem_table k)(?n := Some \<lparr>sem_count = val, sem_blocked = None\<rparr>)\<rparr>)"
      using v by (intro semwf_but_table [OF c(2) [unfolded semwf_def]])
        (auto simp: count_ok_def blk_def waiters_def MIN_COUNT_def)
    then show ?thesis using s a k1 c False
      by (auto simp: screate_def increment_semaphore_id_def Let_def sem_inv_def semwf_def semwf_but_def split: if_split_asm)
  qed
  then show "sem_inv k'" "0 < r \<Longrightarrow> sem_table k' r = Some \<lparr>sem_count = val, sem_blocked = None\<rparr>" by blast+
qed

text \<open>The insertion loop keeps the list in descending priority.\<close>

lemma insert_blocked_waiters:
  assumes "insert_blocked p pri (map Some ps) k = Inr l"
  obtains qs where "l = map Some qs" "set qs = insert p (set ps)" "length qs = Suc (length ps)"
    "p \<notin> set ps \<longrightarrow> distinct ps \<longrightarrow> distinct qs"
    "pri = prio_of k p \<longrightarrow> sorted_wrt (\<lambda>p q. prio_of k q \<le> prio_of k p) ps \<longrightarrow>
       sorted_wrt (\<lambda>p q. prio_of k q \<le> prio_of k p) qs"
  using assms
proof (induction ps arbitrary: l thesis)
  case Nil
  then show ?case by (intro Nil.prems(1) [of "[p]"]) auto
next
  case (Cons a ps)
  then obtain pr where pr: "heap k a = Some pr" by (auto simp: node_proc_def dref_Some elim!: rbindE)
  have po: "prio_of k a = p_prio pr" using pr by (simp add: prio_of_def)
  have a0: "a \<noteq> 0" using Cons.prems(2) by (auto simp: node_proc_def dref_Some elim!: rbindE)
  show ?case
  proof (cases "pri > p_prio pr")
    case True
    then have "l = map Some (p # a # ps)" using Cons.prems(2) pr a0 by (simp add: node_proc_def dref_def)
    then show ?thesis using True po by (intro Cons.prems(1) [of "p # a # ps"]) auto
  next
    case False
    then obtain l' where l': "insert_blocked p pri (map Some ps) k = Inr l'" "l = Some a # l'"
      using Cons.prems(2) pr a0 by (auto simp: node_proc_def dref_def elim!: rbindE)
    obtain qs where qs: "l' = map Some qs" "set qs = insert p (set ps)" "length qs = Suc (length ps)"
      "p \<notin> set ps \<longrightarrow> distinct ps \<longrightarrow> distinct qs"
      "pri = prio_of k p \<longrightarrow> sorted_wrt (\<lambda>p q. prio_of k q \<le> prio_of k p) ps \<longrightarrow>
         sorted_wrt (\<lambda>p q. prio_of k q \<le> prio_of k p) qs"
      using Cons.IH [OF _ l'(1)] by blast
    show ?thesis using qs l'(2) False po by (intro Cons.prems(1) [of "a # qs"]) auto
  qed
qed

lemma heap_upd_current [simp]: "get_current_process (k\<lparr>heap := h\<rparr>) = get_current_process k"
  by (simp add: get_current_process_def get_process_struct_of_pid_def getpid_def)

lemma heap_upd_kwf:
  assumes "kwf k" "heap k p = Some pr" "stable pr pr'"
  shows "kwf (k\<lparr>heap := (heap k)(p \<mapsto> pr')\<rparr>)"
  by (rule benign_kwf [OF benign_heap_upd [OF benign_refl assms(2,3)] assms(1)])

lemma one_actif_upd:
  assumes "one_actif k" "heap k p = Some pr" "p_state pr' = ACTIF \<Longrightarrow> p_state pr = ACTIF"
  shows "one_actif (k\<lparr>heap := (heap k)(p \<mapsto> pr')\<rparr>)"
  unfolding one_actif_def heap_upd_current
proof (intro allI impI)
  fix x r
  assume "heap (k\<lparr>heap := (heap k)(p \<mapsto> pr')\<rparr>) x = Some r" "p_state r = ACTIF"
  then show "x = get_current_process k" using assms by (cases "x = p") (simp_all add: one_actif_def)
qed

lemma cpu_ok_upd:
  assumes "cpu_ok k" "heap k p = Some pr" "stable pr pr'" "p_state pr' = p_state pr"
  shows "cpu_ok (k\<lparr>heap := (heap k)(p \<mapsto> pr')\<rparr>)"
proof -
  obtain cr where c: "heap k (get_current_process k) = Some cr" "p_state cr = ACTIF" "p_link cr = None"
    using assms(1) by (auto simp: cpu_ok_def)
  have "\<exists>r. ((heap k)(p \<mapsto> pr')) (get_current_process k) = Some r \<and> p_state r = ACTIF \<and> p_link r = None"
    using c assms(2-4) by (cases "get_current_process k = p") (auto simp: stable_def)
  then show ?thesis
    using heap_upd_kwf [OF _ assms(2,3)] one_actif_upd [OF _ assms(2), of pr'] assms(1,4) by (simp add: cpu_ok_def)
qed

lemma wait_keeps:
  assumes i: "sem_inv k" and q: "queues k Q_act \<noteq> []" and s: "wait i k = Inr (r, k')"
  shows "sem_inv k'"
proof (cases "sem_table k i")
  case None
  then show ?thesis using i s by (simp add: wait_def get_semaphore_struct_def)
next
  case (Some sm)
  from i have c: "cpu_ok k" "semwf k" "\<not> parent_block k" by (simp_all add: sem_inv_def)
  define p where "p = get_current_process k"
  obtain pr where pr: "heap k p = Some pr" "p_state pr = ACTIF" "p_link pr = None" using c(1) by (auto simp: cpu_ok_def p_def)
  have kw: "kwf k" using c(1) by (simp add: cpu_ok_def)
  have p0: "p \<noteq> 0" using kwf_null [OF kw] pr(1) by (cases "p = 0") auto
  have gp: "get_process_struct_of_pid (getpid k) k = p" by (simp add: p_def get_current_process_def)
  define pr1 where "pr1 = pr\<lparr>p_sem_signal := 0\<rparr>"
  define k1 where "k1 = k\<lparr>heap := (heap k)(p \<mapsto> pr1)\<rparr>"
  have m1: "pmod p (\<lambda>pr. pr\<lparr>p_sem_signal := 0\<rparr>) k = Inr k1" using p0 pr by (simp add: pmod_def dref_def k1_def pr1_def)
  have nw: "x \<noteq> p" if "waiting_on k j x" for j x using that pr by (auto simp: waiting_on_def)
  have c1: "cpu_ok k1" unfolding k1_def by (rule cpu_ok_upd [OF c(1) pr(1)]) (simp_all add: pr1_def stable_def)
  have w1: "semwf_but J k1" for J
    by (rule semwf_but_heap [OF semwf_but_mono [OF c(2)]]) (use nw in \<open>auto simp: k1_def\<close>)
  obtain ps where ps: "blk sm = map Some ps" "waiters k1 i ps" and co: "count_ok sm"
    using w1 [of "{}"] Some unfolding semwf_but_def by (auto simp: k1_def)
  show ?thesis
  proof (cases "sem_count sm = MIN_COUNT")
    case True
    then have "k' = k1" using s Some gp p0 m1 by (simp add: wait_def get_semaphore_struct_def Let_def)
    then show ?thesis using c1 w1 c(3) by (simp add: sem_inv_def semwf_def) (simp add: k1_def)
  next
    case nm: False
    define s1 where "s1 = sm\<lparr>sem_count := sem_count sm - 1\<rparr>"
    show ?thesis
    proof (cases "sem_count s1 < 0")
      case False
      have "count_ok s1" using count_okD [OF co] False by (auto simp: count_ok_def s1_def max_def MIN_COUNT_def split: if_splits)
      then have "semwf_but {} (set_sem i s1 k1)" unfolding set_sem_def
        by (intro semwf_but_table [OF w1 [of "{}"]]) (use ps in \<open>auto simp: s1_def\<close>)
      moreover have "scheduler (set_sem i s1 k1) = Inr k'"
        using s Some gp p0 m1 nm False by (auto simp: wait_def get_semaphore_struct_def Let_def s1_def elim!: rbindE)
      ultimately show ?thesis using c1 c(3) q
        by (intro sem_inv_end [of "set_sem i s1 k1" k']) (simp_all add: semwf_def, simp_all add: set_sem_def k1_def)
    next
      case True
      have old: "(case sem_blocked s1 of None \<Rightarrow> [] | Some l \<Rightarrow> l) = map Some ps" using ps(1) by (simp add: s1_def blk_def)
      obtain ok1 k2 where k2: "(if sem_blocked s1 = None then kalloc k1 else (True, k1)) = (ok1, k2)" by fastforce
      obtain ok2 k3 where k3: "kalloc k2 = (ok2, k3)" by (cases "kalloc k2")
      have "\<exists>m. k3 = k1\<lparr>kmm := m\<rparr>"
        using k2 k3 by (auto simp: kalloc_def split: prod.splits if_split_asm)
      then obtain m where m: "k3 = k1\<lparr>kmm := m\<rparr>" by blast
      have h3: "heap k3 p = Some pr1" by (simp add: m k1_def)
      obtain l k4 where l: "insert_blocked p (p_prio pr1) (map Some ps) k3 = Inr l"
        "pmod p (\<lambda>pr. pr\<lparr>p_semaphore_id := i, p_state := BLOCKEDSEMAPHORE\<rparr>) (set_sem i (s1\<lparr>sem_blocked := Some l\<rparr>) k3) = Inr k4"
        "scheduler k4 = Inr k'"
        using s Some gp p0 m1 nm True k2 k3 h3 old
        by (auto simp: wait_def get_semaphore_struct_def Let_def s1_def [symmetric] dref_Some elim!: rbindE split: if_split_asm)
      have k4: "k4 = k3\<lparr>sem_table := (sem_table k3)(i \<mapsto> s1\<lparr>sem_blocked := Some l\<rparr>),
          heap := (heap k3)(p \<mapsto> pr1\<lparr>p_semaphore_id := i, p_state := BLOCKEDSEMAPHORE\<rparr>)\<rparr>"
        using l(2) p0 h3 by (simp add: pmod_def dref_def set_sem_def)
      have "\<not> waiting_on k1 i p" using pr by (simp add: waiting_on_def k1_def pr1_def)
      then have npi: "p \<notin> set ps" using ps(2) by (auto simp: waiters_def)
      have po: "p_prio pr1 = prio_of k3 p" using h3 by (simp add: prio_of_def)
      have pk: "prio_of k3 = prio_of k1" "prio_of k4 = prio_of k1"
        by (auto simp: fun_eq_iff prio_of_def m k4 k1_def)
      obtain qs where q1: "l = map Some qs" "set qs = insert p (set ps)" "length qs = Suc (length ps)"
        and q2: "p \<notin> set ps \<longrightarrow> distinct ps \<longrightarrow> distinct qs"
        and q3: "p_prio pr1 = prio_of k3 p \<longrightarrow> sorted_wrt (\<lambda>p q. prio_of k3 q \<le> prio_of k3 p) ps \<longrightarrow>
          sorted_wrt (\<lambda>p q. prio_of k3 q \<le> prio_of k3 p) qs"
        by (rule insert_blocked_waiters [OF l(1)])
      have "distinct qs" using q2 npi ps(2) by (simp add: waiters_def)
      moreover have "sorted_wrt (\<lambda>p q. prio_of k3 q \<le> prio_of k3 p) qs" using q3 po ps(2) by (simp add: waiters_def pk)
      ultimately have qs: "l = map Some qs" "set qs = insert p (set ps)" "length qs = Suc (length ps)"
        "distinct qs" "sorted_wrt (\<lambda>p q. prio_of k3 q \<le> prio_of k3 p) qs" using q1 by blast+
      have wp: "waiting_on k4 i x" if "x \<in> set qs" for x
      proof (cases "x = p")
        case True
        then show ?thesis using pr(3) by (simp add: waiting_on_def k4 pr1_def)
      next
        case False
        then have "waiting_on k1 i x" using that qs(2) ps(2) by (simp add: waiters_def)
        then show ?thesis using False by (simp add: waiting_on_def k4 m k1_def)
      qed
      have "waiters k4 i qs" using qs(4,5) wp by (simp add: waiters_def pk)
      moreover have "count_ok (s1\<lparr>sem_blocked := Some l\<rparr>)" using count_okD [OF co] nm True ps(1) qs(1,3)
        by (auto simp: count_ok_def s1_def max_def split: if_splits)
      moreover have "heap k4 x = heap k1 x" if "waiting_on k1 j x" for x j
        using that pr(2) by (cases "x = p") (simp_all add: k4 m waiting_on_def k1_def pr1_def)
      moreover have "sem_table k4 = (sem_table k1)(i := Some (s1\<lparr>sem_blocked := Some l\<rparr>))" by (simp add: k4 m)
      ultimately have "semwf_but {} k4" using qs(1) by (intro semwf_but_update [OF w1 [of "{}"]]) auto
      moreover have "schedulable k4"
      proof -
        let ?k = "k3\<lparr>sem_table := (sem_table k3)(i \<mapsto> s1\<lparr>sem_blocked := Some l\<rparr>)\<rparr>"
        have ck: "cpu_ok ?k" using c1 by (simp add: m)
        have hk: "heap ?k p = Some pr1" using h3 by simp
        have "kwf k4" unfolding k4 using heap_upd_kwf [OF _ hk] ck by (simp add: cpu_ok_def stable_def)
        moreover have "one_actif (?k\<lparr>heap := (heap ?k)(p \<mapsto> pr1\<lparr>p_semaphore_id := i, p_state := BLOCKEDSEMAPHORE\<rparr>)\<rparr>)"
          by (rule one_actif_upd [OF _ hk]) (use ck in \<open>simp_all add: cpu_ok_def\<close>)
        moreover from this have "one_actif k4" by (simp add: k4)
        moreover have "get_current_process k4 = p"
          by (simp add: k4 m k1_def p_def)
        ultimately show ?thesis using c(1) pr q
          by (simp add: schedulable_def on_cpu_def cpu_ok_def) (simp add: k4 m k1_def pr1_def)
      qed
      ultimately show ?thesis using scheduler_sem_inv [OF _ l(3)] c(3) by (simp add: semwf_def) (simp add: k4 m k1_def)
    qed
  qed
qed

section \<open>Properties\<close>

text \<open>
  A system call on semaphores by the running process, with a count of at most 32767 for
  \<^verbatim>\<open>screate\<close> and \<^verbatim>\<open>sreset\<close>. The argument of \<^verbatim>\<open>screate\<close> is a \<^verbatim>\<open>short int\<close>; the one of \<^verbatim>\<open>sreset\<close> is
  an \<^verbatim>\<open>int\<close> that the code stores in 16 bits unchecked (\<open>sreset_truncates\<close>).
\<close>

datatype sem_call =
  Sc_create int | Sc_wait int | Sc_signal int | Sc_signaln int int | Sc_try int | Sc_delete int | Sc_reset int int

inductive sem_step :: "kernel \<Rightarrow> sem_call \<Rightarrow> kernel \<Rightarrow> bool" where
  create: "screate v k = (r, k') \<Longrightarrow> v \<le> MAX_COUNT \<Longrightarrow> sem_step k (Sc_create v) k'"
| wait: "wait i k = Inr (ro, k') \<Longrightarrow> sem_step k (Sc_wait i) k'"
| signal: "signal i k = Inr (r, k') \<Longrightarrow> sem_step k (Sc_signal i) k'"
| signaln: "signaln i n k = Inr (r, k') \<Longrightarrow> sem_step k (Sc_signaln i n) k'"
| try_wait: "try_wait i k = Inr (r, k') \<Longrightarrow> sem_step k (Sc_try i) k'"
| sdelete: "sdelete i k = Inr (r, k') \<Longrightarrow> sem_step k (Sc_delete i) k'"
| sreset: "sreset i v k = Inr (r, k') \<Longrightarrow> v \<le> MAX_COUNT \<Longrightarrow> sem_step k (Sc_reset i v) k'"

inductive_cases sem_step_create [elim]: "sem_step k (Sc_create v) k'"

inductive sem_run :: "kernel \<Rightarrow> kernel \<Rightarrow> bool" where
  start: "sem_run k k"
| call: "sem_run k k' \<Longrightarrow> queues k' Q_act \<noteq> [] \<Longrightarrow> sem_step k' c k'' \<Longrightarrow> sem_run k k''"

lemma sem_step_keeps: "sem_step k c k' \<Longrightarrow> sem_inv k \<Longrightarrow> queues k Q_act \<noteq> [] \<Longrightarrow> sem_inv k'"
proof (induction rule: sem_step.induct)
  case (create v k r k')
  then show ?case using screate_keeps(1) by blast
qed (blast intro: wait_keeps signal_keeps signaln_keeps try_wait_keeps sdelete_keeps sreset_keeps)+

lemma sem_run_keeps: "sem_run k k' \<Longrightarrow> sem_inv k \<Longrightarrow> sem_inv k'"
  by (induction rule: sem_run.induct) (auto intro: sem_step_keeps)

text \<open>
  C3. Invariant of the semaphores. From a consistent kernel, take any sequence of system calls on semaphores in which the
  counts given to \<^verbatim>\<open>screate\<close> and \<^verbatim>\<open>sreset\<close> are at most 32767 (\<^verbatim>\<open>sreset\<close> does not check it, and
  a larger one breaks the invariant) and some other process, such as the idle process, is ready at each call.
  Then the list of every semaphore holds distinct processes blocked on that semaphore, in
  descending priority, and there are exactly as many of them as its count is below zero; the
  count stays in the range of a 16-bit integer.
\<close>

theorem sem_run_invariant:
  assumes "sem_inv k" "sem_run k k'" "sem_table k' i = Some s"
  shows "\<exists>ps. blk s = map Some ps \<and> distinct ps \<and> (\<forall>p \<in> set ps. waiting_on k' i p) \<and>
     sorted_wrt (\<lambda>p q. prio_of k' q \<le> prio_of k' p) ps \<and>
     int (length ps) = max 0 (- sem_count s) \<and> - 32768 \<le> sem_count s \<and> sem_count s \<le> 32767"
proof -
  have "semwf k'" using sem_run_keeps [OF assms(2,1)] by (simp add: sem_inv_def)
  then obtain ps where "blk s = map Some ps" "waiters k' i ps" "count_ok s"
    using assms(3) unfolding semwf_def semwf_but_def by blast
  then show ?thesis by (intro exI [of _ ps]) (auto simp: waiters_def count_ok_def MIN_COUNT_def MAX_COUNT_def)
qed

lemma small_kernel_sem_inv: "sem_inv small_kernel"
proof -
  have g: "get_current_process small_kernel = 2"
    by (simp add: get_current_process_def get_process_struct_of_pid_def getpid_def small_kernel_def)
  then show ?thesis using small_kernel_schedulable
    by (simp add: sem_inv_def cpu_ok_def schedulable_def semwf_def semwf_but_def g) (simp add: small_kernel_def)
qed

definition small_kernel_sem :: kernel where
  "small_kernel_sem = small_kernel\<lparr>sem_table := [1 \<mapsto> \<lparr>sem_count = 0, sem_blocked = None\<rparr>], semaphore_id_counter := 1,
     currently_running_semaphores := 1\<rparr>"

lemma small_kernel_create: "screate 0 small_kernel = (1, small_kernel_sem)"
  by (simp add: screate_def kalloc_def kmalloc_def increment_semaphore_id_def small_kernel_sem_def small_kernel_def
      NB_MAX_SEMS_def Let_def)

lemma small_kernel_sem_cur: "getpid small_kernel_sem = 2" "get_process_struct_of_pid 2 small_kernel_sem = 2"
    "get_semaphore_struct 1 small_kernel_sem = Some \<lparr>sem_count = 0, sem_blocked = None\<rparr>"
    "heap small_kernel_sem 2 = Some (plain_process 2 3 ACTIF None)" "mallocs (kmm small_kernel_sem) = []"
    "sem_table small_kernel_sem = [1 \<mapsto> \<lparr>sem_count = 0, sem_blocked = None\<rparr>]"
  by (simp_all add: small_kernel_sem_def small_kernel_def getpid_def get_process_struct_of_pid_def get_semaphore_struct_def)

text \<open>Process 2 creates a semaphore of count 0 and waits on it: it ends up in the list, blocked.\<close>

lemma small_kernel_waits:
  "\<exists>k'. wait 1 small_kernel_sem = Inr (None, k') \<and> sem_table k' 1 = Some \<lparr>sem_count = -1, sem_blocked = Some [Some 2]\<rparr>"
proof -
  let ?s = "\<lparr>sem_count = -1, sem_blocked = Some [Some 2]\<rparr>"
  define K where "K = small_kernel_sem\<lparr>sem_table := [1 \<mapsto> ?s], heap := (heap small_kernel_sem)(2 \<mapsto>
    (plain_process 2 3 ACTIF None)\<lparr>p_sem_signal := 0, p_semaphore_id := 1, p_state := BLOCKEDSEMAPHORE\<rparr>)\<rparr>"
  have w: "wait 1 small_kernel_sem = rbind (scheduler K) (\<lambda>k. Inr (None, k))"
    using small_kernel_sem_cur
    by (simp add: wait_def Let_def pmod_def dref_def kalloc_def kmalloc_def MIN_COUNT_def set_sem_def K_def)
  have "queues_wf K" by (simp add: queues_wf_def K_def small_kernel_sem_def small_kernel_def qprio_def)
  moreover have "links_wf K" by (auto simp: links_wf_def K_def small_kernel_sem_def small_kernel_def)
  moreover have "pids_wf K" by (auto simp: pids_wf_def K_def small_kernel_sem_def small_kernel_def)
  ultimately have "kwf K" by (simp add: kwf_def K_def small_kernel_sem_def small_kernel_def)
  moreover have "get_current_process K = 2"
    by (simp add: get_current_process_def get_process_struct_of_pid_def getpid_def K_def small_kernel_sem_def small_kernel_def)
  ultimately have "schedulable K"
    by (simp add: schedulable_def one_actif_def on_cpu_def) (simp add: K_def small_kernel_sem_def small_kernel_def)
  moreover have "queues K Q_dead = []" "sleepers_ok K"
    by (simp_all add: K_def small_kernel_sem_def small_kernel_def sleepers_ok_def)
  ultimately obtain k' where k': "scheduler K = Inr k'" using scheduler_returns_lemma by blast
  then have "sem_table k' 1 = Some ?s" using scheduler_quiet [OF k'] by (simp add: quiet_def K_def)
  then show ?thesis using w k' by simp
qed

theorem sem_run_invariant_witness:
  "\<exists>k'. sem_run small_kernel k' \<and> sem_table k' 1 = Some \<lparr>sem_count = -1, sem_blocked = Some [Some 2]\<rparr> \<and> waiting_on k' 1 2"
proof -
  obtain k' where k': "wait 1 small_kernel_sem = Inr (None, k')" "sem_table k' 1 = Some \<lparr>sem_count = -1, sem_blocked = Some [Some 2]\<rparr>"
    using small_kernel_waits by blast
  have "sem_step small_kernel (Sc_create 0) small_kernel_sem"
    using small_kernel_create by (auto intro: sem_step.create simp: MAX_COUNT_def)
  then have "sem_run small_kernel small_kernel_sem"
    by (rule sem_run.call [OF sem_run.start, rotated]) (simp add: small_kernel_def)
  then have r: "sem_run small_kernel k'"
    by (rule sem_run.call [OF _ _ sem_step.wait [OF k'(1)]]) (simp add: small_kernel_sem_def small_kernel_def)
  show ?thesis using sem_run_invariant [OF small_kernel_sem_inv r k'(2)] r k'(2) by (auto simp: blk_def)
qed

text \<open>
  C36. \<^verbatim>\<open>sdelete\<close> and \<^verbatim>\<open>sreset\<close> wake every blocked process: their loop ends within one round
  per blocked process, and when it has ended the list is empty, with the count unchanged.
\<close>

theorem unblock_loop_ends:
  assumes "cpu_ok k" "semwf k" "sem_table k i = Some s"
  shows "unblock_all (blocked_fuel s) i sg k \<noteq> Inl No_return \<and>
     (\<forall>k'. unblock_all (blocked_fuel s) i sg k = Inr k' \<longrightarrow>
        (\<exists>s'. sem_table k' i = Some s' \<and> blk s' = [] \<and> sem_count s' = sem_count s))"
proof -
  have w: "semwf_but {i} k" using assms(2) by (rule semwf_but_mono)
  have "length (blk s) < blocked_fuel s" by (simp add: blocked_fuel_def blk_def split: option.splits)
  then show ?thesis using unblock_all_total [OF assms(1) w assms(3)] unblock_all_inv [OF assms(1) w assms(3)] by blast
qed

theorem unblock_loop_ends_witness:
  "unblock_all (blocked_fuel \<lparr>sem_count = 0, sem_blocked = None\<rparr>) 1 SDETETE_CALL small_kernel_sem \<noteq> Inl No_return"
proof -
  have "sem_step small_kernel (Sc_create 0) small_kernel_sem"
    using small_kernel_create by (auto intro: sem_step.create simp: MAX_COUNT_def)
  then have i: "sem_inv small_kernel_sem" using small_kernel_sem_inv by (rule sem_step_keeps) (simp add: small_kernel_def)
  show ?thesis
    using i unblock_loop_ends [of small_kernel_sem 1 "\<lparr>sem_count = 0, sem_blocked = None\<rparr>" SDETETE_CALL]
    by (simp add: sem_inv_def small_kernel_sem_def)
qed

text \<open>
  \<^verbatim>\<open>sreset\<close> stores its argument in 16 bits without checking it: 40000 makes the count
  negative although no process is blocked on the semaphore.
\<close>

theorem sreset_truncates:
  "sem_table k i = Some \<lparr>sem_count = c, sem_blocked = None\<rparr> \<Longrightarrow>
     sreset i 40000 k = rbind (scheduler (k\<lparr>sem_table := (sem_table k)(i \<mapsto> \<lparr>sem_count = - 25536, sem_blocked = None\<rparr>)\<rparr>))
       (\<lambda>k2. Inr (0, k2))"
  by (simp add: sreset_def get_semaphore_struct_def blocked_fuel_def unblock_process_sem_def set_sem_def to_int16_def
      int_word_sint)

theorem sreset_truncates_witness:
  "sreset 1 40000 small_kernel_sem = rbind (scheduler (small_kernel_sem\<lparr>sem_table :=
     (sem_table small_kernel_sem)(1 \<mapsto> \<lparr>sem_count = - 25536, sem_blocked = None\<rparr>)\<rparr>)) (\<lambda>k2. Inr (0, k2))"
  by (rule sreset_truncates) (simp add: small_kernel_sem_def)

end
