(* ===== verification/ProcTree.thy ===== *)
theory ProcTree
  imports Process SemInv
begin

text \<open>
  The process tree: the children of a process are a list threaded through \<^verbatim>\<open>next_sibling\<close>, with
  a head and a tail in the parent. Creation appends to it, \<^verbatim>\<open>waitpid\<close> searches it and takes one
  element out; here they are shown to do so on the list the links represent.
\<close>

section \<open>The list of children\<close>

fun sibs :: "kernel \<Rightarrow> ptr \<Rightarrow> ptr list \<Rightarrow> bool" where
  "sibs k x [] \<longleftrightarrow> x = 0"
| "sibs k x (c # cs) \<longleftrightarrow> x = c \<and> c \<noteq> 0 \<and> (\<exists>pr. heap k c = Some pr \<and> sibs k (p_next_sibling pr) cs)"

definition children :: "kernel \<Rightarrow> ptr \<Rightarrow> ptr list \<Rightarrow> bool" where
  "children k p cs \<longleftrightarrow> p \<noteq> 0 \<and> p \<notin> set cs \<and> distinct cs \<and> (\<exists>pp. heap k p = Some pp \<and> sibs k (p_children_head pp) cs \<and>
     p_children_tail pp = (if cs = [] then 0 else last cs))"

lemma sibs_nonnull: "sibs k x cs \<Longrightarrow> 0 \<notin> set cs"
  by (induction cs arbitrary: x) auto

lemma sibs_heap: "sibs k x cs \<Longrightarrow> c \<in> set cs \<Longrightarrow> \<exists>pr. heap k c = Some pr"
  by (induction cs arbitrary: x) auto

lemma sibs_cong:
  "sibs k x cs \<Longrightarrow> (\<And>c pr. c \<in> set cs \<Longrightarrow> heap k c = Some pr \<Longrightarrow>
     \<exists>pr'. heap k' c = Some pr' \<and> p_next_sibling pr' = p_next_sibling pr) \<Longrightarrow> sibs k' x cs"
proof (induction cs arbitrary: x)
  case (Cons c cs)
  obtain pr where pr: "x = c" "c \<noteq> 0" "heap k c = Some pr" "sibs k (p_next_sibling pr) cs" using Cons.prems(1) by auto
  obtain pr' where pr': "heap k' c = Some pr'" "p_next_sibling pr' = p_next_sibling pr"
    using Cons.prems(2) [of c pr] pr by auto
  have "sibs k' (p_next_sibling pr') cs" unfolding pr'(2) using Cons.IH [OF pr(4)] Cons.prems(2) by simp
  then show ?case using pr pr' by auto
qed simp

lemma sibs_split:
  assumes "sibs k x (as @ c # cs)"
  obtains pr where "heap k c = Some pr" "c \<noteq> 0" "sibs k (p_next_sibling pr) cs"
  using assms by (induction as arbitrary: x) auto

lemma sibs_head: "sibs k x (c # cs) \<Longrightarrow> x = c"
  by simp

text \<open>Redirecting the link of \<open>b\<close> past \<open>c\<close>.\<close>

lemma sibs_skip:
  assumes "sibs k x (as @ b # c # cs)" "distinct (as @ b # c # cs)" "heap k b = Some br" "heap k c = Some cr"
    "heap k' = (heap k)(b \<mapsto> br')" "p_next_sibling br' = p_next_sibling cr"
  shows "sibs k' x (as @ b # cs)"
  using assms(1,2)
proof (induction as arbitrary: x)
  case Nil
  have "sibs k (p_next_sibling cr) cs" using Nil assms(4) by auto
  then have "sibs k' (p_next_sibling cr) cs" by (rule sibs_cong) (use Nil assms(5) in auto)
  then show ?case using Nil assms(5,6) by auto
next
  case (Cons a as)
  obtain pr where a: "x = a" "a \<noteq> 0" "heap k a = Some pr" "sibs k (p_next_sibling pr) (as @ b # c # cs)"
    using Cons.prems(1) by auto
  have "heap k' a = Some pr" using Cons.prems(2) a(3) assms(5) by auto
  then show ?case using Cons.IH [OF a(4)] Cons.prems(2) a by auto
qed

text \<open>Setting the link of the last element.\<close>

lemma sibs_relast:
  assumes "sibs k x (as @ [b])" "distinct (as @ [b])" "heap k b = Some br" "heap k' = (heap k)(b \<mapsto> br')"
    "sibs k' (p_next_sibling br') cs"
  shows "sibs k' x (as @ b # cs)"
  using assms(1,2)
proof (induction as arbitrary: x)
  case (Cons a as)
  obtain pr where a: "x = a" "a \<noteq> 0" "heap k a = Some pr" "sibs k (p_next_sibling pr) (as @ [b])"
    using Cons.prems(1) by auto
  have "heap k' a = Some pr" using Cons.prems(2) a(3) assms(4) by auto
  then show ?case using Cons.IH [OF a(4)] Cons.prems(2) a by auto
qed (use assms(3-5) in auto)

section \<open>Search\<close>

definition pred_of :: "ptr list \<Rightarrow> ptr \<Rightarrow> ptr" where
  "pred_of as d = (if as = [] then d else last as)"

lemma find_child_hit:
  assumes "sibs k t (as @ c # bs)" "length as < n" "\<And>a. a \<in> set as \<Longrightarrow> \<not> P (the (heap k a))" "P (the (heap k c))"
  shows "find_child n P b t k = Inr (pred_of as b, c)"
  using assms(1-3)
proof (induction as arbitrary: n t b)
  case Nil
  then obtain m where "n = Suc m" by (cases n) auto
  then show ?case using Nil assms(4) by (auto simp: pred_of_def dref_def)
next
  case (Cons a as)
  obtain m where n: "n = Suc m" using Cons.prems(2) by (cases n) auto
  obtain pr where pr: "t = a" "a \<noteq> 0" "heap k a = Some pr" "sibs k (p_next_sibling pr) (as @ c # bs)" using Cons.prems(1) by auto
  have "\<not> P pr" using Cons.prems(3) [of a] pr by simp
  moreover have "find_child m P a (p_next_sibling pr) k = Inr (pred_of as a, c)"
    using Cons.prems by (intro Cons.IH [OF pr(4)]) (use n in auto)
  ultimately show ?case using n pr by (auto simp: dref_def pred_of_def)
qed

lemma find_child_miss:
  assumes "sibs k t cs" "length cs < n" "\<And>a. a \<in> set cs \<Longrightarrow> \<not> P (the (heap k a))"
  shows "find_child n P b t k = Inr (pred_of cs b, 0)"
  using assms
proof (induction cs arbitrary: n t b)
  case Nil
  then show ?case by (cases n) (auto simp: pred_of_def)
next
  case (Cons a cs)
  obtain m where n: "n = Suc m" using Cons.prems(2) by (cases n) auto
  obtain pr where pr: "t = a" "a \<noteq> 0" "heap k a = Some pr" "sibs k (p_next_sibling pr) cs" using Cons.prems(1) by auto
  have "\<not> P pr" using Cons.prems(3) [of a] pr by simp
  moreover have "find_child m P a (p_next_sibling pr) k = Inr (pred_of cs a, 0)"
    using Cons.prems by (intro Cons.IH [OF pr(4)]) (use n in auto)
  ultimately show ?case using n pr by (auto simp: dref_def pred_of_def)
qed

section \<open>Unlinking\<close>

lemma unlink_child_children:
  assumes ch: "children k p cs" and cs: "cs = as @ c # bs" and b: "b = pred_of as c"
    and u: "unlink_child c b p k = Inr k'"
  shows "children k' p (as @ bs)"
proof -
  obtain pp where pp: "p \<noteq> 0" "p \<notin> set cs" "distinct cs" "heap k p = Some pp" "sibs k (p_children_head pp) cs"
    "p_children_tail pp = last cs"
    using ch cs by (auto simp: children_def)
  obtain pr where pr: "heap k c = Some pr" "c \<noteq> 0" "sibs k (p_next_sibling pr) bs"
    using sibs_split pp(5) cs by metis
  have hd: "p_children_head pp = c \<longleftrightarrow> as = []" using pp(3,5) cs by (cases as) auto
  have tl: "c = last cs \<longleftrightarrow> bs = []" using pp(3) cs by (auto split: if_splits)
  have d: "dref c k = Inr pr" "dref p k = Inr pp" using pr pp by (simp_all add: dref_def)
  have eqn: "c = p_children_head pp \<longleftrightarrow> as = []" "c = p_children_tail pp \<longleftrightarrow> bs = []" using hd tl pp(6) by auto
  show ?thesis
  proof (cases "as = []")
    case True
    show ?thesis
    proof (cases "bs = []")
      case True
      then have "k' = k\<lparr>heap := (heap k)(p \<mapsto> pp\<lparr>p_children_tail := 0, p_children_head := 0\<rparr>)\<rparr>"
        using u d eqn \<open>as = []\<close> by (simp add: unlink_child_def pmod_def)
      then show ?thesis using pp True \<open>as = []\<close> by (simp add: children_def)
    next
      case False
      then have k': "k' = k\<lparr>heap := (heap k)(p \<mapsto> pp\<lparr>p_children_head := p_next_sibling pr\<rparr>)\<rparr>"
        using u d eqn \<open>as = []\<close> by (simp add: unlink_child_def pmod_def)
      have "sibs k' (p_next_sibling pr) bs" using pr(3) by (rule sibs_cong) (use pp(2) cs k' in auto)
      then show ?thesis using pp cs True False k' by (simp add: children_def)
    qed
  next
    case False
    then obtain as' where as: "as = as' @ [b]" using b by (metis append_butlast_last_id pred_of_def)
    have pb: "p \<noteq> b" using pp(2) cs as by auto
    obtain br where br: "heap k b = Some br" "b \<noteq> 0" using pp(5) cs as sibs_heap sibs_nonnull
      by (metis in_set_conv_decomp append.assoc append_Cons)
    have db: "dref b k = Inr br" using br by (simp add: dref_def)
    show ?thesis
    proof (cases "bs = []")
      case True
      let ?k1 = "k\<lparr>heap := (heap k)(b \<mapsto> br\<lparr>p_next_sibling := 0\<rparr>)\<rparr>"
      have k': "k' = ?k1\<lparr>heap := (heap ?k1)(p \<mapsto> pp\<lparr>p_children_tail := b\<rparr>)\<rparr>"
        using u d db eqn True False pb pp(1,4) by (simp add: unlink_child_def pmod_def dref_def)
      have "sibs ?k1 (p_children_head pp) (as' @ b # [])"
        using sibs_skip [of k "p_children_head pp" as' b c "[]" br pr ?k1 "br\<lparr>p_next_sibling := 0\<rparr>"] pp(3,5) cs as True br pr
        by simp
      then have "sibs k' (p_children_head pp) (as' @ [b])" by (rule sibs_cong) (use pp(2) cs as pb k' in auto)
      then show ?thesis using pp cs as True k' pb by (auto simp: children_def)
    next
      case nb: False
      have k': "k' = k\<lparr>heap := (heap k)(b \<mapsto> br\<lparr>p_next_sibling := p_next_sibling pr\<rparr>)\<rparr>"
        using u d db eqn nb False by (simp add: unlink_child_def pmod_def)
      have "sibs k' (p_children_head pp) (as' @ b # bs)"
        using sibs_skip [of k "p_children_head pp" as' b c bs br pr k' "br\<lparr>p_next_sibling := p_next_sibling pr\<rparr>"]
          pp(3,5) cs as br pr k' by simp
      then show ?thesis using pp cs as nb k' pb by (auto simp: children_def)
    qed
  qed
qed

section \<open>Appending\<close>

lemma link_to_parent_children:
  assumes ch: "children k q cs" and p: "p \<noteq> 0" "p \<notin> set cs" "p \<noteq> q" "heap k p = Some pr"
    and l: "link_to_parent p q k = Inr k'"
  shows "children k' q (cs @ [p]) \<and> children k' p [] \<and> (\<exists>pr'. heap k' p = Some pr' \<and> p_parent pr' = q)"
proof -
  obtain pp where pp: "q \<noteq> 0" "q \<notin> set cs" "distinct cs" "heap k q = Some pp" "sibs k (p_children_head pp) cs"
    "p_children_tail pp = (if cs = [] then 0 else last cs)"
    using ch by (auto simp: children_def)
  define e where "e = pr\<lparr>p_parent := q, p_children_head := 0, p_children_tail := 0, p_next_sibling := 0\<rparr>"
  show ?thesis
  proof (cases "cs = []")
    case True
    then have "heap k' = (heap k)(q \<mapsto> pp\<lparr>p_children_head := p, p_children_tail := p\<rparr>, p \<mapsto> e)"
      using l pp p by (auto simp: link_to_parent_def pmod_def dref_def e_def fun_upd_twist)
    then show ?thesis using True pp p by (simp add: children_def e_def)
  next
    case False
    then obtain as b where as: "cs = as @ [b]" by (metis append_butlast_last_id)
    obtain br where br: "heap k b = Some br" "b \<noteq> 0" using pp(5) as sibs_split [of k "p_children_head pp" as b "[]"] by auto
    have n: "p \<noteq> b" "q \<noteq> b" using p(2) pp(2) as by auto
    have h: "heap k' = (heap k)(b \<mapsto> br\<lparr>p_next_sibling := p\<rparr>, q \<mapsto> pp\<lparr>p_children_tail := p\<rparr>, p \<mapsto> e)"
      using l pp p br n as by (auto simp: link_to_parent_def pmod_def dref_def e_def fun_upd_twist)
    let ?k1 = "k\<lparr>heap := (heap k)(b \<mapsto> br\<lparr>p_next_sibling := p\<rparr>)\<rparr>"
    let ?k2 = "k\<lparr>heap := (heap k)(q \<mapsto> pp\<lparr>p_children_tail := p\<rparr>, p \<mapsto> e)\<rparr>"
    have s2: "sibs ?k2 (p_children_head pp) (as @ [b])" using pp(5) unfolding as [symmetric]
      by (rule sibs_cong) (use pp(2) p(2) in auto)
    have h2: "heap k' = (heap ?k2)(b \<mapsto> br\<lparr>p_next_sibling := p\<rparr>)"
      using h n by (auto simp: fun_upd_twist)
    have hp: "heap k' p = Some e" using h by simp
    have "sibs k' (p_next_sibling (br\<lparr>p_next_sibling := p\<rparr>)) [p]" using hp p(1) by (simp add: e_def)
    then have "sibs k' (p_children_head pp) (as @ b # [p])"
      using n by (intro sibs_relast [OF s2 _ _ h2]) (use pp(3) as br in auto)
    then show ?thesis using pp p as h hp n by (auto simp: children_def e_def)
  qed
qed

section \<open>Reaping a child\<close>

lemma sibs_length:
  assumes "children k p cs" "\<And>x xr. heap k x = Some xr \<Longrightarrow> x < fresh k"
  shows "length cs \<le> fresh k"
proof -
  have "set cs \<subseteq> {..<fresh k}" using assms by (auto simp: children_def dest: sibs_heap)
  then have "card (set cs) \<le> fresh k" using card_mono [of "{..<fresh k}" "set cs"] by simp
  then show ?thesis using assms(1) by (simp add: children_def distinct_card)
qed

lemma unlink_child_benign:
  assumes "unlink_child c b p k = Inr k'"
  shows "benign k k' \<and> cur_pid k' = cur_pid k \<and> (\<forall>x. x \<noteq> p \<longrightarrow> x \<noteq> b \<longrightarrow> heap k' x = heap k x)"
  using assms
  by (auto simp: unlink_child_def pmod_def dref_Some benign_def stable_def option.rel_refl elim!: rbindE split: if_split_asm)

lemma free_process_memory_ret: "free_process_memory p DELETE_ALL k = Inr (r, k') \<Longrightarrow> p \<noteq> 0 \<Longrightarrow> r = 0"
  by (auto simp: free_process_memory_def free_fs_proc_def Let_def elim!: rbindE split: prod.split_asm)

lemma take_child_reaps:
  assumes w: "kwf k" and ch: "children k p (as @ c # bs)" and c: "heap k c = Some cr" "p_state cr = ZOMBIE"
    "p_parent cr = p" "p_link cr = None" "p_pid cr \<noteq> getpid k"
    and t: "take_child (pred_of as c) c wt k = Inr (res, k')"
  shows "res = W_return (p_pid cr) (if wt then Some (p_return_value cr) else None) \<and> children k' p (as @ bs) \<and>
     heap k' c = None \<and> kwf k'"
proof -
  obtain pp where pp: "p \<noteq> 0" "p \<notin> set (as @ c # bs)" "heap k p = Some pp" "p_children_head pp \<noteq> 0" "p_children_tail pp \<noteq> 0"
    and s: "sibs k (p_children_head pp) (as @ c # bs)" and d: "distinct (as @ c # bs)"
  proof -
    obtain pp where "p \<noteq> 0" "p \<notin> set (as @ c # bs)" "heap k p = Some pp" "sibs k (p_children_head pp) (as @ c # bs)"
      "distinct (as @ c # bs)" "p_children_tail pp = last (as @ c # bs)"
      using ch by (auto simp: children_def)
    moreover have "0 \<notin> set (as @ c # bs)" using calculation(4) by (rule sibs_nonnull)
    moreover have "p_children_head pp \<noteq> 0" using calculation(4,7) by (cases as) auto
    moreover have "last (as @ c # bs) \<in> set (as @ c # bs)" by (intro last_in_set) simp
    ultimately show thesis using that by metis
  qed
  let ?b = "pred_of as c"
  have c0: "c \<noteq> 0" using sibs_nonnull [OF s] by auto
  have "?b \<in> set (as @ c # bs)" by (cases "as = []") (simp_all add: pred_of_def)
  then have b0: "?b \<noteq> 0" using sibs_nonnull [OF s] by metis
  obtain k1 r where u: "unlink_child c ?b p k = Inr k1" and f: "free_child_zombie_process c k1 = Inr (r, k')"
    and res: "res = W_return (if r < 0 then -1 else p_pid cr) (if wt then Some (p_return_value cr) else None)"
    using t c pp b0 c0 by (auto simp: take_child_def free_process_arg_and_fix_tree_link_def dref_Some elim!: rbindE)
  have un: "benign k k1" "cur_pid k1 = cur_pid k" "\<And>x. x \<noteq> p \<Longrightarrow> x \<noteq> ?b \<Longrightarrow> heap k1 x = heap k x"
    using unlink_child_benign [OF u] by blast+
  have w1: "kwf k1" using benign_kwf [OF un(1) w] .
  have ch1: "children k1 p (as @ bs)" using unlink_child_children [OF ch refl refl u] .
  have "\<exists>cr1. heap k1 c = Some cr1 \<and> p_state cr1 = ZOMBIE \<and> p_link cr1 = None \<and> p_pid cr1 = p_pid cr"
  proof (cases "as = []")
    case True
    then show ?thesis
      using u c pp c0 by (auto simp: unlink_child_def pmod_def dref_Some pred_of_def elim!: rbindE split: if_split_asm)
  next
    case False
    then have "c \<noteq> ?b" using d by (auto simp: pred_of_def)
    then show ?thesis using un(3) [of c] c pp(2) by auto
  qed
  then obtain cr1 where cr1: "heap k1 c = Some cr1" "p_state cr1 = ZOMBIE" "p_link cr1 = None" "p_pid cr1 = p_pid cr" by blast
  have fm: "free_process_memory c DELETE_ALL k1 = Inr (r, k')"
    using f cr1 c(5) c0 un(2) by (auto simp: free_child_zombie_process_def dref_Some getpid_def elim!: rbindE split: if_split_asm)
  note fr = free_process_memory_all [OF fm w1 cr1(1,3)]
  have "children k' p (as @ bs)"
  proof -
    obtain pp1 where p1: "heap k1 p = Some pp1" "sibs k1 (p_children_head pp1) (as @ bs)"
      "p_children_tail pp1 = (if as @ bs = [] then 0 else last (as @ bs))" using ch1 by (auto simp: children_def)
    have "sibs k' (p_children_head pp1) (as @ bs)" using p1(2) by (rule sibs_cong) (use d fr(2) in auto)
    then show ?thesis using p1 pp(1,2) d fr(2) by (auto simp: children_def)
  qed
  then show ?thesis using res fr free_process_memory_ret [OF fm c0] by simp
qed

section \<open>Properties\<close>

definition heap_below_fresh :: "kernel \<Rightarrow> bool" where
  "heap_below_fresh k \<longleftrightarrow> (\<forall>x xr. heap k x = Some xr \<longrightarrow> x < fresh k)"

text \<open>
  C12. \<^verbatim>\<open>waitpid\<close> with a negative pid, when a child has ended: it takes the first zombie in the
  order of creation, gives back its pid and its return value, removes exactly that child from
  the parent's list, frees its structure, and leaves queues, links and process table consistent.
\<close>

theorem waitpid_reaps_first_zombie:
  assumes w: "kwf k" and hb: "heap_below_fresh k" and ch: "children k (get_current_process k) (as @ c # bs)"
    and first: "\<And>a. a \<in> set as \<Longrightarrow> p_state (the (heap k a)) \<noteq> ZOMBIE"
    and c: "heap k c = Some cr" "p_state cr = ZOMBIE" "p_parent cr = get_current_process k" "p_link cr = None"
    and r: "waitpid (-1) True k = Inr (res, k')"
  shows "res = W_return (p_pid cr) (Some (p_return_value cr)) \<and> children k' (get_current_process k) (as @ bs) \<and>
     heap k' c = None \<and> kwf k'"
proof -
  let ?p = "get_current_process k"
  obtain pp where pp: "?p \<noteq> 0" "?p \<notin> set (as @ c # bs)" "heap k ?p = Some pp" "sibs k (p_children_head pp) (as @ c # bs)"
    using ch by (auto simp: children_def)
  have hd: "p_children_head pp \<noteq> 0" using sibs_nonnull [OF pp(4)] pp(4) by (cases as) auto
  have "p_pid pp = getpid k"
  proof -
    have "pid_table k (getpid k) = Some ?p"
      using pp(1) by (auto simp: get_current_process_def get_process_struct_of_pid_def split: option.splits)
    then show ?thesis using kwf_pid [OF w, of "getpid k" ?p] pp(3) by auto
  qed
  then have np: "p_pid cr \<noteq> getpid k" using kwf_pid_inj [OF w pp(3) c(1)] pp(2) by auto
  have len: "length as < tree_fuel k" using sibs_length [OF ch] hb by (simp add: heap_below_fresh_def tree_fuel_def)
  have P: "p_state (the (heap k c)) = ZOMBIE" using c by simp
  have f: "find_child (tree_fuel k) (\<lambda>tp. p_state tp = ZOMBIE) (p_children_head pp) (p_children_head pp) k =
      Inr (pred_of as (p_children_head pp), c)"
    by (rule find_child_hit [where P = "\<lambda>tp. p_state tp = ZOMBIE", OF pp(4) len first P])
  have e: "pred_of as (p_children_head pp) = pred_of as c" using pp(4) by (auto simp: pred_of_def)
  have "take_child (pred_of as c) c True k = Inr (res, k')"
  proof -
    have "c \<noteq> 0" using sibs_nonnull [OF pp(4)] by auto
    moreover have "dref (get_process_struct_of_pid (getpid k) k) k = Inr pp"
      using pp by (simp add: get_current_process_def dref_def)
    ultimately show ?thesis using r f e hd by (simp add: waitpid_def wait_any_def)
  qed
  from take_child_reaps [OF w ch c(1,2,3,4) np this] show ?thesis by simp
qed

text \<open>A process with a living child and a zombie, which returned 42.\<close>

definition tree_kernel :: kernel where
  "tree_kernel = small_kernel\<lparr>heap := (heap small_kernel)(
     2 \<mapsto> (plain_process 2 3 ACTIF None)\<lparr>p_children_head := 4, p_children_tail := 5\<rparr>,
     4 \<mapsto> (plain_process 4 7 BLOCKEDWAITCHILD None)\<lparr>p_parent := 2, p_next_sibling := 5\<rparr>,
     5 \<mapsto> (plain_process 5 7 ZOMBIE None)\<lparr>p_parent := 2, p_return_value := 42\<rparr>),
     fresh := 6, pid_table := (pid_table small_kernel)(5 \<mapsto> 5)\<rparr>"

lemma tree_kernel_kwf: "kwf tree_kernel"
proof -
  have "queues_wf tree_kernel" by (simp add: queues_wf_def tree_kernel_def small_kernel_def qprio_def)
  moreover have "links_wf tree_kernel" by (auto simp: links_wf_def tree_kernel_def small_kernel_def)
  moreover have "pids_wf tree_kernel" by (auto simp: pids_wf_def tree_kernel_def small_kernel_def)
  ultimately show ?thesis by (simp add: kwf_def tree_kernel_def small_kernel_def)
qed

lemma tree_kernel_current: "get_current_process tree_kernel = 2"
  by (simp add: get_current_process_def get_process_struct_of_pid_def getpid_def tree_kernel_def small_kernel_def)

lemma tree_kernel_children: "children tree_kernel 2 ([4] @ 5 # [])"
  by (simp add: children_def tree_kernel_def small_kernel_def plain_process_def)

lemma tree_kernel_waits: "\<exists>res k'. waitpid (-1) True tree_kernel = Inr (res, k')"
  by (simp add: waitpid_def wait_any_def tree_fuel_def find_child.simps numeral_eq_Suc dref_def getpid_def
      get_process_struct_of_pid_def tree_kernel_def small_kernel_def plain_process_def take_child_def
      free_process_arg_and_fix_tree_link_def unlink_child_def pmod_def free_child_zombie_process_def
      free_process_memory_def free_fs_proc_def free_shared_pages_def free_page_tables_def no_mem_def
      save_pid_def kalloc_def kmalloc_def Let_def)

theorem waitpid_reaps_first_zombie_witness:
  "\<exists>k'. waitpid (-1) True tree_kernel = Inr (W_return 5 (Some 42), k') \<and> children k' 2 [4] \<and> heap k' 5 = None"
proof -
  obtain res k' where r: "waitpid (-1) True tree_kernel = Inr (res, k')" using tree_kernel_waits by blast
  have "res = W_return (p_pid ((plain_process 5 7 ZOMBIE None)\<lparr>p_parent := 2, p_return_value := 42\<rparr>))
      (Some (p_return_value ((plain_process 5 7 ZOMBIE None)\<lparr>p_parent := 2, p_return_value := 42\<rparr>))) \<and>
      children k' (get_current_process tree_kernel) ([4] @ []) \<and> heap k' 5 = None \<and> kwf k'"
  proof (rule waitpid_reaps_first_zombie [OF tree_kernel_kwf _ _ _ _ _ _ _ r])
    show "heap_below_fresh tree_kernel" by (simp add: heap_below_fresh_def tree_kernel_def small_kernel_def)
    show "children tree_kernel (get_current_process tree_kernel) ([4] @ 5 # [])"
      by (simp only: tree_kernel_current tree_kernel_children)
  qed (simp_all add: tree_kernel_current, simp_all add: tree_kernel_def)
  then show ?thesis using r by (simp add: tree_kernel_current plain_process_def)
qed

text \<open>
  A new process becomes the last child of its parent: \<^verbatim>\<open>start_virtual\<close> and \<^verbatim>\<open>fork\<close> append
  it to the parent's list, and it has no child of its own.
\<close>

theorem creation_appends_child:
  assumes "children k q cs" "p \<noteq> 0" "p \<notin> set cs" "p \<noteq> q" "heap k p = Some pr" "link_to_parent p q k = Inr k'"
  shows "children k' q (cs @ [p]) \<and> children k' p [] \<and> (\<exists>pr'. heap k' p = Some pr' \<and> p_parent pr' = q)"
  by (rule link_to_parent_children [OF assms])

theorem creation_appends_child_witness:
  "\<exists>k'. link_to_parent 3 2 tree_kernel = Inr k' \<and> children k' 2 [4, 5, 3]"
proof -
  have "\<exists>k'. link_to_parent 3 2 tree_kernel = Inr k'"
    by (simp add: link_to_parent_def pmod_def dref_def tree_kernel_def small_kernel_def plain_process_def)
  then obtain k' where k': "link_to_parent 3 2 tree_kernel = Inr k'" by blast
  have h: "heap tree_kernel 3 = Some (plain_process 3 5 ACTIVATABLE (Some Q_act))"
    by (simp add: tree_kernel_def small_kernel_def)
  show ?thesis using creation_appends_child [OF tree_kernel_children _ _ _ h k'] k' by simp
qed

lemma kalloc_fork [simp]:
  "fork_nodes (snd (kalloc k)) = fork_nodes k" "forked_data_list (snd (kalloc k)) = forked_data_list k" "fresh (snd (kalloc k)) = fresh k"
  by (simp_all add: kalloc_def Let_def split: prod.split)

text \<open>
  C34. The list of saved trap frames implements a map from pids to frames. From any well linked list with
  distinct pids, a successful save of the frame of a new child and, with any change of the rest of the kernel
  in between, the first run of any process keep the list well linked in both directions, so that they can
  be repeated: the process that runs gets the frame saved under its pid (none when it has none),
  exactly its node leaves the list and is freed, whether it is the only one, the first, the last
  or in the middle, and nothing else of the kernel changes. \<open>forks k ns\<close> says that the nodes that
  are allocated are those of the well linked list \<open>ns\<close>.
\<close>

theorem fork_frame_roundtrip:
  assumes "forks k ns" "0 < fresh k" "distinct (map saved_pid ns)" "frames_of ns pid = None"
    and "add_fork_data_node pid tf k = Inr (0, k1)"
    and "fork_nodes k2 = fork_nodes k1" "forked_data_list k2 = forked_data_list k1" "fresh k1 \<le> fresh k2"
  shows "\<exists>k3. return_from_trap_frame k2 = Inr (((frames_of ns)(pid \<mapsto> tf)) (getpid k2), k3) \<and>
    forks k3 (filter (\<lambda>x. saved_pid x \<noteq> getpid k2) ((fresh k, pid, tf) # ns)) \<and>
    k3 = k2\<lparr>fork_nodes := fork_nodes k3, forked_data_list := forked_data_list k3\<rparr>"
proof -
  have "forks k1 ((fresh k, pid, tf) # ns)" by (rule add_fork_data_node_forks [OF assms(1,5,2)])
  then have f: "forks k2 ((fresh k, pid, tf) # ns)" by (rule forks_transfer) (use assms in auto)
  have d: "distinct (map saved_pid ((fresh k, pid, tf) # ns))"
    using assms(3,4) by (auto simp: frames_of_def saved_pid_def map_of_eq_None_iff)
  have m: "frames_of ((fresh k, pid, tf) # ns) = (frames_of ns)(pid \<mapsto> tf)" by (simp add: frames_of_def)
  show ?thesis using return_from_trap_frame_forks [OF f d] unfolding m .
qed

text \<open>Three children forked one after the other; the second, in the middle of the list, runs first.\<close>

definition saved_kernel :: "kernel" where
  "saved_kernel = small_kernel\<lparr>fresh := 12, cur_pid := 5, forked_data_list := 11,
     fork_nodes := [10 \<mapsto> \<lparr>fk_pid = 4, fk_trap_return = [40], fk_next = 0, fk_previous = 11\<rparr>,
                    11 \<mapsto> \<lparr>fk_pid = 5, fk_trap_return = [50], fk_next = 10, fk_previous = 0\<rparr>]\<rparr>"

theorem fork_frame_roundtrip_witness:
  "\<exists>k1 k3. forks saved_kernel [(11, 5, [50]), (10, 4, [40])] \<and> add_fork_data_node 6 [60] saved_kernel = Inr (0, k1) \<and>
     return_from_trap_frame k1 = Inr (Some [50], k3) \<and> forks k3 [(12, 6, [60]), (10, 4, [40])]"
proof -
  let ?ns = "[(11, 5, [50]), (10, 4, [40])]"
  have f: "forks saved_kernel ?ns" by (auto simp: forks_def saved_kernel_def split: if_split_asm)
  have "\<exists>k1. add_fork_data_node 6 [60] saved_kernel = Inr (0, k1) \<and> getpid k1 = 5"
    by (simp add: add_fork_data_node_def kalloc_def kmalloc_def fork_mod_def fork_node_def saved_kernel_def small_kernel_def Let_def getpid_def)
  then obtain k1 where a: "add_fork_data_node 6 [60] saved_kernel = Inr (0, k1)" "getpid k1 = 5" by blast
  have "0 < fresh saved_kernel" "distinct (map saved_pid ?ns)" "frames_of ?ns 6 = None" "fresh saved_kernel = 12"
    by (simp_all add: saved_kernel_def saved_pid_def frames_of_def)
  with fork_frame_roundtrip [OF f _ _ _ a(1) refl refl le_refl] a show ?thesis using f
    by (auto simp: frames_of_def saved_pid_def)
qed

text \<open>
  C37. \<^verbatim>\<open>kill\<close> of a process that waits for a child stops the machine: the process is in no queue,
  and the assertion of \<^verbatim>\<open>queue_del\<close> fails.
\<close>

theorem kill_waiting_parent_asserts:
  assumes "get_process_struct_of_pid pid k = p" "heap k p = Some pr" "p \<noteq> 0" "p_state pr = BLOCKEDWAITCHILD" "p_link pr = None"
    "p_pid pr \<noteq> getpid k" "pid \<noteq> 0" "pid \<noteq> 1"
  shows "kill pid k = Inl Assert_fail"
  using assms by (simp add: kill_def idleId_def kernelId_def Let_def validate_action_process_valid_def dref_def
      leave_queue_process_if_needed_def kq_del_def)

theorem kill_waiting_parent_asserts_witness: "kill 4 small_kernel = Inl Assert_fail"
  by (rule kill_waiting_parent_asserts [of 4 small_kernel 4 "plain_process 4 7 BLOCKEDWAITCHILD None"])
     (simp_all add: get_process_struct_of_pid_def getpid_def small_kernel_def)

text \<open>
  A child whose parent was freed cannot end: \<^verbatim>\<open>make_children_orphans_and_kill_zombies\<close> leaves
  the parent pointer of living children, and the end of such a child reads the freed structure.
\<close>

theorem orphan_exit_uses_freed_parent:
  assumes "get_process_struct_of_pid (getpid k) k = p" "p \<noteq> 0" "heap k p = Some pr" "p_state pr = ACTIF"
    "p_children_head pr = 0" "p_children_tail pr = 0" "p_parent pr \<noteq> 0" "p_parent pr \<noteq> p" "heap k (p_parent pr) = None"
  shows "exit_process v k = Inl Use_after_free"
  using assms
  by (simp add: exit_process_def validate_action_process_valid_def dref_def Let_def pmod_def
      turn_current_process_into_a_zombie_or_kill_it_def make_children_orphans_and_kill_zombies_def)

definition orphan_kernel :: kernel where
  "orphan_kernel = small_kernel\<lparr>heap := (heap small_kernel)(2 \<mapsto> (plain_process 2 3 ACTIF None)\<lparr>p_parent := 9\<rparr>)\<rparr>"

theorem orphan_exit_uses_freed_parent_witness: "exit_process 0 orphan_kernel = Inl Use_after_free"
  by (rule orphan_exit_uses_freed_parent [of orphan_kernel 2 "(plain_process 2 3 ACTIF None)\<lparr>p_parent := 9\<rparr>"])
     (simp_all add: get_process_struct_of_pid_def getpid_def orphan_kernel_def small_kernel_def, simp_all add: plain_process_def)

text \<open>
  \<^verbatim>\<open>start\<close>, the creation of a kernel process, never succeeds: it fails, or the machine reads
  through the null pointer to the program image.
\<close>

theorem start_never_succeeds:
  "start name ssize prio k = Inr (r, k') \<Longrightarrow> r = -1"
  by (auto simp: start_def elim!: rbindE split: if_split_asm prod.split_asm option.split_asm)

theorem start_never_succeeds_witness: "start None 4000 1 small_kernel = Inr (-1, small_kernel) \<and> (-1 :: int) = -1"
proof -
  have "start None 4000 1 small_kernel = Inr (-1, small_kernel)" by (simp add: start_def start_checks_def)
  then show ?thesis using start_never_succeeds by blast
qed

end
