(* ===== verification/MsgQueue.thy ===== *)
theory MsgQueue
  imports Semaphore
begin

text \<open>
  Message queues, \<^verbatim>\<open>src/kernel/sync/msgqueue.c\<close>: a bounded ring buffer with the processes blocked
  on it. \<^verbatim>\<open>psend\<close> and \<^verbatim>\<open>preceive\<close> are split at the context switch: \<open>psend_resume\<close> and
  \<open>preceive_resume\<close> are what a process that blocked does when it runs again.

  The contents of freshly allocated memory are an argument.
\<close>

definition NBQUEUES :: nat where "NBQUEUES = 100"
definition SUCCES :: int where "SUCCES = 0"
definition FAILURE :: int where "FAILURE = -1"

section \<open>The ring buffer\<close>

text \<open>
  \<^verbatim>\<open>is_empty\<close> begins with the assertion that the array is not null, which is not part of the model: the
  array of a queue is a list. A queue that \<^verbatim>\<open>pcreate\<close> reports has its array.
\<close>

definition is_full :: "msg_queue \<Rightarrow> bool" where
  "is_full q \<longleftrightarrow> mq_number q = mq_size q"

definition is_empty :: "msg_queue \<Rightarrow> bool" where
  "is_empty q \<longleftrightarrow> mq_number q = 0"

text \<open>The remainder of C truncates towards zero.\<close>

definition mod_c :: "int \<Rightarrow> int \<Rightarrow> int" where
  "mod_c a b = (let r = signed_modulo a b in if r < 0 then r + b else r)"

definition pop_oldest_msg :: "msg_queue \<Rightarrow> (int \<times> msg_queue) res" where
  "pop_oldest_msg q =
     (if mq_size q = 0 then Inl Div_by_zero
      else
        (let index = mod_c (int (mq_iffc q) - int (mq_number q)) (int (mq_size q)) in
         if nat index \<ge> length (mq_arr q) then Inl Out_of_bounds
         else Inr (mq_arr q ! nat index, q\<lparr>mq_number := mq_number q - 1\<rparr>)))"

definition add_message :: "int \<Rightarrow> msg_queue \<Rightarrow> msg_queue res" where
  "add_message message q =
     (if mq_iffc q \<ge> length (mq_arr q) then Inl Out_of_bounds
      else if mq_size q = 0 then Inl Div_by_zero
      else Inr (q\<lparr>mq_arr := (mq_arr q)[mq_iffc q := message], mq_number := mq_number q + 1,
                 mq_iffc := (mq_iffc q + 1) mod mq_size q\<rparr>))"

section \<open>The table of queues\<close>

fun first_free :: "msg_queue option list \<Rightarrow> nat \<Rightarrow> int" where
  "first_free [] i = -1"
| "first_free (q # qs) i = (if q = None then int i else first_free qs (Suc i))"

definition get_first_free_index :: "kernel \<Rightarrow> int" where
  "get_first_free_index k = first_free (all_queues k) 0"

definition get_mq :: "int \<Rightarrow> kernel \<Rightarrow> msg_queue option" where
  "get_mq fid k = (if fid < 0 \<or> fid \<ge> int NBQUEUES \<or> nat fid \<ge> length (all_queues k) then None else all_queues k ! nat fid)"

definition valid_fid :: "int \<Rightarrow> kernel \<Rightarrow> bool" where
  "valid_fid fid k \<longleftrightarrow> get_mq fid k \<noteq> None"

definition set_mq :: "int \<Rightarrow> msg_queue option \<Rightarrow> kernel \<Rightarrow> kernel" where
  "set_mq fid q k = k\<lparr>all_queues := (all_queues k)[nat fid := q]\<rparr>"

section \<open>Creation\<close>

text \<open>
  A size of 2147483647 bytes or more is refused after the structure has been put in the table,
  with the contents \<open>junk\<close> of fresh memory; so is a failed allocation of the array.
\<close>

definition pcreate :: "msg_queue \<Rightarrow> (nat \<Rightarrow> int) \<Rightarrow> int \<Rightarrow> kernel \<Rightarrow> int \<times> kernel" where
  "pcreate junk cells cnt k =
     (if cnt < 0 then (-1, k)
      else
        (let i = get_first_free_index k in
         if i < 0 then (-1, k)
         else
           (let (ok, k1) = kalloc k in
            if \<not> ok then (-1, k1)
            else
              (let k2 = set_mq i (Some junk) k1 in
               if 4 * cnt \<ge> 2147483647 then (-1, k2)
               else
                 (let (ok, k3) = kalloc k2 in
                  if \<not> ok then (-1, k3)
                  else
                    (i, (set_mq i (Some \<lparr>mq_arr = map cells [0 ..< nat cnt], mq_size = nat cnt, mq_number = 0, mq_iffc = 0\<rparr>) k3)
                          \<lparr>queues := (queues k3)(Q_cons (nat i) := [], Q_prod (nat i) := [])\<rparr>))))))"

section \<open>Waking the blocked processes\<close>

text \<open>One round per blocked process is the fuel of the loop.\<close>

fun free_blocked_loop :: "nat \<Rightarrow> qid \<Rightarrow> kernel \<Rightarrow> kernel res" where
  "free_blocked_loop 0 q k = Inl No_return"
| "free_blocked_loop (Suc n) q k =
     (if queues k q = [] then Inr k
      else
        rbind (kq_out q k) (\<lambda>(curr, k1).
        rbind (pmod curr (\<lambda>pr. pr\<lparr>p_message := (p_message pr)\<lparr>m_status := ERROR\<rparr>, p_state := ACTIVATABLE, p_link := None\<rparr>) k1) (\<lambda>k2.
        rbind (kq_add curr Q_act k2) (free_blocked_loop n q))))"

definition free_blocked_queue :: "qid \<Rightarrow> kernel \<Rightarrow> kernel res" where
  "free_blocked_queue q k = free_blocked_loop (Suc (length (queues k q))) q k"

section \<open>System calls\<close>

definition pdelete :: "int \<Rightarrow> kernel \<Rightarrow> (int \<times> kernel) res" where
  "pdelete fid k =
     (if \<not> valid_fid fid k then Inr (FAILURE, k)
      else
        rbind (free_blocked_queue (Q_cons (nat fid)) k) (\<lambda>k1.
        rbind (free_blocked_queue (Q_prod (nat fid)) k1) (\<lambda>k2.
        rbind (scheduler (set_mq fid None k2)) (\<lambda>k3. Inr (SUCCES, k3)))))"

text \<open>A process blocks in a list of the queue.\<close>

definition block_in :: "qid \<Rightarrow> (process \<Rightarrow> process) \<Rightarrow> kernel \<Rightarrow> kernel res" where
  "block_in q f k =
     (let p = get_current_process k in
      rbind (pmod p (\<lambda>pr. (f pr)\<lparr>p_state := BLOCKEDQUEUE, p_message := (p_message (f pr))\<lparr>m_blocked_head := Some q\<rparr>\<rparr>) k) (\<lambda>k1.
      rbind (kq_add p q k1) scheduler))"

text \<open>The result \<open>None\<close>: the process has blocked, and the resume function gives the value.\<close>

definition psend :: "int \<Rightarrow> int \<Rightarrow> kernel \<Rightarrow> (int option \<times> kernel) res" where
  "psend fid message k =
     (case get_mq fid k of
        None \<Rightarrow> Inr (Some FAILURE, k)
      | Some q \<Rightarrow>
          if is_empty q \<and> queues k (Q_cons (nat fid)) \<noteq> [] then
            rbind (kq_out (Q_cons (nat fid)) k) (\<lambda>(blocked, k1).
            rbind (pmod blocked (\<lambda>pr. pr\<lparr>p_state := ACTIVATABLE\<rparr>) k1) (\<lambda>k2.
            rbind (kq_add blocked Q_act k2) (\<lambda>k3.
            rbind (pmod blocked (\<lambda>pr. pr\<lparr>p_message := (p_message pr)\<lparr>m_value := message, m_status := RECEIVED\<rparr>\<rparr>) k3) (\<lambda>k4.
            rbind (scheduler k4) (\<lambda>k5. Inr (Some SUCCES, k5))))))
          else if is_full q then
            rbind (block_in (Q_prod (nat fid)) (\<lambda>pr. pr\<lparr>p_message := (p_message pr)\<lparr>m_value := message\<rparr>\<rparr>) k) (\<lambda>k1. Inr (None, k1))
          else rbind (add_message message q) (\<lambda>q1. Inr (Some SUCCES, set_mq fid (Some q1) k)))"

definition psend_resume :: "ptr \<Rightarrow> kernel \<Rightarrow> int res" where
  "psend_resume p k = rbind (dref p k) (\<lambda>pr. Inr (if m_status (p_message pr) \<noteq> SENT then FAILURE else SUCCES))"

text \<open>The message is stored only when the caller gave a pointer, \<open>want\<close>.\<close>

definition preceive :: "int \<Rightarrow> bool \<Rightarrow> kernel \<Rightarrow> (int option \<times> int option \<times> kernel) res" where
  "preceive fid want k =
     (case get_mq fid k of
        None \<Rightarrow> Inr (Some FAILURE, None, k)
      | Some q \<Rightarrow>
          if is_empty q \<and> queues k (Q_prod (nat fid)) \<noteq> [] then
            rbind (kq_out (Q_prod (nat fid)) k) (\<lambda>(blocked, k1).
            rbind (pmod blocked (\<lambda>pr. pr\<lparr>p_message := (p_message pr)\<lparr>m_status := SENT\<rparr>\<rparr>) k1) (\<lambda>k2.
            rbind (dref blocked k2) (\<lambda>pr.
            rbind (kq_add blocked Q_act k2) (\<lambda>k3.
            rbind (scheduler k3) (\<lambda>k4.
              Inr (Some SUCCES, if want then Some (m_value (p_message pr)) else None, k4))))))
          else if is_empty q then
            rbind (block_in (Q_cons (nat fid)) (\<lambda>pr. pr) k) (\<lambda>k1. Inr (None, None, k1))
          else if is_full q \<and> queues k (Q_prod (nat fid)) \<noteq> [] then
            rbind (pop_oldest_msg q) (\<lambda>(msg, q1).
            rbind (kq_out (Q_prod (nat fid)) k) (\<lambda>(blocked, k1).
            rbind (dref blocked k1) (\<lambda>pr.
            rbind (add_message (m_value (p_message pr)) q1) (\<lambda>q2.
            rbind (pmod blocked (\<lambda>pr. pr\<lparr>p_message := (p_message pr)\<lparr>m_status := SENT\<rparr>, p_state := ACTIVATABLE\<rparr>)
                     (set_mq fid (Some q2) k1)) (\<lambda>k2.
            rbind (kq_add blocked Q_act k2) (\<lambda>k3.
            rbind (scheduler k3) (\<lambda>k4. Inr (Some SUCCES, if want then Some msg else None, k4))))))))
          else
            rbind (pop_oldest_msg q) (\<lambda>(msg, q1).
              Inr (Some SUCCES, if want then Some msg else None, set_mq fid (Some q1) k)))"

definition preceive_resume :: "ptr \<Rightarrow> bool \<Rightarrow> kernel \<Rightarrow> (int \<times> int option) res" where
  "preceive_resume p want k =
     rbind (dref p k) (\<lambda>pr.
       Inr (if m_status (p_message pr) \<noteq> RECEIVED then (FAILURE, None)
            else (SUCCES, if want then Some (m_value (p_message pr)) else None)))"

definition pcount :: "int \<Rightarrow> bool \<Rightarrow> kernel \<Rightarrow> int \<times> int option" where
  "pcount fid want k =
     (case get_mq fid k of
        None \<Rightarrow> (FAILURE, None)
      | Some q \<Rightarrow>
          if \<not> want then (FAILURE, None)
          else if queues k (Q_cons (nat fid)) \<noteq> [] then (SUCCES, Some (- int (length (queues k (Q_cons (nat fid))))))
          else (SUCCES, Some (int (mq_number q) + int (length (queues k (Q_prod (nat fid)))))))"

definition preset :: "int \<Rightarrow> kernel \<Rightarrow> (int \<times> kernel) res" where
  "preset fid k =
     (case get_mq fid k of
        None \<Rightarrow> Inr (FAILURE, k)
      | Some q \<Rightarrow>
          rbind (free_blocked_queue (Q_cons (nat fid)) (set_mq fid (Some (q\<lparr>mq_number := 0, mq_iffc := 0\<rparr>)) k)) (\<lambda>k1.
          rbind (free_blocked_queue (Q_prod (nat fid)) k1) (\<lambda>k2.
          rbind (scheduler k2) (\<lambda>k3. Inr (SUCCES, k3)))))"

section \<open>The queue as a sequence of messages\<close>

definition mq_wf :: "msg_queue \<Rightarrow> bool" where
  "mq_wf q \<longleftrightarrow> length (mq_arr q) = mq_size q \<and> mq_number q \<le> mq_size q \<and> (mq_size q > 0 \<longrightarrow> mq_iffc q < mq_size q)"

definition contents :: "msg_queue \<Rightarrow> int list" where
  "contents q = map (\<lambda>j. mq_arr q ! ((mq_iffc q + mq_size q - mq_number q + j) mod mq_size q)) [0 ..< mq_number q]"

lemma length_contents [simp]: "length (contents q) = mq_number q"
  by (simp add: contents_def)

lemma mod_c_mod: "0 < b \<Longrightarrow> mod_c a b = a mod b"
proof (cases "0 \<le> a")
  case True
  then show "0 < b \<Longrightarrow> mod_c a b = a mod b"
    using pos_mod_sign [of b a] by (cases "a = 0") (simp_all add: not_less mod_c_def Let_def signed_modulo_int_def)
next
  case False
  assume b: "0 < b"
  have "signed_modulo a b = - ((- a) mod b)" using False b by (simp add: signed_modulo_int_def)
  then show ?thesis using b zmod_zminus1_eq_if [of a b] by (auto simp: mod_c_def Let_def)
qed

lemma contents_nth:
  assumes "mq_wf q" "j < mq_number q"
  shows "contents q ! j = mq_arr q ! ((mq_iffc q + mq_size q - mq_number q + j) mod mq_size q)"
  using assms by (simp add: contents_def)

lemma pop_oldest_msg_spec:
  assumes w: "mq_wf q" and n: "mq_number q > 0"
  shows "\<exists>q'. pop_oldest_msg q = Inr (hd (contents q), q') \<and> mq_wf q' \<and> contents q' = tl (contents q) \<and> mq_size q' = mq_size q"
proof -
  let ?s = "mq_size q" and ?i = "mq_iffc q" and ?n = "mq_number q"
  have s: "0 < ?s" "?n \<le> ?s" "?i < ?s" "length (mq_arr q) = ?s" using w n by (auto simp: mq_wf_def)
  have ix: "nat (mod_c (int ?i - int ?n) (int ?s)) = (?i + ?s - ?n) mod ?s"
  proof -
    have "(int ?i - int ?n) mod int ?s = (int ?i - int ?n + int ?s) mod int ?s" by simp
    also have "int ?i - int ?n + int ?s = int (?i + ?s - ?n)" using s by simp
    finally show ?thesis using s(1) by (simp add: mod_c_mod flip: zmod_int)
  qed
  let ?q = "q\<lparr>mq_number := ?n - 1\<rparr>"
  have "hd (contents q) = mq_arr q ! ((?i + ?s - ?n) mod ?s)" using n by (simp add: contents_def hd_map)
  then have p: "pop_oldest_msg q = Inr (hd (contents q), ?q)" using s ix mod_less_divisor [OF s(1)] by (simp add: pop_oldest_msg_def Let_def not_le)
  have "contents ?q = tl (contents q)"
  proof (rule nth_equalityI)
    fix j
    assume "j < length (contents ?q)"
    then have j: "j < ?n - 1" by simp
    have "?i + ?s - (?n - 1) + j = ?i + ?s - ?n + Suc j" using s n by simp
    then show "contents ?q ! j = tl (contents q) ! j"
      using j n contents_nth [OF w, of "Suc j"] by (simp add: nth_tl) (simp add: contents_def)
  qed simp
  then show ?thesis using p w n by (intro exI [of _ ?q]) (auto simp: mq_wf_def)
qed

lemma add_message_spec:
  assumes w: "mq_wf q" and n: "mq_number q < mq_size q"
  shows "\<exists>q'. add_message m q = Inr q' \<and> mq_wf q' \<and> contents q' = contents q @ [m] \<and> mq_size q' = mq_size q"
proof -
  let ?s = "mq_size q" and ?i = "mq_iffc q" and ?n = "mq_number q"
  have s: "0 < ?s" "?n < ?s" "?i < ?s" "length (mq_arr q) = ?s" using w n by (auto simp: mq_wf_def)
  define q' where "q' = q\<lparr>mq_arr := (mq_arr q)[?i := m], mq_number := ?n + 1, mq_iffc := (?i + 1) mod ?s\<rparr>"
  have a: "add_message m q = Inr q'" using s by (simp add: add_message_def q'_def)
  have w': "mq_wf q'" using s by (simp add: mq_wf_def q'_def)
  have base: "((?i + 1) mod ?s + ?s - (?n + 1) + j) mod ?s = (?i + ?s - ?n + j) mod ?s" if "j \<le> ?n" for j
  proof -
    have e: "(?i + 1) mod ?s + ?s - (?n + 1) + j = (?i + 1) mod ?s + (?s - (?n + 1) + j)" using s by simp
    have "((?i + 1) mod ?s + (?s - (?n + 1) + j)) mod ?s = (?i + 1 + (?s - (?n + 1) + j)) mod ?s"
      by (simp only: mod_add_left_eq)
    also have "?i + 1 + (?s - (?n + 1) + j) = ?i + ?s - ?n + j" using s by simp
    finally show ?thesis unfolding e .
  qed
  have "contents q' = contents q @ [m]"
  proof (rule nth_equalityI)
    show "length (contents q') = length (contents q @ [m])" by (simp add: q'_def)
    fix j
    assume "j < length (contents q')"
    then have j: "j \<le> ?n" by (simp add: q'_def)
    have l: "contents q' ! j = (mq_arr q)[?i := m] ! ((?i + ?s - ?n + j) mod ?s)"
      using contents_nth [OF w', of j] j base [OF j] by (simp add: q'_def)
    show "contents q' ! j = (contents q @ [m]) ! j"
    proof (cases "j = ?n")
      case True
      then have "(?i + ?s - ?n + j) mod ?s = ?i" using s by simp
      then show ?thesis using l True s by (simp add: nth_append)
    next
      case False
      then have jn: "j < ?n" using j by simp
      have "(?i + ?s - ?n + j) mod ?s \<noteq> ?i"
      proof
        assume h: "(?i + ?s - ?n + j) mod ?s = ?i"
        show False
        proof (cases "?i + j < ?n")
          case True
          then have "(?i + ?s - ?n + j) mod ?s = ?i + ?s - ?n + j" using s by (intro mod_less) simp
          then show False using h jn s by simp
        next
          case False
          then have "?i + ?s - ?n + j = (?i + j - ?n) + ?s" using s by simp
          then have "(?i + ?s - ?n + j) mod ?s = (?i + j - ?n) mod ?s" by (simp only: mod_add_self2)
          then have "(?i + ?s - ?n + j) mod ?s = ?i + j - ?n" using s jn by (simp only: mod_less)
          then show False using h jn False by simp
        qed
      qed
      then show ?thesis using l contents_nth [OF w jn] jn by (simp add: nth_append)
    qed
  qed
  then show ?thesis using a w' by (intro exI [of _ q']) (simp add: q'_def)
qed

end
