(* ===== verification/Fifo.thy ===== *)
theory Fifo
  imports Prelude
begin

text \<open>
  The contract of a bounded first-in first-out buffer, which the ring of a message queue
  (\<open>MsgQueue\<close>) and the buffer of a pipe (\<open>Pipe\<close>) both provide. An item that is put or taken is a
  sequence of elements: one message, or a chunk of bytes.
\<close>

section \<open>Sequences of operations\<close>

datatype ('a, 'n) fop = Put 'a | Get 'n

fun fifo_run :: "('a \<Rightarrow> 'q \<Rightarrow> 'q res) \<Rightarrow> ('n \<Rightarrow> 'q \<Rightarrow> ('a \<times> 'q) res) \<Rightarrow> ('a, 'n) fop list \<Rightarrow> 'q \<Rightarrow> ('a list \<times> 'q) res" where
  "fifo_run put get [] q = Inr ([], q)"
| "fifo_run put get (Put a # ops) q = rbind (put a q) (fifo_run put get ops)"
| "fifo_run put get (Get n # ops) q =
     rbind (get n q) (\<lambda>(a, q1). rbind (fifo_run put get ops q1) (\<lambda>(as, q2). Inr (a # as, q2)))"

text \<open>The operations fit: nothing is put beyond the capacity or taken beyond the length.\<close>

fun fits :: "('a \<Rightarrow> 'c list) \<Rightarrow> ('n \<Rightarrow> nat) \<Rightarrow> nat \<Rightarrow> nat \<Rightarrow> ('a, 'n) fop list \<Rightarrow> bool" where
  "fits flat amount cap l [] \<longleftrightarrow> True"
| "fits flat amount cap l (Put a # ops) \<longleftrightarrow> l + length (flat a) \<le> cap \<and> fits flat amount cap (l + length (flat a)) ops"
| "fits flat amount cap l (Get n # ops) \<longleftrightarrow> amount n \<le> l \<and> fits flat amount cap (l - amount n) ops"

fun put_items :: "('a, 'n) fop list \<Rightarrow> 'a list" where
  "put_items [] = []"
| "put_items (Put a # ops) = a # put_items ops"
| "put_items (Get n # ops) = put_items ops"

section \<open>The contract\<close>

locale fifo =
  fixes put :: "'a \<Rightarrow> 'q \<Rightarrow> 'q res" and get :: "'n \<Rightarrow> 'q \<Rightarrow> ('a \<times> 'q) res"
    and inv :: "'q \<Rightarrow> bool" and elems :: "'q \<Rightarrow> 'c list" and cap :: "'q \<Rightarrow> nat"
    and flat :: "'a \<Rightarrow> 'c list" and amount :: "'n \<Rightarrow> nat"
  assumes put_law: "inv q \<Longrightarrow> length (elems q) + length (flat a) \<le> cap q \<Longrightarrow>
      \<exists>q'. put a q = Inr q' \<and> inv q' \<and> elems q' = elems q @ flat a \<and> cap q' = cap q"
    and get_law: "inv q \<Longrightarrow> amount n \<le> length (elems q) \<Longrightarrow>
      \<exists>a q'. get n q = Inr (a, q') \<and> inv q' \<and> flat a = take (amount n) (elems q) \<and>
        elems q' = drop (amount n) (elems q) \<and> cap q' = cap q"
begin

text \<open>What comes out, followed by what is left, is what was there followed by what went in.\<close>

lemma run_is_fifo:
  "inv q \<Longrightarrow> fits flat amount (cap q) (length (elems q)) ops \<Longrightarrow>
     \<exists>out q'. fifo_run put get ops q = Inr (out, q') \<and> inv q' \<and> cap q' = cap q \<and>
       concat (map flat out) @ elems q' = elems q @ concat (map flat (put_items ops))"
proof (induction ops arbitrary: q)
  case (Cons x ops)
  show ?case
  proof (cases x)
    case (Put a)
    then obtain q1 where "put a q = Inr q1" "inv q1" "elems q1 = elems q @ flat a" "cap q1 = cap q"
      using put_law [OF Cons.prems(1), of a] Cons.prems(2) by auto
    then show ?thesis using Cons.IH [of q1] Cons.prems(2) Put by auto
  next
    case (Get n)
    then obtain a q1 where q1: "get n q = Inr (a, q1)" "inv q1" "flat a = take (amount n) (elems q)"
      "elems q1 = drop (amount n) (elems q)" "cap q1 = cap q"
      using get_law [OF Cons.prems(1), of n] Cons.prems(2) by auto
    then obtain out q' where "fifo_run put get ops q1 = Inr (out, q')" "inv q'" "cap q' = cap q"
      "concat (map flat out) @ elems q' = elems q1 @ concat (map flat (put_items ops))"
      using Cons.IH [of q1] Cons.prems(2) Get by auto
    then show ?thesis using q1 Get by simp
  qed
qed simp

lemma elems_bounded:
  assumes "inv q" "length (elems q) \<le> cap q" "fits flat amount (cap q) (length (elems q)) ops"
    "fifo_run put get ops q = Inr (out, q')"
  shows "length (elems q') \<le> cap q"
  using assms
proof (induction ops arbitrary: q out)
  case (Cons x ops)
  show ?case
  proof (cases x)
    case (Put a)
    then obtain q1 where "put a q = Inr q1" "inv q1" "elems q1 = elems q @ flat a" "cap q1 = cap q"
      using put_law [OF Cons.prems(1), of a] Cons.prems(3) by auto
    then show ?thesis using Cons.IH [of q1 out] Cons.prems Put by simp
  next
    case (Get n)
    then obtain a q1 where "get n q = Inr (a, q1)" "inv q1"
      "elems q1 = drop (amount n) (elems q)" "cap q1 = cap q"
      using get_law [OF Cons.prems(1), of n] Cons.prems(3) by auto
    then show ?thesis using Cons.IH [of q1] Cons.prems Get by (auto elim!: rbindE)
  qed
qed simp

end

end
