(* ===== verification/MsgInv.thy ===== *)
theory MsgInv
  imports MsgQueue SemInv Fifo
begin

text \<open>
  The message queues are mailboxes: the ring buffer is a bounded first-in first-out buffer, and
  the blocked processes of a queue are consumers only when it is empty and producers only when it
  is full. The theory shows that every system call keeps this, with the process management.
\<close>

section \<open>The ring is a bounded buffer\<close>

interpretation ring: fifo add_message "\<lambda>_. pop_oldest_msg" mq_wf contents mq_size "\<lambda>m. [m]" "\<lambda>_. 1"
proof unfold_locales
  fix q and a :: int
  assume "mq_wf q" "length (contents q) + length [a] \<le> mq_size q"
  then show "\<exists>q'. add_message a q = Inr q' \<and> mq_wf q' \<and> contents q' = contents q @ [a] \<and> mq_size q' = mq_size q"
    by (intro add_message_spec) simp_all
next
  fix q and n :: unit
  assume q: "mq_wf q" "1 \<le> length (contents q)"
  then have "contents q \<noteq> []" by (cases "contents q") simp_all
  then have "[hd (contents q)] = take 1 (contents q)" "tl (contents q) = drop 1 (contents q)"
    by (cases "contents q"; simp)+
  then show "\<exists>a q'. pop_oldest_msg q = Inr (a, q') \<and> mq_wf q' \<and> [a] = take 1 (contents q) \<and>
      contents q' = drop 1 (contents q) \<and> mq_size q' = mq_size q"
    using pop_oldest_msg_spec [of q] q by auto
qed

section \<open>Queues the scheduler does not use\<close>

definition other_queues :: "kernel \<Rightarrow> kernel \<Rightarrow> bool" where
  "other_queues k k' \<longleftrightarrow> (\<forall>q. q \<notin> {Q_act, Q_asleep, Q_dead} \<longrightarrow> queues k' q = queues k q)"

lemma other_queues_refl [simp, intro]: "other_queues k k"
  by (simp add: other_queues_def)

lemma other_queues_trans: "other_queues k k' \<Longrightarrow> other_queues k' k'' \<Longrightarrow> other_queues k k''"
  by (simp add: other_queues_def)

lemma kq_out_other: "kq_out q k = Inr (p, k') \<Longrightarrow> q \<in> {Q_act, Q_asleep, Q_dead} \<Longrightarrow> other_queues k k'"
  by (auto simp: other_queues_def elim!: kq_out_cases)

lemma kq_add_other: "kq_add p q k = Inr k' \<Longrightarrow> q \<in> {Q_act, Q_asleep, Q_dead} \<Longrightarrow> other_queues k k'"
  by (auto simp: other_queues_def elim!: kq_add_effect)

lemma pmod_other: "pmod p f k = Inr k' \<Longrightarrow> other_queues k k'"
  by (auto simp: other_queues_def pmod_def elim!: rbindE)

lemma setpid_other: "setpid i k = (r, k') \<Longrightarrow> other_queues k k'"
  by (auto simp: other_queues_def setpid_def split: if_split_asm)

lemma awake_loop_other: "awake_loop n k = Inr k' \<Longrightarrow> other_queues k k'"
proof (induction n arbitrary: k)
  case (Suc n)
  then show ?case
    by (auto elim!: rbindE split: if_split_asm)
       (blast intro: other_queues_trans kq_out_other kq_add_other)
qed simp

lemma free_dead_loop_other: "free_dead_loop n k = Inr k' \<Longrightarrow> kwf k \<Longrightarrow> other_queues k k'"
proof (induction n arbitrary: k)
  case (Suc n)
  show ?case
  proof (cases "queues k Q_dead = []")
    case False
    then obtain p k1 k2 r where a: "kq_out Q_dead k = Inr (p, k1)" "free_process_memory p DELETE_ALL k1 = Inr (r, k2)"
      "free_dead_loop n k2 = Inr k'"
      using Suc.prems(1) by (auto elim!: rbindE)
    obtain pr where pr: "heap k1 p = Some pr" "p_link pr = None" using a(1) False by (auto elim!: kq_out_cases)
    have w1: "kwf k1" using kq_out_kwf Suc.prems(2) a(1) by blast
    have "kwf k2" "queues k2 = queues k1" using free_process_memory_all [OF a(2) w1 pr] by simp_all
    then show ?thesis using Suc.IH [OF a(3)] kq_out_other [OF a(1)] by (simp add: other_queues_def)
  qed (use Suc.prems in auto)
qed simp

lemma dispatch_other: "dispatch sw c k = Inr k' \<Longrightarrow> other_queues k k'"
proof -
  assume d: "dispatch sw c k = Inr k'"
  obtain hi k1 tp where a: "kq_out Q_act k = Inr (hi, k1)" "dref hi k1 = Inr tp"
    using d unfolding dispatch_def by (auto elim!: rbindE)
  obtain r k2 where s: "setpid (p_pid tp) k1 = (r, k2)" by (cases "setpid (p_pid tp) k1")
  have q: "other_queues k k2" using kq_out_other [OF a(1)] setpid_other [OF s] other_queues_trans by blast
  have "other_queues k2 k'"
    using d a s unfolding dispatch_def
    by (auto elim!: rbindE split: if_split_asm) (blast intro: other_queues_trans pmod_other kq_add_other)+
  with q show ?thesis by (rule other_queues_trans)
qed

lemma scheduler_other:
  assumes "scheduler k = Inr k'" "kwf k"
  shows "other_queues k k'"
proof -
  obtain k1 k2 where a: "awake_sleeping_process k = Inr k1" "free_dead_process k1 = Inr k2" "scheduler_choice k2 = Inr k'"
    using assms by (auto simp: scheduler_def res_simps)
  have "kwf k1" "other_queues k k1"
    using a(1) assms(2) awake_loop_keeps awake_loop_other unfolding awake_sleeping_process_def by blast+
  then have q: "other_queues k k2"
    using a(2) free_dead_loop_other other_queues_trans unfolding free_dead_process_def by blast
  have "other_queues k2 k'"
    using a(3) unfolding scheduler_choice_def
    by (auto simp: Let_def other_queues_def [of _ "_\<lparr>started_user_process := _\<rparr>"] other_queues_def [symmetric]
        elim!: rbindE split: if_split_asm)
       (auto simp: other_queues_def dest!: dispatch_other kq_add_other)
  with q show ?thesis by (rule other_queues_trans)
qed

section \<open>Steps that keep the process management\<close>

lemma cpu_ok_kwf: "cpu_ok k \<Longrightarrow> kwf k"
  by (simp add: cpu_ok_def)

lemma kq_out_cpu_ok:
  assumes c: "cpu_ok k" and o: "kq_out q k = Inr (p, k')" and ne: "queues k q \<noteq> []"
  shows "cpu_ok k'" "p \<noteq> get_current_process k" "get_current_process k' = get_current_process k"
    "\<exists>pr. heap k' p = Some pr \<and> p_link pr = None"
proof -
  obtain pr where p: "p = last (queues k q)" "heap k p = Some pr"
      "k' = k\<lparr>heap := (heap k)(p \<mapsto> pr\<lparr>p_link := None\<rparr>), queues := (queues k)(q := butlast (queues k q))\<rparr>"
    using o ne by (auto elim!: kq_out_cases)
  have "p_link pr = Some q" using kwf_member [OF cpu_ok_kwf [OF c], of p q] p ne by auto
  then show np: "p \<noteq> get_current_process k" using c p(2) by (auto simp: cpu_ok_def)
  show "get_current_process k' = get_current_process k"
    by (simp add: p(3) get_current_process_def get_process_struct_of_pid_def getpid_def)
  show "\<exists>pr. heap k' p = Some pr \<and> p_link pr = None" by (simp add: p(3))
  show "cpu_ok k'"
    using np p(2) by (intro cpu_ok_step [OF c kq_out_kwf [OF cpu_ok_kwf [OF c] o]])
      (auto simp: p(3) split: if_split_asm)
qed

lemma pmod_cpu_ok:
  assumes c: "cpu_ok k" and m: "pmod p f k = Inr k'" and np: "p \<noteq> get_current_process k"
    and f: "\<And>pr. heap k p = Some pr \<Longrightarrow> stable pr (f pr) \<and> (p_state (f pr) = ACTIF \<longrightarrow> p_state pr = ACTIF)"
  shows "cpu_ok k'" "get_current_process k' = get_current_process k" "queues k' = queues k"
    "heap k' p = map_option f (heap k p)" "heap k p \<noteq> None"
proof -
  obtain pr where p: "heap k p = Some pr" "k' = k\<lparr>heap := (heap k)(p \<mapsto> f pr)\<rparr>"
    using m by (auto simp: pmod_def dref_Some elim!: rbindE)
  have "kwf k'" unfolding p(2) by (rule heap_upd_kwf [OF cpu_ok_kwf [OF c] p(1)]) (use f [OF p(1)] in simp)
  then show "cpu_ok k'"
    using np p f by (intro cpu_ok_step [OF c]) (auto simp: p(2) split: if_split_asm)
  show "get_current_process k' = get_current_process k" "queues k' = queues k" "heap k' p = map_option f (heap k p)"
    "heap k p \<noteq> None" using p by simp_all
qed

lemma kq_add_cpu_ok:
  assumes c: "cpu_ok k" and a: "kq_add p q k = Inr k'" and np: "p \<noteq> get_current_process k"
  shows "cpu_ok k'" "get_current_process k' = get_current_process k" "\<And>r. r \<noteq> q \<Longrightarrow> queues k' r = queues k r"
    "queues k' q \<noteq> []"
proof -
  obtain pr where p: "heap k p = Some pr" "p_link pr = None"
    "k' = k\<lparr>heap := (heap k)(p \<mapsto> pr\<lparr>p_link := Some q\<rparr>), queues := (queues k)(q := pq_add (qprio k q) p (queues k q))\<rparr>"
    using a by (rule kq_add_effect)
  show "cpu_ok k'"
    using np p by (intro cpu_ok_step [OF c kq_add_kwf [OF cpu_ok_kwf [OF c] a]]) (auto simp: p(3) split: if_split_asm)
  show "get_current_process k' = get_current_process k"
    by (simp add: p(3) get_current_process_def get_process_struct_of_pid_def getpid_def)
  show "\<And>r. r \<noteq> q \<Longrightarrow> queues k' r = queues k r" by (simp add: p(3))
  have "p \<in> set (queues k' q)" by (simp add: p(3))
  then show "queues k' q \<noteq> []" by auto
qed

section \<open>The mailbox invariant\<close>

definition mq_slot :: "msg_queue option \<Rightarrow> ptr list \<Rightarrow> ptr list \<Rightarrow> bool" where
  "mq_slot qo cs ps \<longleftrightarrow>
     (case qo of
        None \<Rightarrow> cs = [] \<and> ps = []
      | Some q \<Rightarrow> mq_wf q \<and> (cs \<noteq> [] \<longrightarrow> mq_number q = 0) \<and> (ps \<noteq> [] \<longrightarrow> mq_number q = mq_size q) \<and> (cs = [] \<or> ps = []))"

definition slots_ok :: "msg_queue option list \<Rightarrow> (qid \<Rightarrow> ptr list) \<Rightarrow> bool" where
  "slots_ok qs w \<longleftrightarrow> length qs = NBQUEUES \<and> (\<forall>i < NBQUEUES. mq_slot (qs ! i) (w (Q_cons i)) (w (Q_prod i)))"

definition mailbox_ok :: "kernel \<Rightarrow> bool" where
  "mailbox_ok k \<longleftrightarrow> slots_ok (all_queues k) (queues k)"

definition mq_inv :: "kernel \<Rightarrow> bool" where
  "mq_inv k \<longleftrightarrow> cpu_ok k \<and> mailbox_ok k"

lemma mq_invI: "cpu_ok k \<Longrightarrow> mailbox_ok k \<Longrightarrow> mq_inv k"
  by (simp add: mq_inv_def)

lemma slots_ok_cong:
  assumes "slots_ok qs w" "\<And>i. w' (Q_cons i) = w (Q_cons i)" "\<And>i. w' (Q_prod i) = w (Q_prod i)"
  shows "slots_ok qs w'"
  using assms by (simp add: slots_ok_def)

lemma slots_ok_upd:
  assumes "slots_ok qs w" "mq_slot qo (w' (Q_cons i)) (w' (Q_prod i))"
    "\<And>j. j \<noteq> i \<Longrightarrow> w' (Q_cons j) = w (Q_cons j)" "\<And>j. j \<noteq> i \<Longrightarrow> w' (Q_prod j) = w (Q_prod j)"
  shows "slots_ok (qs[i := qo]) w'"
  unfolding slots_ok_def
proof (intro conjI allI impI)
  show "length (qs[i := qo]) = NBQUEUES" using assms(1) by (simp add: slots_ok_def)
  fix j
  assume "j < NBQUEUES"
  then show "mq_slot (qs[i := qo] ! j) (w' (Q_cons j)) (w' (Q_prod j))"
    using assms by (cases "j = i") (simp_all add: slots_ok_def)
qed

lemma slots_ok_wait:
  assumes "slots_ok qs w" "mq_slot (qs ! i) (w' (Q_cons i)) (w' (Q_prod i))"
    "\<And>j. j \<noteq> i \<Longrightarrow> w' (Q_cons j) = w (Q_cons j)" "\<And>j. j \<noteq> i \<Longrightarrow> w' (Q_prod j) = w (Q_prod j)"
  shows "slots_ok qs w'"
  using slots_ok_upd [OF assms] by simp

lemma get_mq_slot:
  assumes "mailbox_ok k" "get_mq fid k = Some q"
  shows "0 \<le> fid" "nat fid < NBQUEUES" "all_queues k ! nat fid = Some q"
    "mq_slot (Some q) (queues k (Q_cons (nat fid))) (queues k (Q_prod (nat fid)))"
  using assms by (auto simp: get_mq_def mailbox_ok_def slots_ok_def split: if_split_asm)
    (metis nat_less_iff not_less)+

text \<open>The end of a system call.\<close>

lemma mailbox_scheduler:
  assumes "scheduler k = Inr k'" "schedulable k" "mailbox_ok k"
  shows "mq_inv k'"
proof -
  have "other_queues k k'" using scheduler_other [OF assms(1)] assms(2) by (simp add: schedulable_def)
  moreover have "all_queues k' = all_queues k" using scheduler_quiet [OF assms(1)] by (simp add: quiet_def)
  ultimately have "mailbox_ok k'"
    using assms(3) slots_ok_cong [of "all_queues k" "queues k" "queues k'"] by (simp add: mailbox_ok_def other_queues_def)
  then show ?thesis using scheduler_cpu_ok [OF assms(2,1)] by (simp add: mq_inv_def)
qed

lemma mailbox_end:
  assumes "scheduler k = Inr k'" "cpu_ok k" "queues k Q_act \<noteq> []" "mailbox_ok k"
  shows "mq_inv k'"
  using mailbox_scheduler [OF assms(1) cpu_ok_schedulable [OF assms(2,3)] assms(4)] .

lemma mailbox_frame:
  assumes "mailbox_ok k" "all_queues k' = all_queues k" "\<And>q. q \<notin> {Q_act, Q_asleep, Q_dead} \<Longrightarrow> queues k' q = queues k q"
  shows "mailbox_ok k'"
  using assms slots_ok_cong [of "all_queues k" "queues k" "queues k'"] by (simp add: mailbox_ok_def)

section \<open>The system calls keep the invariant\<close>

lemma mq_slot_butlast:
  "mq_slot qo cs ps \<Longrightarrow> mq_slot qo (butlast cs) ps" "mq_slot qo cs ps \<Longrightarrow> mq_slot qo cs (butlast ps)"
  by (auto simp: mq_slot_def split: option.splits)

text \<open>A process leaves a list of a message queue for the activatable queue.\<close>

lemma wake_queues:
  assumes c: "cpu_ok k" and o: "kq_out q k = Inr (p, k1)" and ne: "queues k q \<noteq> []" and q: "q \<noteq> Q_act"
    and m: "pmod p f k1 = Inr k2" and a: "kq_add p Q_act k2 = Inr k3"
    and f: "\<And>pr. p_link pr = None \<Longrightarrow> stable pr (f pr) \<and> (p_state (f pr) = ACTIF \<longrightarrow> p_state pr = ACTIF)"
  shows "cpu_ok k3" "p \<noteq> get_current_process k3" "queues k3 Q_act \<noteq> []" "queues k3 q = butlast (queues k q)"
    "\<And>r. r \<noteq> Q_act \<Longrightarrow> r \<noteq> q \<Longrightarrow> queues k3 r = queues k r" "all_queues k3 = all_queues k"
proof -
  note 1 = kq_out_cpu_ok [OF c o ne]
  have np: "p \<noteq> get_current_process k1" using 1 by simp
  have f': "stable pr (f pr) \<and> (p_state (f pr) = ACTIF \<longrightarrow> p_state pr = ACTIF)" if "heap k1 p = Some pr" for pr
    using f 1(4) that by auto
  note 2 = pmod_cpu_ok [OF 1(1) m np f']
  have np2: "p \<noteq> get_current_process k2" using np 2 by simp
  have c2: "cpu_ok k2" and q2: "queues k2 = queues k1" and g2: "get_current_process k2 = get_current_process k1"
    using 2 by simp_all
  note 3 = kq_add_cpu_ok [OF c2 a np2]
  have k1: "queues k1 = (queues k)(q := butlast (queues k q))" using o ne by (auto elim!: kq_out_cases)
  show "cpu_ok k3" "queues k3 Q_act \<noteq> []" using 3 by simp_all
  show "p \<noteq> get_current_process k3" using np2 3(2) by simp
  show "queues k3 q = butlast (queues k q)" using 3(3) [OF q] q2 k1 by simp
  show "queues k3 r = queues k r" if "r \<noteq> Q_act" "r \<noteq> q" for r using 3(3) [OF that(1)] q2 k1 that by simp
  show "all_queues k3 = all_queues k"
    using kq_out_quiet [OF o] pmod_quiet [OF m] kq_add_quiet [OF a] by (simp add: quiet_def)
qed

lemma wake_mailbox:
  assumes i: "mq_inv k" and o: "kq_out q k = Inr (p, k1)" and ne: "queues k q \<noteq> []" and q: "q = Q_cons j \<or> q = Q_prod j"
    and m: "pmod p f k1 = Inr k2" and a: "kq_add p Q_act k2 = Inr k3" and j: "j < NBQUEUES"
    and f: "\<And>pr. p_link pr = None \<Longrightarrow> stable pr (f pr) \<and> (p_state (f pr) = ACTIF \<longrightarrow> p_state pr = ACTIF)"
  shows "mq_inv k3" "p \<noteq> get_current_process k3" "queues k3 Q_act \<noteq> []"
proof -
  have c: "cpu_ok k" and mb: "slots_ok (all_queues k) (queues k)" using i by (simp_all add: mq_inv_def mailbox_ok_def)
  have qa: "q \<noteq> Q_act" using q by auto
  note w = wake_queues [OF c o ne qa m a f]
  have "mq_slot (all_queues k ! j) (queues k (Q_cons j)) (queues k (Q_prod j))" using mb j by (simp add: slots_ok_def)
  then have "mq_slot (all_queues k ! j) (queues k3 (Q_cons j)) (queues k3 (Q_prod j))"
    using q w(4) w(5) [of "Q_cons j"] w(5) [of "Q_prod j"] by (auto intro: mq_slot_butlast)
  then have "slots_ok (all_queues k) (queues k3)"
    using q by (intro slots_ok_wait [OF mb, of j]) (auto intro: w(5))
  then show "mq_inv k3" using w by (simp add: mq_inv_def mailbox_ok_def)
  show "p \<noteq> get_current_process k3" "queues k3 Q_act \<noteq> []" using w by simp_all
qed

text \<open>The running process blocks in a list of a message queue.\<close>

lemma block_in_keeps:
  assumes i: "mq_inv k" and act: "queues k Q_act \<noteq> []" and b: "block_in q f k = Inr k'"
    and f: "\<And>pr. stable pr (f pr)"
    and slot: "j < NBQUEUES" "all_queues k ! j = Some mq"
      "q = Q_cons j \<and> queues k (Q_prod j) = [] \<and> mq_number mq = 0 \<or>
       q = Q_prod j \<and> queues k (Q_cons j) = [] \<and> mq_number mq = mq_size mq"
  shows "mq_inv k'"
proof -
  have c: "cpu_ok k" and mb: "slots_ok (all_queues k) (queues k)" using i by (simp_all add: mq_inv_def mailbox_ok_def)
  define p where "p = get_current_process k"
  obtain pr where pr: "heap k p = Some pr" "p_link pr = None" using c by (auto simp: cpu_ok_def p_def)
  have p0: "p \<noteq> 0" using kwf_null [OF cpu_ok_kwf [OF c]] pr(1) by (cases "p = 0") auto
  define pr1 where "pr1 = (f pr)\<lparr>p_state := BLOCKEDQUEUE, p_message := (p_message (f pr))\<lparr>m_blocked_head := Some q\<rparr>\<rparr>"
  have st: "stable pr pr1" using f [of pr] by (simp add: stable_def pr1_def)
  define k1 where "k1 = k\<lparr>heap := (heap k)(p \<mapsto> pr1)\<rparr>"
  have w1: "kwf k1" unfolding k1_def by (rule heap_upd_kwf [OF cpu_ok_kwf [OF c] pr(1) st])
  have o1: "one_actif k1" unfolding k1_def by (rule one_actif_upd [OF _ pr(1)]) (use c in \<open>simp_all add: cpu_ok_def pr1_def\<close>)
  have h1: "heap k1 p = Some pr1" "p_link pr1 = None" using st pr by (simp_all add: k1_def stable_def)
  define k2 where "k2 = k1\<lparr>heap := (heap k1)(p \<mapsto> pr1\<lparr>p_link := Some q\<rparr>), queues := (queues k1)(q := pq_add (qprio k1 q) p (queues k1 q))\<rparr>"
  have a: "kq_add p q k1 = Inr k2" using kq_add_ok [OF w1 h1] by (simp add: k2_def)
  have sch: "scheduler k2 = Inr k'"
    using b pr(1) p0 a by (simp add: block_in_def Let_def pmod_def dref_def p_def [symmetric] k1_def pr1_def)
  have g2: "get_current_process k2 = p" by (simp add: k2_def k1_def p_def get_current_process_def get_process_struct_of_pid_def getpid_def)
  have "one_actif k2"
    unfolding one_actif_def g2
  proof (intro allI impI)
    fix x r
    assume h: "heap k2 x = Some r" "p_state r = ACTIF"
    show "x = p"
    proof (rule ccontr)
      assume "x \<noteq> p"
      then have "heap k1 x = Some r" using h(1) by (simp add: k2_def)
      then have "x = get_current_process k1" using o1 h(2) unfolding one_actif_def by blast
      then show False using \<open>x \<noteq> p\<close> by (simp add: k1_def p_def)
    qed
  qed
  moreover have "on_cpu k2" unfolding on_cpu_def g2 using slot(3) by (auto simp: k2_def parked_def pr1_def)
  moreover have "queues k2 Q_act \<noteq> []" using act slot(3) by (auto simp: k2_def k1_def)
  ultimately have s2: "schedulable k2" using kq_add_kwf [OF w1 a] c
    by (simp add: schedulable_def cpu_ok_def) (simp add: k2_def k1_def)
  have "mq_slot (Some mq) (queues k (Q_cons j)) (queues k (Q_prod j))"
    using mb slot(1,2) by (auto simp: slots_ok_def dest: spec [of _ j])
  then have "slots_ok (all_queues k) (queues k2)"
    using slot by (intro slots_ok_wait [OF mb, of j]) (auto simp: k2_def k1_def mq_slot_def)
  then show ?thesis by (intro mailbox_scheduler [OF sch s2]) (simp add: mailbox_ok_def k2_def k1_def)
qed

text \<open>A new state of the ring in the table.\<close>

lemma set_mq_fields [simp]:
  "heap (set_mq f q k) = heap k" "queues (set_mq f q k) = queues k" "pid_table (set_mq f q k) = pid_table k"
  "cur_pid (set_mq f q k) = cur_pid k" "scheduler_main (set_mq f q k) = scheduler_main k"
  "started_user_process (set_mq f q k) = started_user_process k"
  "all_queues (set_mq f q k) = (all_queues k)[nat f := q]"
  by (simp_all add: set_mq_def)

lemma set_mq_cpu_ok [simp]: "cpu_ok (set_mq f q k) = cpu_ok k" "get_current_process (set_mq f q k) = get_current_process k"
  by (simp_all add: cpu_ok_def one_actif_def get_current_process_def get_process_struct_of_pid_def getpid_def
      kwf_def queues_wf_def links_wf_def pids_wf_def qprio_def [abs_def])

lemma set_mq_inv:
  assumes "mq_inv k" "mq_slot qo (queues k (Q_cons (nat f))) (queues k (Q_prod (nat f)))"
  shows "mq_inv (set_mq f qo k)"
  using assms slots_ok_upd [of "all_queues k" "queues k" qo "queues k" "nat f"]
  by (simp add: mq_inv_def mailbox_ok_def)

lemma mq_inv_cpu: "mq_inv k \<Longrightarrow> cpu_ok k"
  by (simp add: mq_inv_def)

lemma mq_inv_end:
  assumes "scheduler k = Inr k'" "mq_inv k" "queues k Q_act \<noteq> []"
  shows "mq_inv k'"
  using mailbox_end [OF assms(1) _ assms(3)] assms(2) by (simp add: mq_inv_def)

lemma pmod_mq_inv:
  assumes i: "mq_inv k" and m: "pmod p f k = Inr k'" and np: "p \<noteq> get_current_process k"
    and f: "\<And>pr. stable pr (f pr) \<and> p_state (f pr) = p_state pr"
  shows "mq_inv k'" "queues k' = queues k"
proof -
  have f': "stable pr (f pr) \<and> (p_state (f pr) = ACTIF \<longrightarrow> p_state pr = ACTIF)" for pr using f [of pr] by simp
  note c = pmod_cpu_ok [OF mq_inv_cpu [OF i] m np f']
  show q: "queues k' = queues k" using c by simp
  have "mailbox_ok k'"
    using i pmod_quiet [OF m] by (intro mailbox_frame [of k k']) (simp_all add: q mq_inv_def quiet_def)
  then show "mq_inv k'" using c by (simp add: mq_inv_def)
qed

lemma psend_keeps:
  assumes i: "mq_inv k" and act: "queues k Q_act \<noteq> []" and s: "psend fid msg k = Inr (r, k')"
  shows "mq_inv k'"
proof (cases "get_mq fid k")
  case None
  then show ?thesis using s i by (simp add: psend_def)
next
  case (Some q)
  have mb: "mailbox_ok k" using i by (simp add: mq_inv_def)
  note g = get_mq_slot [OF mb Some]
  have slot: "mq_wf q" "queues k (Q_cons (nat fid)) \<noteq> [] \<Longrightarrow> mq_number q = 0"
      "queues k (Q_prod (nat fid)) \<noteq> [] \<Longrightarrow> mq_number q = mq_size q" using g(4) by (auto simp: mq_slot_def)
  show ?thesis
  proof (cases "is_empty q \<and> queues k (Q_cons (nat fid)) \<noteq> []")
    case True
    then obtain p k1 k2 k3 k4 where a: "kq_out (Q_cons (nat fid)) k = Inr (p, k1)"
      "pmod p (\<lambda>pr. pr\<lparr>p_state := ACTIVATABLE\<rparr>) k1 = Inr k2" "kq_add p Q_act k2 = Inr k3"
      "pmod p (\<lambda>pr. pr\<lparr>p_message := (p_message pr)\<lparr>m_value := msg, m_status := RECEIVED\<rparr>\<rparr>) k3 = Inr k4" "scheduler k4 = Inr k'"
      using s Some by (auto simp: psend_def elim!: rbindE)
    note w = wake_mailbox [OF i a(1) conjunct2 [OF True] disjI1 [OF refl] a(2,3) g(2)]
    have "mq_inv k3" "p \<noteq> get_current_process k3" "queues k3 Q_act \<noteq> []" using w by (simp_all add: stable_def)
    note m = pmod_mq_inv [OF this(1) a(4) this(2)]
    show ?thesis using mq_inv_end [OF a(5)] m \<open>queues k3 Q_act \<noteq> []\<close> by (simp add: stable_def)
  next
    case nc: False
    show ?thesis
    proof (cases "is_full q")
      case True
      then obtain b: "block_in (Q_prod (nat fid)) (\<lambda>pr. pr\<lparr>p_message := (p_message pr)\<lparr>m_value := msg\<rparr>\<rparr>) k = Inr k'"
        using s Some nc by (auto simp: psend_def elim!: rbindE)
      have "queues k (Q_cons (nat fid)) = []" using nc slot(2) unfolding is_empty_def by blast
      then show ?thesis using True by (intro block_in_keeps [OF i act b _ g(2,3)]) (auto simp: stable_def is_full_def)
    next
      case False
      then have n: "mq_number q < mq_size q" using slot(1) by (simp add: is_full_def mq_wf_def)
      obtain q1 where q1: "add_message msg q = Inr q1" "k' = set_mq fid (Some q1) k"
        using s Some nc False by (auto simp: psend_def elim!: rbindE)
      then have "mq_wf q1" using add_message_spec [OF slot(1) n, of msg] by auto
      moreover have "queues k (Q_prod (nat fid)) = []" using slot(3) n by auto
      moreover have "queues k (Q_cons (nat fid)) = []" using nc slot(2) unfolding is_empty_def by blast
      ultimately show ?thesis unfolding q1(2) by (intro set_mq_inv [OF i]) (simp add: mq_slot_def)
    qed
  qed
qed

text \<open>The table of the message queues plays no part in the queue operations.\<close>

lemma dref_set_mq [simp]: "dref p (set_mq f x k) = dref p k"
  by (simp add: dref_def)

lemma qprio_set_mq [simp]: "qprio (set_mq f x k) = qprio k"
  by (simp add: fun_eq_iff qprio_def)

lemma set_mq_upd:
  "(set_mq f x k)\<lparr>heap := h\<rparr> = set_mq f x (k\<lparr>heap := h\<rparr>)"
  "(set_mq f x k)\<lparr>queues := w\<rparr> = set_mq f x (k\<lparr>queues := w\<rparr>)"
  by (simp_all add: set_mq_def)

lemma kq_out_set_mq: "kq_out q (set_mq f x k) = map_sum id (\<lambda>(p, k1). (p, set_mq f x k1)) (kq_out q k)"
  by (cases "queues k q = []"; cases "dref (last (queues k q)) k") (simp_all add: kq_out_def pq_out_def set_mq_upd)

lemma pmod_set_mq: "pmod p g (set_mq f x k) = map_sum id (set_mq f x) (pmod p g k)"
  by (cases "dref p k") (simp_all add: pmod_def set_mq_upd)

lemma kq_add_set_mq: "kq_add p q (set_mq f x k) = map_sum id (set_mq f x) (kq_add p q k)"
  unfolding kq_add_def dref_set_mq qprio_set_mq set_mq_fields
  by (cases "dref p k") (auto simp: rassert_def set_mq_upd)

lemma free_blocked_loop_set_mq: "free_blocked_loop n q (set_mq f x k) = map_sum id (set_mq f x) (free_blocked_loop n q k)"
proof (induction n arbitrary: k)
  case (Suc n)
  show ?case
  proof (cases "kq_out q k")
    case (Inr c)
    obtain p k1 where c: "c = (p, k1)" by (cases c)
    let ?f = "\<lambda>pr. pr\<lparr>p_message := (p_message pr)\<lparr>m_status := ERROR\<rparr>, p_state := ACTIVATABLE, p_link := None\<rparr>"
    show ?thesis
    proof (cases "pmod p ?f k1")
      case (Inr k2)
      show ?thesis using Inr c \<open>kq_out q k = Inr c\<close>
        by (cases "kq_add p Q_act k2") (simp_all add: kq_out_set_mq pmod_set_mq kq_add_set_mq Suc.IH)
    qed (use c Inr in \<open>simp add: kq_out_set_mq pmod_set_mq\<close>)
  qed (simp add: kq_out_set_mq)
qed simp

lemma preceive_keeps:
  assumes i: "mq_inv k" and act: "queues k Q_act \<noteq> []" and s: "preceive fid want k = Inr (r, v, k')"
  shows "mq_inv k'"
proof (cases "get_mq fid k")
  case None
  then show ?thesis using s i by (simp add: preceive_def)
next
  case (Some q)
  have mb: "mailbox_ok k" using i by (simp add: mq_inv_def)
  note g = get_mq_slot [OF mb Some]
  let ?P = "Q_prod (nat fid)" and ?C = "Q_cons (nat fid)"
  have slot: "mq_wf q" "queues k ?C \<noteq> [] \<Longrightarrow> mq_number q = 0"
      "queues k ?P \<noteq> [] \<Longrightarrow> mq_number q = mq_size q" "queues k ?P \<noteq> [] \<Longrightarrow> queues k ?C = []"
    using g(4) by (auto simp: mq_slot_def)
  consider (hand) "is_empty q" "queues k ?P \<noteq> []" | (block) "is_empty q" "queues k ?P = []"
    | (shift) "\<not> is_empty q" "is_full q" "queues k ?P \<noteq> []" | (take) "\<not> is_empty q" "\<not> (is_full q \<and> queues k ?P \<noteq> [])" by blast
  then show ?thesis
  proof cases
    case hand
    then obtain p k1 k2 k3 where a: "kq_out ?P k = Inr (p, k1)"
      "pmod p (\<lambda>pr. pr\<lparr>p_message := (p_message pr)\<lparr>m_status := SENT\<rparr>\<rparr>) k1 = Inr k2" "kq_add p Q_act k2 = Inr k3" "scheduler k3 = Inr k'"
      using s Some by (auto simp: preceive_def elim!: rbindE)
    note w = wake_mailbox [OF i a(1) hand(2) disjI2 [OF refl] a(2,3) g(2)]
    show ?thesis using mq_inv_end [OF a(4)] w by (simp add: stable_def)
  next
    case block
    then obtain b: "block_in ?C (\<lambda>pr. pr) k = Inr k'" using s Some by (auto simp: preceive_def elim!: rbindE)
    show ?thesis using block by (intro block_in_keeps [OF i act b _ g(2,3)]) (auto simp: stable_def is_empty_def)
  next
    case shift
    then obtain msg q1 p k1 pr q2 k2 k3 where a: "pop_oldest_msg q = Inr (msg, q1)" "kq_out ?P k = Inr (p, k1)"
      "add_message (m_value (p_message pr)) q1 = Inr q2"
      "pmod p (\<lambda>pr. pr\<lparr>p_message := (p_message pr)\<lparr>m_status := SENT\<rparr>, p_state := ACTIVATABLE\<rparr>) (set_mq fid (Some q2) k1) = Inr k2"
      "kq_add p Q_act k2 = Inr k3" "scheduler k3 = Inr k'" "dref p k1 = Inr pr"
      using s Some by (auto simp: preceive_def elim!: rbindE)
    have n: "0 < mq_number q" using shift by (simp add: is_empty_def)
    obtain "mq_wf q1" "contents q1 = tl (contents q)" "mq_size q1 = mq_size q"
      using pop_oldest_msg_spec [OF slot(1) n] a(1) by auto
    note q1 = this
    have len1: "mq_number q1 = mq_number q - 1" using arg_cong [OF q1(2), of length] by simp
    moreover have "mq_number q \<le> mq_size q" using slot(1) by (simp add: mq_wf_def)
    ultimately have "mq_number q1 < mq_size q1" using n q1(3) by simp
    then obtain "mq_wf q2" "contents q2 = contents q1 @ [m_value (p_message pr)]" "mq_size q2 = mq_size q1"
      using add_message_spec [OF q1(1), of "m_value (p_message pr)"] a(3) by auto
    note q2 = this
    have "mq_number q2 = mq_number q" using arg_cong [OF q2(2), of length] len1 n by simp
    then have "mq_slot (Some q2) (queues k ?C) (queues k ?P)"
      using slot(4) [OF shift(3)] shift(2) q2 q1 by (simp add: mq_slot_def is_full_def)
    then have i0: "mq_inv (set_mq fid (Some q2) k)" by (rule set_mq_inv [OF i])
    have o: "kq_out ?P (set_mq fid (Some q2) k) = Inr (p, set_mq fid (Some q2) k1)" by (simp add: kq_out_set_mq a(2))
    have "queues (set_mq fid (Some q2) k) ?P \<noteq> []" using shift(3) by simp
    note w = wake_mailbox [OF i0 o this disjI2 [OF refl] a(4,5) g(2)]
    show ?thesis using mq_inv_end [OF a(6)] w by (simp add: stable_def)
  next
    case take
    then obtain msg q1 where a: "pop_oldest_msg q = Inr (msg, q1)" "k' = set_mq fid (Some q1) k"
      using s Some by (auto simp: preceive_def elim!: rbindE)
    have n: "0 < mq_number q" using take by (simp add: is_empty_def)
    have "mq_wf q1" using pop_oldest_msg_spec [OF slot(1) n] a(1) by auto
    moreover have "queues k ?C = []" using slot(2) n by auto
    moreover have "queues k ?P = []" using take(2) slot(3) by (auto simp: is_full_def)
    ultimately show ?thesis unfolding a(2) by (intro set_mq_inv [OF i]) (simp add: mq_slot_def)
  qed
qed

text \<open>Waking every blocked process of a list.\<close>

lemma free_blocked_loop_keeps:
  assumes "free_blocked_loop n q k = Inr k'" "mq_inv k" "q = Q_cons j \<or> q = Q_prod j" "j < NBQUEUES"
  shows "mq_inv k' \<and> queues k' q = [] \<and> (queues k Q_act \<noteq> [] \<longrightarrow> queues k' Q_act \<noteq> []) \<and>
     (\<forall>r. r \<noteq> Q_act \<longrightarrow> r \<noteq> q \<longrightarrow> queues k' r = queues k r) \<and> all_queues k' = all_queues k"
  using assms(1,2)
proof (induction n arbitrary: k)
  case (Suc n)
  show ?case
  proof (cases "queues k q = []")
    case False
    then obtain p k1 k2 k3 where a: "kq_out q k = Inr (p, k1)"
      "pmod p (\<lambda>pr. pr\<lparr>p_message := (p_message pr)\<lparr>m_status := ERROR\<rparr>, p_state := ACTIVATABLE, p_link := None\<rparr>) k1 = Inr k2"
      "kq_add p Q_act k2 = Inr k3" "free_blocked_loop n q k3 = Inr k'"
      using Suc.prems(1) by (auto elim!: rbindE)
    have qa: "q \<noteq> Q_act" using assms(3) by auto
    note w = wake_queues [OF mq_inv_cpu [OF Suc.prems(2)] a(1) False qa a(2,3)]
    note m = wake_mailbox [OF Suc.prems(2) a(1) False assms(3) a(2,3) assms(4)]
    have "mq_inv k3" "queues k3 Q_act \<noteq> []" using m by (simp_all add: stable_def)
    moreover have "all_queues k3 = all_queues k" "\<And>r. r \<noteq> Q_act \<Longrightarrow> r \<noteq> q \<Longrightarrow> queues k3 r = queues k r"
      using w(5,6) by (simp_all add: stable_def)
    ultimately show ?thesis using Suc.IH [OF a(4)] by auto
  qed (use Suc.prems in auto)
qed simp

lemma free_blocked_queue_keeps:
  assumes "free_blocked_queue q k = Inr k'" "mq_inv k" "q = Q_cons j \<or> q = Q_prod j" "j < NBQUEUES"
  shows "mq_inv k'" "queues k' q = []" "queues k Q_act \<noteq> [] \<Longrightarrow> queues k' Q_act \<noteq> []"
    "\<And>r. r \<noteq> Q_act \<Longrightarrow> r \<noteq> q \<Longrightarrow> queues k' r = queues k r" "all_queues k' = all_queues k"
  using free_blocked_loop_keeps [OF assms(1) [unfolded free_blocked_queue_def] assms(2-)] by blast+

lemma free_both_keeps:
  assumes i: "mq_inv k" and j: "j < NBQUEUES" and act: "queues k Q_act \<noteq> []"
    and c: "free_blocked_queue (Q_cons j) k = Inr k1" and p: "free_blocked_queue (Q_prod j) k1 = Inr k2"
  shows "mq_inv k2" "queues k2 (Q_cons j) = []" "queues k2 (Q_prod j) = []" "queues k2 Q_act \<noteq> []"
proof -
  note 1 = free_blocked_queue_keeps [OF c i disjI1 [OF refl] j]
  note 2 = free_blocked_queue_keeps [OF p 1(1) disjI2 [OF refl] j]
  show "mq_inv k2" "queues k2 (Q_prod j) = []" by (fact 2)+
  show "queues k2 (Q_cons j) = []" using 1(2) 2(4) [of "Q_cons j"] by simp
  show "queues k2 Q_act \<noteq> []" using 1(3) [OF act] by (rule 2(3))
qed

lemma preset_keeps:
  assumes i: "mq_inv k" and act: "queues k Q_act \<noteq> []" and s: "preset fid k = Inr (r, k')"
  shows "mq_inv k'"
proof (cases "get_mq fid k")
  case None
  then show ?thesis using s i by (simp add: preset_def)
next
  case (Some q)
  have mb: "mailbox_ok k" using i by (simp add: mq_inv_def)
  note g = get_mq_slot [OF mb Some]
  let ?f = "set_mq fid (Some (q\<lparr>mq_number := 0, mq_iffc := 0\<rparr>))"
  obtain k1 k2 where a: "free_blocked_queue (Q_cons (nat fid)) (?f k) = Inr k1" "free_blocked_queue (Q_prod (nat fid)) k1 = Inr k2"
    "scheduler k2 = Inr k'"
    using s Some by (auto simp: preset_def elim!: rbindE)
  obtain k1' where k1: "free_blocked_queue (Q_cons (nat fid)) k = Inr k1'" "k1 = ?f k1'"
    using a(1) by (auto simp: free_blocked_queue_def free_blocked_loop_set_mq map_sum_Inr_iff)
  obtain k2' where k2: "free_blocked_queue (Q_prod (nat fid)) k1' = Inr k2'" "k2 = ?f k2'"
    using a(2) by (auto simp: free_blocked_queue_def free_blocked_loop_set_mq map_sum_Inr_iff k1(2))
  note f = free_both_keeps [OF i g(2) act k1(1) k2(1)]
  have "mq_slot (Some (q\<lparr>mq_number := 0, mq_iffc := 0\<rparr>)) [] []" using g(4) by (auto simp: mq_slot_def mq_wf_def)
  then have "mq_inv k2" unfolding k2(2) using f by (intro set_mq_inv [OF f(1)]) simp
  then show ?thesis using mq_inv_end [OF a(3)] f(4) by (simp add: k2(2))
qed

lemma pdelete_keeps:
  assumes i: "mq_inv k" and act: "queues k Q_act \<noteq> []" and s: "pdelete fid k = Inr (r, k')"
  shows "mq_inv k'"
proof (cases "get_mq fid k")
  case None
  then show ?thesis using s i by (simp add: pdelete_def valid_fid_def)
next
  case (Some q)
  have mb: "mailbox_ok k" using i by (simp add: mq_inv_def)
  note g = get_mq_slot [OF mb Some]
  obtain k1 k2 where a: "free_blocked_queue (Q_cons (nat fid)) k = Inr k1" "free_blocked_queue (Q_prod (nat fid)) k1 = Inr k2"
    "scheduler (set_mq fid None k2) = Inr k'"
    using s Some by (auto simp: pdelete_def valid_fid_def elim!: rbindE)
  note f = free_both_keeps [OF i g(2) act a(1,2)]
  have "mq_inv (set_mq fid None k2)" using f by (intro set_mq_inv [OF f(1)]) (simp add: mq_slot_def)
  then show ?thesis using mq_inv_end [OF a(3)] f(4) by simp
qed

lemma first_free_spec:
  "first_free qs n \<ge> 0 \<Longrightarrow> \<exists>i < length qs. first_free qs n = int (n + i) \<and> qs ! i = None"
proof (induction qs arbitrary: n)
  case (Cons q qs)
  show ?case
  proof (cases "q = None")
    case False
    then obtain i where "i < length qs" "first_free qs (Suc n) = int (Suc n + i)" "qs ! i = None"
      using Cons.IH [of "Suc n"] Cons.prems by auto
    then show ?thesis using False by (intro exI [of _ "Suc i"]) simp
  qed auto
qed simp

text \<open>A creation that succeeds: two allocations, and a queue of the size asked for.\<close>

lemma pcreate_keeps:
  assumes i: "mq_inv k" and s: "pcreate junk cells cnt k = (r, k')" and r: "0 \<le> r"
  shows "mq_inv k' \<and> (\<exists>q. get_mq r k' = Some q \<and> mq_size q = nat cnt \<and> contents q = []) \<and> get_mq r k = None"
proof -
  define f where "f = get_first_free_index k"
  have alloc: "\<exists>a m. kalloc x = (a, x\<lparr>kmm := m\<rparr>)" for x by (cases "kmalloc (kmm x)") (auto simp: kalloc_def)
  obtain a1 m1 where k1: "kalloc k = (a1, k\<lparr>kmm := m1\<rparr>)" using alloc by blast
  obtain a2 m3 where k3: "kalloc (set_mq f (Some junk) (k\<lparr>kmm := m1\<rparr>)) = (a2, (set_mq f (Some junk) (k\<lparr>kmm := m1\<rparr>))\<lparr>kmm := m3\<rparr>)"
    using alloc by blast
  have "(set_mq f (Some junk) (k\<lparr>kmm := m1\<rparr>))\<lparr>kmm := m3\<rparr> = (set_mq f (Some junk) k)\<lparr>kmm := m3\<rparr>" by (simp add: set_mq_def)
  with k1 k3 have e: "r = f" "0 \<le> cnt" "k' = (set_mq f (Some \<lparr>mq_arr = map cells [0 ..< nat cnt], mq_size = nat cnt, mq_number = 0, mq_iffc = 0\<rparr>)
      ((set_mq f (Some junk) k)\<lparr>kmm := m3\<rparr>))\<lparr>queues := (queues k)(Q_cons (nat f) := [], Q_prod (nat f) := [])\<rparr>"
    using s r by (auto simp: pcreate_def f_def [symmetric] Let_def split: if_split_asm)
  have mb: "slots_ok (all_queues k) (queues k)" using i by (simp add: mq_inv_def mailbox_ok_def)
  obtain j where j: "j < NBQUEUES" "f = int j" "all_queues k ! j = None"
    using first_free_spec [of "all_queues k" 0] r e(1) mb
    by (auto simp: f_def get_first_free_index_def slots_ok_def)
  then have em: "queues k (Q_cons j) = []" "queues k (Q_prod j) = []"
    using mb by (auto simp: slots_ok_def mq_slot_def dest: spec [of _ j])
  then have qq: "(queues k)(Q_cons (nat f) := [], Q_prod (nat f) := []) = queues k" by (auto simp: j(2))
  define q where "q = \<lparr>mq_arr = map cells [0 ..< nat cnt], mq_size = nat cnt, mq_number = 0, mq_iffc = 0\<rparr>"
  have k': "k' = (set_mq f (Some q) k)\<lparr>kmm := m3\<rparr>"
    unfolding e(3) q_def [symmetric] qq by (simp add: set_mq_def)
  have "mq_inv (set_mq f (Some q) k)" using em by (intro set_mq_inv [OF i]) (simp add: mq_slot_def mq_wf_def q_def j(2))
  then have "mq_inv k'" by (simp add: mq_inv_def mailbox_ok_def k')
  moreover have "get_mq r k = None" using j mb by (simp add: e(1) get_mq_def slots_ok_def)
  moreover have "get_mq r k' = Some q" using j mb by (simp add: e(1) get_mq_def slots_ok_def k')
  ultimately show ?thesis by (simp add: q_def contents_def)
qed

end
