(* ===== verification/MsgProps.thy ===== *)
theory MsgProps
  imports MsgInv
begin

text \<open>
  What the calls on message queues deliver: the messages of processes through the scheduler, the
  hand-over of a message to a blocked consumer and from a blocked producer, and the properties of
  the component.
\<close>

section \<open>Messages of processes through the scheduler\<close>

text \<open>Every process of \<open>k\<close> that is not dead is in \<open>k'\<close>, not dead and with its message.\<close>

definition msgs_kept :: "kernel \<Rightarrow> kernel \<Rightarrow> bool" where
  "msgs_kept k k' \<longleftrightarrow> (\<forall>p pr. heap k p = Some pr \<longrightarrow> p_link pr \<noteq> Some Q_dead \<longrightarrow>
     (\<exists>pr'. heap k' p = Some pr' \<and> p_message pr' = p_message pr \<and> p_link pr' \<noteq> Some Q_dead))"

definition msgs_le :: "kernel \<Rightarrow> kernel \<Rightarrow> bool" where
  "msgs_le k k' \<longleftrightarrow> (\<forall>p pr. heap k p = Some pr \<longrightarrow> (\<exists>pr'. heap k' p = Some pr' \<and> p_message pr' = p_message pr))"

lemma msgs_kept_refl [simp, intro]: "msgs_kept k k"
  by (simp add: msgs_kept_def)

lemma msgs_kept_trans:
  assumes "msgs_kept k k'" "msgs_kept k' k''"
  shows "msgs_kept k k''"
  unfolding msgs_kept_def
proof (intro allI impI)
  fix p pr
  assume "heap k p = Some pr" "p_link pr \<noteq> Some Q_dead"
  then obtain a where a: "heap k' p = Some a" "p_message a = p_message pr" "p_link a \<noteq> Some Q_dead"
    using assms(1) unfolding msgs_kept_def by blast
  then obtain b where "heap k'' p = Some b" "p_message b = p_message a" "p_link b \<noteq> Some Q_dead"
    using assms(2) unfolding msgs_kept_def by blast
  then show "\<exists>pr'. heap k'' p = Some pr' \<and> p_message pr' = p_message pr \<and> p_link pr' \<noteq> Some Q_dead" using a by simp
qed

lemma msgs_le_refl [simp, intro]: "msgs_le k k"
  by (simp add: msgs_le_def)

lemma msgs_le_trans:
  assumes "msgs_le k k'" "msgs_le k' k''"
  shows "msgs_le k k''"
  unfolding msgs_le_def
proof (intro allI impI)
  fix p pr
  assume "heap k p = Some pr"
  then obtain a where a: "heap k' p = Some a" "p_message a = p_message pr" using assms(1) unfolding msgs_le_def by blast
  then obtain b where "heap k'' p = Some b" "p_message b = p_message a" using assms(2) unfolding msgs_le_def by blast
  then show "\<exists>pr'. heap k'' p = Some pr' \<and> p_message pr' = p_message pr" using a by simp
qed

lemma kq_out_msgs: "kq_out q k = Inr (p, k') \<Longrightarrow> msgs_kept k k' \<and> msgs_le k k'"
  by (auto simp: msgs_kept_def msgs_le_def elim!: kq_out_cases)

lemma kq_add_msgs: "kq_add p q k = Inr k' \<Longrightarrow> (q \<noteq> Q_dead \<longrightarrow> msgs_kept k k') \<and> msgs_le k k'"
  by (auto simp: msgs_kept_def msgs_le_def elim!: kq_add_effect)

lemma pmod_msgs: "pmod p f k = Inr k' \<Longrightarrow> (\<And>pr. p_message (f pr) = p_message pr) \<Longrightarrow> msgs_le k k'"
  by (auto simp: msgs_le_def pmod_def dref_Some elim!: rbindE)

lemma setpid_msgs: "setpid i k = (r, k') \<Longrightarrow> msgs_le k k'"
  by (auto simp: msgs_le_def setpid_def split: if_split_asm)

lemma awake_loop_msgs: "awake_loop n k = Inr k' \<Longrightarrow> msgs_kept k k'"
proof (induction n arbitrary: k)
  case (Suc n)
  show ?case
  proof (cases "k' = k")
    case False
    then obtain p k1 k2 where a: "kq_out Q_asleep k = Inr (p, k1)" "kq_add p Q_act k1 = Inr k2" "awake_loop n k2 = Inr k'"
      using Suc.prems by (auto elim!: rbindE split: if_split_asm)
    then show ?thesis using kq_out_msgs [OF a(1)] kq_add_msgs [OF a(2)] Suc.IH [OF a(3)] by (auto intro: msgs_kept_trans)
  qed simp
qed simp

lemma free_dead_loop_msgs: "free_dead_loop n k = Inr k' \<Longrightarrow> kwf k \<Longrightarrow> msgs_kept k k'"
proof (induction n arbitrary: k)
  case (Suc n)
  show ?case
  proof (cases "queues k Q_dead = []")
    case False
    then obtain p k1 k2 r where a: "kq_out Q_dead k = Inr (p, k1)" "free_process_memory p DELETE_ALL k1 = Inr (r, k2)"
      "free_dead_loop n k2 = Inr k'"
      using Suc.prems(1) by (auto elim!: rbindE)
    obtain pr where pr: "heap k p = Some pr" "p \<in> set (queues k Q_dead)"
      "k1 = k\<lparr>heap := (heap k)(p \<mapsto> pr\<lparr>p_link := None\<rparr>), queues := (queues k)(Q_dead := butlast (queues k Q_dead))\<rparr>"
      using a(1) False by (auto elim!: kq_out_cases)
    have d: "p_link pr = Some Q_dead" using kwf_member [OF Suc.prems(2)] pr by auto
    have w1: "kwf k1" using kq_out_kwf Suc.prems(2) a(1) by blast
    have "kwf k2" "heap k2 = (heap k1)(p := None)" using free_process_memory_all [OF a(2) w1] pr by simp_all
    moreover from this have "msgs_kept k k2" using d pr by (simp add: msgs_kept_def)
    ultimately show ?thesis using Suc.IH [OF a(3)] by (blast intro: msgs_kept_trans)
  qed (use Suc.prems in auto)
qed simp

lemma dispatch_msgs: "dispatch sw c k = Inr k' \<Longrightarrow> msgs_le k k'"
proof -
  assume d: "dispatch sw c k = Inr k'"
  obtain hi k1 tp where a: "kq_out Q_act k = Inr (hi, k1)" "dref hi k1 = Inr tp"
    using d unfolding dispatch_def by (auto elim!: rbindE)
  obtain r k2 where s: "setpid (p_pid tp) k1 = (r, k2)" by (cases "setpid (p_pid tp) k1")
  have q: "msgs_le k k2" using kq_out_msgs [OF a(1)] setpid_msgs [OF s] msgs_le_trans by blast
  have st: "pmod p (\<lambda>pr. pr\<lparr>p_state := st\<rparr>) x = Inr y \<Longrightarrow> msgs_le x y" for p st x y by (erule pmod_msgs) simp
  have ad: "kq_add p q x = Inr y \<Longrightarrow> msgs_le x y" for p q x y using kq_add_msgs by blast
  have "msgs_le k2 k'"
    using d a s unfolding dispatch_def
    by (auto elim!: rbindE split: if_split_asm) (blast intro: msgs_le_trans st ad)+
  with q show ?thesis by (rule msgs_le_trans)
qed

lemma scheduler_msgs:
  assumes "scheduler k = Inr k'" "kwf k" "heap k p = Some pr" "p_link pr \<noteq> Some Q_dead"
  shows "\<exists>pr'. heap k' p = Some pr' \<and> p_message pr' = p_message pr"
proof -
  obtain k1 k2 where a: "awake_sleeping_process k = Inr k1" "free_dead_process k1 = Inr k2" "scheduler_choice k2 = Inr k'"
    using assms by (auto simp: scheduler_def res_simps)
  have "kwf k1" "msgs_kept k k1"
    using a(1) assms(2) awake_loop_keeps awake_loop_msgs unfolding awake_sleeping_process_def by blast+
  then have "msgs_kept k k2"
    using a(2) free_dead_loop_msgs msgs_kept_trans unfolding free_dead_process_def by blast
  then obtain b where b: "heap k2 p = Some b" "p_message b = p_message pr" using assms(3,4) unfolding msgs_kept_def by blast
  have ad: "kq_add p q x = Inr y \<Longrightarrow> dispatch s c y = Inr z \<Longrightarrow> msgs_le x z" for p q x y s c z
    using kq_add_msgs dispatch_msgs msgs_le_trans by blast
  have st: "msgs_le x (y\<lparr>started_user_process := u\<rparr>) = msgs_le x y" for x y u by (simp add: msgs_le_def)
  have "msgs_le k2 k'"
    using a(3) unfolding scheduler_choice_def
    by (auto simp: Let_def st elim!: rbindE split: if_split_asm) (blast intro: dispatch_msgs ad)+
  then show ?thesis using b unfolding msgs_le_def by fastforce
qed

section \<open>Waking a process of a message queue succeeds\<close>

lemma wake_total:
  assumes c: "cpu_ok k" and ne: "queues k q \<noteq> []" and q: "q \<notin> {Q_act, Q_asleep, Q_dead}"
    and f: "\<And>pr. stable pr (f pr)"
  obtains p pr k1 k2 k3 where "p = last (queues k q)" "heap k p = Some pr" "p_link pr = Some q" "p \<noteq> 0"
    "kq_out q k = Inr (p, k1)" "heap k1 p = Some (pr\<lparr>p_link := None\<rparr>)" "pmod p f k1 = Inr k2" "kq_add p Q_act k2 = Inr k3"
    "heap k3 p = Some ((f (pr\<lparr>p_link := None\<rparr>))\<lparr>p_link := Some Q_act\<rparr>)"
    "sleepers_ok k \<longrightarrow> sleepers_ok k3" "queues k3 Q_dead = queues k Q_dead"
proof -
  have w: "kwf k" using c by (rule cpu_ok_kwf)
  define p where "p = last (queues k q)"
  obtain pr where pr: "heap k p = Some pr" "p_link pr = Some q" "p \<noteq> 0"
    and o: "kq_out q k = Inr (p, k\<lparr>heap := (heap k)(p \<mapsto> pr\<lparr>p_link := None\<rparr>), queues := (queues k)(q := butlast (queues k q))\<rparr>)"
    using kq_out_ok [OF w ne] unfolding p_def by blast
  define k1 where "k1 = k\<lparr>heap := (heap k)(p \<mapsto> pr\<lparr>p_link := None\<rparr>), queues := (queues k)(q := butlast (queues k q))\<rparr>"
  have w1: "kwf k1" using kq_out_kwf [OF w o] by (simp add: k1_def)
  have h1: "heap k1 p = Some (pr\<lparr>p_link := None\<rparr>)" by (simp add: k1_def)
  define pf where "pf = f (pr\<lparr>p_link := None\<rparr>)"
  define k2 where "k2 = k1\<lparr>heap := (heap k1)(p \<mapsto> pf)\<rparr>"
  have m: "pmod p f k1 = Inr k2" using h1 pr(3) by (simp add: pmod_def dref_def k2_def pf_def)
  have st: "stable (pr\<lparr>p_link := None\<rparr>) pf" using f by (simp add: pf_def)
  have w2: "kwf k2" unfolding k2_def by (rule heap_upd_kwf [OF w1 h1 st])
  have h2: "heap k2 p = Some pf" "p_link pf = None" using st by (simp_all add: k2_def stable_def)
  define k3 where "k3 = k2\<lparr>heap := (heap k2)(p \<mapsto> pf\<lparr>p_link := Some Q_act\<rparr>), queues := (queues k2)(Q_act := pq_add (qprio k2 Q_act) p (queues k2 Q_act))\<rparr>"
  have a: "kq_add p Q_act k2 = Inr k3" using kq_add_ok [OF w2 h2] by (simp add: k3_def)
  have "p \<notin> set (queues k Q_asleep)" using kwf_member [OF w, of p Q_asleep] pr q by auto
  then have sl: "sleepers_ok k \<longrightarrow> sleepers_ok k3" using q by (auto simp: sleepers_ok_def k3_def k2_def k1_def)
  have d3: "queues k3 Q_dead = queues k Q_dead" using q by (auto simp: k3_def k2_def k1_def)
  have h3: "heap k3 p = Some ((f (pr\<lparr>p_link := None\<rparr>))\<lparr>p_link := Some Q_act\<rparr>)" by (simp add: k3_def pf_def)
  show thesis by (rule that [OF p_def pr o [folded k1_def] h1 m a h3 sl d3])
qed

lemma mq_scheduler_returns:
  assumes "cpu_ok k" "queues k Q_act \<noteq> []" "sleepers_ok k" "queues k Q_dead = []"
  shows "\<exists>k'. scheduler k = Inr k'"
  using scheduler_returns_lemma [OF cpu_ok_schedulable [OF assms(1,2)] assms(4,3)] .

section \<open>Handing messages over\<close>

lemma send_reaches:
  assumes i: "mq_inv k" and q: "get_mq fid k = Some q" and ne: "queues k (Q_cons (nat fid)) \<noteq> []"
    and ok: "sleepers_ok k" "queues k Q_dead = []"
  shows "\<exists>k'. psend fid msg k = Inr (Some SUCCES, k') \<and>
     preceive_resume (last (queues k (Q_cons (nat fid)))) True k' = Inr (SUCCES, Some msg)"
proof -
  let ?C = "Q_cons (nat fid)"
  have c: "cpu_ok k" using i by (rule mq_inv_cpu)
  have e: "is_empty q" using get_mq_slot(4) [OF _ q] i ne by (auto simp: mq_inv_def mq_slot_def is_empty_def)
  obtain p pr k1 k2 k3 where w: "p = last (queues k ?C)" "p \<noteq> 0" "kq_out ?C k = Inr (p, k1)"
    "pmod p (\<lambda>pr. pr\<lparr>p_state := ACTIVATABLE\<rparr>) k1 = Inr k2" "kq_add p Q_act k2 = Inr k3"
    "heap k3 p = Some ((pr\<lparr>p_link := None\<rparr>)\<lparr>p_state := ACTIVATABLE, p_link := Some Q_act\<rparr>)"
    "sleepers_ok k \<longrightarrow> sleepers_ok k3" "queues k3 Q_dead = queues k Q_dead"
    by (rule wake_total [OF c ne, of "\<lambda>pr. pr\<lparr>p_state := ACTIVATABLE\<rparr>"]) (auto simp: stable_def)
  note m = wake_queues [OF c w(3) ne _ w(4,5)]
  have m: "cpu_ok k3" "p \<noteq> get_current_process k3" "queues k3 Q_act \<noteq> []" using m(1-3) by (simp_all add: stable_def)
  define pm where "pm = (pr\<lparr>p_link := None\<rparr>)\<lparr>p_state := ACTIVATABLE, p_link := Some Q_act, p_message := (p_message pr)\<lparr>m_value := msg, m_status := RECEIVED\<rparr>\<rparr>"
  define k4 where "k4 = k3\<lparr>heap := (heap k3)(p \<mapsto> pm)\<rparr>"
  have 4: "pmod p (\<lambda>pr. pr\<lparr>p_message := (p_message pr)\<lparr>m_value := msg, m_status := RECEIVED\<rparr>\<rparr>) k3 = Inr k4"
    using w(2,6) by (simp add: pmod_def dref_def k4_def pm_def)
  have c4: "cpu_ok k4" using pmod_cpu_ok [OF m(1) 4 m(2)] by (simp add: stable_def)
  have "sleepers_ok k4" using w(7) ok w(6) by (auto simp: sleepers_ok_def k4_def pm_def split: if_split_asm)
  then obtain k' where k': "scheduler k4 = Inr k'"
    using mq_scheduler_returns [OF c4] m(3) w(8) ok(2) by (auto simp: k4_def)
  have s: "psend fid msg k = Inr (Some SUCCES, k')" using q e ne w(3-5) 4 k' by (simp add: psend_def)
  have h4: "heap k4 p = Some pm" "p_link pm \<noteq> Some Q_dead" by (simp_all add: k4_def pm_def)
  obtain pr' where "heap k' p = Some pr'" "p_message pr' = p_message pm"
    using scheduler_msgs [OF k' cpu_ok_kwf [OF c4] h4] by blast
  then have "preceive_resume p True k' = Inr (SUCCES, Some msg)" using w(2) by (simp add: preceive_resume_def dref_def pm_def)
  then show ?thesis using s w(1) by blast
qed

lemma receive_full:
  assumes i: "mq_inv k" and q: "get_mq fid k = Some q" and ne: "queues k (Q_prod (nat fid)) \<noteq> []" and pos: "0 < mq_size q"
    and ok: "sleepers_ok k" "queues k Q_dead = []"
    and pr: "heap k (last (queues k (Q_prod (nat fid)))) = Some pr"
  shows "\<exists>k' q'. preceive fid True k = Inr (Some SUCCES, Some (hd (contents q)), k') \<and>
     get_mq fid k' = Some q' \<and> contents q' = tl (contents q) @ [m_value (p_message pr)] \<and>
     psend_resume (last (queues k (Q_prod (nat fid)))) k' = Inr SUCCES"
proof -
  let ?P = "Q_prod (nat fid)"
  have c: "cpu_ok k" and mb: "mailbox_ok k" using i by (simp_all add: mq_inv_def)
  note g = get_mq_slot [OF mb q]
  have s: "mq_wf q" "mq_number q = mq_size q" using g(4) ne by (auto simp: mq_slot_def)
  obtain q1 where q1: "pop_oldest_msg q = Inr (hd (contents q), q1)" "mq_wf q1" "contents q1 = tl (contents q)" "mq_size q1 = mq_size q"
    using pop_oldest_msg_spec [OF s(1)] s(2) pos by auto
  have "mq_number q1 = mq_number q - 1" using arg_cong [OF q1(3), of length] by simp
  then have "mq_number q1 < mq_size q1" using q1(4) s(2) pos by simp
  then obtain q2 where q2: "add_message (m_value (p_message pr)) q1 = Inr q2" "mq_wf q2" "contents q2 = contents q1 @ [m_value (p_message pr)]"
    using add_message_spec [OF q1(2)] by blast
  let ?f = "\<lambda>pr. pr\<lparr>p_message := (p_message pr)\<lparr>m_status := SENT\<rparr>, p_state := ACTIVATABLE\<rparr>"
  have P: "?P \<notin> {Q_act, Q_asleep, Q_dead}" "?P \<noteq> Q_act" by simp_all
  obtain p k1 k2 k3 where w: "p = last (queues k ?P)" "p \<noteq> 0" "kq_out ?P k = Inr (p, k1)" "heap k1 p = Some (pr\<lparr>p_link := None\<rparr>)"
    "pmod p ?f k1 = Inr k2" "kq_add p Q_act k2 = Inr k3" "heap k3 p = Some ((?f (pr\<lparr>p_link := None\<rparr>))\<lparr>p_link := Some Q_act\<rparr>)"
    "sleepers_ok k \<longrightarrow> sleepers_ok k3" "queues k3 Q_dead = queues k Q_dead"
    using pr by (rule_tac wake_total [OF c ne P(1), of ?f]) (auto simp: stable_def)
  have m: "cpu_ok k3" "queues k3 Q_act \<noteq> []" "all_queues k3 = all_queues k"
    using wake_queues(1,3,6) [OF c w(3) ne P(2) w(5,6)] by (simp_all add: stable_def)
  let ?g = "set_mq fid (Some q2)"
  have a: "pmod p ?f (?g k1) = Inr (?g k2)" "kq_add p Q_act (?g k2) = Inr (?g k3)"
    using w(5,6) by (simp_all add: pmod_set_mq kq_add_set_mq)
  have "sleepers_ok (?g k3)" using w(8) ok(1) by (simp add: sleepers_ok_def)
  then obtain k' where k': "scheduler (?g k3) = Inr k'"
    using mq_scheduler_returns [of "?g k3"] m w(9) ok(2) by auto
  have r: "preceive fid True k = Inr (Some SUCCES, Some (hd (contents q)), k')"
    using q s(2) pos ne q1(1) w(2,3,4) q2(1) a k'
    by (simp add: preceive_def is_empty_def is_full_def dref_def)
  have "all_queues k' = (all_queues k)[nat fid := Some q2]" using scheduler_quiet [OF k'] m(3) by (simp add: quiet_def)
  then have "get_mq fid k' = Some q2" using q g(1,2) by (auto simp: get_mq_def split: if_split_asm)
  moreover have "kwf (?g k3)" using m(1) cpu_ok_kwf [of "?g k3"] by simp
  then obtain pr' where "heap k' p = Some pr'" "m_status (p_message pr') = SENT"
    using scheduler_msgs [OF k', of p "(?f (pr\<lparr>p_link := None\<rparr>))\<lparr>p_link := Some Q_act\<rparr>"] w(7) by auto
  then have "psend_resume p k' = Inr SUCCES" using w(2) by (simp add: psend_resume_def dref_def)
  ultimately show ?thesis using r q2(3) q1(3) w(1) by auto
qed

section \<open>Small kernels with a message queue\<close>

definition mail_kernel :: "qid \<Rightarrow> msg_queue \<Rightarrow> kernel" where
  "mail_kernel q mq = small_kernel\<lparr>
     heap := (heap small_kernel)(4 \<mapsto> (plain_process 4 7 BLOCKEDQUEUE (Some q))\<lparr>p_message := \<lparr>m_value = 9, m_status = RECEIVED, m_blocked_head = Some q\<rparr>\<rparr>),
     queues := (queues small_kernel)(q := [4]), all_queues := (replicate 100 None)[0 := Some mq]\<rparr>"

lemma mail_kernel_cpu_ok:
  assumes "q = Q_cons 0 \<or> q = Q_prod 0"
  shows "cpu_ok (mail_kernel q mq)"
proof -
  have q: "q \<noteq> Q_act" "q \<noteq> Q_asleep" "q \<noteq> Q_dead" using assms by auto
  have "queues_wf (mail_kernel q mq)" using q by (auto simp: queues_wf_def small_kernel_def mail_kernel_def qprio_def)
  moreover have "links_wf (mail_kernel q mq)" using q by (auto simp: links_wf_def small_kernel_def mail_kernel_def)
  moreover have "pids_wf (mail_kernel q mq)" by (auto simp: pids_wf_def small_kernel_def mail_kernel_def)
  ultimately have "kwf (mail_kernel q mq)" by (simp add: kwf_def) (simp add: small_kernel_def mail_kernel_def)
  moreover have "get_current_process (mail_kernel q mq) = 2"
    by (simp add: get_current_process_def get_process_struct_of_pid_def getpid_def small_kernel_def mail_kernel_def)
  ultimately show ?thesis by (simp add: cpu_ok_def one_actif_def) (simp add: small_kernel_def mail_kernel_def)
qed

lemma mail_kernel_inv:
  assumes "q = Q_cons 0 \<and> mq_number mq = 0 \<or> q = Q_prod 0 \<and> mq_number mq = mq_size mq" "mq_wf mq"
  shows "mq_inv (mail_kernel q mq)"
proof -
  have "slots_ok (all_queues (mail_kernel q mq)) (queues (mail_kernel q mq))"
    unfolding slots_ok_def
  proof (intro conjI allI impI)
    fix i
    assume "i < NBQUEUES"
    then show "mq_slot (all_queues (mail_kernel q mq) ! i) (queues (mail_kernel q mq) (Q_cons i)) (queues (mail_kernel q mq) (Q_prod i))"
      using assms by (cases "i = 0") (auto simp: mail_kernel_def small_kernel_def mq_slot_def NBQUEUES_def)
  qed (simp add: mail_kernel_def NBQUEUES_def)
  then show ?thesis using mail_kernel_cpu_ok [of q mq] assms(1) by (auto simp: mq_inv_def mailbox_ok_def)
qed

definition ring2 :: "int list \<Rightarrow> nat \<Rightarrow> msg_queue" where
  "ring2 xs n = \<lparr>mq_arr = xs, mq_size = 2, mq_number = n, mq_iffc = 0\<rparr>"

lemma ring2_facts: "length xs = 2 \<Longrightarrow> n \<le> 2 \<Longrightarrow> mq_wf (ring2 xs n)" "contents (ring2 [a, b] 2) = [a, b]"
  by (simp_all add: ring2_def mq_wf_def contents_def upt_conv_Cons)

lemma mail_kernel_side:
  assumes "q = Q_cons 0 \<or> q = Q_prod 0"
  shows "sleepers_ok (mail_kernel q mq)" "queues (mail_kernel q mq) Q_dead = []" "queues (mail_kernel q mq) q = [4]"
    "get_mq 0 (mail_kernel q mq) = Some mq"
  using assms by (auto simp: mail_kernel_def small_kernel_def sleepers_ok_def get_mq_def NBQUEUES_def)

section \<open>Properties\<close>

text \<open>
  The ring buffer of a message queue is a bounded first-in first-out buffer: for any sequence
  of \<^verbatim>\<open>add_message\<close> and \<^verbatim>\<open>pop_oldest_msg\<close> that never overfills or empties it too far, no access is
  out of bounds, and the messages taken out followed by those left are the messages that were
  there followed by the ones put in.
\<close>

theorem ring_is_fifo:
  assumes "mq_wf q" "fits (\<lambda>m. [m]) (\<lambda>_. 1) (mq_size q) (mq_number q) ops"
  shows "\<exists>out q'. fifo_run add_message (\<lambda>_. pop_oldest_msg) ops q = Inr (out, q') \<and> mq_wf q' \<and>
     out @ contents q' = contents q @ put_items ops"
proof -
  have c: "concat (map (\<lambda>m. [m]) xs) = xs" for xs :: "int list" by (induction xs) simp_all
  show ?thesis using ring.run_is_fifo [OF assms(1), of ops] assms(2) by (auto simp: c)
qed

theorem ring_is_fifo_witness:
  "\<exists>out q'. fifo_run add_message (\<lambda>_. pop_oldest_msg) [Get (), Put 7, Get ()] (ring2 [5, 6] 2) = Inr (out, q') \<and>
     out @ contents q' = [5, 6, 7]"
proof -
  have w: "mq_wf (ring2 [5, 6] 2)" by (simp add: ring2_facts)
  have f: "fits (\<lambda>m. [m]) (\<lambda>_. 1) (mq_size (ring2 [5, 6] 2)) (mq_number (ring2 [5, 6] 2)) [Get (), Put 7, Get ()]"
    by (simp add: ring2_def)
  have "contents (ring2 [5, 6] 2) @ put_items [Get (), Put (7::int), Get ()] = [5, 6, 7]" by (simp add: ring2_facts)
  then show ?thesis using ring_is_fifo [OF w f] by (simp only:) blast
qed

text \<open>
  A system call on message queues by the running process. A creation is one that succeeds, or one
  that is refused before it enters anything in the table of queues: a refusal after that leaves a
  queue of whatever the memory held behind (\<open>refused_creation_registers\<close>).
\<close>

datatype mq_call =
  Mc_create "msg_queue" "nat \<Rightarrow> int" int | Mc_delete int | Mc_send int int | Mc_receive int bool | Mc_reset int

inductive mq_step :: "kernel \<Rightarrow> mq_call \<Rightarrow> kernel \<Rightarrow> bool" where
  create: "pcreate junk cells c k = (r, k') \<Longrightarrow> 0 \<le> r \<Longrightarrow> mq_step k (Mc_create junk cells c) k'"
| refused: "pcreate junk cells c k = (-1, k') \<Longrightarrow> all_queues k' = all_queues k \<Longrightarrow> mq_step k (Mc_create junk cells c) k'"
| pdelete: "pdelete f k = Inr (r, k') \<Longrightarrow> mq_step k (Mc_delete f) k'"
| psend: "psend f m k = Inr (r, k') \<Longrightarrow> mq_step k (Mc_send f m) k'"
| preceive: "preceive f w k = Inr (r, v, k') \<Longrightarrow> mq_step k (Mc_receive f w) k'"
| preset: "preset f k = Inr (r, k') \<Longrightarrow> mq_step k (Mc_reset f) k'"

inductive mq_run :: "kernel \<Rightarrow> kernel \<Rightarrow> bool" where
  start: "mq_run k k"
| call: "mq_run k k' \<Longrightarrow> queues k' Q_act \<noteq> [] \<Longrightarrow> mq_step k' c k'' \<Longrightarrow> mq_run k k''"

lemma pcreate_refused:
  assumes "pcreate junk cells c k = (-1, k')" "all_queues k' = all_queues k" "mq_inv k"
  shows "mq_inv k'"
proof -
  have "\<exists>m qs. k' = k\<lparr>kmm := m, all_queues := qs\<rparr>"
    using assms(1) by (auto simp: pcreate_def Let_def kalloc_def set_mq_def split: prod.split_asm if_split_asm
      intro!: kernel.equality exI [of _ "kmm k'"] exI [of _ "all_queues k'"])
  then obtain m qs where "k' = k\<lparr>kmm := m, all_queues := qs\<rparr>" by blast
  then have "k' = k\<lparr>kmm := m\<rparr>" using assms(2) by simp
  then show ?thesis using assms(3) by (simp add: mq_inv_def mailbox_ok_def)
qed

lemma mq_step_keeps: "mq_step k c k' \<Longrightarrow> mq_inv k \<Longrightarrow> queues k Q_act \<noteq> [] \<Longrightarrow> mq_inv k'"
proof (induction rule: mq_step.induct)
  case (create junk cells c k r k')
  then show ?case using pcreate_keeps by blast
next
  case (refused junk cells c k k')
  then show ?case using pcreate_refused by blast
qed (blast intro: pdelete_keeps psend_keeps preceive_keeps preset_keeps)+

lemma mq_run_keeps: "mq_run k k' \<Longrightarrow> mq_inv k \<Longrightarrow> mq_inv k'"
  by (induction rule: mq_run.induct) (auto intro: mq_step_keeps)

text \<open>
  C7. Invariant of the message queues. From a consistent kernel, take any sequence of system calls on message queues in which
  some other process is ready at each call and every \<^verbatim>\<open>pcreate\<close> succeeds or is refused before it enters
  a queue in the table (one refused later leaves a bad queue there). Then every queue
  holds at most its size of messages, consumers are blocked on it only when it is empty, producers only
  when it is full, and never both; every process in one of its two lists is threaded there and nowhere
  else, and is not running.
\<close>

theorem mq_run_invariant:
  assumes "mq_inv k" "mq_run k k'" "get_mq f k' = Some q"
  shows "mq_number q \<le> mq_size q \<and> length (contents q) = mq_number q \<and>
     (queues k' (Q_cons (nat f)) \<noteq> [] \<longrightarrow> contents q = []) \<and>
     (queues k' (Q_prod (nat f)) \<noteq> [] \<longrightarrow> mq_number q = mq_size q) \<and>
     (queues k' (Q_cons (nat f)) = [] \<or> queues k' (Q_prod (nat f)) = []) \<and>
     (\<forall>x \<in> {Q_cons (nat f), Q_prod (nat f)}. distinct (queues k' x) \<and>
       (\<forall>p \<in> set (queues k' x). (\<exists>pr. heap k' p = Some pr \<and> p_link pr = Some x \<and> p_state pr \<noteq> ACTIF) \<and>
         (\<forall>y. p \<in> set (queues k' y) \<longrightarrow> y = x)))"
proof -
  have i: "mq_inv k'" using mq_run_keeps [OF assms(2,1)] .
  then have w: "kwf k'" and c: "cpu_ok k'" by (simp_all add: mq_inv_def cpu_ok_def)
  have "p_state pr \<noteq> ACTIF" if h: "heap k' p = Some pr" "p_link pr = Some x" for p pr x
  proof
    assume "p_state pr = ACTIF"
    then have "p = get_current_process k'" using c h(1) by (simp add: cpu_ok_def one_actif_def)
    then show False using c h by (simp add: cpu_ok_def)
  qed
  then have "(\<exists>pr. heap k' p = Some pr \<and> p_link pr = Some x \<and> p_state pr \<noteq> ACTIF) \<and> (\<forall>y. p \<in> set (queues k' y) \<longrightarrow> y = x)"
    if "p \<in> set (queues k' x)" for p x
    using kwf_member [OF w] that by (metis option.inject)
  moreover have "distinct (queues k' x)" for x using w by (simp add: kwf_def queues_wf_def)
  moreover have "contents q = [] \<longleftrightarrow> mq_number q = 0" using length_contents [of q] by (metis length_0_conv)
  ultimately show ?thesis using get_mq_slot(4) [OF _ assms(3)] i by (auto simp: mq_inv_def mq_slot_def mq_wf_def)
qed

theorem mq_run_invariant_witness:
  "\<exists>k' f q. mq_run (mail_kernel (Q_cons 0) (ring2 [0, 0] 0)) k' \<and> get_mq f k' = Some q \<and>
     (queues k' (Q_cons (nat f)) = [] \<or> queues k' (Q_prod (nat f)) = [])"
proof -
  let ?k = "mail_kernel (Q_cons 0) (ring2 [0, 0] 0)"
  have i: "mq_inv ?k" by (rule mail_kernel_inv) (simp_all add: ring2_def mq_wf_def)
  obtain k' where s: "psend 0 5 ?k = Inr (Some SUCCES, k')"
    using send_reaches [OF i, of 0 "ring2 [0, 0] 0" 5] mail_kernel_side [of "Q_cons 0" "ring2 [0, 0] 0"] by auto
  have r: "mq_run ?k k'"
    by (rule mq_run.call [OF mq_run.start _ mq_step.psend [OF s]]) (simp add: mail_kernel_def small_kernel_def)
  have "mailbox_ok k'" using mq_run_keeps [OF r i] by (simp add: mq_inv_def)
  moreover have "get_mq 0 k' = Some (ring2 [0, 0] 0)"
  proof -
    have "all_queues k' = all_queues ?k"
      using s mail_kernel_side(4) [of "Q_cons 0" "ring2 [0, 0] 0"] mail_kernel_side(3) [of "Q_cons 0" "ring2 [0, 0] 0"]
      by (auto simp: psend_def ring2_def is_empty_def quiet_def elim!: rbindE
          dest!: kq_out_quiet kq_add_quiet pmod_quiet scheduler_quiet)
    then show ?thesis by (simp add: get_mq_def mail_kernel_def NBQUEUES_def)
  qed
  ultimately show ?thesis using mq_run_invariant [OF i r] r by blast
qed

text \<open>
  C16. A message sent to a queue on which a consumer is blocked is delivered: the call returns,
  and the blocked consumer of highest priority receives that message when it runs again.
\<close>

theorem psend_reaches_consumer:
  assumes "mq_inv k" "get_mq fid k = Some q" "queues k (Q_cons (nat fid)) \<noteq> []" "sleepers_ok k" "queues k Q_dead = []"
  shows "\<exists>k'. psend fid msg k = Inr (Some SUCCES, k') \<and>
     preceive_resume (last (queues k (Q_cons (nat fid)))) True k' = Inr (SUCCES, Some msg)"
  using assms by (rule send_reaches)

theorem psend_reaches_consumer_witness:
  "\<exists>k'. psend 0 5 (mail_kernel (Q_cons 0) (ring2 [0, 0] 0)) = Inr (Some SUCCES, k') \<and> preceive_resume 4 True k' = Inr (SUCCES, Some 5)"
proof -
  have i: "mq_inv (mail_kernel (Q_cons 0) (ring2 [0, 0] 0))" by (rule mail_kernel_inv) (simp_all add: ring2_def mq_wf_def)
  show ?thesis using psend_reaches_consumer [OF i, of 0 _ 5] mail_kernel_side [of "Q_cons 0" "ring2 [0, 0] 0"] by simp
qed

text \<open>
  A receive on a full queue with a blocked producer returns the oldest message, puts the
  message of the blocked producer of highest priority at the end, and that producer's call
  succeeds when it runs again.
\<close>

theorem preceive_full_hands_over:
  assumes "mq_inv k" "get_mq fid k = Some q" "queues k (Q_prod (nat fid)) \<noteq> []" "0 < mq_size q"
    "sleepers_ok k" "queues k Q_dead = []" "heap k (last (queues k (Q_prod (nat fid)))) = Some pr"
  shows "\<exists>k' q'. preceive fid True k = Inr (Some SUCCES, Some (hd (contents q)), k') \<and>
     get_mq fid k' = Some q' \<and> contents q' = tl (contents q) @ [m_value (p_message pr)] \<and>
     psend_resume (last (queues k (Q_prod (nat fid)))) k' = Inr SUCCES"
  using assms by (rule receive_full)

theorem preceive_full_hands_over_witness:
  "\<exists>k' q'. preceive 0 True (mail_kernel (Q_prod 0) (ring2 [5, 6] 2)) = Inr (Some SUCCES, Some 5, k') \<and>
     get_mq 0 k' = Some q' \<and> contents q' = [6, 9] \<and> psend_resume 4 k' = Inr SUCCES"
proof -
  have i: "mq_inv (mail_kernel (Q_prod 0) (ring2 [5, 6] 2))" by (rule mail_kernel_inv) (simp_all add: ring2_def mq_wf_def)
  have h: "heap (mail_kernel (Q_prod 0) (ring2 [5, 6] 2)) 4 = Some ((plain_process 4 7 BLOCKEDQUEUE (Some (Q_prod 0)))
      \<lparr>p_message := \<lparr>m_value = 9, m_status = RECEIVED, m_blocked_head = Some (Q_prod 0)\<rparr>\<rparr>)" by (simp add: mail_kernel_def)
  show ?thesis using preceive_full_hands_over [OF i, of 0 "ring2 [5, 6] 2"] mail_kernel_side [of "Q_prod 0" "ring2 [5, 6] 2"] h
    by (simp add: ring2_facts) (simp add: ring2_def)
qed

text \<open>
  A creation refused for its size leaves a queue behind: \<^verbatim>\<open>pcreate\<close> of 536870912 messages
  returns -1 after it has put a structure with whatever its memory held in the table, where it is
  a valid queue from then on.
\<close>

theorem refused_creation_registers:
  assumes "get_first_free_index k = int f" "f < NBQUEUES" "length (all_queues k) = NBQUEUES" "kalloc k = (True, k1)"
    "all_queues k1 = all_queues k"
  shows "\<exists>k'. pcreate junk cells 536870912 k = (-1, k') \<and> get_mq (int f) k' = Some junk"
  using assms by (simp add: pcreate_def Let_def get_mq_def)

theorem refused_creation_registers_witness:
  "\<exists>k'. pcreate (ring2 [0] 7) (\<lambda>_. 0) 536870912 (mail_kernel (Q_cons 0) (ring2 [0, 0] 0)) = (-1, k') \<and>
     get_mq 1 k' = Some (ring2 [0] 7)"
proof -
  have f: "get_first_free_index (mail_kernel (Q_cons 0) (ring2 [0, 0] 0)) = int 1"
    by (simp add: get_first_free_index_def mail_kernel_def numeral_eq_Suc)
  show ?thesis using refused_creation_registers [OF f, of _ "ring2 [0] 7" "\<lambda>_. 0"]
    by (simp add: NBQUEUES_def mail_kernel_def small_kernel_def kalloc_def kmalloc_def)
qed

end
