(* ===== verification/Bytes.thy ===== *)
theory Bytes
  imports Prelude
begin

text \<open>
  Memory as bytes: little-endian words, the overwriting of a part of a buffer and the disk as an
  array of sectors. What the structures of the file system share.
\<close>

type_synonym byte = "8 word"

section \<open>Little-endian words\<close>

definition le_nat :: "byte list \<Rightarrow> nat" where
  "le_nat bs = foldr (\<lambda>b acc. unat b + 256 * acc) bs 0"

fun le_bytes :: "nat \<Rightarrow> nat \<Rightarrow> byte list" where
  "le_bytes 0 v = []"
| "le_bytes (Suc n) v = of_nat (v mod 256) # le_bytes n (v div 256)"

definition get_le :: "nat \<Rightarrow> nat \<Rightarrow> byte list \<Rightarrow> nat" where
  "get_le n off bs = le_nat (take n (drop off bs))"

definition get16 :: "nat \<Rightarrow> byte list \<Rightarrow> u16" where
  "get16 off bs = of_nat (get_le 2 off bs)"

definition get32 :: "nat \<Rightarrow> byte list \<Rightarrow> u32" where
  "get32 off bs = of_nat (get_le 4 off bs)"

definition put16 :: "u16 \<Rightarrow> byte list" where
  "put16 w = le_bytes 2 (unat w)"

definition put32 :: "u32 \<Rightarrow> byte list" where
  "put32 w = le_bytes 4 (unat w)"

lemma length_le_bytes [simp]: "length (le_bytes n v) = n"
  by (induction n arbitrary: v) simp_all

lemma length_put [simp]: "length (put16 w) = 2" "length (put32 v) = 4"
  by (simp_all add: put16_def put32_def)

lemma le_nat_bytes: "v < 256 ^ n \<Longrightarrow> le_nat (le_bytes n v) = v"
proof (induction n arbitrary: v)
  case (Suc n)
  have "v div 256 < 256 ^ n" using Suc.prems by (simp add: less_mult_imp_div_less mult.commute)
  then have "le_nat (le_bytes n (v div 256)) = v div 256" by (rule Suc.IH)
  moreover have "unat (of_nat (v mod 256) :: byte) = v mod 256" by (simp add: unat_of_nat)
  ultimately show ?case by (simp add: le_nat_def)
qed (simp add: le_nat_def)

lemma le_nat_put [simp]: "le_nat (put16 w) = unat w" "le_nat (put32 v) = unat v"
  unfolding put16_def put32_def
  using unsigned_less [of w, where 'a = nat] unsigned_less [of v, where 'a = nat] by (simp_all add: le_nat_bytes)

lemma get_put:
  "length pre = off \<Longrightarrow> get16 off (pre @ put16 w @ post) = w"
  "length pre = off \<Longrightarrow> get32 off (pre @ put32 v @ post) = v"
  by (auto simp: get16_def get32_def get_le_def)

section \<open>Buffers\<close>

text \<open>\<^verbatim>\<open>memcpy\<close> of \<open>bs\<close> to offset \<open>off\<close> of a buffer.\<close>

definition poke :: "nat \<Rightarrow> 'a list \<Rightarrow> 'a list \<Rightarrow> 'a list" where
  "poke off bs buf = take off buf @ bs @ drop (off + length bs) buf"

definition peek :: "nat \<Rightarrow> nat \<Rightarrow> 'a list \<Rightarrow> 'a list" where
  "peek off n buf = take n (drop off buf)"

lemma length_poke [simp]: "off + length bs \<le> length buf \<Longrightarrow> length (poke off bs buf) = length buf"
  by (simp add: poke_def)

lemma poke_Nil [simp]: "poke off [] buf = buf"
  by (simp add: poke_def)

lemma poke_all: "length bs = length buf \<Longrightarrow> poke 0 bs buf = bs"
  by (simp add: poke_def)

lemma nth_poke:
  assumes "off + length bs \<le> length buf" "i < length buf"
  shows "poke off bs buf ! i = (if off \<le> i \<and> i < off + length bs then bs ! (i - off) else buf ! i)"
  using assms by (auto simp: poke_def nth_append min_def)

lemma peek_poke_same: "off + length bs \<le> length buf \<Longrightarrow> peek off (length bs) (poke off bs buf) = bs"
  by (simp add: peek_def poke_def)

lemma peek_poke_other:
  assumes "off + length bs \<le> length buf" "i + n \<le> length buf" "i + n \<le> off \<or> off + length bs \<le> i"
  shows "peek i n (poke off bs buf) = peek i n buf"
proof (rule nth_equalityI)
  show "length (peek i n (poke off bs buf)) = length (peek i n buf)" using assms by (simp add: peek_def)
  fix j
  assume "j < length (peek i n (poke off bs buf))"
  then have "j < n" using assms by (simp add: peek_def)
  then show "peek i n (poke off bs buf) ! j = peek i n buf ! j"
    using assms nth_poke [OF assms(1), of "i + j"] by (auto simp: peek_def)
qed

lemma poke_peek: "off + n \<le> length buf \<Longrightarrow> poke off (peek off n buf) buf = buf"
  by (simp add: poke_def peek_def) (metis append_take_drop_id drop_drop add.commute)

section \<open>The disk\<close>

text \<open>
  The device as \<^verbatim>\<open>drivers/disk_device.h\<close> gives it: sectors of \<^verbatim>\<open>BLOCK_SIZE\<close> bytes. The result of the
  next calls of \<^verbatim>\<open>write_disk\<close> is a list; when it is used up they succeed.
\<close>

definition BLOCK_SIZE :: nat where "BLOCK_SIZE = 512"

record disk_t =
  sectors :: "u32 \<Rightarrow> byte list"
  write_results :: "bool list"
  disk_size :: u32

definition read_disk :: "u32 \<Rightarrow> disk_t \<Rightarrow> byte list" where
  "read_disk n d = sectors d n"

definition write_disk :: "u32 \<Rightarrow> byte list \<Rightarrow> disk_t \<Rightarrow> bool \<times> disk_t" where
  "write_disk n bs d =
     (case write_results d of
        [] \<Rightarrow> (True, d\<lparr>sectors := (sectors d)(n := bs)\<rparr>)
      | ok # oks \<Rightarrow> if ok then (True, d\<lparr>sectors := (sectors d)(n := bs), write_results := oks\<rparr>)
                    else (False, d\<lparr>write_results := oks\<rparr>))"

definition disk_wf :: "disk_t \<Rightarrow> bool" where
  "disk_wf d \<longleftrightarrow> (\<forall>n. length (sectors d n) = BLOCK_SIZE)"

lemma write_disk_wf: "disk_wf d \<Longrightarrow> length bs = BLOCK_SIZE \<Longrightarrow> write_disk n bs d = (ok, d') \<Longrightarrow> disk_wf d'"
  by (auto simp: disk_wf_def write_disk_def split: list.split_asm if_split_asm)

lemma write_disk_sectors:
  assumes "write_disk n bs d = (ok, d')"
  shows "sectors d' = (if ok then (sectors d)(n := bs) else sectors d)" "disk_size d' = disk_size d"
  using assms by (auto simp: write_disk_def split: list.split_asm if_split_asm)

end
