(* ===== verification/Mbr.thy ===== *)
theory Mbr
  imports Bytes
begin

text \<open>
  The partition table, \<^verbatim>\<open>src/kernel/fs/mbr.c\<close>: the free segments of the disk, the creation and the
  deletion of partitions, and the boot record as the bytes of a sector. The array of segments is
  a list of pairs; its length is the size the code allocates.
\<close>

section \<open>Data\<close>

definition MBR_SIGNATURE :: u16 where "MBR_SIGNATURE = 0x55AA"
definition MBR_BLOCK :: u32 where "MBR_BLOCK = 1"
definition ACTIVE_PARTITION :: byte where "ACTIVE_PARTITION = 0x80"
definition NON_ACTIVE_PARTITION :: byte where "NON_ACTIVE_PARTITION = 0"
definition NB_PARTITIONS :: nat where "NB_PARTITIONS = 4"
definition TEST_PARTITION :: byte where "TEST_PARTITION = 1"
definition EXT2_PARTITION :: byte where "EXT2_PARTITION = 0x83"
definition TEST_EXT2_PARTITION_SIZE :: u32 where "TEST_EXT2_PARTITION_SIZE = 25000"
definition MIN_EXT2_SIZE :: u32 where "MIN_EXT2_SIZE = 100"

record partition_entry =
  pt_status :: byte
  pt_startCHS :: "byte list"
  pt_type :: byte
  pt_endCHS :: "byte list"
  startLBA :: u32
  sizeLBA :: u32

record mbr_t =
  bootstrapCode :: "byte list"
  partitionTable :: "partition_entry list"
  mbr_signature :: u16

text \<open>The packed structure in memory.\<close>

definition entry_bytes :: "partition_entry \<Rightarrow> byte list" where
  "entry_bytes e = [pt_status e] @ pt_startCHS e @ [pt_type e] @ pt_endCHS e @ put32 (startLBA e) @ put32 (sizeLBA e)"

definition mbr_bytes :: "mbr_t \<Rightarrow> byte list" where
  "mbr_bytes m = bootstrapCode m @ concat (map entry_bytes (partitionTable m)) @ put16 (mbr_signature m)"

definition bytes_entry :: "byte list \<Rightarrow> partition_entry" where
  "bytes_entry bs = \<lparr>pt_status = bs ! 0, pt_startCHS = peek 1 3 bs, pt_type = bs ! 4, pt_endCHS = peek 5 3 bs,
     startLBA = get32 8 bs, sizeLBA = get32 12 bs\<rparr>"

definition bytes_mbr :: "byte list \<Rightarrow> mbr_t" where
  "bytes_mbr bs = \<lparr>bootstrapCode = peek 0 446 bs,
     partitionTable = map (\<lambda>i. bytes_entry (peek (446 + 16 * i) 16 bs)) [0 ..< NB_PARTITIONS],
     mbr_signature = get16 510 bs\<rparr>"

section \<open>Reading and saving the boot record\<close>

definition find_mbr :: "disk_t \<Rightarrow> int \<times> mbr_t option" where
  "find_mbr d =
     (let data = read_disk MBR_BLOCK d in
      if get16 510 data = MBR_SIGNATURE then (0, Some (bytes_mbr data)) else (-1, None))"

definition save_global_mbr :: "mbr_t option \<Rightarrow> disk_t \<Rightarrow> int \<times> disk_t" where
  "save_global_mbr mo d =
     (case mo of
        None \<Rightarrow> (-1, d)
      | Some m \<Rightarrow> (let (ok, d1) = write_disk MBR_BLOCK (mbr_bytes m) d in if ok then (0, d1) else (-1, d1)))"

text \<open>The loop over the blocks of partition 0; the argument of the function is not used.\<close>

fun clear_blocks :: "nat \<Rightarrow> u32 \<Rightarrow> disk_t \<Rightarrow> int \<times> disk_t" where
  "clear_blocks 0 blk d = (0, d)"
| "clear_blocks (Suc n) blk d =
     (let (ok, d1) = write_disk blk (replicate BLOCK_SIZE 0) d in
      if ok then clear_blocks n (blk + 1) d1 else (-1, d1))"

definition clear_partition_space :: "mbr_t option \<Rightarrow> byte \<Rightarrow> disk_t \<Rightarrow> int \<times> disk_t" where
  "clear_partition_space mo partition_number d =
     (case mo of
        None \<Rightarrow> (-1, d)
      | Some m \<Rightarrow>
          (let p = partitionTable m ! 0 in
           clear_blocks (if startLBA p < sizeLBA p + startLBA p then unat (sizeLBA p) else 0) (startLBA p) d))"

section \<open>Free segments\<close>

type_synonym segment = "u32 \<times> u32"

definition find_occupied_space :: "mbr_t option \<Rightarrow> segment list option" where
  "find_occupied_space mo =
     map_option (\<lambda>m. map (\<lambda>p. if pt_status p \<noteq> 0 then (startLBA p, startLBA p + sizeLBA p) else (0, 0)) (partitionTable m)) mo"

text \<open>The two nested loops that sort the segments.\<close>

definition swap_if :: "nat \<Rightarrow> segment list \<Rightarrow> segment list" where
  "swap_if j xs = (if fst (xs ! j) > fst (xs ! Suc j) then xs[j := xs ! Suc j, Suc j := xs ! j] else xs)"

definition sort_pass :: "nat \<Rightarrow> segment list \<Rightarrow> segment list" where
  "sort_pass m xs = foldl (\<lambda>xs j. swap_if j xs) xs [0 ..< m]"

definition sort_segments :: "segment list \<Rightarrow> segment list" where
  "sort_segments xs = foldl (\<lambda>xs i. sort_pass (length xs - i - 1) xs) xs [0 ..< length xs - 1]"

text \<open>A segment stored in the array of free segments, which has room for \<open>cap\<close> of them.\<close>

definition push_segment :: "nat \<Rightarrow> segment \<Rightarrow> segment list \<Rightarrow> segment list res" where
  "push_segment cap s free = (if length free < cap then Inr (free @ [s]) else Inl Out_of_bounds)"

fun free_loop :: "nat \<Rightarrow> u32 \<Rightarrow> segment list \<Rightarrow> segment list \<Rightarrow> (u32 \<times> segment list) res" where
  "free_loop cap start [] free = Inr (start, free)"
| "free_loop cap start (s # occ) free =
     rbind (if start < fst s then push_segment cap (start, fst s - 1) free else Inr free)
       (free_loop cap (snd s + 1) occ)"

definition find_free_space :: "segment list \<Rightarrow> u32 \<Rightarrow> segment list res" where
  "find_free_space occ diskSize =
     rbind (free_loop (length occ) 0 (sort_segments occ) []) (\<lambda>(start, free).
       if start < diskSize then push_segment (length occ) (start, diskSize - 1) free else Inr free)"

text \<open>The early return of -1 is the boolean true.\<close>

definition is_segment_in_free_space :: "u32 \<Rightarrow> u32 \<Rightarrow> segment list \<Rightarrow> bool" where
  "is_segment_in_free_space start sz free =
     (if length free = 0 then True else list_ex (\<lambda>(f, g). start \<ge> f \<and> start + sz - 1 \<le> g) free)"

definition free_space :: "mbr_t option \<Rightarrow> u32 \<Rightarrow> u32 \<Rightarrow> u32 \<Rightarrow> bool res" where
  "free_space mo diskSize start sz =
     (if start + sz > diskSize then Inr False
      else case find_occupied_space mo of
        None \<Rightarrow> Inr False
      | Some occ \<Rightarrow> rbind (find_free_space occ diskSize) (\<lambda>free. Inr (is_segment_in_free_space start sz free)))"

section \<open>Partitions\<close>

fun empty_partition :: "partition_entry list \<Rightarrow> nat \<Rightarrow> int" where
  "empty_partition [] i = -1"
| "empty_partition (p # ps) i = (if pt_status p = 0 then int i else empty_partition ps (Suc i))"

text \<open>
  \<^verbatim>\<open>create_partition\<close> up to the call that formats the new partition: the result, the table and the
  disk, where the boot record is saved.
\<close>

definition create_partition :: "u32 \<Rightarrow> u32 \<Rightarrow> byte \<Rightarrow> mbr_t option \<Rightarrow> disk_t \<Rightarrow> (int \<times> mbr_t option \<times> disk_t) res" where
  "create_partition start sz ty mo d =
     (if ty \<noteq> EXT2_PARTITION \<and> ty \<noteq> TEST_PARTITION then Inr (-1, mo, d)
      else case mo of
        None \<Rightarrow> Inr (-1, mo, d)
      | Some m \<Rightarrow>
          (let i = empty_partition (partitionTable m) 0 in
           if i = -1 then Inr (-1, mo, d)
           else rbind (free_space mo (disk_size d) start sz) (\<lambda>free.
             if \<not> free then Inr (-1, mo, d)
             else if ty = EXT2_PARTITION \<and> sz < MIN_EXT2_SIZE then Inr (-1, mo, d)
             else
               (let e = (partitionTable m ! nat i)\<lparr>pt_status := ACTIVE_PARTITION, pt_type := ty, startLBA := start, sizeLBA := sz\<rparr>;
                    m1 = m\<lparr>partitionTable := (partitionTable m)[nat i := e]\<rparr> in
                Inr (0, Some m1, snd (save_global_mbr (Some m1) d))))))"

definition get_partition_size :: "mbr_t option \<Rightarrow> byte \<Rightarrow> int" where
  "get_partition_size mo n =
     (if \<not> (0 \<le> n \<and> unat n < NB_PARTITIONS) then -1
      else case mo of None \<Rightarrow> 0 | Some m \<Rightarrow> sint (sizeLBA (partitionTable m ! unat n)))"

definition delete_partition :: "byte \<Rightarrow> mbr_t option \<Rightarrow> int \<times> mbr_t option" where
  "delete_partition n mo =
     (if \<not> (1 < n \<and> unat n \<le> NB_PARTITIONS) then (-1, mo)
      else case mo of
        None \<Rightarrow> (-1, mo)
      | Some m \<Rightarrow> (0, Some (m\<lparr>partitionTable := (partitionTable m)[unat n - 1 :=
            (partitionTable m ! (unat n - 1))\<lparr>pt_status := NON_ACTIVE_PARTITION\<rparr>]\<rparr>)))"

section \<open>Sorting\<close>

lemma swap_if_length [simp]: "length (swap_if j xs) = length xs"
  by (simp add: swap_if_def)

lemma swap_if_mset: "Suc j < length xs \<Longrightarrow> mset (swap_if j xs) = mset xs"
  by (simp add: swap_if_def mset_swap)

lemma swap_if_split:
  assumes "Suc j < length xs"
  obtains as a b bs where "xs = as @ a # b # bs" "length as = j" "xs ! j = a" "xs ! Suc j = b"
    "swap_if j xs = (if fst a > fst b then as @ b # a # bs else xs)"
proof -
  have "xs = take j xs @ xs ! j # xs ! Suc j # drop (Suc (Suc j)) xs"
    using assms by (simp add: Cons_nth_drop_Suc)
  moreover have "xs[j := xs ! Suc j, Suc j := xs ! j] = take j xs @ xs ! Suc j # xs ! j # drop (Suc (Suc j)) xs"
  proof (rule nth_equalityI)
    fix i
    assume "i < length (xs[j := xs ! Suc j, Suc j := xs ! j])"
    moreover have "\<not> i \<le> Suc j \<Longrightarrow> Suc (Suc (i - 2)) = i" by simp
    ultimately show "xs[j := xs ! Suc j, Suc j := xs ! j] ! i = (take j xs @ xs ! Suc j # xs ! j # drop (Suc (Suc j)) xs) ! i"
      using assms by (auto simp: nth_append nth_list_update nth_Cons' min_def)
  qed (use assms in simp)
  ultimately show thesis
    using assms by (intro that [of "take j xs" "xs ! j" "xs ! Suc j" "drop (Suc (Suc j)) xs"]) (simp_all add: swap_if_def)
qed

lemma swap_if_stable: "Suc j < length xs \<Longrightarrow> filter (\<lambda>x. k = fst x) (swap_if j xs) = filter (\<lambda>x. k = fst x) xs"
  by (erule swap_if_split) auto

text \<open>A pass over the first \<open>m\<close> pairs moves a largest of the first \<open>Suc m\<close> elements to place \<open>m\<close>.\<close>

lemma sort_pass_spec:
  assumes "m < length xs"
  shows "length (sort_pass m xs) = length xs \<and> mset (sort_pass m xs) = mset xs \<and>
    (\<forall>k. filter (\<lambda>x. k = fst x) (sort_pass m xs) = filter (\<lambda>x. k = fst x) xs) \<and>
    drop (Suc m) (sort_pass m xs) = drop (Suc m) xs \<and> (\<forall>i < m. fst (sort_pass m xs ! i) \<le> fst (sort_pass m xs ! m)) \<and>
    mset (take (Suc m) (sort_pass m xs)) = mset (take (Suc m) xs)"
  using assms
proof (induction m)
  case 0
  then show ?case by (simp add: sort_pass_def)
next
  case (Suc m)
  let ?y = "sort_pass m xs"
  have y: "length ?y = length xs" "mset ?y = mset xs" "drop (Suc m) ?y = drop (Suc m) xs"
    "\<forall>i < m. fst (?y ! i) \<le> fst (?y ! m)" "\<And>k. filter (\<lambda>x. k = fst x) ?y = filter (\<lambda>x. k = fst x) xs"
    using Suc by simp_all
  have z: "sort_pass (Suc m) xs = swap_if m ?y" by (simp add: sort_pass_def)
  have l: "Suc m < length ?y" using Suc.prems y(1) by simp
  obtain as a b bs where s: "?y = as @ a # b # bs" "length as = m" "?y ! m = a" "?y ! Suc m = b"
    "swap_if m ?y = (if fst a > fst b then as @ b # a # bs else ?y)"
    using swap_if_split [OF l] .
  have d: "drop (Suc (Suc m)) (swap_if m ?y) = drop (Suc (Suc m)) xs"
  proof -
    have "drop (Suc (Suc m)) (swap_if m ?y) = drop (Suc (Suc m)) ?y" using s by auto
    also have "\<dots> = drop (Suc (Suc m)) xs" using y(3) by (metis drop_Suc drop_tl)
    finally show ?thesis .
  qed
  moreover have "fst (swap_if m ?y ! i) \<le> fst (swap_if m ?y ! Suc m)" if "i < Suc m" for i
  proof -
    have "fst (as ! i) \<le> fst a" if "i < m" for i using y(4) that s by (simp add: nth_append)
    then show ?thesis using that s by (cases "i < m") (auto simp: nth_append less_Suc_eq not_less dest: order_trans)
  qed
  moreover have "mset (take (Suc (Suc m)) (swap_if m ?y)) = mset (take (Suc (Suc m)) xs)"
  proof -
    have "mset (take (Suc (Suc m)) (swap_if m ?y)) + mset (drop (Suc (Suc m)) xs) = mset (take (Suc (Suc m)) xs) + mset (drop (Suc (Suc m)) xs)"
      using d swap_if_mset [OF l] y(2) by (metis append_take_drop_id mset_append)
    then show ?thesis by simp
  qed
  ultimately show ?case unfolding z
    using y l swap_if_mset [OF l] swap_if_stable [OF l] by simp
qed

text \<open>After \<open>i\<close> passes the last \<open>i\<close> elements are in place.\<close>

definition tail_sorted :: "nat \<Rightarrow> segment list \<Rightarrow> bool" where
  "tail_sorted t xs \<longleftrightarrow> sorted (map fst (drop t xs)) \<and> (\<forall>x \<in> set (take t xs). \<forall>y \<in> set (drop t xs). fst x \<le> fst y)"

lemma sort_pass_tail:
  assumes m: "m < length xs" and t: "tail_sorted (Suc m) xs"
  shows "tail_sorted m (sort_pass m xs)"
proof -
  let ?z = "sort_pass m xs"
  note p = sort_pass_spec [OF m]
  have l: "m < length ?z" using p m by simp
  have d: "drop m ?z = ?z ! m # drop (Suc m) xs" using l p by (metis Cons_nth_drop_Suc)
  have tk: "set (take (Suc m) ?z) = set (take (Suc m) xs)" using p by (metis set_mset_mset)
  have "?z ! m \<in> set (take (Suc m) ?z)" using l by (simp add: take_Suc_conv_app_nth)
  then have zm: "\<forall>y \<in> set (drop (Suc m) xs). fst (?z ! m) \<le> fst y" using t tk by (auto simp: tail_sorted_def)
  have "fst x \<le> fst (?z ! m)" if "x \<in> set (take m ?z)" for x
    using that p l by (auto simp: in_set_conv_nth)
  moreover have "fst x \<le> fst y" if "x \<in> set (take m ?z)" "y \<in> set (drop (Suc m) xs)" for x y
  proof -
    have "x \<in> set (take (Suc m) ?z)" using that(1) set_take_subset_set_take [of m "Suc m" ?z] by auto
    then show ?thesis using t tk that(2) by (auto simp: tail_sorted_def)
  qed
  ultimately show ?thesis using t zm by (auto simp: tail_sorted_def d)
qed

lemma sort_segments_loop:
  assumes "k < length xs"
  defines "ys \<equiv> foldl (\<lambda>xs i. sort_pass (length xs - i - 1) xs) xs [0 ..< k]"
  shows "length ys = length xs \<and> mset ys = mset xs \<and> (\<forall>a. filter (\<lambda>x. a = fst x) ys = filter (\<lambda>x. a = fst x) xs) \<and>
    tail_sorted (length xs - k) ys"
  using assms(1) unfolding ys_def
proof (induction k)
  case 0
  then show ?case by (simp add: tail_sorted_def)
next
  case (Suc k)
  define zs where "zs = foldl (\<lambda>xs i. sort_pass (length xs - i - 1) xs) xs [0 ..< k]"
  have z: "length zs = length xs" "mset zs = mset xs" "\<And>a. filter (\<lambda>x. a = fst x) zs = filter (\<lambda>x. a = fst x) xs"
    "tail_sorted (length xs - k) zs" using Suc by (simp_all add: zs_def)
  let ?m = "length xs - k - 1"
  have m: "?m < length zs" "Suc ?m = length xs - k" using Suc.prems z(1) by simp_all
  have "tail_sorted ?m (sort_pass ?m zs)" using sort_pass_tail [OF m(1)] z(4) m(2) by simp
  moreover have "foldl (\<lambda>xs i. sort_pass (length xs - i - 1) xs) xs [0 ..< Suc k] = sort_pass (length zs - k - 1) zs"
    unfolding zs_def by simp
  ultimately show ?case unfolding z(1) using sort_pass_spec [OF m(1)] z by (simp only: diff_diff_add) simp
qed

lemma sort_segments_sort: "sort_segments xs = sort_key fst xs"
proof (cases "xs = []")
  case True
  then show ?thesis by (simp add: sort_segments_def)
next
  case False
  then have k: "length xs - 1 < length xs" by simp
  note s = sort_segments_loop [OF k, folded sort_segments_def]
  have "length xs - (length xs - 1) = 1" using False by (cases xs) simp_all
  then have "tail_sorted 1 (sort_segments xs)" using s by simp
  moreover obtain a ys where a: "sort_segments xs = a # ys" using s False by (cases "sort_segments xs") auto
  ultimately have "sorted (map fst (sort_segments xs))" by (simp add: tail_sorted_def)
  then show ?thesis using s by (intro properties_for_sort_key [symmetric]) auto
qed

end
