(* ===== verification/DiskCache.thy ===== *)
theory DiskCache
  imports Mbr
begin

text \<open>
  The block cache of the file system, \<^verbatim>\<open>src/kernel/fs/disk_buffer.c\<close>. An element has the address of
  its data; the list is from \<^verbatim>\<open>global_cache_buf\<close> on, its two links are its order. A block of the file
  system is a run of sectors of its partition.

  \<^verbatim>\<open>fetch_block\<close> does not initialise the fields \<^verbatim>\<open>dirty\<close> and \<^verbatim>\<open>usage\<close> of the element it
  allocates: what fresh memory holds there is part of the outcome of \<^verbatim>\<open>malloc\<close>, the list \<open>cmem\<close>;
  when it is used up, memory is there and zero.
\<close>

section \<open>State\<close>

definition EXT2_BLOCK_SIZE :: nat where "EXT2_BLOCK_SIZE = 2048"
definition MAX_CACHE_SIZE :: u32 where "MAX_CACHE_SIZE = 60"

datatype cache_op = LOCK | UNLOCK
datatype write_type = WRITE_BACK | WRITE_THROUGH

record c_elt =
  c_addr :: ptr
  c_block :: u32
  c_dirty :: bool
  c_usage :: u32
  c_data :: "byte list"

text \<open>The fields of \<^verbatim>\<open>root_file_system\<close> and of its partition that the cache reads.\<close>

record geometry =
  g_block_size :: u32
  g_partition :: byte

record cache =
  disk :: disk_t
  c_mbr :: "mbr_t option"
  c_fs :: "geometry option"
  elts :: "c_elt list"
  nb_elements_cache :: u32
  locked_files :: u32
  cmem :: "(bool \<times> bool \<times> u32) list"
  c_fresh :: ptr

section \<open>Looking up\<close>

definition look_up_c_elt :: "u32 \<Rightarrow> cache \<Rightarrow> c_elt option" where
  "look_up_c_elt b c = find (\<lambda>e. c_block e = b) (elts c)"

definition look_up_c_elt_add :: "ptr \<Rightarrow> cache \<Rightarrow> c_elt option" where
  "look_up_c_elt_add a c = (if a = 0 then None else find (\<lambda>e. c_addr e = a) (elts c))"

text \<open>The first element of a block, and the element of an address, replaced.\<close>

fun upd_block :: "u32 \<Rightarrow> (c_elt \<Rightarrow> c_elt) \<Rightarrow> c_elt list \<Rightarrow> c_elt list" where
  "upd_block b f [] = []"
| "upd_block b f (e # es) = (if c_block e = b then f e # es else e # upd_block b f es)"

fun upd_addr :: "ptr \<Rightarrow> (c_elt \<Rightarrow> c_elt) \<Rightarrow> c_elt list \<Rightarrow> c_elt list" where
  "upd_addr a f [] = []"
| "upd_addr a f (e # es) = (if c_addr e = a then f e # es else e # upd_addr a f es)"

section \<open>Sectors of a block\<close>

definition blk_ratio :: "geometry \<Rightarrow> nat" where
  "blk_ratio g = unat (g_block_size g) div BLOCK_SIZE"

definition part_start :: "geometry \<Rightarrow> cache \<Rightarrow> u32 res" where
  "part_start g c =
     (case c_mbr c of
        None \<Rightarrow> Inl Null_deref
      | Some m \<Rightarrow> if unat (g_partition g) < length (partitionTable m) then Inr (startLBA (partitionTable m ! unat (g_partition g)))
                  else Inl Out_of_bounds)"

definition sector_of :: "u32 \<Rightarrow> geometry \<Rightarrow> u32 \<Rightarrow> nat \<Rightarrow> u32" where
  "sector_of start g b i = start + b * of_nat (blk_ratio g) + of_nat i"

definition read_sectors :: "disk_t \<Rightarrow> u32 \<Rightarrow> geometry \<Rightarrow> u32 \<Rightarrow> byte list" where
  "read_sectors d start g b = concat (map (\<lambda>i. read_disk (sector_of start g b i) d) [0 ..< blk_ratio g])"

text \<open>The loop of \<^verbatim>\<open>sync_elt\<close>: it stops at the first write that fails.\<close>

fun write_sectors :: "u32 \<Rightarrow> geometry \<Rightarrow> u32 \<Rightarrow> byte list \<Rightarrow> nat list \<Rightarrow> disk_t \<Rightarrow> bool \<times> disk_t" where
  "write_sectors start g b data [] d = (True, d)"
| "write_sectors start g b data (i # is) d =
     (let (ok, d1) = write_disk (sector_of start g b i) (peek (i * BLOCK_SIZE) BLOCK_SIZE data) d in
      if ok then write_sectors start g b data is d1 else (False, d1))"

section \<open>Saving and freeing\<close>

text \<open>\<^verbatim>\<open>sync_elt\<close> on an element: the result, the element and the cache.\<close>

definition sync_elt :: "c_elt \<Rightarrow> cache \<Rightarrow> (int \<times> c_elt \<times> cache) res" where
  "sync_elt e c =
     (case c_fs c of
        None \<Rightarrow> Inl Null_deref
      | Some g \<Rightarrow>
          rbind (part_start g c) (\<lambda>start.
          if blk_ratio g * BLOCK_SIZE > EXT2_BLOCK_SIZE then Inl Out_of_bounds
          else
            (let (ok, d) = write_sectors start g (c_block e) (c_data e) [0 ..< blk_ratio g] (disk c) in
             if ok then Inr (0, e\<lparr>c_dirty := False\<rparr>, c\<lparr>disk := d\<rparr>) else Inr (-1, e, c\<lparr>disk := d\<rparr>))))"

text \<open>Every dirty element from the head on; the result is -1 if one could not be saved.\<close>

fun sync_loop :: "c_elt list \<Rightarrow> c_elt list \<Rightarrow> int \<Rightarrow> cache \<Rightarrow> (int \<times> cache) res" where
  "sync_loop done [] r c = Inr (r, c\<lparr>elts := rev done\<rparr>)"
| "sync_loop done (e # es) r c =
     (if c_dirty e then
        rbind (sync_elt e c) (\<lambda>(s, e1, c1). sync_loop (e1 # done) es (if s < 0 then -1 else r) c1)
      else sync_loop (e # done) es r c)"

definition sync_fs :: "cache \<Rightarrow> (int \<times> cache) res" where
  "sync_fs c = sync_loop [] (elts c) 0 c"

text \<open>
  Every element that nobody uses is saved when it is dirty and freed; the loop stops at the first
  one that cannot be saved.
\<close>

fun free_loop_c :: "c_elt list \<Rightarrow> c_elt list \<Rightarrow> cache \<Rightarrow> (int \<times> cache) res" where
  "free_loop_c kept [] c = Inr (0, c\<lparr>elts := rev kept\<rparr>)"
| "free_loop_c kept (e # es) c =
     (if c_usage e = 0 then
        rbind (if c_dirty e then sync_elt e c else Inr (0, e, c)) (\<lambda>(s, e1, c1).
          if s < 0 then Inr (-1, c1\<lparr>elts := rev kept @ e1 # es\<rparr>)
          else free_loop_c kept es (c1\<lparr>nb_elements_cache := nb_elements_cache c1 - 1\<rparr>))
      else free_loop_c (e # kept) es c)"

definition free_cache_list :: "cache \<Rightarrow> (int \<times> cache) res" where
  "free_cache_list c = free_loop_c [] (elts c) c"

definition check_if_cache_is_full :: "cache \<Rightarrow> cache res" where
  "check_if_cache_is_full c =
     (if nb_elements_cache c = MAX_CACHE_SIZE then rbind (free_cache_list c) (\<lambda>(_, c1). Inr c1) else Inr c)"

section \<open>Fetching\<close>

definition calloc_elt :: "cache \<Rightarrow> (bool \<times> bool \<times> u32) \<times> cache" where
  "calloc_elt c = (case cmem c of [] \<Rightarrow> ((True, False, 0), c) | m # ms \<Rightarrow> (m, c\<lparr>cmem := ms\<rparr>))"

text \<open>The test of the size of the partition is an unsigned comparison.\<close>

definition fetch_block :: "u32 \<Rightarrow> cache \<Rightarrow> (c_elt option \<times> cache) res" where
  "fetch_block b c =
     rbind (check_if_cache_is_full c) (\<lambda>c1.
     let ((ok, dirty, usage), c2) = calloc_elt c1 in
     if \<not> ok then Inr (None, c2)
     else case c_fs c2 of
       None \<Rightarrow> Inl Null_deref
     | Some g \<Rightarrow>
         if b * g_block_size g div of_nat BLOCK_SIZE > of_int (get_partition_size (c_mbr c2) (g_partition g))
         then Inr (None, c2)
         else
           rbind (part_start g c2) (\<lambda>start.
           if blk_ratio g * BLOCK_SIZE > EXT2_BLOCK_SIZE then Inl Out_of_bounds
           else
             (let e = \<lparr>c_addr = c_fresh c2, c_block = b, c_dirty = dirty, c_usage = usage,
                        c_data = read_sectors (disk c2) start g b\<rparr> in
              Inr (Some e, c2\<lparr>elts := e # elts c2, nb_elements_cache := nb_elements_cache c2 + 1, c_fresh := Suc (c_fresh c2)\<rparr>))))"

text \<open>The element of a block, from the list or from the disk.\<close>

definition get_elt :: "u32 \<Rightarrow> cache \<Rightarrow> (c_elt option \<times> cache) res" where
  "get_elt b c = (case look_up_c_elt b c of Some e \<Rightarrow> Inr (Some e, c) | None \<Rightarrow> fetch_block b c)"

section \<open>Reading and writing blocks\<close>

definition lock_elt :: "c_elt \<Rightarrow> cache \<Rightarrow> cache" where
  "lock_elt e c =
     c\<lparr>elts := upd_block (c_block e) (\<lambda>e. e\<lparr>c_usage := c_usage e + 1\<rparr>) (elts c),
       locked_files := (if c_usage e + 1 = 1 then locked_files c + 1 else locked_files c)\<rparr>"

text \<open>The result is the address of the data, 0 when the block could not be read.\<close>

definition read_block_c :: "u32 \<Rightarrow> cache_op \<Rightarrow> cache \<Rightarrow> (ptr \<times> cache) res" where
  "read_block_c b op c =
     rbind (get_elt b c) (\<lambda>(eo, c1).
     case eo of
       None \<Rightarrow> Inr (0, c1)
     | Some e \<Rightarrow> Inr (c_addr e, if op = LOCK then lock_elt e c1 else c1))"

definition write_block :: "u32 \<Rightarrow> byte list option \<Rightarrow> write_type \<Rightarrow> cache_op \<Rightarrow> cache \<Rightarrow> (int \<times> cache) res" where
  "write_block b data ty op c =
     (case c_fs c of
        None \<Rightarrow> if data = None then Inr (-1, c) else Inl Null_deref
      | Some g \<Rightarrow>
          (case data of
             None \<Rightarrow> Inr (-1, c)
           | Some bs \<Rightarrow>
               if length bs > unat (g_block_size g) then Inr (-1, c)
               else
                 rbind (get_elt b c) (\<lambda>(eo, c1).
                 case eo of
                   None \<Rightarrow> Inr (0, c1)
                 | Some e \<Rightarrow>
                     if length bs > length (c_data e) then Inl Out_of_bounds
                     else
                       (let e1 = e\<lparr>c_data := poke 0 bs (c_data e), c_dirty := True,
                                    c_usage := (if op = UNLOCK then c_usage e - 1 else c_usage e)\<rparr>;
                            c2 = c1\<lparr>elts := upd_block b (\<lambda>_. e1) (elts c1),
                                     locked_files := (if op = UNLOCK \<and> c_usage e - 1 = 0 then locked_files c1 - 1 else locked_files c1)\<rparr> in
                        if ty = WRITE_BACK then Inr (0, c2)
                        else
                          rbind (sync_elt e1 c2) (\<lambda>(s, e2, c3).
                            Inr (if s < 0 then -1 else 0, c3\<lparr>elts := upd_block b (\<lambda>_. e2) (elts c3)\<rparr>))))))"

definition release_elt :: "c_elt \<Rightarrow> (((c_elt \<Rightarrow> c_elt) \<Rightarrow> c_elt list \<Rightarrow> c_elt list)) \<Rightarrow> cache \<Rightarrow> cache" where
  "release_elt e upd c =
     (if c_usage e > 0 then
        c\<lparr>elts := upd (\<lambda>e. e\<lparr>c_usage := c_usage e - 1\<rparr>) (elts c),
          locked_files := (if c_usage e - 1 = 0 then locked_files c - 1 else locked_files c)\<rparr>
      else c)"

definition unlock_cache :: "u32 \<Rightarrow> cache \<Rightarrow> int \<times> cache" where
  "unlock_cache b c = (case look_up_c_elt b c of None \<Rightarrow> (-1, c) | Some e \<Rightarrow> (0, release_elt e (upd_block b) c))"

definition unlock_using_address :: "ptr \<Rightarrow> cache \<Rightarrow> int \<times> cache" where
  "unlock_using_address a c = (case look_up_c_elt_add a c of None \<Rightarrow> (-1, c) | Some e \<Rightarrow> (0, release_elt e (upd_addr a) c))"

definition set_dirty_block :: "u32 \<Rightarrow> cache \<Rightarrow> int \<times> cache" where
  "set_dirty_block b c =
     (if elts c = [] then (0, c)
      else case look_up_c_elt b c of
        None \<Rightarrow> (-1, c)
      | Some e \<Rightarrow> (0, c\<lparr>elts := upd_block b (\<lambda>e. e\<lparr>c_dirty := True\<rparr>) (elts c)\<rparr>))"

definition save_fs_block :: "byte list option \<Rightarrow> u32 \<Rightarrow> cache_op \<Rightarrow> cache \<Rightarrow> (int \<times> cache) res" where
  "save_fs_block data b op c =
     (case data of
        None \<Rightarrow> Inr (-1, c)
      | Some bs \<Rightarrow>
          (case c_fs c of
             None \<Rightarrow> Inl Null_deref
           | Some g \<Rightarrow>
               if length bs > unat (g_block_size g) then Inr (-1, c)
               else rbind (write_block b (Some bs) WRITE_THROUGH op c) (\<lambda>(r, c1). Inr (if r < 0 then -1 else 0, c1))))"

definition disk_read_block :: "u32 \<Rightarrow> cache_op \<Rightarrow> cache \<Rightarrow> (ptr \<times> cache) res" where
  "disk_read_block b op c = read_block_c b op c"

text \<open>The bytes at an address the cache has given out, and a store there.\<close>

definition block_at :: "ptr \<Rightarrow> cache \<Rightarrow> byte list res" where
  "block_at a c = (if a = 0 then Inl Null_deref else case look_up_c_elt_add a c of None \<Rightarrow> Inl Use_after_free | Some e \<Rightarrow> Inr (c_data e))"

definition store_at :: "ptr \<Rightarrow> nat \<Rightarrow> byte list \<Rightarrow> cache \<Rightarrow> cache res" where
  "store_at a off bs c =
     rbind (block_at a c) (\<lambda>data.
     if off + length bs > length data then Inl Out_of_bounds
     else Inr (c\<lparr>elts := upd_addr a (\<lambda>e. e\<lparr>c_data := poke off bs (c_data e)\<rparr>) (elts c)\<rparr>))"

end
