(* ===== verification/CacheInv.thy ===== *)
theory CacheInv
  imports DiskCache
begin

text \<open>
  The block cache refines an array of blocks: \<open>view c b\<close> is what block \<open>b\<close> holds, in the
  cache or else on the disk. Reading returns it, writing changes it for one block, and eviction and
  saving, complete or failed, leave it alone. The blocks are those whose sectors do not wrap.
\<close>

section \<open>Sectors\<close>

definition blk_ok :: "geometry \<Rightarrow> u32 \<Rightarrow> bool" where
  "blk_ok g b \<longleftrightarrow> unat b * blk_ratio g + blk_ratio g \<le> 2 ^ 32"

lemma sector_of_nat: "sector_of start g b i = start + of_nat (unat b * blk_ratio g + i)"
  by (simp add: sector_of_def)

lemma sector_inj:
  assumes "sector_of start g b i = sector_of start g b' i'" "blk_ok g b" "blk_ok g b'" "i < blk_ratio g" "i' < blk_ratio g"
  shows "b = b' \<and> i = i'"
proof -
  let ?r = "blk_ratio g"
  have "unat b * ?r + i < 2 ^ 32" "unat b' * ?r + i' < 2 ^ 32" using assms(2-) by (simp_all add: blk_ok_def)
  then have "unat (of_nat (unat b * ?r + i) :: u32) = unat b * ?r + i" "unat (of_nat (unat b' * ?r + i') :: u32) = unat b' * ?r + i'"
    by (simp_all only: unat_of_nat take_bit_eq_mod) (simp_all add: unat_of_nat)
  moreover have "(of_nat (unat b * ?r + i) :: u32) = of_nat (unat b' * ?r + i')"
    using assms(1) unfolding sector_of_nat by (simp only: add_left_cancel)
  ultimately have e: "unat b * ?r + i = unat b' * ?r + i'" by metis
  then have "(unat b * ?r + i) div ?r = (unat b' * ?r + i') div ?r" "(unat b * ?r + i) mod ?r = (unat b' * ?r + i') mod ?r" by simp_all
  then show ?thesis using assms(4,5) by (simp add: word_unat_eq_iff)
qed

lemma length_read_sectors: "disk_wf d \<Longrightarrow> length (read_sectors d start g b) = blk_ratio g * BLOCK_SIZE"
  by (simp add: read_sectors_def length_concat disk_wf_def read_disk_def comp_def sum_list_triv)

lemma peek_read_sectors:
  assumes "disk_wf d" "i < blk_ratio g"
  shows "peek (i * BLOCK_SIZE) BLOCK_SIZE (read_sectors d start g b) = sectors d (sector_of start g b i)"
proof -
  let ?f = "\<lambda>i. read_disk (sector_of start g b i) d"
  have l: "length (concat (map ?f [0 ..< n])) = n * BLOCK_SIZE" for n
    using assms(1) by (simp add: length_concat disk_wf_def read_disk_def comp_def sum_list_triv)
  have "[0 ..< blk_ratio g] = [0 ..< i] @ i # [Suc i ..< blk_ratio g]"
    using assms(2) by (metis less_imp_add_positive upt_add_eq_append upt_conv_Cons zero_le less_imp_le_nat le0 add_0)
  then have "read_sectors d start g b = concat (map ?f [0 ..< i]) @ ?f i @ concat (map ?f [Suc i ..< blk_ratio g])"
    by (simp add: read_sectors_def)
  then show ?thesis using l [of i] assms(1) by (simp add: peek_def read_disk_def disk_wf_def)
qed

lemma read_sectors_cong:
  assumes "\<And>i. i < blk_ratio g \<Longrightarrow> sectors d (sector_of start g b i) = sectors d' (sector_of start g b i)"
  shows "read_sectors d start g b = read_sectors d' start g b"
  unfolding read_sectors_def read_disk_def by (rule arg_cong [of _ _ concat]) (use assms in \<open>simp add: atLeast0LessThan\<close>)

lemma blocks_eqI:
  assumes "length xs = n * BLOCK_SIZE" "length ys = n * BLOCK_SIZE"
    "\<And>i. i < n \<Longrightarrow> peek (i * BLOCK_SIZE) BLOCK_SIZE xs = peek (i * BLOCK_SIZE) BLOCK_SIZE ys"
  shows "xs = ys"
proof (rule nth_equalityI)
  show "length xs = length ys" using assms by simp
  fix k
  assume k: "k < length xs"
  have B: "0 < BLOCK_SIZE" by (simp add: BLOCK_SIZE_def)
  define i where "i = k div BLOCK_SIZE"
  have i: "i < n" using k assms(1) B by (simp add: i_def less_mult_imp_div_less)
  have r: "k mod BLOCK_SIZE < BLOCK_SIZE" using B by simp
  have le: "i * BLOCK_SIZE + BLOCK_SIZE \<le> n * BLOCK_SIZE" using i by (metis Suc_leI add.commute mult_Suc mult_le_mono1)
  have ik: "i * BLOCK_SIZE + k mod BLOCK_SIZE = k" by (simp add: i_def)
  have at: "peek (i * BLOCK_SIZE) BLOCK_SIZE zs ! (k mod BLOCK_SIZE) = zs ! k" if "length zs = n * BLOCK_SIZE" for zs :: "'a list"
  proof -
    have "i * BLOCK_SIZE \<le> length zs" using le that by linarith
    from nth_drop [OF this, of "k mod BLOCK_SIZE"] show ?thesis using r unfolding ik by (simp add: peek_def)
  qed
  show "xs ! k = ys ! k" using at [OF assms(1)] at [OF assms(2)] assms(3) [OF i] by simp
qed

text \<open>What the loop of writes does to the sectors: those of the block take the data, no other changes.\<close>

lemma write_sectors_other:
  assumes "write_sectors start g b data is d = (ok, d')" "\<forall>i \<in> set is. sector_of start g b i \<noteq> s"
  shows "sectors d' s = sectors d s"
  using assms
proof (induction "is" arbitrary: d)
  case (Cons i "is")
  obtain ok1 d1 where w: "write_disk (sector_of start g b i) (peek (i * BLOCK_SIZE) BLOCK_SIZE data) d = (ok1, d1)" by fastforce
  have "sectors d1 s = sectors d s" using write_disk_sectors(1) [OF w] Cons.prems(2) by auto
  then show ?case using Cons.IH [of d1] Cons.prems w by (auto simp: Let_def split: if_split_asm)
qed simp

lemma write_sectors_wf:
  assumes "write_sectors start g b data is d = (ok, d')" "disk_wf d" "\<forall>i \<in> set is. i * BLOCK_SIZE + BLOCK_SIZE \<le> length data"
  shows "disk_wf d'"
  using assms
proof (induction "is" arbitrary: d)
  case (Cons i "is")
  obtain ok1 d1 where w: "write_disk (sector_of start g b i) (peek (i * BLOCK_SIZE) BLOCK_SIZE data) d = (ok1, d1)" by fastforce
  have "i * BLOCK_SIZE + BLOCK_SIZE \<le> length data" using Cons.prems(3) by simp
  then have "BLOCK_SIZE \<le> length data - i * BLOCK_SIZE" by linarith
  then have "disk_wf d1" using write_disk_wf [OF Cons.prems(2) _ w] by (simp add: peek_def min_absorb2)
  then show ?case using Cons.IH [of d1] Cons.prems w by (auto simp: Let_def split: if_split_asm)
qed simp

lemma write_sectors_done:
  assumes "write_sectors start g b data is d = (True, d')" "distinct is" "i \<in> set is" "blk_ok g b" "\<forall>i \<in> set is. i < blk_ratio g"
  shows "sectors d' (sector_of start g b i) = peek (i * BLOCK_SIZE) BLOCK_SIZE data"
  using assms
proof (induction "is" arbitrary: d)
  case (Cons j "is")
  obtain d1 where w: "write_disk (sector_of start g b j) (peek (j * BLOCK_SIZE) BLOCK_SIZE data) d = (True, d1)"
    and r: "write_sectors start g b data is d1 = (True, d')"
    using Cons.prems(1) by (auto simp: Let_def split: prod.split_asm if_split_asm)
  show ?case
  proof (cases "i = j")
    case True
    have "sector_of start g b k \<noteq> sector_of start g b j" if "k \<in> set is" for k
      using sector_inj [of start g b k b j] Cons.prems that by auto
    then have "sectors d' (sector_of start g b j) = sectors d1 (sector_of start g b j)" by (intro write_sectors_other [OF r]) simp
    then show ?thesis using write_disk_sectors(1) [OF w] True by simp
  qed (use Cons.IH [OF r] Cons.prems in auto)
qed simp

section \<open>The invariant\<close>

definition ready :: "geometry \<Rightarrow> u32 \<Rightarrow> cache \<Rightarrow> bool" where
  "ready g start c \<longleftrightarrow> c_fs c = Some g \<and> part_start g c = Inr start \<and> blk_ratio g * BLOCK_SIZE \<le> EXT2_BLOCK_SIZE \<and>
     unat (g_block_size g) = blk_ratio g * BLOCK_SIZE"

definition elt_ok :: "geometry \<Rightarrow> u32 \<Rightarrow> disk_t \<Rightarrow> c_elt \<Rightarrow> bool" where
  "elt_ok g start d e \<longleftrightarrow> blk_ok g (c_block e) \<and> length (c_data e) = blk_ratio g * BLOCK_SIZE \<and>
     (\<not> c_dirty e \<longrightarrow> c_data e = read_sectors d start g (c_block e))"

definition linv :: "geometry \<Rightarrow> u32 \<Rightarrow> disk_t \<Rightarrow> c_elt list \<Rightarrow> bool" where
  "linv g start d es \<longleftrightarrow> disk_wf d \<and> distinct (map c_block es) \<and> distinct (map c_addr es) \<and> (\<forall>e \<in> set es. elt_ok g start d e)"

definition cinv :: "geometry \<Rightarrow> u32 \<Rightarrow> cache \<Rightarrow> bool" where
  "cinv g start c \<longleftrightarrow> ready g start c \<and> linv g start (disk c) (elts c) \<and>
     (\<forall>e \<in> set (elts c). 0 < c_addr e \<and> c_addr e < c_fresh c) \<and> 0 < c_fresh c"

definition blocks :: "c_elt list \<Rightarrow> u32 \<rightharpoonup> byte list" where
  "blocks es = map_of (map (\<lambda>e. (c_block e, c_data e)) es)"

definition lview :: "geometry \<Rightarrow> u32 \<Rightarrow> disk_t \<Rightarrow> c_elt list \<Rightarrow> u32 \<Rightarrow> byte list" where
  "lview g start d es b = (case blocks es b of Some bs \<Rightarrow> bs | None \<Rightarrow> read_sectors d start g b)"

definition view :: "geometry \<Rightarrow> u32 \<Rightarrow> cache \<Rightarrow> u32 \<Rightarrow> byte list" where
  "view g start c = lview g start (disk c) (elts c)"

lemma find_block:
  "distinct (map c_block es) \<Longrightarrow> e \<in> set es \<Longrightarrow> find (\<lambda>x. c_block x = c_block e) es = Some e"
  by (induction es) auto

lemma find_blockD: "find (\<lambda>x. c_block x = b) es = Some e \<Longrightarrow> e \<in> set es \<and> c_block e = b"
  by (induction es) (auto split: if_split_asm)

lemma find_addr:
  "distinct (map c_addr es) \<Longrightarrow> e \<in> set es \<Longrightarrow> find (\<lambda>x. c_addr x = c_addr e) es = Some e"
  by (induction es) auto

lemma find_addrD: "find (\<lambda>x. c_addr x = a) es = Some e \<Longrightarrow> e \<in> set es \<and> c_addr e = a"
  by (induction es) (auto split: if_split_asm)

lemma blocks_find: "blocks es b = map_option c_data (find (\<lambda>e. c_block e = b) es)"
  by (induction es) (auto simp: blocks_def)

lemma blocks_append: "blocks (xs @ ys) b = (case blocks xs b of Some d \<Rightarrow> Some d | None \<Rightarrow> blocks ys b)"
  by (simp add: blocks_def map_add_def split: option.splits)

lemma blocks_Cons: "blocks (e # es) b = (if c_block e = b then Some (c_data e) else blocks es b)"
  by (simp add: blocks_def)

lemma blocks_None: "blocks es b = None \<longleftrightarrow> b \<notin> c_block ` set es"
  by (induction es) (auto simp: blocks_def)

lemma elt_ok_disk:
  "elt_ok g start d e \<Longrightarrow> read_sectors d' start g (c_block e) = read_sectors d start g (c_block e) \<Longrightarrow> elt_ok g start d' e"
  by (simp add: elt_ok_def)

text \<open>The disk changes under one element of the list, which is kept or dropped.\<close>

definition other_blocks :: "geometry \<Rightarrow> u32 \<Rightarrow> u32 \<Rightarrow> disk_t \<Rightarrow> disk_t \<Rightarrow> bool" where
  "other_blocks g start b0 d d' \<longleftrightarrow> disk_wf d' \<and> (\<forall>b. blk_ok g b \<longrightarrow> b \<noteq> b0 \<longrightarrow> read_sectors d' start g b = read_sectors d start g b)"

lemma linv_split:
  assumes l: "linv g start d (xs @ e # ys)" and x: "x \<in> set xs \<union> set ys"
  shows "elt_ok g start d x \<and> c_block x \<noteq> c_block e"
proof -
  have "c_block e \<notin> c_block ` (set xs \<union> set ys)" using l by (simp add: linv_def image_Un)
  then have "c_block x \<noteq> c_block e" using x by (metis imageI)
  then show ?thesis using l x by (auto simp: linv_def)
qed

lemma linv_keep:
  assumes l: "linv g start d (xs @ e # ys)" and o: "other_blocks g start (c_block e) d d'"
    and e: "c_block e' = c_block e" "c_addr e' = c_addr e" "elt_ok g start d' e'"
  shows "linv g start d' (xs @ e' # ys)"
proof -
  have "elt_ok g start d' x" if x: "x \<in> set xs \<union> set ys" for x
  proof -
    show ?thesis using linv_split [OF l x] o by (rule_tac elt_ok_disk [of g start d]) (auto simp: other_blocks_def elt_ok_def)
  qed
  then show ?thesis using l o e by (auto simp: linv_def other_blocks_def)
qed

lemma linv_drop:
  assumes l: "linv g start d (xs @ e # ys)" and o: "other_blocks g start (c_block e) d d'"
  shows "linv g start d' (xs @ ys)"
proof -
  have "elt_ok g start d' x" if x: "x \<in> set xs \<union> set ys" for x
  proof -
    show ?thesis using linv_split [OF l x] o by (rule_tac elt_ok_disk [of g start d]) (auto simp: other_blocks_def elt_ok_def)
  qed
  then show ?thesis using l o by (auto simp: linv_def other_blocks_def)
qed

lemma lview_keep:
  assumes o: "other_blocks g start (c_block e) d d'" and e: "c_block e' = c_block e" "c_data e' = c_data e" and b: "blk_ok g b"
  shows "lview g start d' (xs @ e' # ys) b = lview g start d (xs @ e # ys) b"
proof (cases "b = c_block e")
  case True
  then show ?thesis using e by (simp add: lview_def blocks_append blocks_Cons split: option.splits)
next
  case False
  then show ?thesis using e o b by (simp add: lview_def blocks_append blocks_Cons other_blocks_def split: option.splits)
qed

lemma lview_drop:
  assumes l: "distinct (map c_block (xs @ e # ys))" and o: "other_blocks g start (c_block e) d d'"
    and e: "read_sectors d' start g (c_block e) = c_data e" and b: "blk_ok g b"
  shows "lview g start d' (xs @ ys) b = lview g start d (xs @ e # ys) b"
proof (cases "b = c_block e")
  case True
  have "blocks xs b = None" "blocks ys b = None" using l by (auto simp: blocks_None True)
  then show ?thesis using e by (simp add: lview_def blocks_append blocks_Cons True)
next
  case False
  then show ?thesis using o b by (simp add: lview_def blocks_append blocks_Cons other_blocks_def split: option.splits)
qed

text \<open>Writing one block to the disk: the views of the other blocks stay.\<close>

lemma sync_elt_spec:
  assumes r: "ready g start c" and e: "sync_elt e c = Inr (s, e', c')" and w: "disk_wf (disk c)"
    and ok: "blk_ok g (c_block e)" "length (c_data e) = blk_ratio g * BLOCK_SIZE"
  shows "\<exists>d. c' = c\<lparr>disk := d\<rparr> \<and> disk_wf d \<and> (s = 0 \<or> s = -1) \<and>
    (\<forall>b. blk_ok g b \<longrightarrow> b \<noteq> c_block e \<longrightarrow> read_sectors d start g b = read_sectors (disk c) start g b) \<and>
    (s = 0 \<longrightarrow> e' = e\<lparr>c_dirty := False\<rparr> \<and> read_sectors d start g (c_block e) = c_data e) \<and> (s \<noteq> 0 \<longrightarrow> e' = e)"
proof -
  obtain ok1 d where wr: "write_sectors start g (c_block e) (c_data e) [0 ..< blk_ratio g] (disk c) = (ok1, d)" by fastforce
  have c': "c' = c\<lparr>disk := d\<rparr>" "s = (if ok1 then 0 else -1)" "e' = (if ok1 then e\<lparr>c_dirty := False\<rparr> else e)"
    using e r wr by (auto simp: sync_elt_def ready_def not_le [symmetric] split: if_split_asm)
  have le: "\<forall>i \<in> set [0 ..< blk_ratio g]. i * BLOCK_SIZE + BLOCK_SIZE \<le> length (c_data e)"
  proof
    fix i
    assume "i \<in> set [0 ..< blk_ratio g]"
    then have "Suc i \<le> blk_ratio g" by simp
    then have "Suc i * BLOCK_SIZE \<le> blk_ratio g * BLOCK_SIZE" by (rule mult_le_mono1)
    then show "i * BLOCK_SIZE + BLOCK_SIZE \<le> length (c_data e)" using ok(2) by simp
  qed
  have dw: "disk_wf d" using write_sectors_wf [OF wr w le] .
  have "read_sectors d start g b' = read_sectors (disk c) start g b'" if b': "blk_ok g b'" "b' \<noteq> c_block e" for b'
  proof (rule read_sectors_cong)
    fix i
    assume i: "i < blk_ratio g"
    show "sectors d (sector_of start g b' i) = sectors (disk c) (sector_of start g b' i)"
      using sector_inj [OF _ ok(1) b'(1) _ i] b'(2) by (intro write_sectors_other [OF wr]) auto
  qed
  moreover have "read_sectors d start g (c_block e) = c_data e" if ok1
  proof (rule blocks_eqI [of _ "blk_ratio g"])
    show "length (read_sectors d start g (c_block e)) = blk_ratio g * BLOCK_SIZE" using dw by (rule length_read_sectors)
    fix i
    assume i: "i < blk_ratio g"
    show "peek (i * BLOCK_SIZE) BLOCK_SIZE (read_sectors d start g (c_block e)) = peek (i * BLOCK_SIZE) BLOCK_SIZE (c_data e)"
      using peek_read_sectors [OF dw i] write_sectors_done [of start g "c_block e" "c_data e" _ "disk c" d i] wr that ok(1) i by simp
  qed (rule ok(2))
  ultimately show ?thesis using c' dw by auto
qed

lemma sync_elt_other:
  assumes "ready g start c" "sync_elt e c = Inr (s, e', c')" "disk_wf (disk c)" "elt_ok g start (disk c) e"
  obtains d where "c' = c\<lparr>disk := d\<rparr>" "other_blocks g start (c_block e) (disk c) d" "s = 0 \<or> s = -1"
    "s = 0 \<Longrightarrow> e' = e\<lparr>c_dirty := False\<rparr> \<and> read_sectors d start g (c_block e) = c_data e" "s \<noteq> 0 \<Longrightarrow> e' = e"
    "c_dirty e \<Longrightarrow> elt_ok g start d e'"
proof -
  obtain d where d: "c' = c\<lparr>disk := d\<rparr>" "disk_wf d" "s = 0 \<or> s = -1"
    "\<forall>b. blk_ok g b \<longrightarrow> b \<noteq> c_block e \<longrightarrow> read_sectors d start g b = read_sectors (disk c) start g b"
    "s = 0 \<longrightarrow> e' = e\<lparr>c_dirty := False\<rparr> \<and> read_sectors d start g (c_block e) = c_data e" "s \<noteq> 0 \<longrightarrow> e' = e"
    using sync_elt_spec [OF assms(1-3)] assms(4) unfolding elt_ok_def by blast
  show thesis
  proof (rule that [OF d(1) _ d(3)])
    show "other_blocks g start (c_block e) (disk c) d" using d by (simp add: other_blocks_def)
    show "elt_ok g start d e'" if "c_dirty e" using d(5,6) assms(4) that by (cases "s = 0") (auto simp: elt_ok_def)
  qed (use d in blast)+
qed

section \<open>Eviction and saving\<close>

definition frame :: "cache \<Rightarrow> cache \<Rightarrow> bool" where
  "frame c c' \<longleftrightarrow> c_fs c' = c_fs c \<and> c_mbr c' = c_mbr c \<and> c_fresh c' = c_fresh c \<and> cmem c' = cmem c"

lemma frame_simps [simp]: "frame c c" "frame c (c'\<lparr>disk := d\<rparr>) = frame c c'" "frame c (c'\<lparr>elts := es\<rparr>) = frame c c'"
  "frame c (c'\<lparr>nb_elements_cache := n\<rparr>) = frame c c'" "frame c (c'\<lparr>locked_files := n\<rparr>) = frame c c'"
  by (simp_all add: frame_def)

lemma frame_ready: "frame c c' \<Longrightarrow> ready g start c \<Longrightarrow> ready g start c'"
  by (simp add: frame_def ready_def part_start_def)

lemma frame_trans: "frame c c' \<Longrightarrow> frame c' c'' \<Longrightarrow> frame c c''"
  by (simp add: frame_def)

lemma other_blocks_refl: "disk_wf d \<Longrightarrow> other_blocks g start b d d"
  by (simp add: other_blocks_def)

lemma free_loop_c_keeps:
  assumes "free_loop_c kept es c = Inr (r, c')" "ready g start c" "linv g start (disk c) (rev kept @ es)"
  shows "frame c c' \<and> linv g start (disk c') (elts c') \<and> set (map c_addr (elts c')) \<subseteq> set (map c_addr (rev kept @ es)) \<and>
    (\<forall>b. blk_ok g b \<longrightarrow> lview g start (disk c') (elts c') b = lview g start (disk c) (rev kept @ es) b)"
  using assms
proof (induction es arbitrary: kept c)
  case (Cons e es)
  show ?case
  proof (cases "c_usage e = 0")
    case False
    then show ?thesis using Cons.IH [of "e # kept" c] Cons.prems by simp
  next
    case True
    have ok: "elt_ok g start (disk c) e" and w: "disk_wf (disk c)" and di: "distinct (map c_block (rev kept @ e # es))"
      using Cons.prems(3) by (auto simp: linv_def)
    obtain s e1 c1 where se: "(if c_dirty e then sync_elt e c else Inr (0, e, c)) = Inr (s, e1, c1)"
      "(if s < 0 then Inr (-1, c1\<lparr>elts := rev kept @ e1 # es\<rparr>) else free_loop_c kept es (c1\<lparr>nb_elements_cache := nb_elements_cache c1 - 1\<rparr>)) = Inr (r, c')"
      using Cons.prems(1) True by (auto elim!: rbindE)
    obtain d where d: "c1 = c\<lparr>disk := d\<rparr>" "other_blocks g start (c_block e) (disk c) d" "s \<ge> 0 \<longrightarrow> read_sectors d start g (c_block e) = c_data e"
      "s < 0 \<longrightarrow> e1 = e \<and> elt_ok g start d e1"
    proof (cases "c_dirty e")
      case dirty: True
      then have "sync_elt e c = Inr (s, e1, c1)" using se(1) by simp
      then show thesis using dirty by (elim sync_elt_other [OF Cons.prems(2) _ w ok]) (rule that, auto)
    next
      case False
      then show thesis using se(1) ok w by (intro that [of "disk c"]) (auto simp: elt_ok_def other_blocks_refl)
    qed
    show ?thesis
    proof (cases "s < 0")
      case True
      then have c': "c' = c1\<lparr>elts := rev kept @ e1 # es\<rparr>" "e1 = e" "elt_ok g start d e" using se(2) d(4) by auto
      have "linv g start d (rev kept @ e # es)" using linv_keep [OF Cons.prems(3) d(2) refl refl c'(3)] .
      then show ?thesis using c' d(1) lview_keep [OF d(2) refl refl] by simp
    next
      case False
      let ?c = "c1\<lparr>nb_elements_cache := nb_elements_cache c1 - 1\<rparr>"
      have r: "free_loop_c kept es ?c = Inr (r, c')" using se(2) False by simp
      have l: "linv g start (disk ?c) (rev kept @ es)" using linv_drop [OF Cons.prems(3) d(2)] d(1) by simp
      have f: "frame c ?c" by (simp add: d(1))
      have rd: "ready g start ?c" by (rule frame_ready [OF f Cons.prems(2)])
      have v: "\<forall>b. blk_ok g b \<longrightarrow> lview g start (disk ?c) (rev kept @ es) b = lview g start (disk c) (rev kept @ e # es) b"
        using lview_drop [OF di d(2)] d(1,3) False by simp
      show ?thesis using Cons.IH [OF r rd l] v f frame_trans [of c ?c c'] by auto
    qed
  qed
qed auto

lemma sync_loop_keeps:
  assumes "sync_loop done es r c = Inr (r', c')" "ready g start c" "linv g start (disk c) (rev done @ es)"
  shows "frame c c' \<and> linv g start (disk c') (elts c') \<and> map c_addr (elts c') = map c_addr (rev done @ es) \<and>
    (\<forall>b. blk_ok g b \<longrightarrow> lview g start (disk c') (elts c') b = lview g start (disk c) (rev done @ es) b) \<and>
    (r' = 0 \<longrightarrow> r = 0 \<and> ((\<forall>e \<in> set done. \<not> c_dirty e) \<longrightarrow> (\<forall>e \<in> set (elts c'). \<not> c_dirty e)))"
  using assms
proof (induction es arbitrary: "done" r c)
  case (Cons e es)
  show ?case
  proof (cases "c_dirty e")
    case False
    then show ?thesis using Cons.IH [of "e # done" r c] Cons.prems by auto
  next
    case True
    have ok: "elt_ok g start (disk c) e" and w: "disk_wf (disk c)" using Cons.prems(3) by (auto simp: linv_def)
    obtain s e1 c1 where se: "sync_elt e c = Inr (s, e1, c1)" "sync_loop (e1 # done) es (if s < 0 then -1 else r) c1 = Inr (r', c')"
      using Cons.prems(1) True by (auto elim!: rbindE)
    obtain d where d: "c1 = c\<lparr>disk := d\<rparr>" "other_blocks g start (c_block e) (disk c) d" "elt_ok g start d e1"
      "c_block e1 = c_block e" "c_addr e1 = c_addr e" "c_data e1 = c_data e" "s \<ge> 0 \<longrightarrow> \<not> c_dirty e1"
      by (rule sync_elt_other [OF Cons.prems(2) se(1) w ok]) (rule that, use True in auto)
    have l: "linv g start (disk c1) (rev (e1 # done) @ es)" using linv_keep [OF Cons.prems(3) d(2,4,5,3)] d(1) by simp
    have f: "frame c c1" by (simp add: d(1))
    have v: "\<forall>b. blk_ok g b \<longrightarrow> lview g start (disk c1) (rev (e1 # done) @ es) b = lview g start (disk c) (rev done @ e # es) b"
      using lview_keep [OF d(2,4,6)] d(1) by simp
    note h = Cons.IH [OF se(2) frame_ready [OF f Cons.prems(2)] l]
    have "r' = 0 \<longrightarrow> r = 0 \<and> ((\<forall>e \<in> set done. \<not> c_dirty e) \<longrightarrow> (\<forall>e \<in> set (elts c'). \<not> c_dirty e))"
    proof
      assume "r' = 0"
      then have z: "(if s < 0 then -1 else r) = 0" and i: "(\<forall>e \<in> set (e1 # done). \<not> c_dirty e) \<longrightarrow> (\<forall>e \<in> set (elts c'). \<not> c_dirty e)"
        using h by blast+
      have s: "\<not> s < 0" using z by (rule contrapos_pn) simp
      have "r = 0" using z s by simp
      moreover have "\<not> c_dirty e1" using d(7) s by simp
      then have "(\<forall>e \<in> set done. \<not> c_dirty e) \<Longrightarrow> \<forall>e \<in> set (e1 # done). \<not> c_dirty e" by simp
      ultimately show "r = 0 \<and> ((\<forall>e \<in> set done. \<not> c_dirty e) \<longrightarrow> (\<forall>e \<in> set (elts c'). \<not> c_dirty e))" using i by blast
    qed
    moreover have "frame c c'" using h f frame_trans by blast
    moreover have "map c_addr (elts c') = map c_addr (rev done @ e # es)" using h d(5) by simp
    moreover have "\<forall>b. blk_ok g b \<longrightarrow> lview g start (disk c') (elts c') b = lview g start (disk c) (rev done @ e # es) b" using h v by simp
    ultimately show ?thesis using h by blast
  qed
qed auto

lemma cinv_frame:
  assumes "cinv g start c" "frame c c'" "linv g start (disk c') (elts c')" "set (map c_addr (elts c')) \<subseteq> set (map c_addr (elts c))"
  shows "cinv g start c'"
proof -
  have "0 < c_addr e \<and> c_addr e < c_fresh c'" if e: "e \<in> set (elts c')" for e
  proof -
    have "c_addr e \<in> set (map c_addr (elts c))" using e assms(4) by auto
    then show ?thesis using assms(1,2) by (auto simp: cinv_def frame_def)
  qed
  then show ?thesis using assms frame_ready [of c c' g start] by (simp add: cinv_def frame_def)
qed

lemma free_cache_list_keeps:
  assumes "free_cache_list c = Inr (r, c')" "cinv g start c"
  shows "cinv g start c'" "blk_ok g b \<Longrightarrow> view g start c' b = view g start c b" "frame c c'"
proof -
  have i: "ready g start c" "linv g start (disk c) (rev [] @ elts c)" using assms(2) by (simp_all add: cinv_def)
  note k = free_loop_c_keeps [OF assms(1) [unfolded free_cache_list_def] i]
  show "cinv g start c'" using k by (intro cinv_frame [OF assms(2)]) auto
  show "blk_ok g b \<Longrightarrow> view g start c' b = view g start c b" "frame c c'" using k by (simp_all add: view_def)
qed

lemma lview_clean:
  assumes "linv g start d es" "\<forall>e \<in> set es. \<not> c_dirty e"
  shows "lview g start d es b = read_sectors d start g b"
proof (cases "blocks es b")
  case (Some bs)
  then obtain e where e: "find (\<lambda>e. c_block e = b) es = Some e" "bs = c_data e" by (auto simp: blocks_find)
  then have "e \<in> set es" "c_block e = b" using find_blockD by auto
  then show ?thesis using assms e Some by (auto simp: lview_def linv_def elt_ok_def)
qed (simp add: lview_def)

lemma sync_fs_keeps:
  assumes "sync_fs c = Inr (r, c')" "cinv g start c"
  shows "cinv g start c'" "blk_ok g b \<Longrightarrow> view g start c' b = view g start c b" "frame c c'"
    "r = 0 \<Longrightarrow> blk_ok g b \<Longrightarrow> read_sectors (disk c') start g b = view g start c b"
proof -
  have i: "ready g start c" "linv g start (disk c) (rev [] @ elts c)" using assms(2) by (simp_all add: cinv_def)
  note k = sync_loop_keeps [OF assms(1) [unfolded sync_fs_def] i]
  show "cinv g start c'" using k by (intro cinv_frame [OF assms(2)]) auto
  show v: "blk_ok g b \<Longrightarrow> view g start c' b = view g start c b" "frame c c'" using k by (simp_all add: view_def)
  show "read_sectors (disk c') start g b = view g start c b" if "r = 0" "blk_ok g b"
    using lview_clean [of g start "disk c'" "elts c'" b] k that v(1) by (simp add: view_def)
qed

section \<open>Fetching\<close>

lemma check_full_keeps:
  assumes "check_if_cache_is_full c = Inr c'" "cinv g start c"
  shows "cinv g start c'" "blk_ok g b \<Longrightarrow> view g start c' b = view g start c b" "frame c c'"
proof -
  consider "c' = c" | r where "free_cache_list c = Inr (r, c')"
    using assms(1) by (auto simp: check_if_cache_is_full_def elim!: rbindE split: if_split_asm)
  then have "cinv g start c' \<and> (blk_ok g b \<longrightarrow> view g start c' b = view g start c b) \<and> frame c c'"
  proof cases
    case 2
    then show ?thesis using free_cache_list_keeps [OF 2 assms(2)] by blast
  qed (use assms(2) in simp)
  then show "cinv g start c'" "blk_ok g b \<Longrightarrow> view g start c' b = view g start c b" "frame c c'" by blast+
qed

lemma evict_subset:
  assumes "check_if_cache_is_full c = Inr c'" "cinv g start c" "look_up_c_elt b c = None"
  shows "look_up_c_elt b c' = None"
proof -
  have sub: "c_block ` set (elts c'') \<subseteq> c_block ` set (rev kept @ es)" if "free_loop_c kept es x = Inr (r, c'')" for kept es x r c''
    using that
  proof (induction es arbitrary: kept x)
    case (Cons e es)
    show ?case
    proof (cases "c_usage e = 0")
      case True
      obtain s e1 c1 where se: "(if c_dirty e then sync_elt e x else Inr (0, e, x)) = Inr (s, e1, c1)"
        "(if s < 0 then Inr (-1, c1\<lparr>elts := rev kept @ e1 # es\<rparr>) else free_loop_c kept es (c1\<lparr>nb_elements_cache := nb_elements_cache c1 - 1\<rparr>)) = Inr (r, c'')"
        using Cons.prems True by (auto elim!: rbindE)
      have "c_block e1 = c_block e" using se(1)
        by (auto simp: sync_elt_def split: if_split_asm option.split_asm prod.split_asm elim!: rbindE)
      then show ?thesis using se(2) Cons.IH [of kept "c1\<lparr>nb_elements_cache := nb_elements_cache c1 - 1\<rparr>"] by (auto split: if_split_asm)
    next
      case False
      then show ?thesis using Cons.IH [of "e # kept" x] Cons.prems by auto
    qed
  qed auto
  consider "c' = c" | r where "free_cache_list c = Inr (r, c')"
    using assms(1) by (auto simp: check_if_cache_is_full_def elim!: rbindE split: if_split_asm)
  then show ?thesis
  proof cases
    case 2
    then have "c_block ` set (elts c') \<subseteq> c_block ` set (elts c)" using sub [of "[]" "elts c"] by (simp add: free_cache_list_def)
    moreover have "b \<notin> c_block ` set (elts c)" using assms(3) by (auto simp: look_up_c_elt_def find_None_iff)
    ultimately have "b \<notin> c_block ` set (elts c')" by blast
    then show ?thesis by (auto simp: look_up_c_elt_def find_None_iff)
  qed (use assms(3) in simp)
qed

text \<open>An element that is fetched holds what the block held.\<close>

lemma fetch_block_keeps:
  assumes f: "fetch_block b c = Inr (eo, c')" and i: "cinv g start c" and b: "blk_ok g b" and n: "look_up_c_elt b c = None"
  shows "cinv g start c'" "\<And>b'. blk_ok g b' \<Longrightarrow> view g start c' b' = view g start c b'"
    "eo = Some e \<Longrightarrow> look_up_c_elt b c' = Some e \<and> c_data e = view g start c b \<and> c_block e = b"
proof -
  obtain c1 m c2 where c1: "check_if_cache_is_full c = Inr c1" "calloc_elt c1 = (m, c2)"
    using f by (auto simp: fetch_block_def elim!: rbindE split: prod.split_asm)
  have i1: "cinv g start c1" and v1: "\<And>b'. blk_ok g b' \<Longrightarrow> view g start c1 b' = view g start c b'"
    and n1: "look_up_c_elt b c1 = None"
    using check_full_keeps [OF c1(1) i] evict_subset [OF c1(1) i n] by blast+
  obtain ms where c2: "c2 = c1\<lparr>cmem := ms\<rparr>" using c1(2) by (auto simp: calloc_elt_def split: list.split_asm) (metis cache.surjective cache.update_convs(7))
  have i2: "cinv g start c2" and v2: "view g start c2 = view g start c1" and n2: "look_up_c_elt b c2 = None"
    using i1 n1 by (simp_all add: c2 cinv_def view_def ready_def part_start_def look_up_c_elt_def)
  obtain ok dirty usage where m: "m = (ok, dirty, usage)" by (cases m) auto
  have fs: "c_fs c2 = Some g" "part_start g c2 = Inr start" "\<not> blk_ratio g * BLOCK_SIZE > EXT2_BLOCK_SIZE" using i2 by (auto simp: cinv_def ready_def)
  define x where "x = \<lparr>c_addr = c_fresh c2, c_block = b, c_dirty = dirty, c_usage = usage, c_data = read_sectors (disk c2) start g b\<rparr>"
  define c3 where "c3 = c2\<lparr>elts := x # elts c2, nb_elements_cache := nb_elements_cache c2 + 1, c_fresh := Suc (c_fresh c2)\<rparr>"
  have r: "eo = None \<and> c' = c2 \<or> eo = Some x \<and> c' = c3"
    using f c1 fs by (auto simp: fetch_block_def m Let_def x_def c3_def split: if_split_asm)
  have nb: "b \<notin> c_block ` set (elts c2)" using n2 by (auto simp: look_up_c_elt_def find_None_iff)
  have w: "disk_wf (disk c2)" using i2 by (simp add: cinv_def linv_def)
  have "c_fresh c2 \<notin> c_addr ` set (elts c2)" using i2 by (auto simp: cinv_def)
  then have i3: "cinv g start c3"
    using i2 nb b length_read_sectors [OF w] by (auto simp: cinv_def linv_def c3_def x_def ready_def part_start_def elt_ok_def)
  have v3: "view g start c3 b' = view g start c2 b'" for b'
    using nb by (cases "b' = b") (simp_all add: view_def lview_def c3_def x_def blocks_Cons blocks_None [THEN iffD2])
  show "cinv g start c'" using r i2 i3 by blast
  show "view g start c' b' = view g start c b'" if "blk_ok g b'" for b' using r v1 [OF that] v2 v3 by auto
  show "look_up_c_elt b c' = Some e \<and> c_data e = view g start c b \<and> c_block e = b" if "eo = Some e"
  proof -
    have e: "e = x" "c' = c3" using r that by auto
    have "blocks (elts c2) b = None" using nb by (simp add: blocks_None)
    then have "view g start c2 b = read_sectors (disk c2) start g b" by (simp add: view_def lview_def)
    then show ?thesis using e v1 [OF b] v2 by (simp add: look_up_c_elt_def c3_def x_def)
  qed
qed

lemma get_elt_keeps:
  assumes f: "get_elt b c = Inr (eo, c')" and i: "cinv g start c" and b: "blk_ok g b"
  shows "cinv g start c'" "\<And>b'. blk_ok g b' \<Longrightarrow> view g start c' b' = view g start c b'"
    "eo = Some e \<Longrightarrow> look_up_c_elt b c' = Some e \<and> c_data e = view g start c b \<and> c_block e = b"
proof -
  have "cinv g start c' \<and> (\<forall>b'. blk_ok g b' \<longrightarrow> view g start c' b' = view g start c b') \<and>
    (eo = Some e \<longrightarrow> look_up_c_elt b c' = Some e \<and> c_data e = view g start c b \<and> c_block e = b)"
  proof (cases "look_up_c_elt b c")
    case None
    then show ?thesis using f fetch_block_keeps [OF _ i b None] by (simp add: get_elt_def)
  next
    case (Some x)
    then have "view g start c b = c_data x" "c_block x = b"
      using find_blockD by (auto simp: look_up_c_elt_def view_def lview_def blocks_find)
    then show ?thesis using f i Some by (auto simp: get_elt_def)
  qed
  then show "cinv g start c'" "\<And>b'. blk_ok g b' \<Longrightarrow> view g start c' b' = view g start c b'"
    "eo = Some e \<Longrightarrow> look_up_c_elt b c' = Some e \<and> c_data e = view g start c b \<and> c_block e = b" by blast+
qed

section \<open>Updating an element\<close>

lemma upd_block_split:
  assumes "find (\<lambda>e. c_block e = b) es = Some e"
  obtains xs ys where "es = xs @ e # ys" "c_block e = b" "upd_block b f es = xs @ f e # ys" "\<And>x. x \<in> set xs \<Longrightarrow> c_block x \<noteq> b"
  using assms
proof (induction es arbitrary: thesis)
  case (Cons y es)
  show ?case
  proof (cases "c_block y = b")
    case True
    then show ?thesis using Cons.prems by (intro Cons.prems(1) [of "[]" es]) auto
  next
    case False
    then have "find (\<lambda>e. c_block e = b) es = Some e" using Cons.prems(2) by simp
    then obtain xs ys where "es = xs @ e # ys" "c_block e = b" "upd_block b f es = xs @ f e # ys" "\<And>x. x \<in> set xs \<Longrightarrow> c_block x \<noteq> b"
      using Cons.IH by blast
    then show ?thesis using False by (intro Cons.prems(1) [of "y # xs" ys]) auto
  qed
qed simp

lemma find_upd_block:
  "find (\<lambda>e. c_block e = b) es = Some e \<Longrightarrow> c_block e' = b \<Longrightarrow>
    find (\<lambda>e. c_block e = b) (upd_block b (\<lambda>_. e') es) = Some e'"
  by (induction es) (auto split: if_split_asm)

lemma upd_elt_keeps:
  assumes i: "cinv g start c" and e: "look_up_c_elt b c = Some e" and d: "other_blocks g start b (disk c) d"
    and f: "c_block e' = b" "c_addr e' = c_addr e" "elt_ok g start d e'"
    and c': "c' = c\<lparr>elts := upd_block b (\<lambda>_. e') (elts c), disk := d, locked_files := n\<rparr>"
  shows "cinv g start c'" "\<And>b'. blk_ok g b' \<Longrightarrow> view g start c' b' = (if b' = b then c_data e' else view g start c b')"
    "look_up_c_elt b c' = Some e'" "frame c c'"
proof -
  obtain xs ys where s: "elts c = xs @ e # ys" "c_block e = b" "upd_block b (\<lambda>_. e') (elts c) = xs @ e' # ys" "\<And>x. x \<in> set xs \<Longrightarrow> c_block x \<noteq> b"
    using upd_block_split [OF e [unfolded look_up_c_elt_def], of "\<lambda>_. e'"] by blast
  have l: "linv g start (disk c) (xs @ e # ys)" using i s(1) by (simp add: cinv_def)
  have "linv g start d (xs @ e' # ys)" using linv_keep [OF l] s(2) d f by simp
  moreover have ec: "elts c' = xs @ e' # ys" "disk c' = d" unfolding c' using s(3) by simp_all
  moreover have "set (map c_addr (xs @ e' # ys)) = set (map c_addr (elts c))" using s(1) f(2) by simp
  ultimately show "cinv g start c'" by (intro cinv_frame [OF i]) (simp_all add: c')
  show "view g start c' b' = (if b' = b then c_data e' else view g start c b')" if "blk_ok g b'" for b'
  proof (cases "b' = b")
    case True
    have "blocks xs b = None" using s(4) by (auto simp: blocks_None)
    then show ?thesis using f(1) True by (simp add: view_def lview_def ec blocks_append blocks_Cons)
  next
    case False
    then show ?thesis using d that f(1) s(2)
      by (simp add: view_def lview_def ec s(1) blocks_append blocks_Cons other_blocks_def split: option.splits)
  qed
  have "find (\<lambda>e. c_block e = b) (xs @ zs) = find (\<lambda>e. c_block e = b) zs" for zs using s(4) by (induction xs) auto
  then show "look_up_c_elt b c' = Some e'" using f(1) by (simp add: look_up_c_elt_def ec)
  show "frame c c'" by (simp add: c')
qed

lemma upd_block_const: "find (\<lambda>e. c_block e = b) es = Some e \<Longrightarrow> upd_block b f es = upd_block b (\<lambda>_. f e) es"
  by (induction es) (auto split: if_split_asm)

text \<open>An update in memory only.\<close>

lemma upd_mem_keeps:
  assumes i: "cinv g start c" and e: "look_up_c_elt b c = Some e"
    and f: "c_block (f e) = b" "c_addr (f e) = c_addr e" "elt_ok g start (disk c) (f e)"
  shows "cinv g start (c\<lparr>elts := upd_block b f (elts c), locked_files := n\<rparr>)"
    "\<And>b'. blk_ok g b' \<Longrightarrow> view g start (c\<lparr>elts := upd_block b f (elts c), locked_files := n\<rparr>) b' = (if b' = b then c_data (f e) else view g start c b')"
    "look_up_c_elt b (c\<lparr>elts := upd_block b f (elts c), locked_files := n\<rparr>) = Some (f e)"
proof -
  have w: "disk_wf (disk c)" using i by (simp add: cinv_def linv_def)
  have c: "c\<lparr>elts := upd_block b f (elts c), locked_files := n\<rparr> = c\<lparr>elts := upd_block b (\<lambda>_. f e) (elts c), disk := disk c, locked_files := n\<rparr>"
    using upd_block_const [OF e [unfolded look_up_c_elt_def], of f] by simp
  note u = upd_elt_keeps [OF i e other_blocks_refl [OF w] f c]
  show "cinv g start (c\<lparr>elts := upd_block b f (elts c), locked_files := n\<rparr>)" by (fact u(1))
  show "\<And>b'. blk_ok g b' \<Longrightarrow> view g start (c\<lparr>elts := upd_block b f (elts c), locked_files := n\<rparr>) b' = (if b' = b then c_data (f e) else view g start c b')"
    by (fact u(2))
  show "look_up_c_elt b (c\<lparr>elts := upd_block b f (elts c), locked_files := n\<rparr>) = Some (f e)" by (fact u(3))
qed

lemma look_up_ok:
  assumes "cinv g start c" "look_up_c_elt b c = Some e"
  shows "elt_ok g start (disk c) e" "c_block e = b" "view g start c b = c_data e" "0 < c_addr e"
  using assms find_blockD [of b "elts c" e] by (auto simp: cinv_def linv_def look_up_c_elt_def view_def lview_def blocks_find)

lemma block_at_look_up:
  assumes "cinv g start c" "look_up_c_elt b c = Some e"
  shows "block_at (c_addr e) c = Inr (c_data e)"
proof -
  have "e \<in> set (elts c)" using find_blockD assms(2) by (auto simp: look_up_c_elt_def)
  then show ?thesis using assms(1) look_up_ok(4) [OF assms] find_addr [of "elts c" e]
    by (simp add: block_at_def look_up_c_elt_add_def cinv_def linv_def)
qed

section \<open>Reading and writing\<close>

lemma read_block_keeps:
  assumes r: "read_block_c b op c = Inr (a, c')" and i: "cinv g start c" and b: "blk_ok g b"
  shows "cinv g start c'" "\<And>b'. blk_ok g b' \<Longrightarrow> view g start c' b' = view g start c b'"
    "a \<noteq> 0 \<Longrightarrow> block_at a c' = Inr (view g start c b)"
proof -
  obtain eo c1 where g: "get_elt b c = Inr (eo, c1)" using r by (auto simp: read_block_c_def elim!: rbindE)
  note k = get_elt_keeps [OF g i b]
  have "cinv g start c' \<and> (\<forall>b'. blk_ok g b' \<longrightarrow> view g start c' b' = view g start c b') \<and> (a \<noteq> 0 \<longrightarrow> block_at a c' = Inr (view g start c b))"
  proof (cases eo)
    case None
    then show ?thesis using r g k by (simp add: read_block_c_def)
  next
    case (Some e)
    have e: "look_up_c_elt b c1 = Some e" "c_data e = view g start c b" "c_block e = b" using k(3) [OF Some] by simp_all
    have a: "a = c_addr e" "c' = (if op = LOCK then lock_elt e c1 else c1)" using r g Some by (auto simp: read_block_c_def)
    show ?thesis
    proof (cases "op = LOCK")
      case False
      then show ?thesis using k a e block_at_look_up [OF k(1) e(1)] by simp
    next
      case True
      let ?f = "\<lambda>e. e\<lparr>c_usage := c_usage e + 1\<rparr>"
      have ok: "elt_ok g start (disk c1) (?f e)" using look_up_ok(1) [OF k(1) e(1)] by (simp add: elt_ok_def)
      have fe: "c_block (?f e) = b" "c_addr (?f e) = c_addr e" using e(3) by simp_all
      note u = upd_mem_keeps [where f = ?f, OF k(1) e(1) fe ok, where n = "if c_usage e + 1 = 1 then locked_files c1 + 1 else locked_files c1"]
      have c': "c' = c1\<lparr>elts := upd_block b ?f (elts c1), locked_files := (if c_usage e + 1 = 1 then locked_files c1 + 1 else locked_files c1)\<rparr>"
        using a True e(3) by (simp add: lock_elt_def)
      have i': "cinv g start c'" and v': "\<And>b'. blk_ok g b' \<Longrightarrow> view g start c' b' = (if b' = b then c_data e else view g start c1 b')"
        and l': "look_up_c_elt b c' = Some (?f e)" using u e(3) unfolding c' by simp_all
      show ?thesis using i' v' e(2) k(2) block_at_look_up [OF i' l'] a(1) by simp
    qed
  qed
  then show "cinv g start c'" "\<And>b'. blk_ok g b' \<Longrightarrow> view g start c' b' = view g start c b'"
    "a \<noteq> 0 \<Longrightarrow> block_at a c' = Inr (view g start c b)" by blast+
qed

lemma write_block_keeps:
  assumes r: "write_block b (Some bs) ty op c = Inr (s, c')" and i: "cinv g start c" and b: "blk_ok g b"
    and len: "length bs \<le> unat (g_block_size g)" and got: "\<And>c1. get_elt b c \<noteq> Inr (None, c1)"
  shows "cinv g start c'" "\<And>b'. blk_ok g b' \<Longrightarrow> view g start c' b' = (if b' = b then poke 0 bs (view g start c b) else view g start c b')"
    "ty = WRITE_THROUGH \<Longrightarrow> s = 0 \<Longrightarrow> read_sectors (disk c') start g b = poke 0 bs (view g start c b)" "s = 0 \<or> s = -1"
proof -
  have fs: "c_fs c = Some g" using i by (simp add: cinv_def ready_def)
  obtain eo c1 where g: "get_elt b c = Inr (eo, c1)" using r fs len by (auto simp: write_block_def elim!: rbindE)
  then obtain e where eo: "eo = Some e" using got by (cases eo) auto
  note k = get_elt_keeps [OF g i b]
  have e: "look_up_c_elt b c1 = Some e" "c_data e = view g start c b" "c_block e = b" using k(3) [OF eo] by simp_all
  note ok = look_up_ok(1) [OF k(1) e(1)]
  have rd: "ready g start c1" using k(1) by (simp add: cinv_def)
  then have ld: "length (c_data e) = unat (g_block_size g)" using ok by (simp add: elt_ok_def ready_def)
  define e1 where "e1 = e\<lparr>c_data := poke 0 bs (c_data e), c_dirty := True, c_usage := (if op = UNLOCK then c_usage e - 1 else c_usage e)\<rparr>"
  define n where "n = (if op = UNLOCK \<and> c_usage e - 1 = 0 then locked_files c1 - 1 else locked_files c1)"
  define c2 where "c2 = c1\<lparr>elts := upd_block b (\<lambda>_. e1) (elts c1), locked_files := n\<rparr>"
  have e1: "c_block e1 = b" "c_addr e1 = c_addr e" "elt_ok g start (disk c1) e1" "c_data e1 = poke 0 bs (view g start c b)"
    using ok e ld len by (simp_all add: e1_def elt_ok_def)
  have 2: "cinv g start c2" "\<And>b'. blk_ok g b' \<Longrightarrow> view g start c2 b' = (if b' = b then c_data e1 else view g start c1 b')"
    "look_up_c_elt b c2 = Some e1"
    using upd_mem_keeps [where f = "\<lambda>_. e1" and n = n, OF k(1) e(1)] e1 by (simp_all add: c2_def)
  have c2': "c2 = c1\<lparr>elts := upd_block b (\<lambda>_. e1) (elts c1),
      locked_files := (if op = UNLOCK \<and> c_usage e = 1 then locked_files c1 - 1 else locked_files c1)\<rparr>" by (simp add: c2_def n_def)
  have r2: "(if ty = WRITE_BACK then Inr (0, c2) else rbind (sync_elt e1 c2) (\<lambda>(s, e2, c3). Inr (if s < 0 then -1 else 0, c3\<lparr>elts := upd_block b (\<lambda>_. e2) (elts c3)\<rparr>))) = Inr (s, c')"
    unfolding c2' using r fs len g eo ld by (simp add: write_block_def Let_def e1_def [symmetric] split del: if_split)
  have "cinv g start c' \<and> (\<forall>b'. blk_ok g b' \<longrightarrow> view g start c' b' = (if b' = b then poke 0 bs (view g start c b) else view g start c b')) \<and>
    (ty = WRITE_THROUGH \<longrightarrow> s = 0 \<longrightarrow> read_sectors (disk c') start g b = poke 0 bs (view g start c b)) \<and> (s = 0 \<or> s = -1)"
  proof (cases "ty = WRITE_BACK")
    case True
    then show ?thesis using r2 2 e1(4) k(2) by auto
  next
    case False
    then obtain s1 e2 c3 where y: "sync_elt e1 c2 = Inr (s1, e2, c3)" "s = (if s1 < 0 then -1 else 0)" "c' = c3\<lparr>elts := upd_block b (\<lambda>_. e2) (elts c3)\<rparr>"
      using r2 by (auto elim!: rbindE)
    have dirty: "c_dirty e1" by (simp add: e1_def)
    have rd2: "ready g start c2" "disk_wf (disk c2)" using 2(1) by (simp_all add: cinv_def linv_def)
    obtain d where d: "c3 = c2\<lparr>disk := d\<rparr>" "other_blocks g start b (disk c2) d" "s1 = 0 \<or> s1 = -1"
      "s1 = 0 \<Longrightarrow> e2 = e1\<lparr>c_dirty := False\<rparr> \<and> read_sectors d start g b = c_data e1" "s1 \<noteq> 0 \<Longrightarrow> e2 = e1" "elt_ok g start d e2"
      by (rule sync_elt_other [OF rd2(1) y(1) rd2(2) look_up_ok(1) [OF 2(1,3)]]) (rule that, use e1(1) dirty in auto)
    have e2: "c_block e2 = b" "c_addr e2 = c_addr e1" "c_data e2 = c_data e1" using d(4,5) e1(1) by (cases "s1 = 0"; simp)+
    have c': "c' = c2\<lparr>elts := upd_block b (\<lambda>_. e2) (elts c2), disk := d, locked_files := locked_files c2\<rparr>" using y(3) d(1) by simp
    note u = upd_elt_keeps [OF 2(1,3) d(2) e2(1,2) d(6) c']
    have "s = 0 \<longleftrightarrow> s1 = 0" using y(2) d(3) by auto
    then show ?thesis using u(1,2) e2(3) 2(2) k(2) e1(4) d(4) y(2) by (auto simp: c')
  qed
  then show "cinv g start c'" "\<And>b'. blk_ok g b' \<Longrightarrow> view g start c' b' = (if b' = b then poke 0 bs (view g start c b) else view g start c b')"
    "ty = WRITE_THROUGH \<Longrightarrow> s = 0 \<Longrightarrow> read_sectors (disk c') start g b = poke 0 bs (view g start c b)" "s = 0 \<or> s = -1" by blast+
qed

end
