(* ===== verification/MbrProps.thy ===== *)
theory MbrProps
  imports Mbr
begin

text \<open>
  Properties of the partition table: the free segments are free, a new partition overlaps no other,
  the boot record survives a save, and the two ways in which these fail.
\<close>

section \<open>Free segments\<close>

definition apart :: "segment \<Rightarrow> segment \<Rightarrow> bool" where
  "apart f s \<longleftrightarrow> unat (snd f) < unat (fst s) \<or> unat (snd s) < unat (fst f)"

text \<open>The ends of the segments in order, and none at the end of the address space.\<close>

definition ends_ok :: "segment list \<Rightarrow> bool" where
  "ends_ok occ \<longleftrightarrow> sorted (map fst occ) \<and> sorted (map snd occ) \<and> (\<forall>s \<in> set occ. unat (snd s) < 4294967295)"

lemma unat_minus_1: "(a :: u32) \<noteq> 0 \<Longrightarrow> unat (a - 1) = unat a - 1"
  by (simp add: unat_minus_one)

lemma unat_plus_1: "unat (b :: u32) < 4294967295 \<Longrightarrow> unat (b + 1) = Suc (unat b)"
  by (simp add: unat_word_ariths)

lemma free_loop_sound:
  assumes "free_loop cap start occ free = Inr (start', free')" "ends_ok occ"
    "\<forall>p \<in> P. unat (snd p) < unat start \<and> (\<forall>q \<in> set occ. unat (snd p) \<le> unat (snd q))"
    "\<forall>f \<in> set free. fst f \<le> snd f \<and> unat (snd f) < N \<and> (\<forall>p \<in> P \<union> set occ. apart f p)"
    "\<forall>q \<in> set occ. unat (fst q) \<le> N"
  shows "(\<forall>f \<in> set free'. fst f \<le> snd f \<and> unat (snd f) < N \<and> (\<forall>p \<in> P \<union> set occ. apart f p)) \<and>
    (\<forall>p \<in> P \<union> set occ. unat (snd p) < unat start')"
  using assms
proof (induction occ arbitrary: start free P)
  case (Cons s occ)
  have e: "ends_ok occ" "\<forall>q \<in> set occ. unat (fst s) \<le> unat (fst q) \<and> unat (snd s) \<le> unat (snd q)" "unat (snd s) < 4294967295"
    using Cons.prems(2) by (auto simp: ends_ok_def word_le_nat_alt)
  obtain free1 where f1: "(if start < fst s then push_segment cap (start, fst s - 1) free else Inr free) = Inr free1"
    and r: "free_loop cap (snd s + 1) occ free1 = Inr (start', free')" using Cons.prems(1) by (auto elim!: rbindE)
  have new: "fst f \<le> snd f \<and> unat (snd f) < N \<and> (\<forall>p \<in> insert s P \<union> set occ. apart f p)" if "f \<in> set free1" for f
  proof (cases "f \<in> set free")
    case True
    then show ?thesis using Cons.prems(4) by auto
  next
    case False
    then have f: "f = (start, fst s - 1)" and lt: "start < fst s"
      using f1 that by (auto simp: push_segment_def split: if_split_asm)
    have nz: "fst s \<noteq> 0" using lt by (auto simp: word_less_nat_alt)
    then have u: "unat (snd f) = unat (fst s) - 1" "0 < unat (fst s)" using f by (simp_all add: unat_minus_1 unat_gt_0)
    have "apart f p" if "p \<in> insert s P \<union> set occ" for p
      using that u e(2) Cons.prems(3) f by (auto simp: apart_def)
    moreover have "fst f \<le> snd f" using f lt u by (simp add: word_le_nat_alt word_less_nat_alt)
    moreover have "unat (snd f) < N" using u Cons.prems(5) by auto
    ultimately show ?thesis by blast
  qed
  have "\<forall>p \<in> insert s P. unat (snd p) < unat (snd s + 1) \<and> (\<forall>q \<in> set occ. unat (snd p) \<le> unat (snd q))"
    using e Cons.prems(3) by (auto simp: unat_plus_1 less_Suc_eq_le)
  moreover have "\<forall>f \<in> set free1. fst f \<le> snd f \<and> unat (snd f) < N \<and> (\<forall>p \<in> insert s P \<union> set occ. apart f p)" using new by blast
  moreover have "\<forall>q \<in> set occ. unat (fst q) \<le> N" using Cons.prems(5) by simp
  ultimately have "(\<forall>f \<in> set free'. fst f \<le> snd f \<and> unat (snd f) < N \<and> (\<forall>p \<in> insert s P \<union> set occ. apart f p)) \<and>
    (\<forall>p \<in> insert s P \<union> set occ. unat (snd p) < unat start')"
    using Cons.IH [OF r e(1)] by blast
  then show ?case by auto
qed auto

lemma find_free_space_sound:
  assumes r: "find_free_space occ n = Inr free" and e: "ends_ok (sort_segments occ)" and n: "\<forall>q \<in> set occ. unat (fst q) \<le> unat n"
    and f: "f \<in> set free"
  shows "fst f \<le> snd f \<and> unat (snd f) < unat n \<and> (\<forall>p \<in> set occ. apart f p)"
proof -
  have so: "set (sort_segments occ) = set occ" by (simp add: sort_segments_sort)
  obtain start fr where l: "free_loop (length occ) 0 (sort_segments occ) [] = Inr (start, fr)"
    and r': "(if start < n then push_segment (length occ) (start, n - 1) fr else Inr fr) = Inr free"
    using r by (auto simp: find_free_space_def elim!: rbindE)
  have s: "\<forall>f \<in> set fr. fst f \<le> snd f \<and> unat (snd f) < unat n \<and> (\<forall>p \<in> set occ. apart f p)" "\<forall>p \<in> set occ. unat (snd p) < unat start"
    using free_loop_sound [OF l e, of "{}" "unat n"] n by (simp_all add: so)
  show ?thesis
  proof (cases "f \<in> set fr")
    case False
    then have f': "f = (start, n - 1)" and lt: "start < n" using r' f by (auto simp: push_segment_def split: if_split_asm)
    have "n \<noteq> 0" using lt by (auto simp: word_less_nat_alt)
    then have u: "unat (n - 1) = unat n - 1" "0 < unat n" by (simp_all add: unat_minus_1 unat_gt_0)
    have "start \<le> n - 1" using lt u by (simp add: word_le_nat_alt word_less_nat_alt)
    then show ?thesis using s(2) u f' by (auto simp: apart_def)
  qed (use s in blast)
qed

section \<open>The partition table\<close>

definition part_end :: "partition_entry \<Rightarrow> nat" where
  "part_end p = unat (startLBA p) + unat (sizeLBA p)"

definition entry_ok :: "u32 \<Rightarrow> partition_entry \<Rightarrow> bool" where
  "entry_ok n p \<longleftrightarrow> (pt_status p \<noteq> 0 \<longrightarrow> 0 < unat (startLBA p) \<and> 0 < unat (sizeLBA p) \<and> part_end p \<le> unat n)"

definition table_ok :: "u32 \<Rightarrow> partition_entry list \<Rightarrow> bool" where
  "table_ok n ps \<longleftrightarrow> (\<forall>p \<in> set ps. entry_ok n p) \<and>
     (\<forall>i < length ps. \<forall>j < length ps. i \<noteq> j \<longrightarrow> pt_status (ps ! i) \<noteq> 0 \<longrightarrow> pt_status (ps ! j) \<noteq> 0 \<longrightarrow>
        part_end (ps ! i) \<le> unat (startLBA (ps ! j)) \<or> part_end (ps ! j) \<le> unat (startLBA (ps ! i)))"

definition seg :: "partition_entry \<Rightarrow> segment" where
  "seg p = (if pt_status p \<noteq> 0 then (startLBA p, startLBA p + sizeLBA p) else (0, 0))"

lemma occupied_seg: "find_occupied_space (Some m) = Some (map seg (partitionTable m))"
  by (simp add: find_occupied_space_def seg_def [abs_def])

lemma seg_end:
  assumes "entry_ok n p" "pt_status p \<noteq> 0"
  shows "unat (snd (seg p)) = part_end p"
proof -
  have "unat (startLBA p) + unat (sizeLBA p) < 2 ^ LENGTH(32)"
    using assms unsigned_less [of n, where 'a = nat] by (auto simp: entry_ok_def part_end_def)
  then show ?thesis using assms by (simp add: seg_def part_end_def unat_word_ariths)
qed

lemma seg_order:
  assumes t: "table_ok n ps" and i: "i < length ps" "j < length ps" and le: "fst (seg (ps ! i)) < fst (seg (ps ! j))"
  shows "snd (seg (ps ! i)) \<le> snd (seg (ps ! j))"
proof (cases "pt_status (ps ! i) = 0")
  case False
  have nj: "pt_status (ps ! j) \<noteq> 0" using le by (auto simp: seg_def split: if_split_asm)
  have e: "entry_ok n (ps ! i)" "entry_ok n (ps ! j)" using t i by (auto simp: table_ok_def)
  have "part_end (ps ! i) \<le> unat (startLBA (ps ! j)) \<or> part_end (ps ! j) \<le> unat (startLBA (ps ! i))"
    using t i False nj le by (auto simp: table_ok_def)
  then have "part_end (ps ! i) \<le> part_end (ps ! j)"
    using le False nj by (auto simp: seg_def part_end_def word_less_nat_alt)
  then show ?thesis using seg_end [OF e(1) False] seg_end [OF e(2) nj] by (simp add: word_le_nat_alt)
qed (simp add: seg_def)

lemma seg_same:
  assumes t: "table_ok n ps" and i: "i < length ps" "j < length ps" and eq: "fst (seg (ps ! i)) = fst (seg (ps ! j))"
  shows "seg (ps ! i) = seg (ps ! j)"
proof -
  have e: "entry_ok n (ps ! i)" "entry_ok n (ps ! j)" using t i by (auto simp: table_ok_def)
  show ?thesis
  proof (cases "i = j")
    case False
    have "pt_status (ps ! i) = 0 \<and> pt_status (ps ! j) = 0"
    proof (rule ccontr)
      assume a: "\<not> (pt_status (ps ! i) = 0 \<and> pt_status (ps ! j) = 0)"
      then have b: "pt_status (ps ! i) \<noteq> 0" "pt_status (ps ! j) \<noteq> 0"
        using e eq by (auto simp: seg_def entry_ok_def split: if_split_asm)
      then have s: "startLBA (ps ! i) = startLBA (ps ! j)" using eq by (simp add: seg_def)
      have "part_end (ps ! i) \<le> unat (startLBA (ps ! j)) \<or> part_end (ps ! j) \<le> unat (startLBA (ps ! i))"
        using t i b False by (auto simp: table_ok_def)
      then show False using s b e by (auto simp: part_end_def entry_ok_def)
    qed
    then show ?thesis by (simp add: seg_def)
  qed simp
qed

lemma ends_ok_table:
  assumes t: "table_ok n ps" and n: "n < 4294967295"
  shows "ends_ok (sort_segments (map seg ps))"
proof -
  let ?s = "sort_segments (map seg ps)"
  have srt: "sorted (map fst ?s)" by (simp add: sort_segments_sort)
  have st: "set ?s = seg ` set ps" by (simp add: sort_segments_sort)
  have "snd (?s ! i) \<le> snd (?s ! j)" if ij: "i \<le> j" "j < length ?s" for i j
  proof -
    have "?s ! i \<in> set ?s" "?s ! j \<in> set ?s" using ij by simp_all
    then obtain a b where ab: "a < length ps" "?s ! i = seg (ps ! a)" "b < length ps" "?s ! j = seg (ps ! b)"
      unfolding st by (auto simp: in_set_conv_nth image_iff)
    have "fst (?s ! i) \<le> fst (?s ! j)" using srt ij by (auto simp: sorted_iff_nth_mono)
    then show ?thesis using seg_order [OF t ab(1,3)] seg_same [OF t ab(1,3)] ab by (cases "fst (?s ! i) = fst (?s ! j)") auto
  qed
  then have "sorted (map snd ?s)" by (auto simp: sorted_iff_nth_mono)
  moreover have "unat (snd s) < 4294967295" if sm: "s \<in> set ?s" for s
  proof -
    obtain p where p: "s = seg p" "p \<in> set ps" using sm unfolding st by (rule imageE)
    have "entry_ok n p" using t p(2) by (simp add: table_ok_def)
    then show ?thesis using seg_end [of n p] p(1) n
      by (cases "pt_status p = 0") (auto simp: seg_def entry_ok_def word_less_nat_alt)
  qed
  ultimately show ?thesis using srt by (simp add: ends_ok_def)
qed

section \<open>Creating a partition\<close>

lemma empty_partition_spec:
  "empty_partition ps n \<noteq> -1 \<Longrightarrow> \<exists>i < length ps. empty_partition ps n = int (n + i) \<and> pt_status (ps ! i) = 0"
proof (induction ps arbitrary: n)
  case (Cons p ps)
  show ?case
  proof (cases "pt_status p = 0")
    case False
    then obtain i where "i < length ps" "empty_partition ps (Suc n) = int (Suc n + i)" "pt_status (ps ! i) = 0"
      using Cons.IH [of "Suc n"] Cons.prems by auto
    then show ?thesis using False by (intro exI [of _ "Suc i"]) simp
  qed auto
qed simp

lemma create_partition_ok:
  assumes t: "table_ok (disk_size d) (partitionTable m)" and n: "disk_size d < 4294967295"
    and r: "create_partition start sz ty (Some m) d = Inr (res, mo', d')"
    and w: "0 < sz" "unat start + unat sz < 4294967296" and room: "find_free_space (map seg (partitionTable m)) (disk_size d) \<noteq> Inr []"
  shows "\<exists>m'. mo' = Some m' \<and> table_ok (disk_size d) (partitionTable m') \<and> (res \<noteq> 0 \<longrightarrow> m' = m)"
proof (cases "mo' = Some m \<and> res = -1")
  case True
  then show ?thesis using t by simp
next
  case False
  let ?n = "disk_size d" and ?ps = "partitionTable m"
  define i where "i = empty_partition ?ps 0"
  obtain free where i: "i \<noteq> -1" and f: "find_free_space (map seg ?ps) ?n = Inr free" "is_segment_in_free_space start sz free"
    and e: "mo' = Some (m\<lparr>partitionTable := ?ps[nat i := (?ps ! nat i)\<lparr>pt_status := ACTIVE_PARTITION, pt_type := ty, startLBA := start, sizeLBA := sz\<rparr>]\<rparr>)"
      "res = 0"
    using r False
    by (auto simp: create_partition_def free_space_def occupied_seg Let_def i_def [symmetric] elim!: rbindE split: if_split_asm)
  obtain j where j: "j < length ?ps" "nat i = j" "pt_status (?ps ! j) = 0"
    using empty_partition_spec [of ?ps 0] i by (auto simp: i_def)
  have "free \<noteq> []" using room f(1) by auto
  then obtain a b where ab: "(a, b) \<in> set free" "a \<le> start" "start + sz - 1 \<le> b"
    using f(2) by (auto simp: is_segment_in_free_space_def list_ex_iff)
  have nq: "unat (fst q) \<le> unat ?n" if "q \<in> set (map seg ?ps)" for q
    using that t by (auto simp: seg_def table_ok_def entry_ok_def part_end_def)
  have s: "a \<le> b" "unat b < unat ?n" "\<forall>p \<in> set ?ps. apart (a, b) (seg p)"
    using find_free_space_sound [OF f(1) ends_ok_table [OF t n] _ ab(1)] nq by auto
  have z: "0 < unat sz" using w(1) by (simp add: word_less_nat_alt)
  have l: "unat (start + sz) = unat start + unat sz" using w(2) by (simp add: unat_word_ariths)
  then have "start + sz \<noteq> 0" using z by (metis add_is_0 less_irrefl unat_0)
  then have last: "unat start + unat sz - 1 \<le> unat b" using ab(3) l by (simp add: word_le_nat_alt unat_minus_1)
  have ua: "unat a \<le> unat start" using ab(2) by (simp add: word_le_nat_alt)
  have "seg (?ps ! j) = (0, 0)" using j by (simp add: seg_def)
  moreover have "apart (a, b) (seg (?ps ! j))" using s(3) j(1) by simp
  ultimately have pos: "0 < unat start" using ua by (simp add: apart_def)
  define p' where "p' = (?ps ! j)\<lparr>pt_status := ACTIVE_PARTITION, pt_type := ty, startLBA := start, sizeLBA := sz\<rparr>"
  have pe: "part_end p' = unat start + unat sz" "startLBA p' = start" by (simp_all add: p'_def part_end_def)
  have "unat start + unat sz \<le> unat ?n" using last s(2) z by linarith
  moreover have "unat (sizeLBA p') = unat sz" by (simp add: p'_def)
  ultimately have ok: "entry_ok ?n p'" using pos z by (simp add: entry_ok_def pe)
  have sep: "part_end p' \<le> unat (startLBA p) \<or> part_end p \<le> unat (startLBA p')" if p: "p \<in> set ?ps" "pt_status p \<noteq> 0" for p
  proof -
    have "entry_ok ?n p" using t p by (simp add: table_ok_def)
    then have "unat (snd (seg p)) = part_end p" using p(2) by (rule seg_end)
    moreover have "fst (seg p) = startLBA p" using p(2) by (simp add: seg_def)
    ultimately have "unat b < unat (startLBA p) \<or> part_end p < unat a" using s(3) p(1) by (auto simp: apart_def)
    then show ?thesis using last ua z by (auto simp: pe)
  qed
  have "table_ok ?n (?ps[j := p'])"
    unfolding table_ok_def
  proof (intro conjI ballI allI impI)
    fix p
    assume "p \<in> set (?ps[j := p'])"
    then have "p = p' \<or> p \<in> set ?ps" using set_update_subset_insert by fastforce
    then show "entry_ok ?n p" using ok t by (auto simp: table_ok_def)
  next
    fix x y
    assume h: "x < length (?ps[j := p'])" "y < length (?ps[j := p'])" "x \<noteq> y" "pt_status (?ps[j := p'] ! x) \<noteq> 0" "pt_status (?ps[j := p'] ! y) \<noteq> 0"
    consider "x = j" | "y = j" | "x \<noteq> j" "y \<noteq> j" by blast
    then show "part_end (?ps[j := p'] ! x) \<le> unat (startLBA (?ps[j := p'] ! y)) \<or> part_end (?ps[j := p'] ! y) \<le> unat (startLBA (?ps[j := p'] ! x))"
    proof cases
      case 1
      then show ?thesis using h j sep [of "?ps ! y"] by simp
    next
      case 2
      then show ?thesis using h j sep [of "?ps ! x"] by auto
    next
      case 3
      then show ?thesis using h t by (simp add: table_ok_def)
    qed
  qed
  then show ?thesis using e j(2) by (simp add: p'_def)
qed

section \<open>The boot record in memory\<close>

definition mbr_wf :: "mbr_t \<Rightarrow> bool" where
  "mbr_wf m \<longleftrightarrow> length (bootstrapCode m) = 446 \<and> length (partitionTable m) = NB_PARTITIONS \<and>
     (\<forall>p \<in> set (partitionTable m). length (pt_startCHS p) = 3 \<and> length (pt_endCHS p) = 3)"

lemma entry_roundtrip:
  assumes "length (pt_startCHS p) = 3" "length (pt_endCHS p) = 3"
  shows "length (entry_bytes p) = 16" "bytes_entry (entry_bytes p) = p"
proof -
  show "length (entry_bytes p) = 16" using assms by (simp add: entry_bytes_def)
  have "get32 8 (entry_bytes p) = startLBA p"
    using get_put(2) [of "[pt_status p] @ pt_startCHS p @ [pt_type p] @ pt_endCHS p" 8 "startLBA p" "put32 (sizeLBA p)"] assms
    by (simp add: entry_bytes_def)
  moreover have "get32 12 (entry_bytes p) = sizeLBA p"
    using get_put(2) [of "[pt_status p] @ pt_startCHS p @ [pt_type p] @ pt_endCHS p @ put32 (startLBA p)" 12 "sizeLBA p" "[]"] assms
    by (simp add: entry_bytes_def)
  ultimately show "bytes_entry (entry_bytes p) = p"
    using assms by (simp add: bytes_entry_def) (simp add: entry_bytes_def peek_def nth_Cons' nth_append)
qed

lemma mbr_roundtrip:
  assumes "mbr_wf m"
  shows "length (mbr_bytes m) = 512" "bytes_mbr (mbr_bytes m) = m"
proof -
  have "length (partitionTable m) = Suc (Suc (Suc (Suc 0)))" using assms by (simp add: mbr_wf_def NB_PARTITIONS_def)
  then obtain a b c d where t: "partitionTable m = [a, b, c, d]" by (auto simp: length_Suc_conv)
  have w: "length (pt_startCHS p) = 3 \<and> length (pt_endCHS p) = 3" if "p \<in> {a, b, c, d}" for p
    using assms that by (auto simp: mbr_wf_def t)
  have l: "length (entry_bytes a) = 16" "length (entry_bytes b) = 16" "length (entry_bytes c) = 16" "length (entry_bytes d) = 16"
    using w by (simp_all add: entry_roundtrip)
  have lb: "length (bootstrapCode m) = 446" using assms by (simp add: mbr_wf_def)
  show "length (mbr_bytes m) = 512" using l lb by (simp add: mbr_bytes_def t)
  have "get16 510 (mbr_bytes m) = mbr_signature m"
    using get_put(1) [of "bootstrapCode m @ concat (map entry_bytes (partitionTable m))" 510 "mbr_signature m" "[]"] l lb
    by (simp add: mbr_bytes_def t)
  moreover have "peek 0 446 (mbr_bytes m) = bootstrapCode m" using lb by (simp add: peek_def mbr_bytes_def)
  moreover have "peek 446 16 (mbr_bytes m) = entry_bytes a" "peek 462 16 (mbr_bytes m) = entry_bytes b"
    "peek 478 16 (mbr_bytes m) = entry_bytes c" "peek 494 16 (mbr_bytes m) = entry_bytes d"
    using l lb by (simp_all add: peek_def mbr_bytes_def t)
  moreover have "[0 ..< NB_PARTITIONS] = [0, 1, 2, 3]" by (simp add: NB_PARTITIONS_def upt_conv_Cons)
  moreover have "bytes_entry (entry_bytes p) = p" if "p \<in> {a, b, c, d}" for p using w [OF that] by (simp add: entry_roundtrip)
  ultimately have "bootstrapCode (bytes_mbr (mbr_bytes m)) = bootstrapCode m" "mbr_signature (bytes_mbr (mbr_bytes m)) = mbr_signature m"
    "partitionTable (bytes_mbr (mbr_bytes m)) = partitionTable m"
    by (simp_all add: bytes_mbr_def t)
  then show "bytes_mbr (mbr_bytes m) = m" by simp
qed

section \<open>Concrete tables\<close>

definition part :: "byte \<Rightarrow> u32 \<Rightarrow> u32 \<Rightarrow> partition_entry" where
  "part st a n = \<lparr>pt_status = st, pt_startCHS = [0, 0, 0], pt_type = 0x83, pt_endCHS = [0, 0, 0], startLBA = a, sizeLBA = n\<rparr>"

definition mbr_of :: "partition_entry list \<Rightarrow> mbr_t" where
  "mbr_of ps = \<lparr>bootstrapCode = replicate 446 0, partitionTable = ps, mbr_signature = MBR_SIGNATURE\<rparr>"

definition test_table :: "partition_entry list" where
  "test_table = [part 0x80 2 25000, part 0 0 0, part 0 0 0, part 0 0 0]"

definition disk40000 :: disk_t where
  "disk40000 = \<lparr>sectors = (\<lambda>_. replicate 512 0), write_results = [], disk_size = 40000\<rparr>"

lemma part_simps [simp]: "pt_status (part s a n) = s" "startLBA (part s a n) = a" "sizeLBA (part s a n) = n"
  by (simp_all add: part_def)

lemma test_table_ok: "table_ok (disk_size disk40000) test_table"
  unfolding table_ok_def
proof (intro conjI allI impI)
  fix i j
  assume "i < length test_table" "j < length test_table" "i \<noteq> j" "pt_status (test_table ! i) \<noteq> 0" "pt_status (test_table ! j) \<noteq> 0"
  then show "part_end (test_table ! i) \<le> unat (startLBA (test_table ! j)) \<or> part_end (test_table ! j) \<le> unat (startLBA (test_table ! i))"
    by (cases i; cases j) (simp_all add: test_table_def nth_Cons' split: if_split_asm)
qed (simp add: test_table_def entry_ok_def part_end_def disk40000_def)

lemma test_table_segments: "sort_segments (map seg test_table) = [(0, 0), (0, 0), (0, 0), (2, 25002)]"
  by (simp add: sort_segments_sort test_table_def seg_def)

lemma test_table_free: "find_free_space (map seg test_table) (disk_size disk40000) = Inr [(1, 1), (25003, 39999)]"
  unfolding find_free_space_def test_table_segments
  by (simp add: push_segment_def disk40000_def test_table_def)

lemma test_table_create: "\<exists>m' d'. create_partition 30000 500 EXT2_PARTITION (Some (mbr_of test_table)) disk40000 = Inr (0, Some m', d')"
  using test_table_free
  by (simp add: create_partition_def free_space_def mbr_of_def occupied_seg Let_def is_segment_in_free_space_def
      MIN_EXT2_SIZE_def disk40000_def) (simp add: test_table_def)

text \<open>Without a free segment every request is granted: the early return of -1 is \<open>True\<close>.\<close>

lemma full_disk_grants:
  assumes "find_free_space (map seg (partitionTable m)) n = Inr []" "start + sz \<le> n"
  shows "free_space (Some m) n start sz = Inr True"
  using assms by (simp add: free_space_def occupied_seg is_segment_in_free_space_def)

text \<open>
  Four active partitions with gaps before them and after them have five free segments, one more
  than the array of \<^verbatim>\<open>find_free_space\<close> holds (the printing of the partitions calls it so).
\<close>

lemma four_gaps_overflow:
  "find_free_space (map seg [part 0x80 2 10, part 0x80 20 10, part 0x80 40 10, part 0x80 60 10]) 1000 = Inl Out_of_bounds"
  by (simp add: find_free_space_def sort_segments_sort seg_def push_segment_def)

section \<open>Properties\<close>

text \<open>
  C9. Partitions never overlap: with a disk below \<^verbatim>\<open>0xffffffff\<close> sectors and a segment left free, a
  creation whose end does not wrap keeps every active partition inside the disk and apart from
  the others; a creation that fails changes nothing.
\<close>

theorem create_keeps_partitions_apart:
  assumes "table_ok (disk_size d) (partitionTable m)" "disk_size d < 4294967295"
    "create_partition start sz ty (Some m) d = Inr (res, mo', d')" "0 < sz" "unat start + unat sz < 4294967296"
    "find_free_space (map seg (partitionTable m)) (disk_size d) \<noteq> Inr []"
  shows "\<exists>m'. mo' = Some m' \<and> table_ok (disk_size d) (partitionTable m') \<and> (res \<noteq> 0 \<longrightarrow> m' = m)"
  using assms by (rule create_partition_ok)

theorem create_keeps_partitions_apart_witness:
  "\<exists>m' d'. create_partition 30000 500 EXT2_PARTITION (Some (mbr_of test_table)) disk40000 = Inr (0, Some m', d') \<and>
     table_ok 40000 (partitionTable m')"
proof -
  obtain m' d' where c: "create_partition 30000 500 EXT2_PARTITION (Some (mbr_of test_table)) disk40000 = Inr (0, Some m', d')"
    using test_table_create by blast
  have "table_ok (disk_size disk40000) (partitionTable (mbr_of test_table))" using test_table_ok by (simp add: mbr_of_def)
  moreover have "find_free_space (map seg (partitionTable (mbr_of test_table))) (disk_size disk40000) \<noteq> Inr []"
    using test_table_free by (simp add: mbr_of_def)
  ultimately have "table_ok (disk_size disk40000) (partitionTable m')"
    using create_keeps_partitions_apart [OF _ _ c] by (simp add: disk40000_def)
  then show ?thesis using c by (simp add: disk40000_def)
qed

text \<open>
  The two nested loops that order the occupied segments compute the stable sort by start.
\<close>

theorem segment_loops_sort: "sort_segments xs = sort_key fst xs"
  by (rule sort_segments_sort)

text \<open>
  C35. A boot record that is saved is found again: the partition table of the disk is the one of
  memory, byte by byte of the packed structure.
\<close>

theorem boot_record_roundtrip:
  assumes "mbr_wf m" "mbr_signature m = MBR_SIGNATURE" "save_global_mbr (Some m) d = (0, d')"
  shows "find_mbr d' = (0, Some m)"
proof -
  have "sectors d' MBR_BLOCK = mbr_bytes m"
    using assms(3) write_disk_sectors(1) [of MBR_BLOCK "mbr_bytes m" d]
    by (cases "write_disk MBR_BLOCK (mbr_bytes m) d") (auto simp: save_global_mbr_def split: if_split_asm)
  moreover have "get16 510 (mbr_bytes m) = mbr_signature (bytes_mbr (mbr_bytes m))" by (simp add: bytes_mbr_def)
  ultimately show ?thesis using mbr_roundtrip(2) [OF assms(1)] assms(2) by (simp add: find_mbr_def read_disk_def Let_def)
qed

theorem boot_record_roundtrip_witness:
  "\<exists>d'. save_global_mbr (Some (mbr_of test_table)) disk40000 = (0, d') \<and> find_mbr d' = (0, Some (mbr_of test_table))"
proof -
  obtain d' where "save_global_mbr (Some (mbr_of test_table)) disk40000 = (0, d')"
    by (simp add: save_global_mbr_def write_disk_def disk40000_def)
  moreover from this have "find_mbr d' = (0, Some (mbr_of test_table))"
    by (rule boot_record_roundtrip [rotated -1]) (simp_all add: mbr_wf_def mbr_of_def test_table_def part_def NB_PARTITIONS_def)
  ultimately show ?thesis by blast
qed

text \<open>
  The bound checks of \<^verbatim>\<open>create_partition\<close> wrap: a request for 33 sectors from \<open>2^32 - 16\<close> is
  granted whenever sector 16 is in a free segment and the disk has 17 sectors, so the partition
  lies outside the disk.
\<close>

theorem create_partition_wraps:
  assumes "find_free_space (map seg (partitionTable m)) n = Inr free" "(a, b) \<in> set free" "a \<le> 16" "16 \<le> b" "17 \<le> n"
  shows "free_space (Some m) n 0xFFFFFFF0 33 = Inr True"
proof -
  have w: "(0xFFFFFFF0 :: u32) + 33 - 1 = 16" "(0xFFFFFFF0 :: u32) + 33 = 17" by (simp_all add: word_uint_eq_iff)
  have "a \<le> 0xFFFFFFF0" using assms(3) by (rule order_trans) simp
  then have "list_ex (\<lambda>(f, g). (0xFFFFFFF0 :: u32) \<ge> f \<and> 0xFFFFFFF0 + 33 - 1 \<le> g) free"
    using assms(2,4) unfolding w by (auto simp: list_ex_iff)
  then show ?thesis using assms(1,5) unfolding free_space_def is_segment_in_free_space_def w
    by (simp add: occupied_seg not_less [symmetric] del: not_less)
qed

theorem create_partition_wraps_witness:
  "free_space (Some (mbr_of [part 0x80 100 50, part 0 0 0])) 1000 0xFFFFFFF0 33 = Inr True"
proof -
  have "sort_segments (map seg [part 0x80 100 50, part 0 0 0]) = [(0, 0), (100, 150)]" by (simp add: sort_segments_sort seg_def)
  then have "find_free_space (map seg (partitionTable (mbr_of [part 0x80 100 50, part 0 0 0]))) 1000 = Inr [(1, 99), (151, 999)]"
    by (simp add: find_free_space_def mbr_of_def push_segment_def)
  then show ?thesis by (rule create_partition_wraps [where a = 1 and b = 99]) simp_all
qed

end
