(* ===== verification/CacheProps.thy ===== *)
theory CacheProps
  imports CacheInv MbrProps
begin

text \<open>
  Properties of the block cache: any run of its operations behaves as the array of blocks, a
  complete save makes the disk hold that array, and an unlock too many pins a block.
\<close>

section \<open>Releasing and marking\<close>

lemma unlock_keeps:
  assumes u: "unlock_cache b c = (r, c')" and i: "cinv g start c"
  shows "cinv g start c'" "\<And>b'. blk_ok g b' \<Longrightarrow> view g start c' b' = view g start c b'"
proof -
  have "cinv g start c' \<and> (\<forall>b'. blk_ok g b' \<longrightarrow> view g start c' b' = view g start c b')"
  proof (cases "look_up_c_elt b c")
    case None
    then show ?thesis using u i by (simp add: unlock_cache_def)
  next
    case (Some e)
    show ?thesis
    proof (cases "c_usage e > 0")
      case True
      let ?f = "\<lambda>e. e\<lparr>c_usage := c_usage e - 1\<rparr>"
      define n where "n = (if c_usage e - 1 = 0 then locked_files c - 1 else locked_files c)"
      have c': "c' = c\<lparr>elts := upd_block b ?f (elts c), locked_files := n\<rparr>"
        using u Some True by (simp add: unlock_cache_def release_elt_def n_def)
      have fe: "c_block (?f e) = b" "c_addr (?f e) = c_addr e" "elt_ok g start (disk c) (?f e)"
        using look_up_ok(1,2) [OF i Some] by (simp_all add: elt_ok_def)
      note k = upd_mem_keeps [where f = ?f, OF i Some fe, where n = n]
      show ?thesis using k(1,2) look_up_ok(3) [OF i Some] unfolding c' by simp
    qed (use u i Some in \<open>simp add: unlock_cache_def release_elt_def\<close>)
  qed
  then show "cinv g start c'" "\<And>b'. blk_ok g b' \<Longrightarrow> view g start c' b' = view g start c b'" by blast+
qed

lemma set_dirty_keeps:
  assumes u: "set_dirty_block b c = (r, c')" and i: "cinv g start c"
  shows "cinv g start c'" "\<And>b'. blk_ok g b' \<Longrightarrow> view g start c' b' = view g start c b'"
proof -
  have "cinv g start c' \<and> (\<forall>b'. blk_ok g b' \<longrightarrow> view g start c' b' = view g start c b')"
  proof (cases "look_up_c_elt b c")
    case None
    then show ?thesis using u i by (auto simp: set_dirty_block_def split: if_split_asm)
  next
    case (Some e)
    let ?f = "\<lambda>e. e\<lparr>c_dirty := True\<rparr>"
    have c': "c' = c\<lparr>elts := upd_block b ?f (elts c), locked_files := locked_files c\<rparr>"
      using u Some by (auto simp: set_dirty_block_def look_up_c_elt_def split: if_split_asm)
    have fe: "c_block (?f e) = b" "c_addr (?f e) = c_addr e" "elt_ok g start (disk c) (?f e)"
      using look_up_ok(1,2) [OF i Some] by (simp_all add: elt_ok_def)
    note k = upd_mem_keeps [where f = ?f, OF i Some fe, where n = "locked_files c"]
    show ?thesis using k(1,2) look_up_ok(3) [OF i Some] unfolding c' by simp
  qed
  then show "cinv g start c'" "\<And>b'. blk_ok g b' \<Longrightarrow> view g start c' b' = view g start c b'" by blast+
qed

section \<open>Runs\<close>

text \<open>
  The calls, on blocks whose sectors do not wrap. A read is written with what the caller finds at the
  address it gets, a null address included. A write can do three things: store its data; nothing,
  because the data is longer than a block (-1); or nothing although it returns 0, because the block
  is not in the cache and cannot be fetched.
\<close>

datatype cache_call =
    Cc_read u32 cache_op "byte list res"
  | Cc_write u32 "byte list" write_type cache_op
  | Cc_too_long u32 "byte list" write_type cache_op
  | Cc_lost u32 "byte list" write_type cache_op
  | Cc_unlock u32
  | Cc_dirty u32
  | Cc_sync
  | Cc_evict

inductive cache_step :: "geometry \<Rightarrow> cache \<Rightarrow> cache_call \<Rightarrow> cache \<Rightarrow> bool" where
  rd: "disk_read_block b op c = Inr (a, c') \<Longrightarrow> blk_ok g b \<Longrightarrow> cache_step g c (Cc_read b op (block_at a c')) c'"
| wr: "write_block b (Some bs) ty op c = Inr (s, c') \<Longrightarrow> blk_ok g b \<Longrightarrow> length bs \<le> unat (g_block_size g) \<Longrightarrow>
    (\<forall>c1. get_elt b c \<noteq> Inr (None, c1)) \<Longrightarrow> cache_step g c (Cc_write b bs ty op) c'"
| too_long: "write_block b (Some bs) ty op c = Inr (s, c') \<Longrightarrow> unat (g_block_size g) < length bs \<Longrightarrow>
    cache_step g c (Cc_too_long b bs ty op) c'"
| lost: "write_block b (Some bs) ty op c = Inr (s, c') \<Longrightarrow> blk_ok g b \<Longrightarrow> length bs \<le> unat (g_block_size g) \<Longrightarrow>
    get_elt b c = Inr (None, c1) \<Longrightarrow> cache_step g c (Cc_lost b bs ty op) c'"
| unlock: "unlock_cache b c = (r, c') \<Longrightarrow> cache_step g c (Cc_unlock b) c'"
| dirty: "set_dirty_block b c = (r, c') \<Longrightarrow> cache_step g c (Cc_dirty b) c'"
| sync: "sync_fs c = Inr (r, c') \<Longrightarrow> cache_step g c Cc_sync c'"
| evict: "free_cache_list c = Inr (r, c') \<Longrightarrow> cache_step g c Cc_evict c'"

inductive cache_run :: "geometry \<Rightarrow> cache \<Rightarrow> cache_call list \<Rightarrow> cache \<Rightarrow> bool" where
  start: "cache_run g c [] c"
| call: "cache_step g c x c1 \<Longrightarrow> cache_run g c1 xs c' \<Longrightarrow> cache_run g c (x # xs) c'"

text \<open>The array of blocks: what a call does to it, and which answers of a run of calls are right.\<close>

fun on_blocks :: "cache_call \<Rightarrow> (u32 \<Rightarrow> byte list) \<Rightarrow> u32 \<Rightarrow> byte list" where
  "on_blocks (Cc_write b bs ty op) m = m(b := poke 0 bs (m b))"
| "on_blocks _ m = m"

fun answer_ok :: "cache_call \<Rightarrow> (u32 \<Rightarrow> byte list) \<Rightarrow> bool" where
  "answer_ok (Cc_read b op got) m \<longleftrightarrow> got = Inl Null_deref \<or> got = Inr (m b)"
| "answer_ok _ m \<longleftrightarrow> True"

fun answers_ok :: "cache_call list \<Rightarrow> (u32 \<Rightarrow> byte list) \<Rightarrow> bool" where
  "answers_ok [] m \<longleftrightarrow> True"
| "answers_ok (x # xs) m \<longleftrightarrow> answer_ok x m \<and> answers_ok xs (on_blocks x m)"

text \<open>Every call is on a block of the geometry.\<close>

fun on_block :: "(u32 \<Rightarrow> bool) \<Rightarrow> cache_call \<Rightarrow> bool" where
  "on_block P (Cc_read b op got) \<longleftrightarrow> P b"
| "on_block P _ \<longleftrightarrow> True"

lemma cache_step_on_block: "cache_step g c x c' \<Longrightarrow> on_block (blk_ok g) x"
  by (cases rule: cache_step.cases) auto

lemma write_nothing:
  assumes w: "write_block b (Some bs) ty op c = Inr (s, c')" and i: "cinv g start c"
  shows "unat (g_block_size g) < length bs \<Longrightarrow> c' = c"
    "length bs \<le> unat (g_block_size g) \<Longrightarrow> get_elt b c = Inr (None, c1) \<Longrightarrow> c' = c1 \<and> s = 0"
  using w i by (auto simp: write_block_def cinv_def ready_def)

lemma cache_step_keeps:
  assumes "cache_step g c x c'" "cinv g start c"
  shows "cinv g start c' \<and> (\<forall>b. blk_ok g b \<longrightarrow> view g start c' b = on_blocks x (view g start c) b) \<and>
    answer_ok x (view g start c)"
  using assms
proof cases
  case (rd b op a)
  note k = read_block_keeps [OF rd(2) [unfolded disk_read_block_def] assms(2) rd(3)]
  have "answer_ok x (view g start c)"
    using k(3) rd(1) by (cases "a = 0") (simp_all add: block_at_def)
  then show ?thesis using k(1,2) rd(1) by simp
next
  case (wr b bs ty op s)
  have got: "get_elt b c \<noteq> Inr (None, c1)" for c1 using wr(5) by blast
  note k = write_block_keeps(1,2) [OF wr(2) assms(2) wr(3,4) got]
  show ?thesis using k wr(1) by simp
next
  case (too_long b bs ty op s)
  then show ?thesis using write_nothing(1) [OF too_long(2) assms(2)] assms(2) by simp
next
  case (lost b bs ty op s c1)
  then show ?thesis using write_nothing(2) [OF lost(2) assms(2) lost(4,5)] get_elt_keeps(1,2) [OF lost(5) assms(2) lost(3)] by simp
next
  case (unlock b r)
  then show ?thesis using unlock_keeps [OF unlock(2) assms(2)] by simp
next
  case (dirty b r)
  then show ?thesis using set_dirty_keeps [OF dirty(2) assms(2)] by simp
next
  case (sync r)
  then show ?thesis using sync_fs_keeps [OF sync(2) assms(2)] by simp
next
  case (evict r)
  then show ?thesis using free_cache_list_keeps [OF evict(2) assms(2)] by simp
qed

lemma on_blocks_eq: "(\<And>b. P b \<Longrightarrow> m b = m' b) \<Longrightarrow> P b \<Longrightarrow> on_blocks x m b = on_blocks x m' b"
  by (cases x) auto

lemma on_blocks_cong:
  "\<forall>b. P b \<longrightarrow> m b = m' b \<Longrightarrow> P b \<Longrightarrow> fold on_blocks xs m b = fold on_blocks xs m' b"
proof (induction xs arbitrary: m m')
  case (Cons x xs)
  have "\<forall>b. P b \<longrightarrow> on_blocks x m b = on_blocks x m' b" using on_blocks_eq [of P m m'] Cons.prems(1) by blast
  from Cons.IH [OF this Cons.prems(2)] show ?case by simp
qed simp

lemma answers_ok_cong:
  "\<forall>b. P b \<longrightarrow> m b = m' b \<Longrightarrow> list_all (on_block P) xs \<Longrightarrow> answers_ok xs m = answers_ok xs m'"
proof (induction xs arbitrary: m m')
  case (Cons x xs)
  have "\<forall>b. P b \<longrightarrow> on_blocks x m b = on_blocks x m' b" using on_blocks_eq [of P m m'] Cons.prems(1) by blast
  moreover have "answer_ok x m = answer_ok x m'" using Cons.prems by (cases x) auto
  moreover have "answers_ok xs (on_blocks x m) = answers_ok xs (on_blocks x m')"
    using Cons.prems(2) by (intro Cons.IH calculation(1)) simp
  ultimately show ?case by simp
qed simp

lemma cache_run_on_block: "cache_run g c xs c' \<Longrightarrow> list_all (on_block (blk_ok g)) xs"
  by (induction rule: cache_run.induct) (auto dest: cache_step_on_block)

lemma cache_run_keeps:
  "cache_run g c xs c' \<Longrightarrow> cinv g start c \<Longrightarrow>
    cinv g start c' \<and> (\<forall>b. blk_ok g b \<longrightarrow> view g start c' b = fold on_blocks xs (view g start c) b) \<and>
    answers_ok xs (view g start c)"
proof (induction rule: cache_run.induct)
  case (call g c x c1 xs c')
  have 1: "cinv g start c1" "\<And>b. blk_ok g b \<Longrightarrow> view g start c1 b = on_blocks x (view g start c) b" "answer_ok x (view g start c)"
    using cache_step_keeps [OF call(1,4)] by blast+
  have "\<forall>b. blk_ok g b \<longrightarrow> view g start c1 b = on_blocks x (view g start c) b" using 1(2) by blast
  note e = on_blocks_cong [OF this] answers_ok_cong [OF this cache_run_on_block [OF call(2)]]
  show ?case using call.IH [OF 1(1)] e(1) [of _ xs] e(2) 1(3) by simp
qed simp

section \<open>A small cache\<close>

definition geo512 :: geometry where
  "geo512 = \<lparr>g_block_size = 512, g_partition = 0\<rparr>"

definition cache0 :: cache where
  "cache0 = \<lparr>disk = disk40000, c_mbr = Some (mbr_of test_table), c_fs = Some geo512, elts = [], nb_elements_cache = 0,
     locked_files = 0, cmem = [], c_fresh = 1\<rparr>"

lemma cache0_inv: "cinv geo512 2 cache0"
  by (simp add: cinv_def linv_def ready_def part_start_def cache0_def geo512_def mbr_of_def test_table_def blk_ratio_def
      BLOCK_SIZE_def EXT2_BLOCK_SIZE_def disk_wf_def disk40000_def)

lemma geo512_ok: "blk_ok geo512 5"
  by (simp add: blk_ok_def geo512_def blk_ratio_def BLOCK_SIZE_def)

lemma cache0_facts:
  "part_start geo512 cache0 = Inr 2" "blk_ratio geo512 = 1" "get_partition_size (c_mbr cache0) 0 = 25000"
  by (simp_all add: part_start_def cache0_def mbr_of_def test_table_def geo512_def blk_ratio_def BLOCK_SIZE_def
      get_partition_size_def NB_PARTITIONS_def)

lemma cache0_fetch: "\<exists>e. get_elt 5 cache0 = Inr (Some e, cache0\<lparr>elts := [e], nb_elements_cache := 1, c_fresh := Suc 1\<rparr>) \<and>
    c_usage e = 0 \<and> c_block e = 5 \<and> length (c_data e) = 512"
proof -
  have "get_elt 5 cache0 = fetch_block 5 cache0" by (simp add: get_elt_def look_up_c_elt_def cache0_def)
  moreover have "check_if_cache_is_full cache0 = Inr cache0" by (simp add: check_if_cache_is_full_def cache0_def MAX_CACHE_SIZE_def)
  moreover have "calloc_elt cache0 = ((True, False, 0), cache0)" by (simp add: calloc_elt_def cache0_def)
  moreover have "c_fs cache0 = Some geo512" "g_partition geo512 = 0" "g_block_size geo512 = 512" by (simp_all add: cache0_def geo512_def)
  moreover have "length (read_sectors (disk cache0) 2 geo512 5) = 512"
    using cache0_inv length_read_sectors [of "disk cache0" 2 geo512 5] by (simp add: cinv_def linv_def cache0_facts BLOCK_SIZE_def)
  ultimately show ?thesis using cache0_facts
    by (simp add: fetch_block_def BLOCK_SIZE_def EXT2_BLOCK_SIZE_def Let_def) (simp add: cache0_def)
qed

lemma cache0_write:
  "\<exists>c'. write_block 5 (Some [7, 8]) WRITE_BACK LOCK cache0 = Inr (0, c') \<and> look_up_c_elt 5 c' \<noteq> None"
  using cache0_fetch by (auto simp: write_block_def Let_def look_up_c_elt_def) (simp_all add: cache0_def geo512_def)

section \<open>Properties\<close>

text \<open>
  C6. The block cache behaves as an array of blocks. Take any run of reads, writes of both kinds, unlocks,
  marks, saves and evictions, on blocks whose sectors do not wrap, with disk writes that fail or not. Every
  read gives null, or an address that holds the block as the writes before it left it, and
  at the end every block holds what the last writes put in it. The writes that count are those that store
  their data; a write longer than a block (-1) and a write to a block that is not in the cache and cannot be
  fetched (\<open>Cc_lost\<close>: the code drops the data and returns 0) leave the array as it is.
\<close>

theorem cache_refines_blocks:
  assumes "cinv g start c" "cache_run g c xs c'"
  shows "cinv g start c' \<and> answers_ok xs (view g start c) \<and>
    (\<forall>b. blk_ok g b \<longrightarrow> view g start c' b = fold on_blocks xs (view g start c) b)"
  using cache_run_keeps [OF assms(2,1)] by blast

theorem cache_refines_blocks_witness:
  "\<exists>c' got. cache_run geo512 cache0 [Cc_write 5 [7, 8] WRITE_BACK LOCK, Cc_read 5 UNLOCK got] c' \<and>
     view geo512 2 c' 5 = poke 0 [7, 8] (view geo512 2 cache0 5) \<and> got = Inr (poke 0 [7, 8] (view geo512 2 cache0 5))"
proof -
  obtain c' e where w: "write_block 5 (Some [7, 8]) WRITE_BACK LOCK cache0 = Inr (0, c')" and e: "look_up_c_elt 5 c' = Some e"
    using cache0_write by blast
  have s: "cache_step geo512 cache0 (Cc_write 5 [7, 8] WRITE_BACK LOCK) c'"
    by (rule cache_step.wr [OF w geo512_ok]) (use cache0_fetch in \<open>auto simp: geo512_def\<close>)
  have "cinv geo512 2 c'" using cache_step_keeps [OF s cache0_inv] by blast
  then have b: "block_at (c_addr e) c' = Inr (c_data e)" using e by (rule block_at_look_up)
  have "disk_read_block 5 UNLOCK c' = Inr (c_addr e, c')" using e by (simp add: disk_read_block_def read_block_c_def get_elt_def)
  then have "cache_step geo512 c' (Cc_read 5 UNLOCK (Inr (c_data e))) c'" using cache_step.rd geo512_ok b by metis
  then have r: "cache_run geo512 cache0 [Cc_write 5 [7, 8] WRITE_BACK LOCK, Cc_read 5 UNLOCK (Inr (c_data e))] c'"
    by (rule cache_run.call [OF s cache_run.call [OF _ cache_run.start]])
  show ?thesis using cache_refines_blocks [OF cache0_inv r] geo512_ok r by auto
qed

text \<open>
  C28. A save that reports success is complete: when \<^verbatim>\<open>sync\<close> returns 0 the sectors of every block
  of the disk hold what the cache showed for that block.
\<close>

theorem sync_makes_durable:
  assumes "cinv g start c" "sync_fs c = Inr (0, c')" "blk_ok g b"
  shows "read_sectors (disk c') start g b = view g start c b"
  using sync_fs_keeps(4) [OF assms(2,1) refl assms(3)] .

theorem sync_makes_durable_witness: "read_sectors (disk cache0) 2 geo512 5 = view geo512 2 cache0 5"
  by (rule sync_makes_durable [OF cache0_inv _ geo512_ok]) (simp add: sync_fs_def, simp add: cache0_def)

text \<open>
  A write with \<open>UNLOCK\<close> to a block nobody has locked, which is how the super block and the group
  descriptor are saved, wraps the use count: the block is never evicted.
\<close>

lemma find_blk: "find (\<lambda>e. c_block e = b) es = Some e \<Longrightarrow> c_block e = b"
  by (induction es) (auto split: if_split_asm)

lemma unlock_underflow:
  assumes l: "look_up_c_elt b c = Some e" and u: "c_usage e = 0" and "length bs \<le> length (c_data e)" "c_fs c = Some g"
    and "length bs \<le> unat (g_block_size g)"
  shows "\<exists>c'. write_block b (Some bs) WRITE_BACK UNLOCK c = Inr (0, c') \<and>
    (\<exists>e'. look_up_c_elt b c' = Some e' \<and> c_usage e' = 4294967295)"
proof -
  define e' where "e' = e\<lparr>c_data := poke 0 bs (c_data e), c_dirty := True, c_usage := c_usage e - 1\<rparr>"
  define c' where "c' = c\<lparr>elts := upd_block b (\<lambda>_. e') (elts c), locked_files := locked_files c\<rparr>"
  have f: "find (\<lambda>e. c_block e = b) (elts c) = Some e" using l by (simp add: look_up_c_elt_def)
  have b: "c_block e' = b" using find_blk [OF f] by (simp add: e'_def)
  have ne: "(0::u32) - 1 \<noteq> 0" by simp
  have "write_block b (Some bs) WRITE_BACK UNLOCK c = Inr (0, c')"
    using assms ne by (simp add: write_block_def get_elt_def Let_def c'_def e'_def)
  moreover have "look_up_c_elt b c' = Some e'" using find_upd_block [OF f b] by (simp add: look_up_c_elt_def c'_def)
  moreover have "c_usage e' = 4294967295" using u by (simp add: e'_def)
  ultimately show ?thesis by blast
qed

end
