(* ===== verification/Ext2.thy ===== *)
theory Ext2
  imports DiskCache
begin

text \<open>
  The file system on the block cache: \<^verbatim>\<open>src/kernel/fs/ext2.c\<close>, the state of
  \<^verbatim>\<open>fs.c\<close> and the two bitmap allocators of \<^verbatim>\<open>inode.c\<close>. Of the super block the fields the code
  reads are named, the other bytes are \<open>s_other\<close>. Inodes in memory are a heap of structures, since
  callers share their addresses.
\<close>

unbundle bit_operations_syntax

section \<open>State\<close>

definition INODE_SIZE :: u32 where "INODE_SIZE = 128"
definition RESERVED_BLOCKS :: u32 where "RESERVED_BLOCKS = 3"
definition BOOT_RECORD_LOC :: u32 where "BOOT_RECORD_LOC = 0"
definition SUPER_BLOCK_LOC :: u32 where "SUPER_BLOCK_LOC = 1"
definition BLOCK_TABLE_BLOCK :: u32 where "BLOCK_TABLE_BLOCK = 2"
definition EXT2_SUPER_MAGIC :: u16 where "EXT2_SUPER_MAGIC = 0xEF53"
definition EXT2_VALID_FS :: u16 where "EXT2_VALID_FS = 1"
definition EXT2_ERRORS_CONTINUE :: u16 where "EXT2_ERRORS_CONTINUE = 1"
definition EXT2_OS_LINUX :: u32 where "EXT2_OS_LINUX = 0"
definition EXT2_GOOD_OLD_FIRST_INO :: u32 where "EXT2_GOOD_OLD_FIRST_INO = 11"
definition NUMBER_OF_RESERVED_INODES :: nat where "NUMBER_OF_RESERVED_INODES = 12"

record super_block =
  s_inodes_count :: u32
  s_blocks_count :: u32
  s_r_blocks_count :: u32
  s_free_blocks_count :: u32
  s_free_inodes_count :: u32
  s_first_data_block :: u32
  s_other :: "byte list"

record block_group_descriptor =
  bg_block_bitmap :: u32
  bg_inode_bitmap :: u32
  bg_inode_table :: u32
  bg_free_blocks_count :: u16
  bg_free_inodes_count :: u16
  bg_used_dirs_count :: u16
  bg_other :: "byte list"

record inode_t =
  i_mode :: u16
  i_uid :: u16
  i_size :: u32
  i_atime :: u32
  i_ctime :: u32
  i_mtime :: u32
  i_dtime :: u32
  i_gid :: u16
  i_links_count :: u16
  i_blocks :: u32
  i_flags :: u32
  i_osd1 :: u32
  i_block :: "u32 list"
  i_generation :: u32
  i_file_acl :: u32
  i_dir_acl :: u32
  i_faddr :: u32
  i_osd2 :: "byte list"

record inode_elt =
  ie_address :: ptr
  ie_id :: u32
  ie_usage :: u32

text \<open>
  \<^verbatim>\<open>root_file_system\<close>: its block size and partition are in the cache, which reads them; it is NULL
  when they are \<open>None\<close>. The results of the next calls of \<^verbatim>\<open>malloc\<close> are \<open>fmem\<close>; when it is used up they
  succeed.
\<close>

record ext2 =
  fcache :: cache
  fs_type :: byte
  superblock_loc :: u32
  desc_table_loc :: u32
  fsup :: "super_block option"
  fdesc :: "block_group_descriptor option"
  inode_list :: "inode_elt list"
  inodes :: "ptr \<rightharpoonup> inode_t"
  fmem :: "bool list"
  ffresh :: ptr

section \<open>Sequencing\<close>

type_synonym 'a fsm = "ext2 \<Rightarrow> ('a \<times> ext2) res"

definition sret :: "'a \<Rightarrow> 'a fsm" where
  "sret a s = Inr (a, s)"

definition sbind :: "'a fsm \<Rightarrow> ('a \<Rightarrow> 'b fsm) \<Rightarrow> 'b fsm" where
  "sbind m f s = rbind (m s) (\<lambda>(a, s1). f a s1)"

definition sfail :: "kerr \<Rightarrow> 'a fsm" where
  "sfail e s = Inl e"

definition sread :: "(ext2 \<Rightarrow> 'a res) \<Rightarrow> 'a fsm" where
  "sread f s = rbind (f s) (\<lambda>a. Inr (a, s))"

definition supd :: "(ext2 \<Rightarrow> ext2) \<Rightarrow> unit fsm" where
  "supd f s = Inr ((), f s)"

definition on_cache :: "(cache \<Rightarrow> ('a \<times> cache) res) \<Rightarrow> 'a fsm" where
  "on_cache f s = rbind (f (fcache s)) (\<lambda>(a, c). Inr (a, s\<lparr>fcache := c\<rparr>))"

definition fs_malloc :: "bool fsm" where
  "fs_malloc s = (case fmem s of [] \<Rightarrow> Inr (True, s) | m # ms \<Rightarrow> Inr (m, s\<lparr>fmem := ms\<rparr>))"

lemma sbind_Inr_iff: "sbind m f s = Inr r \<longleftrightarrow> (\<exists>a s1. m s = Inr (a, s1) \<and> f a s1 = Inr r)"
  by (cases "m s") (auto simp: sbind_def)

lemma sbindE:
  assumes "sbind m f s = Inr r"
  obtains a s1 where "m s = Inr (a, s1)" "f a s1 = Inr r"
  using assms by (auto simp: sbind_Inr_iff)

lemma sbind_Inr [simp]: "m s = Inr (a, s1) \<Longrightarrow> sbind m f s = f a s1"
  by (simp add: sbind_def)

lemma sret_Inr_iff [simp]: "sret a s = Inr (b, s') \<longleftrightarrow> b = a \<and> s' = s"
  by (auto simp: sret_def)

section \<open>Blocks\<close>

definition fs_block_size :: "u32 fsm" where
  "fs_block_size = sread (\<lambda>s. case c_fs (fcache s) of None \<Rightarrow> Inl Null_deref | Some g \<Rightarrow> Inr (g_block_size g))"

definition read_blk :: "u32 \<Rightarrow> ptr fsm" where
  "read_blk b = on_cache (disk_read_block b LOCK)"

definition unlock_blk :: "u32 \<Rightarrow> unit fsm" where
  "unlock_blk b = supd (\<lambda>s. s\<lparr>fcache := snd (unlock_cache b (fcache s))\<rparr>)"

definition save_blk :: "byte list \<Rightarrow> u32 \<Rightarrow> int fsm" where
  "save_blk bs b = on_cache (save_fs_block (Some bs) b UNLOCK)"

text \<open>The memory of a block at an address the cache gave out, and a store there.\<close>

definition at_blk :: "ptr \<Rightarrow> byte list fsm" where
  "at_blk a = sread (\<lambda>s. block_at a (fcache s))"

definition store_blk :: "ptr \<Rightarrow> nat \<Rightarrow> byte list \<Rightarrow> unit fsm" where
  "store_blk a off bs s = rbind (store_at a off bs (fcache s)) (\<lambda>c. Inr ((), s\<lparr>fcache := c\<rparr>))"

text \<open>\<^verbatim>\<open>save_fs_block\<close> of the first \<^verbatim>\<open>block_size\<close> bytes at an address.\<close>

definition save_at :: "ptr \<Rightarrow> u32 \<Rightarrow> int fsm" where
  "save_at a b =
     sbind fs_block_size (\<lambda>bs. sbind (at_blk a) (\<lambda>data.
     if unat bs > length data then sfail Out_of_bounds else save_blk (take (unat bs) data) b))"

section \<open>Super block and descriptor\<close>

definition get_super_block :: "ext2 \<Rightarrow> super_block option" where
  "get_super_block s = (if c_fs (fcache s) = None then None else fsup s)"

definition get_desc_table :: "ext2 \<Rightarrow> block_group_descriptor option" where
  "get_desc_table s = (if c_fs (fcache s) = None then None else fdesc s)"

definition super_bytes :: "super_block \<Rightarrow> byte list" where
  "super_bytes p = put32 (s_inodes_count p) @ put32 (s_blocks_count p) @ put32 (s_r_blocks_count p) @
     put32 (s_free_blocks_count p) @ put32 (s_free_inodes_count p) @ put32 (s_first_data_block p) @ s_other p"

definition bytes_super :: "byte list \<Rightarrow> super_block" where
  "bytes_super bs =
     \<lparr>s_inodes_count = get32 0 bs, s_blocks_count = get32 4 bs, s_r_blocks_count = get32 8 bs, s_free_blocks_count = get32 12 bs,
      s_free_inodes_count = get32 16 bs, s_first_data_block = get32 20 bs, s_other = drop 24 bs\<rparr>"

definition desc_bytes :: "block_group_descriptor \<Rightarrow> byte list" where
  "desc_bytes p = put32 (bg_block_bitmap p) @ put32 (bg_inode_bitmap p) @ put32 (bg_inode_table p) @
     put16 (bg_free_blocks_count p) @ put16 (bg_free_inodes_count p) @ put16 (bg_used_dirs_count p) @ bg_other p"

definition bytes_desc :: "byte list \<Rightarrow> block_group_descriptor" where
  "bytes_desc bs =
     \<lparr>bg_block_bitmap = get32 0 bs, bg_inode_bitmap = get32 4 bs, bg_inode_table = get32 8 bs, bg_free_blocks_count = get16 12 bs,
      bg_free_inodes_count = get16 14 bs, bg_used_dirs_count = get16 16 bs, bg_other = drop 18 bs\<rparr>"

definition SUPER_SIZE :: nat where "SUPER_SIZE = 1020"
definition DESC_SIZE :: nat where "DESC_SIZE = 32"

definition save_super_block :: "int fsm" where
  "save_super_block s =
     (case c_fs (fcache s) of
        None \<Rightarrow> Inl Null_deref
      | Some _ \<Rightarrow>
          (case fsup s of
             None \<Rightarrow> Inr (-1, s)
           | Some p \<Rightarrow> sbind (save_blk (super_bytes p) (superblock_loc s)) (\<lambda>r. sret (if r < 0 then -1 else 0)) s))"

definition save_blk_desc_table :: "int fsm" where
  "save_blk_desc_table s =
     (case c_fs (fcache s) of
        None \<Rightarrow> Inl Null_deref
      | Some _ \<Rightarrow>
          (case fdesc s of
             None \<Rightarrow> Inr (-1, s)
           | Some p \<Rightarrow> sbind (save_blk (desc_bytes p) (desc_table_loc s)) (\<lambda>r. sret (if r < 0 then -1 else 0)) s))"

definition config_super_block :: "int fsm" where
  "config_super_block s =
     (if c_fs (fcache s) = None \<or> fsup s \<noteq> None then Inr (-1, s)
      else
        sbind (read_blk (superblock_loc s)) (\<lambda>a.
        if a = 0 then sret (-1)
        else sbind fs_malloc (\<lambda>ok.
          if \<not> ok then sret (-1)
          else sbind (at_blk a) (\<lambda>bs.
            sbind (supd (\<lambda>s. s\<lparr>fsup := Some (bytes_super (take SUPER_SIZE bs))\<rparr>)) (\<lambda>_.
            sbind (unlock_blk (superblock_loc s)) (\<lambda>_. sret 0))))) s)"

text \<open>It tests the super block where it means the descriptor it allocated: a failed allocation is written to.\<close>

definition config_blk_desc_table :: "int fsm" where
  "config_blk_desc_table s =
     (if c_fs (fcache s) = None \<or> fdesc s \<noteq> None then Inr (-1, s)
      else
        sbind (read_blk (desc_table_loc s)) (\<lambda>a.
        if a = 0 then sret (-1)
        else sbind fs_malloc (\<lambda>ok.
          if fsup s = None then sret (-1)
          else if \<not> ok then sfail Null_deref
          else sbind (at_blk a) (\<lambda>bs.
            sbind (supd (\<lambda>s. s\<lparr>fdesc := Some (bytes_desc (take DESC_SIZE bs))\<rparr>)) (\<lambda>_.
            sbind (unlock_blk (desc_table_loc s)) (\<lambda>_. sret 0))))) s)"

section \<open>Formatting\<close>

definition save_boot_record :: "u32 \<Rightarrow> int fsm" where
  "save_boot_record loc =
     sbind fs_malloc (\<lambda>ok.
     if \<not> ok then sfail Null_deref
     else sbind (save_blk (replicate EXT2_BLOCK_SIZE 0) loc) (\<lambda>r. sret (if r < 0 then -1 else 0)))"

text \<open>The sizes \<^verbatim>\<open>superblock_conf\<close> computes, for a partition of so many sectors.\<close>

record layout =
  number_of_inodes :: u32
  nb_blocks_inodes :: u32
  nb_block_inode_bitmap :: u32
  nb_block_data_bitmap :: u32
  nb_blocks_data :: u32

definition fs_layout :: "u32 \<Rightarrow> u32 \<Rightarrow> layout" where
  "fs_layout bs disk_sz =
     (let ratio = bs div of_nat BLOCK_SIZE;
          inodes = (disk_sz * of_nat BLOCK_SIZE div 10) div INODE_SIZE;
          ib0 = inodes * INODE_SIZE div bs;
          ib = (if (ib0 * bs - inodes * INODE_SIZE) mod bs > 0 then ib0 + 1 else ib0);
          ibm0 = ib div (8 * bs);
          ibm = (if ib mod bs > 0 then ibm0 + 1 else ibm0);
          rest = disk_sz div ratio - RESERVED_BLOCKS - ibm - ib;
          dbm = (if rest mod (8 * bs) > 0 then rest div (8 * bs) + 1 else rest div (8 * bs)) in
      \<lparr>number_of_inodes = inodes, nb_blocks_inodes = ib, nb_block_inode_bitmap = ibm, nb_block_data_bitmap = dbm,
       nb_blocks_data = disk_sz div ratio - (dbm + ib + ibm + RESERVED_BLOCKS)\<rparr>)"

text \<open>The bytes of the structure from \<^verbatim>\<open>s_log_block_size\<close> on.\<close>

definition super_rest :: "layout \<Rightarrow> byte list" where
  "super_rest l =
     put32 2 @ put32 0 @ put32 (nb_blocks_data l) @ put32 0 @ put32 (number_of_inodes l) @ put32 0 @ put32 0 @
     put16 0 @ put16 0 @ put16 EXT2_SUPER_MAGIC @ put16 EXT2_VALID_FS @ put16 EXT2_ERRORS_CONTINUE @ put16 0 @
     put32 0 @ put32 0 @ put32 EXT2_OS_LINUX @ put32 0 @ put16 0 @ put16 0 @
     put32 EXT2_GOOD_OLD_FIRST_INO @ put16 (ucast INODE_SIZE) @ put16 1 @ put32 0 @ put32 0xffff @ put32 0 @
     [22] @ replicate (SUPER_SIZE - 105) 0"

definition new_super :: "u32 \<Rightarrow> u32 \<Rightarrow> super_block" where
  "new_super bs disk_sz =
     (let l = fs_layout bs disk_sz in
      \<lparr>s_inodes_count = number_of_inodes l, s_blocks_count = nb_blocks_data l, s_r_blocks_count = 0,
       s_free_blocks_count = nb_blocks_data l, s_free_inodes_count = number_of_inodes l,
       s_first_data_block = disk_sz div (bs div of_nat BLOCK_SIZE) - nb_blocks_data l, s_other = super_rest l\<rparr>)"

definition new_desc :: "u32 \<Rightarrow> u32 \<Rightarrow> block_group_descriptor" where
  "new_desc bs disk_sz =
     (let l = fs_layout bs disk_sz; bb = BLOCK_TABLE_BLOCK + 1; ib = bb + nb_block_data_bitmap l in
      \<lparr>bg_block_bitmap = bb, bg_inode_bitmap = ib, bg_inode_table = ib + 1, bg_free_blocks_count = ucast (nb_blocks_data l),
       bg_free_inodes_count = ucast (number_of_inodes l), bg_used_dirs_count = 0, bg_other = replicate 14 0\<rparr>)"

text \<open>The loop that clears the bitmaps, over the blocks that are left.\<close>

fun clear_bitmaps :: "nat \<Rightarrow> u32 \<Rightarrow> u32 \<Rightarrow> int fsm" where
  "clear_bitmaps 0 b bs = sret 0"
| "clear_bitmaps (Suc n) b bs =
     sbind (save_blk (replicate (unat bs) 0) b) (\<lambda>r. if r < 0 then sret (-1) else clear_bitmaps n (b + 1) bs)"

definition superblock_conf :: "u32 \<Rightarrow> u32 \<Rightarrow> int fsm" where
  "superblock_conf loc disk_sz =
     sbind fs_block_size (\<lambda>bs.
     if unat bs < BLOCK_SIZE then sfail Div_by_zero
     else sbind fs_malloc (\<lambda>ok. if \<not> ok then sfail Null_deref
     else (let sup = new_super bs disk_sz; desc = new_desc bs disk_sz in
       sbind (save_blk (super_bytes sup) loc) (\<lambda>r.
       if r < 0 then sret (-1)
       else sbind fs_malloc (\<lambda>ok2. if \<not> ok2 then sfail Null_deref
       else sbind (supd (\<lambda>s. s\<lparr>fsup := Some sup, fdesc := Some desc\<rparr>)) (\<lambda>_.
         sbind (save_blk (desc_bytes desc) (loc + 1)) (\<lambda>r.
         if r < 0 then sret (-1)
         else clear_bitmaps (unat (bg_inode_table desc) - unat (bg_block_bitmap desc)) (bg_block_bitmap desc) bs)))))))"

definition on_super :: "(super_block \<Rightarrow> super_block) \<Rightarrow> ext2 \<Rightarrow> ext2" where
  "on_super f s = s\<lparr>fsup := map_option f (fsup s)\<rparr>"

definition on_desc :: "(block_group_descriptor \<Rightarrow> block_group_descriptor) \<Rightarrow> ext2 \<Rightarrow> ext2" where
  "on_desc f s = s\<lparr>fdesc := map_option f (fdesc s)\<rparr>"

definition save_both :: "int fsm" where
  "save_both =
     sbind save_super_block (\<lambda>r. if r < 0 then sret (-1)
     else sbind save_blk_desc_table (\<lambda>r. if r < 0 then sret (-1) else sret 0))"

definition configure_reserved_data :: "int fsm" where
  "configure_reserved_data s =
     (case get_desc_table s of
        None \<Rightarrow> Inl Null_deref
      | Some d \<Rightarrow>
          sbind (read_blk (bg_block_bitmap d)) (\<lambda>a.
          sbind (store_blk a 0 [1]) (\<lambda>_.
          if fsup s = None then sfail Null_deref
          else
            sbind (supd (on_super (\<lambda>p. p\<lparr>s_free_blocks_count := s_free_blocks_count p - 1\<rparr>))) (\<lambda>_.
            sbind (supd (on_desc (\<lambda>d. d\<lparr>bg_free_blocks_count := bg_free_blocks_count d - 1\<rparr>))) (\<lambda>_.
            sbind save_both (\<lambda>r. if r < 0 then sret (-1) else save_at a (bg_block_bitmap d)))))) s)"

definition configure_reserved_inodes :: "int fsm" where
  "configure_reserved_inodes s =
     (case get_desc_table s of
        None \<Rightarrow> Inl Null_deref
      | Some d \<Rightarrow>
          sbind (read_blk (bg_inode_bitmap d)) (\<lambda>a.
          sbind (store_blk a 0 [0xff, 0x0f]) (\<lambda>_.
          if fsup s = None then sfail Null_deref
          else
            sbind (supd (on_super (\<lambda>p. p\<lparr>s_free_inodes_count := s_free_inodes_count p - of_nat NUMBER_OF_RESERVED_INODES\<rparr>))) (\<lambda>_.
            sbind (supd (on_desc (\<lambda>d. d\<lparr>bg_free_inodes_count := bg_free_inodes_count d - of_nat NUMBER_OF_RESERVED_INODES\<rparr>))) (\<lambda>_.
            sbind save_both (\<lambda>r. if r < 0 then sret (-1) else save_at a (bg_inode_bitmap d)))))) s)"

section \<open>Bitmaps\<close>

text \<open>The loop over the 64 bits of a word, from bit \<open>j\<close>, and the loop over the words of a block.\<close>

fun first_zero_bit :: "nat \<Rightarrow> nat \<Rightarrow> u64 \<Rightarrow> nat option" where
  "first_zero_bit 0 j w = None"
| "first_zero_bit (Suc n) j w = (if \<not> bit w j then Some j else first_zero_bit n (Suc j) w)"

definition get64 :: "nat \<Rightarrow> byte list \<Rightarrow> u64" where
  "get64 off bs = of_nat (get_le 8 off bs)"

fun bitmap_words :: "nat \<Rightarrow> nat \<Rightarrow> byte list \<Rightarrow> nat option" where
  "bitmap_words 0 i bs = None"
| "bitmap_words (Suc n) i bs =
     (if get64 (8 * i) bs < 0xffffffffffffffff then
        (case first_zero_bit 64 0 (get64 (8 * i) bs) of
           Some j \<Rightarrow> Some (j + i * 64)
         | None \<Rightarrow> bitmap_words n (Suc i) bs)
      else bitmap_words n (Suc i) bs)"

definition alloc_bit_bitmap :: "byte list \<Rightarrow> u32 \<Rightarrow> int" where
  "alloc_bit_bitmap data bs = (case bitmap_words (unat bs div 8) 0 data of None \<Rightarrow> -1 | Some n \<Rightarrow> int n)"

definition set_bit_at :: "nat \<Rightarrow> byte list \<Rightarrow> byte" where
  "set_bit_at n data = data ! (n div 8) OR push_bit (n mod 8) 1"

definition clear_bit_at :: "nat \<Rightarrow> byte list \<Rightarrow> byte" where
  "clear_bit_at n data = data ! (n div 8) AND (0xff - push_bit (n mod 8) 1)"

text \<open>The loop of \<^verbatim>\<open>get_data_block\<close> over the blocks of the bitmap that are left: the block number, 0 on failure.\<close>

fun data_bitmap_loop :: "nat \<Rightarrow> u32 \<Rightarrow> u32 \<Rightarrow> u32 \<Rightarrow> u32 \<Rightarrow> u32 fsm" where
  "data_bitmap_loop 0 b first bb bs = sret 0"
| "data_bitmap_loop (Suc n) b first bb bs =
     sbind (read_blk b) (\<lambda>a.
     if a = 0 then sret 0
     else sbind (at_blk a) (\<lambda>data.
       (let j = alloc_bit_bitmap data bs in
        if j \<noteq> -1 then
          sbind (store_blk a (nat j div 8) [set_bit_at (nat j) data]) (\<lambda>_.
          sbind (save_at a b) (\<lambda>r.
          if r < 0 then sret 0 else sret (first + bs * 8 * (b - bb) + of_int j)))
        else sbind (unlock_blk b) (\<lambda>_. data_bitmap_loop n (b + 1) first bb bs))))"

definition get_data_block :: "u32 fsm" where
  "get_data_block s =
     (case (get_desc_table s, get_super_block s) of
        (Some d, Some p) \<Rightarrow>
          if s_free_blocks_count p = 0 \<or> bg_free_blocks_count d = 0 then Inr (0, s)
          else
            sbind fs_block_size (\<lambda>bs.
            sbind (data_bitmap_loop (unat (bg_inode_bitmap d) - unat (bg_block_bitmap d)) (bg_block_bitmap d) (s_first_data_block p) (bg_block_bitmap d) bs) (\<lambda>b.
            if b = 0 then sret 0
            else
              sbind (read_blk b) (\<lambda>a.
              if a = 0 then sret 0
              else
                sbind (store_blk a 0 (replicate (unat bs) 0)) (\<lambda>_.
                sbind (save_at a b) (\<lambda>r.
                if r < 0 then sret (-1)
                else
                  sbind (supd (on_super (\<lambda>p. p\<lparr>s_free_blocks_count := s_free_blocks_count p - 1\<rparr>))) (\<lambda>_.
                  sbind (supd (on_desc (\<lambda>d. d\<lparr>bg_free_blocks_count := bg_free_blocks_count d - 1\<rparr>))) (\<lambda>_.
                  sbind save_super_block (\<lambda>_.
                  sbind save_blk_desc_table (\<lambda>_.
                  sret (b - s_first_data_block p)))))))))) s
      | _ \<Rightarrow> Inr (0, s))"

definition free_data_block :: "u32 \<Rightarrow> int fsm" where
  "free_data_block n s =
     (case (get_desc_table s, get_super_block s) of
        (Some d, Some p) \<Rightarrow>
          if n > s_blocks_count p \<or> n = 0 then Inr (-1, s)
          else
            sbind fs_block_size (\<lambda>bs.
            if 8 * bs = 0 then sfail Div_by_zero
            else (let b = bg_block_bitmap d + n div (8 * bs); i = n mod (bs * 8) in
             sbind (read_blk b) (\<lambda>a.
             if a = 0 then sret (-1)
             else sbind (at_blk a) (\<lambda>data.
               sbind (store_blk a (unat i div 8) [clear_bit_at (unat i) data]) (\<lambda>_.
               sbind (supd (on_super (\<lambda>p. p\<lparr>s_free_blocks_count := s_free_blocks_count p + 1\<rparr>))) (\<lambda>_.
               sbind (supd (on_desc (\<lambda>d. d\<lparr>bg_free_blocks_count := bg_free_blocks_count d + 1\<rparr>))) (\<lambda>_.
               sbind save_super_block (\<lambda>_.
               sbind save_blk_desc_table (\<lambda>_.
               sbind (save_at a b) (\<lambda>r. sret (if r < 0 then -1 else 0)))))))))) ) s
      | _ \<Rightarrow> Inr (-1, s))"

end
