(* ===== verification/Bitmap.thy ===== *)
theory Bitmap
  imports Ext2
begin

text \<open>
  The bitmaps as sets of numbers: the search returns the first clear bit of a block, and setting and
  clearing a bit change that bit alone.
\<close>

definition bbit :: "byte list \<Rightarrow> nat \<Rightarrow> bool" where
  "bbit bs n = bit (bs ! (n div 8)) (n mod 8)"

section \<open>Words of a block\<close>

lemma bit_byte: "bit (b::byte) k \<longleftrightarrow> odd (unat b div 2 ^ k)"
  by (simp add: bit_unsigned_iff flip: bit_iff_odd)

lemma bit_byte_plus: "bit (unat (b::byte) + 256 * x) k = (if k < 8 then bit b k else bit x (k - 8))"
proof (cases "k < 8")
  case True
  have "2 ^ k * 2 ^ (8 - k) = (2::nat) ^ 8" using True by (simp flip: power_add)
  then have e: "256 * x = 2 ^ k * (2 ^ (8 - k) * x)" by (simp flip: mult.assoc)
  have "(unat b + 256 * x) div 2 ^ k = unat b div 2 ^ k + 2 ^ (8 - k) * x" unfolding e by simp
  moreover have "even (2 ^ (8 - k) * x)" using True by simp
  ultimately show ?thesis using True bit_byte [of b k] by (simp add: bit_iff_odd)
next
  case False
  have u: "unat b < 256" using unsigned_less [of b, where 'a = nat] by simp
  have "(2::nat) ^ k = 2 ^ 8 * 2 ^ (k - 8)" using False power_add [of "2::nat" 8 "k - 8"] by (simp del: power_numeral)
  then have "(unat b + 256 * x) div 2 ^ k = (unat b + 256 * x) div 256 div 2 ^ (k - 8)" by (simp add: div_mult2_eq)
  then show ?thesis using u False by (simp add: bit_iff_odd)
qed

lemma bit_le_nat: "bit (le_nat bs) k \<longleftrightarrow> k < 8 * length bs \<and> bbit bs k"
proof (induction bs arbitrary: k)
  case (Cons b bs)
  have "le_nat (b # bs) = unat b + 256 * le_nat bs" by (simp add: le_nat_def)
  moreover have "bbit (b # bs) k = (if k < 8 then bit b k else bbit bs (k - 8))"
  proof (cases "k < 8")
    case False
    then have "k div 8 = Suc ((k - 8) div 8)" "k mod 8 = (k - 8) mod 8" by (simp_all add: le_div_geq le_mod_geq)
    then show ?thesis using False by (simp add: bbit_def)
  qed (simp add: bbit_def)
  ultimately show ?case using Cons.IH [of "k - 8"] by (auto simp: bit_byte_plus)
qed (simp add: le_nat_def)

lemma bit_get64:
  assumes "8 * i + 8 \<le> length bs" "j < 64"
  shows "bit (get64 (8 * i) bs) j = bbit bs (64 * i + j)"
proof -
  have "bit (get64 (8 * i) bs) j = bit (le_nat (take 8 (drop (8 * i) bs))) j"
    using assms(2) by (simp add: get64_def get_le_def bit_of_nat_iff)
  moreover have e: "64 * i + j = j + 8 * (8 * i)" by simp
  have "(64 * i + j) div 8 = 8 * i + j div 8" "(64 * i + j) mod 8 = j mod 8" unfolding e by (simp_all only: div_mult_self2 mod_mult_self2)
  moreover have "j div 8 < 8" using assms(2) by simp
  ultimately show ?thesis using assms by (simp add: bit_le_nat bbit_def)
qed

section \<open>The search\<close>

lemma first_zero_bit_spec:
  "(case first_zero_bit n j w of
      Some k \<Rightarrow> j \<le> k \<and> k < j + n \<and> \<not> bit w k \<and> (\<forall>m. j \<le> m \<and> m < k \<longrightarrow> bit w m)
    | None \<Rightarrow> \<forall>m. j \<le> m \<and> m < j + n \<longrightarrow> bit w m)"
proof (induction n arbitrary: j)
  case (Suc n)
  show ?case
  proof (cases "bit w j")
    case True
    have split: "(j \<le> m) = (m = j \<or> Suc j \<le> m)" for m by auto
    show ?thesis using Suc.IH [of "Suc j"] True by (auto split: option.splits) (metis Suc_leI le_neq_implies_less)+
  qed auto
qed auto

declare first_zero_bit.simps [simp del]

lemma all_ones: "\<not> (w::u64) < 0xffffffffffffffff \<Longrightarrow> j < 64 \<Longrightarrow> bit w j"
proof -
  assume a: "\<not> w < 0xffffffffffffffff" "j < 64"
  have m: "(0xffffffffffffffff::u64) = -1" by simp
  then have "w = -1" using a(1) by (metis word_order.not_eq_extremum)
  then show "bit w j" using a(2) by (simp add: bit_minus_1_iff possible_bit_def)
qed

lemma bitmap_words_spec:
  assumes "8 * (i + n) \<le> length bs"
  shows "case bitmap_words n i bs of
      Some k \<Rightarrow> 64 * i \<le> k \<and> k < 64 * (i + n) \<and> \<not> bbit bs k \<and> (\<forall>m. 64 * i \<le> m \<and> m < k \<longrightarrow> bbit bs m)
    | None \<Rightarrow> \<forall>m. 64 * i \<le> m \<and> m < 64 * (i + n) \<longrightarrow> bbit bs m"
  using assms
proof (induction n arbitrary: i)
  case (Suc n)
  let ?w = "get64 (8 * i) bs"
  have b: "bit ?w j = bbit bs (64 * i + j)" if "j < 64" for j using bit_get64 [of i bs j] Suc.prems that by simp
  have IH: "case bitmap_words n (Suc i) bs of
      Some k \<Rightarrow> 64 * Suc i \<le> k \<and> k < 64 * (Suc i + n) \<and> \<not> bbit bs k \<and> (\<forall>m. 64 * Suc i \<le> m \<and> m < k \<longrightarrow> bbit bs m)
    | None \<Rightarrow> \<forall>m. 64 * Suc i \<le> m \<and> m < 64 * (Suc i + n) \<longrightarrow> bbit bs m" using Suc.IH [of "Suc i"] Suc.prems by simp
  show ?case
  proof (cases "?w < 0xffffffffffffffff \<and> first_zero_bit 64 0 ?w \<noteq> None")
    case True
    then obtain k where k: "first_zero_bit 64 0 ?w = Some k" by auto
    then have "k < 64" "\<not> bit ?w k" "\<forall>m < k. bit ?w m" using first_zero_bit_spec [where n = 64 and j = 0 and w = ?w] by simp_all
    then have "\<not> bbit bs (64 * i + k)" "bbit bs m" if "64 * i \<le> m" "m < 64 * i + k" for m
      using b [of k] b [of "m - 64 * i"] that by auto
    then show ?thesis using True k \<open>k < 64\<close> b [of k] \<open>\<not> bit ?w k\<close> by (auto simp: add.commute mult.commute)
  next
    case False
    have full: "bbit bs m" if m: "64 * i \<le> m" "m < 64 * Suc i" for m
    proof -
      have "bit ?w (m - 64 * i)"
        using False all_ones [of ?w "m - 64 * i"] first_zero_bit_spec [where n = 64 and j = 0 and w = ?w] m by (cases "?w < 0xffffffffffffffff") auto
      then show ?thesis using b [of "m - 64 * i"] m by simp
    qed
    have e: "bitmap_words (Suc n) i bs = bitmap_words n (Suc i) bs" using False by auto
    show ?thesis unfolding e using IH full by (auto split: option.splits) (metis mult_Suc_right not_le)+
  qed
qed auto

lemma alloc_bit_spec:
  assumes "unat bs = length data" "8 dvd length data"
  shows "alloc_bit_bitmap data bs = -1 \<Longrightarrow> m < 8 * length data \<Longrightarrow> bbit data m"
    "alloc_bit_bitmap data bs \<noteq> -1 \<Longrightarrow>
      \<exists>k. alloc_bit_bitmap data bs = int k \<and> k < 8 * length data \<and> \<not> bbit data k \<and> (\<forall>m < k. bbit data m)"
proof -
  have "64 * (length data div 8) = 8 * length data" using assms(2) by auto
  then show "alloc_bit_bitmap data bs = -1 \<Longrightarrow> m < 8 * length data \<Longrightarrow> bbit data m"
    "alloc_bit_bitmap data bs \<noteq> -1 \<Longrightarrow>
      \<exists>k. alloc_bit_bitmap data bs = int k \<and> k < 8 * length data \<and> \<not> bbit data k \<and> (\<forall>m < k. bbit data m)"
    using bitmap_words_spec [of 0 "length data div 8" data] assms
    by (auto simp: alloc_bit_bitmap_def split: option.splits)
qed

section \<open>Setting and clearing\<close>

lemma bbit_update:
  assumes "n div 8 < length bs"
  shows "bbit (bs[n div 8 := set_bit_at n bs]) m = (m = n \<or> bbit bs m)"
    "bbit (bs[n div 8 := clear_bit_at n bs]) m = (m \<noteq> n \<and> bbit bs m)"
proof -
  have eq: "m div 8 = n div 8 \<Longrightarrow> (m mod 8 = n mod 8) = (m = n)" by (metis div_mult_mod_eq)
  have s: "bit (set_bit_at n bs) j = (j = n mod 8 \<or> bit (bs ! (n div 8)) j)" if "j < 8" for j
    using that by (auto simp: set_bit_at_def bit_or_iff bit_push_bit_iff bit_1_iff bit_exp_iff possible_bit_def)
  show "bbit (bs[n div 8 := set_bit_at n bs]) m = (m = n \<or> bbit bs m)"
    using assms s [of "m mod 8"] eq by (cases "m div 8 = n div 8") (auto simp: bbit_def)
  have c: "bit (clear_bit_at n bs) j = (j \<noteq> n mod 8 \<and> bit (bs ! (n div 8)) j)" if "j < 8" for j
  proof -
    have "(0xff::byte) - push_bit (n mod 8) 1 = NOT (push_bit (n mod 8) 1)" by (simp add: not_eq_complement)
    then show ?thesis using that by (auto simp: clear_bit_at_def bit_and_iff bit_not_iff bit_push_bit_iff bit_1_iff bit_exp_iff possible_bit_def)
  qed
  show "bbit (bs[n div 8 := clear_bit_at n bs]) m = (m \<noteq> n \<and> bbit bs m)"
    using assms c [of "m mod 8"] eq by (cases "m div 8 = n div 8") (auto simp: bbit_def)
qed

lemma poke_one: "i < length bs \<Longrightarrow> poke i [x] bs = bs[i := x]"
  by (simp add: poke_def upd_conv_take_nth_drop)

end
