(* ===== verification/CacheTags.thy ===== *)
theory CacheTags
  imports CacheInv Ext2
begin

text \<open>
  An address the cache gave out stands for the block it was read for: an address is never given out
  again and an element never changes its block, whatever is evicted meanwhile. So a store through an
  address, and a save of what is there, act on the array of blocks.
\<close>

section \<open>Tags\<close>

definition tags :: "c_elt list \<Rightarrow> (ptr \<times> u32) set" where
  "tags es = (\<lambda>e. (c_addr e, c_block e)) ` set es"

definition tags_ok :: "cache \<Rightarrow> cache \<Rightarrow> bool" where
  "tags_ok c c' \<longleftrightarrow> c_fresh c \<le> c_fresh c' \<and> (\<forall>t \<in> tags (elts c'). fst t < c_fresh c \<longrightarrow> t \<in> tags (elts c))"

definition owns :: "ptr \<Rightarrow> u32 \<Rightarrow> cache \<Rightarrow> bool" where
  "owns a b c \<longleftrightarrow> 0 < a \<and> a < c_fresh c \<and> (\<forall>e \<in> set (elts c). c_addr e = a \<longrightarrow> c_block e = b)"

lemma tags_ok_refl [simp]: "tags_ok c c"
  by (simp add: tags_ok_def)

lemma tags_ok_trans: "tags_ok c c1 \<Longrightarrow> tags_ok c1 c2 \<Longrightarrow> tags_ok c c2"
  by (fastforce simp: tags_ok_def)

lemma tags_okI: "c_fresh c' = c_fresh c \<Longrightarrow> tags (elts c') \<subseteq> tags (elts c) \<Longrightarrow> tags_ok c c'"
  by (auto simp: tags_ok_def)

lemma tags_simps [simp]: "tags [] = {}" "tags (e # es) = insert (c_addr e, c_block e) (tags es)" "tags (xs @ ys) = tags xs \<union> tags ys"
  "tags (rev xs) = tags xs"
  by (auto simp: tags_def)

lemma owns_tags: "owns a b c \<longleftrightarrow> 0 < a \<and> a < c_fresh c \<and> (\<forall>x. (a, x) \<in> tags (elts c) \<longrightarrow> x = b)"
  by (auto simp: owns_def tags_def)

lemma owns_keeps: "owns a b c \<Longrightarrow> tags_ok c c' \<Longrightarrow> owns a b c'"
  by (fastforce simp: owns_tags tags_ok_def)

lemma sync_elt_tag:
  "sync_elt e c = Inr (s, e1, c1) \<Longrightarrow> c_addr e1 = c_addr e \<and> c_block e1 = c_block e \<and> elts c1 = elts c \<and> c_fresh c1 = c_fresh c"
  by (auto simp: sync_elt_def split: if_split_asm option.split_asm prod.split_asm elim!: rbindE)

lemma free_loop_tags: "free_loop_c kept es c = Inr (r, c') \<Longrightarrow> tags (elts c') \<subseteq> tags kept \<union> tags es \<and> c_fresh c' = c_fresh c"
proof (induction es arbitrary: kept c)
  case (Cons e es)
  show ?case
  proof (cases "c_usage e = 0")
    case True
    then obtain s e1 c1 where 1: "(if c_dirty e then sync_elt e c else Inr (0, e, c)) = Inr (s, e1, c1)"
      and 2: "(if s < 0 then Inr (-1, c1\<lparr>elts := rev kept @ e1 # es\<rparr>)
               else free_loop_c kept es (c1\<lparr>nb_elements_cache := nb_elements_cache c1 - 1\<rparr>)) = Inr (r, c')"
      using Cons.prems by (auto elim!: rbindE)
    have "c_addr e1 = c_addr e \<and> c_block e1 = c_block e \<and> c_fresh c1 = c_fresh c"
      using 1 sync_elt_tag [of e c s e1 c1] by (auto split: if_split_asm)
    then show ?thesis using 2 Cons.IH [of kept "c1\<lparr>nb_elements_cache := nb_elements_cache c1 - 1\<rparr>"] by (auto split: if_split_asm)
  next
    case False
    then show ?thesis using Cons.IH [of "e # kept" c] Cons.prems by auto
  qed
qed auto

lemma check_full_tags: "check_if_cache_is_full c = Inr c' \<Longrightarrow> tags_ok c c'"
  using free_loop_tags [of "[]" "elts c" c]
  by (auto simp: check_if_cache_is_full_def free_cache_list_def intro!: tags_okI elim!: rbindE split: if_split_asm)

lemma fetch_tags:
  assumes "fetch_block b c = Inr (eo, c')"
  shows "tags_ok c c'" "eo = Some e \<Longrightarrow> c_addr e < c_fresh c'"
proof -
  obtain c1 m c2 where c1: "check_if_cache_is_full c = Inr c1" "calloc_elt c1 = (m, c2)"
    using assms by (auto simp: fetch_block_def elim!: rbindE split: prod.split_asm)
  have f: "elts c2 = elts c1" "c_fresh c2 = c_fresh c1" using c1(2) by (auto simp: calloc_elt_def split: list.split_asm)
  have "c_fresh c1 \<le> c_fresh c' \<and> tags (elts c') \<subseteq> tags (elts c1) \<union> {(c_fresh c1, b)} \<and> (eo = Some e \<longrightarrow> c_addr e < c_fresh c')"
    using assms c1 f
    by (cases m) (auto simp: fetch_block_def Let_def elim!: rbindE split: if_split_asm option.split_asm)
  moreover from this have "tags_ok c1 c'" by (auto simp: tags_ok_def)
  ultimately show "tags_ok c c'" "eo = Some e \<Longrightarrow> c_addr e < c_fresh c'"
    using tags_ok_trans [OF check_full_tags [OF c1(1)]] by blast+
qed

lemma get_elt_tags: "get_elt b c = Inr (eo, c') \<Longrightarrow> tags_ok c c'"
  by (auto simp: get_elt_def fetch_tags(1) split: option.split_asm)

lemma tags_upd_block: "(\<And>e. c_addr (f e) = c_addr e \<and> c_block (f e) = c_block e) \<Longrightarrow> tags (upd_block b f es) = tags es"
  by (induction es) auto

lemma tags_upd_addr: "(\<And>e. c_addr (f e) = c_addr e \<and> c_block (f e) = c_block e) \<Longrightarrow> tags (upd_addr a f es) = tags es"
  by (induction es) auto

lemma tags_upd_found:
  "find (\<lambda>e. c_block e = b) es = Some e \<Longrightarrow> c_addr e' = c_addr e \<Longrightarrow> c_block e' = c_block e \<Longrightarrow> tags (upd_block b (\<lambda>_. e') es) = tags es"
  by (induction es) (auto split: if_split_asm)

lemma lock_tags [simp]: "tags_ok c (lock_elt e c)"
  by (auto simp: lock_elt_def tags_upd_block intro: tags_okI)

lemma read_block_cases:
  assumes "read_block_c b op c = Inr (a, c')"
  obtains eo c1 where "get_elt b c = Inr (eo, c1)"
    "case eo of None \<Rightarrow> a = 0 \<and> c' = c1 | Some e \<Rightarrow> a = c_addr e \<and> c' = (if op = LOCK then lock_elt e c1 else c1)"
  using assms by (auto simp: read_block_c_def elim!: rbindE split: option.split_asm)

lemma read_block_tags: "read_block_c b op c = Inr (a, c') \<Longrightarrow> tags_ok c c'"
  by (erule read_block_cases) (auto split: option.split_asm if_split_asm intro: tags_ok_trans [OF get_elt_tags])

lemma unlock_tags: "tags_ok c (snd (unlock_cache b c))"
  by (auto simp: unlock_cache_def release_elt_def tags_upd_block intro: tags_okI split: option.split)

section \<open>Through an address\<close>

lemma look_up_mem: "look_up_c_elt b c = Some e \<Longrightarrow> e \<in> set (elts c) \<and> c_block e = b"
  using find_blockD by (auto simp: look_up_c_elt_def)

lemma look_up_owns:
  assumes "cinv g start c" "look_up_c_elt b c = Some e"
  shows "owns (c_addr e) b c"
proof -
  have e: "e \<in> set (elts c)" "c_block e = b" using look_up_mem [OF assms(2)] by auto
  have d: "distinct (map c_addr (elts c))" and f: "0 < c_addr e" "c_addr e < c_fresh c" using assms(1) e(1) by (auto simp: cinv_def linv_def)
  have "c_block x = b" if "x \<in> set (elts c)" "c_addr x = c_addr e" for x
    using d e that by (auto simp: distinct_map dest: inj_onD)
  then show ?thesis using f by (simp add: owns_def)
qed

lemma read_owns:
  assumes r: "read_block_c b op c = Inr (a, c')" and i: "cinv g start c" and b: "blk_ok g b" and a: "a \<noteq> 0"
  shows "owns a b c'"
proof -
  obtain eo c1 where g: "get_elt b c = Inr (eo, c1)"
    and c: "case eo of None \<Rightarrow> a = 0 \<and> c' = c1 | Some e \<Rightarrow> a = c_addr e \<and> c' = (if op = LOCK then lock_elt e c1 else c1)"
    using read_block_cases [OF r] .
  then obtain e where e: "eo = Some e" "a = c_addr e" using a by (cases eo) auto
  note k = get_elt_keeps [OF g i b]
  have "owns a b c1" using look_up_owns [OF k(1)] k(3) [OF e(1)] e(2) by simp
  then show ?thesis using c e(1) owns_keeps by auto
qed

lemma owns_at:
  assumes "owns a b c" "cinv g start c" "block_at a c = Inr bs"
  obtains e where "look_up_c_elt b c = Some e" "c_addr e = a" "c_data e = bs" "bs = view g start c b" "length bs = unat (g_block_size g)"
proof -
  obtain e where e: "find (\<lambda>e. c_addr e = a) (elts c) = Some e" "c_data e = bs"
    using assms(1,3) by (auto simp: block_at_def look_up_c_elt_add_def owns_def split: option.split_asm if_split_asm)
  then have m: "e \<in> set (elts c)" "c_addr e = a" using find_addrD by auto
  then have "c_block e = b" using assms(1) by (auto simp: owns_def)
  then have l: "look_up_c_elt b c = Some e"
    using find_block m(1) assms(2) by (auto simp: look_up_c_elt_def cinv_def linv_def)
  have "elt_ok g start (disk c) e" "ready g start c" using look_up_ok(1) [OF assms(2) l] assms(2) by (simp_all add: cinv_def)
  then show ?thesis using that [OF l m(2) e(2)] look_up_ok(3) [OF assms(2) l] e(2) by (simp add: elt_ok_def ready_def)
qed

section \<open>An open block\<close>

text \<open>
  A store through an address does not mark the element dirty; the code saves the block later. Until
  then the element counts as marked: the invariant holds of \<open>mark a c\<close>. The operations on other blocks
  in between run alike on both, as long as the element is not evicted.
\<close>

definition mk :: "ptr \<Rightarrow> c_elt \<Rightarrow> c_elt" where
  "mk a e = (if c_addr e = a then e\<lparr>c_dirty := True\<rparr> else e)"

definition mark :: "ptr \<Rightarrow> cache \<Rightarrow> cache" where
  "mark a c = c\<lparr>elts := map (mk a) (elts c)\<rparr>"

definition here :: "ptr \<Rightarrow> cache \<Rightarrow> bool" where
  "here a c \<longleftrightarrow> a \<in> c_addr ` set (elts c)"

lemma mk_simps [simp]: "c_addr (mk a e) = c_addr e" "c_block (mk a e) = c_block e" "c_usage (mk a e) = c_usage e"
  "c_data (mk a e) = c_data e"
  by (simp_all add: mk_def)

lemma mk_other: "c_addr e \<noteq> a \<Longrightarrow> mk a e = e"
  by (simp add: mk_def)

lemma mark_simps [simp]: "disk (mark a c) = disk c" "c_mbr (mark a c) = c_mbr c" "c_fs (mark a c) = c_fs c"
  "elts (mark a c) = map (mk a) (elts c)" "nb_elements_cache (mark a c) = nb_elements_cache c" "cmem (mark a c) = cmem c"
  "locked_files (mark a c) = locked_files c" "c_fresh (mark a c) = c_fresh c"
  by (simp_all add: mark_def)

lemma here_mark [simp]: "here x (mark a c) = here x c"
  by (simp add: here_def image_image)

lemma tags_map_mk [simp]: "tags (map (mk a) es) = tags es"
  by (simp add: tags_def image_image)

lemma here_tags: "here a c' \<Longrightarrow> tags_ok c c' \<Longrightarrow> a < c_fresh c \<Longrightarrow> here a c"
  by (fastforce simp: here_def tags_ok_def tags_def image_iff)

lemma view_mark [simp]: "view g start (mark a c) = view g start c"
  by (rule ext) (simp add: view_def lview_def blocks_def comp_def)

lemma find_map_mk: "find (\<lambda>e. c_block e = b) (map (mk a) es) = map_option (mk a) (find (\<lambda>e. c_block e = b) es)"
  "find (\<lambda>e. c_addr e = x) (map (mk a) es) = map_option (mk a) (find (\<lambda>e. c_addr e = x) es)"
  by (induction es) simp_all

lemma look_up_mark: "look_up_c_elt b (mark a c) = map_option (mk a) (look_up_c_elt b c)"
  by (simp add: look_up_c_elt_def find_map_mk)

lemma owns_mark [simp]: "owns a b (mark a c) = owns a b c"
  by (auto simp: owns_def)

lemma block_at_mark [simp]: "block_at x (mark a c) = block_at x c"
  by (simp add: block_at_def look_up_c_elt_add_def find_map_mk option.case_eq_if option.map_sel)

lemma cinv_mark:
  assumes "cinv g start c"
  shows "cinv g start (mark a c)"
proof -
  have "elt_ok g start (disk c) (mk a e)" if "elt_ok g start (disk c) e" for e
    using that by (auto simp: mk_def elt_ok_def)
  then show ?thesis using assms by (auto simp: cinv_def linv_def comp_def ready_def part_start_def)
qed

lemma sync_elt_fail: "sync_elt e c = Inr (s, e1, c1) \<Longrightarrow> s < 0 \<Longrightarrow> e1 = e"
  by (auto simp: sync_elt_def split: if_split_asm option.split_asm prod.split_asm elim!: rbindE)

lemma sync_elt_elts: "sync_elt e (c\<lparr>elts := es\<rparr>) = map_sum id (\<lambda>(s, e1, c1). (s, e1, c1\<lparr>elts := es\<rparr>)) (sync_elt e c)"
  by (auto simp: sync_elt_def part_start_def Let_def split: option.split prod.split)

lemma sync_elt_mark:
  assumes "sync_elt e c = Inr (s, e1, c1)"
  shows "sync_elt e (c\<lparr>elts := es\<rparr>) = Inr (s, e1, c1\<lparr>elts := es\<rparr>)"
  using assms sync_elt_elts [where e = e and c = c and es = es] by simp

text \<open>The eviction loop does not read the list in the state.\<close>

lemma free_loop_mark:
  assumes "free_loop_c kept es c = Inr (r, c')" "here a c'" "distinct (map c_addr (kept @ es))"
  shows "free_loop_c (map (mk a) kept) (map (mk a) es) (c\<lparr>elts := ys\<rparr>) = Inr (r, mark a c')"
  using assms
proof (induction es arbitrary: kept c ys)
  case Nil
  then show ?case by (auto simp: mark_def rev_map)
next
  case (Cons e es)
  show ?case
  proof (cases "c_usage e = 0")
    case False
    then show ?thesis using Cons.IH [where kept = "e # kept" and c = c and ys = ys] Cons.prems by auto
  next
    case True
    then obtain s e1 c1 where 1: "(if c_dirty e then sync_elt e c else Inr (0, e, c)) = Inr (s, e1, c1)"
      and 2: "(if s < 0 then Inr (-1, c1\<lparr>elts := rev kept @ e1 # es\<rparr>)
               else free_loop_c kept es (c1\<lparr>nb_elements_cache := nb_elements_cache c1 - 1\<rparr>)) = Inr (r, c')"
      using Cons.prems(1) by (auto elim!: rbindE)
    let ?c = "c1\<lparr>nb_elements_cache := nb_elements_cache c1 - 1\<rparr>"
    have dirty_same: "mk a e = e" if "s < 0"
      using 1 that by (auto simp: mk_def split: if_split_asm)
    have other: "c_addr e \<noteq> a" if "\<not> s < 0"
    proof
      assume a: "c_addr e = a"
      have "tags (elts c') \<subseteq> tags kept \<union> tags es" using 2 that free_loop_tags by auto
      then have "a \<in> c_addr ` set kept \<union> c_addr ` set es" using Cons.prems(2) by (fastforce simp: here_def tags_def)
      then show False using Cons.prems(3) a by auto
    qed
    have mke: "mk a e = e" using dirty_same other mk_other by blast
    have s1: "(if c_dirty e then sync_elt e (c\<lparr>elts := ys\<rparr>) else Inr (0, e, c\<lparr>elts := ys\<rparr>)) = Inr (s, e1, c1\<lparr>elts := ys\<rparr>)"
      using 1 sync_elt_mark [of e c s e1 c1 ys] by (auto split: if_split_asm)
    have e1: "c_addr e1 = c_addr e" using 1 sync_elt_tag [of e c s e1 c1] by (auto split: if_split_asm)
    show ?thesis
    proof (cases "s < 0")
      case True
      have "mk a e1 = e1" using 1 mke True sync_elt_fail [of e c s e1 c1] by (auto split: if_split_asm)
      then show ?thesis using s1 2 \<open>c_usage e = 0\<close> mke True by (auto simp: mark_def rev_map)
    next
      case False
      have comm: "c1\<lparr>nb_elements_cache := n, elts := ys\<rparr> = c1\<lparr>elts := ys, nb_elements_cache := n\<rparr>" for n by simp
      have "free_loop_c (map (mk a) kept) (map (mk a) es) (c1\<lparr>elts := ys, nb_elements_cache := nb_elements_cache c1 - 1\<rparr>) = Inr (r, mark a c')"
        using 2 False Cons.IH [where kept = kept and c = ?c and ys = ys] Cons.prems(2,3) unfolding comm by simp
      then show ?thesis using s1 \<open>c_usage e = 0\<close> mke False by simp
    qed
  qed
qed

lemma check_full_mark:
  assumes "check_if_cache_is_full c = Inr c'" "here a c'" "distinct (map c_addr (elts c))"
  shows "check_if_cache_is_full (mark a c) = Inr (mark a c')"
proof (cases "nb_elements_cache c = MAX_CACHE_SIZE")
  case True
  then obtain r where r: "free_loop_c [] (elts c) c = Inr (r, c')"
    using assms(1) by (auto simp: check_if_cache_is_full_def free_cache_list_def elim!: rbindE)
  have "free_loop_c [] (map (mk a) (elts c)) (mark a c) = Inr (r, mark a c')"
    using free_loop_mark [OF r assms(2), of "map (mk a) (elts c)"] assms(3) by (simp add: mark_def)
  then show ?thesis using True by (simp add: check_if_cache_is_full_def free_cache_list_def)
qed (use assms(1) in \<open>simp add: check_if_cache_is_full_def\<close>)

lemma fetch_mark:
  assumes f: "fetch_block b c = Inr (eo, c')" and h: "here a c'" and a: "a < c_fresh c" and d: "distinct (map c_addr (elts c))"
  shows "fetch_block b (mark a c) = Inr (eo, mark a c')" "eo = Some e \<Longrightarrow> c_addr e \<noteq> a"
proof -
  obtain c1 m c2 where c1: "check_if_cache_is_full c = Inr c1" "calloc_elt c1 = (m, c2)"
    using f by (auto simp: fetch_block_def elim!: rbindE split: prod.split_asm)
  have 2: "elts c2 = elts c1" "c_fresh c2 = c_fresh c1" "calloc_elt (mark a c1) = (m, mark a c2)"
    using c1(2) by (auto simp: calloc_elt_def mark_def split: list.split_asm)
  have fr: "a < c_fresh c1" using a check_full_tags [OF c1(1)] by (auto simp: tags_ok_def)
  have e: "elts c' = elts c1 \<or> (\<exists>x. elts c' = x # elts c1 \<and> c_addr x = c_fresh c1)"
    using f c1 2 by (cases m) (auto simp: fetch_block_def Let_def elim!: rbindE split: if_split_asm option.split_asm)
  then have "here a c1" using h fr by (auto simp: here_def)
  then have m1: "check_if_cache_is_full (mark a c) = Inr (mark a c1)" by (rule check_full_mark [OF c1(1) _ d])
  have ps: "part_start g (mark a c2) = part_start g c2" for g by (simp add: part_start_def)
  show "fetch_block b (mark a c) = Inr (eo, mark a c')" "eo = Some e \<Longrightarrow> c_addr e \<noteq> a"
    using f c1 2 m1 ps fr
    by (cases m; auto simp: fetch_block_def Let_def mark_def mk_def elim!: rbindE split: if_split_asm option.split_asm)+
qed

lemma get_elt_mark:
  assumes "get_elt b c = Inr (eo, c')" "here a c'" "a < c_fresh c" "distinct (map c_addr (elts c))"
  shows "get_elt b (mark a c) = Inr (map_option (mk a) eo, mark a c')"
proof (cases "look_up_c_elt b c")
  case None
  then have f: "fetch_block b c = Inr (eo, c')" using assms(1) by (simp add: get_elt_def)
  note m = fetch_mark [OF f assms(2-4)]
  have "map_option (mk a) eo = eo" using m(2) by (cases eo) (simp_all add: mk_def)
  then show ?thesis using None m(1) by (simp add: get_elt_def look_up_mark)
next
  case (Some e)
  have "eo = Some e" "c' = c" using assms(1) Some by (auto simp: get_elt_def)
  then show ?thesis using Some by (simp add: get_elt_def look_up_mark)
qed

lemma here_upd_block: "(\<And>e. c_addr (f e) = c_addr e) \<Longrightarrow> c_addr ` set (upd_block b f es) = c_addr ` set es"
  by (induction es) auto

lemma upd_block_mark:
  assumes "find (\<lambda>e. c_block e = b) es = Some e" "c_addr e \<noteq> a" "c_addr e' = c_addr e" "c_block e' = c_block e"
  shows "upd_block b (\<lambda>_. e') (map (mk a) es) = map (mk a) (upd_block b (\<lambda>_. e') es)"
  using assms by (induction es) (auto simp: mk_other)

lemma get_elt_found: "get_elt b c = Inr (Some e, c') \<Longrightarrow> look_up_c_elt b c' = Some e"
  by (auto simp: get_elt_def fetch_block_def look_up_c_elt_def Let_def elim!: rbindE split: option.split_asm prod.split_asm if_split_asm)

text \<open>What \<^verbatim>\<open>write_block\<close> does once it has the element.\<close>

definition finish_write :: "u32 \<Rightarrow> c_elt \<Rightarrow> byte list \<Rightarrow> write_type \<Rightarrow> cache_op \<Rightarrow> cache \<Rightarrow> (int \<times> cache) res" where
  "finish_write b e bs ty op c1 =
     (let e1 = e\<lparr>c_data := poke 0 bs (c_data e), c_dirty := True, c_usage := (if op = UNLOCK then c_usage e - 1 else c_usage e)\<rparr>;
          c2 = c1\<lparr>elts := upd_block b (\<lambda>_. e1) (elts c1),
                   locked_files := (if op = UNLOCK \<and> c_usage e - 1 = 0 then locked_files c1 - 1 else locked_files c1)\<rparr> in
      if ty = WRITE_BACK then Inr (0, c2)
      else rbind (sync_elt e1 c2) (\<lambda>(s, e2, c3). Inr (if s < 0 then -1 else 0, c3\<lparr>elts := upd_block b (\<lambda>_. e2) (elts c3)\<rparr>)))"

lemma write_block_eq:
  "write_block b (Some bs) ty op c =
     (case c_fs c of
        None \<Rightarrow> Inl Null_deref
      | Some g \<Rightarrow>
          if length bs > unat (g_block_size g) then Inr (-1, c)
          else rbind (get_elt b c) (\<lambda>(eo, c1).
            case eo of
              None \<Rightarrow> Inr (0, c1)
            | Some e \<Rightarrow> if length bs > length (c_data e) then Inl Out_of_bounds else finish_write b e bs ty op c1))"
  unfolding write_block_def finish_write_def by (simp split: option.split)

lemma finish_tags:
  assumes "finish_write b e bs ty op c1 = Inr (s, c')" "look_up_c_elt b c1 = Some e"
  shows "tags (elts c') = tags (elts c1)" "c_fresh c' = c_fresh c1"
proof -
  define e1 where "e1 = e\<lparr>c_data := poke 0 bs (c_data e), c_dirty := True, c_usage := (if op = UNLOCK then c_usage e - 1 else c_usage e)\<rparr>"
  define n where "n = (if op = UNLOCK \<and> c_usage e - 1 = 0 then locked_files c1 - 1 else locked_files c1)"
  define c2 where "c2 = c1\<lparr>elts := upd_block b (\<lambda>_. e1) (elts c1), locked_files := n\<rparr>"
  have f: "find (\<lambda>e. c_block e = b) (elts c1) = Some e" "c_block e = b"
    using assms(2) look_up_mem [OF assms(2)] by (simp_all only: look_up_c_elt_def)
  have t: "tags (elts c2) = tags (elts c1)" using tags_upd_found [OF f(1), of e1] by (simp add: c2_def e1_def)
  have f2: "find (\<lambda>e. c_block e = b) (elts c2) = Some e1"
    using find_upd_block [OF f(1), of e1] f(2) by (simp add: c2_def e1_def)
  have u: "(if ty = WRITE_BACK then Inr (0, c2)
      else rbind (sync_elt e1 c2) (\<lambda>(s, e2, c3). Inr (if s < 0 then -1 else 0, c3\<lparr>elts := upd_block b (\<lambda>_. e2) (elts c3)\<rparr>))) = Inr (s, c')"
    using assms(1) unfolding finish_write_def Let_def e1_def [symmetric] n_def [symmetric] c2_def [symmetric] .
  have "tags (elts c') = tags (elts c2) \<and> c_fresh c' = c_fresh c2"
  proof (cases "ty = WRITE_BACK")
    case False
    then obtain s1 e2 c3 where y: "sync_elt e1 c2 = Inr (s1, e2, c3)" "c' = c3\<lparr>elts := upd_block b (\<lambda>_. e2) (elts c3)\<rparr>"
      using u by (auto elim!: rbindE)
    note k = sync_elt_tag [OF y(1)]
    then show ?thesis using tags_upd_found [OF f2, of e2] y(2) by simp
  qed (use u in simp)
  then show "tags (elts c') = tags (elts c1)" "c_fresh c' = c_fresh c1" using t by (simp_all add: c2_def)
qed

lemma write_tags:
  assumes "write_block b (Some bs) ty op c = Inr (s, c')"
  shows "tags_ok c c'"
proof -
  consider "c' = c" | eo where "get_elt b c = Inr (eo, c')"
    | e c1 where "get_elt b c = Inr (Some e, c1)" "finish_write b e bs ty op c1 = Inr (s, c')"
    using assms by (auto simp: write_block_eq elim!: rbindE split: option.split_asm if_split_asm)
  then show ?thesis
  proof cases
    case 3
    have "tags_ok c1 c'" using finish_tags [OF 3(2) get_elt_found [OF 3(1)]] by (auto intro: tags_okI)
    then show ?thesis using get_elt_tags [OF 3(1)] tags_ok_trans by blast
  qed (auto intro: get_elt_tags)
qed

text \<open>A write to another block runs alike.\<close>

lemma finish_mark:
  assumes "finish_write b e bs ty op c1 = Inr (s, c')" "look_up_c_elt b c1 = Some e" "c_addr e \<noteq> a"
  shows "finish_write b e bs ty op (mark a c1) = Inr (s, mark a c')"
proof -
  define e1 where "e1 = e\<lparr>c_data := poke 0 bs (c_data e), c_dirty := True, c_usage := (if op = UNLOCK then c_usage e - 1 else c_usage e)\<rparr>"
  define n where "n = (if op = UNLOCK \<and> c_usage e - 1 = 0 then locked_files c1 - 1 else locked_files c1)"
  define c2 where "c2 = c1\<lparr>elts := upd_block b (\<lambda>_. e1) (elts c1), locked_files := n\<rparr>"
  have f: "find (\<lambda>e. c_block e = b) (elts c1) = Some e" "c_block e = b"
    using assms(2) look_up_mem [OF assms(2)] by (simp_all only: look_up_c_elt_def)
  have f2: "find (\<lambda>e. c_block e = b) (elts c2) = Some e1"
    using find_upd_block [OF f(1), of e1] f(2) by (simp add: c2_def e1_def)
  have e1: "c_addr e1 = c_addr e" "c_block e1 = c_block e" by (simp_all add: e1_def)
  have c2m: "(mark a c1)\<lparr>elts := upd_block b (\<lambda>_. e1) (elts (mark a c1)), locked_files := n\<rparr> = mark a c2"
    using upd_block_mark [OF f(1) assms(3) e1] by (simp add: mark_def c2_def)
  have u: "(if ty = WRITE_BACK then Inr (0, c2)
      else rbind (sync_elt e1 c2) (\<lambda>(s, e2, c3). Inr (if s < 0 then -1 else 0, c3\<lparr>elts := upd_block b (\<lambda>_. e2) (elts c3)\<rparr>))) = Inr (s, c')"
    using assms(1) unfolding finish_write_def Let_def e1_def [symmetric] n_def [symmetric] c2_def [symmetric] .
  have goal: "finish_write b e bs ty op (mark a c1) = (if ty = WRITE_BACK then Inr (0, mark a c2)
      else rbind (sync_elt e1 (mark a c2)) (\<lambda>(s, e2, c3). Inr (if s < 0 then -1 else 0, c3\<lparr>elts := upd_block b (\<lambda>_. e2) (elts c3)\<rparr>)))"
    unfolding finish_write_def Let_def e1_def [symmetric] mark_simps(7) n_def [symmetric] c2m by (rule refl)
  show ?thesis
  proof (cases "ty = WRITE_BACK")
    case False
    then obtain s1 e2 c3 where y: "sync_elt e1 c2 = Inr (s1, e2, c3)" "s = (if s1 < 0 then -1 else 0)"
      "c' = c3\<lparr>elts := upd_block b (\<lambda>_. e2) (elts c3)\<rparr>"
      using u by (auto elim!: rbindE)
    note t = sync_elt_tag [OF y(1)]
    have "sync_elt e1 (mark a c2) = Inr (s1, e2, c3\<lparr>elts := map (mk a) (elts c2)\<rparr>)"
      using sync_elt_mark [OF y(1)] by (simp add: mark_def)
    moreover have "upd_block b (\<lambda>_. e2) (map (mk a) (elts c2)) = map (mk a) (upd_block b (\<lambda>_. e2) (elts c2))"
      using upd_block_mark [OF f2, of a e2] e1 t assms(3) by simp
    ultimately show ?thesis using goal False y(2,3) t by (simp add: mark_def)
  qed (use goal u in auto)
qed

lemma write_mark:
  assumes w: "write_block b (Some bs) ty op c = Inr (s, c')" and h: "here a c'" and o: "owns a b0 c" and n: "b \<noteq> b0"
    and i: "cinv g start (mark a c)"
  shows "write_block b (Some bs) ty op (mark a c) = Inr (s, mark a c')"
proof -
  have a: "a < c_fresh c" and d: "distinct (map c_addr (elts c))"
    using o i by (auto simp: owns_def cinv_def linv_def comp_def)
  obtain g where fs: "c_fs c = Some g" using w by (auto simp: write_block_eq split: option.split_asm)
  consider "length bs > unat (g_block_size g)" "c' = c" "s = -1"
    | "length bs \<le> unat (g_block_size g)" "get_elt b c = Inr (None, c')" "s = 0"
    | e c1 where "length bs \<le> unat (g_block_size g)" "get_elt b c = Inr (Some e, c1)" "finish_write b e bs ty op c1 = Inr (s, c')" "length bs \<le> length (c_data e)"
    using w fs by (auto simp: write_block_eq elim!: rbindE split: option.split_asm if_split_asm)
  then show ?thesis
  proof cases
    case 1
    then show ?thesis using fs by (simp add: write_block_eq)
  next
    case 2
    then show ?thesis using fs get_elt_mark [OF 2(2) h a d] by (simp add: write_block_eq)
  next
    case 3
    note l = get_elt_found [OF 3(2)]
    have t: "tags_ok c1 c'" using finish_tags [OF 3(3) l] by (auto intro: tags_okI)
    have "a < c_fresh c1" using a get_elt_tags [OF 3(2)] by (simp add: tags_ok_def)
    then have h1: "here a c1" by (rule here_tags [OF h t])
    have "owns a b0 c1" by (rule owns_keeps [OF o get_elt_tags [OF 3(2)]])
    then have na: "c_addr e \<noteq> a" using look_up_mem [OF l] n by (auto simp: owns_def)
    have "get_elt b (mark a c) = Inr (Some e, mark a c1)" using get_elt_mark [OF 3(2) h1 a d] na by (simp add: mk_other)
    then show ?thesis using fs 3(1,4) finish_mark [OF 3(3) l na] by (simp add: write_block_eq)
  qed
qed

text \<open>The write that closes the block makes no difference between the two.\<close>

lemma upd_block_mark_same:
  assumes "distinct (map c_addr es)" "find (\<lambda>e. c_block e = b) es = Some e"
  shows "upd_block b (\<lambda>_. e') (map (mk (c_addr e)) es) = upd_block b (\<lambda>_. e') es"
  using assms
proof (induction es)
  case (Cons x es)
  show ?case
  proof (cases "c_block x = b")
    case True
    then have "x = e" using Cons.prems(2) by simp
    then have "map (mk (c_addr e)) es = es" using Cons.prems(1) by (intro map_idI mk_other) (metis distinct.simps(2) image_eqI list.set_map list.simps(9))
    then show ?thesis using True by simp
  next
    case False
    then have f: "find (\<lambda>e. c_block e = b) es = Some e" using Cons.prems(2) by simp
    then have "c_addr x \<noteq> c_addr e" using Cons.prems(1) find_blockD [OF f] by auto
    then show ?thesis using False f Cons by (simp add: mk_other)
  qed
qed simp

lemma write_closes:
  assumes l: "look_up_c_elt b c = Some e" and d: "distinct (map c_addr (elts c))" and n: "c_fs c = Some g" "length bs \<le> unat (g_block_size g)"
  shows "write_block b (Some bs) ty op (mark (c_addr e) c) = write_block b (Some bs) ty op c"
proof -
  have f: "find (\<lambda>e. c_block e = b) (elts c) = Some e" using l by (simp add: look_up_c_elt_def)
  have g: "get_elt b c = Inr (Some e, c)" "get_elt b (mark (c_addr e) c) = Inr (Some (mk (c_addr e) e), mark (c_addr e) c)"
    using l by (simp_all add: get_elt_def look_up_mark)
  have c: "(mark (c_addr e) c)\<lparr>elts := upd_block b (\<lambda>_. x) (map (mk (c_addr e)) (elts c)), locked_files := n\<rparr> =
      c\<lparr>elts := upd_block b (\<lambda>_. x) (elts c), locked_files := n\<rparr>" for x n
    using upd_block_mark_same [OF d f] by (simp add: mark_def)
  have "finish_write b (mk (c_addr e) e) bs ty op (mark (c_addr e) c) = finish_write b e bs ty op c"
    unfolding finish_write_def Let_def mark_simps c by (simp add: mk_def)
  then show ?thesis using g n by (simp add: write_block_eq)
qed

section \<open>The array of blocks under a store and a save\<close>

definition opened :: "geometry \<Rightarrow> u32 \<Rightarrow> ptr \<Rightarrow> u32 \<Rightarrow> cache \<Rightarrow> bool" where
  "opened g start a b c \<longleftrightarrow> cinv g start (mark a c) \<and> owns a b c"

definition same_views :: "geometry \<Rightarrow> u32 \<Rightarrow> u32 set \<Rightarrow> cache \<Rightarrow> cache \<Rightarrow> bool" where
  "same_views g start X c c' \<longleftrightarrow> (\<forall>b. blk_ok g b \<longrightarrow> b \<notin> X \<longrightarrow> view g start c' b = view g start c b)"

lemma same_views_refl [simp]: "same_views g start X c c"
  by (simp add: same_views_def)

lemma same_views_trans: "same_views g start X c c1 \<Longrightarrow> same_views g start Y c1 c2 \<Longrightarrow> same_views g start (X \<union> Y) c c2"
  by (simp add: same_views_def)

lemma same_views_mono: "same_views g start X c c' \<Longrightarrow> X \<subseteq> Y \<Longrightarrow> same_views g start Y c c'"
  by (auto simp: same_views_def)

lemma same_views_mark [simp]: "same_views g start X (mark a c) (mark a c') = same_views g start X c c'"
  "same_views g start X (mark a c) c' = same_views g start X c c'" "same_views g start X c (mark a c') = same_views g start X c c'"
  by (simp_all add: same_views_def)

lemma write_any:
  assumes w: "write_block b (Some bs) ty op c = Inr (s, c')" and i: "cinv g start c" and b: "blk_ok g b"
  shows "cinv g start c'" "same_views g start {b} c c'"
proof -
  have fs: "c_fs c = Some g" using i by (simp add: cinv_def ready_def)
  consider "c' = c" | "get_elt b c = Inr (None, c')" | e c1 where "get_elt b c = Inr (Some e, c1)" "length bs \<le> unat (g_block_size g)"
    using w fs by (auto simp: write_block_eq elim!: rbindE split: option.split_asm if_split_asm)
  then have "cinv g start c' \<and> same_views g start {b} c c'"
  proof cases
    case 2
    then show ?thesis using get_elt_keeps(1,2) [OF 2 i b] by (simp add: same_views_def)
  next
    case 3
    then have "get_elt b c \<noteq> Inr (None, c2)" for c2 by simp
    then show ?thesis using write_block_keeps(1,2) [OF w i b 3(2)] by (simp add: same_views_def)
  qed (use i in simp)
  then show "cinv g start c'" "same_views g start {b} c c'" by blast+
qed

lemma read_opens:
  assumes r: "read_block_c b op c = Inr (a, c')" and i: "cinv g start c" and b: "blk_ok g b"
  shows "cinv g start c'" "same_views g start {} c c'" "tags_ok c c'" "a \<noteq> 0 \<Longrightarrow> opened g start a b c'"
    "a \<noteq> 0 \<Longrightarrow> block_at a c' = Inr (view g start c b)"
  using read_block_keeps [OF r i b] read_block_tags [OF r] read_owns [OF r i b] cinv_mark [of g start c' a]
  by (auto simp: opened_def same_views_def)

lemma opened_at:
  assumes "opened g start a b c" "block_at a c = Inr bs"
  obtains e where "look_up_c_elt b c = Some e" "c_addr e = a" "bs = view g start c b" "length bs = unat (g_block_size g)"
proof -
  have o: "owns a b (mark a c)" "cinv g start (mark a c)" "block_at a (mark a c) = Inr bs" using assms by (simp_all add: opened_def)
  obtain e where e: "look_up_c_elt b (mark a c) = Some e" "c_addr e = a" "bs = view g start (mark a c) b" "length bs = unat (g_block_size g)"
    using owns_at [OF o] by blast
  then obtain x where "look_up_c_elt b c = Some x" "e = mk a x" by (auto simp: look_up_mark)
  then show ?thesis using that [of x] e by simp
qed

lemma block_at_here: "block_at a c = Inr bs \<Longrightarrow> here a c"
  using find_addrD by (fastforce simp: block_at_def look_up_c_elt_add_def here_def split: option.split_asm if_split_asm)

lemma upd_addr_block:
  assumes "distinct (map c_addr es)" "distinct (map c_block es)" "e \<in> set es"
  shows "upd_addr (c_addr e) f es = upd_block (c_block e) f es"
  using assms by (induction es) (auto simp: rev_image_eqI)

lemma map_mk_upd_addr: "(\<And>e. mk a (f e) = f (mk a e)) \<Longrightarrow> map (mk a) (upd_addr a f es) = upd_addr a f (map (mk a) es)"
  by (induction es) auto

lemma store_opened:
  assumes st: "store_at a off bs c = Inr c'" and o: "opened g start a b c"
  shows "opened g start a b c'" "tags_ok c c'" "off + length bs \<le> unat (g_block_size g)"
    "\<And>b'. blk_ok g b' \<Longrightarrow> view g start c' b' = (if b' = b then poke off bs (view g start c b) else view g start c b')"
proof -
  let ?f = "\<lambda>e. e\<lparr>c_data := poke off bs (c_data e)\<rparr>"
  obtain data where d: "block_at a c = Inr data" "off + length bs \<le> length data" "c' = c\<lparr>elts := upd_addr a ?f (elts c)\<rparr>"
    using st by (auto simp: store_at_def elim!: rbindE split: if_split_asm)
  have own: "owns a b (mark a c)" and i: "cinv g start (mark a c)" using o by (simp_all add: opened_def)
  have at: "block_at a (mark a c) = Inr data" using d(1) by simp
  obtain e where e: "look_up_c_elt b (mark a c) = Some e" "c_addr e = a" "c_data e = data" "data = view g start (mark a c) b"
    "length data = unat (g_block_size g)" using owns_at [OF own i at] by blast
  have m: "e \<in> set (elts (mark a c))" "c_block e = b" using look_up_mem [OF e(1)] by auto
  have "e = mk a e"
  proof -
    obtain x where "e = mk a x" using m(1) by auto
    then show ?thesis by (simp add: mk_def)
  qed
  then have dirty: "c_dirty e" using e(2) by (metis c_elt.select_convs(3) c_elt.surjective c_elt.update_convs(3) mk_def)
  show "off + length bs \<le> unat (g_block_size g)" using d(2) e(5) by simp
  show t: "tags_ok c c'" using d(3) by (auto simp: tags_upd_addr intro: tags_okI)
  have "upd_addr a ?f (elts (mark a c)) = upd_block b ?f (elts (mark a c))"
    using upd_addr_block [of "elts (mark a c)" e ?f] i m e(2) by (simp add: cinv_def linv_def)
  moreover have "map (mk a) (upd_addr a ?f (elts c)) = upd_addr a ?f (map (mk a) (elts c))" by (rule map_mk_upd_addr) (simp add: mk_def)
  ultimately have c': "mark a c' = (mark a c)\<lparr>elts := upd_block b ?f (elts (mark a c)), locked_files := locked_files (mark a c)\<rparr>"
    using d(3) by (simp add: mark_def)
  have "elt_ok g start (disk (mark a c)) e" by (rule look_up_ok(1) [OF i e(1)])
  then have ok: "elt_ok g start (disk (mark a c)) (?f e)" using d(2) e(3) dirty by (simp add: elt_ok_def)
  have fe: "c_block (?f e) = b" "c_addr (?f e) = c_addr e" using m(2) by simp_all
  note u = upd_mem_keeps [where f = ?f, OF i e(1) fe ok, where n = "locked_files (mark a c)"]
  have "owns a b c'" using own owns_keeps [OF _ t] by simp
  then show "opened g start a b c'" using u(1) by (simp add: opened_def c')
  show "view g start c' b' = (if b' = b then poke off bs (view g start c b) else view g start c b')" if "blk_ok g b'" for b'
  proof -
    have "view g start (mark a c') b' = (if b' = b then c_data (?f e) else view g start (mark a c) b')"
      unfolding c' by (rule u(2) [OF that])
    then show ?thesis unfolding view_mark using e(3,4) by simp
  qed
qed

lemma write_opened:
  assumes w: "write_block b (Some bs) ty op c = Inr (s, c')" and o: "opened g start a b0 c" and h: "here a c'" and n: "b \<noteq> b0"
    and b: "blk_ok g b"
  shows "opened g start a b0 c'" "same_views g start {b} c c'" "tags_ok c c'"
proof -
  have i: "cinv g start (mark a c)" and own: "owns a b0 c" using o by (simp_all add: opened_def)
  note m = write_mark [OF w h own n i]
  show t: "tags_ok c c'" by (rule write_tags [OF w])
  show "opened g start a b0 c'" "same_views g start {b} c c'"
    using write_any [OF m i b] owns_keeps [OF own t] by (simp_all add: opened_def)
qed

lemma write_closing:
  assumes w: "write_block b (Some bs) ty op c = Inr (s, c')" and o: "opened g start a b c" and at: "block_at a c = Inr bs" and b: "blk_ok g b"
  shows "cinv g start c'" "same_views g start {} c c'" "tags_ok c c'"
proof -
  have i: "cinv g start (mark a c)" using o by (simp add: opened_def)
  obtain e where e: "look_up_c_elt b c = Some e" "c_addr e = a" "bs = view g start c b" "length bs = unat (g_block_size g)"
    using opened_at [OF o at] .
  have d: "distinct (map c_addr (elts c))" and fs: "c_fs c = Some g"
    using i by (simp_all add: cinv_def linv_def comp_def ready_def)
  have w': "write_block b (Some bs) ty op (mark a c) = Inr (s, c')"
    using write_closes [OF e(1) d fs, of bs ty op] w e(2,4) by simp
  have "get_elt b (mark a c) \<noteq> Inr (None, c1)" for c1 using e(1) by (simp add: get_elt_def look_up_mark)
  note k = write_block_keeps(1,2) [OF w' i b _ this]
  show "cinv g start c'" using k(1) e(4) by simp
  have "poke 0 bs (view g start c b) = bs" using e(3) poke_all by blast
  then show "same_views g start {} c c'" using k(2) e(3,4) by (simp add: same_views_def)
  show "tags_ok c c'" by (rule write_tags [OF w])
qed

end
