(* ===== verification/Alloc.thy ===== *)
theory Alloc
  imports Bitmap CacheTags CacheProps
begin

text \<open>
  The allocator of data blocks, \<^verbatim>\<open>get_data_block\<close> and \<^verbatim>\<open>free_data_block\<close>, as a set of numbers kept in the
  bitmap blocks of the array of blocks.
\<close>

section \<open>Blocks of the file system\<close>

lemma read_blk_opens:
  assumes "read_blk b s = Inr (a, s')" "cinv g start (fcache s)" "blk_ok g b"
  obtains c where "s' = s\<lparr>fcache := c\<rparr>" "cinv g start c" "same_views g start {} (fcache s) c"
    "a \<noteq> 0 \<Longrightarrow> opened g start a b c" "a \<noteq> 0 \<Longrightarrow> block_at a c = Inr (view g start (fcache s) b)"
proof -
  obtain c where c: "read_block_c b LOCK (fcache s) = Inr (a, c)" "s' = s\<lparr>fcache := c\<rparr>"
    using assms(1) by (auto simp: read_blk_def on_cache_def disk_read_block_def elim!: rbindE)
  show ?thesis using that [OF c(2)] read_opens [OF c(1) assms(2,3)] by blast
qed

lemma at_blk_iff: "at_blk a s = Inr (data, s') \<longleftrightarrow> s' = s \<and> block_at a (fcache s) = Inr data"
  by (cases "block_at a (fcache s)") (auto simp: at_blk_def sread_def)

lemma store_blk_opened:
  assumes "store_blk a off bs s = Inr (u, s')" "opened g start a b (fcache s)"
  obtains c where "s' = s\<lparr>fcache := c\<rparr>" "opened g start a b c" "tags_ok (fcache s) c" "off + length bs \<le> unat (g_block_size g)"
    "\<And>b'. blk_ok g b' \<Longrightarrow> view g start c b' = (if b' = b then poke off bs (view g start (fcache s) b) else view g start (fcache s) b')"
proof -
  obtain c where c: "store_at a off bs (fcache s) = Inr c" "s' = s\<lparr>fcache := c\<rparr>"
    using assms(1) by (auto simp: store_blk_def elim!: rbindE)
  show ?thesis using that [OF c(2)] store_opened [OF c(1) assms(2)] by blast
qed

lemma save_blk_cases:
  assumes "save_blk bs b s = Inr (r, s')"
  obtains c where "s' = s\<lparr>fcache := c\<rparr>"
    "c = fcache s \<or> (\<exists>r'. write_block b (Some bs) WRITE_THROUGH UNLOCK (fcache s) = Inr (r', c))"
proof -
  obtain c where c: "save_fs_block (Some bs) b UNLOCK (fcache s) = Inr (r, c)" "s' = s\<lparr>fcache := c\<rparr>"
    using assms by (auto simp: save_blk_def on_cache_def elim!: rbindE)
  show ?thesis using that [OF c(2)] c(1) by (auto simp: save_fs_block_def elim!: rbindE split: option.split_asm if_split_asm)
qed

lemma save_at_closes:
  assumes sv: "save_at a b s = Inr (r, s')" and o: "opened g start a b (fcache s)" and b: "blk_ok g b" and sz: "0 < unat (g_block_size g)"
  obtains c where "s' = s\<lparr>fcache := c\<rparr>" "cinv g start c" "same_views g start {} (fcache s) c" "here a (fcache s)"
proof -
  have fs: "c_fs (fcache s) = Some g" using o by (simp add: opened_def cinv_def ready_def)
  obtain data where d: "block_at a (fcache s) = Inr data" "save_blk (take (unat (g_block_size g)) data) b s = Inr (r, s')"
    using sv fs by (auto simp: save_at_def sbind_Inr_iff fs_block_size_def sread_def at_blk_iff sfail_def split: if_split_asm)
  obtain e where e: "length data = unat (g_block_size g)" using opened_at [OF o d(1)] by blast
  then have "save_fs_block (Some data) b UNLOCK (fcache s) = map_sum id (\<lambda>(r, c). (if r < 0 then -1 else 0, c)) (write_block b (Some data) WRITE_THROUGH UNLOCK (fcache s))"
    using fs by (cases "write_block b (Some data) WRITE_THROUGH UNLOCK (fcache s)") (auto simp: save_fs_block_def)
  then obtain r' c where c: "write_block b (Some data) WRITE_THROUGH UNLOCK (fcache s) = Inr (r', c)" "s' = s\<lparr>fcache := c\<rparr>"
    using d(2) e by (auto simp: save_blk_def on_cache_def map_sum_Inr_iff elim!: rbindE)
  show ?thesis using that [OF c(2)] write_closing [OF c(1) o d(1) b] block_at_here [OF d(1)] by blast
qed

text \<open>Saving the super block and the descriptor changes their own blocks only.\<close>

lemma save_blk_any:
  assumes "save_blk bs b s = Inr (r, s')" "cinv g start (fcache s)" "blk_ok g b"
  obtains c where "s' = s\<lparr>fcache := c\<rparr>" "cinv g start c" "same_views g start {b} (fcache s) c"
  using save_blk_cases [OF assms(1)] write_any [OF _ assms(2,3)] assms(2) same_views_refl by metis

lemma save_blk_opened:
  assumes sv: "save_blk bs b s = Inr (r, s')" and o: "opened g start a b0 (fcache s)" and h: "here a (fcache s')" and n: "b \<noteq> b0"
    and b: "blk_ok g b"
  obtains c where "s' = s\<lparr>fcache := c\<rparr>" "opened g start a b0 c" "same_views g start {b} (fcache s) c" "tags_ok (fcache s) c"
proof -
  obtain c where c: "s' = s\<lparr>fcache := c\<rparr>" "c = fcache s \<or> (\<exists>r'. write_block b (Some bs) WRITE_THROUGH UNLOCK (fcache s) = Inr (r', c))"
    using save_blk_cases [OF sv] .
  from c(2) show ?thesis
  proof
    assume "c = fcache s"
    then show ?thesis using that [OF c(1)] o by simp
  next
    assume "\<exists>r'. write_block b (Some bs) WRITE_THROUGH UNLOCK (fcache s) = Inr (r', c)"
    then obtain r' where w: "write_block b (Some bs) WRITE_THROUGH UNLOCK (fcache s) = Inr (r', c)" by blast
    have "here a c" using h c(1) by simp
    then show ?thesis using that [OF c(1)] write_opened [OF w o _ n b] by blast
  qed
qed

lemma save_super_block_blk:
  assumes "save_super_block s = Inr (r, s')"
  obtains "s' = s" | bs r' where "save_blk bs (superblock_loc s) s = Inr (r', s')"
  using assms by (auto simp: save_super_block_def sbind_Inr_iff split: option.split_asm)

lemma save_desc_blk:
  assumes "save_blk_desc_table s = Inr (r, s')"
  obtains "s' = s" | bs r' where "save_blk bs (desc_table_loc s) s = Inr (r', s')"
  using assms by (auto simp: save_blk_desc_table_def sbind_Inr_iff split: option.split_asm)

lemma saves_any:
  assumes "save_super_block s = Inr (r1, s1)" "save_blk_desc_table s1 = Inr (r2, s2)" "cinv g start (fcache s)"
    "blk_ok g (superblock_loc s)" "blk_ok g (desc_table_loc s)"
  obtains c where "s2 = s\<lparr>fcache := c\<rparr>" "cinv g start c" "same_views g start {superblock_loc s, desc_table_loc s} (fcache s) c"
proof -
  obtain c1 where c1: "s1 = s\<lparr>fcache := c1\<rparr>" "cinv g start c1" "same_views g start {superblock_loc s} (fcache s) c1"
  proof (cases rule: save_super_block_blk [OF assms(1)])
    case 1
    then show ?thesis using that [of "fcache s"] assms(3) by simp
  next
    case (2 bs r')
    show ?thesis by (rule save_blk_any [OF 2 assms(3,4)]) (rule that)
  qed
  have p: "cinv g start (fcache s1)" "desc_table_loc s1 = desc_table_loc s" using c1 by simp_all
  obtain c2 where c2: "s2 = s1\<lparr>fcache := c2\<rparr>" "cinv g start c2" "same_views g start {desc_table_loc s} (fcache s1) c2"
  proof (cases rule: save_desc_blk [OF assms(2)])
    case 1
    then show ?thesis using that [of "fcache s1"] p by simp
  next
    case (2 bs r')
    show ?thesis by (rule save_blk_any [OF 2 p(1)]) (use assms(5) p(2) that in auto)
  qed
  have "same_views g start ({superblock_loc s} \<union> {desc_table_loc s}) (fcache s) c2"
    using same_views_trans [OF c1(3), of "{desc_table_loc s}" c2] c2(3) c1(1) by simp
  then show ?thesis using that [of c2] c1(1) c2(1,2) by (simp add: insert_commute)
qed

lemma saves_opened:
  assumes "save_super_block s = Inr (r1, s1)" "save_blk_desc_table s1 = Inr (r2, s2)" "opened g start a b0 (fcache s)"
    "here a (fcache s2)" "blk_ok g (superblock_loc s)" "blk_ok g (desc_table_loc s)" "superblock_loc s \<noteq> b0" "desc_table_loc s \<noteq> b0"
  obtains c where "s2 = s\<lparr>fcache := c\<rparr>" "opened g start a b0 c" "same_views g start {superblock_loc s, desc_table_loc s} (fcache s) c"
proof -
  have a: "a < c_fresh (fcache s)" using assms(3) by (simp add: opened_def owns_def)
  have t1: "tags_ok (fcache s) (fcache s1)"
    by (rule save_super_block_blk [OF assms(1)]) (auto elim!: save_blk_cases dest: write_tags)
  have t2: "tags_ok (fcache s1) (fcache s2)"
    by (rule save_desc_blk [OF assms(2)]) (auto elim!: save_blk_cases dest: write_tags)
  have "a < c_fresh (fcache s1)" using a t1 by (simp add: tags_ok_def)
  then have h1: "here a (fcache s1)" by (rule here_tags [OF assms(4) t2])
  obtain c1 where c1: "s1 = s\<lparr>fcache := c1\<rparr>" "opened g start a b0 c1" "same_views g start {superblock_loc s} (fcache s) c1"
  proof (cases rule: save_super_block_blk [OF assms(1)])
    case 1
    then show ?thesis using that [of "fcache s"] assms(3) by simp
  next
    case (2 bs r')
    show ?thesis by (rule save_blk_opened [OF 2 assms(3) h1 assms(7,5)]) (rule that)
  qed
  have p: "opened g start a b0 (fcache s1)" "desc_table_loc s1 = desc_table_loc s" using c1 by simp_all
  obtain c2 where c2: "s2 = s1\<lparr>fcache := c2\<rparr>" "opened g start a b0 c2" "same_views g start {desc_table_loc s} (fcache s1) c2"
  proof (cases rule: save_desc_blk [OF assms(2)])
    case 1
    then show ?thesis using that [of "fcache s1"] p by simp
  next
    case (2 bs r')
    show ?thesis by (rule save_blk_opened [OF 2 p(1) assms(4)]) (use assms(6,8) p(2) that in auto)
  qed
  have "same_views g start ({superblock_loc s} \<union> {desc_table_loc s}) (fcache s) c2"
    using same_views_trans [OF c1(3), of "{desc_table_loc s}" c2] c2(3) c1(1) by simp
  then show ?thesis using that [of c2] c1(1) c2(1,2) by (simp add: insert_commute)
qed

section \<open>The search in the bitmap blocks\<close>

lemma unlock_blk_keeps:
  assumes "unlock_blk b s = Inr (u, s')" "cinv g start (fcache s)"
  obtains c where "s' = s\<lparr>fcache := c\<rparr>" "cinv g start c" "same_views g start {} (fcache s) c"
proof -
  obtain r c where c: "unlock_cache b (fcache s) = (r, c)" by fastforce
  then have s': "s' = s\<lparr>fcache := c\<rparr>" using assms(1) by (simp add: unlock_blk_def supd_def)
  show ?thesis using that [OF s'] unlock_keeps [OF c assms(2)] by (simp add: same_views_def)
qed

lemma view_length:
  assumes "cinv g start c" "blk_ok g b"
  shows "length (view g start c b) = unat (g_block_size g)"
proof (cases "blocks (elts c) b")
  case None
  then show ?thesis using assms length_read_sectors [of "disk c" start g b]
    by (simp add: view_def lview_def cinv_def linv_def ready_def)
next
  case (Some bs)
  then obtain e where e: "find (\<lambda>e. c_block e = b) (elts c) = Some e" "bs = c_data e" by (auto simp: blocks_find)
  then have "e \<in> set (elts c)" using find_blockD by blast
  then show ?thesis using assms Some e(2) by (auto simp: view_def lview_def cinv_def linv_def ready_def elt_ok_def)
qed

text \<open>One bitmap block with a clear bit: the bit is set in the array of blocks.\<close>

lemma set_bit_step:
  assumes st: "store_blk a (j div 8) [set_bit_at j data] s1 = Inr (u, s2)" and sv: "save_at a b s2 = Inr (r, s3)"
    and o: "opened g start a b (fcache s1)" and at: "block_at a (fcache s1) = Inr data" and b: "blk_ok g b" and sz: "0 < unat (g_block_size g)"
    and j: "j < 8 * unat (g_block_size g)"
  obtains c where "s3 = s1\<lparr>fcache := c\<rparr>" "cinv g start c" "data = view g start (fcache s1) b"
    "\<And>b'. blk_ok g b' \<Longrightarrow> view g start c b' = (if b' = b then data[j div 8 := set_bit_at j data] else view g start (fcache s1) b')"
proof -
  obtain e where d: "data = view g start (fcache s1) b" "length data = unat (g_block_size g)" using opened_at [OF o at] by blast
  obtain c2 where c2: "s2 = s1\<lparr>fcache := c2\<rparr>" "opened g start a b c2"
    "\<And>b'. blk_ok g b' \<Longrightarrow> view g start c2 b' = (if b' = b then poke (j div 8) [set_bit_at j data] (view g start (fcache s1) b) else view g start (fcache s1) b')"
    by (rule store_blk_opened [OF st o]) (rule that)
  have o2: "opened g start a b (fcache s2)" using c2 by simp
  obtain c3 where c3: "s3 = s2\<lparr>fcache := c3\<rparr>" "cinv g start c3" "same_views g start {} (fcache s2) c3"
    by (rule save_at_closes [OF sv o2 b sz]) (rule that)
  have "poke (j div 8) [set_bit_at j data] data = data[j div 8 := set_bit_at j data]" using d(2) j by (intro poke_one) simp
  then show ?thesis using that [of c3] c3 c2 d(1) by (simp add: same_views_def)
qed

lemma data_bitmap_loop_spec:
  assumes "data_bitmap_loop n b first bb bs s = Inr (v, s')" "cinv g start (fcache s)" "g_block_size g = 2048" "bs = 2048"
    "\<And>k. k < n \<Longrightarrow> blk_ok g (b + of_nat k)" "v \<noteq> 0"
  shows "\<exists>k j c. k < n \<and> v = first + bs * 8 * (b + of_nat k - bb) + of_nat j \<and> j < 16384 \<and>
    \<not> bbit (view g start (fcache s) (b + of_nat k)) j \<and> (\<forall>m < j. bbit (view g start (fcache s) (b + of_nat k)) m) \<and>
    (\<forall>k' < k. \<forall>m < 16384. bbit (view g start (fcache s) (b + of_nat k')) m) \<and> s' = s\<lparr>fcache := c\<rparr> \<and> cinv g start c \<and>
    (\<forall>b'. blk_ok g b' \<longrightarrow> view g start c b' =
       (if b' = b + of_nat k then (view g start (fcache s) b')[j div 8 := set_bit_at j (view g start (fcache s) b')] else view g start (fcache s) b'))"
  using assms
proof (induction n arbitrary: b s)
  case (Suc n)
  have bo: "blk_ok g b" using Suc.prems(5) [of 0] by simp
  obtain a s1 where 1: "read_blk b s = Inr (a, s1)"
    "(if a = 0 then sret 0 else sbind (at_blk a) (\<lambda>data.
       (let j = alloc_bit_bitmap data bs in
        if j \<noteq> -1 then
          sbind (store_blk a (nat j div 8) [set_bit_at (nat j) data]) (\<lambda>_.
          sbind (save_at a b) (\<lambda>r.
          if r < 0 then sret 0 else sret (first + bs * 8 * (b - bb) + of_int j)))
        else sbind (unlock_blk b) (\<lambda>_. data_bitmap_loop n (b + 1) first bb bs)))) s1 = Inr (v, s')"
    using Suc.prems(1) by (auto simp: sbind_Inr_iff)
  have a: "a \<noteq> 0" using 1(2) Suc.prems(6) by (cases "a = 0") simp_all
  obtain c1 where c1: "s1 = s\<lparr>fcache := c1\<rparr>" "cinv g start c1" "same_views g start {} (fcache s) c1"
    "opened g start a b c1" "block_at a c1 = Inr (view g start (fcache s) b)"
    by (rule read_blk_opens [OF 1(1) Suc.prems(2) bo]) (use that a in auto)
  define data where "data = view g start (fcache s) b"
  have ld: "length data = 2048" using view_length [OF Suc.prems(2) bo] Suc.prems(3) by (simp add: data_def)
  have v1: "view g start c1 b' = view g start (fcache s) b'" if "blk_ok g b'" for b' using c1(3) that by (simp add: same_views_def)
  define j where "j = alloc_bit_bitmap data bs"
  have dv: "unat bs = length data" "8 dvd length data" using ld Suc.prems(4) by simp_all
  have sp: "j = -1 \<Longrightarrow> m < 16384 \<Longrightarrow> bbit data m"
    "j \<noteq> -1 \<Longrightarrow> \<exists>k. j = int k \<and> k < 16384 \<and> \<not> bbit data k \<and> (\<forall>m < k. bbit data m)" for m
    using alloc_bit_spec [OF dv] ld unfolding j_def by auto
  have at1: "at_blk a s1 = Inr (data, s1)" using c1(1,5) by (simp add: at_blk_iff data_def)
  have 2: "(if j \<noteq> -1 then
          sbind (store_blk a (nat j div 8) [set_bit_at (nat j) data]) (\<lambda>_.
          sbind (save_at a b) (\<lambda>r.
          if r < 0 then sret 0 else sret (first + bs * 8 * (b - bb) + of_int j)))
        else sbind (unlock_blk b) (\<lambda>_. data_bitmap_loop n (b + 1) first bb bs)) s1 = Inr (v, s')"
    using 1(2) a at1 unfolding j_def by (simp add: Let_def split del: if_split)
  show ?case
  proof (cases "j = -1")
    case True
    then have full: "\<forall>m < 16384. bbit data m" using sp(1) by simp
    obtain u s2 where 3: "unlock_blk b s1 = Inr (u, s2)" "data_bitmap_loop n (b + 1) first bb bs s2 = Inr (v, s')"
      using 2 True by (auto simp: sbind_Inr_iff)
    have i1: "cinv g start (fcache s1)" using c1 by simp
    obtain c2 where c2: "s2 = s1\<lparr>fcache := c2\<rparr>" "cinv g start c2" "same_views g start {} (fcache s1) c2"
      by (rule unlock_blk_keeps [OF 3(1) i1]) (rule that)
    have v2: "view g start (fcache s2) b' = view g start (fcache s) b'" if "blk_ok g b'" for b'
      using c2(1,3) c1(1) v1 [OF that] that by (simp add: same_views_def)
    have bk: "blk_ok g (b + 1 + of_nat k)" if "k < n" for k using Suc.prems(5) [of "Suc k"] that by (simp add: add.assoc)
    have i2: "cinv g start (fcache s2)" using c2 by simp
    from Suc.IH [OF 3(2) i2 Suc.prems(3,4) bk Suc.prems(6)]
    obtain k m c where k: "k < n" "v = first + bs * 8 * (b + 1 + of_nat k - bb) + of_nat m" "m < 16384"
      "\<not> bbit (view g start (fcache s2) (b + 1 + of_nat k)) m" "\<forall>x < m. bbit (view g start (fcache s2) (b + 1 + of_nat k)) x"
      "\<forall>k' < k. \<forall>x < 16384. bbit (view g start (fcache s2) (b + 1 + of_nat k')) x" "s' = s2\<lparr>fcache := c\<rparr>" "cinv g start c"
      "\<forall>b'. blk_ok g b' \<longrightarrow> view g start c b' =
        (if b' = b + 1 + of_nat k then (view g start (fcache s2) b')[m div 8 := set_bit_at m (view g start (fcache s2) b')] else view g start (fcache s2) b')"
      by blast
    have e: "b + of_nat (Suc k) = b + 1 + of_nat k" for k by (simp add: add.assoc)
    have below: "\<forall>x < 16384. bbit (view g start (fcache s) (b + of_nat k')) x" if "k' < Suc k" for k'
    proof (cases k')
      case 0
      then show ?thesis using full by (simp add: data_def)
    next
      case (Suc i)
      then have "i < k" using that by simp
      have e2: "view g start (fcache s2) (b + 1 + of_nat i) = view g start (fcache s) (b + 1 + of_nat i)"
        by (rule v2 [OF bk]) (use \<open>i < k\<close> k(1) in simp)
      show ?thesis using k(6) [rule_format, OF \<open>i < k\<close>] unfolding Suc e e2 by blast
    qed
    show ?thesis
      by (rule exI [of _ "Suc k"], rule exI [of _ m], rule exI [of _ c]; unfold e; intro conjI)
        (use k v2 bk [OF k(1)] below c1(1) c2(1) in simp_all)
  next
    case False
    then obtain m where m: "j = int m" "m < 16384" "\<not> bbit data m" "\<forall>x < m. bbit data x" using sp(2) by auto
    obtain u s2 r where 3: "store_blk a (m div 8) [set_bit_at m data] s1 = Inr (u, s2)" "save_at a b s2 = Inr (r, s')" "v = first + bs * 8 * (b - bb) + of_nat m"
      using 2 False m(1) Suc.prems(6) by (auto simp: sbind_Inr_iff split: if_split_asm)
    have o1: "opened g start a b (fcache s1)" "block_at a (fcache s1) = Inr data" using c1 by (simp_all add: data_def)
    have sz: "0 < unat (g_block_size g)" "m < 8 * unat (g_block_size g)" using Suc.prems(3) m(2) by simp_all
    obtain c where c: "s' = s1\<lparr>fcache := c\<rparr>" "cinv g start c"
      "\<And>b'. blk_ok g b' \<Longrightarrow> view g start c b' = (if b' = b then data[m div 8 := set_bit_at m data] else view g start (fcache s1) b')"
      by (rule set_bit_step [OF 3(1,2) o1 bo sz]) (rule that)
    show ?thesis
      by (rule exI [of _ 0], rule exI [of _ m], rule exI [of _ c])
        (use c c1(1) m 3(3) v1 in \<open>simp add: data_def\<close>)
  qed
qed simp

section \<open>The set of blocks in use\<close>

text \<open>The blocks of the file system are in order: super block and descriptor, bitmaps, inodes, data.\<close>

definition areas :: "super_block \<Rightarrow> block_group_descriptor \<Rightarrow> u32 \<Rightarrow> u32 \<Rightarrow> bool" where
  "areas p d sb dt \<longleftrightarrow> sb < bg_block_bitmap d \<and> dt < bg_block_bitmap d \<and> bg_block_bitmap d \<le> bg_inode_bitmap d \<and>
     bg_inode_bitmap d \<le> s_first_data_block p \<and> 4 * (unat (s_first_data_block p) + unat (s_blocks_count p)) \<le> 2 ^ 32"

definition nb_bitmap :: "block_group_descriptor \<Rightarrow> nat" where
  "nb_bitmap d = unat (bg_inode_bitmap d) - unat (bg_block_bitmap d)"

definition used_in :: "geometry \<Rightarrow> u32 \<Rightarrow> block_group_descriptor \<Rightarrow> cache \<Rightarrow> nat set" where
  "used_in g start d c = {n. n < 16384 * nb_bitmap d \<and> bbit (view g start c (bg_block_bitmap d + of_nat (n div 16384))) (n mod 16384)}"

definition used :: "geometry \<Rightarrow> u32 \<Rightarrow> ext2 \<Rightarrow> nat set" where
  "used g start s = (case fdesc s of None \<Rightarrow> {} | Some d \<Rightarrow> used_in g start d (fcache s))"

definition alloc_ok :: "geometry \<Rightarrow> u32 \<Rightarrow> super_block \<Rightarrow> block_group_descriptor \<Rightarrow> ext2 \<Rightarrow> bool" where
  "alloc_ok g start p d s \<longleftrightarrow> cinv g start (fcache s) \<and> g_block_size g = 2048 \<and> fsup s = Some p \<and> fdesc s = Some d \<and>
     areas p d (superblock_loc s) (desc_table_loc s) \<and> 0 \<in> used_in g start d (fcache s) \<and>
     card (used_in g start d (fcache s)) + unat (s_free_blocks_count p) = unat (s_blocks_count p)"

definition alloc_inv :: "geometry \<Rightarrow> u32 \<Rightarrow> ext2 \<Rightarrow> bool" where
  "alloc_inv g start s \<longleftrightarrow> (case (fsup s, fdesc s) of (Some p, Some d) \<Rightarrow> alloc_ok g start p d s | _ \<Rightarrow> False)"

lemma finite_used [simp]: "finite (used_in g start d c)"
  by (rule finite_subset [of _ "{..< 16384 * nb_bitmap d}"]) (auto simp: used_in_def)

lemma areas_nat:
  assumes "areas p d sb dt"
  shows "unat sb < unat (bg_block_bitmap d)" "unat dt < unat (bg_block_bitmap d)" "unat (bg_block_bitmap d) \<le> unat (bg_inode_bitmap d)"
    "unat (bg_inode_bitmap d) \<le> unat (s_first_data_block p)" "4 * (unat (s_first_data_block p) + unat (s_blocks_count p)) \<le> 2 ^ 32"
  using assms by (simp_all add: areas_def word_less_nat_alt word_le_nat_alt)

lemma small_ok:
  assumes "cinv g start c" "g_block_size g = 2048" "4 * unat b + 4 \<le> 2 ^ 32"
  shows "blk_ok g b" "unat (g_block_size g) = 2048"
proof -
  have "blk_ratio g = 4" using assms(2) by (simp add: blk_ratio_def BLOCK_SIZE_def)
  then show "blk_ok g b" using assms(3) by (simp add: blk_ok_def)
  show "unat (g_block_size g) = 2048" using assms(2) by simp
qed

lemma bitmap_blk:
  assumes "areas p d sb dt" "k < nb_bitmap d"
  shows "unat (bg_block_bitmap d + of_nat k) = unat (bg_block_bitmap d) + k" "unat (bg_block_bitmap d + of_nat k) < unat (s_first_data_block p)"
proof -
  note a = areas_nat [OF assms(1)]
  have "unat (bg_block_bitmap d) + k < 2 ^ 32" using a assms(2) by (simp add: nb_bitmap_def)
  then show "unat (bg_block_bitmap d + of_nat k) = unat (bg_block_bitmap d) + k" by (simp add: unat_word_ariths unat_of_nat)
  then show "unat (bg_block_bitmap d + of_nat k) < unat (s_first_data_block p)" using a assms(2) by (simp add: nb_bitmap_def)
qed

lemma bitmap_inj:
  assumes "areas p d sb dt" "k < nb_bitmap d" "k' < nb_bitmap d"
  shows "bg_block_bitmap d + of_nat k = bg_block_bitmap d + of_nat k' \<longleftrightarrow> k = k'"
  using bitmap_blk(1) [OF assms(1,2)] bitmap_blk(1) [OF assms(1,3)] by (metis add_left_cancel)

lemma used_same:
  assumes "areas p d sb dt" "same_views g start X c c'" "\<And>k. k < nb_bitmap d \<Longrightarrow> blk_ok g (bg_block_bitmap d + of_nat k)"
    "\<And>k. k < nb_bitmap d \<Longrightarrow> bg_block_bitmap d + of_nat k \<notin> X"
  shows "used_in g start d c' = used_in g start d c"
proof -
  have "view g start c' (bg_block_bitmap d + of_nat (n div 16384)) = view g start c (bg_block_bitmap d + of_nat (n div 16384))"
    if "n < 16384 * nb_bitmap d" for n
    using assms(2-4) that by (simp add: same_views_def less_mult_imp_div_less mult.commute)
  then show ?thesis by (auto simp: used_in_def)
qed

text \<open>A bit of one bitmap block changed.\<close>

lemma used_change:
  assumes ar: "areas p d sb dt" and k: "k < nb_bitmap d" and j: "j < 16384"
    and ok: "\<And>k. k < nb_bitmap d \<Longrightarrow> blk_ok g (bg_block_bitmap d + of_nat k)"
    and v: "\<And>b'. blk_ok g b' \<Longrightarrow> view g start c' b' = (if b' = bg_block_bitmap d + of_nat k then bs else view g start c b')"
    and f: "\<And>m. m < 16384 \<Longrightarrow> bbit bs m = (if m = j then v0 else bbit (view g start c (bg_block_bitmap d + of_nat k)) m)"
  shows "used_in g start d c' = (if v0 then insert (16384 * k + j) (used_in g start d c) else used_in g start d c - {16384 * k + j})"
proof -
  define N where "N = 16384 * k + j"
  have e: "n = N \<longleftrightarrow> n div 16384 = k \<and> n mod 16384 = j" for n using j by (auto simp: N_def)
  have "bbit (view g start c' (bg_block_bitmap d + of_nat (n div 16384))) (n mod 16384) =
      (if n = N then v0 else bbit (view g start c (bg_block_bitmap d + of_nat (n div 16384))) (n mod 16384))"
    if n: "n < 16384 * nb_bitmap d" for n
  proof -
    have kn: "n div 16384 < nb_bitmap d" using n by (simp add: less_mult_imp_div_less mult.commute)
    then show ?thesis using v [OF ok [OF kn]] f [of "n mod 16384"] bitmap_inj [OF ar kn k] e [of n] by auto
  qed
  then have *: "n \<in> used_in g start d c' \<longleftrightarrow> n < 16384 * nb_bitmap d \<and> (if n = N then v0 else n \<in> used_in g start d c)" for n
    by (auto simp: used_in_def)
  have "N < 16384 * nb_bitmap d" using k j by (simp add: N_def nat_less_le)
  moreover have "n \<in> used_in g start d c \<Longrightarrow> n < 16384 * nb_bitmap d" for n by (simp add: used_in_def)
  ultimately show ?thesis unfolding N_def [symmetric] by (auto simp: * split: if_split_asm)
qed

section \<open>Getting a block\<close>

lemma fs_block_size_cinv: "cinv g start (fcache s) \<Longrightarrow> fs_block_size s = Inr (g_block_size g, s)"
  by (simp add: fs_block_size_def sread_def cinv_def ready_def)

lemma get_data_block_keeps:
  assumes r: "get_data_block s = Inr (r, s')" and inv: "alloc_ok g start p d s" and r0: "r \<noteq> 0" "r \<noteq> -1"
  shows "\<exists>p' d'. alloc_ok g start p' d' s' \<and> used_in g start d' (fcache s') = insert (unat r) (used_in g start d (fcache s)) \<and>
      p' = p\<lparr>s_free_blocks_count := s_free_blocks_count p - 1\<rparr>"
    "unat r \<notin> used_in g start d (fcache s)" "r < s_blocks_count p"
    "view g start (fcache s') (s_first_data_block p + r) = replicate 2048 0"
    "\<And>b. s_first_data_block p \<le> b \<Longrightarrow> b < s_first_data_block p + s_blocks_count p \<Longrightarrow> b \<noteq> s_first_data_block p + r \<Longrightarrow>
      view g start (fcache s') b = view g start (fcache s) b"
proof -
  have i: "cinv g start (fcache s)" "g_block_size g = 2048" "fsup s = Some p" "fdesc s = Some d"
    and ar: "areas p d (superblock_loc s) (desc_table_loc s)" and z: "0 \<in> used_in g start d (fcache s)"
    and cnt: "card (used_in g start d (fcache s)) + unat (s_free_blocks_count p) = unat (s_blocks_count p)"
    using inv by (simp_all add: alloc_ok_def)
  note a = areas_nat [OF ar]
  have fs: "c_fs (fcache s) = Some g" using i(1) by (simp add: cinv_def ready_def)
  have sz: "unat (g_block_size g) = 2048" using i(2) by simp
  have okn: "blk_ok g b" if "unat b < unat (s_first_data_block p) + unat (s_blocks_count p)" for b
    by (rule small_ok(1) [OF i(1,2)]) (use that a(5) in simp)
  have okb: "blk_ok g (bg_block_bitmap d + of_nat k)" if "k < nb_bitmap d" for k
    by (rule okn) (use bitmap_blk(2) [OF ar that] in linarith)
  let ?n = "unat (bg_inode_bitmap d) - unat (bg_block_bitmap d)"
  let ?tail = "\<lambda>b. if b = 0 then sret 0
            else
              sbind (read_blk b) (\<lambda>a.
              if a = 0 then sret 0
              else
                sbind (store_blk a 0 (replicate (unat (g_block_size g)) 0)) (\<lambda>_.
                sbind (save_at a b) (\<lambda>r.
                if r < 0 then sret (-1)
                else
                  sbind (supd (on_super (\<lambda>p. p\<lparr>s_free_blocks_count := s_free_blocks_count p - 1\<rparr>))) (\<lambda>_.
                  sbind (supd (on_desc (\<lambda>d. d\<lparr>bg_free_blocks_count := bg_free_blocks_count d - 1\<rparr>))) (\<lambda>_.
                  sbind save_super_block (\<lambda>_.
                  sbind save_blk_desc_table (\<lambda>_.
                  sret (b - s_first_data_block p))))))))"
  have free: "s_free_blocks_count p \<noteq> 0"
    using r i(3,4) fs r0 by (auto simp: get_data_block_def get_desc_table_def get_super_block_def split: if_split_asm)
  obtain b s1 where 1: "data_bitmap_loop ?n (bg_block_bitmap d) (s_first_data_block p) (bg_block_bitmap d) (g_block_size g) s = Inr (b, s1)"
    "?tail b s1 = Inr (r, s')"
    using r i(3,4) fs r0 fs_block_size_cinv [OF i(1)]
    by (auto simp: get_data_block_def get_desc_table_def get_super_block_def split: if_split_asm elim!: sbindE)
  have b0: "b \<noteq> 0" using 1(2) r0 by (cases "b = 0") simp_all
  have bk: "blk_ok g (bg_block_bitmap d + of_nat k)" if "k < ?n" for k using okb that by (simp add: nb_bitmap_def)
  obtain k j c where k: "k < nb_bitmap d" "b = s_first_data_block p + g_block_size g * 8 * (bg_block_bitmap d + of_nat k - bg_block_bitmap d) + of_nat j"
    "j < 16384" "\<not> bbit (view g start (fcache s) (bg_block_bitmap d + of_nat k)) j"
    "\<forall>m < j. bbit (view g start (fcache s) (bg_block_bitmap d + of_nat k)) m"
    "\<forall>k' < k. \<forall>m < 16384. bbit (view g start (fcache s) (bg_block_bitmap d + of_nat k')) m" "s1 = s\<lparr>fcache := c\<rparr>" "cinv g start c"
    "\<forall>b'. blk_ok g b' \<longrightarrow> view g start c b' =
       (if b' = bg_block_bitmap d + of_nat k then (view g start (fcache s) b')[j div 8 := set_bit_at j (view g start (fcache s) b')]
        else view g start (fcache s) b')"
    using data_bitmap_loop_spec [OF 1(1) i(1,2,2) bk b0] unfolding nb_bitmap_def [symmetric] by blast
  define N where "N = 16384 * k + j"
  have fresh: "N \<notin> used_in g start d (fcache s)" using k(3,4) by (simp add: used_in_def N_def)
  have below: "{..< N} \<subseteq> used_in g start d (fcache s)"
  proof
    fix m
    assume "m \<in> {..< N}"
    then have m: "m < N" by simp
    have kk: "k' < k" if "k' = m div 16384" "k' \<noteq> k" for k'
    proof -
      have "m < 16384 * Suc k" using m k(3) by (simp add: N_def)
      then have "m div 16384 < Suc k" by (simp add: less_mult_imp_div_less mult.commute)
      then show ?thesis using that by simp
    qed
    have "bbit (view g start (fcache s) (bg_block_bitmap d + of_nat (m div 16384))) (m mod 16384)"
    proof (cases "m div 16384 = k")
      case True
      then have "m mod 16384 < j" using m unfolding N_def by (metis add_less_cancel_left mult_div_mod_eq)
      then show ?thesis using k(5) True by simp
    next
      case False
      then show ?thesis using k(6) kk by simp
    qed
    moreover have "m < 16384 * nb_bitmap d" using m k(1,3) by (simp add: N_def)
    ultimately show "m \<in> used_in g start d (fcache s)" by (simp add: used_in_def)
  qed
  have cN: "N \<le> card (used_in g start d (fcache s))" using card_mono [OF finite_used below] by simp
  have fpos: "0 < unat (s_free_blocks_count p)" using free by (simp add: unat_gt_0)
  then have Nb: "N < unat (s_blocks_count p)" using cnt cN by linarith
  have N32: "N < 2 ^ 32" using Nb unsigned_less [of "s_blocks_count p", where 'a = nat] by simp
  have b: "b = s_first_data_block p + of_nat N" using k(2) i(2) by (simp add: N_def algebra_simps)
  have uN: "unat (of_nat N :: u32) = N" using N32 by (simp add: unat_of_nat)
  have ub: "unat b = unat (s_first_data_block p) + N" using a(5) Nb unfolding b by (simp add: unat_word_ariths uN)
  have bo: "blk_ok g b" by (rule okn) (use ub Nb in linarith)
  obtain a' s2 u s3 r1 s4 where 2: "read_blk b s1 = Inr (a', s2)" "a' \<noteq> 0" "store_blk a' 0 (replicate 2048 0) s2 = Inr (u, s3)"
    "save_at a' b s3 = Inr (r1, s4)" "\<not> r1 < 0"
    and 3: "sbind save_super_block (\<lambda>_. sbind save_blk_desc_table (\<lambda>_. sret (b - s_first_data_block p)))
      (on_desc (\<lambda>d. d\<lparr>bg_free_blocks_count := bg_free_blocks_count d - 1\<rparr>) (on_super (\<lambda>p. p\<lparr>s_free_blocks_count := s_free_blocks_count p - 1\<rparr>) s4)) = Inr (r, s')"
    using 1(2) b0 r0 sz by (auto simp: supd_def elim!: sbindE split: if_split_asm)
  have i1: "cinv g start (fcache s1)" using k(7,8) by simp
  obtain c2 where c2: "s2 = s1\<lparr>fcache := c2\<rparr>" "opened g start a' b c2" "same_views g start {} (fcache s1) c2"
    by (rule read_blk_opens [OF 2(1) i1 bo]) (use that 2(2) in auto)
  have o2: "opened g start a' b (fcache s2)" using c2 by simp
  obtain c3 where c3: "s3 = s2\<lparr>fcache := c3\<rparr>" "opened g start a' b c3"
    "\<And>b'. blk_ok g b' \<Longrightarrow> view g start c3 b' = (if b' = b then poke 0 (replicate 2048 0) (view g start (fcache s2) b) else view g start (fcache s2) b')"
    by (rule store_blk_opened [OF 2(3) o2]) (rule that)
  have o3: "opened g start a' b (fcache s3)" using c3 by simp
  have szp: "0 < unat (g_block_size g)" using sz by simp
  obtain c4 where c4: "s4 = s3\<lparr>fcache := c4\<rparr>" "cinv g start c4" "same_views g start {} (fcache s3) c4"
    by (rule save_at_closes [OF 2(4) o3 bo szp]) (rule that)
  define s5 where "s5 = on_desc (\<lambda>d. d\<lparr>bg_free_blocks_count := bg_free_blocks_count d - 1\<rparr>) (on_super (\<lambda>p. p\<lparr>s_free_blocks_count := s_free_blocks_count p - 1\<rparr>) s4)"
  define p' where "p' = p\<lparr>s_free_blocks_count := s_free_blocks_count p - 1\<rparr>"
  define d' where "d' = d\<lparr>bg_free_blocks_count := bg_free_blocks_count d - 1\<rparr>"
  have s5: "fcache s5 = c4" "fsup s5 = Some p'" "fdesc s5 = Some d'" "superblock_loc s5 = superblock_loc s" "desc_table_loc s5 = desc_table_loc s"
    using c4(1) c3(1) c2(1) k(7) i(3,4) by (simp_all add: s5_def on_desc_def on_super_def p'_def d'_def)
  obtain r2 s6 r3 where 4: "save_super_block s5 = Inr (r2, s6)" "save_blk_desc_table s6 = Inr (r3, s')" "r = b - s_first_data_block p"
    using 3 unfolding s5_def [symmetric] by (auto elim!: sbindE)
  have oks: "blk_ok g (superblock_loc s)" "blk_ok g (desc_table_loc s)" by (rule okn; use a in linarith)+
  have c4': "cinv g start (fcache s5)" "blk_ok g (superblock_loc s5)" "blk_ok g (desc_table_loc s5)" using s5 c4(2) oks by simp_all
  obtain c' where c': "s' = s5\<lparr>fcache := c'\<rparr>" "cinv g start c'" "same_views g start {superblock_loc s, desc_table_loc s} c4 c'"
    by (rule saves_any [OF 4(1,2) c4']) (use that s5 in auto)
  have rN: "r = of_nat N" "unat r = N" using 4(3) uN unfolding b by simp_all
  have v2: "view g start (fcache s2) b' = view g start c b'" if "blk_ok g b'" for b'
    using c2(1,3) k(7) that by (simp add: same_views_def)
  have "length (view g start (fcache s2) b) = 2048" using view_length [of g start c b] k(8) bo v2 sz by simp
  then have pz: "poke 0 (replicate 2048 0) (view g start (fcache s2) b) = replicate 2048 0" by (simp add: poke_all)
  have v4: "view g start c4 b' = (if b' = b then replicate 2048 0 else view g start c b')" if "blk_ok g b'" for b'
    using c4(3) c3(1) c3(3) [OF that] v2 [OF that] pz that by (simp add: same_views_def)
  have v': "view g start c' b' = (if b' = b then replicate 2048 0 else view g start c b')"
    if "blk_ok g b'" "b' \<notin> {superblock_loc s, desc_table_loc s}" for b'
    using c'(3) v4 [OF that(1)] that by (simp add: same_views_def)
  have data: "b' \<notin> {superblock_loc s, desc_table_loc s}" "\<And>k. k < nb_bitmap d \<Longrightarrow> b' \<noteq> bg_block_bitmap d + of_nat k"
    if "unat (s_first_data_block p) \<le> unat b'" for b'
    using that a bitmap_blk(2) [OF ar] by fastforce+
  have bit_apart: "bg_block_bitmap d + of_nat k \<notin> {superblock_loc s, desc_table_loc s, b}" if "k < nb_bitmap d" for k
  proof -
    have "unat (bg_block_bitmap d + of_nat k) \<noteq> unat b" using bitmap_blk(2) [OF ar that] ub by linarith
    moreover have "unat (bg_block_bitmap d + of_nat k) \<noteq> unat (superblock_loc s)" "unat (bg_block_bitmap d + of_nat k) \<noteq> unat (desc_table_loc s)"
      using bitmap_blk(1) [OF ar that] a by linarith+
    ultimately show ?thesis by auto
  qed
  have sv: "same_views g start {superblock_loc s, desc_table_loc s, b} c c'" using v' by (auto simp: same_views_def)
  have u1: "used_in g start d c = insert N (used_in g start d (fcache s))"
  proof -
    let ?v = "view g start (fcache s) (bg_block_bitmap d + of_nat k)"
    have "length ?v = 2048" using view_length [OF i(1) okb [OF k(1)]] sz by simp
    then have f: "bbit (?v[j div 8 := set_bit_at j ?v]) m = (if m = j then True else bbit ?v m)" for m
      using bbit_update(1) [of j ?v m] k(3) by auto
    have vk: "view g start c b' = (if b' = bg_block_bitmap d + of_nat k then ?v[j div 8 := set_bit_at j ?v] else view g start (fcache s) b')"
      if "blk_ok g b'" for b' using k(9) that by simp
    show ?thesis using used_change [OF ar k(1,3) okb vk f] by (simp add: N_def)
  qed
  have u2: "used_in g start d c' = insert N (used_in g start d (fcache s))"
    using used_same [OF ar sv okb bit_apart] u1 by simp
  have ud: "used_in g start d' x = used_in g start d x" for x by (simp add: used_in_def nb_bitmap_def d'_def)
  show "unat r \<notin> used_in g start d (fcache s)" using fresh rN by simp
  show "r < s_blocks_count p" using Nb rN by (simp add: word_less_nat_alt)
  have "areas p' d' (superblock_loc s) (desc_table_loc s)" using ar by (simp add: areas_def p'_def d'_def)
  moreover have "card (insert N (used_in g start d (fcache s))) + unat (s_free_blocks_count p') = unat (s_blocks_count p')"
    using cnt fresh free fpos by (simp add: p'_def unat_minus_one)
  ultimately have "alloc_ok g start p' d' s'"
    using c'(1,2) s5 i(2) z by (simp add: alloc_ok_def ud u2)
  then show "\<exists>p' d'. alloc_ok g start p' d' s' \<and> used_in g start d' (fcache s') = insert (unat r) (used_in g start d (fcache s)) \<and>
      p' = p\<lparr>s_free_blocks_count := s_free_blocks_count p - 1\<rparr>"
    using ud u2 c'(1) rN unfolding p'_def by auto
  have br: "s_first_data_block p + r = b" using rN(1) b by simp
  show "view g start (fcache s') (s_first_data_block p + r) = replicate 2048 0"
    unfolding br using v' [OF bo] data(1) [of b] ub c'(1) by simp
  show "view g start (fcache s') b' = view g start (fcache s) b'"
    if bb: "s_first_data_block p \<le> b'" "b' < s_first_data_block p + s_blocks_count p" "b' \<noteq> s_first_data_block p + r" for b'
  proof -
    have "unat (s_first_data_block p + s_blocks_count p) = unat (s_first_data_block p) + unat (s_blocks_count p)"
      using a(5) by (simp add: unat_word_ariths)
    then have ok': "blk_ok g b'" using bb(2) by (intro okn) (simp add: word_less_nat_alt)
    have fb: "unat (s_first_data_block p) \<le> unat b'" using bb(1) by (simp add: word_le_nat_alt)
    have "view g start c' b' = view g start c b'" using v' [OF ok' data(1) [OF fb]] bb(3) br by simp
    also have "\<dots> = view g start (fcache s) b'" using k(9) ok' data(2) [OF fb k(1)] by simp
    finally show ?thesis using c'(1) by simp
  qed
qed

section \<open>Freeing a block\<close>

text \<open>
  The bitmap block is changed in memory, the super block and the descriptor are saved, and only then
  the bitmap block.
\<close>

lemma free_data_block_keeps:
  assumes r: "free_data_block n s = Inr (0, s')" and inv: "alloc_ok g start p d s" and u: "unat n \<in> used_in g start d (fcache s)"
  shows "\<exists>p' d'. alloc_ok g start p' d' s' \<and> used_in g start d' (fcache s') = used_in g start d (fcache s) - {unat n} \<and>
      p' = p\<lparr>s_free_blocks_count := s_free_blocks_count p + 1\<rparr>"
    "\<And>b. s_first_data_block p \<le> b \<Longrightarrow> b < s_first_data_block p + s_blocks_count p \<Longrightarrow>
      view g start (fcache s') b = view g start (fcache s) b"
proof -
  have i: "cinv g start (fcache s)" "g_block_size g = 2048" "fsup s = Some p" "fdesc s = Some d"
    and ar: "areas p d (superblock_loc s) (desc_table_loc s)" and z: "0 \<in> used_in g start d (fcache s)"
    and cnt: "card (used_in g start d (fcache s)) + unat (s_free_blocks_count p) = unat (s_blocks_count p)"
    using inv by (simp_all add: alloc_ok_def)
  note a = areas_nat [OF ar]
  have fs: "c_fs (fcache s) = Some g" using i(1) by (simp add: cinv_def ready_def)
  have sz: "unat (g_block_size g) = 2048" using i(2) by simp
  have okn: "blk_ok g b" if "unat b < unat (s_first_data_block p) + unat (s_blocks_count p)" for b
    by (rule small_ok(1) [OF i(1,2)]) (use that a(5) in simp)
  have okb: "blk_ok g (bg_block_bitmap d + of_nat k)" if "k < nb_bitmap d" for k
    by (rule okn) (use bitmap_blk(2) [OF ar that] in linarith)
  define k where "k = unat n div 16384"
  define j where "j = unat n mod 16384"
  have kj: "k < nb_bitmap d" "j < 16384" "unat n = 16384 * k + j"
    using u by (simp_all add: used_in_def k_def j_def less_mult_imp_div_less mult.commute)
  define b where "b = bg_block_bitmap d + of_nat k"
  have bo: "blk_ok g b" using okb [OF kj(1)] by (simp add: b_def)
  have n0: "n \<noteq> 0" "\<not> n > s_blocks_count p"
    using r i(3,4) fs by (auto simp: free_data_block_def get_desc_table_def get_super_block_def split: if_split_asm)
  have b8: "8 * g_block_size g = 16384" "g_block_size g * 8 = 16384" using i(2) by simp_all
  have w: "n div (8 * g_block_size g) = of_nat k" "unat (n mod (g_block_size g * 8)) = j"
  proof -
    have "unat (n div 16384) = unat n div 16384" by (simp add: unat_div)
    then have "of_nat (unat n div 16384) = n div 16384" unfolding of_nat_eq by (intro exI [of _ 0]) simp
    then show "n div (8 * g_block_size g) = of_nat k" unfolding b8 k_def by simp
    show "unat (n mod (g_block_size g * 8)) = j" unfolding b8 j_def by (simp add: unat_mod)
  qed
  have i8: "8 * g_block_size g \<noteq> 0" using i(2) by simp
  obtain a' s1 data u' s2 s3 s4 r2 r3 r4 where 1: "read_blk b s = Inr (a', s1)" "a' \<noteq> 0" "at_blk a' s1 = Inr (data, s1)"
    "store_blk a' (j div 8) [clear_bit_at j data] s1 = Inr (u', s2)"
    "save_super_block (on_desc (\<lambda>d. d\<lparr>bg_free_blocks_count := bg_free_blocks_count d + 1\<rparr>) (on_super (\<lambda>p. p\<lparr>s_free_blocks_count := s_free_blocks_count p + 1\<rparr>) s2)) = Inr (r2, s3)"
    "save_blk_desc_table s3 = Inr (r3, s4)" "save_at a' b s4 = Inr (r4, s')"
    using r i(3,4) fs n0 fs_block_size_cinv [OF i(1)] i8
    by (auto simp: free_data_block_def get_desc_table_def get_super_block_def Let_def w b_def supd_def at_blk_iff split: if_split_asm elim!: sbindE)
  define p' where "p' = p\<lparr>s_free_blocks_count := s_free_blocks_count p + 1\<rparr>"
  define d' where "d' = d\<lparr>bg_free_blocks_count := bg_free_blocks_count d + 1\<rparr>"
  define s2' where "s2' = on_desc (\<lambda>d. d\<lparr>bg_free_blocks_count := bg_free_blocks_count d + 1\<rparr>) (on_super (\<lambda>p. p\<lparr>s_free_blocks_count := s_free_blocks_count p + 1\<rparr>) s2)"
  obtain c1 where c1: "s1 = s\<lparr>fcache := c1\<rparr>" "opened g start a' b c1" "same_views g start {} (fcache s) c1" "block_at a' c1 = Inr (view g start (fcache s) b)"
    by (rule read_blk_opens [OF 1(1) i(1) bo]) (use that 1(2) in auto)
  have data: "data = view g start (fcache s) b" using 1(3) c1(1,4) by (simp add: at_blk_iff)
  have ld: "length data = 2048" using view_length [OF i(1) bo] sz data by simp
  have o1: "opened g start a' b (fcache s1)" using c1 by simp
  obtain c2 where c2: "s2 = s1\<lparr>fcache := c2\<rparr>" "opened g start a' b c2"
    "\<And>b'. blk_ok g b' \<Longrightarrow> view g start c2 b' = (if b' = b then poke (j div 8) [clear_bit_at j data] (view g start (fcache s1) b) else view g start (fcache s1) b')"
    by (rule store_blk_opened [OF 1(4) o1]) (rule that)
  have s2': "fcache s2' = c2" "fsup s2' = Some p'" "fdesc s2' = Some d'" "superblock_loc s2' = superblock_loc s" "desc_table_loc s2' = desc_table_loc s"
    using c2(1) c1(1) i(3,4) by (simp_all add: s2'_def on_desc_def on_super_def p'_def d'_def)
  have oks: "blk_ok g (superblock_loc s)" "blk_ok g (desc_table_loc s)" by (rule okn; use a in linarith)+
  have ub: "unat b = unat (bg_block_bitmap d) + k" unfolding b_def by (rule bitmap_blk(1) [OF ar kj(1)])
  have nb: "superblock_loc s \<noteq> b" "desc_table_loc s \<noteq> b" using ub a by auto
  have szp: "0 < unat (g_block_size g)" using sz by simp
  have o2: "opened g start a' b (fcache s2')" using s2' c2 by simp
  have h4: "here a' (fcache s4)"
    using 1(7) block_at_here by (auto simp: save_at_def sbind_Inr_iff at_blk_iff fs_block_size_def sread_def elim!: rbindE split: option.split_asm)
  have oks2: "blk_ok g (superblock_loc s2')" "blk_ok g (desc_table_loc s2')" "superblock_loc s2' \<noteq> b" "desc_table_loc s2' \<noteq> b"
    using oks nb s2' by simp_all
  obtain c4 where c4: "s4 = s2'\<lparr>fcache := c4\<rparr>" "opened g start a' b c4" "same_views g start {superblock_loc s, desc_table_loc s} c2 c4"
    by (rule saves_opened [OF 1(5,6) [unfolded s2'_def [symmetric]] o2 h4 oks2]) (use that s2' in auto)
  have o4: "opened g start a' b (fcache s4)" using c4 by simp
  obtain c' where c': "s' = s4\<lparr>fcache := c'\<rparr>" "cinv g start c'" "same_views g start {} (fcache s4) c'"
    by (rule save_at_closes [OF 1(7) o4 bo szp]) (rule that)
  have pk: "poke (j div 8) [clear_bit_at j data] data = data[j div 8 := clear_bit_at j data]"
    using ld kj(2) by (intro poke_one) simp
  have v2: "view g start c2 b' = (if b' = b then data[j div 8 := clear_bit_at j data] else view g start (fcache s) b')" if "blk_ok g b'" for b'
    using c2(3) [OF that] c1(1,3) that bo pk data by (simp add: same_views_def)
  have sv: "same_views g start {superblock_loc s, desc_table_loc s} c2 c'"
    using c4(1,3) c'(3) by (simp add: same_views_def)
  have bit_apart: "bg_block_bitmap d + of_nat k \<notin> {superblock_loc s, desc_table_loc s}" if "k < nb_bitmap d" for k
    using bitmap_blk(1) [OF ar that] a by auto
  have u1: "used_in g start d c2 = used_in g start d (fcache s) - {unat n}"
  proof -
    have f: "bbit (data[j div 8 := clear_bit_at j data]) m = (if m = j then False else bbit (view g start (fcache s) (bg_block_bitmap d + of_nat k)) m)" for m
      using bbit_update(2) [of j data m] kj(2) ld data b_def by auto
    have vk: "view g start c2 b' = (if b' = bg_block_bitmap d + of_nat k then data[j div 8 := clear_bit_at j data] else view g start (fcache s) b')"
      if "blk_ok g b'" for b' using v2 [OF that] by (simp add: b_def)
    show ?thesis using used_change [OF ar kj(1,2) okb vk f] kj(3) by simp
  qed
  have u2: "used_in g start d c' = used_in g start d (fcache s) - {unat n}"
    using used_same [OF ar sv okb bit_apart] u1 by simp
  have ud: "used_in g start d' x = used_in g start d x" for x by (simp add: used_in_def nb_bitmap_def d'_def)
  have "areas p' d' (superblock_loc s) (desc_table_loc s)" using ar by (simp add: areas_def p'_def d'_def)
  moreover have "card (used_in g start d (fcache s) - {unat n}) + unat (s_free_blocks_count p') = unat (s_blocks_count p')"
  proof -
    have c0: "0 < card (used_in g start d (fcache s))" using u by (auto simp: card_gt_0_iff)
    then have "unat (s_free_blocks_count p) < unat (s_blocks_count p)" using cnt by linarith
    then have "unat (s_free_blocks_count p) + 1 < 2 ^ 32" using unsigned_less [of "s_blocks_count p", where 'a = nat] by simp
    then have "unat (s_free_blocks_count p + 1) = unat (s_free_blocks_count p) + 1" by (simp add: unat_word_ariths)
    then show ?thesis using cnt u c0 by (simp add: p'_def)
  qed
  moreover have "0 \<in> used_in g start d (fcache s) - {unat n}" using z n0(1) by (simp add: unat_eq_0)
  ultimately have "alloc_ok g start p' d' s'" using c'(1,2) c4(1) s2' i(2) by (simp add: alloc_ok_def ud u2)
  then show "\<exists>p' d'. alloc_ok g start p' d' s' \<and> used_in g start d' (fcache s') = used_in g start d (fcache s) - {unat n} \<and>
      p' = p\<lparr>s_free_blocks_count := s_free_blocks_count p + 1\<rparr>"
    using ud u2 c'(1) unfolding p'_def by auto
  show "view g start (fcache s') b' = view g start (fcache s) b'"
    if bb: "s_first_data_block p \<le> b'" "b' < s_first_data_block p + s_blocks_count p" for b'
  proof -
    have "unat (s_first_data_block p + s_blocks_count p) = unat (s_first_data_block p) + unat (s_blocks_count p)"
      using a(5) by (simp add: unat_word_ariths)
    then have ok': "blk_ok g b'" using bb(2) by (intro okn) (simp add: word_less_nat_alt)
    have fb: "unat (s_first_data_block p) \<le> unat b'" using bb(1) by (simp add: word_le_nat_alt)
    have "unat b < unat (s_first_data_block p)" unfolding b_def by (rule bitmap_blk(2) [OF ar kj(1)])
    then have "b' \<noteq> b" "b' \<notin> {superblock_loc s, desc_table_loc s}" using fb a by auto
    then have "view g start c' b' = view g start (fcache s) b'" using sv v2 [OF ok'] ok' by (simp add: same_views_def)
    then show ?thesis using c'(1) by simp
  qed
qed

end
