(* ===== verification/AllocProps.thy ===== *)
theory AllocProps
  imports Alloc
begin

text \<open>
  Runs of the allocator of data blocks: no block is handed out twice, and every block is inside the
  file system.
\<close>

section \<open>Runs\<close>

text \<open>The calls that succeed, with the block they hand out or take back; a caller frees blocks in use.\<close>

datatype alloc_call = Al_get u32 | Al_free u32

inductive alloc_step :: "geometry \<Rightarrow> u32 \<Rightarrow> ext2 \<Rightarrow> alloc_call \<Rightarrow> ext2 \<Rightarrow> bool" where
  got: "get_data_block s = Inr (r, s') \<Longrightarrow> r \<noteq> 0 \<Longrightarrow> r \<noteq> -1 \<Longrightarrow> alloc_step g start s (Al_get r) s'"
| freed: "free_data_block n s = Inr (0, s') \<Longrightarrow> unat n \<in> used g start s \<Longrightarrow> alloc_step g start s (Al_free n) s'"

inductive alloc_run :: "geometry \<Rightarrow> u32 \<Rightarrow> ext2 \<Rightarrow> alloc_call list \<Rightarrow> ext2 \<Rightarrow> bool" where
  stop: "alloc_run g start s [] s"
| more: "alloc_step g start s x s1 \<Longrightarrow> alloc_run g start s1 xs s' \<Longrightarrow> alloc_run g start s (x # xs) s'"

fun on_used :: "alloc_call \<Rightarrow> nat set \<Rightarrow> nat set" where
  "on_used (Al_get r) U = insert (unat r) U"
| "on_used (Al_free n) U = U - {unat n}"

text \<open>Every block handed out is free at that moment and below the number of blocks.\<close>

fun fresh_calls :: "nat \<Rightarrow> nat set \<Rightarrow> alloc_call list \<Rightarrow> bool" where
  "fresh_calls n U [] = True"
| "fresh_calls n U (Al_get r # xs) = (unat r \<notin> U \<and> unat r < n \<and> fresh_calls n (insert (unat r) U) xs)"
| "fresh_calls n U (Al_free r # xs) = fresh_calls n (U - {unat r}) xs"

definition block_limit :: "ext2 \<Rightarrow> nat" where
  "block_limit s = (case fsup s of None \<Rightarrow> 0 | Some p \<Rightarrow> unat (s_blocks_count p))"

lemma alloc_invE:
  assumes "alloc_inv g start s"
  obtains p d where "alloc_ok g start p d s" "used g start s = used_in g start d (fcache s)" "block_limit s = unat (s_blocks_count p)"
  using assms by (cases "fsup s"; cases "fdesc s") (auto simp: alloc_inv_def used_def block_limit_def)

lemma alloc_okD:
  assumes "alloc_ok g start p d s"
  shows "alloc_inv g start s" "used g start s = used_in g start d (fcache s)" "block_limit s = unat (s_blocks_count p)"
  using assms by (simp_all add: alloc_inv_def alloc_ok_def used_def block_limit_def)

lemma alloc_step_keeps:
  assumes "alloc_step g start s x s'" "alloc_inv g start s"
  shows "alloc_inv g start s' \<and> used g start s' = on_used x (used g start s) \<and> block_limit s' = block_limit s \<and>
    (\<forall>r. x = Al_get r \<longrightarrow> unat r \<notin> used g start s \<and> unat r < block_limit s)"
proof -
  obtain p d where o: "alloc_ok g start p d s" "used g start s = used_in g start d (fcache s)" "block_limit s = unat (s_blocks_count p)"
    using alloc_invE [OF assms(2)] .
  from assms(1) show ?thesis
  proof cases
    case (got r)
    obtain p' d' where k: "alloc_ok g start p' d' s'" "used_in g start d' (fcache s') = insert (unat r) (used_in g start d (fcache s))"
      "p' = p\<lparr>s_free_blocks_count := s_free_blocks_count p - 1\<rparr>"
      using get_data_block_keeps(1) [OF got(2) o(1) got(3,4)] by blast
    show ?thesis using alloc_okD [OF k(1)] k(2,3) o(2,3) got(1) get_data_block_keeps(2,3) [OF got(2) o(1) got(3,4)]
      by (simp add: word_less_nat_alt)
  next
    case (freed n)
    have u: "unat n \<in> used_in g start d (fcache s)" using freed(3) o(2) by simp
    obtain p' d' where k: "alloc_ok g start p' d' s'" "used_in g start d' (fcache s') = used_in g start d (fcache s) - {unat n}"
      "p' = p\<lparr>s_free_blocks_count := s_free_blocks_count p + 1\<rparr>"
      using free_data_block_keeps(1) [OF freed(2) o(1) u] by blast
    show ?thesis using alloc_okD [OF k(1)] k(2,3) o(2,3) freed(1) by simp
  qed
qed

lemma alloc_run_keeps:
  "alloc_run g start s xs s' \<Longrightarrow> alloc_inv g start s \<Longrightarrow>
    alloc_inv g start s' \<and> used g start s' = fold on_used xs (used g start s) \<and> fresh_calls (block_limit s) (used g start s) xs"
proof (induction rule: alloc_run.induct)
  case (more g start s x s1 xs s')
  have k: "alloc_inv g start s1" "used g start s1 = on_used x (used g start s)" "block_limit s1 = block_limit s"
    "\<And>r. x = Al_get r \<Longrightarrow> unat r \<notin> used g start s \<and> unat r < block_limit s"
    using alloc_step_keeps [OF more(1,4)] by blast+
  then show ?case using more.IH [OF k(1)] by (cases x) auto
qed simp

section \<open>Progress\<close>

text \<open>
  With the blocks in the cache and a disk that does not fail, the steps return: what the example
  below needs.
\<close>

definition steady :: "geometry \<Rightarrow> u32 set \<Rightarrow> cache \<Rightarrow> bool" where
  "steady g A c \<longleftrightarrow> c_fs c = Some g \<and> (\<exists>st. part_start g c = Inr st) \<and> g_block_size g = 2048 \<and> write_results (disk c) = [] \<and>
     A \<subseteq> c_block ` set (elts c) \<and> (\<forall>e \<in> set (elts c). length (c_data e) = 2048 \<and> 0 < c_addr e)"

lemma steady_look_up:
  assumes "steady g A c" "b \<in> A"
  obtains e where "look_up_c_elt b c = Some e" "e \<in> set (elts c)" "c_block e = b" "length (c_data e) = 2048" "0 < c_addr e"
proof -
  have "look_up_c_elt b c \<noteq> None" using assms by (auto simp: steady_def look_up_c_elt_def find_None_iff)
  then obtain e where "look_up_c_elt b c = Some e" by blast
  then show ?thesis using that look_up_mem [of b c e] assms(1) by (auto simp: steady_def)
qed

lemma set_upd_block: "set (upd_block b f es) \<subseteq> f ` set es \<union> set es"
  by (induction es) auto

lemma set_upd_addr: "set (upd_addr a f es) \<subseteq> f ` set es \<union> set es"
  by (induction es) auto

lemma blocks_tags: "c_block ` set es = snd ` tags es" "c_addr ` set es = fst ` tags es"
  by (simp_all add: tags_def image_image)

lemma read_progress:
  assumes "steady g A c" "b \<in> A"
  obtains a c' where "read_block_c b LOCK c = Inr (a, c')" "a \<noteq> 0" "steady g A c'" "here a c'"
proof -
  obtain e where e: "look_up_c_elt b c = Some e" "e \<in> set (elts c)" "0 < c_addr e" using steady_look_up [OF assms] by metis
  have t: "tags (elts (lock_elt e c)) = tags (elts c)" by (simp add: lock_elt_def tags_upd_block)
  have "\<forall>x \<in> set (elts (lock_elt e c)). length (c_data x) = 2048 \<and> 0 < c_addr x"
    using assms(1) set_upd_block [of "c_block e" "\<lambda>e. e\<lparr>c_usage := c_usage e + 1\<rparr>" "elts c"] by (auto simp: lock_elt_def steady_def)
  then have "steady g A (lock_elt e c)" using assms(1) t by (simp add: steady_def blocks_tags lock_elt_def part_start_def)
  moreover have "c_addr ` set (elts (lock_elt e c)) = c_addr ` set (elts c)" by (simp only: blocks_tags t)
  then have "here (c_addr e) (lock_elt e c)" using e(2) by (simp add: here_def)
  moreover have "read_block_c b LOCK c = Inr (c_addr e, lock_elt e c)" using e(1) by (simp add: read_block_c_def get_elt_def)
  ultimately show ?thesis using that e(3) by blast
qed

lemma at_progress:
  assumes "steady g A c" "here a c"
  obtains bs where "block_at a c = Inr bs" "length bs = 2048"
proof -
  obtain e where e: "e \<in> set (elts c)" "c_addr e = a" using assms(2) by (auto simp: here_def)
  then obtain x where x: "find (\<lambda>e. c_addr e = a) (elts c) = Some x" by (cases "find (\<lambda>e. c_addr e = a) (elts c)") (auto simp: find_None_iff)
  then have "x \<in> set (elts c)" using find_addrD by blast
  then show ?thesis using that [of "c_data x"] x e assms(1) by (auto simp: block_at_def look_up_c_elt_add_def steady_def)
qed

lemma store_progress:
  assumes "steady g A c" "here a c" "off + length bs \<le> 2048"
  obtains c' where "store_at a off bs c = Inr c'" "steady g A c'" "here a c'"
proof -
  obtain data where d: "block_at a c = Inr data" "length data = 2048" using at_progress [OF assms(1,2)] .
  let ?f = "\<lambda>e. e\<lparr>c_data := poke off bs (c_data e)\<rparr>"
  define c' where "c' = c\<lparr>elts := upd_addr a ?f (elts c)\<rparr>"
  have t: "tags (elts c') = tags (elts c)" by (simp add: c'_def tags_upd_addr)
  have "\<forall>x \<in> set (elts c'). length (c_data x) = 2048 \<and> 0 < c_addr x"
    using assms(1,3) set_upd_addr [of a ?f "elts c"] by (auto simp: c'_def steady_def)
  then have "steady g A c'" using assms(1) t by (simp add: steady_def blocks_tags c'_def part_start_def)
  moreover have "here a c'" using assms(2) t by (simp add: here_def blocks_tags)
  moreover have "store_at a off bs c = Inr c'" using d assms(3) by (simp add: store_at_def c'_def)
  ultimately show ?thesis using that by blast
qed

lemma write_sectors_progress:
  "write_results d = [] \<Longrightarrow> \<exists>d'. write_sectors start g b data is d = (True, d') \<and> write_results d' = []"
  by (induction "is" arbitrary: d) (auto simp: write_disk_def)

lemma write_progress:
  assumes st: "steady g A c" and b: "b \<in> A" and len: "length bs \<le> 2048"
  obtains c' where "write_block b (Some bs) WRITE_THROUGH UNLOCK c = Inr (0, c')" "steady g A c'" "\<And>a. here a c \<Longrightarrow> here a c'"
proof -
  obtain e where e: "look_up_c_elt b c = Some e" "e \<in> set (elts c)" "c_block e = b" "length (c_data e) = 2048" "0 < c_addr e"
    using steady_look_up [OF st b] .
  define e1 where "e1 = e\<lparr>c_data := poke 0 bs (c_data e), c_dirty := True, c_usage := c_usage e - 1\<rparr>"
  define n where "n = (if c_usage e - 1 = 0 then locked_files c - 1 else locked_files c)"
  define c2 where "c2 = c\<lparr>elts := upd_block b (\<lambda>_. e1) (elts c), locked_files := n\<rparr>"
  have f: "find (\<lambda>e. c_block e = b) (elts c) = Some e" using e(1) by (simp add: look_up_c_elt_def)
  obtain s0 where ps: "part_start g c = Inr s0" and fs: "c_fs c = Some g" "g_block_size g = 2048" "write_results (disk c) = []"
    using st by (auto simp: steady_def)
  have rt: "blk_ratio g = 4" using fs(2) by (simp add: blk_ratio_def BLOCK_SIZE_def)
  obtain d' where d': "write_sectors s0 g (c_block e1) (c_data e1) [0 ..< 4] (disk c2) = (True, d')" "write_results d' = []"
    using write_sectors_progress [of "disk c2" s0 g "c_block e1" "c_data e1" "[0 ..< 4]"] fs(3) by (auto simp: c2_def)
  have ps2: "part_start g c2 = Inr s0" "c_fs c2 = Some g" using ps fs(1) by (simp_all add: part_start_def c2_def)
  have sy: "sync_elt e1 c2 = Inr (0, e1\<lparr>c_dirty := False\<rparr>, c2\<lparr>disk := d'\<rparr>)"
    using d'(1) ps2 rt by (simp add: sync_elt_def BLOCK_SIZE_def EXT2_BLOCK_SIZE_def del: upt_Suc)
  define c' where "c' = c2\<lparr>disk := d', elts := upd_block b (\<lambda>_. e1\<lparr>c_dirty := False\<rparr>) (elts c2)\<rparr>"
  have w: "write_block b (Some bs) WRITE_THROUGH UNLOCK c = Inr (0, c')"
    using fs len e(1,4) sy unfolding c2_def [unfolded n_def] e1_def
    by (simp add: write_block_eq get_elt_def finish_write_def Let_def c'_def c2_def n_def e1_def)
  have t2: "tags (elts c2) = tags (elts c)" using tags_upd_found [OF f, of e1] by (simp add: c2_def e1_def)
  have f2: "find (\<lambda>e. c_block e = b) (elts c2) = Some e1" using find_upd_block [OF f, of e1] e(3) by (simp add: c2_def e1_def)
  have t: "tags (elts c') = tags (elts c)" using tags_upd_found [OF f2, of "e1\<lparr>c_dirty := False\<rparr>"] t2 by (simp add: c'_def)
  have "\<forall>x \<in> set (elts c2). length (c_data x) = 2048 \<and> 0 < c_addr x"
    using st set_upd_block [of b "\<lambda>_. e1" "elts c"] e(4,5) len by (auto simp: c2_def steady_def e1_def)
  then have "\<forall>x \<in> set (elts c'). length (c_data x) = 2048 \<and> 0 < c_addr x"
    using set_upd_block [of b "\<lambda>_. e1\<lparr>c_dirty := False\<rparr>" "elts c2"] e(4,5) len by (auto simp: c'_def e1_def)
  then have "steady g A c'" using st t d'(2) ps by (simp add: steady_def blocks_tags c'_def c2_def part_start_def)
  moreover have "here a c'" if "here a c" for a using that t by (simp add: here_def blocks_tags)
  ultimately show ?thesis using that w by blast
qed

lemma save_at_progress:
  assumes "steady g A (fcache s)" "b \<in> A" "here a (fcache s)"
  obtains c' where "save_at a b s = Inr (0, s\<lparr>fcache := c'\<rparr>)" "steady g A c'" "\<And>a. here a (fcache s) \<Longrightarrow> here a c'"
proof -
  obtain bs where bs: "block_at a (fcache s) = Inr bs" "length bs = 2048" using at_progress [OF assms(1,3)] .
  have fs: "c_fs (fcache s) = Some g" "g_block_size g = 2048" using assms(1) by (simp_all add: steady_def)
  obtain c' where c': "write_block b (Some bs) WRITE_THROUGH UNLOCK (fcache s) = Inr (0, c')" "steady g A c'" "\<And>a. here a (fcache s) \<Longrightarrow> here a c'"
    by (rule write_progress [OF assms(1,2), of bs]) (use that bs in auto)
  have "save_at a b s = Inr (0, s\<lparr>fcache := c'\<rparr>)"
    using bs fs c'(1) by (simp add: save_at_def sbind_def fs_block_size_def sread_def at_blk_def save_blk_def on_cache_def save_fs_block_def)
  then show ?thesis using that c' by blast
qed

lemma save_blk_progress:
  assumes "steady g A (fcache s)" "b \<in> A" "length bs \<le> 2048"
  obtains c' where "save_blk bs b s = Inr (0, s\<lparr>fcache := c'\<rparr>)" "steady g A c'" "\<And>a. here a (fcache s) \<Longrightarrow> here a c'"
proof -
  have fs: "c_fs (fcache s) = Some g" "g_block_size g = 2048" using assms(1) by (simp_all add: steady_def)
  obtain c' where c': "write_block b (Some bs) WRITE_THROUGH UNLOCK (fcache s) = Inr (0, c')" "steady g A c'" "\<And>a. here a (fcache s) \<Longrightarrow> here a c'"
    by (rule write_progress [OF assms]) (use that in auto)
  have "save_blk bs b s = Inr (0, s\<lparr>fcache := c'\<rparr>)"
    using fs c'(1) assms(3) by (simp add: save_blk_def on_cache_def save_fs_block_def)
  then show ?thesis using that c' by blast
qed

section \<open>A small file system\<close>

definition geo2048 :: geometry where
  "geo2048 = \<lparr>g_block_size = 2048, g_partition = 0\<rparr>"

definition bitmap1 :: "byte list" where
  "bitmap1 = 1 # replicate 2047 0"

definition cached :: "ptr \<Rightarrow> u32 \<Rightarrow> byte list \<Rightarrow> c_elt" where
  "cached a b bs = \<lparr>c_addr = a, c_block = b, c_dirty = True, c_usage = 0, c_data = bs\<rparr>"

definition small_cache :: cache where
  "small_cache = \<lparr>disk = disk40000, c_mbr = Some (mbr_of test_table), c_fs = Some geo2048,
     elts = [cached 1 1 (replicate 2048 0), cached 2 2 (replicate 2048 0), cached 3 3 bitmap1, cached 4 9 (replicate 2048 0)],
     nb_elements_cache = 4, locked_files = 0, cmem = [], c_fresh = 5\<rparr>"

definition small_super :: super_block where
  "small_super = \<lparr>s_inodes_count = 40, s_blocks_count = 100, s_r_blocks_count = 0, s_free_blocks_count = 99, s_free_inodes_count = 28,
     s_first_data_block = 8, s_other = replicate 996 0\<rparr>"

definition small_desc :: block_group_descriptor where
  "small_desc = \<lparr>bg_block_bitmap = 3, bg_inode_bitmap = 4, bg_inode_table = 5, bg_free_blocks_count = 99, bg_free_inodes_count = 28,
     bg_used_dirs_count = 1, bg_other = replicate 14 0\<rparr>"

definition small_fs :: ext2 where
  "small_fs = \<lparr>fcache = small_cache, fs_type = EXT2_PARTITION, superblock_loc = 1, desc_table_loc = 2, fsup = Some small_super,
     fdesc = Some small_desc, inode_list = [], inodes = Map.empty, fmem = [], ffresh = 1\<rparr>"

lemma bitmap1_facts: "length bitmap1 = 2048" "\<And>n. n < 16384 \<Longrightarrow> bbit bitmap1 n \<longleftrightarrow> n = 0"
proof -
  show "length bitmap1 = 2048" by (simp add: bitmap1_def)
  show "bbit bitmap1 n \<longleftrightarrow> n = 0" if "n < 16384" for n
  proof (cases "n < 8")
    case True
    then show ?thesis by (simp add: bbit_def bitmap1_def bit_1_iff)
  next
    case False
    obtain m where m: "n div 8 = Suc m" using False by (cases "n div 8") auto
    then have "m < 2047" using that by simp
    then show ?thesis using m False by (simp add: bbit_def bitmap1_def)
  qed
qed

lemma small_cache_inv: "cinv geo2048 2 small_cache"
  by (simp add: cinv_def linv_def ready_def part_start_def small_cache_def geo2048_def mbr_of_def test_table_def blk_ratio_def
      BLOCK_SIZE_def EXT2_BLOCK_SIZE_def disk_wf_def disk40000_def elt_ok_def blk_ok_def cached_def bitmap1_facts)

lemma small_view: "view geo2048 2 small_cache 3 = bitmap1"
  by (simp add: view_def lview_def blocks_find small_cache_def cached_def)

lemma small_used: "used_in geo2048 2 small_desc small_cache = {0}"
proof -
  have nb: "nb_bitmap small_desc = 1" by (simp add: nb_bitmap_def small_desc_def)
  have "n \<in> used_in geo2048 2 small_desc small_cache \<longleftrightarrow> n = 0" for n
  proof (cases "n < 16384")
    case True
    then have z: "n div 16384 = 0" "n mod 16384 = n" by simp_all
    show ?thesis using True bitmap1_facts(2) [OF True] small_view
      by (simp only: used_in_def mem_Collect_eq nb z) (simp add: small_desc_def)
  next
    case False
    then show ?thesis using nb by (simp add: used_in_def)
  qed
  then show ?thesis by blast
qed

lemma small_fs_inv: "alloc_ok geo2048 2 small_super small_desc small_fs"
  using small_cache_inv small_used
  by (simp add: alloc_ok_def small_fs_def areas_def) (simp add: small_super_def small_desc_def geo2048_def)

lemma small_steady: "steady geo2048 {1, 2, 3, 9} small_cache"
  by (simp add: steady_def small_cache_def geo2048_def part_start_def mbr_of_def test_table_def disk40000_def cached_def bitmap1_facts)

lemma read_blk_progress:
  assumes "steady g A (fcache s)" "b \<in> A"
  obtains a c' where "read_blk b s = Inr (a, s\<lparr>fcache := c'\<rparr>)" "a \<noteq> 0" "steady g A c'" "here a c'"
proof -
  obtain a c' where "read_block_c b LOCK (fcache s) = Inr (a, c')" "a \<noteq> 0" "steady g A c'" "here a c'"
    using read_progress [OF assms] .
  then show ?thesis using that by (simp add: read_blk_def on_cache_def disk_read_block_def)
qed

lemma store_blk_progress:
  assumes "steady g A (fcache s)" "here a (fcache s)" "off + length bs \<le> 2048"
  obtains c' where "store_blk a off bs s = Inr ((), s\<lparr>fcache := c'\<rparr>)" "steady g A c'" "here a c'"
proof -
  obtain c' where "store_at a off bs (fcache s) = Inr c'" "steady g A c'" "here a c'" using store_progress [OF assms] .
  then show ?thesis using that by (simp add: store_blk_def)
qed

lemma super_progress:
  assumes "steady g A (fcache s)" "superblock_loc s \<in> A" "fsup s = Some p" "length (s_other p) = 996"
  obtains c' where "save_super_block s = Inr (0, s\<lparr>fcache := c'\<rparr>)" "steady g A c'"
proof -
  have l: "length (super_bytes p) \<le> 2048" using assms(4) by (simp add: super_bytes_def)
  have fs: "c_fs (fcache s) = Some g" using assms(1) by (simp add: steady_def)
  obtain c' where "save_blk (super_bytes p) (superblock_loc s) s = Inr (0, s\<lparr>fcache := c'\<rparr>)" "steady g A c'"
    using save_blk_progress [OF assms(1,2) l] by blast
  then show ?thesis using that fs assms(3) by (simp add: save_super_block_def)
qed

lemma desc_progress:
  assumes "steady g A (fcache s)" "desc_table_loc s \<in> A" "fdesc s = Some d" "length (bg_other d) = 14"
  obtains c' where "save_blk_desc_table s = Inr (0, s\<lparr>fcache := c'\<rparr>)" "steady g A c'"
proof -
  have l: "length (desc_bytes d) \<le> 2048" using assms(4) by (simp add: desc_bytes_def)
  have fs: "c_fs (fcache s) = Some g" using assms(1) by (simp add: steady_def)
  obtain c' where "save_blk (desc_bytes d) (desc_table_loc s) s = Inr (0, s\<lparr>fcache := c'\<rparr>)" "steady g A c'"
    using save_blk_progress [OF assms(1,2) l] by blast
  then show ?thesis using that fs assms(3) by (simp add: save_blk_desc_table_def)
qed

lemma bitmap1_alloc: "alloc_bit_bitmap bitmap1 2048 = 1"
proof -
  have "unat (2048 :: u32) = length bitmap1" "8 dvd length bitmap1" by (simp_all add: bitmap1_facts)
  note sp = alloc_bit_spec [OF this]
  have ne: "alloc_bit_bitmap bitmap1 2048 \<noteq> -1" using sp(1) [of 1] bitmap1_facts by auto
  obtain k where k: "alloc_bit_bitmap bitmap1 2048 = int k" "\<not> bbit bitmap1 k" "\<forall>m < k. bbit bitmap1 m"
    using sp(2) [OF ne] by blast
  have "bbit bitmap1 0" using bitmap1_facts(2) [of 0] by simp
  then have "k \<noteq> 0" using k(2) by metis
  moreover have "\<not> 1 < k" using k(3) bitmap1_facts(2) [of 1] by auto
  ultimately show ?thesis using k(1) by simp
qed

lemma small_loop:
  obtains c where "data_bitmap_loop (Suc 0) 3 8 3 2048 small_fs = Inr (9, small_fs\<lparr>fcache := c\<rparr>)" "steady geo2048 {1, 2, 3, 9} c"
proof -
  let ?A = "{1, 2, 3, 9 :: u32}"
  have f: "fcache small_fs = small_cache" by (simp add: small_fs_def)
  obtain a c1 where r: "read_blk 3 small_fs = Inr (a, small_fs\<lparr>fcache := c1\<rparr>)" "a \<noteq> 0" "steady geo2048 ?A c1" "here a c1"
    by (rule read_blk_progress [where s = small_fs and g = geo2048 and A = ?A and b = 3]) (use f small_steady in auto)
  have ok: "blk_ok geo2048 3" by (simp add: blk_ok_def geo2048_def blk_ratio_def BLOCK_SIZE_def)
  have i: "cinv geo2048 2 (fcache small_fs)" using small_cache_inv f by simp
  obtain c where c: "small_fs\<lparr>fcache := c1\<rparr> = small_fs\<lparr>fcache := c\<rparr>" "a \<noteq> 0 \<Longrightarrow> block_at a c = Inr (view geo2048 2 (fcache small_fs) 3)"
    using read_blk_opens [OF r(1) i ok] by metis
  have cc: "c = c1" using arg_cong [OF c(1), of fcache] by simp
  have at: "block_at a c1 = Inr bitmap1" using c(2) r(2) cc f small_view by simp
  let ?s1 = "small_fs\<lparr>fcache := c1\<rparr>"
  obtain c2 where st: "store_blk a 0 [set_bit_at 1 bitmap1] ?s1 = Inr ((), ?s1\<lparr>fcache := c2\<rparr>)" "steady geo2048 ?A c2" "here a c2"
    by (rule store_blk_progress [where s = ?s1 and g = geo2048 and A = ?A and a = a and off = 0 and bs = "[set_bit_at 1 bitmap1]"]) (use r in auto)
  let ?s2 = "small_fs\<lparr>fcache := c2\<rparr>"
  obtain c3 where sv: "save_at a 3 ?s2 = Inr (0, ?s2\<lparr>fcache := c3\<rparr>)" "steady geo2048 ?A c3"
    by (rule save_at_progress [where s = ?s2 and g = geo2048 and A = ?A and a = a and b = 3]) (use st in auto)
  have "data_bitmap_loop (Suc 0) 3 8 3 2048 small_fs = Inr (9, small_fs\<lparr>fcache := c3\<rparr>)"
    using r(1,2) at st(1) sv(1) by (simp add: sbind_def at_blk_def sread_def bitmap1_alloc)
  then show ?thesis using that sv(2) by blast
qed

lemma small_get:
  obtains s' where "get_data_block small_fs = Inr (1, s')"
proof -
  let ?A = "{1, 2, 3, 9 :: u32}"
  obtain c where l: "data_bitmap_loop (Suc 0) 3 8 3 2048 small_fs = Inr (9, small_fs\<lparr>fcache := c\<rparr>)" "steady geo2048 ?A c"
    by (rule small_loop)
  let ?s1 = "small_fs\<lparr>fcache := c\<rparr>"
  obtain a c1 where r: "read_blk 9 ?s1 = Inr (a, ?s1\<lparr>fcache := c1\<rparr>)" "a \<noteq> 0" "steady geo2048 ?A c1" "here a c1"
    by (rule read_blk_progress [where s = ?s1 and g = geo2048 and A = ?A and b = 9]) (use l in auto)
  let ?s2 = "small_fs\<lparr>fcache := c1\<rparr>"
  obtain c2 where st: "store_blk a 0 (replicate 2048 0) ?s2 = Inr ((), ?s2\<lparr>fcache := c2\<rparr>)" "steady geo2048 ?A c2" "here a c2"
    by (rule store_blk_progress [where s = ?s2 and g = geo2048 and A = ?A and a = a and off = 0 and bs = "replicate 2048 0"]) (use r in auto)
  let ?s3 = "small_fs\<lparr>fcache := c2\<rparr>"
  obtain c3 where sv: "save_at a 9 ?s3 = Inr (0, ?s3\<lparr>fcache := c3\<rparr>)" "steady geo2048 ?A c3"
    by (rule save_at_progress [where s = ?s3 and g = geo2048 and A = ?A and a = a and b = 9]) (use st in auto)
  let ?p = "small_super\<lparr>s_free_blocks_count := s_free_blocks_count small_super - 1\<rparr>"
  let ?d = "small_desc\<lparr>bg_free_blocks_count := bg_free_blocks_count small_desc - 1\<rparr>"
  define s4 where "s4 = on_desc (\<lambda>d. d\<lparr>bg_free_blocks_count := bg_free_blocks_count d - 1\<rparr>)
     (on_super (\<lambda>p. p\<lparr>s_free_blocks_count := s_free_blocks_count p - 1\<rparr>) (small_fs\<lparr>fcache := c3\<rparr>))"
  have s4: "fcache s4 = c3" "superblock_loc s4 = 1" "desc_table_loc s4 = 2" "fsup s4 = Some ?p" "fdesc s4 = Some ?d"
    by (simp_all add: s4_def on_desc_def on_super_def small_fs_def)
  obtain c4 where p: "save_super_block s4 = Inr (0, s4\<lparr>fcache := c4\<rparr>)" "steady geo2048 ?A c4"
    by (rule super_progress [where s = s4 and g = geo2048 and A = ?A and p = ?p]) (use s4 sv in \<open>auto simp: small_super_def\<close>)
  obtain c5 where d: "save_blk_desc_table (s4\<lparr>fcache := c4\<rparr>) = Inr (0, s4\<lparr>fcache := c4, fcache := c5\<rparr>)"
    by (rule desc_progress [where s = "s4\<lparr>fcache := c4\<rparr>" and g = geo2048 and A = ?A and d = ?d]) (use s4 p in \<open>auto simp: small_desc_def\<close>)
  have start: "get_desc_table small_fs = Some small_desc" "get_super_block small_fs = Some small_super" "fs_block_size small_fs = Inr (2048, small_fs)"
    by (simp_all add: get_desc_table_def get_super_block_def fs_block_size_def sread_def small_fs_def small_cache_def geo2048_def)
  have k: "s_free_blocks_count small_super \<noteq> 0" "bg_free_blocks_count small_desc \<noteq> 0" "s_first_data_block small_super = 8"
    "bg_block_bitmap small_desc = 3" "bg_inode_bitmap small_desc = 4" "unat (4 :: u32) - unat (3 :: u32) = Suc 0"
    by (simp_all add: small_super_def small_desc_def)
  have "get_data_block small_fs = Inr (1, s4\<lparr>fcache := c4, fcache := c5\<rparr>)"
    unfolding get_data_block_def start prod.case option.case k sbind_def supd_def rbind.simps l(1)
    using r(1,2) st(1) sv(1) p(1) d k(1,2) by (simp add: sbind_def supd_def s4_def [symmetric])
  then show ?thesis using that by blast
qed

section \<open>The allocator hands out a block once\<close>

text \<open>
  C8. Allocation of data blocks. In every run of successful \<^verbatim>\<open>get_data_block\<close> and
  \<^verbatim>\<open>free_data_block\<close> calls on a file system whose areas are in order and whose blocks are of 2048
  bytes, each block handed out was free at that moment and is below the number of data blocks, the
  bits set in the bitmap blocks of the disk, read through the cache, are exactly the blocks handed
  out and not given back, and the counts of free blocks and the areas stay consistent.
\<close>

theorem data_blocks_exclusive:
  assumes "alloc_run g start s xs s'" "alloc_inv g start s"
  shows "alloc_inv g start s' \<and> used g start s' = fold on_used xs (used g start s) \<and>
    fresh_calls (block_limit s) (used g start s) xs"
  using alloc_run_keeps [OF assms] .

theorem data_blocks_exclusive_witness:
  "\<exists>s'. alloc_run geo2048 2 small_fs [Al_get 1] s' \<and> alloc_inv geo2048 2 s' \<and> used geo2048 2 s' = {0, 1}"
proof -
  obtain s' where g: "get_data_block small_fs = Inr (1, s')" by (rule small_get)
  have i: "alloc_inv geo2048 2 small_fs" "used geo2048 2 small_fs = {0}"
    using alloc_okD [OF small_fs_inv] small_used by (simp_all add: small_fs_def)
  have "alloc_step geo2048 2 small_fs (Al_get 1) s'" by (rule got [OF g]) simp_all
  then have r: "alloc_run geo2048 2 small_fs [Al_get 1] s'" by (rule more) (rule stop)
  show ?thesis using r data_blocks_exclusive [OF r i(1)] i(2) by (auto simp: insert_commute)
qed

end
