(* ===== verification/Layout.thy ===== *)
theory Layout
  imports Alloc
begin

text \<open>
  Where a formatted partition puts its areas: the bounds of the bitmaps, the inode table and the data
  blocks that \<^verbatim>\<open>superblock_conf\<close> computes.
\<close>

section \<open>The sizes as natural numbers\<close>

definition inodes_of :: "nat \<Rightarrow> nat" where
  "inodes_of n = n * 512 div 10 div 128"

definition inode_blocks_of :: "nat \<Rightarrow> nat" where
  "inode_blocks_of n = (inodes_of n + 15) div 16"

definition inode_bitmap_of :: "nat \<Rightarrow> nat" where
  "inode_bitmap_of n = (if 0 < inode_blocks_of n mod 2048 then inode_blocks_of n div 16384 + 1 else inode_blocks_of n div 16384)"

definition rest_of :: "nat \<Rightarrow> nat" where
  "rest_of n = n div 4 - (3 + inode_bitmap_of n + inode_blocks_of n)"

definition data_bitmap_of :: "nat \<Rightarrow> nat" where
  "data_bitmap_of n = (rest_of n + 16383) div 16384"

definition data_blocks_of :: "nat \<Rightarrow> nat" where
  "data_blocks_of n = rest_of n - data_bitmap_of n"

lemma less_16E:
  fixes r :: nat
  assumes "r < 16"
  obtains "r = 0" | "r = 1" | "r = 2" | "r = 3" | "r = 4" | "r = 5" | "r = 6" | "r = 7" | "r = 8" | "r = 9" | "r = 10" | "r = 11"
    | "r = 12" | "r = 13" | "r = 14" | "r = 15"
  using assms by (auto simp: numeral_eq_Suc less_Suc_eq)

lemma round_up:
  fixes a k :: nat
  assumes "0 < k"
  shows "(a + (k - 1)) div k = (if a mod k \<noteq> 0 then a div k + 1 else a div k)"
proof -
  define q r where "q = a div k" and "r = a mod k"
  have a: "a = q * k + r" "r < k" using assms by (simp_all add: q_def r_def)
  have "a + (k - 1) = (r + (k - 1)) + q * k" using a(1) by linarith
  then have "(a + (k - 1)) div k = q + (r + (k - 1)) div k" using assms by (simp only: div_mult_self1)
  moreover have "(r + (k - 1)) div k = (if r \<noteq> 0 then 1 else 0)"
  proof (cases r)
    case (Suc m)
    then have "r + (k - 1) = m + k" using assms by simp
    then show ?thesis using Suc a(2) by (simp add: div_add_self2)
  qed (use assms in simp)
  ultimately show ?thesis by (simp add: q_def r_def)
qed

lemmas round_up_16 = round_up [of 16, simplified] and round_up_16384 = round_up [of 16384, simplified]

text \<open>The rounded quotients, as linear bounds.\<close>

lemma sizes_linear:
  "5 * inodes_of n \<le> 2 * n" "16 * inode_blocks_of n \<le> inodes_of n + 15" "inodes_of n \<le> 16 * inode_blocks_of n"
  "16384 * inode_bitmap_of n \<le> inode_blocks_of n + 16384"
  "16384 * data_bitmap_of n \<le> rest_of n + 16383" "rest_of n \<le> 16384 * data_bitmap_of n"
proof -
  show "5 * inodes_of n \<le> 2 * n" "16 * inode_blocks_of n \<le> inodes_of n + 15" "inodes_of n \<le> 16 * inode_blocks_of n"
    "16384 * data_bitmap_of n \<le> rest_of n + 16383" "rest_of n \<le> 16384 * data_bitmap_of n"
    by (simp_all add: inodes_of_def inode_blocks_of_def data_bitmap_of_def)
  show "16384 * inode_bitmap_of n \<le> inode_blocks_of n + 16384"
    unfolding inode_bitmap_of_def using div_mult_mod_eq [of "inode_blocks_of n" 16384] by (auto split: if_split)
qed

lemma sizes_bound:
  assumes "32 \<le> n"
  shows "3 + inode_bitmap_of n + inode_blocks_of n + 1 < n div 4" "data_bitmap_of n < rest_of n"
    "data_bitmap_of n + (3 + inode_bitmap_of n + inode_blocks_of n) + data_blocks_of n = n div 4"
proof -
  show r: "3 + inode_bitmap_of n + inode_blocks_of n + 1 < n div 4" using sizes_linear [of n] assms by linarith
  then have r2: "1 < rest_of n" by (simp add: rest_of_def)
  show d: "data_bitmap_of n < rest_of n" using r2 sizes_linear(5) [of n] by linarith
  show "data_bitmap_of n + (3 + inode_bitmap_of n + inode_blocks_of n) + data_blocks_of n = n div 4"
    using r d by (simp add: data_blocks_of_def rest_of_def)
qed

lemma layout_nat:
  assumes "32 \<le> unat s" "unat s < 2 ^ 23"
  shows "unat (number_of_inodes (fs_layout 2048 s)) = inodes_of (unat s)"
    "unat (nb_blocks_inodes (fs_layout 2048 s)) = inode_blocks_of (unat s)"
    "unat (nb_block_inode_bitmap (fs_layout 2048 s)) = inode_bitmap_of (unat s)"
    "unat (nb_block_data_bitmap (fs_layout 2048 s)) = data_bitmap_of (unat s)"
    "unat (nb_blocks_data (fs_layout 2048 s)) = data_blocks_of (unat s)"
proof -
  define n where "n = unat s"
  have n: "32 \<le> n" "n < 8388608" using assms by (simp_all add: n_def)
  note lin = sizes_linear [of n]
  define i :: u32 where "i = s * 512 div 10 div 128"
  have i: "unat i = inodes_of n"
  proof -
    have "unat (s * 512) = n * 512" using n by (simp add: n_def unat_word_ariths)
    then show ?thesis by (simp add: i_def inodes_of_def unat_div)
  qed
  have i128: "unat (i * 128) = inodes_of n * 128" using i lin(1) n by (simp add: unat_word_ariths)
  define ib0 where "ib0 = i * 128 div 2048"
  have ib0: "unat ib0 = inodes_of n div 16" using i128 by (simp add: ib0_def unat_div)
  have ib0b: "unat (ib0 * 2048) = inodes_of n div 16 * 2048" using ib0 lin(1) n by (simp add: unat_word_ariths)
  define ib where "ib = (if (ib0 * 2048 - i * 128) mod 2048 > 0 then ib0 + 1 else ib0)"
  have ib: "unat ib = inode_blocks_of n"
  proof -
    define r where "r = inodes_of n mod 16"
    have r: "inodes_of n = inodes_of n div 16 * 16 + r" "r < 16" by (simp_all add: r_def)
    have "i * 128 = ib0 * 2048 + of_nat (128 * r)"
      by (rule word_unat_eq_iff [THEN iffD2]) (use i128 ib0b r lin(1) n in \<open>simp add: unat_word_ariths unat_of_nat\<close>)
    then have "ib0 * 2048 - i * 128 = - of_nat (128 * r)" by simp
    moreover have "(- of_nat (128 * r) :: u32) mod 2048 > 0 \<longleftrightarrow> r \<noteq> 0"
      using r(2) by (elim less_16E) simp_all
    ultimately have c: "(ib0 * 2048 - i * 128) mod 2048 > 0 \<longleftrightarrow> r \<noteq> 0" by simp
    have "unat (ib0 + 1) = inodes_of n div 16 + 1" using ib0 lin(1) n by (simp add: unat_word_ariths)
    moreover have "inode_blocks_of n = (if r \<noteq> 0 then inodes_of n div 16 + 1 else inodes_of n div 16)"
      by (simp only: inode_blocks_of_def r_def round_up_16 split: if_split) simp
    ultimately show ?thesis using c ib0 by (simp add: ib_def)
  qed
  define ibm where "ibm = (if ib mod 2048 > 0 then ib div (8 * 2048) + 1 else ib div (8 * 2048))"
  have ibm: "unat ibm = inode_bitmap_of n"
  proof -
    have d: "unat (ib div (8 * 2048)) = inode_blocks_of n div 16384" using ib by (simp add: unat_div)
    have "unat (ib mod 2048) = inode_blocks_of n mod 2048" using ib by (simp add: unat_mod)
    then have c: "ib mod 2048 > 0 \<longleftrightarrow> 0 < inode_blocks_of n mod 2048" by (simp add: word_less_nat_alt)
    have "unat (ib div (8 * 2048) + 1) = inode_blocks_of n div 16384 + 1" using d lin n by (simp add: unat_word_ariths)
    then show ?thesis using c d by (simp add: ibm_def inode_bitmap_of_def)
  qed
  have tot: "unat (s div 4) = n div 4" by (simp add: unat_div n_def)
  define rest where "rest = s div 4 - 3 - ibm - ib"
  have rest: "unat rest = rest_of n"
  proof -
    have "s div 4 = rest + ib + ibm + 3" by (simp add: rest_def)
    have 1: "unat (s div 4 - 3) = n div 4 - 3" using tot sizes_bound(1) [OF n(1)] by (simp add: unat_sub word_le_nat_alt)
    have 2: "unat (s div 4 - 3 - ibm) = n div 4 - 3 - inode_bitmap_of n"
      using 1 ibm sizes_bound(1) [OF n(1)] by (simp add: unat_sub word_le_nat_alt)
    show ?thesis using 2 ib sizes_bound(1) [OF n(1)] by (simp add: rest_def rest_of_def unat_sub word_le_nat_alt)
  qed
  define dbm where "dbm = (if rest mod (8 * 2048) > 0 then rest div (8 * 2048) + 1 else rest div (8 * 2048))"
  have dbm: "unat dbm = data_bitmap_of n"
  proof -
    have d: "unat (rest div (8 * 2048)) = rest_of n div 16384" using rest by (simp add: unat_div)
    have "unat (rest mod (8 * 2048)) = rest_of n mod 16384" using rest by (simp add: unat_mod)
    then have c: "rest mod (8 * 2048) > 0 \<longleftrightarrow> rest_of n mod 16384 \<noteq> 0" by (simp add: word_less_nat_alt)
    have "rest_of n \<le> n" by (simp add: rest_of_def)
    then have "unat (rest div (8 * 2048) + 1) = rest_of n div 16384 + 1" using d n by (simp add: unat_word_ariths)
    moreover have "data_bitmap_of n = (if rest_of n mod 16384 \<noteq> 0 then rest_of n div 16384 + 1 else rest_of n div 16384)"
      by (simp only: data_bitmap_of_def round_up_16384 neq0_conv)
    ultimately show ?thesis using c d by (simp add: dbm_def)
  qed
  define data where "data = s div 4 - (dbm + ib + ibm + 3)"
  have data: "unat data = data_blocks_of n"
  proof -
    have b: "data_bitmap_of n + inode_blocks_of n + inode_bitmap_of n + 3 + data_blocks_of n = n div 4"
      using sizes_bound(3) [OF n(1)] by simp
    then have "unat (dbm + ib + ibm + 3) = data_bitmap_of n + inode_blocks_of n + inode_bitmap_of n + 3"
      using dbm ib ibm n by (simp add: unat_word_ariths)
    then show ?thesis using tot b by (simp add: data_def unat_sub word_le_nat_alt)
  qed
  have l: "fs_layout 2048 s = \<lparr>number_of_inodes = i, nb_blocks_inodes = ib, nb_block_inode_bitmap = ibm, nb_block_data_bitmap = dbm, nb_blocks_data = data\<rparr>"
    unfolding fs_layout_def data_def dbm_def rest_def ibm_def ib_def ib0_def i_def by (simp add: Let_def BLOCK_SIZE_def INODE_SIZE_def RESERVED_BLOCKS_def)
  show "unat (number_of_inodes (fs_layout 2048 s)) = inodes_of (unat s)"
    "unat (nb_blocks_inodes (fs_layout 2048 s)) = inode_blocks_of (unat s)"
    "unat (nb_block_inode_bitmap (fs_layout 2048 s)) = inode_bitmap_of (unat s)"
    "unat (nb_block_data_bitmap (fs_layout 2048 s)) = data_bitmap_of (unat s)"
    "unat (nb_blocks_data (fs_layout 2048 s)) = data_blocks_of (unat s)"
    using i ib ibm dbm data by (simp_all add: l n_def)
qed

section \<open>The areas are in order, disjoint and inside the partition\<close>

text \<open>
  C29. Bounds of a formatted partition. For a partition of 32 to 2^23 - 1 sectors and blocks of 2048
  bytes, no size that \<^verbatim>\<open>superblock_conf\<close> computes wraps around: super block, descriptor table, data
  bitmap, inode bitmap and inode table begin in this order, each where the one before has ended; the data
  blocks end with the partition and there is at least one, the data bitmap has a bit for every data block and the
  inode table room for every inode. The inode table ends before the first data block unless its number of
  blocks is a multiple of 2048; then the code reserves a block too few (\<^verbatim>\<open>ext2.c:207\<close>) and the table may reach into
  data block 0, by one block at most.
\<close>

theorem format_areas_fit:
  assumes "32 \<le> unat s" "unat s < 2 ^ 23"
  shows "let l = fs_layout 2048 s; p = new_super 2048 s; d = new_desc 2048 s in
     areas p d SUPER_BLOCK_LOC BLOCK_TABLE_BLOCK \<and>
     unat (bg_inode_bitmap d) = unat (bg_block_bitmap d) + nb_bitmap d \<and> 0 < nb_bitmap d \<and>
     unat (bg_inode_table d) = unat (bg_inode_bitmap d) + 1 \<and>
     unat (bg_inode_table d) + unat (nb_blocks_inodes l) \<le> unat (s_first_data_block p) + (if nb_blocks_inodes l mod 2048 = 0 then 1 else 0) \<and>
     unat (s_first_data_block p) + unat (s_blocks_count p) = unat s div 4 \<and>
     0 < unat (s_blocks_count p) \<and> unat (s_blocks_count p) \<le> 16384 * nb_bitmap d \<and>
     unat (s_inodes_count p) * 128 \<le> unat (nb_blocks_inodes l) * 2048"
proof -
  define n where "n = unat s"
  have n: "32 \<le> n" "n < 8388608" using assms by (simp_all add: n_def)
  note lay = layout_nat [OF assms, folded n_def] and b = sizes_bound [OF n(1)] and lin = sizes_linear [of n]
  have s4: "unat (s div 4) = n div 4" by (simp add: unat_div n_def)
  have bb: "bg_block_bitmap (new_desc 2048 s) = 3" "bg_inode_bitmap (new_desc 2048 s) = 3 + nb_block_data_bitmap (fs_layout 2048 s)"
    "bg_inode_table (new_desc 2048 s) = 3 + nb_block_data_bitmap (fs_layout 2048 s) + 1"
    by (simp_all add: new_desc_def Let_def BLOCK_TABLE_BLOCK_def)
  have small: "data_bitmap_of n + 4 < 2 ^ 32" using b n by simp
  have ib: "unat (bg_inode_bitmap (new_desc 2048 s)) = 3 + data_bitmap_of n"
    "unat (bg_inode_table (new_desc 2048 s)) = 4 + data_bitmap_of n"
    using lay(4) small by (simp_all add: bb unat_word_ariths)
  have nb: "nb_bitmap (new_desc 2048 s) = data_bitmap_of n" using ib by (simp add: nb_bitmap_def bb)
  have blk: "unat (s_blocks_count (new_super 2048 s)) = data_blocks_of n" "unat (s_inodes_count (new_super 2048 s)) = inodes_of n"
    using lay by (simp_all add: new_super_def Let_def)
  have "s_first_data_block (new_super 2048 s) = s div 4 - nb_blocks_data (fs_layout 2048 s)"
    by (simp add: new_super_def Let_def BLOCK_SIZE_def)
  then have first: "unat (s_first_data_block (new_super 2048 s)) = data_bitmap_of n + (3 + inode_bitmap_of n + inode_blocks_of n)"
    using lay(5) s4 b(3) by (simp add: unat_sub word_le_nat_alt)
  have m: "nb_blocks_inodes (fs_layout 2048 s) mod 2048 = 0 \<longleftrightarrow> inode_blocks_of n mod 2048 = 0"
    using lay(2) by (simp add: unat_mod word_unat_eq_iff)
  have ibm: "inode_blocks_of n mod 2048 \<noteq> 0 \<Longrightarrow> 0 < inode_bitmap_of n" by (simp add: inode_bitmap_of_def)
  have pos: "0 < data_blocks_of n" "data_blocks_of n \<le> rest_of n" "0 < data_bitmap_of n"
    using b(2) lin(6) by (simp_all add: data_blocks_of_def)
  have "areas (new_super 2048 s) (new_desc 2048 s) SUPER_BLOCK_LOC BLOCK_TABLE_BLOCK"
    using ib first blk b(3) n lin(6) pos
    by (simp add: areas_def bb SUPER_BLOCK_LOC_def BLOCK_TABLE_BLOCK_def word_less_nat_alt word_le_nat_alt del: bb(2,3))
  then show ?thesis using ib nb blk first m ibm pos b(3) lin lay(2) unfolding Let_def n_def [symmetric] by (simp add: bb(1) Suc_le_eq)
qed

theorem format_areas_fit_witness:
  "unat (s_first_data_block (new_super 2048 100000)) + unat (s_blocks_count (new_super 2048 100000)) = 25000"
  using format_areas_fit [of 100000] by (simp add: Let_def)

end
