(* ===== verification/Inode.thy ===== *)
theory Inode
  imports Ext2
begin

text \<open>
  The inodes: \<^verbatim>\<open>src/kernel/fs/inode.c\<close> and the list of open inodes of \<^verbatim>\<open>inode_util.c\<close>. An inode in memory
  is at an address of the heap \<open>inodes\<close>; its block on the disk is memory of the cache. A pointer that
  is returned is 0 for NULL.
\<close>

section \<open>Constants\<close>

definition EXT2_S_IFSOCK :: u16 where "EXT2_S_IFSOCK = 0xC000"
definition EXT2_S_IFLNK :: u16 where "EXT2_S_IFLNK = 0xA000"
definition EXT2_S_IFREG :: u16 where "EXT2_S_IFREG = 0x8000"
definition EXT2_S_IFBLK :: u16 where "EXT2_S_IFBLK = 0x6000"
definition EXT2_S_IFDIR :: u16 where "EXT2_S_IFDIR = 0x4000"
definition EXT2_S_IFCHR :: u16 where "EXT2_S_IFCHR = 0x2000"
definition EXT2_S_IFIFO :: u16 where "EXT2_S_IFIFO = 0x1000"
definition L_DIRECT :: u32 where "L_DIRECT = 12"
definition DIRECT_AND_INDEX_INDIRECT :: u32 where "DIRECT_AND_INDEX_INDIRECT = 13"
definition INDIRECT_BLOCKS_INDEX :: nat where "INDIRECT_BLOCKS_INDEX = 12"
definition DOUBLE_DIRECT_BLOCKS_INDEX :: nat where "DOUBLE_DIRECT_BLOCKS_INDEX = 13"
definition L_ONE_INDIRECT :: u32 where "L_ONE_INDIRECT = 525"
definition BASIC_DOUBLE_INDIRECT :: u32 where "BASIC_DOUBLE_INDIRECT = 526"
definition L_DOUBLE_INDIRECT :: u32 where "L_DOUBLE_INDIRECT = 262668"
definition MAX_BLOCKS_FILE :: u32 where "MAX_BLOCKS_FILE = 262668"
definition REL_NB_DIRECT :: u32 where "REL_NB_DIRECT = 12"
definition REL_NB_INDIRECT :: u32 where "REL_NB_INDIRECT = 512"
definition REL_NB_DOUB_INDIRECT :: u32 where "REL_NB_DOUB_INDIRECT = 262144"
definition BASIC_DOT_DIR_SIZE :: u32 where "BASIC_DOT_DIR_SIZE = 24"

datatype put_op = RELEASE_INODE | SAVE_INODE
datatype disk_get = READ_OP | WRITE_OP

section \<open>The structure on the disk\<close>

definition inode_bytes :: "inode_t \<Rightarrow> byte list" where
  "inode_bytes i =
     put16 (i_mode i) @ put16 (i_uid i) @ put32 (i_size i) @ put32 (i_atime i) @ put32 (i_ctime i) @ put32 (i_mtime i) @
     put32 (i_dtime i) @ put16 (i_gid i) @ put16 (i_links_count i) @ put32 (i_blocks i) @ put32 (i_flags i) @ put32 (i_osd1 i) @
     concat (map put32 (i_block i)) @ put32 (i_generation i) @ put32 (i_file_acl i) @ put32 (i_dir_acl i) @ put32 (i_faddr i) @
     i_osd2 i"

definition bytes_inode :: "byte list \<Rightarrow> inode_t" where
  "bytes_inode bs =
     \<lparr>i_mode = get16 0 bs, i_uid = get16 2 bs, i_size = get32 4 bs, i_atime = get32 8 bs, i_ctime = get32 12 bs,
      i_mtime = get32 16 bs, i_dtime = get32 20 bs, i_gid = get16 24 bs, i_links_count = get16 26 bs, i_blocks = get32 28 bs,
      i_flags = get32 32 bs, i_osd1 = get32 36 bs, i_block = map (\<lambda>j. get32 (40 + 4 * j) bs) [0 ..< 15],
      i_generation = get32 100 bs, i_file_acl = get32 104 bs, i_dir_acl = get32 108 bs, i_faddr = get32 112 bs,
      i_osd2 = take 12 (drop 116 bs)\<rparr>"

definition zero_inode :: inode_t where
  "zero_inode = bytes_inode (replicate 128 0)"

definition inode_blk :: "block_group_descriptor \<Rightarrow> u32 \<Rightarrow> u32 \<Rightarrow> u32" where
  "inode_blk d n bs = bg_inode_table d + n * INODE_SIZE div bs"

definition inode_off :: "u32 \<Rightarrow> u32 \<Rightarrow> nat" where
  "inode_off n bs = unat (n * INODE_SIZE mod bs)"

section \<open>Inodes in memory\<close>

definition inode_at :: "ptr \<Rightarrow> inode_t fsm" where
  "inode_at a = sread (\<lambda>s. if a = 0 then Inl Null_deref else case inodes s a of None \<Rightarrow> Inl Use_after_free | Some i \<Rightarrow> Inr i)"

definition upd_inode :: "ptr \<Rightarrow> (inode_t \<Rightarrow> inode_t) \<Rightarrow> unit fsm" where
  "upd_inode a f = sbind (inode_at a) (\<lambda>i. supd (\<lambda>s. s\<lparr>inodes := (inodes s)(a \<mapsto> f i)\<rparr>))"

definition new_inode :: "inode_t \<Rightarrow> ptr fsm" where
  "new_inode i =
     sbind fs_malloc (\<lambda>ok.
     if \<not> ok then sret 0
     else (\<lambda>s. Inr (ffresh s, s\<lparr>inodes := (inodes s)(ffresh s \<mapsto> i), ffresh := Suc (ffresh s)\<rparr>)))"

definition free_inode_mem :: "ptr \<Rightarrow> unit fsm" where
  "free_inode_mem a s =
     (if a = 0 then Inr ((), s)
      else if inodes s a = None then Inl Double_free
      else Inr ((), s\<lparr>inodes := (inodes s)(a := None)\<rparr>))"

section \<open>The list of open inodes\<close>

definition get_inode_t_elt_from_id :: "u32 \<Rightarrow> ext2 \<Rightarrow> inode_elt option" where
  "get_inode_t_elt_from_id n s = find (\<lambda>e. ie_id e = n) (inode_list s)"

definition get_inode_from_node_id :: "u32 \<Rightarrow> ext2 \<Rightarrow> ptr" where
  "get_inode_from_node_id n s = (case find (\<lambda>e. ie_id e = n) (inode_list s) of None \<Rightarrow> 0 | Some e \<Rightarrow> ie_address e)"

definition get_inode_t_elt :: "ptr \<Rightarrow> ext2 \<Rightarrow> inode_elt option" where
  "get_inode_t_elt a s = (if c_fs (fcache s) = None then None else find (\<lambda>e. ie_address e = a) (inode_list s))"

definition get_inode_number :: "ptr \<Rightarrow> ext2 \<Rightarrow> u32" where
  "get_inode_number a s = (case get_inode_t_elt a s of None \<Rightarrow> 0 | Some e \<Rightarrow> ie_id e)"

fun upd_elt :: "(inode_elt \<Rightarrow> bool) \<Rightarrow> (inode_elt \<Rightarrow> inode_elt) \<Rightarrow> inode_elt list \<Rightarrow> inode_elt list" where
  "upd_elt P f [] = []"
| "upd_elt P f (e # es) = (if P e then f e # es else e # upd_elt P f es)"

definition add_inode_list :: "ptr \<Rightarrow> u32 \<Rightarrow> int fsm" where
  "add_inode_list a n =
     sbind fs_malloc (\<lambda>ok.
     if \<not> ok then sret (-1)
     else sbind (supd (\<lambda>s. s\<lparr>inode_list := \<lparr>ie_address = a, ie_id = n, ie_usage = 1\<rparr> # inode_list s\<rparr>)) (\<lambda>_. sret 0))"

definition remove_inode_list :: "u32 \<Rightarrow> ptr \<Rightarrow> int fsm" where
  "remove_inode_list n a s =
     (let id = (if n = 0 \<and> a \<noteq> 0 then get_inode_number a s else n) in
      if n = 0 \<and> a \<noteq> 0 \<and> id = 0 then Inr (-1, s)
      else
        (case get_inode_t_elt (if a = 0 then get_inode_from_node_id id s else a) s of
           None \<Rightarrow> Inr (-1, s)
         | Some e \<Rightarrow>
             if ie_id e \<noteq> id then Inl Assert_fail
             else sbind (supd (\<lambda>s. s\<lparr>inode_list := remove1 e (inode_list s)\<rparr>)) (\<lambda>_. sbind (free_inode_mem a) (\<lambda>_. sret 0)) s))"

text \<open>Every inode of the list is freed, then the list, which the caller replaces.\<close>

fun free_inode_list :: "inode_elt list \<Rightarrow> int fsm" where
  "free_inode_list [] = sret 0"
| "free_inode_list (e # es) = sbind (free_inode_mem (ie_address e)) (\<lambda>_. free_inode_list es)"

section \<open>Getting and putting\<close>

definition get_inode :: "u32 \<Rightarrow> ptr fsm" where
  "get_inode n s =
     (case (get_super_block s, get_desc_table s) of
        (Some p, Some d) \<Rightarrow>
          if n = 0 \<or> n > s_inodes_count p then Inr (0, s)
          else
            (case get_inode_t_elt_from_id n s of
               Some e \<Rightarrow> Inr (ie_address e, s\<lparr>inode_list := upd_elt (\<lambda>e. ie_id e = n) (\<lambda>e. e\<lparr>ie_usage := ie_usage e + 1\<rparr>) (inode_list s)\<rparr>)
             | None \<Rightarrow>
                 sbind fs_block_size (\<lambda>bs.
                 if bs = 0 then sfail Div_by_zero
                 else sbind (read_blk (inode_blk d n bs)) (\<lambda>a.
                   if a = 0 then sret 0
                   else sbind (at_blk a) (\<lambda>data.
                     if inode_off n bs + 128 > length data then sfail Out_of_bounds
                     else sbind (new_inode (bytes_inode (peek (inode_off n bs) 128 data))) (\<lambda>i.
                       if i = 0 then sret 0
                       else sbind (add_inode_list i n) (\<lambda>_. sbind (unlock_blk (inode_blk d n bs)) (\<lambda>_. sret i)))))) s)
      | _ \<Rightarrow> Inr (0, s))"

definition put_inode :: "ptr \<Rightarrow> u32 \<Rightarrow> put_op \<Rightarrow> int fsm" where
  "put_inode a n0 op s =
     (case (get_super_block s, get_desc_table s) of
        (Some p, Some d) \<Rightarrow>
          (let n = (if n0 = 0 then get_inode_number a s else n0) in
           if n = 0 \<or> n > s_inodes_count p then Inr (-1, s)
           else
             sbind fs_block_size (\<lambda>bs.
             if bs = 0 then sfail Div_by_zero
             else sbind (read_blk (inode_blk d n bs)) (\<lambda>blk.
               if blk = 0 then sret (-1)
               else sbind (inode_at a) (\<lambda>i.
                 sbind (store_blk blk (inode_off n bs) (inode_bytes i)) (\<lambda>_.
                 sbind (case op of
                          SAVE_INODE \<Rightarrow> sret ()
                        | RELEASE_INODE \<Rightarrow>
                            sbind (sread (\<lambda>s. case get_inode_t_elt a s of None \<Rightarrow> Inl Null_deref | Some e \<Rightarrow> Inr e)) (\<lambda>e.
                            sbind (supd (\<lambda>s. s\<lparr>inode_list := upd_elt (\<lambda>e. ie_address e = a) (\<lambda>e. e\<lparr>ie_usage := ie_usage e - 1\<rparr>) (inode_list s)\<rparr>)) (\<lambda>_.
                            if ie_usage e - 1 = 0 then sbind (remove_inode_list n a) (\<lambda>_. sret ()) else sret ()))) (\<lambda>_.
                 sbind (save_at blk (inode_blk d n bs)) (\<lambda>r. sret (if r < 0 then -1 else 0))))))) s)
      | _ \<Rightarrow> Inr (-1, s))"

fun sync_inodes_loop :: "inode_elt list \<Rightarrow> unit fsm" where
  "sync_inodes_loop [] = sret ()"
| "sync_inodes_loop (e # es) = sbind (put_inode (ie_address e) (ie_id e) SAVE_INODE) (\<lambda>_. sync_inodes_loop es)"

definition sync_inodes :: "int fsm" where
  "sync_inodes s =
     (if c_fs (fcache s) = None \<or> inode_list s = [] then Inr (-1, s)
      else sbind (sync_inodes_loop (inode_list s)) (\<lambda>_. sret 0) s)"

section \<open>Allocating inodes\<close>

text \<open>Only the first block of the bitmap is looked at: the loop ends there, found or not.\<close>

definition inode_bit :: "block_group_descriptor \<Rightarrow> u32 \<Rightarrow> u32 fsm" where
  "inode_bit d bs =
     (let b = bg_inode_bitmap d in
      if \<not> b < bg_inode_table d then sret 0
      else sbind (read_blk b) (\<lambda>a.
        if a = 0 then sret 0
        else sbind (at_blk a) (\<lambda>data.
          (let j = alloc_bit_bitmap data bs in
           if j = -1 then sret 0
           else sbind (store_blk a (nat j div 8) [set_bit_at (nat j) data]) (\<lambda>_.
             sbind (save_at a b) (\<lambda>r.
             if r < 0 then sret 0 else sret ((b - bg_inode_bitmap d) * (bs div INODE_SIZE) + of_int j)))))))"

definition alloc_inode :: "ptr fsm" where
  "alloc_inode s =
     (case (get_super_block s, get_desc_table s) of
        (Some p, Some d) \<Rightarrow>
          if s_free_inodes_count p = 0 \<or> bg_free_inodes_count d = 0 then Inr (0, s)
          else
            sbind fs_block_size (\<lambda>bs.
            if bs = 0 then sfail Div_by_zero
            else sbind (inode_bit d bs) (\<lambda>n.
              if n = 0 then sret 0
              else sbind (new_inode (zero_inode\<lparr>i_links_count := 1\<rparr>)) (\<lambda>i.
                if i = 0 then sret 0
                else sbind (read_blk (inode_blk d n bs)) (\<lambda>blk.
                  if blk = 0 then sret 0
                  else sbind (inode_at i) (\<lambda>v.
                    sbind (store_blk blk (inode_off n bs) (inode_bytes v)) (\<lambda>_.
                    sbind (save_at blk (inode_blk d n bs)) (\<lambda>r.
                    if r < 0 then sret 0
                    else
                      sbind (supd (on_super (\<lambda>p. p\<lparr>s_free_inodes_count := s_free_inodes_count p - 1\<rparr>))) (\<lambda>_.
                      sbind (supd (on_desc (\<lambda>d. d\<lparr>bg_free_inodes_count := bg_free_inodes_count d - 1\<rparr>))) (\<lambda>_.
                      sbind save_super_block (\<lambda>_.
                      sbind save_blk_desc_table (\<lambda>_.
                      sbind (add_inode_list i n) (\<lambda>_. sret i)))))))))))) s
      | _ \<Rightarrow> Inr (0, s))"

section \<open>Freeing inodes\<close>

text \<open>A 32-bit cell of a block in memory.\<close>

definition cell_at :: "ptr \<Rightarrow> nat \<Rightarrow> u32 fsm" where
  "cell_at a i = sbind (at_blk a) (\<lambda>data. if 4 * i + 4 > length data then sfail Out_of_bounds else sret (get32 (4 * i) data))"

fun free_blocks :: "u32 list \<Rightarrow> int fsm" where
  "free_blocks [] = sret 0"
| "free_blocks (b # bs) = sbind (free_data_block b) (\<lambda>r. if r < 0 then sret (-1) else free_blocks bs)"

text \<open>
  The cells from \<open>i\<close> on: the number of blocks freed, \<open>None\<close> when one could not be. With \<open>skip\<close> the
  cells that are zero are passed over.
\<close>

fun free_cells :: "bool \<Rightarrow> ptr \<Rightarrow> nat \<Rightarrow> nat \<Rightarrow> nat \<Rightarrow> nat option fsm" where
  "free_cells skip a 0 i c = sret (Some c)"
| "free_cells skip a (Suc n) i c =
     sbind (cell_at a i) (\<lambda>v.
     if skip \<and> v = 0 then free_cells skip a n (Suc i) c
     else sbind (free_data_block v) (\<lambda>r. if r < 0 then sret None else free_cells skip a n (Suc i) (Suc c)))"

text \<open>The non-zero cells at the start of a block.\<close>

fun leading_cells :: "nat \<Rightarrow> nat \<Rightarrow> ptr \<Rightarrow> nat fsm" where
  "leading_cells 0 i a = sret i"
| "leading_cells (Suc n) i a = sbind (cell_at a i) (\<lambda>v. if v \<noteq> 0 then leading_cells n (Suc i) a else sret i)"

fun free_double :: "ptr \<Rightarrow> u32 \<Rightarrow> nat \<Rightarrow> nat \<Rightarrow> nat \<Rightarrow> nat \<Rightarrow> nat option fsm" where
  "free_double a first nb 0 i c = sret (Some c)"
| "free_double a first nb (Suc n) i c =
     sbind (cell_at a i) (\<lambda>v.
     if v = 0 then free_double a first nb n (Suc i) c
     else sbind (read_blk (first + v)) (\<lambda>ind.
       if ind = 0 then free_double a first nb n (Suc i) c
       else sbind (free_cells True ind nb 0 c) (\<lambda>co.
         case co of
           None \<Rightarrow> sret None
         | Some c1 \<Rightarrow>
             sbind (cell_at a i) (\<lambda>v1.
             sbind (unlock_blk (first + v1)) (\<lambda>_.
             sbind (free_data_block v1) (\<lambda>r.
             if r < 0 then sret None else free_double a first nb n (Suc i) (Suc c1)))))))"

definition free_part1 :: "inode_t \<Rightarrow> nat option fsm" where
  "free_part1 i =
     (let direct = (if i_blocks i > L_DIRECT then L_DIRECT else i_blocks i) in
      sbind (free_blocks (take (unat direct) (i_block i))) (\<lambda>r. sret (if r < 0 then None else Some (unat direct))))"

definition free_part2 :: "inode_t \<Rightarrow> u32 \<Rightarrow> nat \<Rightarrow> nat option fsm" where
  "free_part2 i first c =
     (if \<not> i_blocks i > L_DIRECT then sret (Some c)
      else
        (let ib = i_block i ! INDIRECT_BLOCKS_INDEX in
         sbind (read_blk (first + ib)) (\<lambda>a.
         if a = 0 then sret None
         else sbind (free_cells False a (unat (if i_blocks i \<ge> L_ONE_INDIRECT then REL_NB_INDIRECT else i_blocks i - L_DIRECT - 1)) 0 c) (\<lambda>co.
           case co of
             None \<Rightarrow> sret None
           | Some c1 \<Rightarrow>
               sbind (unlock_blk (first + ib)) (\<lambda>_.
               sbind (free_data_block ib) (\<lambda>r. sret (if r < 0 then None else Some (Suc c1))))))))"

definition free_part3 :: "inode_t \<Rightarrow> u32 \<Rightarrow> u32 \<Rightarrow> nat \<Rightarrow> nat option fsm" where
  "free_part3 i first bs c =
     (if \<not> i_blocks i > L_ONE_INDIRECT then sret (Some c)
      else
        (let db = i_block i ! DOUBLE_DIRECT_BLOCKS_INDEX; nb = unat (bs div 4) in
         if db = 0 then sret None
         else sbind (read_blk (first + db)) (\<lambda>a.
           if a = 0 then sret None
           else sbind (leading_cells nb 0 a) (\<lambda>n.
             sbind (free_double a first nb n 0 c) (\<lambda>co.
             case co of
               None \<Rightarrow> sret None
             | Some c1 \<Rightarrow>
                 sbind (unlock_blk (first + db)) (\<lambda>_.
                 sbind (free_data_block db) (\<lambda>r. sret (if r < 0 then None else Some (Suc c1)))))))))"

definition free_parts :: "inode_t \<Rightarrow> nat option fsm" where
  "free_parts i s =
     (sbind (free_part1 i) (\<lambda>c1.
      case c1 of
        None \<Rightarrow> sret None
      | Some n1 \<Rightarrow>
          (case get_super_block s of
             None \<Rightarrow> if i_blocks i > L_DIRECT then sfail Null_deref else sret (Some n1)
           | Some p \<Rightarrow>
               sbind (free_part2 i (s_first_data_block p) n1) (\<lambda>c2.
               case c2 of
                 None \<Rightarrow> sret None
               | Some n2 \<Rightarrow> sbind fs_block_size (\<lambda>bs. free_part3 i (s_first_data_block p) bs n2)))) s)"

definition free_inode_data :: "ptr \<Rightarrow> int fsm" where
  "free_inode_data a =
     (if a = 0 then sret (-1)
      else
        sbind (inode_at a) (\<lambda>i.
        if length (i_block i) < 15 then sfail Out_of_bounds
        else sbind (free_parts i) (\<lambda>co.
          case co of
            None \<Rightarrow> sret (-1)
          | Some n \<Rightarrow>
              if n \<noteq> unat (i_blocks i) then sret (-1)
              else sbind (upd_inode a (\<lambda>i. i\<lparr>i_size := 0, i_blocks := 0, i_block := replicate 15 0\<rparr>)) (\<lambda>_. sret 0))))"

text \<open>The descriptor's bitmap block is tested for NULL where the code means its memory.\<close>

definition free_inode :: "ptr \<Rightarrow> u32 \<Rightarrow> int fsm" where
  "free_inode a0 n s =
     (case (get_super_block s, get_desc_table s) of
        (Some p, Some d) \<Rightarrow>
          if n = 0 then Inr (-1, s)
          else
            sbind (if a0 = 0 then get_inode n else sret a0) (\<lambda>a.
            if a = 0 then sret (-1)
            else sbind (inode_at a) (\<lambda>i.
              if i_mode i = EXT2_S_IFDIR \<and> i_size i > BASIC_DOT_DIR_SIZE then sret 0
              else sbind (upd_inode a (\<lambda>i. i\<lparr>i_links_count := i_links_count i - 1\<rparr>)) (\<lambda>_.
                if i_links_count i - 1 > 0 then sret 0
                else sbind (free_inode_data a) (\<lambda>r.
                  if r < 0 then sret (-1)
                  else sbind fs_block_size (\<lambda>bs.
                    if 8 * bs = 0 then sfail Div_by_zero
                    else
                      (let b = bg_inode_bitmap d + n div (8 * bs); j = unat (n mod (bs * 8)) in
                       sbind (read_blk b) (\<lambda>blk.
                       if b = 0 then sret (-1)
                       else sbind (at_blk blk) (\<lambda>data.
                         sbind (store_blk blk (j div 8) [clear_bit_at j data]) (\<lambda>_.
                         sbind (save_at blk b) (\<lambda>r.
                         if r < 0 then sret (-1)
                         else
                           sbind (supd (on_super (\<lambda>p. p\<lparr>s_free_inodes_count := s_free_inodes_count p + 1\<rparr>))) (\<lambda>_.
                           sbind (supd (on_desc (\<lambda>d. d\<lparr>bg_free_inodes_count := bg_free_inodes_count d + 1\<rparr>))) (\<lambda>_.
                           sbind save_super_block (\<lambda>_.
                           sbind save_blk_desc_table (\<lambda>_.
                           remove_inode_list n a)))))))))))))) s
      | _ \<Rightarrow> Inr (-1, s))"

section \<open>The blocks of an inode\<close>

definition put_cell :: "ptr \<Rightarrow> nat \<Rightarrow> u32 \<Rightarrow> unit fsm" where
  "put_cell a i v = store_blk a (4 * i) (put32 v)"

definition block_of :: "inode_t \<Rightarrow> nat \<Rightarrow> u32 res" where
  "block_of i j = (if j < length (i_block i) then Inr (i_block i ! j) else Inl Out_of_bounds)"

definition set_block :: "nat \<Rightarrow> u32 \<Rightarrow> inode_t \<Rightarrow> inode_t" where
  "set_block j v i = i\<lparr>i_block := (i_block i)[j := v]\<rparr>"

definition add_blocks :: "inode_t \<Rightarrow> inode_t" where
  "add_blocks i = i\<lparr>i_blocks := i_blocks i + 1\<rparr>"

text \<open>A block behind the indirect block, which is allocated with the first of them.\<close>

definition add_indirect :: "ptr \<Rightarrow> u32 \<Rightarrow> u32 \<Rightarrow> u32 \<Rightarrow> int fsm" where
  "add_indirect a first nb blk =
     sbind (inode_at a) (\<lambda>i.
     sbind (if i_blocks i = L_DIRECT
            then sbind get_data_block (\<lambda>ind.
              if ind = 0 then sret False
              else sbind (upd_inode a (\<lambda>i. add_blocks (set_block INDIRECT_BLOCKS_INDEX ind i))) (\<lambda>_. sret True))
            else sret True) (\<lambda>ok.
     if \<not> ok then sret (-1)
     else sbind (inode_at a) (\<lambda>i.
       sbind (read_blk (first + i_block i ! INDIRECT_BLOCKS_INDEX)) (\<lambda>m.
       if m = 0 then sret (-1)
       else sbind (put_cell m (unat ((i_blocks i - DIRECT_AND_INDEX_INDIRECT) mod nb)) blk) (\<lambda>_.
         sbind (save_at m (first + i_block i ! INDIRECT_BLOCKS_INDEX)) (\<lambda>r.
         if r < 0 then sret (-1)
         else sbind (upd_inode a add_blocks) (\<lambda>_. sret 0)))))))"

text \<open>
  A block behind the double indirect block: its memory, then the indirect block that has room (a new
  one when the others are full), then the cell.
\<close>

definition main_double :: "ptr \<Rightarrow> u32 \<Rightarrow> u32 \<Rightarrow> ptr fsm" where
  "main_double a first bs =
     sbind (inode_at a) (\<lambda>i.
     if i_blocks i = L_ONE_INDIRECT then
       sbind get_data_block (\<lambda>db.
       if db = 0 then sret 0
       else sbind (upd_inode a (set_block DOUBLE_DIRECT_BLOCKS_INDEX db)) (\<lambda>_.
         sbind (read_blk (first + db)) (\<lambda>m.
         if m = 0 then sret 0
         else sbind (store_blk m 0 (replicate (unat bs) 0)) (\<lambda>_.
           sbind (upd_inode a add_blocks) (\<lambda>_. sret m)))))
     else read_blk (first + i_block i ! DOUBLE_DIRECT_BLOCKS_INDEX))"

definition save_double :: "ptr \<Rightarrow> u32 \<Rightarrow> ptr \<Rightarrow> ptr \<Rightarrow> nat \<Rightarrow> nat \<Rightarrow> bool \<Rightarrow> u32 \<Rightarrow> int fsm" where
  "save_double a first m ind last_cell room written blk =
     sbind (put_cell ind room blk) (\<lambda>_.
     sbind (inode_at a) (\<lambda>i.
     sbind (if written then save_at m (first + i_block i ! DOUBLE_DIRECT_BLOCKS_INDEX)
            else sbind (unlock_blk (first + i_block i ! DOUBLE_DIRECT_BLOCKS_INDEX)) (\<lambda>_. sret 0)) (\<lambda>r.
     if r < 0 then sret (-1)
     else sbind (cell_at m last_cell) (\<lambda>v.
       sbind (save_at ind (first + v)) (\<lambda>r.
       if r < 0 then sret (-1)
       else sbind (upd_inode a add_blocks) (\<lambda>_. sret 0))))))"

definition add_double :: "ptr \<Rightarrow> u32 \<Rightarrow> u32 \<Rightarrow> u32 \<Rightarrow> int fsm" where
  "add_double a first bs blk =
     (let nb = bs div 4 in
      sbind (main_double a first bs) (\<lambda>m.
      if m = 0 then sret (-1)
      else sbind (leading_cells (unat nb) 0 m) (\<lambda>n.
        sbind (inode_at a) (\<lambda>i.
        (let room = (i_blocks i - BASIC_DOUBLE_INDIRECT - of_nat n) mod nb in
         if room = 0 then
           (if n \<noteq> unat nb then
              sbind get_data_block (\<lambda>ib.
              if ib = 0 then sret (-1)
              else sbind (put_cell m n ib) (\<lambda>_.
                sbind (upd_inode a add_blocks) (\<lambda>_.
                sbind (cell_at m n) (\<lambda>v.
                sbind (read_blk (first + v)) (\<lambda>ind.
                sbind (store_blk ind 0 (replicate (unat bs) 0)) (\<lambda>_.
                save_double a first m ind n (unat room) True blk))))))
            else sbind (unlock_blk (first + i_block i ! DOUBLE_DIRECT_BLOCKS_INDEX)) (\<lambda>_. sret (-1)))
         else if n = 0 then sfail Out_of_bounds
         else
           sbind (cell_at m (n - 1)) (\<lambda>v.
           sbind (read_blk (first + v)) (\<lambda>ind.
           if ind = 0 then sret (-1)
           else save_double a first m ind (n - 1) (unat room) False blk)))))))"

definition add_data_block_inode :: "ptr \<Rightarrow> int fsm" where
  "add_data_block_inode a s =
     (case (get_super_block s, get_desc_table s) of
        (Some p, Some d) \<Rightarrow>
          if a = 0 then Inr (-1, s)
          else
            sbind (inode_at a) (\<lambda>i.
            if length (i_block i) < 15 then sfail Out_of_bounds
            else if i_blocks i = MAX_BLOCKS_FILE then sret (-1)
            else sbind get_data_block (\<lambda>blk.
              if blk = 0 then sret (-1)
              else sbind fs_block_size (\<lambda>bs.
                if bs div 4 = 0 then sfail Div_by_zero
                else if i_blocks i < L_DIRECT then
                  sbind (upd_inode a (\<lambda>i. add_blocks (set_block (unat (i_blocks i)) blk i))) (\<lambda>_. sret 0)
                else if i_blocks i < L_ONE_INDIRECT then add_indirect a (s_first_data_block p) (bs div 4) blk
                else if i_blocks i < L_DOUBLE_INDIRECT then add_double a (s_first_data_block p) bs blk
                else sret (-1)))) s
      | _ \<Rightarrow> Inr (-1, s))"

definition get_actual_blocks :: "ptr \<Rightarrow> int fsm" where
  "get_actual_blocks a s =
     (case get_super_block s of
        None \<Rightarrow> Inr (-1, s)
      | Some p \<Rightarrow>
          sbind (inode_at a) (\<lambda>i.
          if i_blocks i \<le> L_DIRECT then sret (sint (i_blocks i))
          else if i_blocks i \<le> L_ONE_INDIRECT then sret (sint (i_blocks i - 1))
          else if i_blocks i \<le> L_DOUBLE_INDIRECT then
            sbind (sread (\<lambda>_. block_of i DOUBLE_DIRECT_BLOCKS_INDEX)) (\<lambda>db.
            sbind (read_blk (s_first_data_block p + db)) (\<lambda>m.
            if m = 0 then sret (-1)
            else sbind fs_block_size (\<lambda>bs.
              sbind (leading_cells (unat (bs div 4)) 0 m) (\<lambda>n.
              sbind (unlock_blk (s_first_data_block p + db)) (\<lambda>_.
              sret (sint (i_blocks i - of_nat n - 1 - 1)))))))
          else sret (-1)) s)"

text \<open>
  The block number of a file position, relative to the data blocks, 0 when there is none. The
  double indirect case unlocks the block behind the first cell, whichever cell it used.
\<close>

definition relative_block :: "inode_t \<Rightarrow> u32 \<Rightarrow> u32 \<Rightarrow> u32 fsm" where
  "relative_block i first rel =
     (if rel < REL_NB_DIRECT then sread (\<lambda>_. block_of i (unat rel))
      else if rel < REL_NB_INDIRECT + REL_NB_DIRECT then
        sbind (sread (\<lambda>_. block_of i INDIRECT_BLOCKS_INDEX)) (\<lambda>ib.
        sbind (read_blk (first + ib)) (\<lambda>m.
        if m = 0 then sret 0
        else sbind (cell_at m (unat (rel - REL_NB_DIRECT))) (\<lambda>v. sbind (unlock_blk (first + ib)) (\<lambda>_. sret v))))
      else if rel < REL_NB_DOUB_INDIRECT + REL_NB_INDIRECT + REL_NB_DIRECT then
        sbind fs_block_size (\<lambda>bs.
        if bs div 4 = 0 then sfail Div_by_zero
        else
          (let dbl = rel - (REL_NB_INDIRECT + REL_NB_DIRECT); ind = unat (dbl div (bs div 4)); idx = unat (dbl mod (bs div 4)) in
           sbind (sread (\<lambda>_. block_of i DOUBLE_DIRECT_BLOCKS_INDEX)) (\<lambda>db.
           sbind (read_blk (first + db)) (\<lambda>m.
           if m = 0 then sret 0
           else sbind (cell_at m ind) (\<lambda>ib.
             sbind (read_blk (first + ib)) (\<lambda>n.
             if n = 0 then sret 0
             else sbind (cell_at m 0) (\<lambda>i0.
               sbind (unlock_blk (first + i0)) (\<lambda>_.
               sbind (unlock_blk (first + db)) (\<lambda>_. cell_at n idx)))))))))
      else sret 0)"

definition get_inode_relative_block :: "ptr \<Rightarrow> u32 \<Rightarrow> disk_get \<Rightarrow> ptr fsm" where
  "get_inode_relative_block a rel op s =
     (case get_super_block s of
        None \<Rightarrow> Inr (0, s)
      | Some p \<Rightarrow>
          if a = 0 then Inr (0, s)
          else
            sbind (inode_at a) (\<lambda>i.
            sbind (relative_block i (s_first_data_block p) rel) (\<lambda>v.
            if v = 0 then sret 0
            else
              sbind (read_blk (v + s_first_data_block p)) (\<lambda>m.
              if m = 0 then sret 0
              else
                sbind (if op = WRITE_OP then supd (\<lambda>s. s\<lparr>fcache := snd (set_dirty_block (v + s_first_data_block p) (fcache s))\<rparr>)
                       else sret ()) (\<lambda>_. sret m)))) s)"

end
