(* ===== verification/Dir.thy ===== *)
theory Dir
  imports Inode
begin

text \<open>
  Directories: the entries of \<^verbatim>\<open>src/kernel/fs/inode.c\<close> and the type maps of \<^verbatim>\<open>inode_util.c\<close>. A
  directory block is a chain of entries, each with the distance to the next; what the code does to the
  memory of one block is a function on its bytes, which the operations apply to the cache.

  The chain of a block of \<open>n\<close> bytes has at most \<open>n\<close> entries unless one has distance 0: the loops over a
  block have fuel \<open>n + 1\<close>, and running out of it is not returning.
\<close>

section \<open>Entries\<close>

definition EXT2_FT_UNKNOWN :: byte where "EXT2_FT_UNKNOWN = 0"
definition EXT2_FT_REG_FILE :: byte where "EXT2_FT_REG_FILE = 1"
definition EXT2_FT_DIR :: byte where "EXT2_FT_DIR = 2"
definition EXT2_FT_CHRDEV :: byte where "EXT2_FT_CHRDEV = 3"
definition EXT2_FT_BLKDEV :: byte where "EXT2_FT_BLKDEV = 4"
definition EXT2_FT_FIFO :: byte where "EXT2_FT_FIFO = 5"
definition EXT2_FT_SOCK :: byte where "EXT2_FT_SOCK = 6"
definition EXT2_FT_SYMLINK :: byte where "EXT2_FT_SYMLINK = 7"
definition EXT2_FT_FREE :: byte where "EXT2_FT_FREE = 8"
definition SIZE_DIR_NO_NAME :: nat where "SIZE_DIR_NO_NAME = 8"

record dir_entry =
  inode_n :: u32
  rec_len :: u16
  name_len :: byte
  file_type :: byte
  entry_name :: "byte list"

definition entry_header :: "dir_entry \<Rightarrow> byte list" where
  "entry_header e = put32 (inode_n e) @ put16 (rec_len e) @ [name_len e, file_type e]"

definition header_at :: "nat \<Rightarrow> byte list \<Rightarrow> dir_entry" where
  "header_at pos bs =
     \<lparr>inode_n = get32 pos bs, rec_len = get16 (pos + 4) bs, name_len = bs ! (pos + 6), file_type = bs ! (pos + 7), entry_name = []\<rparr>"

definition align4 :: "nat \<Rightarrow> nat" where
  "align4 n = (if n mod 4 \<noteq> 0 then n + (4 - n mod 4) else n)"

text \<open>\<^verbatim>\<open>write_dir_entry\<close> on the bytes of the block.\<close>

definition put_entry :: "nat \<Rightarrow> dir_entry \<Rightarrow> byte list \<Rightarrow> byte list" where
  "put_entry pos e bs =
     poke (pos + SIZE_DIR_NO_NAME) (take (unat (name_len e)) (entry_name e)) (poke pos (entry_header e) bs)"

definition write_dir_entry :: "ptr \<Rightarrow> nat \<Rightarrow> dir_entry \<Rightarrow> int fsm" where
  "write_dir_entry a pos e =
     (if a = 0 \<or> pos mod 4 \<noteq> 0 then sret (-1)
      else sbind (at_blk a) (\<lambda>bs.
        if pos + SIZE_DIR_NO_NAME + unat (name_len e) > length bs \<or> length (entry_name e) < unat (name_len e) then sfail Out_of_bounds
        else sbind (store_blk a 0 (put_entry pos e bs)) (\<lambda>_. sret 0)))"

definition save_dir_entry :: "dir_entry \<Rightarrow> nat \<Rightarrow> u32 \<Rightarrow> int fsm" where
  "save_dir_entry e pos n s =
     (case get_super_block s of
        None \<Rightarrow> Inl Null_deref
      | Some p \<Rightarrow>
          sbind (read_blk (s_first_data_block p + n)) (\<lambda>a.
          if a = 0 then sret (-1)
          else sbind (write_dir_entry a pos e) (\<lambda>r.
            if r < 0 then sret (-1) else save_at a (s_first_data_block p + n))) s)"

section \<open>Looking up\<close>

definition entry_matches :: "byte list \<Rightarrow> nat \<Rightarrow> byte list \<Rightarrow> bool res" where
  "entry_matches bs pos name =
     (let h = header_at pos bs in
      if file_type h = EXT2_FT_FREE \<or> length name \<noteq> unat (name_len h) then Inr False
      else if pos + SIZE_DIR_NO_NAME + length name > length bs then Inl Out_of_bounds
      else Inr (peek (pos + SIZE_DIR_NO_NAME) (length name) bs = name))"

fun dir_find :: "nat \<Rightarrow> nat \<Rightarrow> byte list \<Rightarrow> byte list \<Rightarrow> u32 option res" where
  "dir_find 0 pos bs name = Inl No_return"
| "dir_find (Suc n) pos bs name =
     (if pos \<ge> length bs then Inr None
      else if pos + SIZE_DIR_NO_NAME > length bs then Inl Out_of_bounds
      else rbind (entry_matches bs pos name) (\<lambda>hit.
        if hit then Inr (Some (inode_n (header_at pos bs)))
        else dir_find n (pos + unat (rec_len (header_at pos bs))) bs name))"

definition look_block :: "byte list \<Rightarrow> byte list \<Rightarrow> u32 option res" where
  "look_block bs name = dir_find (Suc (length bs)) 0 bs name"

text \<open>The loop over the blocks of the directory, from block \<open>k\<close>; a hit leaves its block locked.\<close>

fun look_blocks :: "nat \<Rightarrow> nat \<Rightarrow> inode_t \<Rightarrow> u32 \<Rightarrow> byte list \<Rightarrow> u32 fsm" where
  "look_blocks 0 k i first name = sret 0"
| "look_blocks (Suc n) k i first name =
     sbind (sread (\<lambda>_. block_of i k)) (\<lambda>b.
     sbind (read_blk (first + b)) (\<lambda>a.
     if a = 0 then sret (-1)
     else sbind (at_blk a) (\<lambda>bs.
       sbind (sread (\<lambda>_. look_block bs name)) (\<lambda>hit.
       case hit of
         Some v \<Rightarrow> sret v
       | None \<Rightarrow> sbind (unlock_blk (first + b)) (\<lambda>_. look_blocks n (Suc k) i first name)))))"

definition look_for_inode_dir :: "ptr \<Rightarrow> byte list option \<Rightarrow> u32 fsm" where
  "look_for_inode_dir a name =
     (case name of
        None \<Rightarrow> sret (-1)
      | Some nm \<Rightarrow>
          if a = 0 \<or> nm = [] then sret (-1)
          else sbind (inode_at a) (\<lambda>i.
            if i_mode i \<noteq> EXT2_S_IFDIR then sret (-1)
            else if i_blocks i = 0 then sret 0
            else sbind (sread (\<lambda>s. case get_super_block s of None \<Rightarrow> Inl Null_deref | Some p \<Rightarrow> Inr p)) (\<lambda>p.
              look_blocks (unat (i_blocks i)) 0 i (s_first_data_block p) nm)))"

section \<open>Adding\<close>

text \<open>
  Where a block has room for an entry of so many bytes: the bytes with the entry before it shortened,
  the place, and the distance of the new entry. A free entry is taken when its own name is shorter
  than the new entry, whether or not the new entry fits.
\<close>

datatype place = No_room | Placed "byte list" nat u16

definition set_rec_len :: "nat \<Rightarrow> u16 \<Rightarrow> byte list \<Rightarrow> byte list" where
  "set_rec_len pos v bs = poke (pos + 4) (put16 v) bs"

fun dir_place :: "nat \<Rightarrow> nat \<Rightarrow> u16 \<Rightarrow> byte list \<Rightarrow> place res" where
  "dir_place 0 pos need bs = Inl No_return"
| "dir_place (Suc n) pos need bs =
     (if pos \<ge> length bs then Inr No_room
      else if pos + SIZE_DIR_NO_NAME > length bs then Inl Out_of_bounds
      else
        (let h = header_at pos bs; len = unat (name_len h); used = SIZE_DIR_NO_NAME + align4 len in
         if file_type h = EXT2_FT_FREE \<and> SIZE_DIR_NO_NAME + len < unat need then Inr (Placed bs pos (rec_len h))
         else if (ucast need :: u32) < ucast (rec_len h) - of_nat used then
           (let kept = of_nat (align4 (SIZE_DIR_NO_NAME + len)) in
            Inr (Placed (set_rec_len pos kept bs) (pos + unat kept) (rec_len h - kept)))
         else dir_place n (pos + unat (rec_len h)) need bs))"

definition place_block :: "u16 \<Rightarrow> byte list \<Rightarrow> place res" where
  "place_block need bs = dir_place (Suc (length bs)) 0 need bs"

fun add_blocks_loop :: "nat \<Rightarrow> nat \<Rightarrow> inode_t \<Rightarrow> u32 \<Rightarrow> dir_entry \<Rightarrow> int option fsm" where
  "add_blocks_loop 0 k i first e = sret None"
| "add_blocks_loop (Suc n) k i first e =
     sbind (sread (\<lambda>_. block_of i k)) (\<lambda>b.
     sbind (read_blk (first + b)) (\<lambda>a.
     if a = 0 then sret (Some (-1))
     else sbind (at_blk a) (\<lambda>bs.
       sbind (sread (\<lambda>_. place_block (rec_len e) bs)) (\<lambda>pl.
       case pl of
         No_room \<Rightarrow> sbind (unlock_blk (first + b)) (\<lambda>_. add_blocks_loop n (Suc k) i first e)
       | Placed bs1 pos len \<Rightarrow>
           sbind (store_blk a 0 bs1) (\<lambda>_.
           sbind (write_dir_entry a pos (e\<lparr>rec_len := len\<rparr>)) (\<lambda>r.
           if r < 0 then sret (Some (-1)) else sbind (save_at a (first + b)) (\<lambda>r. sret (Some r))))))))"

definition new_entry :: "u32 \<Rightarrow> byte \<Rightarrow> byte list \<Rightarrow> dir_entry" where
  "new_entry n ty name =
     (let len = of_nat (length name) :: byte in
      \<lparr>inode_n = n, rec_len = of_nat (align4 (SIZE_DIR_NO_NAME + unat len)), name_len = len, file_type = ty, entry_name = name\<rparr>)"

text \<open>The entry in a new block, which it fills.\<close>

definition add_in_new_block :: "ptr \<Rightarrow> dir_entry \<Rightarrow> int fsm" where
  "add_in_new_block a e =
     sbind (add_data_block_inode a) (\<lambda>r.
     if r < 0 then sret (-1)
     else sbind (inode_at a) (\<lambda>i.
       sbind fs_block_size (\<lambda>bs.
       sbind (sread (\<lambda>_. block_of i (unat (i_blocks i - 1)))) (\<lambda>b.
       save_dir_entry (e\<lparr>rec_len := ucast bs\<rparr>) 0 b))))"

definition add_inode_directory :: "ptr \<Rightarrow> u32 \<Rightarrow> byte \<Rightarrow> byte list \<Rightarrow> int fsm" where
  "add_inode_directory a n ty name s =
     (case get_super_block s of
        None \<Rightarrow> Inr (-1, s)
      | Some p \<Rightarrow>
          if a = 0 \<or> n = 0 then Inr (-1, s)
          else
            sbind (inode_at a) (\<lambda>i.
            if i_mode i \<noteq> EXT2_S_IFDIR then sret (-1)
            else sbind (look_for_inode_dir a (Some name)) (\<lambda>found.
              if found > 0 then sret (-1)
              else
                (let e = new_entry n ty name in
                 sbind (upd_inode a (\<lambda>i. i\<lparr>i_size := i_size i + ucast (rec_len e)\<rparr>)) (\<lambda>_.
                 if i_blocks i = 0 then add_in_new_block a e
                 else
                   sbind (add_blocks_loop (unat (i_blocks i)) 0 i (s_first_data_block p) e) (\<lambda>done.
                   case done of
                     Some r \<Rightarrow> sret r
                   | None \<Rightarrow> if i_blocks i < L_DIRECT then add_in_new_block a e else sret (-1)))))) s)"

section \<open>Removing\<close>

text \<open>
  The memory of a block after the removal, whether the block is to be given back, the place of the
  entry and its size; \<open>None\<close> when the block has no such entry. \<open>prev\<close> is the entry before.
\<close>

definition set_file_type :: "nat \<Rightarrow> byte \<Rightarrow> byte list \<Rightarrow> byte list" where
  "set_file_type pos t bs = bs[pos + 7 := t]"

fun dir_remove :: "nat \<Rightarrow> nat \<Rightarrow> nat \<Rightarrow> byte list \<Rightarrow> byte list \<Rightarrow> (byte list \<times> bool \<times> nat \<times> nat) option res" where
  "dir_remove 0 prev pos bs name = Inl No_return"
| "dir_remove (Suc n) prev pos bs name =
     (if pos \<ge> length bs then Inr None
      else if pos + SIZE_DIR_NO_NAME > length bs then Inl Out_of_bounds
      else
        (let h = header_at pos bs; used = align4 (SIZE_DIR_NO_NAME + unat (name_len h)) in
         rbind (entry_matches bs pos name) (\<lambda>hit.
         if hit then
           (if prev = pos then
              (if (of_nat (length bs) :: u32) - of_nat used = ucast (rec_len h) then Inr (Some (bs, True, pos, used))
               else Inr (Some (set_file_type pos EXT2_FT_FREE bs, False, pos, used)))
            else
              (let hp = header_at prev bs; len = rec_len hp + rec_len h in
               Inr (Some (set_rec_len prev len bs, file_type hp = EXT2_FT_FREE \<and> length bs = unat len, pos, used))))
         else dir_remove n pos (pos + unat (rec_len h)) bs name)))"

definition remove_block :: "byte list \<Rightarrow> byte list \<Rightarrow> (byte list \<times> bool \<times> nat \<times> nat) option res" where
  "remove_block bs name = dir_remove (Suc (length bs)) 0 0 bs name"

text \<open>What is done to an entry of an inner block that is to be given back.\<close>

definition blank_entry :: "nat \<Rightarrow> byte list \<Rightarrow> byte list" where
  "blank_entry pos bs = set_rec_len pos (of_nat (length bs)) ((set_file_type pos EXT2_FT_FREE bs)[pos + 6 := 0])"

fun remove_blocks_loop :: "nat \<Rightarrow> nat \<Rightarrow> ptr \<Rightarrow> inode_t \<Rightarrow> u32 \<Rightarrow> byte list \<Rightarrow> int fsm" where
  "remove_blocks_loop 0 k d i first name = sret (-1)"
| "remove_blocks_loop (Suc n) k d i first name =
     sbind (sread (\<lambda>_. block_of i k)) (\<lambda>b.
     sbind (read_blk (first + b)) (\<lambda>a.
     if a = 0 then sret (-1)
     else sbind (at_blk a) (\<lambda>bs.
       sbind (sread (\<lambda>_. remove_block bs name)) (\<lambda>hit.
       case hit of
         None \<Rightarrow> sbind (unlock_blk (first + b)) (\<lambda>_. remove_blocks_loop n (Suc k) d i first name)
       | Some (bs1, del, pos, used) \<Rightarrow>
           sbind (store_blk a 0 bs1) (\<lambda>_.
           if del \<and> k = unat (i_blocks i) - 1 then
             sbind (unlock_blk (first + b)) (\<lambda>_.
             sbind (free_data_block b) (\<lambda>r.
             if r < 0 then sret (-1)
             else sbind (upd_inode d (\<lambda>i. set_block k 0 (i\<lparr>i_blocks := i_blocks i - 1\<rparr>))) (\<lambda>_. sret 0)))
           else
             sbind (if del then store_blk a 0 (blank_entry pos bs1) else sret ()) (\<lambda>_.
             sbind (upd_inode d (\<lambda>i. i\<lparr>i_size := i_size i - of_nat used\<rparr>)) (\<lambda>_.
             save_at a (first + b))))))))"

definition remove_inode_dir :: "ptr \<Rightarrow> byte list option \<Rightarrow> int fsm" where
  "remove_inode_dir d name =
     (case name of
        None \<Rightarrow> sret (-1)
      | Some nm \<Rightarrow>
          if d = 0 \<or> nm = [] then sret (-1)
          else sbind (inode_at d) (\<lambda>i.
            if i_mode i \<noteq> EXT2_S_IFDIR then sret (-1)
            else
              (let str = takeWhile (\<lambda>c. c \<noteq> 0) nm in
               if length nm \<le> 2 \<and> (str = [46] \<or> str = [46, 46]) then sret (-1)
               else if i_blocks i = 0 then sret 0
               else if i_blocks i > L_DIRECT then sfail Assert_fail
               else sbind (sread (\<lambda>s. case get_super_block s of None \<Rightarrow> Inl Null_deref | Some p \<Rightarrow> Inr p)) (\<lambda>p.
                 remove_blocks_loop (unat (i_blocks i)) 0 d i (s_first_data_block p) nm))))"

section \<open>The dot directories\<close>

definition add_dot_directories :: "ptr \<Rightarrow> ptr \<Rightarrow> int fsm" where
  "add_dot_directories d prev =
     (if d = 0 \<or> prev = 0 then sret (-1)
      else
        sbind (inode_at d) (\<lambda>i.
        sbind (inode_at prev) (\<lambda>j.
        if i_mode i \<noteq> EXT2_S_IFDIR \<or> i_mode j \<noteq> EXT2_S_IFDIR then sret (-1)
        else
          sbind (sread (\<lambda>s. Inr (get_inode_number d s))) (\<lambda>n.
          sbind (add_inode_directory d n EXT2_FT_DIR [46]) (\<lambda>r.
          if r < 0 then sret (-1)
          else
            sbind (sread (\<lambda>s. Inr (get_inode_number prev s))) (\<lambda>m.
            sbind (add_inode_directory d m EXT2_FT_DIR [46, 46]) (\<lambda>r. sret (if r < 0 then -1 else 0))))))))"

text \<open>\<^verbatim>\<open>configure_root_inode\<close>: the fields are set one by one, then the dot entries are added to the root.\<close>

definition configure_root_inode :: "int fsm" where
  "configure_root_inode =
     sbind (get_inode EXT2_GOOD_OLD_FIRST_INO) (\<lambda>a.
     sbind (upd_inode a (\<lambda>i. i\<lparr>i_mode := EXT2_S_IFDIR, i_uid := 0, i_size := 0, i_atime := 0, i_ctime := 0, i_mtime := 0, i_dtime := 0,
                               i_gid := 0, i_blocks := 0, i_flags := 0xfffffff, i_osd1 := 0, i_generation := 1, i_file_acl := 0,
                               i_dir_acl := 0, i_faddr := 0\<rparr>)) (\<lambda>_.
     sbind (add_dot_directories a a) (\<lambda>_.
     sbind (put_inode a 0 RELEASE_INODE) (\<lambda>r.
     if r < 0 then sret (-1)
     else sbind (sread (\<lambda>s. if get_desc_table s = None then Inl Null_deref else Inr ())) (\<lambda>_.
       sbind (supd (on_desc (\<lambda>d. d\<lparr>bg_used_dirs_count := bg_used_dirs_count d + 1\<rparr>))) (\<lambda>_. sret 0))))))"

section \<open>Listing\<close>

record dirent =
  d_ino :: u64
  d_off :: u64
  d_reclen :: u16
  d_type :: byte
  d_name :: "byte list"

definition map_ext2_to_dt :: "byte \<Rightarrow> byte" where
  "map_ext2_to_dt t =
     (if t = EXT2_FT_FIFO then 1 else if t = EXT2_FT_CHRDEV then 2 else if t = EXT2_FT_DIR then 4
      else if t = EXT2_FT_BLKDEV then 6 else if t = EXT2_FT_REG_FILE then 8 else if t = EXT2_FT_SYMLINK then 10
      else if t = EXT2_FT_SOCK then 12 else 0)"

definition align8 :: "nat \<Rightarrow> nat" where
  "align8 n = (if n mod 8 \<noteq> 0 then n + (8 - n mod 8) else n)"

definition DIRENT_BASIC_SIZE :: nat where "DIRENT_BASIC_SIZE = 24"

text \<open>The entries of a block into a buffer with \<open>room\<close> bytes left; the first that does not fit ends the block.\<close>

fun dents_block :: "nat \<Rightarrow> nat \<Rightarrow> nat \<Rightarrow> byte list \<Rightarrow> nat \<Rightarrow> dirent list \<Rightarrow> (nat \<times> dirent list) res" where
  "dents_block 0 k pos bs room acc = Inl No_return"
| "dents_block (Suc n) k pos bs room acc =
     (if pos \<ge> length bs then Inr (room, acc)
      else if pos + SIZE_DIR_NO_NAME > length bs then Inl Out_of_bounds
      else
        (let h = header_at pos bs; len = unat (name_len h); ent = align8 (DIRENT_BASIC_SIZE + len + 1);
             next_pos = pos + unat (rec_len h) in
         if file_type h = EXT2_FT_FREE then dents_block n k next_pos bs room acc
         else if room < ent then Inr (room, acc)
         else if pos + SIZE_DIR_NO_NAME + len > length bs then Inl Out_of_bounds
         else
           dents_block n k next_pos bs (room - ent)
             (acc @ [\<lparr>d_ino = ucast (inode_n h), d_off = of_nat (pos + k * EXT2_BLOCK_SIZE + unat (rec_len h)), d_reclen = of_nat ent,
                      d_type = map_ext2_to_dt (file_type h), d_name = peek (pos + SIZE_DIR_NO_NAME) len bs @ [0]\<rparr>])))"

fun dents_loop :: "nat \<Rightarrow> nat \<Rightarrow> inode_t \<Rightarrow> u32 \<Rightarrow> nat \<Rightarrow> dirent list \<Rightarrow> (nat \<times> dirent list) option fsm" where
  "dents_loop 0 k i first room acc = sret (Some (room, acc))"
| "dents_loop (Suc n) k i first room acc =
     sbind (sread (\<lambda>_. block_of i k)) (\<lambda>b.
     sbind (read_blk (first + b)) (\<lambda>a.
     if a = 0 then sret None
     else sbind (at_blk a) (\<lambda>bs.
       sbind (sread (\<lambda>_. dents_block (Suc (length bs)) k 0 bs room acc)) (\<lambda>(room1, acc1).
       sbind (unlock_blk (first + b)) (\<lambda>_. dents_loop n (Suc k) i first room1 acc1)))))"

text \<open>The result is one more than the bytes written.\<close>

definition getdents_i :: "ptr \<Rightarrow> u32 \<Rightarrow> (int \<times> dirent list) fsm" where
  "getdents_i a cnt =
     (if a = 0 \<or> cnt = 0 then sret (-1, [])
      else
        sbind (inode_at a) (\<lambda>i.
        if i_mode i \<noteq> EXT2_S_IFDIR then sret (-1, [])
        else if i_blocks i = 0 then sret (1, [])
        else sbind (sread (\<lambda>s. case get_super_block s of None \<Rightarrow> Inl Null_deref | Some p \<Rightarrow> Inr p)) (\<lambda>p.
          sbind (dents_loop (unat (i_blocks i)) 0 i (s_first_data_block p) (unat cnt) []) (\<lambda>r.
          case r of
            None \<Rightarrow> sret (-1, [])
          | Some (room, acc) \<Rightarrow> sret (int (unat cnt - room) + 1, acc)))))"

section \<open>Type maps\<close>

unbundle bit_operations_syntax

definition ext2_to_stat_mode :: "u16 \<Rightarrow> u32" where
  "ext2_to_stat_mode m =
     (if m AND 0xF000 = EXT2_S_IFSOCK then 0xC000 else if m AND 0xF000 = EXT2_S_IFLNK then 0xA000
      else if m AND 0xF000 = EXT2_S_IFREG then 0x8000 else if m AND 0xF000 = EXT2_S_IFBLK then 0x6000
      else if m AND 0xF000 = EXT2_S_IFDIR then 0x4000 else if m AND 0xF000 = EXT2_S_IFCHR then 0x2000
      else if m AND 0xF000 = EXT2_S_IFIFO then 0x1000 else 0)"

definition map_ext2_types_to_dir_type :: "u32 \<Rightarrow> byte" where
  "map_ext2_types_to_dir_type m =
     (if m = ucast EXT2_S_IFIFO then EXT2_FT_FIFO else if m = ucast EXT2_S_IFCHR then EXT2_FT_CHRDEV
      else if m = ucast EXT2_S_IFDIR then EXT2_FT_DIR else if m = ucast EXT2_S_IFBLK then EXT2_FT_BLKDEV
      else if m = ucast EXT2_S_IFREG then EXT2_FT_REG_FILE else if m = ucast EXT2_S_IFLNK then EXT2_FT_SYMLINK
      else if m = ucast EXT2_S_IFSOCK then EXT2_FT_SOCK else 0)"

end
