(* ===== verification/DirChain.thy ===== *)
theory DirChain
  imports Dir
begin

text \<open>
  A directory block as the list of its entries: each entry is its header, its name and the unused
  bytes up to the next one. What looking up, adding and removing do to the bytes is described on this
  list.
\<close>

section \<open>Slots\<close>

type_synonym slot = "dir_entry \<times> byte list"

definition raw :: "slot \<Rightarrow> byte list" where
  "raw s = entry_header (fst s) @ entry_name (fst s) @ snd s"

definition slots_bytes :: "slot list \<Rightarrow> byte list" where
  "slots_bytes ss = concat (map raw ss)"

definition slot_ok :: "slot \<Rightarrow> bool" where
  "slot_ok s \<longleftrightarrow> length (entry_name (fst s)) = unat (name_len (fst s)) \<and>
     SIZE_DIR_NO_NAME + align4 (unat (name_len (fst s))) \<le> unat (rec_len (fst s)) \<and> unat (rec_len (fst s)) mod 4 = 0 \<and>
     unat (rec_len (fst s)) = SIZE_DIR_NO_NAME + unat (name_len (fst s)) + length (snd s)"

definition is_free :: "slot \<Rightarrow> bool" where
  "is_free s \<longleftrightarrow> file_type (fst s) = EXT2_FT_FREE"

definition names :: "slot list \<Rightarrow> byte list list" where
  "names ss = map (entry_name \<circ> fst) (filter (\<lambda>s. \<not> is_free s) ss)"

text \<open>The map from names to inode numbers that the list stands for.\<close>

fun entry_map :: "slot list \<Rightarrow> byte list \<Rightarrow> u32 option" where
  "entry_map [] nm = None"
| "entry_map (s # ss) nm = (if \<not> is_free s \<and> entry_name (fst s) = nm then Some (inode_n (fst s)) else entry_map ss nm)"

definition dir_block :: "slot list \<Rightarrow> byte list \<Rightarrow> bool" where
  "dir_block ss bs \<longleftrightarrow> bs = slots_bytes ss \<and> (\<forall>s \<in> set ss. slot_ok s) \<and> distinct (names ss) \<and> length bs < 2 ^ 16"

lemma slots_simps [simp]:
  "slots_bytes [] = []" "slots_bytes (s # ss) = raw s @ slots_bytes ss" "slots_bytes (xs @ ys) = slots_bytes xs @ slots_bytes ys"
  by (simp_all add: slots_bytes_def)

lemma names_simps [simp]:
  "names [] = []" "names (s # ss) = (if is_free s then names ss else entry_name (fst s) # names ss)" "names (xs @ ys) = names xs @ names ys"
  by (simp_all add: names_def)

lemma entry_map_append: "entry_map (xs @ ys) nm = (case entry_map xs nm of None \<Rightarrow> entry_map ys nm | Some v \<Rightarrow> Some v)"
  by (induction xs) auto

lemma entry_map_None: "entry_map ss nm = None \<longleftrightarrow> nm \<notin> set (names ss)"
  by (induction ss) auto

lemma length_header [simp]: "length (entry_header e) = 8"
  by (simp add: entry_header_def)

lemma align4_facts: "n \<le> align4 n" "align4 n mod 4 = 0" "align4 (8 + n) = 8 + align4 n" "align4 n < n + 4"
proof -
  have "n mod 4 < 4" "n = 4 * (n div 4) + n mod 4"
    by auto
  then obtain q r where q: "n = 4 * q + r" and r: "r < 4"
    by metis
  have "(8 + n) mod 4 = r" "n mod 4 = r"
    using r by (simp_all add: q mod_add_eq [symmetric])
  moreover have "(4 * q + r + (4 - r)) mod 4 = 0"
    using r by simp
  ultimately show "n \<le> align4 n" "align4 n mod 4 = 0" "align4 (8 + n) = 8 + align4 n" "align4 n < n + 4"
    using r by (auto simp: align4_def q)
qed

lemma length_raw [simp]: "slot_ok s \<Longrightarrow> length (raw s) = unat (rec_len (fst s))"
  by (simp add: raw_def slot_ok_def SIZE_DIR_NO_NAME_def)

lemma slot_pos: "slot_ok s \<Longrightarrow> 8 \<le> unat (rec_len (fst s))"
  by (simp add: slot_ok_def SIZE_DIR_NO_NAME_def)

lemma slot_mod4: "slot_ok s \<Longrightarrow> unat (rec_len (fst s)) mod 4 = 0"
  unfolding slot_ok_def by blast

lemma dir_blockD:
  assumes "dir_block ss bs"
  shows "bs = slots_bytes ss" "\<forall>s \<in> set ss. slot_ok s" "distinct (names ss)" "length bs < 2 ^ 16"
  using assms unfolding dir_block_def by blast+

lemma slots_short: "\<forall>s \<in> set ss. slot_ok s \<Longrightarrow> length ss \<le> length (slots_bytes ss)"
  using slot_pos by (induction ss) fastforce+

section \<open>Reading an entry\<close>

lemma header_at_slot:
  assumes "length pre = pos"
  shows "header_at pos (pre @ raw (e, j) @ post) = e\<lparr>entry_name := []\<rparr>"
proof -
  have 1: "pre @ raw (e, j) @ post = pre @ put32 (inode_n e) @ (put16 (rec_len e) @ [name_len e, file_type e] @ entry_name e @ j @ post)"
    by (simp add: raw_def entry_header_def)
  have 2: "pre @ raw (e, j) @ post = (pre @ put32 (inode_n e)) @ put16 (rec_len e) @ ([name_len e, file_type e] @ entry_name e @ j @ post)"
    by (simp add: raw_def entry_header_def)
  have "get32 pos (pre @ raw (e, j) @ post) = inode_n e" unfolding 1 using assms by (simp add: get_put)
  moreover have "get16 (pos + 4) (pre @ raw (e, j) @ post) = rec_len e" unfolding 2 using assms by (subst get_put(1)) simp_all
  moreover have "(pre @ raw (e, j) @ post) ! (pos + 6) = name_len e" "(pre @ raw (e, j) @ post) ! (pos + 7) = file_type e"
    using assms by (simp_all add: raw_def entry_header_def nth_append)
  ultimately show ?thesis by (simp add: header_at_def)
qed

lemma entry_matches_slot:
  assumes "length pre = pos" "slot_ok s" 
  shows "entry_matches (pre @ raw s @ post) pos nm = Inr (\<not> is_free s \<and> entry_name (fst s) = nm)"
proof -
  obtain e j where s: "s = (e, j)" by (cases s)
  have p: "peek (pos + 8) (length (entry_name e)) (pre @ raw (e, j) @ post) = entry_name e"
    using assms(1) by (simp add: peek_def raw_def)
  note h = header_at_slot [OF assms(1), of e j post]
  have l: "length (entry_name e) = unat (name_len e)" "unat (name_len e) + 8 \<le> unat (rec_len e)"
    using assms(2) by (simp_all add: s slot_ok_def SIZE_DIR_NO_NAME_def)
  show ?thesis
    using p l length_raw [OF assms(2)] assms(1) unfolding entry_matches_def s h Let_def
    by (auto simp: is_free_def SIZE_DIR_NO_NAME_def)
qed

lemma dir_find_slots:
  assumes "\<forall>s \<in> set ys. slot_ok s" "length ys < n" "pos = length pre"
  shows "dir_find n pos (pre @ slots_bytes ys) nm = Inr (entry_map ys nm)"
  using assms
proof (induction n arbitrary: pre pos ys)
  case (Suc n)
  show ?case
  proof (cases ys)
    case (Cons s ss)
    obtain e j where s: "s = (e, j)" by (cases s)
    have ok: "slot_ok s" "\<forall>x \<in> set ss. slot_ok x" using Suc.prems(1) Cons by auto
    have m: "entry_matches (pre @ raw s @ slots_bytes ss) pos nm = Inr (\<not> is_free s \<and> entry_name (fst s) = nm)"
      by (rule entry_matches_slot) (use Suc.prems ok in auto)
    have h: "header_at pos (pre @ raw s @ slots_bytes ss) = e\<lparr>entry_name := []\<rparr>"
      unfolding s by (rule header_at_slot) (use Suc.prems in simp)
    have "dir_find n (pos + unat (rec_len e)) ((pre @ raw s) @ slots_bytes ss) nm = Inr (entry_map ss nm)"
      by (rule Suc.IH) (use Suc.prems Cons ok s in auto)
    then show ?thesis using Cons m h ok slot_pos [OF ok(1)] Suc.prems(3) s by (auto simp: SIZE_DIR_NO_NAME_def)
  qed (use Suc.prems in simp)
qed simp

lemma look_block_map:
  assumes "dir_block ss bs"
  shows "look_block bs nm = Inr (entry_map ss nm)"
proof -
  have "length ss < Suc (length bs)" using slots_short [of ss] assms by (simp add: dir_block_def)
  then have "dir_find (Suc (length bs)) 0 ([] @ slots_bytes ss) nm = Inr (entry_map ss nm)"
    by (intro dir_find_slots) (use assms in \<open>simp_all add: dir_block_def\<close>)
  then show ?thesis using assms unfolding look_block_def dir_block_def by (simp del: dir_find.simps)
qed

section \<open>Making room and writing an entry\<close>

lemma poke_middle: "length pre = off \<Longrightarrow> length new = length mid \<Longrightarrow> poke off new (pre @ mid @ post) = pre @ new @ post"
  by (simp add: poke_def)

lemma set_rec_len_slot:
  assumes "length pre = pos"
  shows "set_rec_len pos v (pre @ raw (e, j) @ post) = pre @ raw (e\<lparr>rec_len := v\<rparr>, j) @ post"
proof -
  have "pre @ raw (e, j) @ post = (pre @ put32 (inode_n e)) @ put16 (rec_len e) @ ([name_len e, file_type e] @ entry_name e @ j @ post)"
    by (simp add: raw_def entry_header_def)
  then have "set_rec_len pos v (pre @ raw (e, j) @ post) =
      (pre @ put32 (inode_n e)) @ put16 v @ ([name_len e, file_type e] @ entry_name e @ j @ post)"
    using assms by (simp only: set_rec_len_def) (rule poke_middle; simp)
  then show ?thesis by (simp add: raw_def entry_header_def)
qed

text \<open>
  The room a block has: the bytes of the new entry lie between the entries before and after it. They can
  be fewer than the entry needs only when they are a free entry whose name is short.
\<close>

definition room_at :: "slot list \<Rightarrow> slot list \<Rightarrow> byte list \<Rightarrow> slot list \<Rightarrow> nat \<Rightarrow> bool" where
  "room_at ys zs1 gap zs2 need \<longleftrightarrow> (\<forall>s \<in> set (zs1 @ zs2). slot_ok s) \<and> names (zs1 @ zs2) = names ys \<and>
     entry_map (zs1 @ zs2) = entry_map ys \<and> length gap mod 4 = 0 \<and>
     length (slots_bytes zs1) + length gap + length (slots_bytes zs2) = length (slots_bytes ys) \<and>
     (length gap < need \<longrightarrow> (\<exists>s \<in> set ys. is_free s \<and> SIZE_DIR_NO_NAME + unat (name_len (fst s)) < need \<and>
        unat (rec_len (fst s)) = length gap))"

lemma room_at_Cons:
  assumes "room_at ys zs1 gap zs2 need" "slot_ok s"
  shows "room_at (s # ys) (s # zs1) gap zs2 need"
  using assms by (auto simp: room_at_def fun_eq_iff)

lemma room_at_free:
  assumes "\<forall>s \<in> set (s # ss). slot_ok s" "is_free s" "SIZE_DIR_NO_NAME + unat (name_len (fst s)) < need"
  shows "room_at (s # ss) [] (raw s) ss need"
  using assms by (auto simp: room_at_def fun_eq_iff slot_ok_def)

lemma split_slot:
  assumes ok: "slot_ok (e, j)" and m: "m = align4 (unat (name_len e))"
  shows "slot_ok (e\<lparr>rec_len := of_nat (8 + m)\<rparr>, take (m - unat (name_len e)) j)"
    "raw (e\<lparr>rec_len := v\<rparr>, j) = raw (e\<lparr>rec_len := v\<rparr>, take (m - unat (name_len e)) j) @ drop (m - unat (name_len e)) j"
    "unat (of_nat (8 + m) :: u16) = 8 + m" "8 + m \<le> unat (rec_len e)"
    "length (drop (m - unat (name_len e)) j) = unat (rec_len e) - (8 + m)"
proof -
  have l: "length (entry_name e) = unat (name_len e)" "8 + m \<le> unat (rec_len e)" "unat (rec_len e) = 8 + unat (name_len e) + length j"
    "unat (name_len e) \<le> m" "m mod 4 = 0"
    using ok align4_facts [of "unat (name_len e)"] by (simp_all add: slot_ok_def SIZE_DIR_NO_NAME_def m)
  show u: "unat (of_nat (8 + m) :: u16) = 8 + m"
    using l(2) unsigned_less [of "rec_len e", where 'a = nat] by (simp add: unat_of_nat del: of_nat_add)
  have m4: "(8 + m) mod 4 = 0" using l(5) by presburger
  show "slot_ok (e\<lparr>rec_len := of_nat (8 + m)\<rparr>, take (m - unat (name_len e)) j)"
    using l u m m4 by (simp add: slot_ok_def SIZE_DIR_NO_NAME_def del: of_nat_add)
  show "raw (e\<lparr>rec_len := v\<rparr>, j) = raw (e\<lparr>rec_len := v\<rparr>, take (m - unat (name_len e)) j) @ drop (m - unat (name_len e)) j"
    by (simp add: raw_def entry_header_def)
  show "8 + m \<le> unat (rec_len e)" "length (drop (m - unat (name_len e)) j) = unat (rec_len e) - (8 + m)" using l by simp_all
qed

lemma spare_bytes:
  fixes need :: u16
  assumes "u \<le> unat (r :: u16)"
  shows "(ucast need :: u32) < ucast r - of_nat u \<longleftrightarrow> unat need < unat r - u"
proof -
  have up: "unat (ucast x :: u32) = unat x" for x :: u16
    using unsigned_less [of x, where 'a = nat] by (simp add: unsigned_ucast_eq take_bit_nat_eq_self)
  have "unat (of_nat u :: u32) = u" using assms unsigned_less [of r, where 'a = nat] by (simp add: unat_of_nat)
  then have "unat (ucast r - of_nat u :: u32) = unat r - u" using assms by (simp add: unat_sub word_le_nat_alt up)
  then show ?thesis by (simp add: word_less_nat_alt up)
qed

lemma room_at_split:
  assumes ok: "\<forall>s \<in> set ((e, j) # ss). slot_ok s" and m: "m = align4 (unat (name_len e))" and need: "need < unat (rec_len e) - (8 + m)"
  shows "room_at ((e, j) # ss) [(e\<lparr>rec_len := of_nat (8 + m)\<rparr>, take (m - unat (name_len e)) j)] (drop (m - unat (name_len e)) j) ss need"
proof -
  have o: "slot_ok (e, j)" using ok by simp
  note sp = split_slot [OF o m]
  have "unat (rec_len e) mod 4 = 0" using slot_mod4 [OF o] by simp
  moreover have "m mod 4 = 0" using align4_facts(2) [of "unat (name_len e)"] m by simp
  ultimately have "(unat (rec_len e) - (8 + m)) mod 4 = 0" using sp(4) by presburger
  then show ?thesis using ok sp need length_raw [OF sp(1)] length_raw [OF o]
    by (auto simp: room_at_def fun_eq_iff is_free_def simp del: of_nat_add)
qed

text \<open>What \<^verbatim>\<open>dir_place\<close> answers on a block of well-formed slots: no failure, and the room it makes.\<close>

lemma dir_place_slots:
  assumes "\<forall>s \<in> set ys. slot_ok s" "length ys < n" "pos = length pre"
  shows "\<exists>r. dir_place n pos need (pre @ slots_bytes ys) = Inr r \<and>
     (\<forall>bs1 p len. r = Placed bs1 p len \<longrightarrow>
        (\<exists>zs1 gap zs2. room_at ys zs1 gap zs2 (unat need) \<and> bs1 = pre @ slots_bytes zs1 @ gap @ slots_bytes zs2 \<and>
           p = pos + length (slots_bytes zs1) \<and> length gap = unat len))"
  using assms
proof (induction n arbitrary: pre pos ys)
  case (Suc n)
  show ?case
  proof (cases ys)
    case (Cons s ss)
    obtain e j where s: "s = (e, j)" by (cases s)
    have ok: "slot_ok (e, j)" "\<forall>x \<in> set ss. slot_ok x" "\<forall>x \<in> set ((e, j) # ss). slot_ok x" using Suc.prems(1) Cons s by auto
    have pos: "length pre = pos" using Suc.prems(3) by simp
    have h: "header_at pos (pre @ raw (e, j) @ slots_bytes ss) = e\<lparr>entry_name := []\<rparr>"
      by (rule header_at_slot) (rule pos)
    define m where "m = align4 (unat (name_len e))"
    define k :: u16 where "k = of_nat (8 + m)"
    note sp = split_slot [OF ok(1) m_def]
    have k: "unat k = 8 + m" using sp(3) by (simp add: k_def)
    have len: "pos < length (pre @ raw (e, j) @ slots_bytes ss)" "pos + 8 \<le> length (pre @ raw (e, j) @ slots_bytes ss)"
      using slot_pos [OF ok(1)] ok(1) pos by auto
    have step: "dir_place (Suc n) pos need (pre @ slots_bytes ys) =
       (if file_type e = EXT2_FT_FREE \<and> 8 + unat (name_len e) < unat need then Inr (Placed (pre @ raw (e, j) @ slots_bytes ss) pos (rec_len e))
        else if (ucast need :: u32) < ucast (rec_len e) - of_nat (8 + m) then
          Inr (Placed (set_rec_len pos k (pre @ raw (e, j) @ slots_bytes ss)) (pos + unat k) (rec_len e - k))
        else dir_place n (pos + unat (rec_len e)) need (pre @ raw (e, j) @ slots_bytes ss))"
      using len h by (simp add: Cons s SIZE_DIR_NO_NAME_def Let_def k_def m_def align4_facts(3) cong: if_cong split del: if_split)
    consider (free) "file_type e = EXT2_FT_FREE \<and> 8 + unat (name_len e) < unat need"
      | (split) "\<not> (file_type e = EXT2_FT_FREE \<and> 8 + unat (name_len e) < unat need)" "(ucast need :: u32) < ucast (rec_len e) - of_nat (8 + m)"
      | (on) "\<not> (file_type e = EXT2_FT_FREE \<and> 8 + unat (name_len e) < unat need)" "\<not> (ucast need :: u32) < ucast (rec_len e) - of_nat (8 + m)"
      by blast
    then show ?thesis
    proof cases
      case free
      have "room_at ys [] (raw (e, j)) ss (unat need)" unfolding Cons s by (rule room_at_free) (use ok free in \<open>simp_all add: is_free_def SIZE_DIR_NO_NAME_def\<close>)
      then show ?thesis using step free ok(1) by (intro exI [of _ "Placed (pre @ raw (e, j) @ slots_bytes ss) pos (rec_len e)"]) fastforce
    next
      case split
      have lt: "unat need < unat (rec_len e) - (8 + m)" using split(2) spare_bytes [OF sp(4), of need] by simp
      let ?z = "(e\<lparr>rec_len := k\<rparr>, take (m - unat (name_len e)) j)" and ?gap = "drop (m - unat (name_len e)) j"
      have r: "room_at ys [?z] ?gap ss (unat need)" unfolding Cons s k_def by (rule room_at_split [OF ok(3) m_def lt])
      have b: "set_rec_len pos k (pre @ raw (e, j) @ slots_bytes ss) = pre @ slots_bytes [?z] @ ?gap @ slots_bytes ss"
        using set_rec_len_slot [OF pos, of k e j "slots_bytes ss"] sp(2) [of k] by simp
      have z: "length (slots_bytes [?z]) = 8 + m" using length_raw [OF sp(1), folded k_def] k by simp
      have g: "length ?gap = unat (rec_len e - k)" using sp(5) k sp(4) by (simp add: unat_sub word_le_nat_alt)
      show ?thesis using step split r b z g k
        by (intro exI [of _ "Placed (set_rec_len pos k (pre @ raw (e, j) @ slots_bytes ss)) (pos + unat k) (rec_len e - k)"]) fastforce
    next
      case on
      have "length ss < n" "pos + unat (rec_len e) = length (pre @ raw (e, j))" using Suc.prems Cons ok(1) pos by auto
      from Suc.IH [OF ok(2) this] obtain r where r: "dir_place n (pos + unat (rec_len e)) need ((pre @ raw (e, j)) @ slots_bytes ss) = Inr r"
        "\<And>bs1 p len. r = Placed bs1 p len \<Longrightarrow>
          \<exists>zs1 gap zs2. room_at ss zs1 gap zs2 (unat need) \<and> bs1 = (pre @ raw (e, j)) @ slots_bytes zs1 @ gap @ slots_bytes zs2 \<and>
             p = pos + unat (rec_len e) + length (slots_bytes zs1) \<and> length gap = unat len"
        by blast
      have "\<exists>zs1 gap zs2. room_at ys zs1 gap zs2 (unat need) \<and> bs1 = pre @ slots_bytes zs1 @ gap @ slots_bytes zs2 \<and>
             p = pos + length (slots_bytes zs1) \<and> length gap = unat len" if pl: "r = Placed bs1 p len" for bs1 p len
      proof -
        obtain zs1 gap zs2 where z: "room_at ss zs1 gap zs2 (unat need)" "bs1 = (pre @ raw (e, j)) @ slots_bytes zs1 @ gap @ slots_bytes zs2"
          "p = pos + unat (rec_len e) + length (slots_bytes zs1)" "length gap = unat len" using r(2) [OF pl] by blast
        have "room_at ys ((e, j) # zs1) gap zs2 (unat need)" unfolding Cons s by (rule room_at_Cons [OF z(1) ok(1)])
        then show ?thesis using z ok(1) by (intro exI [of _ "(e, j) # zs1"] exI [of _ gap] exI [of _ zs2]) simp
      qed
      then show ?thesis using step on r(1) by auto
    qed
  qed (use Suc.prems in simp)
qed simp

lemma slots_mod4: "\<forall>s \<in> set ss. slot_ok s \<Longrightarrow> length (slots_bytes ss) mod 4 = 0"
proof (induction ss)
  case (Cons s ss)
  have "unat (rec_len (fst s)) mod 4 = 0" using Cons.prems slot_mod4 by simp
  moreover have "length (slots_bytes ss) mod 4 = 0" using Cons by simp
  ultimately have "(unat (rec_len (fst s)) + length (slots_bytes ss)) mod 4 = 0" by presburger
  then show ?case using Cons.prems by simp
qed simp

lemma put_entry_gap:
  assumes "length pre = pos" "length (entry_name e) = unat (name_len e)" "8 + unat (name_len e) \<le> length gap"
  shows "put_entry pos e (pre @ gap @ post) = pre @ raw (e, drop (8 + unat (name_len e)) gap) @ post"
proof -
  define n where "n = unat (name_len e)"
  have "poke pos (entry_header e) (pre @ take 8 gap @ (drop 8 gap @ post)) = pre @ entry_header e @ (drop 8 gap @ post)"
    by (rule poke_middle) (use assms in auto)
  moreover have "pre @ take 8 gap @ (drop 8 gap @ post) = pre @ gap @ post" by (metis append.assoc append_take_drop_id)
  ultimately have 1: "poke pos (entry_header e) (pre @ gap @ post) = pre @ entry_header e @ drop 8 gap @ post" by simp
  have "drop 8 gap = take n (drop 8 gap) @ drop (8 + n) gap" by (metis append_take_drop_id drop_drop add.commute)
  then have 2: "pre @ entry_header e @ drop 8 gap @ post = (pre @ entry_header e) @ take n (drop 8 gap) @ (drop (8 + n) gap @ post)"
    by (metis append.assoc)
  have "poke (pos + 8) (entry_name e) ((pre @ entry_header e) @ take n (drop 8 gap) @ (drop (8 + n) gap @ post)) =
     (pre @ entry_header e) @ entry_name e @ (drop (8 + n) gap @ post)"
    by (rule poke_middle) (use assms n_def in auto)
  then show ?thesis using assms(2) by (simp add: put_entry_def SIZE_DIR_NO_NAME_def 1 2 raw_def n_def)
qed

lemma new_entry_facts:
  assumes "length nm < 256"
  shows "unat (name_len (new_entry n ty nm)) = length nm" "entry_name (new_entry n ty nm) = nm"
    "inode_n (new_entry n ty nm) = n" "file_type (new_entry n ty nm) = ty" "unat (rec_len (new_entry n ty nm)) = 8 + align4 (length nm)"
proof -
  have u: "unat (of_nat (length nm) :: byte) = length nm" using assms by (simp add: unat_of_nat)
  have "8 + align4 (length nm) < 65536" using align4_facts(4) [of "length nm"] assms by simp
  then have "unat (of_nat (align4 (8 + length nm)) :: u16) = 8 + align4 (length nm)"
    by (simp add: unat_of_nat align4_facts(3) del: of_nat_add)
  then show "unat (rec_len (new_entry n ty nm)) = 8 + align4 (length nm)" using u by (simp add: new_entry_def SIZE_DIR_NO_NAME_def)
  show "unat (name_len (new_entry n ty nm)) = length nm" "entry_name (new_entry n ty nm) = nm"
    "inode_n (new_entry n ty nm) = n" "file_type (new_entry n ty nm) = ty"
    using u by (simp_all add: new_entry_def Let_def)
qed

lemma entry_map_insert:
  "nm \<notin> set (names (xs @ ys)) \<Longrightarrow> \<not> is_free s \<Longrightarrow> entry_name (fst s) = nm \<Longrightarrow>
     entry_map (xs @ s # ys) = (entry_map (xs @ ys))(nm \<mapsto> inode_n (fst s))"
  using entry_map_None [of xs nm] by (auto simp: fun_eq_iff entry_map_append split: option.splits)

text \<open>The new entry in the room made for it.\<close>

lemma placed_entry:
  assumes d: "dir_block ss bs" and nm: "length nm < 256" "nm \<notin> set (names ss)" "ty \<noteq> EXT2_FT_FREE"
    and fits: "rec_len (new_entry n ty nm) \<le> len"
    and pl: "place_block (rec_len (new_entry n ty nm)) bs = Inr (Placed bs1 pos len)"
    and e: "e = (new_entry n ty nm)\<lparr>rec_len := len\<rparr>"
  shows "\<exists>ss'. dir_block ss' (put_entry pos e bs1) \<and> entry_map ss' = (entry_map ss)(nm \<mapsto> n)"
    "pos mod 4 = 0" "pos + 8 + length nm \<le> length bs1" "length (put_entry pos e bs1) = length bs"
proof -
  have b: "bs = slots_bytes ss" "\<forall>s \<in> set ss. slot_ok s" "distinct (names ss)" "length bs < 2 ^ 16" using dir_blockD [OF d] by blast+
  have l: "length ss < Suc (length bs)" using slots_short [OF b(2)] b(1) by simp
  obtain zs1 gap zs2 where z: "room_at ss zs1 gap zs2 (unat (rec_len (new_entry n ty nm)))" "bs1 = slots_bytes zs1 @ gap @ slots_bytes zs2"
    "pos = length (slots_bytes zs1)" "length gap = unat len"
    using dir_place_slots [OF b(2) l, of 0 "[]" "rec_len (new_entry n ty nm)"] pl b(1) unfolding place_block_def by auto
  note ne = new_entry_facts [OF nm(1), of n ty]
  have zok: "\<forall>s \<in> set zs1. slot_ok s" "\<forall>s \<in> set zs2. slot_ok s" "names (zs1 @ zs2) = names ss" "entry_map (zs1 @ zs2) = entry_map ss"
    "length gap mod 4 = 0" "length (slots_bytes zs1) + length gap + length (slots_bytes zs2) = length bs" "8 + align4 (length nm) \<le> length gap"
    using z(1,4) fits ne(5) b(1) unfolding room_at_def word_le_nat_alt by auto
  let ?j = "drop (8 + length nm) gap"
  have g: "8 + length nm \<le> length gap" using zok(7) align4_facts(1) [of "length nm"] by simp
  have en: "unat (name_len e) = length nm" "entry_name e = nm" "inode_n e = n" "file_type e = ty" "rec_len e = len" using ne e by simp_all
  have put: "put_entry pos e bs1 = slots_bytes (zs1 @ (e, ?j) # zs2)"
    using put_entry_gap [of "slots_bytes zs1" pos e gap "slots_bytes zs2"] z(2,3) en g by simp
  have ok: "slot_ok (e, ?j)" using en zok(5,7) z(4) g by (simp add: slot_ok_def SIZE_DIR_NO_NAME_def)
  have nf: "\<not> is_free (e, ?j)" using en nm(3) by (simp add: is_free_def)
  show len: "length (put_entry pos e bs1) = length bs" using put ok zok(6) z(4) en(5) by simp
  have nz: "names zs1 @ names zs2 = names ss" using zok(3) by simp
  have "distinct (names zs1 @ names zs2)" "nm \<notin> set (names zs1 @ names zs2)" unfolding nz using b(3) nm(2) by blast+
  then have "distinct (names (zs1 @ (e, ?j) # zs2))" using nf en(2) by auto
  then have "dir_block (zs1 @ (e, ?j) # zs2) (put_entry pos e bs1)" using put ok zok(1,2) len b(4) by (auto simp: dir_block_def)
  moreover have "entry_map (zs1 @ (e, ?j) # zs2) = (entry_map ss)(nm \<mapsto> n)"
    using entry_map_insert [of nm zs1 zs2 "(e, ?j)"] nm(2) nf en(2,3) unfolding zok(3,4) by simp
  ultimately show "\<exists>ss'. dir_block ss' (put_entry pos e bs1) \<and> entry_map ss' = (entry_map ss)(nm \<mapsto> n)" by blast
  show "pos mod 4 = 0" using slots_mod4 [OF zok(1)] z(3) by simp
  show "pos + 8 + length nm \<le> length bs1" using z(2,3) g by simp
qed

text \<open>A place that is too short is a free entry with a name shorter than the new entry; any place is aligned.\<close>

lemma placed_facts:
  assumes d: "dir_block ss bs" and pl: "place_block need bs = Inr (Placed bs1 pos len)"
  shows "pos mod 4 = 0"
    "len < need \<Longrightarrow> \<exists>s \<in> set ss. is_free s \<and> SIZE_DIR_NO_NAME + unat (name_len (fst s)) < unat need \<and> rec_len (fst s) = len"
proof -
  note b = dir_blockD [OF d]
  have l: "length ss < Suc (length bs)" using slots_short [OF b(2)] b(1) by simp
  obtain zs1 gap zs2 where z: "room_at ss zs1 gap zs2 (unat need)" "pos = length (slots_bytes zs1)" "length gap = unat len"
    using dir_place_slots [OF b(2) l, of 0 "[]" need] pl b(1) unfolding place_block_def by auto
  show "pos mod 4 = 0" using slots_mod4 [of zs1] z(1,2) by (auto simp: room_at_def)
  show "\<exists>s \<in> set ss. is_free s \<and> SIZE_DIR_NO_NAME + unat (name_len (fst s)) < unat need \<and> rec_len (fst s) = len" if "len < need"
    using that z(1,3) unfolding room_at_def word_less_nat_alt by (auto simp: word_unat_eq_iff)
qed

end
