(* ===== verification/DirProps.thy ===== *)
theory DirProps
  imports DirChain
begin

text \<open>
  Removal from a directory block, and the properties: the operations on a well-formed block do not
  leave it, keep it well-formed and act on the map from names to inode numbers.
\<close>

section \<open>Removal\<close>

text \<open>The slots after the name is gone.\<close>

definition without :: "byte list \<Rightarrow> slot list \<Rightarrow> slot list \<Rightarrow> bool" where
  "without nm ys zs \<longleftrightarrow> (\<forall>s \<in> set zs. slot_ok s) \<and> distinct (names zs) \<and> entry_map zs = (entry_map ys)(nm := None) \<and>
     length (slots_bytes zs) = length (slots_bytes ys)"

lemma set_file_type_slot:
  assumes "length pre = pos"
  shows "set_file_type pos t (pre @ raw (e, j) @ post) = pre @ raw (e\<lparr>file_type := t\<rparr>, j) @ post"
  using assms by (simp add: set_file_type_def raw_def entry_header_def list_update_append)

text \<open>The first entry of the block becomes free.\<close>

lemma without_freed:
  assumes ok: "\<forall>s \<in> set ((e, j) # ss). slot_ok s" and d: "distinct (names ((e, j) # ss))" and l: "\<not> is_free (e, j)"
  shows "without (entry_name e) ((e, j) # ss) ((e\<lparr>file_type := EXT2_FT_FREE\<rparr>, j) # ss)"
proof -
  have "slot_ok (e\<lparr>file_type := EXT2_FT_FREE\<rparr>, j) = slot_ok (e, j)" by (simp add: slot_ok_def)
  then have o: "slot_ok (e\<lparr>file_type := EXT2_FT_FREE\<rparr>, j)" using ok by simp
  have f: "is_free (e\<lparr>file_type := EXT2_FT_FREE\<rparr>, j)" by (simp add: is_free_def)
  have n: "entry_map ss (entry_name e) = None" using d l by (simp add: entry_map_None)
  show ?thesis using ok o f n d l by (auto simp: without_def fun_eq_iff)
qed

text \<open>The entry is joined to the one before it.\<close>

lemma without_joined:
  assumes ok: "\<forall>s \<in> set (ws @ (q, jq) # (e, j) # ss). slot_ok s" and d: "distinct (names (ws @ (q, jq) # (e, j) # ss))"
    and l: "\<not> is_free (e, j)" and b: "length (slots_bytes (ws @ (q, jq) # (e, j) # ss)) < 2 ^ 16"
  shows "without (entry_name e) (ws @ (q, jq) # (e, j) # ss) (ws @ (q\<lparr>rec_len := rec_len q + rec_len e\<rparr>, jq @ raw (e, j)) # ss)"
proof -
  have o: "slot_ok (q, jq)" "slot_ok (e, j)" using ok by simp_all
  have "unat (rec_len q) + unat (rec_len e) < 65536" using b o by simp
  then have u: "unat (rec_len q + rec_len e) = unat (rec_len q) + unat (rec_len e)" by (simp add: unat_word_ariths)
  have m: "(unat (rec_len q) + unat (rec_len e)) mod 4 = 0" using slot_mod4 [OF o(1)] slot_mod4 [OF o(2)] by (simp add: mod_add_eq [symmetric])
  have qo: "slot_ok (q\<lparr>rec_len := rec_len q + rec_len e\<rparr>, jq @ raw (e, j))"
    using o(1) m length_raw [OF o(2)] unfolding slot_ok_def by (simp add: u)
  have fr: "is_free (q\<lparr>rec_len := rec_len q + rec_len e\<rparr>, jq @ raw (e, j)) = is_free (q, jq)" by (simp add: is_free_def)
  have len: "length (slots_bytes (ws @ (q\<lparr>rec_len := rec_len q + rec_len e\<rparr>, jq @ raw (e, j)) # ss)) =
      length (slots_bytes (ws @ (q, jq) # (e, j) # ss))"
    using length_raw [OF qo] length_raw [OF o(1)] length_raw [OF o(2)] u by simp
  have n: "entry_map ws (entry_name e) = None" "entry_map ss (entry_name e) = None" "\<not> is_free (q, jq) \<Longrightarrow> entry_name q \<noteq> entry_name e"
    using d l by (cases "is_free (q, jq)"; auto simp: entry_map_None)+
  have "entry_map (ws @ (q\<lparr>rec_len := rec_len q + rec_len e\<rparr>, jq @ raw (e, j)) # ss) = (entry_map (ws @ (q, jq) # (e, j) # ss))(entry_name e := None)"
    using n fr l by (auto simp: fun_eq_iff entry_map_append split: option.splits)
  moreover have "distinct (names (ws @ (q\<lparr>rec_len := rec_len q + rec_len e\<rparr>, jq @ raw (e, j)) # ss))"
    using d l fr by (cases "is_free (q, jq)") auto
  ultimately show ?thesis using ok qo len unfolding without_def by auto
qed

text \<open>What \<^verbatim>\<open>dir_remove\<close> answers: an answer, and unless the block is to be given back the slots without the name.\<close>

definition before :: "slot list \<Rightarrow> nat" where
  "before xs = (if xs = [] then 0 else length (slots_bytes (butlast xs)))"

text \<open>
  When the block is given back: the name was the only one in it (a free first entry joined to the last
  one), or it was in the first entry, and the length of that entry and of its name fill the block.
\<close>

definition given_back :: "byte list \<Rightarrow> slot list \<Rightarrow> nat \<Rightarrow> nat \<Rightarrow> bool" where
  "given_back nm ss p u \<longleftrightarrow> names ss = [nm] \<or>
     (\<exists>s ss'. ss = s # ss' \<and> p = 0 \<and> u = align4 (SIZE_DIR_NO_NAME + length nm) \<and>
        unat (rec_len (fst s)) + u = length (slots_bytes ss))"

lemma given_back_first:
  assumes "slot_ok (e, j)" "\<not> is_free (e, j)" "u = align4 (8 + unat (name_len e))" "length (slots_bytes ((e, j) # ss)) < 2 ^ 16"
    "(of_nat (length (slots_bytes ((e, j) # ss))) :: u32) - of_nat u = ucast (rec_len e)"
  shows "given_back (entry_name e) ((e, j) # ss) 0 u"
proof -
  let ?l = "length (slots_bytes ((e, j) # ss))"
  have u: "u \<le> unat (rec_len e)" "unat (name_len e) = length (entry_name e)"
    using assms(1,3) by (simp_all add: slot_ok_def SIZE_DIR_NO_NAME_def align4_facts(3))
  have l: "unat (rec_len e) \<le> ?l" using assms(1) by simp
  have ul: "?l < 2 ^ 32" "u \<le> ?l"
    using order_less_trans [OF assms(4), of "2 ^ 32"] order_trans [OF u(1) l] by simp_all
  then have "unat ((of_nat ?l :: u32) - of_nat u) = ?l - u" 
    by (simp add: unat_sub word_le_nat_alt unat_of_nat del: slots_simps)
  moreover have "unat (ucast (rec_len e) :: u32) = unat (rec_len e)"
    using unsigned_less [of "rec_len e", where 'a = nat] by (simp add: unsigned_ucast_eq take_bit_nat_eq_self)
  ultimately have "unat (rec_len e) + u = ?l" using assms(5) ul(2) by simp
  then show ?thesis using assms(3) u(2) by (simp add: given_back_def SIZE_DIR_NO_NAME_def)
qed

lemma given_back_joined:
  assumes "\<forall>s \<in> set (ws @ (q, jq) # (e, j) # ss). slot_ok s" "is_free (q, jq)" "\<not> is_free (e, j)"
    "length (slots_bytes (ws @ (q, jq) # (e, j) # ss)) = unat (rec_len q + rec_len e)"
  shows "given_back (entry_name e) (ws @ (q, jq) # (e, j) # ss) p u"
proof -
  have "unat (rec_len q + rec_len e) \<le> unat (rec_len q) + unat (rec_len e)" by (simp add: unat_word_ariths)
  moreover have "length (slots_bytes ws) + (unat (rec_len q) + (unat (rec_len e) + length (slots_bytes ss))) = unat (rec_len q + rec_len e)"
    using assms(1,4) by simp
  ultimately have "length (slots_bytes ws) = 0 \<and> length (slots_bytes ss) = 0" by linarith
  then have "slots_bytes ws = []" "slots_bytes ss = []" by simp_all
  moreover have "zs = []" if "slots_bytes zs = []" "\<forall>s \<in> set zs. slot_ok s" for zs
    using slots_short [OF that(2)] that(1) by simp
  ultimately have "ws = []" "ss = []" using assms(1) by simp_all
  then show ?thesis using assms(2,3) by (simp add: given_back_def)
qed

lemma dir_remove_slots:
  assumes "\<forall>s \<in> set (xs @ ys). slot_ok s" "length ys < n" "pos = length (slots_bytes xs)" "prev = before xs" "nm \<notin> set (names xs)"
    "distinct (names (xs @ ys))" "length (slots_bytes (xs @ ys)) < 2 ^ 16"
  shows "\<exists>r. dir_remove n prev pos (slots_bytes (xs @ ys)) nm = Inr r \<and> (r = None \<longleftrightarrow> nm \<notin> set (names ys)) \<and>
     (\<forall>bs1 p u. r = Some (bs1, False, p, u) \<longrightarrow> (\<exists>zs. bs1 = slots_bytes zs \<and> without nm (xs @ ys) zs)) \<and>
     (\<forall>bs1 p u. r = Some (bs1, True, p, u) \<longrightarrow> given_back nm (xs @ ys) p u)"
  using assms
proof (induction n arbitrary: xs pos prev ys)
  case (Suc n)
  show ?case
  proof (cases ys)
    case (Cons s ss)
    obtain e j where s: "s = (e, j)" by (cases s)
    have ok: "slot_ok (e, j)" "\<forall>x \<in> set ss. slot_ok x" using Suc.prems(1) Cons s by auto
    have pos: "length (slots_bytes xs) = pos" using Suc.prems(3) by simp
    define B where "B = slots_bytes xs @ raw (e, j) @ slots_bytes ss"
    have bs: "slots_bytes (xs @ ys) = B" using Cons s by (simp add: B_def)
    have h: "header_at pos B = e\<lparr>entry_name := []\<rparr>" unfolding B_def by (rule header_at_slot [OF pos])
    have m: "entry_matches B pos nm = Inr (\<not> is_free (e, j) \<and> entry_name e = nm)"
      using entry_matches_slot [OF pos ok(1), of "slots_bytes ss" nm] by (simp add: B_def)
    have len: "pos < length B" "pos + 8 \<le> length B" using slot_pos [OF ok(1)] ok(1) pos by (auto simp: B_def)
    define used where "used = align4 (8 + unat (name_len e))"
    have step: "dir_remove (Suc n) prev pos B nm =
       (if \<not> is_free (e, j) \<and> entry_name e = nm then
           (if prev = pos then
              (if (of_nat (length B) :: u32) - of_nat used = ucast (rec_len e) then Inr (Some (B, True, pos, used))
               else Inr (Some (set_file_type pos EXT2_FT_FREE B, False, pos, used)))
            else
              (let hp = header_at prev B; len = rec_len hp + rec_len e in
               Inr (Some (set_rec_len prev len B, file_type hp = EXT2_FT_FREE \<and> length B = unat len, pos, used))))
         else dir_remove n pos (pos + unat (rec_len e)) B nm)"
      using len by (simp add: h m used_def SIZE_DIR_NO_NAME_def Let_def cong: if_cong split del: if_split)
    show ?thesis
    proof (cases "\<not> is_free (e, j) \<and> entry_name e = nm")
      case hit: True
      then have there: "nm \<in> set (names ys)" using Cons s by simp
      show ?thesis
      proof (cases xs rule: rev_cases)
        case Nil
        have "without nm ys ((e\<lparr>file_type := EXT2_FT_FREE\<rparr>, j) # ss)"
          using without_freed [of e j ss] Suc.prems(1,6) hit Nil Cons s by auto
        moreover have "set_file_type pos EXT2_FT_FREE B = slots_bytes ((e\<lparr>file_type := EXT2_FT_FREE\<rparr>, j) # ss)"
          using set_file_type_slot [OF pos, of EXT2_FT_FREE e j "slots_bytes ss"] Nil by (simp add: B_def)
        moreover have "prev = pos" "pos = 0" using Nil pos Suc.prems(4) by (simp_all add: before_def)
        moreover have "given_back nm (xs @ ys) pos used" if "(of_nat (length B) :: u32) - of_nat used = ucast (rec_len e)"
          using given_back_first [OF ok(1) _ used_def, of ss] hit that Suc.prems(7) calculation(3,4) Nil Cons s bs by auto
        ultimately show ?thesis using hit there Nil unfolding bs step
          by (auto simp del: slots_simps(2) intro!: exI [of _ "(e\<lparr>file_type := EXT2_FT_FREE\<rparr>, j) # ss"])
      next
        case (snoc ws q)
        obtain qe jq where q: "q = (qe, jq)" by (cases q)
        have qo: "slot_ok (qe, jq)" using Suc.prems(1) snoc q by simp
        have pv: "prev = length (slots_bytes ws)" using Suc.prems(4) snoc by (simp add: before_def)
        have ne: "prev \<noteq> pos" using pv pos snoc q slot_pos [OF qo] length_raw [OF qo] by simp
        have b2: "B = slots_bytes ws @ raw (qe, jq) @ (raw (e, j) @ slots_bytes ss)" using snoc q by (simp add: B_def)
        have hq: "header_at prev B = qe\<lparr>entry_name := []\<rparr>" unfolding b2 by (rule header_at_slot) (rule pv [symmetric])
        have "set_rec_len prev (rec_len qe + rec_len e) B =
            slots_bytes (ws @ (qe\<lparr>rec_len := rec_len qe + rec_len e\<rparr>, jq @ raw (e, j)) # ss)"
          unfolding b2 set_rec_len_slot [OF pv [symmetric]] by (simp add: raw_def entry_header_def)
        moreover have "without nm (xs @ ys) (ws @ (qe\<lparr>rec_len := rec_len qe + rec_len e\<rparr>, jq @ raw (e, j)) # ss)"
          using without_joined [of ws qe jq e j ss] Suc.prems(1,6,7) hit snoc q Cons s by auto
        moreover have "given_back nm (xs @ ys) pos used" if "file_type qe = EXT2_FT_FREE" "length B = unat (rec_len qe + rec_len e)"
          using given_back_joined [of ws qe jq e j ss pos used] Suc.prems(1) hit that snoc q Cons s bs [symmetric] by (simp add: is_free_def)
        ultimately show ?thesis using hit there ne hq unfolding bs step
          by (auto simp: Let_def simp del: slots_simps intro!: exI [of _ "ws @ (qe\<lparr>rec_len := rec_len qe + rec_len e\<rparr>, jq @ raw (e, j)) # ss"])
      qed
    next
      case False
      have n1: "names (xs @ [(e, j)]) = names xs @ (if is_free (e, j) then [] else [entry_name e])" by simp
      have "\<exists>r. dir_remove n pos (pos + unat (rec_len e)) (slots_bytes ((xs @ [(e, j)]) @ ss)) nm = Inr r \<and> (r = None \<longleftrightarrow> nm \<notin> set (names ss)) \<and>
         (\<forall>bs1 p u. r = Some (bs1, False, p, u) \<longrightarrow> (\<exists>zs. bs1 = slots_bytes zs \<and> without nm ((xs @ [(e, j)]) @ ss) zs)) \<and>
         (\<forall>bs1 p u. r = Some (bs1, True, p, u) \<longrightarrow> given_back nm ((xs @ [(e, j)]) @ ss) p u)"
      proof (rule Suc.IH)
        show "nm \<notin> set (names (xs @ [(e, j)]))" unfolding n1 using False Suc.prems(5) by auto
      qed (use Suc.prems Cons s ok(1) pos in \<open>auto simp: before_def\<close>)
      moreover have "nm \<in> set (names ys) \<longleftrightarrow> nm \<in> set (names ss)" using False Cons s by auto
      moreover have "(xs @ [(e, j)]) @ ss = xs @ ys" using Cons s by simp
      ultimately show ?thesis using False unfolding bs step by (simp only: bs if_False)
    qed
  qed (use Suc.prems in simp)
qed simp

lemma without_block:
  assumes "dir_block ss bs" "without nm ss zs"
  shows "dir_block zs (slots_bytes zs)" "length (slots_bytes zs) = length bs"
  using dir_blockD [OF assms(1)] assms(2) by (simp_all add: dir_block_def without_def)

section \<open>A small directory\<close>

definition dot_slot :: "byte list \<Rightarrow> u16 \<Rightarrow> nat \<Rightarrow> slot" where
  "dot_slot nm len k = (\<lparr>inode_n = 11, rec_len = len, name_len = of_nat (length nm), file_type = EXT2_FT_DIR, entry_name = nm\<rparr>, replicate k 0)"

definition small_slots :: "slot list" where
  "small_slots = [dot_slot [46] 12 3, dot_slot [46, 46] 36 26]"

lemma small_block: "dir_block small_slots (slots_bytes small_slots)"
  by (simp add: dir_block_def small_slots_def dot_slot_def slot_ok_def SIZE_DIR_NO_NAME_def align4_def is_free_def EXT2_FT_DIR_def
      EXT2_FT_FREE_def raw_def)

lemma small_bytes:
  "slots_bytes small_slots = [] @ raw (dot_slot [46] 12 3) @ raw (dot_slot [46, 46] 36 26)"
  "slots_bytes small_slots = raw (dot_slot [46] 12 3) @ raw (dot_slot [46, 46] 36 26) @ []"
  "length (raw (dot_slot [46] 12 3)) = 12" "length (raw (dot_slot [46, 46] 36 26)) = 36" "length (slots_bytes small_slots) = 48"
  "slot_ok (dot_slot [46] 12 3)" "slot_ok (dot_slot [46, 46] 36 26)"
  by (simp_all add: small_slots_def dot_slot_def raw_def slot_ok_def SIZE_DIR_NO_NAME_def align4_def)

lemma small_headers:
  "header_at 0 (slots_bytes small_slots) = \<lparr>inode_n = 11, rec_len = 12, name_len = 1, file_type = 2, entry_name = []\<rparr>"
  "header_at 12 (slots_bytes small_slots) = \<lparr>inode_n = 11, rec_len = 36, name_len = 2, file_type = 2, entry_name = []\<rparr>"
  "entry_matches (slots_bytes small_slots) 0 nm = Inr ([46] = nm)"
  "entry_matches (slots_bytes small_slots) 12 nm = Inr ([46, 46] = nm)"
proof -
  note b = small_bytes
  show "header_at 0 (slots_bytes small_slots) = \<lparr>inode_n = 11, rec_len = 12, name_len = 1, file_type = 2, entry_name = []\<rparr>"
    unfolding b(1) dot_slot_def by (subst header_at_slot) (simp_all add: EXT2_FT_DIR_def)
  show "header_at 12 (slots_bytes small_slots) = \<lparr>inode_n = 11, rec_len = 36, name_len = 2, file_type = 2, entry_name = []\<rparr>"
    unfolding b(2) using b(3) unfolding dot_slot_def by (subst header_at_slot) (simp_all add: EXT2_FT_DIR_def)
  show "entry_matches (slots_bytes small_slots) 0 nm = Inr ([46] = nm)"
    unfolding b(1) using b(6) by (subst entry_matches_slot) (simp_all add: dot_slot_def is_free_def EXT2_FT_DIR_def EXT2_FT_FREE_def)
  show "entry_matches (slots_bytes small_slots) 12 nm = Inr ([46, 46] = nm)"
    unfolding b(2) using b(3,7) by (subst entry_matches_slot) (simp_all add: dot_slot_def is_free_def EXT2_FT_DIR_def EXT2_FT_FREE_def)
qed

lemma small_place_steps: "\<exists>bs1. dir_place (Suc (Suc k)) 0 12 (slots_bytes small_slots) = Inr (Placed bs1 24 24)"
  by (simp add: small_headers small_bytes(5) SIZE_DIR_NO_NAME_def align4_def EXT2_FT_FREE_def)

lemma small_place: "\<exists>bs1. place_block 12 (slots_bytes small_slots) = Inr (Placed bs1 24 24)"
  using small_place_steps [of 47] by (simp add: place_block_def small_bytes(5) del: dir_place.simps)

lemma small_remove_steps: "\<exists>bs1. dir_remove (Suc (Suc k)) 0 0 (slots_bytes small_slots) [46, 46] = Inr (Some (bs1, False, 12, 12))"
  by (simp add: small_headers small_bytes(5) SIZE_DIR_NO_NAME_def align4_def EXT2_FT_FREE_def)

lemma small_remove: "\<exists>bs1. remove_block (slots_bytes small_slots) [46, 46] = Inr (Some (bs1, False, 12, 12))"
  using small_remove_steps [of 47] by (simp add: remove_block_def small_bytes(5) del: dir_remove.simps)

section \<open>The directory as a map\<close>

text \<open>
  C26. Well-formed directory blocks. On a block that is a chain of well-formed entries looking up a
  name, searching room for an entry and removing a name always return, inside the block: no loop runs
  on, no byte outside is read. A removal that does not give the block back leaves a chain again, of
  the same length.
\<close>

theorem directory_block_safe:
  assumes "dir_block ss bs"
  shows "(\<exists>r. look_block bs nm = Inr r) \<and> (\<exists>r. place_block need bs = Inr r) \<and>
    (\<exists>r. remove_block bs nm = Inr r \<and> (\<forall>bs1 p u. r = Some (bs1, False, p, u) \<longrightarrow> length bs1 = length bs \<and> (\<exists>ss1. dir_block ss1 bs1)))"
proof -
  note d = dir_blockD [OF assms]
  have l: "length ss < Suc (length bs)" using slots_short [OF d(2)] d(1) by simp
  obtain r where "place_block need bs = Inr r" using dir_place_slots [OF d(2) l, of 0 "[]" need] d(1) unfolding place_block_def by auto
  moreover obtain q where "remove_block bs nm = Inr q" "\<forall>bs1 p u. q = Some (bs1, False, p, u) \<longrightarrow> (\<exists>zs. bs1 = slots_bytes zs \<and> without nm ss zs)"
    using dir_remove_slots [of "[]" ss "Suc (length bs)" 0 0 nm] d l unfolding remove_block_def before_def by auto
  ultimately show ?thesis using look_block_map [OF assms, of nm] without_block [OF assms, of nm] by blast
qed

theorem directory_block_safe_witness: "\<exists>r. remove_block (slots_bytes small_slots) [46, 46] = Inr r"
  using directory_block_safe [OF small_block, of "[46, 46]" 12] by blast

text \<open>
  C13. Adding a name. When a well-formed block gives a place for an entry with a new name of less than 256
  bytes, the place is aligned. If it is as long as the entry, it lies inside the block, and writing the
  entry there leaves a well-formed block of the same length in which looking up that name gives its
  inode number and looking up any other name gives what it gave before. A shorter place, where the
  write goes over the entry behind, is one case only: a free entry whose name is shorter than the new
  entry, which the code takes without looking at its length (the comparison is the wrong way round).
\<close>

theorem directory_add_updates:
  assumes "dir_block ss bs" "length nm < 256" "look_block bs nm = Inr None" "ty \<noteq> EXT2_FT_FREE"
    and "e = new_entry n ty nm" "place_block (rec_len e) bs = Inr (Placed bs1 pos len)"
  shows "pos mod 4 = 0 \<and>
    (rec_len e \<le> len \<longrightarrow> pos + SIZE_DIR_NO_NAME + length nm \<le> length bs1 \<and>
      (\<exists>ss2. dir_block ss2 (put_entry pos (e\<lparr>rec_len := len\<rparr>) bs1)) \<and>
      length (put_entry pos (e\<lparr>rec_len := len\<rparr>) bs1) = length bs \<and>
      (\<forall>x. look_block (put_entry pos (e\<lparr>rec_len := len\<rparr>) bs1) x = (if x = nm then Inr (Some n) else look_block bs x))) \<and>
    (len < rec_len e \<longrightarrow>
      (\<exists>s \<in> set ss. is_free s \<and> SIZE_DIR_NO_NAME + unat (name_len (fst s)) < unat (rec_len e) \<and> rec_len (fst s) = len))"
proof -
  have new: "nm \<notin> set (names ss)" using assms(3) look_block_map [OF assms(1), of nm] entry_map_None [of ss nm] by simp
  note pl = assms(6) [unfolded assms(5)] and f = placed_facts [OF assms(1,6)]
  have "pos + SIZE_DIR_NO_NAME + length nm \<le> length bs1 \<and> (\<exists>ss2. dir_block ss2 (put_entry pos (e\<lparr>rec_len := len\<rparr>) bs1)) \<and>
      length (put_entry pos (e\<lparr>rec_len := len\<rparr>) bs1) = length bs \<and>
      (\<forall>x. look_block (put_entry pos (e\<lparr>rec_len := len\<rparr>) bs1) x = (if x = nm then Inr (Some n) else look_block bs x))"
    if fits: "rec_len e \<le> len"
  proof -
    note p = placed_entry [OF assms(1,2) new assms(4) fits [unfolded assms(5)] pl refl]
    obtain ss2 where "dir_block ss2 (put_entry pos (e\<lparr>rec_len := len\<rparr>) bs1)" "entry_map ss2 = (entry_map ss)(nm \<mapsto> n)"
      using p(1) unfolding assms(5) by blast
    then show ?thesis using p(3,4) look_block_map assms(1) unfolding assms(5) SIZE_DIR_NO_NAME_def by (auto simp: fun_upd_apply)
  qed
  then show ?thesis using f by blast
qed

theorem directory_add_updates_witness:
  "\<exists>bs1 pos len. place_block 12 (slots_bytes small_slots) = Inr (Placed bs1 pos len) \<and>
     look_block (put_entry pos ((new_entry 12 EXT2_FT_REG_FILE [97, 98])\<lparr>rec_len := len\<rparr>) bs1) [97, 98] = Inr (Some 12)"
proof -
  have look: "look_block (slots_bytes small_slots) [97, 98] = Inr None"
    using look_block_map [OF small_block] by (simp add: small_slots_def dot_slot_def)
  have need: "rec_len (new_entry 12 EXT2_FT_REG_FILE [97, 98]) = 12"
    by (simp add: new_entry_def Let_def SIZE_DIR_NO_NAME_def align4_def)
  obtain bs1 where p: "place_block 12 (slots_bytes small_slots) = Inr (Placed bs1 24 24)" using small_place by blast
  have "EXT2_FT_REG_FILE \<noteq> EXT2_FT_FREE" by (simp add: EXT2_FT_REG_FILE_def EXT2_FT_FREE_def)
  from directory_add_updates [OF small_block _ look this refl p [folded need]] p need show ?thesis by auto
qed

text \<open>
  C15. Removing a name. In a well-formed block a name that is not there is not removed. One that is there
  is: when the block is not given back, looking up that name finds nothing any more and looking up any
  other name gives what it gave before. The block is given back in two cases only: no other name is in it; or the
  name is in the first entry, and the length of that entry and the bytes its name needs add up to the
  block. In the second case the entry behind the first one is lost with the block: the code means to
  test that the first entry is the only one, and tests this sum.
\<close>

theorem directory_remove_updates:
  assumes "dir_block ss bs"
  shows "(remove_block bs nm = Inr None \<longleftrightarrow> look_block bs nm = Inr None) \<and>
    (\<forall>bs1 p u. remove_block bs nm = Inr (Some (bs1, False, p, u)) \<longrightarrow>
       (\<forall>x. look_block bs1 x = (if x = nm then Inr None else look_block bs x))) \<and>
    (\<forall>bs1 p u. remove_block bs nm = Inr (Some (bs1, True, p, u)) \<longrightarrow>
       (\<forall>x. x \<noteq> nm \<longrightarrow> look_block bs x = Inr None) \<or>
       p = 0 \<and> unat (rec_len (header_at 0 bs)) + align4 (SIZE_DIR_NO_NAME + length nm) = length bs)"
proof -
  note d = dir_blockD [OF assms]
  have l: "length ss < Suc (length bs)" using slots_short [OF d(2)] d(1) by simp
  obtain r where r: "remove_block bs nm = Inr r" "r = None \<longleftrightarrow> nm \<notin> set (names ss)"
    "\<And>bs1 p u. r = Some (bs1, False, p, u) \<Longrightarrow> \<exists>zs. bs1 = slots_bytes zs \<and> without nm ss zs"
    "\<And>bs1 p u. r = Some (bs1, True, p, u) \<Longrightarrow> given_back nm ss p u"
    using dir_remove_slots [of "[]" ss "Suc (length bs)" 0 0 nm] d l unfolding remove_block_def before_def by auto
  have "look_block bs1 x = (if x = nm then Inr None else look_block bs x)" if s: "r = Some (bs1, False, p, u)" for bs1 p u x
  proof -
    obtain zs where z: "bs1 = slots_bytes zs" "without nm ss zs" using r(3) [OF s] by blast
    then have "dir_block zs bs1" using without_block [OF assms] by simp
    then show ?thesis using look_block_map [OF assms] look_block_map [of zs bs1] z(2) by (simp add: without_def)
  qed
  moreover have "(\<forall>x. x \<noteq> nm \<longrightarrow> look_block bs x = Inr None) \<or>
      p = 0 \<and> unat (rec_len (header_at 0 bs)) + align4 (SIZE_DIR_NO_NAME + length nm) = length bs"
    if "r = Some (bs1, True, p, u)" for bs1 p u
  proof -
    have "header_at 0 bs = (fst s)\<lparr>entry_name := []\<rparr>" if "ss = s # ss'" for s ss'
      using header_at_slot [of "[]" 0 "fst s" "snd s" "slots_bytes ss'"] d(1) that by simp
    moreover have "look_block bs x = Inr None" if "names ss = [nm]" "x \<noteq> nm" for x
      using look_block_map [OF assms, of x] entry_map_None [of ss x] that by simp
    ultimately show ?thesis using r(4) [OF that] d(1) unfolding given_back_def by fastforce
  qed
  ultimately show ?thesis using r(1,2) look_block_map [OF assms, of nm] entry_map_None [of ss nm] by auto
qed

theorem directory_remove_updates_witness:
  "\<exists>bs1 p u. remove_block (slots_bytes small_slots) [46, 46] = Inr (Some (bs1, False, p, u)) \<and>
     look_block bs1 [46, 46] = Inr None \<and> look_block bs1 [46] = Inr (Some 11)"
proof -
  obtain bs1 where r: "remove_block (slots_bytes small_slots) [46, 46] = Inr (Some (bs1, False, 12, 12))" using small_remove by blast
  have "look_block (slots_bytes small_slots) [46] = Inr (Some 11)"
    using look_block_map [OF small_block] by (simp add: small_slots_def dot_slot_def is_free_def EXT2_FT_DIR_def EXT2_FT_FREE_def)
  then show ?thesis using directory_remove_updates [OF small_block, of "[46, 46]"] r by simp
qed

end
