(* ===== verification/Fs.thy ===== *)
theory Fs
  imports Dir
begin

text \<open>
  Mounting and saving: \<^verbatim>\<open>src/kernel/fs/fs.c\<close> and the part of \<^verbatim>\<open>configure_ext2_file_system\<close> that formats a
  partition, up to the base directories.
\<close>

definition sync_all :: "int fsm" where
  "sync_all =
     sbind (on_cache sync_fs) (\<lambda>r.
     sbind sync_inodes (\<lambda>r2. sret (if r < 0 \<or> r2 \<noteq> 0 then -1 else 0)))"

text \<open>
  When a file system is mounted already, its structures are freed first and \<^verbatim>\<open>sync_all\<close> then walks
  the list of inodes that was freed. The hash table of inodes is allocated and not used.
\<close>

definition release_mounted :: "unit fsm" where
  "release_mounted s =
     (if c_fs (fcache s) = None then Inr ((), s)
      else
        sbind (free_inode_list (inode_list s)) (\<lambda>_.
        sbind (on_cache sync_fs) (\<lambda>_.
        if inode_list s \<noteq> [] then sfail Use_after_free
        else sbind (on_cache free_cache_list) (\<lambda>_. sret ()))) s)"

definition configure_root_file_system :: "byte \<Rightarrow> u32 \<Rightarrow> u32 \<Rightarrow> u32 \<Rightarrow> byte \<Rightarrow> int fsm" where
  "configure_root_file_system ty sb dt bs part s =
     (sbind (if c_fs (fcache s) = None then fs_malloc else sbind release_mounted (\<lambda>_. sret True)) (\<lambda>ok.
      if \<not> ok then sret (-1)
      else
        sbind (supd (\<lambda>s. s\<lparr>fcache := (fcache s)\<lparr>c_fs := Some \<lparr>g_block_size = bs, g_partition = part\<rparr>\<rparr>,
                            fs_type := ty, superblock_loc := sb, desc_table_loc := dt, fsup := None, fdesc := None,
                            inode_list := []\<rparr>)) (\<lambda>_.
        sbind fs_malloc (\<lambda>ok2. sret (if ok2 then 0 else -1)))) s)"

definition mount_partition :: "byte \<Rightarrow> int fsm" where
  "mount_partition part =
     sbind (configure_root_file_system EXT2_PARTITION SUPER_BLOCK_LOC BLOCK_TABLE_BLOCK (of_nat EXT2_BLOCK_SIZE) part) (\<lambda>r.
     if r < 0 then sret (-1)
     else sbind config_super_block (\<lambda>r.
       if r < 0 then sret (-1)
       else sbind config_blk_desc_table (\<lambda>r. sret (if r < 0 then -1 else 0))))"

text \<open>The number is from 1 to 4 by the test, and indexes the table as it is.\<close>

definition mount_custom_fs :: "byte \<Rightarrow> int fsm" where
  "mount_custom_fs part s =
     (if \<not> (1 \<le> part \<and> unat part \<le> NB_PARTITIONS) then Inr (-1, s)
      else case c_mbr (fcache s) of
        None \<Rightarrow> Inr (-1, s)
      | Some m \<Rightarrow>
          if unat part \<ge> length (partitionTable m) then Inl Out_of_bounds
          else if pt_type (partitionTable m ! unat part) \<noteq> EXT2_PARTITION then Inr (-1, s)
          else mount_partition part s)"

fun mount_loop :: "partition_entry list \<Rightarrow> nat \<Rightarrow> int fsm" where
  "mount_loop [] i = sret (-1)"
| "mount_loop (p # ps) i = (if pt_type p = EXT2_PARTITION then mount_partition (of_nat i) else mount_loop ps (Suc i))"

definition mount_root_file_system :: "int fsm" where
  "mount_root_file_system s =
     (case c_mbr (fcache s) of None \<Rightarrow> Inr (-1, s) | Some m \<Rightarrow> mount_loop (take NB_PARTITIONS (partitionTable m)) 0 s)"

text \<open>\<^verbatim>\<open>configure_ext2_file_system\<close> up to the root directory.\<close>

definition format_partition :: "byte \<Rightarrow> int fsm" where
  "format_partition part s =
     (case c_mbr (fcache s) of
        None \<Rightarrow> Inr (-1, s)
      | Some m \<Rightarrow>
          if unat part \<ge> length (partitionTable m) then Inl Out_of_bounds
          else
            sbind (configure_root_file_system EXT2_PARTITION SUPER_BLOCK_LOC BLOCK_TABLE_BLOCK (of_nat EXT2_BLOCK_SIZE) part) (\<lambda>r.
            if r < 0 then sret (-1)
            else sbind (save_boot_record BOOT_RECORD_LOC) (\<lambda>r.
              if r < 0 then sret (-1)
              else sbind (superblock_conf SUPER_BLOCK_LOC (sizeLBA (partitionTable m ! unat part))) (\<lambda>r.
                if r < 0 then sret (-1)
                else sbind configure_reserved_inodes (\<lambda>r.
                  if r < 0 then sret (-1)
                  else sbind configure_reserved_data (\<lambda>r.
                    if r < 0 then sret (-1) else configure_root_inode))))) s)"

end
