(* ===== verification/Pipe.thy ===== *)
theory Pipe
  imports Semaphore Bytes Fifo
begin

text \<open>
  Pipes: \<^verbatim>\<open>src/kernel/fs/pipe.c\<close>. A pipe is a ring of bytes in the heap \<open>pw_pipes\<close> with a semaphore of
  the kernel. A call of \<^verbatim>\<open>write_pipe\<close> or \<^verbatim>\<open>read_pipe\<close> can lose the processor in each \<^verbatim>\<open>wait\<close> and
  \<^verbatim>\<open>signal\<close>, so it is a sequence of segments between them, and other processes run in between. The
  address \<^verbatim>\<open>malloc\<close> returns is an argument, 0 when it fails.
\<close>

section \<open>State\<close>

definition PIPE_BUFFER_SIZE :: nat where "PIPE_BUFFER_SIZE = 8192"

record pipe =
  buffer :: "byte list"
  cur_buf_cap :: u32
  pos_read :: u32
  pos_written :: u32
  can_write :: bool
  can_read :: bool
  lock_buf :: bool
  semaphore_id :: int

datatype close_type = CLOSE_ALL | CLOSE_READ | CLOSE_WRITE

record pworld =
  pw_kernel :: kernel
  pw_pipes :: "ptr \<rightharpoonup> pipe"

definition pipe_at :: "ptr \<Rightarrow> pworld \<Rightarrow> pipe res" where
  "pipe_at a w = (case pw_pipes w a of None \<Rightarrow> Inl Use_after_free | Some p \<Rightarrow> Inr p)"

definition put_pipe :: "ptr \<Rightarrow> pipe \<Rightarrow> pworld \<Rightarrow> pworld" where
  "put_pipe a p w = w\<lparr>pw_pipes := (pw_pipes w)(a \<mapsto> p)\<rparr>"

section \<open>Creating and closing\<close>

text \<open>The failure of \<^verbatim>\<open>screate\<close> is -1; the code tests for 0.\<close>

definition create_pipe :: "ptr \<Rightarrow> pworld \<Rightarrow> ptr \<times> pworld" where
  "create_pipe a w =
     (if a = 0 then (0, w)
      else
        (let (sem, k) = screate 1 (pw_kernel w); w1 = w\<lparr>pw_kernel := k\<rparr> in
         if sem = 0 then (0, w1)
         else (a, put_pipe a \<lparr>buffer = replicate PIPE_BUFFER_SIZE 0, cur_buf_cap = 0, pos_read = 0, pos_written = 0,
                              can_write = True, can_read = True, lock_buf = False, semaphore_id = sem\<rparr> w1)))"

definition close_end :: "close_type \<Rightarrow> pipe \<Rightarrow> pipe" where
  "close_end ty p =
     (case ty of
        CLOSE_ALL \<Rightarrow> p\<lparr>can_read := False, can_write := False\<rparr>
      | CLOSE_READ \<Rightarrow> p\<lparr>can_read := False\<rparr>
      | CLOSE_WRITE \<Rightarrow> p\<lparr>can_write := False\<rparr>)"

definition close_pipe :: "ptr \<Rightarrow> close_type \<Rightarrow> pworld \<Rightarrow> (int \<times> pworld) res" where
  "close_pipe a ty w =
     (if a = 0 then Inr (0, w)
      else
        rbind (pipe_at a w) (\<lambda>p0.
        (let p = close_end ty p0; w1 = put_pipe a p w in
         if can_write p \<or> can_read p then Inr (-1, w1)
         else
           rbind (sdelete (semaphore_id p) (pw_kernel w1)) (\<lambda>(_, k).
           Inr (0, w1\<lparr>pw_kernel := k, pw_pipes := (pw_pipes w1)(a := None)\<rparr>)))))"

section \<open>The ring\<close>

text \<open>The part under \<^verbatim>\<open>lock_buf\<close>, for the bytes that are written and the number that are read.\<close>

definition write_chunk :: "byte list \<Rightarrow> pipe \<Rightarrow> pipe res" where
  "write_chunk bs p =
     (let n = length bs; pos = unat (pos_written p) in
      if pos > PIPE_BUFFER_SIZE then Inl Out_of_bounds
      else if pos_written p + of_nat n > of_nat PIPE_BUFFER_SIZE then
        (let rem = PIPE_BUFFER_SIZE - pos in
         if n - rem > PIPE_BUFFER_SIZE then Inl Out_of_bounds
         else Inr (p\<lparr>buffer := poke 0 (drop rem bs) (poke pos (take rem bs) (buffer p)), pos_written := of_nat (n - rem),
                     cur_buf_cap := cur_buf_cap p + of_nat n\<rparr>))
      else Inr (p\<lparr>buffer := poke pos bs (buffer p), pos_written := pos_written p + of_nat n, cur_buf_cap := cur_buf_cap p + of_nat n\<rparr>))"

definition read_chunk :: "nat \<Rightarrow> pipe \<Rightarrow> (byte list \<times> pipe) res" where
  "read_chunk n p =
     (let pos = unat (pos_read p) in
      if pos > PIPE_BUFFER_SIZE then Inl Out_of_bounds
      else if (pos_read p + of_nat n) div of_nat PIPE_BUFFER_SIZE > 0 then
        (let rem = PIPE_BUFFER_SIZE - pos in
         if n - rem > PIPE_BUFFER_SIZE then Inl Out_of_bounds
         else Inr (peek pos rem (buffer p) @ peek 0 (n - rem) (buffer p),
                   p\<lparr>pos_read := of_nat (n - rem), cur_buf_cap := cur_buf_cap p - of_nat n\<rparr>))
      else Inr (peek pos n (buffer p), p\<lparr>pos_read := pos_read p + of_nat n, cur_buf_cap := cur_buf_cap p - of_nat n\<rparr>))"

text \<open>\<^verbatim>\<open>MIN\<close> of an unsigned and a signed number compares them as unsigned.\<close>

definition min_amount :: "u32 \<Rightarrow> int \<Rightarrow> int" where
  "min_amount a b = (if a < of_int b then sint a else b)"

text \<open>
  The body of the loops up to the last test: whether \<^verbatim>\<open>signal\<close> is called, the number of bytes done,
  for a read the bytes, and the pipe.
\<close>

definition write_turn :: "byte list \<Rightarrow> int \<Rightarrow> int \<Rightarrow> pipe \<Rightarrow> (bool \<times> int \<times> pipe) res" where
  "write_turn data len n p =
     (if cur_buf_cap p = of_nat PIPE_BUFFER_SIZE then Inr (True, n, p)
      else if \<not> lock_buf p then
        (let cur = min_amount (of_nat PIPE_BUFFER_SIZE - cur_buf_cap p) (len - n) in
         if cur < 0 then Inl Assert_fail
         else if n + cur > int (length data) then Inl Out_of_bounds
         else rbind (write_chunk (take (nat cur) (drop (nat n) data)) p) (\<lambda>p1. Inr (True, n + cur, p1\<lparr>lock_buf := False\<rparr>)))
      else Inr (False, n, p))"

definition read_turn :: "int \<Rightarrow> int \<Rightarrow> pipe \<Rightarrow> (bool \<times> int \<times> byte list \<times> pipe) res" where
  "read_turn len n p =
     (if cur_buf_cap p = 0 then Inr (True, n, [], p)
      else if \<not> lock_buf p then
        (let cur = min_amount (cur_buf_cap p) (len - n) in
         if cur < 0 then Inl Assert_fail
         else rbind (read_chunk (nat cur) p) (\<lambda>(bs, p1). Inr (True, n + cur, bs, p1\<lparr>lock_buf := False\<rparr>)))
      else Inr (False, n, [], p))"

section \<open>The calls\<close>

text \<open>
  Where a call stands: before the first \<^verbatim>\<open>wait\<close>, on its return, at the test of the loop, and at the
  test that ends the body.
\<close>

datatype pipe_stage = P_first | P_resumed | P_loop | P_check

record pipe_call =
  pc_pipe :: ptr
  pc_data :: "byte list option"
  pc_length :: int
  pc_done :: int
  pc_stage :: pipe_stage

text \<open>One segment: the call as it goes on, or its result.\<close>

type_synonym segment = "pipe_call + int"

definition first_wait :: "int \<Rightarrow> pipe_call \<Rightarrow> pworld \<Rightarrow> (segment \<times> pworld) res" where
  "first_wait sem c w =
     rbind (wait sem (pw_kernel w)) (\<lambda>(r, k).
     Inr (case r of
            None \<Rightarrow> Inl (c\<lparr>pc_stage := P_resumed\<rparr>)
          | Some v \<Rightarrow> if v \<ge> 0 then Inl (c\<lparr>pc_stage := P_loop\<rparr>) else Inr (pc_done c), w\<lparr>pw_kernel := k\<rparr>))"

definition resumed :: "pipe_call \<Rightarrow> pworld \<Rightarrow> (segment \<times> pworld) res" where
  "resumed c w =
     (let k = pw_kernel w in
      rbind (wait_resume (get_process_struct_of_pid (getpid k) k) k) (\<lambda>v.
      Inr (if v \<ge> 0 then Inl (c\<lparr>pc_stage := P_loop\<rparr>) else Inr (pc_done c), w)))"

definition end_turn :: "bool \<Rightarrow> int \<Rightarrow> pipe_call \<Rightarrow> pworld \<Rightarrow> (segment \<times> pworld) res" where
  "end_turn sig sem c w =
     (if sig then rbind (signal sem (pw_kernel w)) (\<lambda>(_, k). Inr (Inl (c\<lparr>pc_stage := P_check\<rparr>), w\<lparr>pw_kernel := k\<rparr>))
      else Inr (Inl (c\<lparr>pc_stage := P_check\<rparr>), w))"

definition check_wait :: "bool \<Rightarrow> int \<Rightarrow> pipe_call \<Rightarrow> pworld \<Rightarrow> (segment \<times> pworld) res" where
  "check_wait waits sem c w =
     (if waits then rbind (wait sem (pw_kernel w)) (\<lambda>(_, k). Inr (Inl (c\<lparr>pc_stage := P_loop\<rparr>), w\<lparr>pw_kernel := k\<rparr>))
      else Inr (Inl (c\<lparr>pc_stage := P_loop\<rparr>), w))"

definition write_pipe :: "pipe_call \<Rightarrow> pworld \<Rightarrow> (segment \<times> pworld) res" where
  "write_pipe c w =
     (if pc_pipe c = 0 then Inr (Inr (-1), w)
      else case pc_data c of
        None \<Rightarrow> Inr (Inr (-1), w)
      | Some data \<Rightarrow>
          if pc_stage c = P_resumed then resumed c w
          else rbind (pipe_at (pc_pipe c) w) (\<lambda>p.
          case pc_stage c of
            P_first \<Rightarrow>
              if \<not> can_write p \<or> pc_length c < 0 then Inr (Inr (-1), w) else first_wait (semaphore_id p) (c\<lparr>pc_done := 0\<rparr>) w
          | P_resumed \<Rightarrow> resumed c w
          | P_loop \<Rightarrow>
              if pc_done c \<noteq> pc_length c \<and> can_read p then
                rbind (write_turn data (pc_length c) (pc_done c) p) (\<lambda>(sig, n, p1).
                end_turn sig (semaphore_id p) (c\<lparr>pc_done := n\<rparr>) (put_pipe (pc_pipe c) p1 w))
              else Inr (Inr (pc_done c), w)
          | P_check \<Rightarrow> check_wait (pc_done c \<noteq> pc_length c \<or> cur_buf_cap p = of_nat PIPE_BUFFER_SIZE) (semaphore_id p) c w))"

definition read_pipe :: "pipe_call \<Rightarrow> pworld \<Rightarrow> (segment \<times> pworld) res" where
  "read_pipe c w =
     (if pc_pipe c = 0 then Inr (Inr (-1), w)
      else case pc_data c of
        None \<Rightarrow> Inr (Inr (-1), w)
      | Some data \<Rightarrow>
          if pc_stage c = P_resumed then resumed c w
          else rbind (pipe_at (pc_pipe c) w) (\<lambda>p.
          case pc_stage c of
            P_first \<Rightarrow>
              if \<not> can_read p \<or> pc_length c < 0 then Inr (Inr (-1), w) else first_wait (semaphore_id p) (c\<lparr>pc_done := 0\<rparr>) w
          | P_resumed \<Rightarrow> resumed c w
          | P_loop \<Rightarrow>
              if pc_done c \<noteq> pc_length c \<and> (cur_buf_cap p \<noteq> 0 \<or> can_write p) then
                rbind (read_turn (pc_length c) (pc_done c) p) (\<lambda>(sig, n, bs, p1).
                if nat (pc_done c) + length bs > length data then Inl Out_of_bounds
                else end_turn sig (semaphore_id p) (c\<lparr>pc_done := n, pc_data := Some (poke (nat (pc_done c)) bs data)\<rparr>)
                       (put_pipe (pc_pipe c) p1 w))
              else Inr (Inr (pc_done c), w)
          | P_check \<Rightarrow> check_wait (pc_done c \<noteq> pc_length c \<or> cur_buf_cap p = 0) (semaphore_id p) c w))"

end
