(* ===== verification/PipeProps.thy ===== *)
theory PipeProps
  imports Pipe
begin

text \<open>
  The ring of a pipe is a first-in first-out buffer of bytes: the second interpretation of the
  contract of \<open>Fifo\<close>, and what comes through a pipe under any interleaving of readers and writers.
\<close>

section \<open>Positions in a ring\<close>

lemma ring_inj:
  fixes i j :: nat
  assumes "(a + i) mod S = (a + j) mod S" "i < S" "j < S"
  shows "i = j"
proof -
  have "i = j" if "(a + i) mod S = (a + j) mod S" "i \<le> j" "j < S" for i j :: nat
  proof -
    have "S dvd (a + j) - (a + i)" using that(1,2) by (metis add_le_cancel_left mod_eq_dvd_iff_nat)
    then have "S dvd j - i" by simp
    then show ?thesis using that(2,3) by (metis diff_is_0_eq dvd_imp_le le_antisym less_imp_diff_less not_le neq0_conv)
  qed
  from this [of i j] this [of j i] show ?thesis using assms by (metis nat_le_linear)
qed

definition ring_put :: "nat \<Rightarrow> nat \<Rightarrow> 'a list \<Rightarrow> 'a list \<Rightarrow> 'a list" where
  "ring_put S pos bs buf =
     (if pos + length bs > S then poke 0 (drop (S - pos) bs) (poke pos (take (S - pos) bs) buf) else poke pos bs buf)"

definition ring_get :: "nat \<Rightarrow> nat \<Rightarrow> nat \<Rightarrow> 'a list \<Rightarrow> 'a list" where
  "ring_get S pos n buf = map (\<lambda>i. buf ! ((pos + i) mod S)) [0 ..< n]"

lemma ring_put_facts:
  assumes len: "length buf = S" and pos: "pos \<le> S" and n: "length bs \<le> S" and S: "0 < S"
  shows "length (ring_put S pos bs buf) = S"
    "m < length bs \<Longrightarrow> ring_put S pos bs buf ! ((pos + m) mod S) = bs ! m"
    "j < S \<Longrightarrow> \<forall>m < length bs. j \<noteq> (pos + m) mod S \<Longrightarrow> ring_put S pos bs buf ! j = buf ! j"
proof -
  show "length (ring_put S pos bs buf) = S" using assms by (simp add: ring_put_def)
  have at: "ring_put S pos bs buf ! j =
      (if pos + length bs > S \<and> j < pos + length bs - S then bs ! (S - pos + j) else if pos \<le> j \<and> j < pos + length bs then bs ! (j - pos) else buf ! j)"
    if "j < S" for j
    using that assms by (auto simp: ring_put_def nth_poke)
  have wrap: "(pos + m) mod S = (if pos + m < S then pos + m else pos + m - S)" if "m < length bs" for m
    using that pos n by (simp add: mod_if)
  show "ring_put S pos bs buf ! ((pos + m) mod S) = bs ! m" if "m < length bs"
    using at [of "(pos + m) mod S"] wrap [OF that] that pos n S by auto
  show "ring_put S pos bs buf ! j = buf ! j" if j: "j < S" and no: "\<forall>m < length bs. j \<noteq> (pos + m) mod S"
  proof -
    have "\<not> (pos + length bs > S \<and> j < pos + length bs - S)"
    proof
      assume a: "pos + length bs > S \<and> j < pos + length bs - S"
      then have "S - pos + j < length bs" using pos by linarith
      then show False using no wrap [of "S - pos + j"] j pos by fastforce
    qed
    moreover have "\<not> (pos \<le> j \<and> j < pos + length bs)"
    proof
      assume a: "pos \<le> j \<and> j < pos + length bs"
      then have "j - pos < length bs" by linarith
      then have "j \<noteq> (pos + (j - pos)) mod S" using no by blast
      then show False using a j by simp
    qed
    ultimately show ?thesis by (simp only: at [OF j] if_False)
  qed
qed

lemma ring_append:
  assumes "length buf = S" "pw \<le> S" "pr < S" "c + length bs \<le> S" "pw mod S = (pr + c) mod S" "0 < S"
  shows "ring_get S pr (c + length bs) (ring_put S pw bs buf) = ring_get S pr c buf @ bs"
proof (rule nth_equalityI)
  show "length (ring_get S pr (c + length bs) (ring_put S pw bs buf)) = length (ring_get S pr c buf @ bs)" by (simp add: ring_get_def)
  note put = ring_put_facts [OF assms(1,2) _ assms(6), of bs]
  have same: "(pw + m) mod S = (pr + (c + m)) mod S" for m
    using assms(5) by (metis add.assoc mod_add_left_eq)
  fix i
  assume "i < length (ring_get S pr (c + length bs) (ring_put S pw bs buf))"
  then have i: "i < c + length bs" by (simp add: ring_get_def)
  show "ring_get S pr (c + length bs) (ring_put S pw bs buf) ! i = (ring_get S pr c buf @ bs) ! i"
  proof (cases "i < c")
    case True
    have "(pr + i) mod S \<noteq> (pw + m) mod S" if "m < length bs" for m
    proof
      assume "(pr + i) mod S = (pw + m) mod S"
      then have "i = c + m" using ring_inj [of pr i S "c + m"] same [of m] that True assms(4) by simp
      then show False using True by simp
    qed
    then have "ring_put S pw bs buf ! ((pr + i) mod S) = buf ! ((pr + i) mod S)" using put(3) assms(4,6) by simp
    then show ?thesis using True i by (simp add: ring_get_def nth_append)
  next
    case False
    then have m: "i - c < length bs" "c + (i - c) = i" using i by simp_all
    then have "ring_put S pw bs buf ! ((pr + i) mod S) = bs ! (i - c)" using put(2) [of "i - c"] same [of "i - c"] assms(4) by simp
    then show ?thesis using False i by (simp add: ring_get_def nth_append)
  qed
qed

lemma ring_get_drop:
  assumes "n \<le> c"
  shows "ring_get S pr c buf = ring_get S pr n buf @ ring_get S ((pr + n) mod S) (c - n) buf"
proof -
  have "[0 ..< c] = [0 ..< n] @ [n ..< n + (c - n)]" using assms upt_add_eq_append [of 0 n "c - n"] by simp
  moreover have "map f [n ..< n + k] = map (\<lambda>i. f (n + i)) [0 ..< k]" for f :: "nat \<Rightarrow> 'b" and k
    by (induction k) simp_all
  ultimately show ?thesis by (simp add: ring_get_def mod_add_left_eq add.assoc)
qed

lemma ring_get_peek:
  assumes "length buf = S" "pos \<le> S" "n \<le> S"
  shows "pos + n \<le> S \<Longrightarrow> pos < S \<Longrightarrow> peek pos n buf = ring_get S pos n buf"
    "pos + n \<ge> S \<Longrightarrow> pos < S \<Longrightarrow> peek pos (S - pos) buf @ peek 0 (n - (S - pos)) buf = ring_get S pos n buf"
proof -
  show "peek pos n buf = ring_get S pos n buf" if "pos + n \<le> S" "pos < S"
    using that assms by (intro nth_equalityI) (auto simp: ring_get_def peek_def)
  show "peek pos (S - pos) buf @ peek 0 (n - (S - pos)) buf = ring_get S pos n buf" if "pos + n \<ge> S" "pos < S"
    using that assms by (intro nth_equalityI) (auto simp: ring_get_def peek_def nth_append mod_if add.commute)
qed

section \<open>The contents of a pipe\<close>

definition contents :: "pipe \<Rightarrow> byte list" where
  "contents p = ring_get PIPE_BUFFER_SIZE (unat (pos_read p)) (unat (cur_buf_cap p)) (buffer p)"

definition pipe_ok :: "pipe \<Rightarrow> bool" where
  "pipe_ok p \<longleftrightarrow> length (buffer p) = PIPE_BUFFER_SIZE \<and> unat (pos_read p) < PIPE_BUFFER_SIZE \<and> unat (pos_written p) \<le> PIPE_BUFFER_SIZE \<and>
     unat (cur_buf_cap p) \<le> PIPE_BUFFER_SIZE \<and>
     unat (pos_written p) mod PIPE_BUFFER_SIZE = (unat (pos_read p) + unat (cur_buf_cap p)) mod PIPE_BUFFER_SIZE"

lemma length_pipe_contents [simp]: "length (contents p) = unat (cur_buf_cap p)"
  by (simp add: contents_def ring_get_def)

lemma small_sums:
  "unat (a :: u32) \<le> 8192 \<Longrightarrow> n \<le> 8192 \<Longrightarrow> unat (a + of_nat n) = unat a + n"
  "n \<le> 8192 \<Longrightarrow> unat (of_nat n :: u32) = n" "n \<le> unat a \<Longrightarrow> unat (a - of_nat n) = unat a - n"
proof -
  show n: "unat (of_nat n :: u32) = n" if "n \<le> 8192" using that by (simp add: unat_of_nat)
  show "unat (a + of_nat n) = unat a + n" if "unat a \<le> 8192" "n \<le> 8192" using that n by (simp add: unat_word_ariths)
  show "unat (a - of_nat n) = unat a - n" if "n \<le> unat a"
  proof -
    have "unat (of_nat n :: u32) = n" using that unsigned_less [of a, where 'a = nat] by (simp add: unat_of_nat)
    then show ?thesis using that by (simp add: unat_sub word_le_nat_alt)
  qed
qed

lemma write_chunk_law:
  assumes "pipe_ok p" "length (contents p) + length bs \<le> PIPE_BUFFER_SIZE"
  shows "\<exists>p'. write_chunk bs p = Inr p' \<and> pipe_ok p' \<and> contents p' = contents p @ bs"
proof -
  define n where "n = length bs"
  define pw pr c where "pw = unat (pos_written p)" and "pr = unat (pos_read p)" and "c = unat (cur_buf_cap p)"
  have ok: "length (buffer p) = 8192" "pr < 8192" "pw \<le> 8192" "c \<le> 8192" "pw mod 8192 = (pr + c) mod 8192" "c + n \<le> 8192"
    using assms by (simp_all add: pipe_ok_def PIPE_BUFFER_SIZE_def pw_def pr_def c_def n_def)
  have nn: "n \<le> 8192" using ok(6) by simp
  have sums: "unat (pos_written p + of_nat n) = pw + n" "unat (cur_buf_cap p + of_nat n) = c + n"
    using small_sums(1) [OF _ nn] ok(3,4) by (simp_all add: pw_def c_def)
  define pw' where "pw' = (if pw + n > 8192 then pw + n - 8192 else pw + n)"
  define w :: u32 where "w = (if pw + n > 8192 then of_nat (n - (8192 - pw)) else pos_written p + of_nat n)"
  have w: "unat w = pw'" using sums(1) small_sums(2) [of "n - (8192 - pw)"] nn ok(3) by (auto simp: w_def pw'_def)
  define p' where "p' = p\<lparr>buffer := ring_put 8192 pw bs (buffer p), pos_written := w, cur_buf_cap := cur_buf_cap p + of_nat n\<rparr>"
  have cmp: "pos_written p + of_nat n > of_nat PIPE_BUFFER_SIZE \<longleftrightarrow> pw + n > 8192"
    using sums(1) by (simp add: word_less_nat_alt PIPE_BUFFER_SIZE_def)
  have "\<not> 8192 < n + pw - 8192" using ok(3) nn by linarith
  then have "write_chunk bs p = Inr p'"
    using ok(3) nn cmp unfolding write_chunk_def Let_def n_def [symmetric] pw_def [symmetric]
    by (simp add: PIPE_BUFFER_SIZE_def p'_def w_def ring_put_def n_def [symmetric])
  moreover have m: "pw' mod 8192 = (pr + (c + n)) mod 8192"
  proof -
    have "pw' mod 8192 = (pw + n) mod 8192" by (simp add: pw'_def mod_if)
    also have "... = (pr + (c + n)) mod 8192" using ok(5) by (metis add.assoc mod_add_left_eq)
    finally show ?thesis .
  qed
  have "pw + n - 8192 \<le> 8192" using ok(3) nn by linarith
  then have "pw' \<le> 8192" unfolding pw'_def by (simp split: if_split)
  then have "pipe_ok p'"
    using ok w m sums(2) ring_put_facts(1) [of "buffer p" 8192 pw bs] n_def nn
    by (simp add: pipe_ok_def p'_def PIPE_BUFFER_SIZE_def pr_def [symmetric])
  moreover have "contents p' = contents p @ bs"
    using ring_append [of "buffer p" 8192 pw pr c bs] ok sums(2)
    by (simp add: contents_def p'_def PIPE_BUFFER_SIZE_def pr_def [symmetric] c_def [symmetric] n_def)
  ultimately show ?thesis by blast
qed

lemma read_chunk_law:
  assumes "pipe_ok p" "n \<le> length (contents p)"
  shows "\<exists>bs p'. read_chunk n p = Inr (bs, p') \<and> pipe_ok p' \<and> bs = take n (contents p) \<and> contents p' = drop n (contents p)"
proof -
  define pw pr c where "pw = unat (pos_written p)" and "pr = unat (pos_read p)" and "c = unat (cur_buf_cap p)"
  have ok: "length (buffer p) = 8192" "pr < 8192" "pw \<le> 8192" "c \<le> 8192" "pw mod 8192 = (pr + c) mod 8192" "n \<le> c"
    using assms by (simp_all add: pipe_ok_def PIPE_BUFFER_SIZE_def pw_def pr_def c_def)
  have nn: "n \<le> 8192" using ok by simp
  have sums: "unat (pos_read p + of_nat n) = pr + n" "unat (cur_buf_cap p - of_nat n) = c - n"
    using small_sums(1) [OF _ nn, of "pos_read p"] small_sums(3) [of n "cur_buf_cap p"] ok by (simp_all add: pr_def c_def)
  define r :: u32 where "r = (if pr + n \<ge> 8192 then of_nat (n - (8192 - pr)) else pos_read p + of_nat n)"
  have r: "unat r = (pr + n) mod 8192"
    using sums(1) small_sums(2) [of "n - (8192 - pr)"] nn ok(2) by (auto simp: r_def mod_if)
  define p' where "p' = p\<lparr>pos_read := r, cur_buf_cap := cur_buf_cap p - of_nat n\<rparr>"
  have cmp: "(pos_read p + of_nat n) div of_nat PIPE_BUFFER_SIZE > 0 \<longleftrightarrow> pr + n \<ge> 8192"
    using sums(1) by (simp add: word_less_nat_alt PIPE_BUFFER_SIZE_def unat_div div_greater_zero_iff)
  have "\<not> 8192 < n + pr - 8192" using ok(2) nn by linarith
  then have "read_chunk n p = Inr (ring_get 8192 pr n (buffer p), p')"
    using ok(1,2) nn cmp ring_get_peek [of "buffer p" 8192 pr n] unfolding read_chunk_def Let_def pr_def [symmetric]
    by (simp add: PIPE_BUFFER_SIZE_def p'_def r_def)
  moreover have "contents p = ring_get 8192 pr n (buffer p) @ contents p'"
    using ring_get_drop [OF ok(6), of 8192 pr "buffer p"] r sums(2)
    by (simp add: contents_def p'_def PIPE_BUFFER_SIZE_def pr_def [symmetric] c_def [symmetric])
  moreover have "pipe_ok p'"
  proof -
    have "((pr + n) mod 8192 + (c - n)) mod 8192 = (pr + n + (c - n)) mod 8192" by (rule mod_add_left_eq)
    then have "((pr + n) mod 8192 + (c - n)) mod 8192 = (pr + c) mod 8192" using ok(6) by simp
    then show ?thesis using ok r sums(2) by (simp add: pipe_ok_def p'_def PIPE_BUFFER_SIZE_def pw_def [symmetric])
  qed
  ultimately show ?thesis using length_map by (auto simp: ring_get_def)
qed

interpretation pp: fifo write_chunk read_chunk pipe_ok contents "\<lambda>_. PIPE_BUFFER_SIZE" "\<lambda>bs. bs" "\<lambda>n. n"
proof
  show "\<exists>p'. write_chunk bs p = Inr p' \<and> pipe_ok p' \<and> contents p' = contents p @ bs \<and> PIPE_BUFFER_SIZE = PIPE_BUFFER_SIZE"
    if "pipe_ok p" "length (contents p) + length bs \<le> PIPE_BUFFER_SIZE" for p bs using write_chunk_law [OF that] by blast
  show "\<exists>bs p'. read_chunk n p = Inr (bs, p') \<and> pipe_ok p' \<and> bs = take n (contents p) \<and> contents p' = drop n (contents p) \<and>
      PIPE_BUFFER_SIZE = PIPE_BUFFER_SIZE"
    if "pipe_ok p" "n \<le> length (contents p)" for p n using read_chunk_law [OF that] by blast
qed

section \<open>Turns\<close>

text \<open>
  A run of loop bodies of any number of calls: a write has its data, its length and how many bytes it
  has written; a read its length and how many bytes it has read. The result is the bytes that went in
  and the bytes that came out.
\<close>

datatype turn = Write_turn "byte list" int int | Read_turn int int

fun pipe_turns :: "turn list \<Rightarrow> pipe \<Rightarrow> (byte list \<times> byte list \<times> pipe) res" where
  "pipe_turns [] p = Inr ([], [], p)"
| "pipe_turns (Write_turn data len n # ts) p =
     rbind (write_turn data len n p) (\<lambda>(_, n1, p1).
     rbind (pipe_turns ts p1) (\<lambda>(i, out, p2). Inr (take (nat (n1 - n)) (drop (nat n) data) @ i, out, p2)))"
| "pipe_turns (Read_turn len n # ts) p =
     rbind (read_turn len n p) (\<lambda>(_, n1, bs, p1).
     rbind (pipe_turns ts p1) (\<lambda>(i, out, p2). Inr (i, bs @ out, p2)))"

text \<open>The turns that calls make: the progress is between 0 and the length, which is an \<^verbatim>\<open>int\<close> and at most the size of the data.\<close>

fun turn_ok :: "turn \<Rightarrow> bool" where
  "turn_ok (Write_turn data len n) \<longleftrightarrow> 0 \<le> n \<and> n \<le> len \<and> len \<le> int (length data) \<and> len < 2 ^ 31"
| "turn_ok (Read_turn len n) \<longleftrightarrow> 0 \<le> n \<and> n \<le> len \<and> len < 2 ^ 31"

lemma min_amount:
  assumes "unat (a :: u32) \<le> 8192" "0 \<le> b" "b < 2 ^ 31"
  shows "min_amount a b = min (int (unat a)) b"
proof -
  have "b < 2 ^ 32" by (rule less_trans [OF assms(3)]) simp
  then have "take_bit 32 b = b" using assms(2) by (intro take_bit_int_eq_self)
  then have b: "unat (of_int b :: u32) = nat b" by (simp add: unsigned_of_int)
  have u: "uint a = int (unat a)" by (rule uint_nat)
  have "int (unat a) \<le> 8192" using assms(1) by linarith
  then have "uint a \<le> 8192" by (simp only: u)
  then have "uint a < 2 ^ 31" by (rule le_less_trans) simp
  moreover have "- (2 ^ 31) \<le> uint a" by (rule order_trans [OF _ unsigned_greater_eq]) simp
  ultimately have "signed_take_bit 31 (uint a) = uint a" by (intro signed_take_bit_int_eq_self)
  then have "sint a = int (unat a)" unfolding u [symmetric] by (simp add: sint_uint)
  moreover have "a < of_int b \<longleftrightarrow> int (unat a) < b" using b assms(2) by (simp only: word_less_nat_alt) linarith
  ultimately show ?thesis by (simp add: min_amount_def min_def)
qed

text \<open>A turn on a sound pipe.\<close>

lemma room_left:
  assumes "pipe_ok p"
  shows "unat (of_nat PIPE_BUFFER_SIZE - cur_buf_cap p) = PIPE_BUFFER_SIZE - length (contents p)" "unat (cur_buf_cap p) \<le> 8192"
    "length (contents p) \<le> PIPE_BUFFER_SIZE"
proof -
  have c: "unat (cur_buf_cap p) \<le> 8192" using assms by (simp add: pipe_ok_def PIPE_BUFFER_SIZE_def)
  then show "unat (cur_buf_cap p) \<le> 8192" "length (contents p) \<le> PIPE_BUFFER_SIZE" by (simp_all add: PIPE_BUFFER_SIZE_def)
  show "unat (of_nat PIPE_BUFFER_SIZE - cur_buf_cap p) = PIPE_BUFFER_SIZE - length (contents p)"
    using c by (simp add: PIPE_BUFFER_SIZE_def unat_sub word_le_nat_alt)
qed

lemma lock_simps [simp]: "pipe_ok (p\<lparr>lock_buf := b\<rparr>) = pipe_ok p" "contents (p\<lparr>lock_buf := b\<rparr>) = contents p"
  by (simp_all add: pipe_ok_def contents_def)

lemma write_turn_law:
  assumes ok: "pipe_ok p" and t: "turn_ok (Write_turn data len n)"
  shows "\<exists>sg n1 p1. write_turn data len n p = Inr (sg, n1, p1) \<and> pipe_ok p1 \<and> n \<le> n1 \<and> n1 \<le> len \<and>
     contents p1 = contents p @ take (nat (n1 - n)) (drop (nat n) data)"
proof (cases "cur_buf_cap p = of_nat PIPE_BUFFER_SIZE \<or> lock_buf p")
  case True
  then show ?thesis using ok t by (auto simp: write_turn_def)
next
  case False
  define cur where "cur = min_amount (of_nat PIPE_BUFFER_SIZE - cur_buf_cap p) (len - n)"
  have l: "0 \<le> n" "n \<le> len" "len \<le> int (length data)" "len < 2 ^ 31" using t by simp_all
  have "unat (of_nat PIPE_BUFFER_SIZE - cur_buf_cap p) \<le> 8192" using room_left(1) [OF ok] by (simp add: PIPE_BUFFER_SIZE_def)
  then have cur: "cur = min (int (PIPE_BUFFER_SIZE - length (contents p))) (len - n)"
    unfolding cur_def using min_amount [of "of_nat PIPE_BUFFER_SIZE - cur_buf_cap p" "len - n"] l room_left(1) [OF ok] by simp
  define bs where "bs = take (nat cur) (drop (nat n) data)"
  have fit: "length (contents p) + length bs \<le> PIPE_BUFFER_SIZE" 
  proof -
    have "length bs \<le> nat cur" by (simp add: bs_def)
    moreover have "nat cur \<le> PIPE_BUFFER_SIZE - length (contents p)" unfolding cur by linarith
    ultimately show ?thesis using room_left(3) [OF ok] by linarith
  qed
  obtain p1 where p1: "write_chunk bs p = Inr p1" "pipe_ok p1" "contents p1 = contents p @ bs" using pp.put_law [OF ok fit] by blast
  have b: "0 \<le> cur" "n + cur \<le> len" "n + cur \<le> int (length data)" using cur l by simp_all
  have "write_turn data len n p = Inr (True, n + cur, p1\<lparr>lock_buf := False\<rparr>)"
    using False p1(1) b unfolding write_turn_def cur_def [symmetric] Let_def by (simp add: bs_def)
  then show ?thesis using p1 b by (auto simp: bs_def)
qed

lemma read_turn_law:
  assumes ok: "pipe_ok p" and t: "turn_ok (Read_turn len n)"
  shows "\<exists>sg n1 bs p1. read_turn len n p = Inr (sg, n1, bs, p1) \<and> pipe_ok p1 \<and> n1 = n + int (length bs) \<and> n1 \<le> len \<and>
     bs @ contents p1 = contents p"
proof (cases "cur_buf_cap p = 0 \<or> lock_buf p")
  case True
  then show ?thesis using ok t by (auto simp: read_turn_def)
next
  case False
  define cur where "cur = min_amount (cur_buf_cap p) (len - n)"
  have l: "0 \<le> n" "n \<le> len" "len < 2 ^ 31" using t by simp_all
  have cur: "cur = min (int (length (contents p))) (len - n)"
    unfolding cur_def using min_amount [of "cur_buf_cap p" "len - n"] l room_left(2) [OF ok] by simp
  have fit: "nat cur \<le> length (contents p)" unfolding cur by linarith
  obtain bs p1 where p1: "read_chunk (nat cur) p = Inr (bs, p1)" "pipe_ok p1" "bs = take (nat cur) (contents p)"
    "contents p1 = drop (nat cur) (contents p)" using pp.get_law [OF ok fit] by blast
  have b: "0 \<le> cur" "n + cur \<le> len" using cur l by simp_all
  have "read_turn len n p = Inr (True, n + cur, bs, p1\<lparr>lock_buf := False\<rparr>)"
    using False p1(1) b unfolding read_turn_def cur_def [symmetric] Let_def by simp
  moreover have "int (length bs) = cur" using p1(3) fit b(1) by simp
  ultimately show ?thesis using p1 b by auto
qed

lemma pipe_turns_keep:
  "pipe_ok p \<Longrightarrow> \<forall>t \<in> set ts. turn_ok t \<Longrightarrow>
     \<exists>i out p'. pipe_turns ts p = Inr (i, out, p') \<and> pipe_ok p' \<and> out @ contents p' = contents p @ i"
proof (induction ts arbitrary: p)
  case (Cons t ts)
  have ts: "\<forall>t \<in> set ts. turn_ok t" using Cons.prems(2) by simp
  show ?case
  proof (cases t)
    case (Write_turn data len n)
    obtain sg n1 p1 where 1: "write_turn data len n p = Inr (sg, n1, p1)" "pipe_ok p1"
      "contents p1 = contents p @ take (nat (n1 - n)) (drop (nat n) data)"
      using write_turn_law [OF Cons.prems(1), of data len n] Cons.prems(2) Write_turn by auto
    show ?thesis using Cons.IH [OF 1(2) ts] 1 Write_turn by auto
  next
    case (Read_turn len n)
    obtain sg n1 bs p1 where 1: "read_turn len n p = Inr (sg, n1, bs, p1)" "pipe_ok p1" "bs @ contents p1 = contents p"
      using read_turn_law [OF Cons.prems(1), of len n] Cons.prems(2) Read_turn by auto
    obtain i out p' where 2: "pipe_turns ts p1 = Inr (i, out, p')" "pipe_ok p'" "out @ contents p' = contents p1 @ i"
      using Cons.IH [OF 1(2) ts] by blast
    have "(bs @ out) @ contents p' = contents p @ i" using 1(3) 2(3) by (metis append.assoc)
    then show ?thesis using 1(1) 2 Read_turn by simp
  qed
qed simp

section \<open>Bytes come out in the order they went in\<close>

text \<open>
  C17. A pipe is a first-in first-out buffer. For any interleaving of the turns of any number of reads
  and writes on a pipe, starting from an empty one, no turn fails or leaves the buffer, and the bytes read,
  followed by those still in the pipe, are the bytes written in the order of the turns; the pipe never
  holds more than 8192 bytes.
\<close>

theorem pipe_is_fifo:
  assumes "pipe_ok p" "contents p = []" "\<forall>t \<in> set ts. turn_ok t"
  shows "\<exists>i out p'. pipe_turns ts p = Inr (i, out, p') \<and> out @ contents p' = i \<and> pipe_ok p' \<and> length (contents p') \<le> PIPE_BUFFER_SIZE"
  using pipe_turns_keep [OF assms(1,3)] assms(2) room_left(3) by fastforce

definition fresh_pipe :: pipe where
  "fresh_pipe = \<lparr>buffer = replicate PIPE_BUFFER_SIZE 0, cur_buf_cap = 0, pos_read = 0, pos_written = 0, can_write = True, can_read = True,
     lock_buf = False, semaphore_id = 3\<rparr>"

lemma fresh_pipe_ok: "pipe_ok fresh_pipe" "contents fresh_pipe = []"
  by (simp_all add: pipe_ok_def contents_def ring_get_def fresh_pipe_def PIPE_BUFFER_SIZE_def)

theorem pipe_is_fifo_witness:
  "\<exists>i out p'. pipe_turns [Write_turn [1, 2, 3] 3 0, Read_turn 2 0, Read_turn 5 0] fresh_pipe = Inr (i, out, p') \<and> out @ contents p' = i"
  using pipe_is_fifo [OF fresh_pipe_ok, of "[Write_turn [1, 2, 3] 3 0, Read_turn 2 0, Read_turn 5 0]"] by auto

end
