(* ===== verification/Timer.thy ===== *)
theory Timer
  imports KSched
begin

text \<open>
  The clock: sleeping in \<^verbatim>\<open>src/kernel/sync/timer_api.c\<close>, the time of day in \<^verbatim>\<open>time_syscall.c\<close> and what
  the timer interrupts of \<^verbatim>\<open>timer.c\<close> do to the kernel; the registers of the timer device are not part of
  the state. The wake time of a sleeper is stored negated, so that the queue puts the earliest first.
\<close>

section \<open>Operations\<close>

definition TIC_PER :: u64 where "TIC_PER = 10"

definition clock_settings :: "u64 \<Rightarrow> u64 \<times> u64" where
  "clock_settings clk_freq = (clk_freq, clk_freq div 1000 * TIC_PER)"

definition wait_clock :: "u64 \<Rightarrow> kernel \<Rightarrow> kernel res" where
  "wait_clock clock k =
     (let p = get_current_process k in
      rbind (pmod p (\<lambda>pr. pr\<lparr>p_wake_time := - (current_clock k + clock)\<rparr>) k) (\<lambda>k1.
      rbind (pmod p (\<lambda>pr. pr\<lparr>p_state := ASLEEP\<rparr>) k1) (\<lambda>k2.
      rbind (kq_add p Q_asleep k2) scheduler)))"

definition sleep :: "u64 \<Rightarrow> kernel \<Rightarrow> kernel res" where
  "sleep nbr_ms k = wait_clock (nbr_ms div TIC_PER) k"

text \<open>The placeholders of \<^verbatim>\<open>time_syscall.c\<close>.\<close>

record time_base =
  current_time_s :: s64
  current_time_usec :: s64

definition initial_time :: time_base where
  "initial_time = \<lparr>current_time_s = 1632268800, current_time_usec = 1632268800000000\<rparr>"

definition time_of :: "time_base \<Rightarrow> kernel \<Rightarrow> s64" where
  "time_of b k = current_time_s b + time_counter k * TIC_PER div 1000"

definition gettimeofday :: "time_base \<Rightarrow> kernel \<Rightarrow> s64 \<times> s64" where
  "gettimeofday b k =
     (current_time_s b + time_counter k * TIC_PER div 1000, current_time_usec b + time_counter k * TIC_PER * 1000)"

definition settimeofday :: "(s64 \<times> s64) option \<Rightarrow> time_base \<Rightarrow> kernel \<Rightarrow> int \<times> time_base \<times> kernel" where
  "settimeofday tv b k =
     (case tv of
        None \<Rightarrow> (-1, b, k)
      | Some (s, us) \<Rightarrow> (0, b\<lparr>current_time_s := s, current_time_usec := us\<rparr>, k\<lparr>time_counter := 0\<rparr>))"

text \<open>The machine interrupt with its two statics: whether the supervisor interrupt, which calls the scheduler, is raised.\<close>

definition SYNC_LIMIT :: u32 where "SYNC_LIMIT = 200"

record timer_state =
  first_call :: bool
  sync_counter :: u32

definition tick :: "kernel \<Rightarrow> kernel" where
  "tick k = k\<lparr>time_counter := time_counter k + 1\<rparr>"

definition handle_mtimer_interrupt :: "bool \<Rightarrow> bool \<Rightarrow> timer_state \<Rightarrow> kernel \<Rightarrow> bool \<times> timer_state \<times> kernel" where
  "handle_mtimer_interrupt virtmachine from_supervisor t k =
     (if \<not> virtmachine then (False, t, tick k)
      else
        (let n = sync_counter t + 1; t1 = t\<lparr>sync_counter := (if n > SYNC_LIMIT then 0 else n)\<rparr> in
         if from_supervisor \<and> \<not> first_call t then (False, t1, tick k)
         else (True, t1\<lparr>first_call := False\<rparr>, tick k)))"

definition handle_stimer_interrupt :: "bool \<Rightarrow> kernel \<Rightarrow> kernel res" where
  "handle_stimer_interrupt virtmachine k = scheduler (if virtmachine then k else tick k)"

section \<open>The queue of sleepers\<close>

text \<open>When a sleeper is to run again.\<close>

definition wake_at :: "process \<Rightarrow> u64" where
  "wake_at pr = - p_wake_time pr"

lemma wake_order:
  fixes v w :: s64
  assumes "0 \<le> sint (- v)" "0 \<le> sint (- w)" "sint w \<le> sint v"
  shows "- v \<le> - w"
proof -
  have neg: "sint (- x) = - sint x" if x: "0 \<le> sint (- x)" for x :: s64
  proof -
    have b: "- (2 ^ 63) \<le> sint x" "sint x < 2 ^ 63" using sint_range_size [of x] by (simp_all add: word_size)
    have e: "sint (- x) = signed_take_bit 63 (- sint x)"
      using sint_sbintrunc' [of "- sint x", where 'a = 64] by simp
    have "sint x \<noteq> - (2 ^ 63)"
    proof
      assume "sint x = - (2 ^ 63)"
      then have "sint (- x) = signed_take_bit 63 (2 ^ 63)" by (simp add: e)
      moreover have "signed_take_bit 63 (2 ^ 63 :: int) < 0" by simp
      ultimately show False using x by simp
    qed
    then have "signed_take_bit 63 (- sint x) = - sint x" using b by (intro signed_take_bit_int_eq_self) auto
    then show ?thesis by (simp only: e)
  qed
  have u: "uint x = sint x" if "0 \<le> sint x" for x :: s64
  proof -
    have "sint x < 2 ^ 63" using sint_range_size [of x] by (simp add: word_size)
    then have "take_bit 64 (sint x) = sint x" using that by (intro take_bit_int_eq_self) auto
    then show ?thesis using uint_sint [of x] by simp
  qed
  have "sint (- v) \<le> sint (- w)" using assms(3) neg [OF assms(1)] neg [OF assms(2)] by linarith
  then show ?thesis using assms by (simp add: word_le_def u)
qed

lemma last_sleeper:
  assumes w: "kwf k" and s: "sleepers_ok k" and p: "p \<in> set (queues k Q_asleep)" "heap k p = Some pr"
  obtains l lr where "l = last (queues k Q_asleep)" "heap k l = Some lr" "l \<noteq> 0" "get_next_wake_time k = Inr (wake_at lr)"
    "sint (p_wake_time pr) \<le> sint (p_wake_time lr)" "wake_at lr \<le> wake_at pr"
proof -
  let ?q = "queues k Q_asleep"
  have ne: "?q \<noteq> []" using p(1) by auto
  define l where "l = last ?q"
  then obtain lr where l: "heap k l = Some lr" "l \<noteq> 0" using kq_out_ok [OF w ne] by metis
  have m: "l \<in> set ?q" using ne by (simp add: l_def)
  have q: "?q = butlast ?q @ [l]" using ne by (simp add: l_def)
  have "sorted (map (qprio k Q_asleep) (butlast ?q @ [l]))" using kwf_sorted [OF w, of Q_asleep] q by simp
  moreover have "p \<in> set (butlast ?q) \<or> p = l" using p(1) q by (metis Un_iff empty_iff insert_iff list.set set_append)
  ultimately have "qprio k Q_asleep p \<le> qprio k Q_asleep l" by (auto simp: sorted_append)
  then have o: "sint (p_wake_time pr) \<le> sint (p_wake_time lr)" using p l by (simp add: qprio_def)
  have "0 \<le> sint (- p_wake_time pr)" "0 \<le> sint (- p_wake_time lr)" using s p l m unfolding sleepers_ok_def by blast+
  then have "wake_at lr \<le> wake_at pr" using wake_order o by (simp add: wake_at_def)
  moreover have "get_next_wake_time k = Inr (wake_at lr)"
    using \<open>0 \<le> sint (- p_wake_time lr)\<close> l ne by (simp add: get_next_wake_time_def kq_top_def pq_top_def dref_def wake_at_def l_def)
  ultimately show thesis using that l o l_def by blast
qed

text \<open>\<open>W\<close>: when the processes that were asleep at the start are to run; those of them with an earlier time are ready.\<close>

definition waking :: "(ptr \<Rightarrow> u64 option) \<Rightarrow> kernel \<Rightarrow> bool" where
  "waking W k \<longleftrightarrow> (\<forall>p u. W p = Some u \<longrightarrow> u \<noteq> 0 \<and>
     ((\<exists>pr. p \<in> set (queues k Q_asleep) \<and> heap k p = Some pr \<and> wake_at pr = u) \<or>
      (p \<in> set (queues k Q_act) \<and> u < current_clock k))) \<and> (\<forall>p \<in> set (queues k Q_asleep). W p \<noteq> None)"

lemma awake_step:
  assumes w: "kwf k" and s: "sleepers_ok k" and W: "waking W k" and ne: "queues k Q_asleep \<noteq> []"
    and early: "get_next_wake_time k = Inr u" "u < current_clock k"
  obtains p k1 k2 where "kq_out Q_asleep k = Inr (p, k1)" "kq_add p Q_act k1 = Inr k2" "kwf k2" "sleepers_ok k2" "waking W k2"
    "current_clock k2 = current_clock k" "length (queues k2 Q_asleep) < length (queues k Q_asleep)"
proof -
  define p where "p = last (queues k Q_asleep)"
  obtain pr where pr: "heap k p = Some pr" "p_link pr = Some Q_asleep" "p \<noteq> 0"
    and o: "kq_out Q_asleep k = Inr (p, k\<lparr>heap := (heap k)(p \<mapsto> pr\<lparr>p_link := None\<rparr>), queues := (queues k)(Q_asleep := butlast (queues k Q_asleep))\<rparr>)"
    using kq_out_ok [OF w ne] unfolding p_def by metis
  let ?k1 = "k\<lparr>heap := (heap k)(p \<mapsto> pr\<lparr>p_link := None\<rparr>), queues := (queues k)(Q_asleep := butlast (queues k Q_asleep))\<rparr>"
  have w1: "kwf ?k1" using kq_out_kwf [OF w o] .
  have a: "kq_add p Q_act ?k1 = Inr (?k1\<lparr>heap := (heap ?k1)(p \<mapsto> pr\<lparr>p_link := Some Q_act\<rparr>),
      queues := (queues ?k1)(Q_act := pq_add (qprio ?k1 Q_act) p (queues ?k1 Q_act))\<rparr>)" (is "_ = Inr ?k2")
    using kq_add_ok [OF w1, of p "pr\<lparr>p_link := None\<rparr>" Q_act] by simp
  have w2: "kwf ?k2" using kq_add_kwf [OF w1 a] .
  have s2: "sleepers_ok ?k2" using s pr by (auto simp: sleepers_ok_def dest: in_set_butlastD)
  have q: "queues k Q_asleep = butlast (queues k Q_asleep) @ [p]" using ne by (simp add: p_def)
  have d: "distinct (butlast (queues k Q_asleep) @ [p])" using kwf_distinct [OF w, of Q_asleep] q by simp
  have u: "u = wake_at pr"
    using early(1) pr ne by (auto simp: get_next_wake_time_def kq_top_def pq_top_def dref_def p_def [symmetric] wake_at_def elim!: rbindE)
  have asl: "x \<in> set (queues k Q_asleep) \<longleftrightarrow> x \<in> set (butlast (queues k Q_asleep)) \<or> x = p" for x
    using arg_cong [OF q, of set] by auto
  have act: "x \<in> set (queues ?k2 Q_act) \<longleftrightarrow> x = p \<or> x \<in> set (queues k Q_act)" for x by simp
  have "waking W ?k2"
    unfolding waking_def
  proof (intro conjI allI impI ballI)
    fix x v
    assume v: "W x = Some v"
    show "v \<noteq> 0" using W v by (simp add: waking_def)
    show "(\<exists>pr. x \<in> set (queues ?k2 Q_asleep) \<and> heap ?k2 x = Some pr \<and> wake_at pr = v) \<or>
        (x \<in> set (queues ?k2 Q_act) \<and> v < current_clock ?k2)"
    proof (cases "x = p")
      case True
      then have "x \<in> set (queues k Q_asleep)" using asl by simp
      moreover have "x \<notin> set (queues k Q_act)" using kwf_member [OF w, of x Q_act] pr True by auto
      ultimately have "wake_at pr = v" using W v pr True unfolding waking_def by fastforce
      then show ?thesis using early(2) u True act by (simp add: current_clock_def)
    next
      case False
      then show ?thesis using W v asl [of x] act [of x] unfolding waking_def by (fastforce simp: current_clock_def)
    qed
  next
    fix x
    assume "x \<in> set (queues ?k2 Q_asleep)"
    then show "W x \<noteq> None" using W asl [of x] by (simp add: waking_def)
  qed
  moreover have "length (queues ?k2 Q_asleep) < length (queues k Q_asleep)" using ne by (cases "queues k Q_asleep") auto
  ultimately show thesis using that [OF o a w2 s2] by (simp add: current_clock_def)
qed

lemma awake_loop_waking:
  "kwf k \<Longrightarrow> sleepers_ok k \<Longrightarrow> waking W k \<Longrightarrow> length (queues k Q_asleep) < n \<Longrightarrow>
     \<exists>k'. awake_loop n k = Inr k' \<and> kwf k' \<and> waking W k' \<and> current_clock k' = current_clock k \<and>
       (\<forall>p pr. p \<in> set (queues k' Q_asleep) \<longrightarrow> heap k' p = Some pr \<longrightarrow> current_clock k \<le> wake_at pr)"
proof (induction n arbitrary: k)
  case (Suc n)
  obtain u where u: "get_next_wake_time k = Inr u" using get_next_wake_time_ok(1) Suc.prems(1,2) by blast
  show ?case
  proof (cases "u \<noteq> 0 \<and> current_clock k > u")
    case True
    then have ne: "queues k Q_asleep \<noteq> []" using get_next_wake_time_ok(2) [OF Suc.prems(1,2)] u by auto
    obtain p k1 k2 where s: "kq_out Q_asleep k = Inr (p, k1)" "kq_add p Q_act k1 = Inr k2" "kwf k2" "sleepers_ok k2" "waking W k2"
      "current_clock k2 = current_clock k" "length (queues k2 Q_asleep) < length (queues k Q_asleep)"
      using awake_step [OF Suc.prems(1-3) ne u] True by blast
    then have "length (queues k2 Q_asleep) < n" using Suc.prems(4) by simp
    from Suc.IH [OF s(3-5) this] show ?thesis using True u s by auto
  next
    case False
    have "current_clock k \<le> wake_at pr" if p: "p \<in> set (queues k Q_asleep)" "heap k p = Some pr" for p pr
    proof -
      obtain l lr where l: "heap k l = Some lr" "get_next_wake_time k = Inr (wake_at lr)" "wake_at lr \<le> wake_at pr" "l = last (queues k Q_asleep)"
        using last_sleeper [OF Suc.prems(1,2) p] by metis
      have m: "l \<in> set (queues k Q_asleep)" using p(1) l(4) by (metis last_in_set empty_iff list.set(1))
      then have "l \<notin> set (queues k Q_act)" using kwf_member [OF Suc.prems(1)] by fastforce
      then have "wake_at lr \<noteq> 0" using Suc.prems(3) m l(1) unfolding waking_def by (metis option.exhaust option.inject)
      then show ?thesis using False u l by auto
    qed
    then show ?thesis using False u Suc.prems by auto
  qed
qed simp

text \<open>Process 4 of the small kernel asleep, until a time given by the clock of its call.\<close>

definition sleeping_kernel :: "u64 \<Rightarrow> kernel" where
  "sleeping_kernel u = small_kernel\<lparr>heap := (heap small_kernel)(4 \<mapsto>
     (plain_process 4 7 ASLEEP (Some Q_asleep))\<lparr>p_wake_time := - u\<rparr>), queues := (queues small_kernel)(Q_asleep := [4])\<rparr>"

lemma sleeping_kwf: "kwf (sleeping_kernel u)"
proof -
  have "queues_wf (sleeping_kernel u)" by (simp add: queues_wf_def sleeping_kernel_def small_kernel_def qprio_def)
  moreover have "links_wf (sleeping_kernel u)" by (auto simp: links_wf_def sleeping_kernel_def small_kernel_def)
  moreover have "pids_wf (sleeping_kernel u)" by (auto simp: pids_wf_def sleeping_kernel_def small_kernel_def)
  ultimately show ?thesis by (simp add: kwf_def sleeping_kernel_def small_kernel_def)
qed

section \<open>Properties\<close>

text \<open>
  C22. Sleepers are woken in time: when no process sleeps until time 0, the step of the scheduler that wakes
  them returns, every sleeper whose time has passed is ready, and the others still sleep.
\<close>

theorem sleepers_woken_in_time:
  assumes "kwf k" "sleepers_ok k" "\<forall>p \<in> set (queues k Q_asleep). \<forall>pr. heap k p = Some pr \<longrightarrow> p_wake_time pr \<noteq> 0"
  shows "\<exists>k'. awake_sleeping_process k = Inr k' \<and> kwf k' \<and> (\<forall>p pr. p \<in> set (queues k Q_asleep) \<longrightarrow> heap k p = Some pr \<longrightarrow>
     (if - p_wake_time pr < time_counter k then p \<in> set (queues k' Q_act) else p \<in> set (queues k' Q_asleep)))"
proof -
  define W where "W = (\<lambda>p. if p \<in> set (queues k Q_asleep) then map_option wake_at (heap k p) else None)"
  have "waking W k"
    using assms(3) kwf_member [OF assms(1)] by (fastforce simp: waking_def W_def wake_at_def)
  then obtain k' where k': "awake_sleeping_process k = Inr k'" "kwf k'" "waking W k'" "current_clock k' = current_clock k"
    and late: "\<And>p pr. p \<in> set (queues k' Q_asleep) \<Longrightarrow> heap k' p = Some pr \<Longrightarrow> current_clock k \<le> wake_at pr"
    using awake_loop_waking [OF assms(1,2), of W "Suc (length (queues k Q_asleep))"] unfolding awake_sleeping_process_def by auto
  have "if - p_wake_time pr < time_counter k then p \<in> set (queues k' Q_act) else p \<in> set (queues k' Q_asleep)"
    if p: "p \<in> set (queues k Q_asleep)" "heap k p = Some pr" for p pr
  proof -
    have "W p = Some (wake_at pr)" using p by (simp add: W_def)
    then have "(\<exists>r. p \<in> set (queues k' Q_asleep) \<and> heap k' p = Some r \<and> wake_at r = wake_at pr) \<or>
        (p \<in> set (queues k' Q_act) \<and> wake_at pr < current_clock k')"
      using k'(3) unfolding waking_def by blast
    then show ?thesis using late k'(4) by (fastforce simp: wake_at_def current_clock_def)
  qed
  then show ?thesis using k' by blast
qed

theorem sleepers_woken_in_time_witness:
  "\<exists>k'. awake_sleeping_process ((sleeping_kernel 5)\<lparr>time_counter := 6\<rparr>) = Inr k' \<and> 4 \<in> set (queues k' Q_act)"
proof -
  let ?k = "(sleeping_kernel 5)\<lparr>time_counter := 6\<rparr>"
  have "benign (sleeping_kernel 5) ?k" by (simp add: benign_def option.rel_refl stable_def)
  then have w: "kwf ?k" using sleeping_kwf benign_kwf by blast
  have "\<exists>k'. awake_sleeping_process ?k = Inr k' \<and> kwf k' \<and> (\<forall>p pr. p \<in> set (queues ?k Q_asleep) \<longrightarrow> heap ?k p = Some pr \<longrightarrow>
     (if - p_wake_time pr < time_counter ?k then p \<in> set (queues k' Q_act) else p \<in> set (queues k' Q_asleep)))"
    by (rule sleepers_woken_in_time [OF w]) (simp_all add: sleepers_ok_def sleeping_kernel_def)
  then show ?thesis by (auto simp: sleeping_kernel_def)
qed

text \<open>
  A process that sleeps until time 0 is never woken, and while it sleeps no other process is: at any
  time the waking step returns with nothing changed.
\<close>

theorem sleeper_at_zero_blocks:
  assumes "kwf k" "sleepers_ok k" "p \<in> set (queues k Q_asleep)" "heap k p = Some pr" "p_wake_time pr = 0"
  shows "awake_sleeping_process (k\<lparr>time_counter := t\<rparr>) = Inr (k\<lparr>time_counter := t\<rparr>)"
proof -
  let ?k = "k\<lparr>time_counter := t\<rparr>"
  obtain l lr where l: "heap k l = Some lr" "get_next_wake_time k = Inr (wake_at lr)" "wake_at lr \<le> wake_at pr"
    using last_sleeper [OF assms(1-4)] by metis
  have "wake_at lr = 0" using l(3) assms(5) by (simp add: wake_at_def)
  moreover have "get_next_wake_time ?k = get_next_wake_time k" by (simp add: get_next_wake_time_def kq_top_def dref_def Let_def)
  ultimately have "get_next_wake_time ?k = Inr 0" using l(2) by simp
  then show ?thesis by (simp add: awake_sleeping_process_def)
qed

theorem sleeper_at_zero_blocks_witness:
  "awake_sleeping_process ((sleeping_kernel 0)\<lparr>time_counter := 100\<rparr>) = Inr ((sleeping_kernel 0)\<lparr>time_counter := 100\<rparr>)"
  by (rule sleeper_at_zero_blocks [OF sleeping_kwf, where p = 4
        and pr = "(plain_process 4 7 ASLEEP (Some Q_asleep))\<lparr>p_wake_time := 0\<rparr>"])
    (simp_all add: sleepers_ok_def sleeping_kernel_def)

end
