(* ===== verification/Console.thy ===== *)
theory Console
  imports Semaphore Bytes
begin

text \<open>
  The console: the line buffer of \<^verbatim>\<open>src/kernel/drivers/console.c\<close>, reading in
  \<^verbatim>\<open>input-output/cons_read.c\<close>, writing in \<^verbatim>\<open>cons_write.c\<close> and the keyboard interrupt of \<^verbatim>\<open>keyboard.c\<close>.
  The buffer is a ring with the index of its first character and of the last one written, -1 when it is
  empty. What the device prints is the list \<open>co_out\<close>; the outcomes of \<^verbatim>\<open>putchar\<close> are \<open>co_put\<close>, when it is
  used up it succeeds.
\<close>

section \<open>State\<close>

definition BUFFER_SIZE :: nat where "BUFFER_SIZE = 200"

record console_t =
  co_ignore :: bool
  co_buffer :: "byte list"
  co_last :: int
  co_start :: int
  co_echo :: bool
  co_out :: "int list"
  co_put :: "bool list"

record cworld =
  cw_kernel :: kernel
  cw_console :: console_t
  cw_processing :: input_t

definition putchar :: "int \<Rightarrow> console_t \<Rightarrow> bool \<times> console_t" where
  "putchar ch c =
     (case co_put c of
        [] \<Rightarrow> (True, c\<lparr>co_out := co_out c @ [ch]\<rparr>)
      | ok # oks \<Rightarrow> (ok, c\<lparr>co_put := oks, co_out := (if ok then co_out c @ [ch] else co_out c)\<rparr>))"

definition emit :: "int \<Rightarrow> console_t \<Rightarrow> console_t" where
  "emit ch c = snd (putchar ch c)"

section \<open>The buffer\<close>

definition is_buffer_full :: "console_t \<Rightarrow> bool" where
  "is_buffer_full c \<longleftrightarrow> co_last c \<noteq> -1 \<and> (co_last c + 1) smod int BUFFER_SIZE = co_start c"

definition is_buffer_empty :: "console_t \<Rightarrow> bool" where
  "is_buffer_empty c \<longleftrightarrow> co_last c = -1"

definition buf_at :: "int \<Rightarrow> console_t \<Rightarrow> byte res" where
  "buf_at i c = (if 0 \<le> i \<and> i < int (length (co_buffer c)) then Inr (co_buffer c ! nat i) else Inl Out_of_bounds)"

definition set_buf :: "int \<Rightarrow> byte \<Rightarrow> console_t \<Rightarrow> console_t res" where
  "set_buf i v c =
     (if 0 \<le> i \<and> i < int (length (co_buffer c)) then Inr (c\<lparr>co_buffer := (co_buffer c)[nat i := v]\<rparr>) else Inl Out_of_bounds)"

definition kaddtobuffer :: "byte \<Rightarrow> console_t \<Rightarrow> console_t res" where
  "kaddtobuffer v c =
     (if is_buffer_full c then Inr c
      else let i = (co_last c + 1) smod int BUFFER_SIZE in set_buf i v (c\<lparr>co_last := i\<rparr>))"

definition mod_buf :: "int \<Rightarrow> int \<Rightarrow> int" where
  "mod_buf a b = (let r = a smod b in if r < 0 then r + b else r)"

definition buffer_current_size :: "console_t \<Rightarrow> nat" where
  "buffer_current_size c = nat (mod_buf ((co_last c - co_start c) + 1) (int BUFFER_SIZE))"

definition register_console :: "console_t \<Rightarrow> console_t" where
  "register_console c = c\<lparr>co_ignore := False, co_last := -1, co_start := 0, co_echo := True\<rparr>"

definition cons_echo :: "int \<Rightarrow> console_t \<Rightarrow> console_t" where
  "cons_echo on c = c\<lparr>co_echo := on \<noteq> 0\<rparr>"

section \<open>Reading\<close>

definition NL :: byte where "NL = 10"

text \<open>The index goes around the buffer at most once.\<close>

fun eol_loop :: "nat \<Rightarrow> int \<Rightarrow> console_t \<Rightarrow> int res" where
  "eol_loop 0 i c = Inl No_return"
| "eol_loop (Suc n) i c =
     (if i = co_last c then Inr i
      else rbind (buf_at i c) (\<lambda>v. if v = NL then Inr i else eol_loop n ((i + 1) mod int BUFFER_SIZE) c))"

definition detected_eol :: "console_t \<Rightarrow> bool res" where
  "detected_eol c =
     (if is_buffer_empty c then Inr False
      else rbind (eol_loop (Suc BUFFER_SIZE) (co_start c) c) (\<lambda>i. rbind (buf_at i c) (\<lambda>v. Inr (v = NL))))"

text \<open>The loop of \<^verbatim>\<open>copy\<close>: the bytes so far, the index it stops at and the buffer.\<close>

fun copy_loop :: "nat \<Rightarrow> nat \<Rightarrow> int \<Rightarrow> byte list \<Rightarrow> console_t \<Rightarrow> (byte list \<times> int \<times> console_t) res" where
  "copy_loop 0 len i acc c = Inl No_return"
| "copy_loop (Suc n) len i acc c =
     (if \<not> length acc < len then Inr (acc, i, c)
      else rbind (buf_at i c) (\<lambda>v.
        if v \<noteq> NL \<and> i \<noteq> co_last c then
          rbind (set_buf i 0 c) (\<lambda>c1. copy_loop n len ((i + 1) mod int BUFFER_SIZE) (acc @ [v]) c1)
        else Inr (acc, i, c)))"

definition reset_buf :: "console_t \<Rightarrow> console_t" where
  "reset_buf c = c\<lparr>co_start := 0, co_last := -1\<rparr>"

definition copy :: "nat \<Rightarrow> bool \<Rightarrow> console_t \<Rightarrow> (byte list \<times> console_t) res" where
  "copy len copy_all c =
     rbind (rassert (co_last c \<noteq> -1)) (\<lambda>_.
     rbind (copy_loop (Suc BUFFER_SIZE) len (co_start c) [] c) (\<lambda>(acc, i, c1).
     if length acc \<ge> len then Inr (acc, c1\<lparr>co_start := i\<rparr>)
     else rbind (buf_at i c1) (\<lambda>v.
       if i = co_last c1 \<and> v \<noteq> NL then rbind (set_buf i 0 c1) (\<lambda>c2. Inr (acc @ [v], reset_buf c2))
       else if i = co_last c1 \<and> v = NL then Inr (if copy_all then acc @ [v] else acc, reset_buf c1)
       else if v = NL then rbind (set_buf i 0 c1) (\<lambda>c2. Inr (acc, c2\<lparr>co_start := (i + 1) mod int BUFFER_SIZE\<rparr>))
       else Inr (acc, c1))))"

text \<open>
  A call of \<^verbatim>\<open>cons_read\<close> up to where it loses the processor: \<open>None\<close>, and the call goes on with the same
  test when it runs again. Without a running process the loop spins.
\<close>

definition must_wait :: "nat \<Rightarrow> console_t \<Rightarrow> bool res" where
  "must_wait len c =
     rbind (detected_eol c) (\<lambda>eol. Inr (\<not> eol \<and> \<not> is_buffer_full c \<and> len > buffer_current_size c))"

definition block_on_io :: "ptr \<Rightarrow> kernel \<Rightarrow> kernel res" where
  "block_on_io proc k =
     rbind (pmod proc (\<lambda>pr. pr\<lparr>p_state := BLOCKEDIO\<rparr>) k) (\<lambda>k1. rbind (kq_add proc Q_io k1) scheduler)"

definition cons_read :: "nat \<Rightarrow> cworld \<Rightarrow> (byte list option \<times> cworld) res" where
  "cons_read len w =
     (if len = 0 then Inr (Some [], w)
      else rbind (must_wait len (cw_console w)) (\<lambda>waits.
        if waits then
          (let proc = get_current_process (cw_kernel w) in
           if proc = 0 then Inl No_return
           else rbind (block_on_io proc (cw_kernel w)) (\<lambda>k. Inr (None, w\<lparr>cw_kernel := k\<rparr>)))
        else rbind (copy len False (cw_console w)) (\<lambda>(bs, c). Inr (Some bs, w\<lparr>cw_console := c\<rparr>))))"

text \<open>The read operation of the terminal device (\<^verbatim>\<open>chdev.c\<close>), which does not look for the end of a line.\<close>

definition local_cons_read :: "nat \<Rightarrow> cworld \<Rightarrow> (byte list option \<times> cworld) res" where
  "local_cons_read len w =
     (if len = 0 then Inr (Some [], w)
      else if \<not> is_buffer_full (cw_console w) \<and> len > buffer_current_size (cw_console w) then
        rbind (block_on_io (get_current_process (cw_kernel w)) (cw_kernel w)) (\<lambda>k. Inr (None, w\<lparr>cw_kernel := k\<rparr>))
      else rbind (copy len True (cw_console w)) (\<lambda>(bs, c). Inr (Some bs, w\<lparr>cw_console := c\<rparr>)))"

section \<open>Writing\<close>

fun cons_write :: "byte list \<Rightarrow> console_t \<Rightarrow> nat \<times> console_t" where
  "cons_write [] c = (0, c)"
| "cons_write (b # bs) c =
     (let (ok, c1) = putchar (uint b) c in
      if ok then (let (n, c2) = cons_write bs c1 in (Suc n, c2)) else (0, c1))"

section \<open>The keyboard\<close>

definition BSH :: int where "BSH = 8"
definition BSK :: int where "BSK = 127"
definition DL :: int where "DL = 21"
definition DW :: int where "DW = 23"
definition HT :: int where "HT = 9"
definition LF :: int where "LF = 10"
definition CR :: int where "CR = 13"

definition is_printable :: "byte \<Rightarrow> bool" where
  "is_printable c \<longleftrightarrow> uint c < 127 \<and> uint c > 31"

text \<open>\<^verbatim>\<open>buffer[last_written_char_index - 1]\<close>; the byte before the array is the field \<^verbatim>\<open>ignore\<close>.\<close>

definition before_last :: "console_t \<Rightarrow> byte res" where
  "before_last c = (if co_last c = 0 then Inr (if co_ignore c then 1 else 0) else buf_at (co_last c - 1) c)"

definition delete_last :: "console_t \<Rightarrow> console_t res" where
  "delete_last c =
     rbind (set_buf (co_last c) 0 c) (\<lambda>c1.
     Inr (emit BSH (emit 32 (emit BSH (c1\<lparr>co_last := co_last c1 - 1\<rparr>)))))"

definition erase_char :: "console_t \<Rightarrow> console_t res" where
  "erase_char c =
     (if co_last c = -1 then Inr c else rbind (before_last c) (\<lambda>v. if v \<noteq> 13 then delete_last c else Inr c))"

text \<open>The loop of the two commands that erase while the character before the last satisfies a test.\<close>

fun erase_while :: "nat \<Rightarrow> (byte \<Rightarrow> bool) \<Rightarrow> bool \<Rightarrow> console_t \<Rightarrow> console_t res" where
  "erase_while 0 test erases c = Inl No_return"
| "erase_while (Suc n) test erases c =
     (if co_last c = -1 then Inr c
      else rbind (before_last c) (\<lambda>v.
        if \<not> test v then Inr c
        else rbind (if erases then delete_last c else Inr c) (\<lambda>c1. erase_while n test erases c1)))"

definition erase_line :: "console_t \<Rightarrow> console_t res" where
  "erase_line c = erase_while (Suc (nat (co_last c + 1))) (\<lambda>v. v \<noteq> 13) True c"

text \<open>Nothing is erased while the echo is off, and then the loops do not end.\<close>

definition erase_word :: "console_t \<Rightarrow> console_t res" where
  "erase_word c =
     rbind (erase_while (Suc (nat (co_last c + 1))) (\<lambda>v. v = 32) (co_echo c) c) (\<lambda>c1.
     erase_while (Suc (nat (co_last c1 + 1))) (\<lambda>v. v \<noteq> 32) (co_echo c1) c1)"

fun add_spaces :: "nat \<Rightarrow> console_t \<Rightarrow> console_t res" where
  "add_spaces 0 c = Inr c"
| "add_spaces (Suc n) c = rbind (kaddtobuffer 32 (emit 32 c)) (add_spaces n)"

definition echo :: "int \<Rightarrow> console_t \<Rightarrow> console_t" where
  "echo ch c = (if co_echo c then emit ch c else c)"

definition process_key :: "input_t \<Rightarrow> int \<Rightarrow> console_t \<Rightarrow> console_t res" where
  "process_key ty ch c =
     (let v = of_int ch :: byte in
      if ty = RAW_INPUT then kaddtobuffer v c
      else if is_printable v then rbind (kaddtobuffer v c) (\<lambda>c1. Inr (echo ch c1))
      else if ch = HT then add_spaces (nat (8 - co_last c smod 8)) c
      else if ch = BSK \<or> ch = BSH then erase_char c
      else if ch = LF then rbind (kaddtobuffer v c) (\<lambda>c1. Inr (echo 10 c1))
      else if ch = DL then erase_line c
      else if ch = DW then erase_word c
      else if ch = CR then rbind (kaddtobuffer NL c) (\<lambda>c1. Inr (echo 10 c1))
      else Inr c)"

definition handle_keyboard_interrupt :: "int \<Rightarrow> cworld \<Rightarrow> cworld res" where
  "handle_keyboard_interrupt ch w =
     rbind (kq_out Q_io (cw_kernel w)) (\<lambda>(nxt, k1).
     rbind (if nxt = 0 then Inr (cw_processing w) else rbind (dref nxt k1) (\<lambda>pr. Inr (p_input_type pr))) (\<lambda>ty.
     rbind (process_key ty ch (cw_console w)) (\<lambda>c.
     rbind (if nxt = 0 then Inr k1
            else rbind (pmod nxt (\<lambda>pr. pr\<lparr>p_state := ACTIVATABLE\<rparr>) k1) (\<lambda>k2. rbind (kq_add nxt Q_act k2) scheduler)) (\<lambda>k3.
     Inr (w\<lparr>cw_kernel := k3, cw_console := c, cw_processing := ty\<rparr>)))))"

end
