(* ===== verification/ConsoleProps.thy ===== *)
theory ConsoleProps
  imports Console
begin

text \<open>
  Properties of the console: a line that is typed is read as it is, and two ways in which the editing keys
  break it.
\<close>

section \<open>Typing\<close>

text \<open>Keys that are pressed one after the other, with no process waiting.\<close>

fun press :: "int list \<Rightarrow> console_t \<Rightarrow> console_t res" where
  "press [] c = Inr c"
| "press (k # ks) c = rbind (process_key CONSOLE_INPUT k c) (press ks)"

text \<open>The buffer holds the bytes from its start on, and nothing was read yet.\<close>

definition holds_text :: "byte list \<Rightarrow> console_t \<Rightarrow> bool" where
  "holds_text bs c \<longleftrightarrow> length (co_buffer c) = BUFFER_SIZE \<and> co_start c = 0 \<and> co_last c = int (length bs) - 1 \<and>
     take (length bs) (co_buffer c) = bs \<and> length bs \<le> BUFFER_SIZE"

lemma emit_fields [simp]:
  "co_buffer (emit ch c) = co_buffer c" "co_last (emit ch c) = co_last c" "co_start (emit ch c) = co_start c"
  "co_echo (emit ch c) = co_echo c" "co_ignore (emit ch c) = co_ignore c"
  by (simp_all add: emit_def putchar_def split: list.split)

lemma echo_fields [simp]:
  "co_buffer (echo ch c) = co_buffer c" "co_last (echo ch c) = co_last c" "co_start (echo ch c) = co_start c"
  "co_echo (echo ch c) = co_echo c" "co_ignore (echo ch c) = co_ignore c"
  by (simp_all add: echo_def)

lemma holds_text_echo [simp]: "holds_text bs (echo ch c) = holds_text bs c"
  by (simp add: holds_text_def)

lemma smod_small: "0 \<le> a \<Longrightarrow> a < b \<Longrightarrow> a smod b = (a :: int)"
  by (simp add: signed_modulo_int_def sgn_if)

lemma add_char:
  assumes "holds_text bs c" "length bs < BUFFER_SIZE"
  obtains c' where "kaddtobuffer v c = Inr c'" "holds_text (bs @ [v]) c'" "co_echo c' = co_echo c"
proof -
  let ?n = "length bs"
  have s: "int ?n smod int BUFFER_SIZE = int ?n" using assms(2) by (intro smod_small) simp_all
  have nf: "\<not> is_buffer_full c" using assms s by (auto simp: is_buffer_full_def holds_text_def)
  have "take (Suc ?n) ((co_buffer c)[?n := v]) = take ?n ((co_buffer c)[?n := v]) @ [(co_buffer c)[?n := v] ! ?n]"
    using assms by (intro take_Suc_conv_app_nth) (simp add: holds_text_def)
  then have "take (Suc ?n) ((co_buffer c)[?n := v]) = bs @ [v]" using assms by (simp add: holds_text_def)
  then show thesis
    using that [of "c\<lparr>co_last := int ?n, co_buffer := (co_buffer c)[?n := v]\<rparr>"] assms nf s
    by (simp add: kaddtobuffer_def set_buf_def holds_text_def)
qed

lemma printable_NL [simp]: "\<not> is_printable NL"
  by (simp add: is_printable_def NL_def)

lemma press_text:
  assumes "holds_text bs c" "\<forall>x \<in> set ws. is_printable x" "length bs + length ws \<le> BUFFER_SIZE"
  shows "\<exists>c'. press (map uint ws) c = Inr c' \<and> holds_text (bs @ ws) c'"
  using assms
proof (induction ws arbitrary: bs c)
  case (Cons x ws)
  have "length bs < BUFFER_SIZE" using Cons.prems(3) by simp
  then obtain c1 where c1: "kaddtobuffer x c = Inr c1" "holds_text (bs @ [x]) c1" using add_char [OF Cons.prems(1), of x] by blast
  then have "\<exists>c'. press (map uint ws) (echo (uint x) c1) = Inr c' \<and> holds_text ((bs @ [x]) @ ws) c'"
    using Cons.prems by (intro Cons.IH) simp_all
  then show ?case using c1(1) Cons.prems(2) by (simp add: process_key_def)
qed simp

lemma press_snoc: "press (ks @ [k]) c = rbind (press ks c) (process_key CONSOLE_INPUT k)"
proof (induction ks arbitrary: c)
  case (Cons x ks)
  then show ?case by (cases "process_key CONSOLE_INPUT x c") simp_all
next
  case Nil
  show ?case by (cases "process_key CONSOLE_INPUT k c") simp_all
qed

lemma press_line:
  assumes "holds_text [] c" "\<forall>x \<in> set ws. is_printable x" "length ws < BUFFER_SIZE"
  obtains c' where "press (map uint ws @ [CR]) c = Inr c'" "holds_text (ws @ [NL]) c'"
proof -
  obtain c1 where c1: "press (map uint ws) c = Inr c1" "holds_text ws c1" using press_text [of "[]" c ws] assms by auto
  obtain c2 where c2: "kaddtobuffer NL c1 = Inr c2" "holds_text (ws @ [NL]) c2" using add_char [OF c1(2) assms(3), of NL] by blast
  have "process_key CONSOLE_INPUT CR c1 = Inr (echo 10 c2)"
    using c2(1) by (simp add: process_key_def CR_def is_printable_def HT_def BSK_def BSH_def LF_def DL_def DW_def)
  then show thesis using that c1(1) c2(2) by (simp add: press_snoc)
qed

section \<open>Reading a line\<close>

lemma holds_nth: "holds_text bs c \<Longrightarrow> i < length bs \<Longrightarrow> buf_at (int i) c = Inr (bs ! i)"
  unfolding holds_text_def buf_at_def by (metis (no_types, lifting) nat_int nth_take of_nat_0_le_iff of_nat_less_iff order_less_le_trans)

lemma eol_line:
  assumes "holds_text (ws @ [NL]) c" "NL \<notin> set ws" "j \<le> length ws" "length ws - j < n"
  shows "eol_loop n (int j) c = Inr (int (length ws))"
  using assms(3,4)
proof (induction n arbitrary: j)
  case (Suc n)
  have l: "co_last c = int (length ws)" "length ws < BUFFER_SIZE" using assms(1) by (simp_all add: holds_text_def)
  show ?case
  proof (cases "j = length ws")
    case False
    then have j: "j < length ws" using Suc.prems by simp
    have "buf_at (int j) c = Inr (ws ! j)" using holds_nth [OF assms(1), of j] j by (simp add: nth_append)
    moreover have "ws ! j \<noteq> NL" using j assms(2) nth_mem by metis
    moreover have "(int j + 1) mod int BUFFER_SIZE = int (Suc j)" using j l by simp
    ultimately show ?thesis using Suc.IH [of "Suc j"] Suc.prems j l by (simp add: add.commute)
  qed (simp add: l)
qed simp

lemma copy_line:
  assumes "NL \<notin> set ws" "length ws < len" "j \<le> length ws" "length ws - j < n"
    "length (co_buffer c) = BUFFER_SIZE" "co_last c = int (length ws)" "length ws < BUFFER_SIZE"
    "drop j (take (Suc (length ws)) (co_buffer c)) = drop j ws @ [NL]"
  shows "\<exists>c1. copy_loop n len (int j) (take j ws) c = Inr (ws, int (length ws), c1) \<and> length (co_buffer c1) = BUFFER_SIZE \<and>
    co_last c1 = co_last c \<and> buf_at (int (length ws)) c1 = Inr NL"
  using assms(3-)
proof (induction n arbitrary: j c)
  case (Suc n)
  let ?m = "length ws"
  let ?t = "take (Suc ?m) (co_buffer c)"
  have lt: "length ?t = Suc ?m" using Suc.prems(3,5) by simp
  have at: "co_buffer c ! j = (drop j ws @ [NL]) ! 0"
  proof -
    have "drop j ?t ! 0 = ?t ! j" using lt Suc.prems(1) by simp
    then show ?thesis using Suc.prems(1,6) by simp
  qed
  have b: "buf_at (int j) c = Inr (co_buffer c ! j)" using Suc.prems(1,3,5) by (simp add: buf_at_def)
  show ?case
  proof (cases "j = ?m")
    case True
    then show ?thesis using b at Suc.prems assms(2) by simp
  next
    case False
    then have j: "j < ?m" using Suc.prems(1) by simp
    have v: "co_buffer c ! j = ws ! j" using at j by (simp add: Cons_nth_drop_Suc [symmetric])
    moreover have "ws ! j \<noteq> NL" using j assms(1) nth_mem by metis
    moreover have "int j \<noteq> co_last c" using j Suc.prems(4) by simp
    moreover have e: "(int j + 1) mod int BUFFER_SIZE = int (Suc j)" using j Suc.prems(5) by simp
    moreover have s: "set_buf (int j) 0 c = Inr (c\<lparr>co_buffer := (co_buffer c)[j := 0]\<rparr>)" (is "_ = Inr ?c1")
      using j Suc.prems(3,5) by (simp add: set_buf_def)
    moreover have "take j ws @ [ws ! j] = take (Suc j) ws" using j by (simp add: take_Suc_conv_app_nth)
    moreover have "length (take j ws) < len" using j assms(2) by simp
    ultimately have step: "copy_loop (Suc n) len (int j) (take j ws) c = copy_loop n len (int (Suc j)) (take (Suc j) ws) ?c1"
      using b by simp
    have "drop (Suc j) ?t = drop (Suc j) ws @ [NL]"
      using arg_cong [OF Suc.prems(6), of tl] j by (simp add: drop_Suc tl_drop)
    then have "drop (Suc j) (take (Suc ?m) (co_buffer ?c1)) = drop (Suc j) ws @ [NL]"
      by (simp add: take_update_swap)
    then have "\<exists>c1. copy_loop n len (int (Suc j)) (take (Suc j) ws) ?c1 = Inr (ws, int ?m, c1) \<and> length (co_buffer c1) = BUFFER_SIZE \<and>
        co_last c1 = co_last ?c1 \<and> buf_at (int ?m) c1 = Inr NL"
      using j Suc.prems by (intro Suc.IH) simp_all
    then show ?thesis using step by simp
  qed
qed simp

lemma read_line:
  assumes t: "holds_text (ws @ [NL]) c" "NL \<notin> set ws" and l: "length ws < len"
  shows "must_wait len c = Inr False" "\<exists>c'. copy len False c = Inr (ws, c') \<and> holds_text [] c'"
proof -
  let ?m = "length ws"
  have c: "length (co_buffer c) = BUFFER_SIZE" "co_last c = int ?m" "co_start c = 0" "?m < BUFFER_SIZE"
    "take (Suc ?m) (co_buffer c) = ws @ [NL]" using t(1) by (simp_all add: holds_text_def)
  have "eol_loop (Suc BUFFER_SIZE) (int 0) c = Inr (int ?m)" using t c(4) by (intro eol_line) auto
  moreover have "buf_at (int ?m) c = Inr NL" using holds_nth [OF t(1), of ?m] by simp
  ultimately have "detected_eol c = Inr True" using c by (simp add: detected_eol_def is_buffer_empty_def)
  then show "must_wait len c = Inr False" by (simp add: must_wait_def)
  have "\<exists>c1. copy_loop (Suc BUFFER_SIZE) len (int 0) (take 0 ws) c = Inr (ws, int ?m, c1) \<and> length (co_buffer c1) = BUFFER_SIZE \<and>
      co_last c1 = co_last c \<and> buf_at (int ?m) c1 = Inr NL"
    using t l c by (intro copy_line) auto
  then obtain c1 where c1: "copy_loop (Suc BUFFER_SIZE) len 0 [] c = Inr (ws, int ?m, c1)" "length (co_buffer c1) = BUFFER_SIZE"
    "co_last c1 = int ?m" "buf_at (int ?m) c1 = Inr NL" using c by auto
  then have "copy len False c = Inr (ws, reset_buf c1)" using l c by (simp add: copy_def)
  then show "\<exists>c'. copy len False c = Inr (ws, c') \<and> holds_text [] c'"
    using c1(2) by (simp add: holds_text_def reset_buf_def)
qed

section \<open>Erasing\<close>

lemma erase_while_stuck: "co_last c \<noteq> -1 \<Longrightarrow> before_last c = Inr v \<Longrightarrow> test v \<Longrightarrow> erase_while n test False c = Inl No_return"
  by (induction n) simp_all

lemma before_last_ok:
  assumes "length (co_buffer c) = BUFFER_SIZE" "0 \<le> co_last c" "co_last c < int BUFFER_SIZE"
  obtains v where "before_last c = Inr v"
  using assms by (cases "co_last c = 0") (auto simp: before_last_def buf_at_def)

lemma erase_char_text:
  assumes "length (co_buffer c) = BUFFER_SIZE" "0 \<le> co_last c" "co_last c < int BUFFER_SIZE" "before_last c \<noteq> Inr 13"
  obtains c' where "process_key CONSOLE_INPUT BSH c = Inr c'" "co_last c' = co_last c - 1" "co_start c' = co_start c"
    "co_buffer c' = (co_buffer c)[nat (co_last c) := 0]"
proof -
  obtain v where v: "before_last c = Inr v" "v \<noteq> 13" using before_last_ok [OF assms(1-3)] assms(4) by metis
  have "\<not> is_printable (of_int BSH)" by (simp add: is_printable_def BSH_def)
  then have "process_key CONSOLE_INPUT BSH c = erase_char c" by (simp add: process_key_def BSH_def HT_def)
  moreover obtain c' where "delete_last c = Inr c'" "co_last c' = co_last c - 1" "co_start c' = co_start c"
    "co_buffer c' = (co_buffer c)[nat (co_last c) := 0]"
    using assms by (auto simp: delete_last_def set_buf_def)
  ultimately show thesis using that v assms(2) by (simp add: erase_char_def)
qed

text \<open>A console of 200 characters as it is registered, with a kernel that has no process.\<close>

definition new_console :: console_t where
  "new_console = register_console
     \<lparr>co_ignore = True, co_buffer = replicate BUFFER_SIZE 0, co_last = 0, co_start = 0, co_echo = False, co_out = [], co_put = []\<rparr>"

lemma new_console_text [simp]: "holds_text [] new_console"
  by (simp add: new_console_def register_console_def holds_text_def)

section \<open>Properties\<close>

text \<open>
  C24. A line of printable characters that is typed into the empty buffer and ended by return is read as
  it was typed, whatever was echoed, by a call with room for more characters, and leaves the buffer empty.
\<close>

theorem typed_line_is_read:
  assumes "holds_text [] c" "\<forall>x \<in> set ws. is_printable x" "length ws < BUFFER_SIZE" "length ws < len"
  shows "\<exists>c1 c2. press (map uint ws @ [CR]) c = Inr c1 \<and>
     cons_read len (w\<lparr>cw_console := c1\<rparr>) = Inr (Some ws, w\<lparr>cw_console := c2\<rparr>) \<and> holds_text [] c2"
proof -
  obtain c1 where c1: "press (map uint ws @ [CR]) c = Inr c1" "holds_text (ws @ [NL]) c1" using press_line assms(1-3) by blast
  have "NL \<notin> set ws" using assms(2) by auto
  then obtain c2 where "must_wait len c1 = Inr False" "copy len False c1 = Inr (ws, c2)" "holds_text [] c2"
    using read_line [OF c1(2) _ assms(4)] by blast
  then show ?thesis using c1(1) assms(4) by (auto simp: cons_read_def)
qed

theorem typed_line_is_read_witness:
  "\<forall>w. \<exists>c1 c2. press (map uint [104, 105 :: byte] @ [CR]) new_console = Inr c1 \<and>
     cons_read 10 (w\<lparr>cw_console := c1\<rparr>) = Inr (Some [104, 105], w\<lparr>cw_console := c2\<rparr>) \<and> holds_text [] c2"
  by (intro allI typed_line_is_read) (simp_all add: is_printable_def BUFFER_SIZE_def)

text \<open>
  Erasing a character that was read already stops the machine: after two characters are typed, one is
  read and backspace is pressed twice, the next read fails the assertion of \<^verbatim>\<open>copy\<close>.
\<close>

theorem erase_after_read_halts:
  assumes "is_printable a" "is_printable b" "0 < len" "len < BUFFER_SIZE"
  shows "\<exists>c1 c2 c3. press [uint a, uint b] new_console = Inr c1 \<and>
     cons_read 1 (w\<lparr>cw_console := c1\<rparr>) = Inr (Some [a], w\<lparr>cw_console := c2\<rparr>) \<and>
     press [BSH, BSH] c2 = Inr c3 \<and> cons_read len (w\<lparr>cw_console := c3\<rparr>) = Inl Assert_fail"
proof -
  obtain c1 where p: "press (map uint [a, b]) new_console = Inr c1" "holds_text ([] @ [a, b]) c1"
    using press_text [of "[]" new_console "[a, b]"] assms(1,2) by (auto simp: BUFFER_SIZE_def)
  then have f: "length (co_buffer c1) = 200" "co_last c1 = 1" "co_start c1 = 0" "take 2 (co_buffer c1) = [a, b]"
    by (simp_all add: holds_text_def BUFFER_SIZE_def numeral_2_eq_2)
  have n: "co_buffer c1 ! 0 = a" "co_buffer c1 ! 1 = b"
    using arg_cong [OF f(4), of "\<lambda>l. l ! 0"] arg_cong [OF f(4), of "\<lambda>l. l ! 1"] by simp_all
  have nl: "a \<noteq> NL" "b \<noteq> NL" "a \<noteq> 13" using assms(1,2) by (auto simp: is_printable_def NL_def)
  have fuel: "Suc BUFFER_SIZE = Suc (Suc 199)" and m: "1 mod int BUFFER_SIZE = 1" by (simp_all add: BUFFER_SIZE_def)
  have at: "buf_at 0 c1 = Inr a" "buf_at 1 c1 = Inr b" using f(1) n by (simp_all add: buf_at_def)
  have "eol_loop (Suc (Suc k)) 0 c1 = Inr 1" for k using f(2) at nl m by simp
  then have "eol_loop (Suc BUFFER_SIZE) 0 c1 = Inr 1" unfolding fuel .
  then have eol: "detected_eol c1 = Inr False" using f(2,3) at nl by (simp add: detected_eol_def is_buffer_empty_def del: eol_loop.simps)
  let ?c2 = "c1\<lparr>co_buffer := (co_buffer c1)[0 := 0], co_start := 1\<rparr>"
  have "copy_loop (Suc (Suc k)) 1 0 [] c1 = Inr ([a], 1, c1\<lparr>co_buffer := (co_buffer c1)[0 := 0]\<rparr>)" for k
    using f at nl m by (simp add: set_buf_def)
  then have "copy_loop (Suc BUFFER_SIZE) 1 0 [] c1 = Inr ([a], 1, c1\<lparr>co_buffer := (co_buffer c1)[0 := 0]\<rparr>)" unfolding fuel .
  then have "copy 1 False c1 = Inr ([a], ?c2)" using f(2,3) by (simp add: copy_def del: copy_loop.simps)
  moreover have "must_wait 1 c1 = Inr False"
    using f(2,3) by (simp add: must_wait_def eol buffer_current_size_def mod_buf_def smod_small BUFFER_SIZE_def)
  ultimately have "cons_read 1 (w\<lparr>cw_console := c1\<rparr>) = Inr (Some [a], w\<lparr>cw_console := ?c2\<rparr>)" by (simp add: cons_read_def)
  moreover obtain c3 where c3: "process_key CONSOLE_INPUT BSH ?c2 = Inr c3" "co_last c3 = 0" "co_start c3 = 1" "length (co_buffer c3) = 200"
  proof -
    have e: "length (co_buffer ?c2) = BUFFER_SIZE" "0 \<le> co_last ?c2" "co_last ?c2 < int BUFFER_SIZE" "before_last ?c2 \<noteq> Inr 13"
      using f(1,2) by (simp_all add: before_last_def buf_at_def BUFFER_SIZE_def)
    show thesis
    proof (rule erase_char_text [OF e], rule that)
      fix c'
      assume "co_buffer c' = (co_buffer ?c2)[nat (co_last ?c2) := 0]"
      then have "length (co_buffer c') = length (co_buffer c1)" by (simp only: length_list_update) simp
      then show "length (co_buffer c') = 200" using f(1) by simp
    qed (simp_all add: f(1,2))
  qed
  moreover obtain c4 where "process_key CONSOLE_INPUT BSH c3 = Inr c4" "co_last c4 = -1" "co_start c4 = 1"
  proof -
    have e: "length (co_buffer c3) = BUFFER_SIZE" "0 \<le> co_last c3" "co_last c3 < int BUFFER_SIZE" "before_last c3 \<noteq> Inr 13"
      using c3 by (simp_all add: before_last_def BUFFER_SIZE_def)
    show thesis by (rule erase_char_text [OF e], rule that) (simp_all add: c3)
  qed
  moreover have "cons_read len (w\<lparr>cw_console := c4\<rparr>) = Inl Assert_fail" if "co_last c4 = -1" "co_start c4 = 1" for c4
  proof -
    have "(-1 :: int) smod 200 = -1" by (simp add: signed_modulo_int_def)
    then have "buffer_current_size c4 = 199" using that by (simp add: buffer_current_size_def mod_buf_def BUFFER_SIZE_def)
    then show ?thesis using that assms(3,4)
      by (simp add: cons_read_def must_wait_def detected_eol_def is_buffer_empty_def copy_def BUFFER_SIZE_def)
  qed
  ultimately show ?thesis using p(1) by auto
qed

theorem erase_after_read_halts_witness:
  "\<forall>w. \<exists>c1 c2 c3. press [uint (97 :: byte), uint (98 :: byte)] new_console = Inr c1 \<and>
     cons_read 1 (w\<lparr>cw_console := c1\<rparr>) = Inr (Some [97], w\<lparr>cw_console := c2\<rparr>) \<and>
     press [BSH, BSH] c2 = Inr c3 \<and> cons_read 1 (w\<lparr>cw_console := c3\<rparr>) = Inl Assert_fail"
  by (intro allI erase_after_read_halts) (simp_all add: is_printable_def BUFFER_SIZE_def)

text \<open>
  While the echo is off, the key that erases a word never returns from the interrupt when there is a
  character in the buffer.
\<close>

theorem erase_word_hangs:
  assumes "\<not> co_echo c" "length (co_buffer c) = BUFFER_SIZE" "0 \<le> co_last c" "co_last c < int BUFFER_SIZE"
  shows "process_key CONSOLE_INPUT DW c = Inl No_return"
proof -
  obtain v where v: "before_last c = Inr v" using before_last_ok assms(2-) by blast
  have "\<not> is_printable (of_int DW)" by (simp add: is_printable_def DW_def)
  then have e: "process_key CONSOLE_INPUT DW c = erase_word c"
    by (simp add: process_key_def DW_def HT_def BSK_def BSH_def LF_def DL_def)
  note stuck = erase_while_stuck [OF _ v]
  show ?thesis
  proof (cases "v = 32")
    case True
    then show ?thesis using stuck [of "\<lambda>v. v = 32"] assms(1,3) e by (simp add: erase_word_def)
  next
    case False
    then have "erase_while (Suc n) (\<lambda>v. v = 32) False c = Inr c" for n using v by simp
    moreover have "erase_while n (\<lambda>v. v \<noteq> 32) False c = Inl No_return" for n
      using stuck [of "\<lambda>v. v \<noteq> 32"] False assms(3) by simp
    ultimately show ?thesis using assms(1) e by (simp add: erase_word_def del: erase_while.simps)
  qed
qed

theorem erase_word_hangs_witness:
  "process_key CONSOLE_INPUT DW (cons_echo 0 (new_console\<lparr>co_last := 0\<rparr>)) = Inl No_return"
  by (rule erase_word_hangs) (simp_all add: cons_echo_def new_console_def register_console_def BUFFER_SIZE_def)

end
