(* ===== verification/Paths.thy ===== *)
theory Paths
  imports Bytes
begin

text \<open>
  Path names: \<^verbatim>\<open>strtok\<close> and \<^verbatim>\<open>strrchr\<close> of \<^verbatim>\<open>src/lib/string\<close>, the splitting of a path in
  \<^verbatim>\<open>helperfunc.c\<close> and the steps of \<^verbatim>\<open>get_final_string\<close> of \<^verbatim>\<open>fs/dir_api.c\<close>. A C string is the list of its
  bytes before the terminator. The theory shows that the steps work on the text of a path as a stack of
  names would: they never see the bytes that \<^verbatim>\<open>memset\<close> leaves behind the new terminator.
\<close>

section \<open>C strings\<close>

definition SLASH :: byte where "SLASH = 47"
definition BACKSLASH :: byte where "BACKSLASH = 92"

text \<open>\<^verbatim>\<open>strchr(delimiters, c) != NULL\<close> for the delimiters of a path.\<close>

definition is_delim :: "byte \<Rightarrow> bool" where
  "is_delim c \<longleftrightarrow> c = BACKSLASH \<or> c = SLASH"

text \<open>A call of \<^verbatim>\<open>strtok\<close> with the text behind its saved pointer: the token and the text it saves.\<close>

definition strtok :: "byte list \<Rightarrow> (byte list \<times> byte list) option" where
  "strtok str =
     (case dropWhile is_delim str of
        [] \<Rightarrow> None
      | s \<Rightarrow> Some (takeWhile (\<lambda>c. \<not> is_delim c) s, drop 1 (dropWhile (\<lambda>c. \<not> is_delim c) s)))"

lemma strtok_shorter: "strtok s = Some (t, r) \<Longrightarrow> length r < length s"
proof -
  assume a: "strtok s = Some (t, r)"
  have "dropWhile is_delim s \<noteq> []"
  proof
    assume "dropWhile is_delim s = []"
    then have "strtok s = None" unfolding strtok_def by (simp only: list.case)
    then show False using a by simp
  qed
  moreover have "length (dropWhile is_delim s) \<le> length s" by (rule length_dropWhile_le)
  moreover have "r = drop 1 (dropWhile (\<lambda>c. \<not> is_delim c) (dropWhile is_delim s))"
    using a by (auto simp: strtok_def split: list.splits)
  moreover have "length (dropWhile (\<lambda>c. \<not> is_delim c) (dropWhile is_delim s)) \<le> length (dropWhile is_delim s)"
    by (rule length_dropWhile_le)
  ultimately show "length r < length s" by (cases "dropWhile is_delim s") auto
qed

text \<open>The loop of calls: the tokens of a path. \<^verbatim>\<open>extract_files\<close> runs it twice, to count and to copy.\<close>

function path_tokens :: "byte list \<Rightarrow> byte list list" where
  "path_tokens s = (case strtok s of None \<Rightarrow> [] | Some (t, r) \<Rightarrow> t # path_tokens r)"
  by pat_completeness auto
termination
  by (relation "measure length") (auto dest: strtok_shorter)

declare path_tokens.simps [simp del]

text \<open>The index of the last occurrence, \<open>None\<close> for NULL; it is not used to look for the terminator.\<close>

fun strrchr_from :: "nat \<Rightarrow> byte \<Rightarrow> byte list \<Rightarrow> nat option \<Rightarrow> nat option" where
  "strrchr_from i c [] l = l"
| "strrchr_from i c (x # xs) l = strrchr_from (Suc i) c xs (if x = c then Some i else l)"

definition strrchr :: "byte list \<Rightarrow> byte \<Rightarrow> nat option" where
  "strrchr s c = strrchr_from 0 c s None"

definition is_absolute_directory :: "byte list \<Rightarrow> bool" where
  "is_absolute_directory p = (case p of [] \<Rightarrow> False | c # _ \<Rightarrow> c = SLASH)"

section \<open>The steps of a path\<close>

text \<open>
  The text of the buffer afterwards. \<^verbatim>\<open>memset\<close> clears all but the last of the bytes from the separator
  on: the text is cut there when there is more than one.
\<close>

definition navigate_to_parent_directory :: "byte list \<Rightarrow> byte list" where
  "navigate_to_parent_directory s =
     (if s = [SLASH] then s
      else case strrchr s SLASH of
        None \<Rightarrow> s
      | Some i \<Rightarrow>
          if i = 0 then (if length s - i - 1 > 0 then take (i + 1) s else s)
          else if length s - i - 1 > 0 then take i s else s)"

text \<open>The text of the new buffer when \<^verbatim>\<open>malloc\<close> succeeds.\<close>

definition navigate_to_directory :: "byte list \<Rightarrow> byte list \<Rightarrow> byte list" where
  "navigate_to_directory s addition =
     (if length s = 1 \<and> is_absolute_directory s then s @ addition else s @ [SLASH] @ addition)"

definition DOT :: "byte list" where "DOT = [46]"
definition DOT_DOT :: "byte list" where "DOT_DOT = [46, 46]"

text \<open>The body of the loop over the components of a path.\<close>

definition path_step :: "byte list \<Rightarrow> byte list \<Rightarrow> byte list" where
  "path_step s c =
     (if c = DOT then s else if c = DOT_DOT then navigate_to_parent_directory s else navigate_to_directory s c)"

section \<open>Tokens\<close>

definition name_ok :: "byte list \<Rightarrow> bool" where
  "name_ok c \<longleftrightarrow> c \<noteq> [] \<and> (\<forall>x \<in> set c. \<not> is_delim x)"

lemma strtok_None: "strtok s = None \<longleftrightarrow> (\<forall>c \<in> set s. is_delim c)"
  by (auto simp: strtok_def dropWhile_eq_Nil_conv split: list.splits) (metis dropWhile_eq_Nil_conv list.distinct(1))

lemma strtok_name: "strtok s = Some (t, r) \<Longrightarrow> name_ok t"
  by (auto simp: strtok_def name_ok_def split: list.splits dest: set_takeWhileD)
    (metis hd_dropWhile list.distinct(1) list.sel(1))+

lemma tokens_ok: "\<forall>c \<in> set (path_tokens s). name_ok c"
proof (induction s rule: path_tokens.induct)
  case (1 s)
  show ?case
  proof (cases "strtok s")
    case None
    then show ?thesis by (simp add: path_tokens.simps)
  next
    case (Some tr)
    then obtain t r where tr: "strtok s = Some (t, r)" by (cases tr) auto
    then show ?thesis using 1 strtok_name by (auto simp: path_tokens.simps [of s])
  qed
qed

lemma strtok_after:
  assumes "is_delim d" "name_ok c"
  shows "strtok (d # c) = Some (c, [])" "is_delim e \<Longrightarrow> strtok (d # c @ e # s) = Some (c, s)"
proof -
  obtain x xs where c: "c = x # xs" "\<not> is_delim x" using assms(2) by (cases c) (auto simp: name_ok_def)
  have n: "\<And>y. y \<in> set xs \<Longrightarrow> \<not> is_delim y" using assms(2) c(1) by (simp add: name_ok_def)
  then have "takeWhile (\<lambda>y. \<not> is_delim y) xs = xs" "dropWhile (\<lambda>y. \<not> is_delim y) xs = []"
    by (simp_all add: takeWhile_eq_all_conv dropWhile_eq_Nil_conv)
  then show "strtok (d # c) = Some (c, [])" using assms(1) c by (simp add: strtok_def del: dropWhile_eq_Nil_conv)
  show "strtok (d # c @ e # s) = Some (c, s)" if e: "is_delim e"
    using assms(1) c e n by (simp add: strtok_def takeWhile_append2 dropWhile_append2)
qed

section \<open>A path as a stack of names\<close>

text \<open>The text of the absolute path of a list of names.\<close>

definition render :: "byte list list \<Rightarrow> byte list" where
  "render cs = (if cs = [] then [SLASH] else concat (map (\<lambda>c. SLASH # c) cs))"

definition stack_step :: "byte list list \<Rightarrow> byte list \<Rightarrow> byte list list" where
  "stack_step cs c = (if c = DOT then cs else if c = DOT_DOT then butlast cs else cs @ [c])"

lemma delim_slash [simp]: "is_delim SLASH"
  by (simp add: is_delim_def)

lemma tokens_separated: "\<forall>c \<in> set cs. name_ok c \<Longrightarrow> path_tokens (concat (map (\<lambda>c. SLASH # c) cs)) = cs"
proof (induction cs)
  case Nil
  show ?case by (simp add: path_tokens.simps strtok_def)
next
  case (Cons c cs)
  have e: "path_tokens [] = []" by (simp add: path_tokens.simps strtok_def)
  show ?case
  proof (cases cs)
    case Nil
    then show ?thesis using Cons.prems e by (simp add: path_tokens.simps [of "SLASH # c"] strtok_after)
  next
    case (Cons d ds)
    let ?rest = "concat (map (\<lambda>c. SLASH # c) cs)"
    have drop: "path_tokens (d @ concat (map (\<lambda>c. SLASH # c) ds)) = cs"
    proof -
      have nd: "name_ok d" using Cons.prems Cons by simp
      then have "dropWhile is_delim (SLASH # d @ x) = dropWhile is_delim (d @ x)" for x by simp
      then have "strtok (SLASH # d @ x) = strtok (d @ x)" for x by (simp add: strtok_def)
      then have "path_tokens (SLASH # d @ x) = path_tokens (d @ x)" for x
        by (simp add: path_tokens.simps [of "SLASH # d @ x"] path_tokens.simps [of "d @ x"])
      then show ?thesis using Cons.IH Cons.prems Cons by simp
    qed
    then show ?thesis using Cons.prems Cons by (simp add: path_tokens.simps [of "SLASH # c @ y" for y] strtok_after)
  qed
qed

lemma tokens_render: "\<forall>c \<in> set cs. name_ok c \<Longrightarrow> path_tokens (render cs) = cs"
  by (auto simp: render_def tokens_separated) (simp add: path_tokens.simps strtok_def)

lemma render_snoc: "cs \<noteq> [] \<Longrightarrow> render (cs @ [c]) = render cs @ SLASH # c"
  by (simp add: render_def)

lemma render_absolute [simp]: "is_absolute_directory (render cs)"
  by (cases cs) (simp_all add: render_def is_absolute_directory_def)

lemma render_length: "cs \<noteq> [] \<Longrightarrow> \<forall>c \<in> set cs. name_ok c \<Longrightarrow> length (render cs) \<ge> 2"
  by (cases cs; cases "last cs") (auto simp: render_def name_ok_def neq_Nil_conv)

lemma strrchr_from_append:
  "strrchr_from i c (xs @ ys) l = strrchr_from (i + length xs) c ys (strrchr_from i c xs l)"
  by (induction xs arbitrary: i l) simp_all

lemma strrchr_from_absent: "c \<notin> set xs \<Longrightarrow> strrchr_from i c xs l = l"
  by (induction xs arbitrary: i l) auto

lemma strrchr_last: "name_ok c \<Longrightarrow> strrchr (xs @ SLASH # c) SLASH = Some (length xs)"
proof -
  assume "name_ok c"
  then have "SLASH \<notin> set c" by (auto simp: name_ok_def)
  then show ?thesis by (simp add: strrchr_def strrchr_from_append strrchr_from_absent)
qed

lemma parent_render:
  assumes "\<forall>c \<in> set cs. name_ok c"
  shows "navigate_to_parent_directory (render cs) = render (butlast cs)"
proof (cases cs rule: rev_cases)
  case Nil
  then show ?thesis by (simp add: render_def navigate_to_parent_directory_def)
next
  case (snoc ds c)
  have c: "name_ok c" "c \<noteq> []" using assms snoc by (auto simp: name_ok_def)
  show ?thesis
  proof (cases "ds = []")
    case True
    then have "render cs = [] @ SLASH # c" using snoc by (simp add: render_def)
    then show ?thesis using c snoc True strrchr_last [of c "[]"] by (simp add: navigate_to_parent_directory_def render_def)
  next
    case False
    have r: "render cs = render ds @ SLASH # c" using snoc False by (simp add: render_snoc)
    have "length (render ds) \<noteq> 0" using False by (auto simp: render_def)
    moreover have "length (render cs) - length (render ds) - 1 > 0" "render cs \<noteq> [SLASH]"
      using c(2) \<open>length (render ds) \<noteq> 0\<close> by (cases "render ds"; simp add: r)+
    ultimately have "navigate_to_parent_directory (render cs) = take (length (render ds)) (render cs)"
      using strrchr_last [OF c(1), of "render ds"] by (simp add: navigate_to_parent_directory_def r)
    then have "navigate_to_parent_directory (render cs) = render ds" by (simp add: r)
    moreover have "butlast cs = ds" using snoc by simp
    ultimately show ?thesis by simp
  qed
qed

lemma descend_render:
  assumes "\<forall>c \<in> set cs. name_ok c"
  shows "navigate_to_directory (render cs) c = render (cs @ [c])"
proof (cases "cs = []")
  case True
  then show ?thesis by (simp add: navigate_to_directory_def render_def is_absolute_directory_def)
next
  case False
  then have "length (render cs) \<noteq> 1" using render_length [OF False assms] by simp
  then show ?thesis using False by (simp add: navigate_to_directory_def render_snoc)
qed

lemma stack_step_ok: "\<forall>c \<in> set cs. name_ok c \<Longrightarrow> name_ok d \<Longrightarrow> \<forall>c \<in> set (stack_step cs d). name_ok c"
  by (auto simp: stack_step_def dest: in_set_butlastD)

text \<open>
  What the walk over the components needs of the text of a directory: one step up takes the last name
  away, one step down adds one.
\<close>

locale dir_text =
  fixes repr :: "byte list list \<Rightarrow> 'a" and up :: "'a \<Rightarrow> 'a" and down :: "'a \<Rightarrow> byte list \<Rightarrow> 'a"
  assumes up_text: "\<forall>c \<in> set cs. name_ok c \<Longrightarrow> up (repr cs) = repr (butlast cs)"
    and down_text: "\<forall>c \<in> set cs. name_ok c \<Longrightarrow> name_ok c' \<Longrightarrow> down (repr cs) c' = repr (cs @ [c'])"
begin

lemma one_step:
  "\<forall>c \<in> set cs. name_ok c \<Longrightarrow> name_ok d \<Longrightarrow>
   (if d = DOT then repr cs else if d = DOT_DOT then up (repr cs) else down (repr cs) d) = repr (stack_step cs d)"
  by (simp add: stack_step_def up_text down_text)

lemma all_steps:
  assumes "\<forall>c \<in> set cs. name_ok c" "\<forall>c \<in> set ds. name_ok c"
  shows "foldl (\<lambda>s d. if d = DOT then s else if d = DOT_DOT then up s else down s d) (repr cs) ds = repr (foldl stack_step cs ds) \<and>
    (\<forall>c \<in> set (foldl stack_step cs ds). name_ok c)"
  using assms
proof (induction ds arbitrary: cs)
  case (Cons d ds)
  have "\<forall>c \<in> set (stack_step cs d). name_ok c" using Cons.prems by (intro stack_step_ok) simp_all
  then show ?case
    using Cons.IH [of "stack_step cs d"] Cons.prems(2) one_step [OF Cons.prems(1), of d] by simp
qed simp

end

interpretation dt: dir_text render navigate_to_parent_directory navigate_to_directory
  by unfold_locales (simp_all add: parent_render descend_render)

lemma path_steps_render:
  assumes "\<forall>c \<in> set cs. name_ok c" "\<forall>c \<in> set ds. name_ok c"
  shows "foldl path_step (render cs) ds = render (foldl stack_step cs ds) \<and> (\<forall>c \<in> set (foldl stack_step cs ds). name_ok c)"
proof -
  have "path_step = (\<lambda>s d. if d = DOT then s else if d = DOT_DOT then navigate_to_parent_directory s else navigate_to_directory s d)"
    by (simp add: path_step_def fun_eq_iff)
  then show ?thesis using dt.all_steps [OF assms] by simp
qed

text \<open>No step leaves a dot name on the stack.\<close>

lemma stack_no_dots:
  assumes "DOT \<notin> set cs" "DOT_DOT \<notin> set cs"
  shows "DOT \<notin> set (foldl stack_step cs ds) \<and> DOT_DOT \<notin> set (foldl stack_step cs ds)"
  using assms
proof (induction ds arbitrary: cs)
  case (Cons d ds)
  have "DOT \<notin> set (stack_step cs d)" "DOT_DOT \<notin> set (stack_step cs d)"
    using Cons.prems by (auto simp: stack_step_def dest: in_set_butlastD)
  then show ?case using Cons.IH by simp
qed simp

end
