(* ===== verification/FileTable.thy ===== *)
theory FileTable
  imports Fs Pipe Paths
begin

text \<open>
  The file descriptors of the processes, \<^verbatim>\<open>src/kernel/process/fs_bridge.c\<close>, with the walk along a path
  of \<^verbatim>\<open>fs/inode_util.c\<close>, which starts at the current directory. An open file (\<^verbatim>\<open>flip\<close>) is an object of
  the heap \<open>fw_files\<close> that descriptors of several processes share. The table of a process is the list of
  its links, the head first; \<open>None\<close> is a link that was freed but is still in the list.
\<close>

section \<open>State\<close>

datatype file_type_fd =
  FS_FT_UNKNOWN | FS_FT_PIPE | FS_FT_INODE_FILE | FS_FT_CHRDEV | FS_FT_BLKDEV | FS_FT_FIFO | FS_FT_SOCK

record flip =
  fl_type :: file_type_fd
  fl_position :: s64
  fl_inode :: ptr
  fl_pipe :: ptr
  fl_number :: u32
  fl_usage :: u32
  fl_can_read :: bool
  fl_can_write :: bool
  fl_append :: bool
  fl_sync :: bool

record open_fd =
  of_fd :: int
  of_file :: ptr

text \<open>\<^verbatim>\<open>p_dir_t\<close>: the name is the text before the terminator, \<open>None\<close> for NULL.\<close>

record p_dir_t =
  dir_inode :: ptr
  dir_name :: "byte list option"
  name_size :: u32

text \<open>The part of \<^verbatim>\<open>process_t\<close> that belongs to the file system.\<close>

record fproc =
  root_dir :: p_dir_t
  cur_dir :: p_dir_t
  fd_bitmap :: "byte list"
  open_files :: "open_fd option list"

definition SIZE_BIT_MAP :: nat where "SIZE_BIT_MAP = 64"
definition MAX_FS :: int where "MAX_FS = 512"

datatype rem_type = REMOVE_ALL | ONLY_CLOSE_FILE

text \<open>
  \<open>fw_devices\<close> are the \<^verbatim>\<open>reserved\<close> fields of \<^verbatim>\<open>dev_op\<close>. \<open>fw_stale\<close> is what uninitialised memory happens to
  hold: the fields of a new \<^verbatim>\<open>flip\<close> that nothing sets and the pointers of \<^verbatim>\<open>sys_pipe\<close>.
\<close>

record fworld =
  fw_pw :: pworld
  fw_fs :: ext2
  fw_files :: "ptr \<rightharpoonup> flip"
  fw_fresh :: ptr
  fw_procs :: "ptr \<rightharpoonup> fproc"
  fw_devices :: "bool list"
  fw_stale :: "file_type_fd \<times> ptr"

section \<open>Sequencing\<close>

type_synonym 'a fwm = "fworld \<Rightarrow> ('a \<times> fworld) res"

definition fret :: "'a \<Rightarrow> 'a fwm" where
  "fret a w = Inr (a, w)"

definition fbind :: "'a fwm \<Rightarrow> ('a \<Rightarrow> 'b fwm) \<Rightarrow> 'b fwm" where
  "fbind m f w = rbind (m w) (\<lambda>(a, w1). f a w1)"

definition ffail :: "kerr \<Rightarrow> 'a fwm" where
  "ffail e w = Inl e"

definition fread :: "(fworld \<Rightarrow> 'a res) \<Rightarrow> 'a fwm" where
  "fread f w = rbind (f w) (\<lambda>a. Inr (a, w))"

definition fupd :: "(fworld \<Rightarrow> fworld) \<Rightarrow> unit fwm" where
  "fupd f w = Inr ((), f w)"

definition in_fs :: "'a fsm \<Rightarrow> 'a fwm" where
  "in_fs f w = rbind (f (fw_fs w)) (\<lambda>(a, s). Inr (a, w\<lparr>fw_fs := s\<rparr>))"

definition in_pipes :: "(pworld \<Rightarrow> ('a \<times> pworld) res) \<Rightarrow> 'a fwm" where
  "in_pipes f w = rbind (f (fw_pw w)) (\<lambda>(a, p). Inr (a, w\<lparr>fw_pw := p\<rparr>))"

definition inode_number :: "ptr \<Rightarrow> u32 fwm" where
  "inode_number a = fread (\<lambda>w. Inr (get_inode_number a (fw_fs w)))"

definition the_inode :: "ptr \<Rightarrow> inode_t fwm" where
  "the_inode a = in_fs (inode_at a)"

definition file_at :: "ptr \<Rightarrow> flip fwm" where
  "file_at a = fread (\<lambda>w. if a = 0 then Inl Null_deref else case fw_files w a of None \<Rightarrow> Inl Use_after_free | Some f \<Rightarrow> Inr f)"

definition upd_file :: "ptr \<Rightarrow> (flip \<Rightarrow> flip) \<Rightarrow> unit fwm" where
  "upd_file a f = fbind (file_at a) (\<lambda>v. fupd (\<lambda>w. w\<lparr>fw_files := (fw_files w)(a \<mapsto> f v)\<rparr>))"

definition free_file :: "ptr \<Rightarrow> unit fwm" where
  "free_file a = fbind (file_at a) (\<lambda>_. fupd (\<lambda>w. w\<lparr>fw_files := (fw_files w)(a := None)\<rparr>))"

definition proc_at :: "ptr \<Rightarrow> fproc fwm" where
  "proc_at p = fread (\<lambda>w. if p = 0 then Inl Null_deref else case fw_procs w p of None \<Rightarrow> Inl Use_after_free | Some f \<Rightarrow> Inr f)"

definition upd_proc :: "ptr \<Rightarrow> (fproc \<Rightarrow> fproc) \<Rightarrow> unit fwm" where
  "upd_proc p f = fbind (proc_at p) (\<lambda>v. fupd (\<lambda>w. w\<lparr>fw_procs := (fw_procs w)(p \<mapsto> f v)\<rparr>))"

text \<open>The process of an argument that is NULL for the running one.\<close>

definition proc_or_current :: "ptr \<Rightarrow> ptr fwm" where
  "proc_or_current p =
     fread (\<lambda>w. Inr (if p = 0 then get_process_struct_of_pid (getpid (pw_kernel (fw_pw w))) (pw_kernel (fw_pw w)) else p))"

section \<open>Walking along a path\<close>

definition PATH_SIZE_MAX :: nat where "PATH_SIZE_MAX = 512"

text \<open>The copies of the tokens; a failed allocation is written to.\<close>

fun copy_tokens :: "byte list list \<Rightarrow> unit fsm" where
  "copy_tokens [] = sret ()"
| "copy_tokens (t # ts) = sbind fs_malloc (\<lambda>ok. if \<not> ok then sfail Null_deref else copy_tokens ts)"

text \<open>A path of exactly \<^verbatim>\<open>PATH_SIZE_MAX\<close> bytes passes the test and its terminator is written behind the array.\<close>

definition extract_files :: "byte list option \<Rightarrow> byte list list option fsm" where
  "extract_files path =
     (case path of
        None \<Rightarrow> sfail Null_deref
      | Some s \<Rightarrow>
          if length s > PATH_SIZE_MAX then sret None
          else if length s = PATH_SIZE_MAX then sfail Out_of_bounds
          else
            sbind fs_malloc (\<lambda>ok.
            if \<not> ok then sret None
            else sbind fs_malloc (\<lambda>ok.
              if \<not> ok then sret None
              else sbind (copy_tokens (path_tokens s)) (\<lambda>_. sret (Some (path_tokens s))))))"

fun walk_files :: "byte list list \<Rightarrow> ptr \<Rightarrow> ptr fsm" where
  "walk_files [] a = sret a"
| "walk_files (f # fs) a = sbind (look_for_inode_dir a (Some f)) (\<lambda>n. sbind (get_inode n) (walk_files fs))"

text \<open>
  The difference of the two numbers is unsigned: its test is always true, and more steps back than there
  are components run past the end of the array.
\<close>

definition walk_depth :: "byte list list \<Rightarrow> u32 \<Rightarrow> ptr \<Rightarrow> ptr fsm" where
  "walk_depth files back a =
     (let n = unat (of_nat (length files) - back) in
      if n > length files then sbind (walk_files files a) (\<lambda>_. sfail Out_of_bounds) else walk_files (take n files) a)"

text \<open>\<open>cur\<close> is the call of \<^verbatim>\<open>get_current_dir\<close>.\<close>

definition walk_from :: "ptr fwm \<Rightarrow> byte list option \<Rightarrow> u32 \<Rightarrow> ptr fwm" where
  "walk_from cur path back =
     fbind (in_fs (extract_files path)) (\<lambda>fso.
     case (fso, path) of
       (Some files, Some s) \<Rightarrow>
         if is_absolute_directory s then
           fbind (in_fs (get_inode EXT2_GOOD_OLD_FIRST_INO)) (\<lambda>root.
           if s = [SLASH] then fret root else in_fs (walk_depth files back root))
         else fbind cur (\<lambda>a. in_fs (walk_depth files back a))
     | _ \<Rightarrow> fret 0)"

text \<open>
  The directory of a process: its inode while that is in memory, otherwise what its name leads to. A name
  that is not absolute would make this function and \<^verbatim>\<open>walk_and_get\<close> call each other for ever.
\<close>

definition dir_of_proc :: "(fproc \<Rightarrow> p_dir_t) \<Rightarrow> ptr \<Rightarrow> ptr fwm" where
  "dir_of_proc field proc_arg =
     fbind (proc_or_current proc_arg) (\<lambda>proc.
     if proc = 0 then fret 0
     else fbind (proc_at proc) (\<lambda>p.
       fbind (inode_number (dir_inode (field p))) (\<lambda>n.
       if n \<noteq> 0 then fret (dir_inode (field p))
       else walk_from (ffail No_return) (dir_name (field p)) 0)))"

definition get_current_dir :: "ptr \<Rightarrow> ptr fwm" where
  "get_current_dir = dir_of_proc cur_dir"

definition get_root_dir :: "ptr \<Rightarrow> ptr fwm" where
  "get_root_dir = dir_of_proc root_dir"

definition walk_and_get :: "byte list option \<Rightarrow> u32 \<Rightarrow> ptr fwm" where
  "walk_and_get = walk_from (get_current_dir 0)"

section \<open>The directories of a process\<close>

definition field_of_proc :: "'a \<Rightarrow> (fproc \<Rightarrow> 'a) \<Rightarrow> ptr \<Rightarrow> 'a fwm" where
  "field_of_proc none field proc_arg =
     fbind (proc_or_current proc_arg) (\<lambda>proc.
     if proc = 0 then fret none else fbind (proc_at proc) (\<lambda>p. fret (field p)))"

definition get_root_dir_name_size :: "ptr \<Rightarrow> u32 fwm" where
  "get_root_dir_name_size = field_of_proc 0 (\<lambda>p. name_size (root_dir p))"

definition get_current_dir_name_size :: "ptr \<Rightarrow> u32 fwm" where
  "get_current_dir_name_size = field_of_proc 0 (\<lambda>p. name_size (cur_dir p))"

definition get_root_dir_name :: "ptr \<Rightarrow> byte list option fwm" where
  "get_root_dir_name = field_of_proc None (\<lambda>p. dir_name (root_dir p))"

definition get_current_dir_name :: "ptr \<Rightarrow> byte list option fwm" where
  "get_current_dir_name = field_of_proc None (\<lambda>p. dir_name (cur_dir p))"

text \<open>A name that is not absolute is only reported.\<close>

definition set_current_dir :: "ptr \<Rightarrow> byte list option \<Rightarrow> u32 \<Rightarrow> ptr \<Rightarrow> int fwm" where
  "set_current_dir proc_arg new_name n_size inode =
     fbind (proc_or_current proc_arg) (\<lambda>proc.
     if proc = 0 then fret 0
     else if new_name = None \<or> n_size = 0 \<or> inode = 0 then fret (-1)
     else
       fbind (upd_proc proc (\<lambda>p. p\<lparr>cur_dir := \<lparr>dir_inode = inode, dir_name = new_name, name_size = n_size\<rparr>\<rparr>)) (\<lambda>_. fret 0))"

section \<open>Descriptors\<close>

text \<open>The first clear bit of the map, -1 when there is none: the loops of \<^verbatim>\<open>alloc_bit_bitmap\<close> again.\<close>

definition alloc_bit_fdmap :: "byte list \<Rightarrow> int" where
  "alloc_bit_fdmap bits = (case bitmap_words (SIZE_BIT_MAP div 8) 0 bits of None \<Rightarrow> -1 | Some n \<Rightarrow> int n)"

text \<open>
  Setting the bit of a descriptor. The result of the search is not tested: for -1 the code shifts by a
  negative amount.
\<close>

definition set_fd_bit :: "int \<Rightarrow> byte list \<Rightarrow> byte list res" where
  "set_fd_bit fd bits =
     (if fd div 8 \<ge> int SIZE_BIT_MAP then Inl Assert_fail
      else if fd < 0 then Inl Out_of_bounds
      else Inr (bits[nat fd div 8 := set_bit_at (nat fd) bits]))"

definition clear_fd_bit :: "int \<Rightarrow> byte list \<Rightarrow> byte list res" where
  "clear_fd_bit fd bits =
     (if fd div 8 \<ge> int SIZE_BIT_MAP then Inl Assert_fail
      else if fd < 0 then Inl Out_of_bounds
      else Inr (bits[nat fd div 8 := clear_bit_at (nat fd) bits]))"

text \<open>The search in the list of links; a link that was freed is read when the search comes to it.\<close>

fun find_fd :: "int \<Rightarrow> open_fd option list \<Rightarrow> open_fd option res" where
  "find_fd fd [] = Inr None"
| "find_fd fd (None # ls) = Inl Use_after_free"
| "find_fd fd (Some e # ls) = (if of_fd e = fd then Inr (Some e) else find_fd fd ls)"

fun remove_fd :: "int \<Rightarrow> open_fd option list \<Rightarrow> open_fd option list" where
  "remove_fd fd [] = []"
| "remove_fd fd (None # ls) = None # remove_fd fd ls"
| "remove_fd fd (Some e # ls) = (if of_fd e = fd then ls else Some e # remove_fd fd ls)"

fun detach_fd :: "int \<Rightarrow> open_fd option list \<Rightarrow> open_fd option list" where
  "detach_fd fd [] = []"
| "detach_fd fd (None # ls) = None # detach_fd fd ls"
| "detach_fd fd (Some e # ls) = (if of_fd e = fd then Some (e\<lparr>of_file := 0\<rparr>) # ls else Some e # detach_fd fd ls)"

text \<open>A new link at the head of the list, with its bit set.\<close>

definition add_link :: "ptr \<Rightarrow> open_fd \<Rightarrow> unit fwm" where
  "add_link proc e =
     fbind (proc_at proc) (\<lambda>p.
     fbind (fread (\<lambda>_. set_fd_bit (of_fd e) (fd_bitmap p))) (\<lambda>bits.
     upd_proc proc (\<lambda>p. p\<lparr>fd_bitmap := bits, open_files := Some e # open_files p\<rparr>)))"

definition dup_open_file :: "ptr \<Rightarrow> ptr \<Rightarrow> int \<Rightarrow> open_fd option fwm" where
  "dup_open_file proc_arg file custom_fd =
     fbind (proc_or_current proc_arg) (\<lambda>proc.
     if file = 0 \<or> proc = 0 \<or> custom_fd \<ge> MAX_FS then fret None
     else fbind (in_fs fs_malloc) (\<lambda>ok.
       if \<not> ok then fret None
       else fbind (proc_at proc) (\<lambda>p.
         (let e = \<lparr>of_fd = (if custom_fd < 0 then alloc_bit_fdmap (fd_bitmap p) else custom_fd), of_file = file\<rparr> in
          fbind (add_link proc e) (\<lambda>_.
          fbind (upd_file file (\<lambda>f. f\<lparr>fl_usage := fl_usage f + 1\<rparr>)) (\<lambda>_. fret (Some e)))))))"

text \<open>The fields the code sets; the type and the pipe are what the memory held.\<close>

definition new_flip :: "file_type_fd \<times> ptr \<Rightarrow> flip" where
  "new_flip stale =
     \<lparr>fl_type = fst stale, fl_position = 0, fl_inode = 0, fl_pipe = snd stale, fl_number = 0, fl_usage = 1,
      fl_can_read = False, fl_can_write = False, fl_append = False, fl_sync = False\<rparr>"

definition add_new_element_open_files :: "ptr \<Rightarrow> open_fd option fwm" where
  "add_new_element_open_files proc_arg =
     fbind (proc_or_current proc_arg) (\<lambda>proc.
     if proc = 0 then fret None
     else fbind (in_fs fs_malloc) (\<lambda>ok1. fbind (in_fs fs_malloc) (\<lambda>ok2.
       if \<not> ok1 \<or> \<not> ok2 then fret None
       else fbind (proc_at proc) (\<lambda>p. fbind (fread (\<lambda>w. Inr (fw_fresh w))) (\<lambda>a.
         (let e = \<lparr>of_fd = alloc_bit_fdmap (fd_bitmap p), of_file = a\<rparr> in
          fbind (add_link proc e) (\<lambda>_.
          fbind (fupd (\<lambda>w. w\<lparr>fw_files := (fw_files w)(a \<mapsto> new_flip (fw_stale w)), fw_fresh := Suc a\<rparr>)) (\<lambda>_.
          fret (Some e)))))))))"

text \<open>The link of a descriptor of a process, and its open file, 0 when there is none.\<close>

definition link_of :: "ptr \<Rightarrow> int \<Rightarrow> open_fd option fwm" where
  "link_of proc_arg fd =
     fbind (proc_or_current proc_arg) (\<lambda>proc.
     if proc = 0 then fret None else fbind (proc_at proc) (\<lambda>p. fread (\<lambda>_. find_fd fd (open_files p))))"

definition get_fs_list_elt :: "ptr \<Rightarrow> int \<Rightarrow> ptr fwm" where
  "get_fs_list_elt proc_arg fd =
     (if fd < 0 then fret 0
      else fbind (link_of proc_arg fd) (\<lambda>eo. fret (case eo of None \<Rightarrow> 0 | Some e \<Rightarrow> of_file e)))"

definition get_open_fd_elt :: "ptr \<Rightarrow> int \<Rightarrow> open_fd option fwm" where
  "get_open_fd_elt proc_arg fd = (if fd < 0 \<or> fd \<ge> MAX_FS then fret None else link_of proc_arg fd)"

fun any_uses :: "u32 \<Rightarrow> open_fd option list \<Rightarrow> bool fwm" where
  "any_uses n [] = fret False"
| "any_uses n (None # ls) = ffail Use_after_free"
| "any_uses n (Some e # ls) = fbind (file_at (of_file e)) (\<lambda>f. if fl_number f = n then fret True else any_uses n ls)"

definition check_if_inode_is_being_used :: "ptr \<Rightarrow> u32 \<Rightarrow> bool fwm" where
  "check_if_inode_is_being_used proc_arg n =
     (if n = 0 then fret False
      else fbind (proc_or_current proc_arg) (\<lambda>proc.
        if proc = 0 then fret False else fbind (proc_at proc) (\<lambda>p. any_uses n (open_files p))))"

section \<open>Closing\<close>

text \<open>What becomes of an open file that loses its last descriptor: whether it could be given back.\<close>

definition release_file :: "flip \<Rightarrow> bool fwm" where
  "release_file f =
     (if fl_type f = FS_FT_PIPE then
        fbind (in_pipes (close_pipe (fl_pipe f) (if fl_can_read f then CLOSE_READ else CLOSE_WRITE))) (\<lambda>_. fret True)
      else fbind (in_fs (put_inode (fl_inode f) 0 RELEASE_INODE)) (\<lambda>r. fret (r \<ge> 0)))"

definition drop_file :: "ptr \<Rightarrow> bool fwm" where
  "drop_file a =
     fbind (upd_file a (\<lambda>f. f\<lparr>fl_usage := fl_usage f - 1\<rparr>)) (\<lambda>_.
     fbind (file_at a) (\<lambda>f.
     if fl_usage f \<noteq> 0 then fret True
     else fbind (release_file f) (\<lambda>ok. if \<not> ok then fret False else fbind (free_file a) (\<lambda>_. fret True))))"

definition remove_fd_list :: "ptr \<Rightarrow> int \<Rightarrow> rem_type \<Rightarrow> int fwm" where
  "remove_fd_list proc_arg fd op_type =
     (if fd < 0 then fret (-1)
      else fbind (proc_or_current proc_arg) (\<lambda>proc.
        if proc = 0 then fret (-1)
        else fbind (get_open_fd_elt proc fd) (\<lambda>eo.
          case eo of
            None \<Rightarrow> fret (-1)
          | Some e \<Rightarrow>
              fbind (drop_file (of_file e)) (\<lambda>ok.
              if \<not> ok then fret (-1)
              else
                (case op_type of
                   ONLY_CLOSE_FILE \<Rightarrow> fbind (upd_proc proc (\<lambda>p. p\<lparr>open_files := detach_fd fd (open_files p)\<rparr>)) (\<lambda>_. fret 0)
                 | REMOVE_ALL \<Rightarrow>
                     fbind (proc_at proc) (\<lambda>p.
                     fbind (fread (\<lambda>_. clear_fd_bit fd (fd_bitmap p))) (\<lambda>bits.
                     fbind (upd_proc proc (\<lambda>p. p\<lparr>fd_bitmap := bits, open_files := remove_fd fd (open_files p)\<rparr>)) (\<lambda>_. fret 0))))))))"

text \<open>The next link is read before the link is removed, so the loop is over the links of the list at its start.\<close>

fun close_loop :: "ptr \<Rightarrow> open_fd option list \<Rightarrow> int \<Rightarrow> int fwm" where
  "close_loop proc [] r = fret r"
| "close_loop proc (None # ls) r = ffail Use_after_free"
| "close_loop proc (Some e # ls) r =
     fbind (remove_fd_list proc (of_fd e) REMOVE_ALL) (\<lambda>v. close_loop proc ls (if v < 0 then -1 else r))"

definition close_all_files :: "ptr \<Rightarrow> int fwm" where
  "close_all_files proc_arg =
     fbind (proc_or_current proc_arg) (\<lambda>proc.
     if proc = 0 then fret (-1) else fbind (proc_at proc) (\<lambda>p. close_loop proc (open_files p) 0))"

section \<open>New processes and their end\<close>

fun copy_links :: "ptr \<Rightarrow> open_fd option list \<Rightarrow> int fwm" where
  "copy_links dest [] = fret 0"
| "copy_links dest (None # ls) = ffail Use_after_free"
| "copy_links dest (Some e # ls) =
     fbind (in_fs fs_malloc) (\<lambda>ok.
     if \<not> ok then fret (-1)
     else if of_file e = 0 then ffail Assert_fail
     else fbind (upd_file (of_file e) (\<lambda>f. f\<lparr>fl_usage := fl_usage f + 1\<rparr>)) (\<lambda>_.
       fbind (upd_proc dest (\<lambda>p. p\<lparr>open_files := Some e # open_files p\<rparr>)) (\<lambda>_. copy_links dest ls)))"

definition copy_proc_fds :: "ptr \<Rightarrow> ptr \<Rightarrow> int fwm" where
  "copy_proc_fds dest src =
     (if src = 0 \<or> dest = 0 then fret (-1) else fbind (proc_at src) (\<lambda>p. copy_links dest (open_files p)))"

text \<open>The copy of a name; a failed allocation is written to.\<close>

definition copy_dir :: "p_dir_t \<Rightarrow> p_dir_t fwm" where
  "copy_dir d =
     fbind (in_fs fs_malloc) (\<lambda>ok.
     if \<not> ok \<or> dir_name d = None then ffail Null_deref
     else if map_option length (dir_name d) \<noteq> Some (unat (name_size d) - 1) \<or> name_size d = 0 then ffail Out_of_bounds
     else fret d)"

text \<open>The file-system part of \<^verbatim>\<open>fork\<close>, for the object of the new process.\<close>

definition fork_files :: "ptr \<Rightarrow> ptr \<Rightarrow> int fwm" where
  "fork_files child parent =
     fbind (proc_at parent) (\<lambda>p.
     fbind (copy_dir (root_dir p)) (\<lambda>root.
     fbind (copy_dir (cur_dir p)) (\<lambda>cur.
     fbind (fupd (\<lambda>w. w\<lparr>fw_procs := (fw_procs w)(child \<mapsto> \<lparr>root_dir = root, cur_dir = cur, fd_bitmap = fd_bitmap p, open_files = []\<rparr>)\<rparr>)) (\<lambda>_.
     fbind (copy_proc_fds child parent) (\<lambda>r. fret (if r < 0 then -1 else 0))))))"

text \<open>
  The part of the creation of a process. The array that \<^verbatim>\<open>strcpy\<close> copies has no terminator: the model is
  of the case in which the byte behind it is zero.
\<close>

definition root_name :: "p_dir_t fwm" where
  "root_name =
     fbind (in_fs (get_inode EXT2_GOOD_OLD_FIRST_INO)) (\<lambda>a.
     fbind (in_fs fs_malloc) (\<lambda>ok.
     if \<not> ok then ffail Null_deref else fret \<lparr>dir_inode = a, dir_name = Some [SLASH], name_size = 2\<rparr>))"

definition init_files :: "ptr \<Rightarrow> unit fwm" where
  "init_files proc =
     fbind root_name (\<lambda>root. fbind root_name (\<lambda>cur.
     fupd (\<lambda>w. w\<lparr>fw_procs := (fw_procs w)(proc \<mapsto>
       \<lparr>root_dir = root, cur_dir = cur, fd_bitmap = replicate SIZE_BIT_MAP 0, open_files = []\<rparr>)\<rparr>)))"

end
