(* ===== verification/FileCalls.thy ===== *)
theory FileCalls
  imports FileTable
begin

text \<open>
  The calls on files, \<^verbatim>\<open>src/kernel/fs/fs_api.c\<close>, and the device files of \<^verbatim>\<open>fs/chdev.c\<close>. Reading and
  writing of a device or a pipe goes on in the operation of the device or in \<open>Pipe\<close>, where the caller
  can lose the processor: the result says which.

  The loops of \<^verbatim>\<open>read\<close> and \<^verbatim>\<open>write\<close> move the position by at least one byte in each round. They have
  fuel for one round per byte; a count beyond 32 bits makes the counter wrap, but the file is full before.
\<close>

section \<open>Constants\<close>

definition O_RDONLY :: u32 where "O_RDONLY = 0"
definition O_WRONLY :: u32 where "O_WRONLY = 1"
definition O_RDWR :: u32 where "O_RDWR = 2"
definition O_CREAT :: u32 where "O_CREAT = 0x40"
definition O_EXCL :: u32 where "O_EXCL = 0x80"
definition O_TRUNC :: u32 where "O_TRUNC = 0x200"
definition O_APPEND :: u32 where "O_APPEND = 0x400"
definition O_SYNC :: u32 where "O_SYNC = 0x1000"
definition O_DIRECTORY :: u32 where "O_DIRECTORY = 0x10000"

definition NUM_DEV :: nat where "NUM_DEV = 11"
definition TERMINAL_DEVICE :: nat where "TERMINAL_DEVICE = 1"

definition SEEK_SET :: int where "SEEK_SET = 0"
definition SEEK_CUR :: int where "SEEK_CUR = 1"
definition SEEK_END :: int where "SEEK_END = 2"

section \<open>Devices\<close>

definition init_fs_drivers :: "fworld \<Rightarrow> fworld" where
  "init_fs_drivers w = w\<lparr>fw_devices := (replicate NUM_DEV False)[TERMINAL_DEVICE := True]\<rparr>"

definition device_number :: "u32 \<Rightarrow> nat" where
  "device_number osd1 = unat (drop_bit 16 (osd1 AND 0xffff0000))"

text \<open>The entry of the table whose operation is called; the operations of an entry that is not set are NULL.\<close>

definition device_of :: "inode_t \<Rightarrow> nat fwm" where
  "device_of i = fread (\<lambda>w.
     let n = device_number (i_osd1 i) in
     if n \<ge> length (fw_devices w) then Inl Out_of_bounds
     else if \<not> fw_devices w ! n then Inl Null_deref else Inr n)"

section \<open>Opening and closing\<close>

text \<open>\<^verbatim>\<open>files[nb_files - 1]\<close>.\<close>

definition last_name :: "byte list list \<Rightarrow> byte list fwm" where
  "last_name files = fread (\<lambda>_. if files = [] then Inl Out_of_bounds else Inr (last files))"

definition set_inode :: "ptr \<Rightarrow> (inode_t \<Rightarrow> inode_t) \<Rightarrow> unit fwm" where
  "set_inode a f = in_fs (upd_inode a f)"

definition look_in :: "ptr \<Rightarrow> byte list \<Rightarrow> u32 fwm" where
  "look_in dir name = in_fs (look_for_inode_dir dir (Some name))"

text \<open>A directory of a path that exists and is one.\<close>

definition is_dir :: "ptr \<Rightarrow> bool fwm" where
  "is_dir a = (if a = 0 then fret False else fbind (the_inode a) (\<lambda>i. fret (i_mode i = EXT2_S_IFDIR)))"

text \<open>
  A new inode of a directory, 0 when none is free, \<open>None\<close> when its entry could not be added.
\<close>

definition new_in_dir :: "ptr \<Rightarrow> u16 \<Rightarrow> (inode_t \<Rightarrow> inode_t) \<Rightarrow> byte \<Rightarrow> byte list \<Rightarrow> ptr option fwm" where
  "new_in_dir dir mode f ty name =
     fbind (in_fs alloc_inode) (\<lambda>a.
     if a = 0 then fret (Some 0)
     else fbind (set_inode a (\<lambda>i. f (i\<lparr>i_mode := mode, i_links_count := 1\<rparr>))) (\<lambda>_.
       fbind (inode_number a) (\<lambda>n.
       fbind (in_fs (add_inode_directory dir n ty name)) (\<lambda>r.
       if r < 0 then fbind (inode_number a) (\<lambda>n. fbind (in_fs (free_inode a n)) (\<lambda>_. fret None))
       else fret (Some a)))))"

text \<open>The file that \<^verbatim>\<open>O_CREAT\<close> asks for, 0 when it is not to be opened, \<open>None\<close> when the call has failed.\<close>

definition open_create :: "byte list option \<Rightarrow> byte list list \<Rightarrow> u32 \<Rightarrow> ptr option fwm" where
  "open_create path files flags =
     fbind (walk_and_get path 1) (\<lambda>dir.
     fbind (is_dir dir) (\<lambda>d.
     if \<not> d then fret None
     else fbind (last_name files) (\<lambda>name.
       fbind (look_in dir name) (\<lambda>found.
       if found \<noteq> 0 then
         (if flags AND O_EXCL \<noteq> 0 then fret (Some 0)
          else fbind (walk_and_get path 0) (\<lambda>a.
            fbind (the_inode a) (\<lambda>i.
            if i_mode i = EXT2_S_IFREG then fbind (in_fs (free_inode_data a)) (\<lambda>r. fret (if r < 0 then None else Some a))
            else fret (Some a))))
       else new_in_dir dir EXT2_S_IFREG id EXT2_FT_REG_FILE name))))"

definition access_mode :: "u32 \<Rightarrow> flip \<Rightarrow> flip" where
  "access_mode flags f =
     (if flags AND 3 = O_RDONLY then f\<lparr>fl_can_read := True, fl_can_write := False\<rparr>
      else if flags AND 3 = O_WRONLY then f\<lparr>fl_can_read := False, fl_can_write := True\<rparr>
      else f\<lparr>fl_can_read := True, fl_can_write := True\<rparr>)"

text \<open>
  The open file of a new descriptor. The test for \<^verbatim>\<open>O_TRUNC\<close> is \<^verbatim>\<open>flags && O_TRUNC\<close>: any flag truncates a
  regular file. When that fails, the descriptor stays.
\<close>

definition configure_file :: "open_fd \<Rightarrow> ptr \<Rightarrow> u32 \<Rightarrow> int fwm" where
  "configure_file e a flags =
     fbind (the_inode a) (\<lambda>i.
     fbind (upd_file (of_file e) (\<lambda>f. f\<lparr>fl_inode := a,
       fl_type := (if i_mode i = EXT2_S_IFREG \<or> i_mode i = EXT2_S_IFDIR then FS_FT_INODE_FILE
                   else if i_mode i = EXT2_S_IFCHR then FS_FT_CHRDEV else fl_type f)\<rparr>)) (\<lambda>_.
     fbind (if i_mode i = EXT2_S_IFREG \<and> flags \<noteq> 0 \<and> O_TRUNC \<noteq> 0 then in_fs (free_inode_data a) else fret 0) (\<lambda>r.
     if r < 0 then fret (-1)
     else fbind (upd_file (of_file e) (access_mode flags)) (\<lambda>_.
       fbind (the_inode a) (\<lambda>i.
       fbind (if flags AND O_APPEND \<noteq> 0 then upd_file (of_file e) (\<lambda>f. f\<lparr>fl_append := True, fl_position := ucast (i_size i)\<rparr>)
              else fret ()) (\<lambda>_.
       fbind (if flags AND O_SYNC \<noteq> 0 then upd_file (of_file e) (\<lambda>f. f\<lparr>fl_sync := True\<rparr>) else fret ()) (\<lambda>_.
       fbind (inode_number a) (\<lambda>n.
       fbind (upd_file (of_file e) (\<lambda>f. f\<lparr>fl_number := n\<rparr>)) (\<lambda>_. fret (of_fd e))))))))))"

definition open_fs :: "ptr \<Rightarrow> byte list option \<Rightarrow> u32 \<Rightarrow> int fwm" where
  "open_fs proc path flags =
     (if path = None then fret (-1)
      else fbind (in_fs (extract_files path)) (\<lambda>fso.
        case fso of
          None \<Rightarrow> fret (-1)
        | Some files \<Rightarrow>
            fbind (if flags AND O_CREAT \<noteq> 0 then open_create path files flags
                   else fbind (walk_and_get path 0) (\<lambda>a. fret (Some a))) (\<lambda>ao.
            case ao of
              None \<Rightarrow> fret (-1)
            | Some a \<Rightarrow>
                if a = 0 then fret (-1)
                else fbind (the_inode a) (\<lambda>i.
                  if flags AND O_DIRECTORY \<noteq> 0 \<and> i_mode i \<noteq> EXT2_S_IFDIR then fret (-1)
                  else fbind (add_new_element_open_files proc) (\<lambda>eo.
                    case eo of None \<Rightarrow> fret (-1) | Some e \<Rightarrow> configure_file e a flags)))))"

definition close_fs :: "int \<Rightarrow> int fwm" where
  "close_fs fd = fbind (in_fs sync_all) (\<lambda>_. remove_fd_list 0 fd REMOVE_ALL)"

section \<open>Reading and writing\<close>

datatype io = Io_ret int | Io_device nat | Io_pipe ptr

definition block_size_of :: "u32 fwm" where
  "block_size_of = fbind (in_fs fs_block_size) (\<lambda>bs. if bs = 0 then ffail Div_by_zero else fret bs)"

text \<open>The quotient and the remainder of the position, which is signed.\<close>

definition pos_block :: "flip \<Rightarrow> u32 \<Rightarrow> int" where
  "pos_block f bs = sint (fl_position f) sdiv uint bs"

definition pos_offset :: "flip \<Rightarrow> u32 \<Rightarrow> int" where
  "pos_offset f bs = sint (fl_position f) smod uint bs"

text \<open>How much of the block at the position a call with so many bytes left takes.\<close>

definition io_amount :: "flip \<Rightarrow> u32 \<Rightarrow> u64 \<Rightarrow> u32" where
  "io_amount f bs left =
     (let space = of_int (uint bs - pos_offset f bs) :: u32 in if ucast space > left then ucast left else space)"

definition unlock_address :: "ptr \<Rightarrow> unit fwm" where
  "unlock_address blk = fupd (\<lambda>w. w\<lparr>fw_fs := (fw_fs w)\<lparr>fcache := snd (unlock_using_address blk (fcache (fw_fs w)))\<rparr>\<rparr>)"

text \<open>A new block for a position behind the blocks the file has.\<close>

definition room_for_write :: "flip \<Rightarrow> u32 \<Rightarrow> int \<Rightarrow> int option fwm" where
  "room_for_write f bs actual =
     (if actual < pos_block f bs + 1 then
        fbind (in_fs (add_data_block_inode (fl_inode f))) (\<lambda>r.
        if r < 0 then fret None
        else fbind (in_fs (put_inode (fl_inode f) 0 SAVE_INODE)) (\<lambda>_. fret (Some (actual + 1))))
      else fret (Some actual))"

text \<open>The bytes that are copied into the block. The size of the file grows by as much, wherever it is written.\<close>

definition write_part :: "ptr \<Rightarrow> flip \<Rightarrow> u32 \<Rightarrow> ptr \<Rightarrow> byte list \<Rightarrow> u64 \<Rightarrow> u32 \<Rightarrow> u32 fwm" where
  "write_part a f bs blk buf cnt written =
     (let n = io_amount f bs (cnt - ucast written) in
      if unat written + unat n > length buf \<or> pos_offset f bs < 0 then ffail Out_of_bounds
      else
        fbind (in_fs (store_blk blk (nat (pos_offset f bs)) (take (unat n) (drop (unat written) buf)))) (\<lambda>_.
        fbind (upd_file a (\<lambda>f. f\<lparr>fl_position := fl_position f + ucast n\<rparr>)) (\<lambda>_.
        fbind (set_inode (fl_inode f) (\<lambda>i. i\<lparr>i_size := i_size i + n\<rparr>)) (\<lambda>_.
        fbind (unlock_address blk) (\<lambda>_. fret (written + n))))))"

fun write_loop :: "nat \<Rightarrow> ptr \<Rightarrow> byte list \<Rightarrow> u64 \<Rightarrow> u32 \<Rightarrow> int \<Rightarrow> (bool \<times> u32) fwm" where
  "write_loop 0 a buf cnt written actual = ffail No_return"
| "write_loop (Suc n) a buf cnt written actual =
     (if \<not> ucast written < cnt then fret (True, written)
      else
        fbind (file_at a) (\<lambda>f.
        fbind block_size_of (\<lambda>bs.
        fbind (room_for_write f bs actual) (\<lambda>r.
        case r of
          None \<Rightarrow> fret (False, written)
        | Some actual1 \<Rightarrow>
            fbind (in_fs (get_inode_relative_block (fl_inode f) (of_int (pos_block f bs)) WRITE_OP)) (\<lambda>blk.
            if blk = 0 then fret (False, written)
            else fbind (write_part a f bs blk buf cnt written) (\<lambda>written1. write_loop n a buf cnt written1 actual1))))))"

definition write_inode_file :: "ptr \<Rightarrow> flip \<Rightarrow> byte list \<Rightarrow> u64 \<Rightarrow> int fwm" where
  "write_inode_file a f buf cnt =
     fbind (in_fs (get_actual_blocks (fl_inode f))) (\<lambda>actual.
     if actual < 0 then fret (-1)
     else fbind (write_loop (Suc (unat cnt)) a buf cnt 0 actual) (\<lambda>(all, written).
       if \<not> all then fret (uint written)
       else fbind (if fl_sync f then in_fs sync_all else fret 0) (\<lambda>_.
         if ucast written > cnt then ffail Assert_fail else fret (uint written))))"

definition write_fs :: "int \<Rightarrow> byte list \<Rightarrow> u64 \<Rightarrow> io fwm" where
  "write_fs fd buf cnt =
     fbind (get_fs_list_elt 0 fd) (\<lambda>a.
     if a = 0 \<or> cnt = 0 then fret (Io_ret (-1))
     else fbind (file_at a) (\<lambda>f.
       if \<not> fl_can_write f then fret (Io_ret (-1))
       else if fl_type f = FS_FT_CHRDEV then
         fbind (the_inode (fl_inode f)) (\<lambda>i. fbind (device_of i) (\<lambda>d. fret (Io_device d)))
       else if fl_type f = FS_FT_PIPE then fret (Io_pipe (fl_pipe f))
       else if fl_type f = FS_FT_INODE_FILE then fbind (write_inode_file a f buf cnt) (\<lambda>r. fret (Io_ret r))
       else fret (Io_ret (-1))))"

text \<open>The bytes of a block that are copied, up to the end of the block or of the request.\<close>

definition read_part :: "ptr \<Rightarrow> flip \<Rightarrow> u32 \<Rightarrow> ptr \<Rightarrow> u64 \<Rightarrow> u32 \<Rightarrow> (u32 \<times> byte list) fwm" where
  "read_part a f bs blk cnt done_bytes =
     (let n = io_amount f bs (cnt - ucast done_bytes) in
      fbind (in_fs (at_blk blk)) (\<lambda>data.
      if pos_offset f bs < 0 \<or> nat (pos_offset f bs) + unat n > length data then ffail Out_of_bounds
      else
        fbind (upd_file a (\<lambda>f. f\<lparr>fl_position := fl_position f + ucast n\<rparr>)) (\<lambda>_.
        fbind (unlock_address blk) (\<lambda>_. fret (n, peek (nat (pos_offset f bs)) (unat n) data)))))"

fun read_loop :: "nat \<Rightarrow> ptr \<Rightarrow> u64 \<Rightarrow> u32 \<Rightarrow> byte list \<Rightarrow> int \<Rightarrow> (u32 \<times> byte list) fwm" where
  "read_loop 0 a cnt read_data acc actual = ffail No_return"
| "read_loop (Suc n) a cnt read_data acc actual =
     (if \<not> ucast read_data < cnt then fret (read_data, acc)
      else
        fbind (file_at a) (\<lambda>f.
        fbind (the_inode (fl_inode f)) (\<lambda>i.
        if \<not> sint (fl_position f) < uint (i_size i) then fret (read_data, acc)
        else
          fbind block_size_of (\<lambda>bs.
          if actual < pos_block f bs + 1 then fret (read_data, acc)
          else
            fbind (in_fs (get_inode_relative_block (fl_inode f) (of_int (pos_block f bs)) READ_OP)) (\<lambda>blk.
            if blk = 0 then fret (read_data, acc)
            else fbind (read_part a f bs blk cnt read_data) (\<lambda>(k, bytes).
              read_loop n a cnt (read_data + k) (acc @ bytes) actual))))))"

text \<open>The result and the bytes that are put at the start of the buffer.\<close>

definition read_inode_file :: "ptr \<Rightarrow> flip \<Rightarrow> u64 \<Rightarrow> (int \<times> byte list) fwm" where
  "read_inode_file a f cnt =
     fbind (in_fs (get_actual_blocks (fl_inode f))) (\<lambda>actual.
     if actual < 0 then fret (-1, [])
     else fbind (read_loop (Suc (unat cnt)) a cnt 0 [] actual) (\<lambda>(r, bytes). fret (uint r, bytes)))"

definition read_fs :: "int \<Rightarrow> u64 \<Rightarrow> (io \<times> byte list) fwm" where
  "read_fs fd cnt =
     (if fd < 0 then fret (Io_ret (-1), [])
      else fbind (get_fs_list_elt 0 fd) (\<lambda>a.
        if a = 0 \<or> cnt = 0 then fret (Io_ret (-1), [])
        else fbind (file_at a) (\<lambda>f.
          if \<not> fl_can_read f then fret (Io_ret (-1), [])
          else if fl_type f = FS_FT_CHRDEV then
            fbind (the_inode (fl_inode f)) (\<lambda>i. fbind (device_of i) (\<lambda>d. fret (Io_device d, [])))
          else if fl_type f = FS_FT_PIPE then fret (Io_pipe (fl_pipe f), [])
          else if fl_type f = FS_FT_INODE_FILE then
            fbind (read_inode_file a f cnt) (\<lambda>(r, bytes). fret (Io_ret r, bytes))
          else fret (Io_ret (-1), []))))"

section \<open>Seeking\<close>

definition clamp_position :: "u32 \<Rightarrow> flip \<Rightarrow> flip" where
  "clamp_position len f =
     (if sint (fl_position f) > uint len then f\<lparr>fl_position := ucast len\<rparr>
      else if sint (fl_position f) < 0 then f\<lparr>fl_position := 0\<rparr> else f)"

definition seek_position :: "s64 \<Rightarrow> int \<Rightarrow> u32 \<Rightarrow> flip \<Rightarrow> flip" where
  "seek_position offset whence len f =
     (if whence = SEEK_SET then f\<lparr>fl_position := offset\<rparr>
      else if whence = SEEK_CUR then f\<lparr>fl_position := fl_position f + offset\<rparr>
      else if whence = SEEK_END then f\<lparr>fl_position := ucast len + offset\<rparr> else f)"

definition lseek :: "int \<Rightarrow> s64 \<Rightarrow> int \<Rightarrow> int fwm" where
  "lseek fd offset whence =
     (if \<not> (whence \<le> 2 \<and> whence \<ge> 0) then fret (-1)
      else fbind (get_fs_list_elt 0 fd) (\<lambda>a.
        if a = 0 then fret (-1)
        else fbind (file_at a) (\<lambda>f.
          if fl_type f \<noteq> FS_FT_INODE_FILE then fret (-1)
          else fbind (the_inode (fl_inode f)) (\<lambda>i.
            fbind (upd_file a (\<lambda>f. clamp_position (i_size i) (seek_position offset whence (i_size i) f))) (\<lambda>_.
            fbind (file_at a) (\<lambda>f. fret (sint (fl_position f))))))))"

section \<open>Duplicating descriptors\<close>

text \<open>The file is looked up in the process given, the descriptor is added to the running one.\<close>

definition dup_fs :: "ptr \<Rightarrow> int \<Rightarrow> int fwm" where
  "dup_fs proc fd =
     (if fd < 0 then fret (-1)
      else fbind (get_fs_list_elt proc fd) (\<lambda>a.
        fbind (dup_open_file 0 a (-1)) (\<lambda>eo. fret (case eo of None \<Rightarrow> -1 | Some e \<Rightarrow> of_fd e))))"

text \<open>The caller can lose the processor when it closes the last end of a pipe; it is the same process throughout.\<close>

definition dup2_fs :: "ptr \<Rightarrow> int \<Rightarrow> int \<Rightarrow> int fwm" where
  "dup2_fs proc_arg fd new_fd =
     (if fd < 0 \<or> new_fd < 0 \<or> fd \<ge> MAX_FS \<or> new_fd \<ge> MAX_FS then fret (-1)
      else fbind (proc_or_current proc_arg) (\<lambda>proc.
        fbind (get_fs_list_elt proc fd) (\<lambda>a.
        if a = 0 then fret (-1)
        else fbind (get_open_fd_elt proc new_fd) (\<lambda>eo.
          fbind (if eo = None then fret 0 else remove_fd_list proc new_fd REMOVE_ALL) (\<lambda>r.
          if r < 0 then fret (-1)
          else fbind (dup_open_file proc a new_fd) (\<lambda>eo. fret (case eo of None \<Rightarrow> -1 | Some _ \<Rightarrow> new_fd)))))))"

section \<open>Pipes\<close>

fun free_first :: "open_fd \<Rightarrow> open_fd option list \<Rightarrow> open_fd option list" where
  "free_first e [] = []"
| "free_first e (l # ls) = (if l = Some e then None # ls else l # free_first e ls)"

text \<open>A link of the running process that is freed where it stands.\<close>

definition free_link :: "open_fd \<Rightarrow> unit fwm" where
  "free_link e = fbind (proc_or_current 0) (\<lambda>proc. upd_proc proc (\<lambda>p. p\<lparr>open_files := free_first e (open_files p)\<rparr>))"

text \<open>A pointer that was not set yet is freed and closed as it is.\<close>

definition free_stale :: "unit fwm" where
  "free_stale = fread (\<lambda>w. if snd (fw_stale w) = 0 then Inr () else Inl Double_free)"

definition close_pipe_at :: "ptr \<Rightarrow> unit fwm" where
  "close_pipe_at a = fbind (in_pipes (close_pipe a CLOSE_ALL)) (\<lambda>_. fret ())"

definition new_pipe :: "ptr fwm" where
  "new_pipe =
     fbind (in_fs fs_malloc) (\<lambda>ok.
     fbind (fread (\<lambda>w. Inr (if ok then fw_fresh w else 0))) (\<lambda>a.
     fbind (fupd (\<lambda>w. if ok then w\<lparr>fw_fresh := Suc (fw_fresh w)\<rparr> else w)) (\<lambda>_.
     in_pipes (\<lambda>p. Inr (create_pipe a p)))))"

definition pipe_end :: "ptr \<Rightarrow> bool \<Rightarrow> flip \<Rightarrow> flip" where
  "pipe_end a reads f =
     (if reads then f\<lparr>fl_type := FS_FT_PIPE, fl_pipe := a, fl_can_read := True\<rparr>
      else f\<lparr>fl_type := FS_FT_PIPE, fl_pipe := a, fl_can_write := True\<rparr>)"

definition sys_pipe :: "bool \<Rightarrow> (int \<times> (int \<times> int) option) fwm" where
  "sys_pipe has_array =
     (if \<not> has_array then fret (-1, None)
      else fbind (add_new_element_open_files 0) (\<lambda>eo0.
        case eo0 of
          None \<Rightarrow> fbind free_stale (\<lambda>_. fbind (fread (\<lambda>w. Inr (snd (fw_stale w)))) (\<lambda>g. fbind (close_pipe_at g) (\<lambda>_. fret (-1, None))))
        | Some e0 \<Rightarrow>
            fbind (add_new_element_open_files 0) (\<lambda>eo1.
            case eo1 of
              None \<Rightarrow>
                fbind (free_link e0) (\<lambda>_.
                fbind (fread (\<lambda>w. Inr (snd (fw_stale w)))) (\<lambda>g. fbind (close_pipe_at g) (\<lambda>_. fret (-1, None))))
            | Some e1 \<Rightarrow>
                fbind new_pipe (\<lambda>a.
                if a = 0 then fbind (free_link e0) (\<lambda>_. fbind (free_link e1) (\<lambda>_. fret (-1, None)))
                else fbind (upd_file (of_file e0) (pipe_end a True)) (\<lambda>_.
                  fbind (upd_file (of_file e1) (pipe_end a False)) (\<lambda>_.
                  fret (0, Some (of_fd e0, of_fd e1))))))))"

section \<open>Names\<close>

text \<open>A target that is not a regular file is left and the call returns 0.\<close>

definition unlink_fs :: "byte list option \<Rightarrow> int fwm" where
  "unlink_fs path =
     (if path = None then fret (-1)
      else fbind (in_fs (extract_files path)) (\<lambda>fso.
        case fso of
          None \<Rightarrow> fret (-1)
        | Some files \<Rightarrow>
            fbind (walk_and_get path 1) (\<lambda>dir.
            fbind (is_dir dir) (\<lambda>d.
            if \<not> d then fret (-1)
            else fbind (last_name files) (\<lambda>name.
              fbind (look_in dir name) (\<lambda>found.
              if found = 0 then fret (-1)
              else fbind (walk_and_get path 0) (\<lambda>a.
                if a = 0 then fret (-1)
                else fbind (inode_number a) (\<lambda>n.
                  fbind (check_if_inode_is_being_used 0 n) (\<lambda>used.
                  fbind (the_inode a) (\<lambda>i.
                  if i_mode i = EXT2_S_IFREG \<and> \<not> used then
                    fbind (in_fs (remove_inode_dir dir (Some name))) (\<lambda>r.
                    if r < 0 then fret (-1)
                    else fbind (inode_number a) (\<lambda>n.
                      fbind (in_fs (free_inode a n)) (\<lambda>r.
                      if r < 0 then fret (-1) else fbind (in_fs sync_all) (\<lambda>_. fret 0))))
                  else fret (if used then -1 else 0)))))))))))"

text \<open>The count of links grows before the entry is added.\<close>

definition sys_link :: "byte list option \<Rightarrow> byte list option \<Rightarrow> int fwm" where
  "sys_link oldpath newpath =
     (if oldpath = None \<or> newpath = None then fret (-1)
      else fbind (walk_and_get oldpath 0) (\<lambda>a.
        if a = 0 then fret (-1)
        else fbind (the_inode a) (\<lambda>i.
          if i_mode i \<noteq> EXT2_S_IFREG then fret (-1)
          else fbind (walk_and_get newpath 1) (\<lambda>dir.
            fbind (is_dir dir) (\<lambda>d.
            if \<not> d then fret (-1)
            else fbind (in_fs (extract_files newpath)) (\<lambda>fso.
              case fso of
                None \<Rightarrow> fret (-1)
              | Some files \<Rightarrow>
                  fbind (last_name files) (\<lambda>name.
                  fbind (look_in dir name) (\<lambda>found.
                  if found \<noteq> 0 then fret (-1)
                  else fbind (set_inode a (\<lambda>i. i\<lparr>i_links_count := i_links_count i + 1\<rparr>)) (\<lambda>_.
                    fbind (inode_number a) (\<lambda>n.
                    fbind (in_fs (add_inode_directory dir n EXT2_FT_REG_FILE name)) (\<lambda>r.
                    fret (if r < 0 then -1 else 0))))))))))))"

definition has_type :: "inode_t \<Rightarrow> u16 \<Rightarrow> bool" where
  "has_type i ty \<longleftrightarrow> i_mode i AND ty \<noteq> 0"

text \<open>What is done with a target that exists: whether the call goes on.\<close>

definition replace_target :: "ptr \<Rightarrow> ptr \<Rightarrow> byte list option \<Rightarrow> byte list list \<Rightarrow> bool fwm" where
  "replace_target old new new_name files =
     (if new = 0 then fret True
      else fbind (the_inode old) (\<lambda>i. fbind (the_inode new) (\<lambda>j.
        if has_type i EXT2_S_IFREG \<and> has_type j EXT2_S_IFREG then fbind (unlink_fs new_name) (\<lambda>_. fret True)
        else if has_type i EXT2_S_IFDIR \<and> has_type j EXT2_S_IFDIR then
          fbind (walk_and_get new_name 1) (\<lambda>dir.
          if dir = 0 then fret False
          else fbind (last_name files) (\<lambda>name.
            fbind (in_fs (remove_inode_dir dir (Some name))) (\<lambda>r. fret (r \<ge> 0))))
        else fret False)))"

definition link_new_name :: "ptr \<Rightarrow> ptr \<Rightarrow> byte list option \<Rightarrow> byte list option \<Rightarrow> byte list list \<Rightarrow> int fwm" where
  "link_new_name old dir old_name new_name files =
     fbind (the_inode old) (\<lambda>i.
     if has_type i EXT2_S_IFREG then sys_link old_name new_name
     else if has_type i EXT2_S_IFDIR then
       fbind (inode_number old) (\<lambda>n. fbind (last_name files) (\<lambda>name.
       in_fs (add_inode_directory dir n (map_ext2_types_to_dir_type (ucast (i_mode i))) name)))
     else fret 0)"

definition unlink_old_name :: "ptr \<Rightarrow> ptr \<Rightarrow> byte list option \<Rightarrow> byte list list \<Rightarrow> int fwm" where
  "unlink_old_name old dir old_name files =
     fbind (the_inode old) (\<lambda>i.
     if has_type i EXT2_S_IFREG then unlink_fs old_name
     else if has_type i EXT2_S_IFDIR then fbind (last_name files) (\<lambda>name. in_fs (remove_inode_dir dir (Some name)))
     else fret 0)"

definition rename_fs :: "byte list option \<Rightarrow> byte list option \<Rightarrow> int fwm" where
  "rename_fs old_name new_name =
     (if old_name = None \<or> new_name = None then fret (-1)
      else fbind (walk_and_get old_name 0) (\<lambda>old.
        if old = 0 then fret (-1)
        else fbind (walk_and_get new_name 0) (\<lambda>new.
          fbind (in_fs (extract_files new_name)) (\<lambda>fso.
          case fso of
            None \<Rightarrow> fret (-1)
          | Some new_files \<Rightarrow>
              fbind (replace_target old new new_name new_files) (\<lambda>go.
              if \<not> go then fret (-1)
              else fbind (walk_and_get new_name 1) (\<lambda>dir. fbind (walk_and_get old_name 1) (\<lambda>old_dir.
                if dir = 0 \<or> old_dir = 0 then fret (-1)
                else fbind (in_fs (extract_files old_name)) (\<lambda>fso.
                  case fso of
                    None \<Rightarrow> fret (-1)
                  | Some old_files \<Rightarrow>
                      fbind (inode_number dir) (\<lambda>n. fbind (inode_number old_dir) (\<lambda>m.
                      fbind (if n = m then fbind (last_name new_files) (\<lambda>x. fbind (last_name old_files) (\<lambda>y. fret (x = y)))
                             else fret False) (\<lambda>same.
                      if same then fret 0
                      else fbind (link_new_name old dir old_name new_name new_files) (\<lambda>r.
                        if r < 0 then fret (-1)
                        else fbind (unlink_old_name old old_dir old_name old_files) (\<lambda>r. fret (if r < 0 then -1 else 0))))))))))))))"

section \<open>Status\<close>

record stat =
  st_dev :: u32
  st_ino :: u64
  st_mode :: u32
  st_nlink :: u16
  st_uid :: u32
  st_gid :: u32
  st_rdev :: u32
  st_size :: s64
  st_blksize :: int
  st_blocks :: s64
  st_times :: "s64 \<times> s64 \<times> s64"

definition conf_stat_buf :: "ptr \<Rightarrow> (int \<times> stat option) fwm" where
  "conf_stat_buf a =
     fbind (fread (\<lambda>w. Inr (c_fs (fcache (fw_fs w)) = None))) (\<lambda>unmounted.
     if unmounted \<or> a = 0 then fret (-1, None)
     else
       fbind (inode_number a) (\<lambda>n. fbind (the_inode a) (\<lambda>i. fbind (in_fs fs_block_size) (\<lambda>bs.
       fret (0, Some \<lparr>st_dev = 1, st_ino = ucast n, st_mode = ext2_to_stat_mode (i_mode i), st_nlink = i_links_count i,
                      st_uid = 0, st_gid = 0, st_rdev = ucast EXT2_S_IFBLK, st_size = ucast (i_size i), st_blksize = sint bs,
                      st_blocks = ucast (i_blocks i * (bs div 512)), st_times = (0, 0, 0)\<rparr>)))))"

definition stat_fs :: "byte list option \<Rightarrow> bool \<Rightarrow> (int \<times> stat option) fwm" where
  "stat_fs path has_buf =
     (if path = None \<or> \<not> has_buf then fret (-1, None) else fbind (walk_and_get path 0) conf_stat_buf)"

text \<open>Descriptor 0 is refused.\<close>

definition fstat_fs :: "u32 \<Rightarrow> bool \<Rightarrow> (int \<times> stat option) fwm" where
  "fstat_fs fd has_buf =
     (if fd = 0 \<or> \<not> has_buf then fret (-1, None)
      else fbind (get_fs_list_elt 0 (sint fd)) (\<lambda>a.
        if a = 0 then fret (-1, None) else fbind (file_at a) (\<lambda>f. conf_stat_buf (fl_inode f))))"

record disk_info =
  total_blocks :: u32
  free_blocks_nb :: u32
  total_inodes :: u32
  free_inodes :: u32

definition fs_info :: "disk_info option \<Rightarrow> fworld \<Rightarrow> disk_info option" where
  "fs_info info w =
     (case (info, get_super_block (fw_fs w)) of
        (Some _, Some p) \<Rightarrow>
          Some \<lparr>total_blocks = s_blocks_count p, free_blocks_nb = s_free_blocks_count p, total_inodes = s_inodes_count p,
                free_inodes = s_free_inodes_count p\<rparr>
      | _ \<Rightarrow> info)"

definition access_fs :: "byte list option \<Rightarrow> int \<Rightarrow> int" where
  "access_fs path flag = 0"

section \<open>Device files\<close>

definition mknod :: "byte list option \<Rightarrow> u32 \<Rightarrow> int fwm" where
  "mknod path dev =
     (let major = device_number dev in
      if path = None \<or> major \<ge> NUM_DEV \<or> major = 0 then fret (-1)
      else fbind (fread (\<lambda>w. if c_fs (fcache (fw_fs w)) = None then Inr True
                            else if major \<ge> length (fw_devices w) then Inl Out_of_bounds else Inr (fw_devices w ! major))) (\<lambda>ok.
        if \<not> ok then fret (-1)
        else fbind (in_fs (extract_files path)) (\<lambda>fso.
          case fso of
            None \<Rightarrow> fret (-1)
          | Some files \<Rightarrow>
              fbind (walk_and_get path 1) (\<lambda>dir.
              fbind (is_dir dir) (\<lambda>d.
              if \<not> d then fret (-1)
              else fbind (last_name files) (\<lambda>name.
                fbind (look_in dir name) (\<lambda>found.
                if found \<noteq> 0 then fret (-1)
                else fbind (new_in_dir dir EXT2_S_IFCHR (\<lambda>i. i\<lparr>i_osd1 := dev\<rparr>) EXT2_FT_CHRDEV name) (\<lambda>ao.
                  fret (if ao = None then -1 else 0)))))))))"

end
