(* ===== verification/FdInv.thy ===== *)
theory FdInv
  imports FileCalls Bitmap
begin

text \<open>
  The descriptor tables are consistent: in every process the descriptors are the bits of its map, and an
  open file counts the descriptors, of all processes, that refer to it. Every call on files keeps this.
\<close>

section \<open>Sequencing\<close>

named_theorems keeps_intros \<open>computations that leave the tables alone\<close>
named_theorems preserves_intros \<open>computations that keep the invariant\<close>

lemma fbind_Inr_iff: "fbind m f w = Inr r \<longleftrightarrow> (\<exists>a w1. m w = Inr (a, w1) \<and> f a w1 = Inr r)"
  by (cases "m w") (auto simp: fbind_def)

lemma fbindE:
  assumes "fbind m f w = Inr r"
  obtains a w1 where "m w = Inr (a, w1)" "f a w1 = Inr r"
  using assms by (auto simp: fbind_Inr_iff)

lemma fbind_Inr [simp]: "m w = Inr (a, w1) \<Longrightarrow> fbind m f w = f a w1"
  by (simp add: fbind_def)

lemma fret_Inr_iff [simp]: "fret a w = Inr (b, w') \<longleftrightarrow> b = a \<and> w' = w"
  by (auto simp: fret_def)

lemma ffail_Inr_iff [simp]: "\<not> ffail e w = Inr r"
  by (simp add: ffail_def)

lemma fread_Inr_iff: "fread f w = Inr (a, w') \<longleftrightarrow> f w = Inr a \<and> w' = w"
  by (cases "f w") (auto simp: fread_def)

lemma file_at_Inr_iff: "file_at a w = Inr (f, w') \<longleftrightarrow> a \<noteq> 0 \<and> fw_files w a = Some f \<and> w' = w"
  by (auto simp: file_at_def fread_Inr_iff split: option.splits)

lemma proc_at_Inr_iff: "proc_at p w = Inr (f, w') \<longleftrightarrow> p \<noteq> 0 \<and> fw_procs w p = Some f \<and> w' = w"
  by (auto simp: proc_at_def fread_Inr_iff split: option.splits)

lemma upd_file_Inr_iff:
  "upd_file a g w = Inr (u, w') \<longleftrightarrow> a \<noteq> 0 \<and> (\<exists>f. fw_files w a = Some f \<and> w' = w\<lparr>fw_files := (fw_files w)(a \<mapsto> g f)\<rparr>)"
  by (auto simp: upd_file_def fbind_Inr_iff file_at_Inr_iff fupd_def)

lemma upd_proc_Inr_iff:
  "upd_proc p g w = Inr (u, w') \<longleftrightarrow> p \<noteq> 0 \<and> (\<exists>f. fw_procs w p = Some f \<and> w' = w\<lparr>fw_procs := (fw_procs w)(p \<mapsto> g f)\<rparr>)"
  by (auto simp: upd_proc_def fbind_Inr_iff proc_at_Inr_iff fupd_def)

lemma in_fs_Inr_iff: "in_fs m w = Inr (a, w') \<longleftrightarrow> (\<exists>s. m (fw_fs w) = Inr (a, s) \<and> w' = w\<lparr>fw_fs := s\<rparr>)"
  by (cases "m (fw_fs w)") (auto simp: in_fs_def)

lemma in_pipes_Inr_iff: "in_pipes m w = Inr (a, w') \<longleftrightarrow> (\<exists>s. m (fw_pw w) = Inr (a, s) \<and> w' = w\<lparr>fw_pw := s\<rparr>)"
  by (cases "m (fw_pw w)") (auto simp: in_pipes_def)

lemmas fw_iffs = fbind_Inr_iff fread_Inr_iff file_at_Inr_iff proc_at_Inr_iff upd_file_Inr_iff upd_proc_Inr_iff
  in_fs_Inr_iff in_pipes_Inr_iff

section \<open>Computations that leave the tables alone\<close>

definition same_tables :: "fworld \<Rightarrow> fworld \<Rightarrow> bool" where
  "same_tables w w' \<longleftrightarrow> fw_procs w' = fw_procs w \<and> fw_fresh w \<le> fw_fresh w' \<and>
     (\<forall>a. map_option fl_usage (fw_files w' a) = map_option fl_usage (fw_files w a))"

lemma same_tables_refl [simp, intro]: "same_tables w w"
  by (simp add: same_tables_def)

lemma same_tables_trans: "same_tables w w' \<Longrightarrow> same_tables w' w'' \<Longrightarrow> same_tables w w''"
  by (simp add: same_tables_def)

definition keeps :: "'a fwm \<Rightarrow> bool" where
  "keeps m \<longleftrightarrow> (\<forall>w r w'. m w = Inr (r, w') \<longrightarrow> same_tables w w')"

lemma keepsD: "keeps m \<Longrightarrow> m w = Inr (r, w') \<Longrightarrow> same_tables w w'"
  by (simp add: keeps_def)

lemma keeps_basic [keeps_intros, simp]:
  "keeps (fret a)" "keeps (ffail e)" "keeps (fread f)" "keeps (in_fs g)" "keeps (in_pipes h)"
  by (auto simp: keeps_def ffail_def fw_iffs same_tables_def)

lemma keeps_bind [keeps_intros]: "keeps m \<Longrightarrow> (\<And>a. keeps (f a)) \<Longrightarrow> keeps (fbind m f)"
  unfolding keeps_def fbind_Inr_iff using same_tables_trans by fast

lemma keeps_if [keeps_intros]: "keeps m \<Longrightarrow> keeps n \<Longrightarrow> keeps (if b then m else n)"
  by simp

lemma keeps_option [keeps_intros]: "keeps m \<Longrightarrow> (\<And>a. keeps (f a)) \<Longrightarrow> keeps (case x of None \<Rightarrow> m | Some a \<Rightarrow> f a)"
  by (cases x) simp_all

lemma keeps_pair [keeps_intros]: "(\<And>a b. keeps (f a b)) \<Longrightarrow> keeps (case x of (a, b) \<Rightarrow> f a b)"
  by (cases x) simp_all

lemma keeps_let [keeps_intros]: "(\<And>a. keeps (f a)) \<Longrightarrow> keeps (let a = x in f a)"
  by simp

lemma keeps_upd_file [keeps_intros]: "(\<And>f. fl_usage (g f) = fl_usage f) \<Longrightarrow> keeps (upd_file a g)"
  by (auto simp: keeps_def fw_iffs same_tables_def)

lemma keeps_walk [keeps_intros]:
  "keeps (proc_or_current p)" "keeps (inode_number a)" "keeps (the_inode a)" "keeps (file_at a)" "keeps (proc_at p)"
  by (simp_all add: proc_or_current_def inode_number_def the_inode_def file_at_def proc_at_def)

lemma keeps_walk_from: "keeps cur \<Longrightarrow> keeps (walk_from cur path back)"
  unfolding walk_from_def by (intro keeps_intros)

lemma keeps_walk_and_get [keeps_intros]: "keeps (walk_and_get path back)"
  unfolding walk_and_get_def get_current_dir_def dir_of_proc_def
  by (intro keeps_walk_from keeps_intros)

lemma keeps_links [keeps_intros]:
  "keeps (link_of p fd)" "keeps (get_fs_list_elt p fd)" "keeps (get_open_fd_elt p fd)"
  unfolding get_fs_list_elt_def get_open_fd_elt_def link_of_def by (intro keeps_intros)+

lemma keeps_names [keeps_intros]:
  "keeps (last_name files)" "keeps (set_inode a f)" "keeps (look_in d nm)" "keeps (is_dir d)"
  "keeps (new_in_dir d md h ty nm)" "keeps (open_create path files flags)"
  unfolding open_create_def new_in_dir_def is_dir_def look_in_def set_inode_def last_name_def by (intro keeps_intros)+

lemma keeps_configure [keeps_intros]: "keeps (configure_file e a flags)"
  unfolding configure_file_def by (intro keeps_intros) (simp_all add: access_mode_def)

lemma keeps_unlock [keeps_intros]: "keeps (unlock_address blk)"
  by (auto simp: keeps_def unlock_address_def fupd_def same_tables_def)

lemma keeps_io [keeps_intros]:
  "keeps block_size_of" "keeps (room_for_write f bs n)" "keeps (device_of i)"
  unfolding block_size_of_def room_for_write_def device_of_def by (intro keeps_intros)+

lemma keeps_write_part [keeps_intros]: "keeps (write_part a f bs blk buf cnt n)"
  unfolding write_part_def Let_def by (intro keeps_intros) simp

lemma keeps_read_part [keeps_intros]: "keeps (read_part a f bs blk cnt n)"
  unfolding read_part_def Let_def by (intro keeps_intros) simp

lemma keeps_write_loop [keeps_intros]: "keeps (write_loop n a buf cnt k actual)"
proof (induction n arbitrary: k actual)
  case (Suc n)
  show ?case unfolding write_loop.simps by (intro keeps_intros Suc.IH)
qed simp

lemma keeps_read_loop [keeps_intros]: "keeps (read_loop n a cnt k acc actual)"
proof (induction n arbitrary: k acc)
  case (Suc n)
  show ?case unfolding read_loop.simps by (intro keeps_intros Suc.IH)
qed simp

lemma keeps_calls [keeps_intros]:
  "keeps (write_fs fd buf cnt)" "keeps (read_fs fd cnt)"
  unfolding write_fs_def write_inode_file_def read_fs_def read_inode_file_def by (intro keeps_intros)+

lemma keeps_lseek [keeps_intros]: "keeps (lseek fd off wh)"
  unfolding lseek_def
  by (intro keeps_intros) (simp add: clamp_position_def seek_position_def)

section \<open>The invariant\<close>

text \<open>The descriptors of a process and the open files behind them, in the order of the links.\<close>

definition fds :: "fproc \<Rightarrow> int list" where
  "fds p = map (\<lambda>l. of_fd (the l)) (open_files p)"

definition files_of :: "fproc \<Rightarrow> ptr list" where
  "files_of p = map (\<lambda>l. of_file (the l)) (open_files p)"

text \<open>No link is a freed one, no descriptor is there twice, and the map has the bits of the descriptors.\<close>

definition fd_table_ok :: "fproc \<Rightarrow> bool" where
  "fd_table_ok p \<longleftrightarrow> length (fd_bitmap p) = SIZE_BIT_MAP \<and> None \<notin> set (open_files p) \<and> distinct (fds p) \<and>
     (\<forall>fd \<in> set (fds p). 0 \<le> fd \<and> fd < MAX_FS) \<and>
     (\<forall>n < 512. bbit (fd_bitmap p) n \<longleftrightarrow> int n \<in> set (fds p))"

text \<open>How many descriptors of all processes refer to an open file.\<close>

definition refs :: "ptr \<Rightarrow> (ptr \<rightharpoonup> fproc) \<Rightarrow> nat" where
  "refs a procs = (\<Sum>q \<in> dom procs. count_list (files_of (the (procs q))) a)"

definition counts_ok :: "fworld \<Rightarrow> bool" where
  "counts_ok w \<longleftrightarrow> (\<forall>a. case fw_files w a of
       None \<Rightarrow> refs a (fw_procs w) = 0
     | Some f \<Rightarrow> unat (fl_usage f) = refs a (fw_procs w) \<and> refs a (fw_procs w) > 0)"

lemma countsD:
  assumes "counts_ok w"
  shows "fw_files w a = None \<Longrightarrow> refs a (fw_procs w) = 0"
    "fw_files w a = Some f \<Longrightarrow> unat (fl_usage f) = refs a (fw_procs w)"
    "fw_files w a = Some f \<Longrightarrow> refs a (fw_procs w) > 0"
  using spec [OF assms [unfolded counts_ok_def], of a] by simp_all

definition room_ok :: "fworld \<Rightarrow> bool" where
  "room_ok w \<longleftrightarrow> finite (dom (fw_procs w)) \<and> card (dom (fw_procs w)) < 2 ^ 22 \<and> fw_procs w 0 = None \<and>
     0 < fw_fresh w \<and> fw_files w 0 = None \<and> (\<forall>a \<ge> fw_fresh w. fw_files w a = None)"

definition fd_inv :: "fworld \<Rightarrow> bool" where
  "fd_inv w \<longleftrightarrow> room_ok w \<and> counts_ok w \<and> (\<forall>q p. fw_procs w q = Some p \<longrightarrow> fd_table_ok p)"

lemma table_size:
  assumes "fd_table_ok p"
  shows "length (open_files p) \<le> 512"
proof -
  have "set (fds p) \<subseteq> {0 ..< 512}" using assms by (auto simp: fd_table_ok_def MAX_FS_def)
  then have "card (set (fds p)) \<le> 512" using card_mono [of "{0 ..< 512 :: int}"] by fastforce
  moreover have "card (set (fds p)) = length (fds p)" using assms by (intro distinct_card) (simp add: fd_table_ok_def)
  ultimately show ?thesis by (simp add: fds_def)
qed

lemma refs_bound:
  assumes "fd_inv w"
  shows "refs a (fw_procs w) + 512 \<le> 2 ^ 31"
proof -
  have "count_list (files_of (the (fw_procs w q))) a \<le> 512" if "q \<in> dom (fw_procs w)" for q
  proof -
    obtain p where p: "fw_procs w q = Some p" using \<open>q \<in> dom (fw_procs w)\<close> by auto
    then have "length (open_files p) \<le> 512" using assms table_size by (auto simp: fd_inv_def)
    then show ?thesis using p count_le_length [of "files_of p" a] by (simp add: files_of_def)
  qed
  then have "refs a (fw_procs w) \<le> card (dom (fw_procs w)) * 512"
    unfolding refs_def using sum_bounded_above [of "dom (fw_procs w)" "\<lambda>q. count_list (files_of (the (fw_procs w q))) a" 512] by simp
  then show ?thesis using assms by (simp add: fd_inv_def room_ok_def)
qed

lemma refs_upd:
  assumes "finite (dom procs)"
  shows "procs p = Some fp \<Longrightarrow> refs a (procs(p \<mapsto> fp')) + count_list (files_of fp) a = refs a procs + count_list (files_of fp') a"
    "procs p = None \<Longrightarrow> refs a (procs(p \<mapsto> fp')) = refs a procs + count_list (files_of fp') a"
proof -
  let ?c = "\<lambda>procs q. count_list (files_of (the (procs q))) a"
  have other: "(\<Sum>q \<in> dom procs - {p}. ?c (procs(p \<mapsto> fp')) q) = (\<Sum>q \<in> dom procs - {p}. ?c procs q)"
    by (intro sum.cong) auto
  have new: "refs a (procs(p \<mapsto> fp')) = count_list (files_of fp') a + (\<Sum>q \<in> dom procs - {p}. ?c procs q)"
    using assms other by (simp add: refs_def sum.insert_remove)
  show "procs p = Some fp \<Longrightarrow> refs a (procs(p \<mapsto> fp')) + count_list (files_of fp) a = refs a procs + count_list (files_of fp') a"
  proof -
    assume "procs p = Some fp"
    then have "refs a procs = count_list (files_of fp) a + (\<Sum>q \<in> dom procs - {p}. ?c procs q)"
      using assms sum.remove [of "dom procs" p "?c procs"] by (simp add: refs_def domI)
    then show "refs a (procs(p \<mapsto> fp')) + count_list (files_of fp) a = refs a procs + count_list (files_of fp') a"
      using new by simp
  qed
  show "procs p = None \<Longrightarrow> refs a (procs(p \<mapsto> fp')) = refs a procs + count_list (files_of fp') a"
    using new by (simp add: refs_def domIff)
qed

lemma refs_eq: "files_of fp' = files_of fp \<Longrightarrow> procs p = Some fp \<Longrightarrow> finite (dom procs) \<Longrightarrow> refs a (procs(p \<mapsto> fp')) = refs a procs"
  using refs_upd(1) [of procs p fp a fp'] by simp

lemma same_tables_inv:
  assumes "same_tables w w'" "fd_inv w"
  shows "fd_inv w'"
proof -
  have f: "fw_procs w' = fw_procs w" "fw_fresh w \<le> fw_fresh w'" "\<And>a. map_option fl_usage (fw_files w' a) = map_option fl_usage (fw_files w a)"
    using assms(1) by (simp_all add: same_tables_def)
  have n: "fw_files w' a = None \<longleftrightarrow> fw_files w a = None" for a using f(3) [of a] by (metis map_option_is_None)
  have "counts_ok w'"
    unfolding counts_ok_def
  proof
    fix a
    show "case fw_files w' a of None \<Rightarrow> refs a (fw_procs w') = 0
      | Some f \<Rightarrow> unat (fl_usage f) = refs a (fw_procs w') \<and> refs a (fw_procs w') > 0"
    proof -
      have "case fw_files w a of None \<Rightarrow> refs a (fw_procs w) = 0
        | Some f \<Rightarrow> unat (fl_usage f) = refs a (fw_procs w) \<and> refs a (fw_procs w) > 0"
        using assms(2) unfolding fd_inv_def counts_ok_def by blast
      then show ?thesis using f(1) f(3) [of a] by (cases "fw_files w a"; cases "fw_files w' a") auto
    qed
  qed
  moreover have "room_ok w'" using assms(2) f(1,2) n by (simp add: fd_inv_def room_ok_def)
  ultimately show ?thesis using assms(2) f(1) by (simp add: fd_inv_def)
qed

section \<open>Adding and removing links\<close>

lemma alloc_fd:
  assumes "length bits = SIZE_BIT_MAP"
  shows "alloc_bit_fdmap bits = -1 \<Longrightarrow> n < 512 \<Longrightarrow> bbit bits n"
    "alloc_bit_fdmap bits \<noteq> -1 \<Longrightarrow> \<exists>k < 512. alloc_bit_fdmap bits = int k \<and> \<not> bbit bits k \<and> (\<forall>m < k. bbit bits m)"
proof -
  have e: "alloc_bit_fdmap bits = alloc_bit_bitmap bits 64"
    by (simp add: alloc_bit_fdmap_def alloc_bit_bitmap_def SIZE_BIT_MAP_def)
  have l: "unat (64 :: u32) = length bits" "8 dvd length bits" "8 * length bits = 512" using assms by (simp_all add: SIZE_BIT_MAP_def)
  show "alloc_bit_fdmap bits = -1 \<Longrightarrow> n < 512 \<Longrightarrow> bbit bits n"
    using alloc_bit_spec(1) [OF l(1,2), of n] l(3) e by simp
  show "alloc_bit_fdmap bits \<noteq> -1 \<Longrightarrow> \<exists>k < 512. alloc_bit_fdmap bits = int k \<and> \<not> bbit bits k \<and> (\<forall>m < k. bbit bits m)"
    using alloc_bit_spec(2) [OF l(1,2)] l(3) e by auto
qed

lemma set_fd_bitE:
  assumes "set_fd_bit fd bits = Inr bits'" "length bits = SIZE_BIT_MAP"
  shows "0 \<le> fd" "fd < MAX_FS" "length bits' = SIZE_BIT_MAP" "bbit bits' n \<longleftrightarrow> int n = fd \<or> bbit bits n"
proof -
  have f: "0 \<le> fd" "fd div 8 < 64" and b: "bits' = bits[nat fd div 8 := set_bit_at (nat fd) bits]"
    using assms(1) by (auto simp: set_fd_bit_def SIZE_BIT_MAP_def split: if_split_asm)
  then show "0 \<le> fd" "fd < MAX_FS" "length bits' = SIZE_BIT_MAP" using assms(2) by (simp_all add: MAX_FS_def)
  have "nat fd div 8 < length bits" using f assms(2) by (simp add: SIZE_BIT_MAP_def)
  then show "bbit bits' n \<longleftrightarrow> int n = fd \<or> bbit bits n" using bbit_update(1) [of "nat fd" bits n] b f(1) by auto
qed

lemma clear_fd_bitE:
  assumes "clear_fd_bit fd bits = Inr bits'" "length bits = SIZE_BIT_MAP"
  shows "0 \<le> fd" "length bits' = SIZE_BIT_MAP" "bbit bits' n \<longleftrightarrow> int n \<noteq> fd \<and> bbit bits n"
proof -
  have f: "0 \<le> fd" "fd div 8 < 64" and b: "bits' = bits[nat fd div 8 := clear_bit_at (nat fd) bits]"
    using assms(1) by (auto simp: clear_fd_bit_def SIZE_BIT_MAP_def split: if_split_asm)
  then show "0 \<le> fd" "length bits' = SIZE_BIT_MAP" using assms(2) by simp_all
  have "nat fd div 8 < length bits" using f assms(2) by (simp add: SIZE_BIT_MAP_def)
  then show "bbit bits' n \<longleftrightarrow> int n \<noteq> fd \<and> bbit bits n" using bbit_update(2) [of "nat fd" bits n] b f(1) by auto
qed

lemma table_add:
  assumes "fd_table_ok p" "of_fd e \<notin> set (fds p)" "set_fd_bit (of_fd e) (fd_bitmap p) = Inr bits"
  shows "fd_table_ok (p\<lparr>fd_bitmap := bits, open_files := Some e # open_files p\<rparr>)"
  using assms set_fd_bitE [OF assms(3)] by (auto simp: fd_table_ok_def fds_def)

lemma find_fdE:
  "find_fd fd ls = Inr (Some e) \<Longrightarrow> of_fd e = fd \<and> (\<exists>xs ys. ls = xs @ Some e # ys \<and> remove_fd fd ls = xs @ ys)"
proof (induction ls rule: find_fd.induct)
  case (3 fd x ls)
  show ?case
  proof (cases "of_fd x = fd")
    case True
    then show ?thesis using 3 by (auto intro: exI [of _ "[]"])
  next
    case False
    then obtain xs ys where "of_fd e = fd" "ls = xs @ Some e # ys" "remove_fd fd ls = xs @ ys" using 3 by auto
    then have "Some x # ls = (Some x # xs) @ Some e # ys \<and> remove_fd fd (Some x # ls) = (Some x # xs) @ ys" using False by simp
    then show ?thesis using \<open>of_fd e = fd\<close> by blast
  qed
qed simp_all

lemma find_fd_None: "find_fd fd ls = Inr None \<Longrightarrow> fd \<notin> set (map (\<lambda>l. of_fd (the l)) ls)"
  by (induction ls rule: find_fd.induct) (auto split: if_split_asm)

lemma find_fd_table: "None \<notin> set ls \<Longrightarrow> find_fd fd ls \<noteq> Inl e"
  by (induction fd ls rule: find_fd.induct) auto

lemma table_remove:
  assumes "fd_table_ok p" "find_fd fd (open_files p) = Inr (Some e)" "clear_fd_bit fd (fd_bitmap p) = Inr bits"
  shows "fd_table_ok (p\<lparr>fd_bitmap := bits, open_files := remove_fd fd (open_files p)\<rparr>)"
    "count_list (files_of (p\<lparr>fd_bitmap := bits, open_files := remove_fd fd (open_files p)\<rparr>)) a +
       (if a = of_file e then 1 else 0) = count_list (files_of p) a"
    "fd \<notin> set (fds (p\<lparr>fd_bitmap := bits, open_files := remove_fd fd (open_files p)\<rparr>))"
proof -
  obtain xs ys where o: "of_fd e = fd" "open_files p = xs @ Some e # ys" "remove_fd fd (open_files p) = xs @ ys"
    using find_fdE [OF assms(2)] by blast
  have d: "distinct (fds p)" "length (fd_bitmap p) = SIZE_BIT_MAP" using assms(1) by (simp_all add: fd_table_ok_def)
  show nf: "fd \<notin> set (fds (p\<lparr>fd_bitmap := bits, open_files := remove_fd fd (open_files p)\<rparr>))"
    using d(1) o by (auto simp: fds_def)
  show "count_list (files_of (p\<lparr>fd_bitmap := bits, open_files := remove_fd fd (open_files p)\<rparr>)) a +
       (if a = of_file e then 1 else 0) = count_list (files_of p) a"
    using o by (simp add: files_of_def)
  have "bbit bits n \<longleftrightarrow> int n \<in> set (fds (p\<lparr>fd_bitmap := bits, open_files := xs @ ys\<rparr>))" if "n < 512" for n
    using assms(1) that clear_fd_bitE(3) [OF assms(3) d(2), of n] nf o by (auto simp: fd_table_ok_def fds_def)
  then show "fd_table_ok (p\<lparr>fd_bitmap := bits, open_files := remove_fd fd (open_files p)\<rparr>)"
    using assms(1) o clear_fd_bitE(2) [OF assms(3) d(2)] by (auto simp: fd_table_ok_def fds_def)
qed

text \<open>One more or one less reference to an open file.\<close>

lemma counts_step:
  assumes "counts_ok w" "\<And>b. b \<noteq> a \<Longrightarrow> fw_files w' b = fw_files w b \<and> refs b (fw_procs w') = refs b (fw_procs w)"
    "case fw_files w' a of None \<Rightarrow> refs a (fw_procs w') = 0
       | Some f \<Rightarrow> unat (fl_usage f) = refs a (fw_procs w') \<and> refs a (fw_procs w') > 0"
  shows "counts_ok w'"
  unfolding counts_ok_def
proof
  fix b
  show "case fw_files w' b of None \<Rightarrow> refs b (fw_procs w') = 0
      | Some f \<Rightarrow> unat (fl_usage f) = refs b (fw_procs w') \<and> refs b (fw_procs w') > 0"
    using assms unfolding counts_ok_def by (cases "b = a") metis+
qed

lemma refs_add:
  assumes "finite (dom procs)" "procs p = Some fp" "files_of fp' = a # files_of fp"
  shows "refs b (procs(p \<mapsto> fp')) = refs b procs + (if b = a then 1 else 0)"
  using refs_upd(1) [OF assms(1,2), of b fp'] assms(3) by (cases "b = a") auto

lemma usage_plus: "unat (u :: u32) < 2 ^ 31 \<Longrightarrow> unat (u + 1) = unat u + 1"
  by (simp add: unat_word_ariths)

section \<open>The invariant is kept\<close>

definition preserves :: "'a fwm \<Rightarrow> bool" where
  "preserves m \<longleftrightarrow> (\<forall>w r w'. fd_inv w \<longrightarrow> m w = Inr (r, w') \<longrightarrow> fd_inv w')"

lemma keeps_preserves: "keeps m \<Longrightarrow> preserves m"
  unfolding keeps_def preserves_def using same_tables_inv by fast

lemma preserves_bind [preserves_intros]: "preserves m \<Longrightarrow> (\<And>a. preserves (f a)) \<Longrightarrow> preserves (fbind m f)"
  unfolding preserves_def fbind_Inr_iff by blast

lemma preserves_if [preserves_intros]: "preserves m \<Longrightarrow> preserves n \<Longrightarrow> preserves (if b then m else n)"
  by simp

lemma preserves_option [preserves_intros]:
  "preserves m \<Longrightarrow> (\<And>a. preserves (f a)) \<Longrightarrow> preserves (case x of None \<Rightarrow> m | Some a \<Rightarrow> f a)"
  by (cases x) simp_all

lemma preserves_fret [preserves_intros]: "preserves (fret a)"
  by (simp add: keeps_preserves)

lemma inv_link:
  assumes inv: "fd_inv w" and p: "fw_procs w p = Some fp" and new: "of_fd e \<notin> set (fds fp)"
    and bits: "set_fd_bit (of_fd e) (fd_bitmap fp) = Inr bits"
    and fcase: "case fw_files w (of_file e) of
        None \<Rightarrow> of_file e = fw_fresh w \<and> unat (fl_usage f') = 1 \<and> fresh' = Suc (fw_fresh w)
      | Some f \<Rightarrow> fl_usage f' = fl_usage f + 1 \<and> fresh' = fw_fresh w"
    and w': "fw_procs w' = (fw_procs w)(p \<mapsto> fp\<lparr>fd_bitmap := bits, open_files := Some e # open_files fp\<rparr>)"
      "fw_files w' = (fw_files w)(of_file e \<mapsto> f')" "fw_fresh w' = fresh'"
  shows "fd_inv w'"
proof -
  let ?fp = "fp\<lparr>fd_bitmap := bits, open_files := Some e # open_files fp\<rparr>"
  have i: "room_ok w" "counts_ok w" "fd_table_ok fp" using inv p by (auto simp: fd_inv_def)
  have fin: "finite (dom (fw_procs w))" using i(1) by (simp add: room_ok_def)
  have r: "refs b (fw_procs w') = refs b (fw_procs w) + (if b = of_file e then 1 else 0)" for b
    using refs_add [OF fin p, of ?fp "of_file e" b] by (simp add: files_of_def w')
  have "counts_ok w'"
  proof (rule counts_step [OF i(2), of "of_file e"])
    have "unat (fl_usage f') = refs (of_file e) (fw_procs w) + 1"
    proof (cases "fw_files w (of_file e)")
      case None
      then have "refs (of_file e) (fw_procs w) = 0" using countsD i(2) by blast
      then show ?thesis using fcase None by simp
    next
      case (Some f)
      then have "unat (fl_usage f) = refs (of_file e) (fw_procs w)" using countsD i(2) by blast
      then show ?thesis using fcase Some refs_bound [OF inv, of "of_file e"] usage_plus by simp
    qed
    then show "case fw_files w' (of_file e) of None \<Rightarrow> refs (of_file e) (fw_procs w') = 0
       | Some f \<Rightarrow> unat (fl_usage f) = refs (of_file e) (fw_procs w') \<and> refs (of_file e) (fw_procs w') > 0"
      using r by (simp add: w')
  qed (use r in \<open>simp add: w'\<close>)
  moreover have "room_ok w'"
  proof -
    have b: "a < fw_fresh w" if "fw_files w a = Some f" for a f
      using i(1) that unfolding room_ok_def by (metis not_less option.distinct(1))
    have z: "fw_files w 0 = None" "0 < fw_fresh w" using i(1) by (simp_all add: room_ok_def)
    have "of_file e \<noteq> 0 \<and> of_file e < fresh' \<and> fw_fresh w \<le> fresh'"
    proof (cases "fw_files w (of_file e)")
      case None
      then show ?thesis using fcase z by simp
    next
      case (Some f)
      then show ?thesis using fcase z b by (cases "of_file e = 0") auto
    qed
    moreover have "p \<noteq> 0" using p i(1) unfolding room_ok_def by (metis option.distinct(1))
    ultimately show ?thesis using i(1) p by (auto simp: room_ok_def w' insert_absorb domI)
  qed
  moreover have "fd_table_ok ?fp" using table_add [OF i(3) new bits] .
  ultimately show ?thesis using inv by (auto simp: fd_inv_def w')
qed

lemma not_in_fds: "fd_table_ok p \<Longrightarrow> 0 \<le> fd \<Longrightarrow> fd < 512 \<Longrightarrow> \<not> bbit (fd_bitmap p) (nat fd) \<Longrightarrow> fd \<notin> set (fds p)"
  by (auto simp: fd_table_ok_def)

lemma allocated_fd:
  assumes "fd_table_ok p" "set_fd_bit (alloc_bit_fdmap (fd_bitmap p)) (fd_bitmap p) = Inr bits"
  shows "alloc_bit_fdmap (fd_bitmap p) \<notin> set (fds p)"
proof -
  have l: "length (fd_bitmap p) = SIZE_BIT_MAP" using assms(1) by (simp add: fd_table_ok_def)
  have "alloc_bit_fdmap (fd_bitmap p) \<noteq> -1" using set_fd_bitE(1) [OF assms(2) l] by auto
  then obtain k where "k < 512" "alloc_bit_fdmap (fd_bitmap p) = int k" "\<not> bbit (fd_bitmap p) k" using alloc_fd(2) [OF l] by blast
  then show ?thesis using not_in_fds [OF assms(1), of "int k"] by simp
qed

lemma inv_fs [simp]: "fd_inv (w\<lparr>fw_fs := s\<rparr>) = fd_inv w" "fd_inv (w\<lparr>fw_pw := k\<rparr>) = fd_inv w"
  by (simp_all add: fd_inv_def room_ok_def counts_ok_def cong: option.case_cong)

lemma preserves_new [preserves_intros]: "preserves (add_new_element_open_files p)"
  unfolding preserves_def
proof (intro allI impI)
  fix w r w'
  assume inv: "fd_inv w" and m: "add_new_element_open_files p w = Inr (r, w')"
  show "fd_inv w'"
  proof (cases r)
    case None
    then have "\<exists>s. w' = w\<lparr>fw_fs := s\<rparr> \<or> w' = w"
      using m by (auto simp: add_new_element_open_files_def proc_or_current_def fw_iffs Let_def split: if_split_asm)
    then show ?thesis using inv by auto
  next
    case (Some e)
    obtain q fp bits where q: "fw_procs w q = Some fp" "set_fd_bit (alloc_bit_fdmap (fd_bitmap fp)) (fd_bitmap fp) = Inr bits"
      "e = \<lparr>of_fd = alloc_bit_fdmap (fd_bitmap fp), of_file = fw_fresh w\<rparr>"
      "fw_procs w' = (fw_procs w)(q \<mapsto> fp\<lparr>fd_bitmap := bits, open_files := Some e # open_files fp\<rparr>)"
      "fw_files w' = (fw_files w)(of_file e \<mapsto> new_flip (fw_stale w))" "fw_fresh w' = Suc (fw_fresh w)"
      using m Some by (auto simp: add_new_element_open_files_def add_link_def fupd_def fw_iffs proc_or_current_def Let_def split: if_split_asm)
    have "fd_table_ok fp" using inv q(1) by (simp add: fd_inv_def)
    then have "of_fd e \<notin> set (fds fp)" using allocated_fd q(2,3) by simp
    moreover have "fw_files w (of_file e) = None" using inv q(3) by (simp add: fd_inv_def room_ok_def)
    ultimately show ?thesis using q by (intro inv_link [OF inv q(1), of e bits "new_flip (fw_stale w)" "Suc (fw_fresh w)"]) (simp_all add: new_flip_def)
  qed
qed

text \<open>A duplicate, for a descriptor that is free.\<close>

lemma dup_inv:
  assumes inv: "fd_inv w" and m: "dup_open_file p a fd w = Inr (r, w')"
    and free: "\<And>q fp. fd \<ge> 0 \<Longrightarrow> proc_or_current p w = Inr (q, w) \<Longrightarrow> fw_procs w q = Some fp \<Longrightarrow> fd \<notin> set (fds fp)"
  shows "fd_inv w'"
proof (cases r)
  case None
  then have "\<exists>s. w' = w\<lparr>fw_fs := s\<rparr> \<or> w' = w"
    using m by (auto simp: dup_open_file_def proc_or_current_def fw_iffs Let_def split: if_split_asm)
  then show ?thesis using inv by auto
next
  case (Some e)
  obtain q fp bits f where q: "proc_or_current p w = Inr (q, w)" "fw_procs w q = Some fp"
    "set_fd_bit (of_fd e) (fd_bitmap fp) = Inr bits"
    "e = \<lparr>of_fd = (if fd < 0 then alloc_bit_fdmap (fd_bitmap fp) else fd), of_file = a\<rparr>" "fw_files w a = Some f"
    "fw_procs w' = (fw_procs w)(q \<mapsto> fp\<lparr>fd_bitmap := bits, open_files := Some e # open_files fp\<rparr>)"
    "fw_files w' = (fw_files w)(of_file e \<mapsto> f\<lparr>fl_usage := fl_usage f + 1\<rparr>)" "fw_fresh w' = fw_fresh w"
    using m Some by (auto simp: dup_open_file_def add_link_def fw_iffs proc_or_current_def Let_def split: if_split_asm)
  have t: "fd_table_ok fp" using inv q(2) by (simp add: fd_inv_def)
  have "of_fd e \<notin> set (fds fp)" using allocated_fd [OF t] free [OF _ q(1,2)] q(3,4) by (auto split: if_split_asm)
  then show ?thesis using q by (intro inv_link [OF inv q(2), of e bits "f\<lparr>fl_usage := fl_usage f + 1\<rparr>" "fw_fresh w"]) simp_all
qed

section \<open>Closing\<close>

text \<open>What giving up a reference does to the open files; the tables are untouched.\<close>

definition dropped :: "flip \<Rightarrow> flip option" where
  "dropped f = (if fl_usage f - 1 = 0 then None else Some (f\<lparr>fl_usage := fl_usage f - 1\<rparr>))"

lemma release_file_tables:
  assumes "release_file f w = Inr (ok, w')"
  shows "fw_procs w' = fw_procs w" "fw_files w' = fw_files w" "fw_fresh w' = fw_fresh w"
  using assms by (auto simp: release_file_def fw_iffs split: if_split_asm)

lemma drop_fileE:
  assumes "drop_file a w = Inr (True, w')"
  obtains f where "a \<noteq> 0" "fw_files w a = Some f" "fw_files w' = (fw_files w)(a := dropped f)" "fw_procs w' = fw_procs w"
    "fw_fresh w' = fw_fresh w"
proof -
  obtain u w1 where s: "upd_file a (\<lambda>f. f\<lparr>fl_usage := fl_usage f - 1\<rparr>) w = Inr (u, w1)"
    "fbind (file_at a) (\<lambda>f. if fl_usage f \<noteq> 0 then fret True
       else fbind (release_file f) (\<lambda>ok. if \<not> ok then fret False else fbind (free_file a) (\<lambda>_. fret True))) w1 = Inr (True, w')"
    using assms unfolding drop_file_def by (rule fbindE)
  obtain f where f: "a \<noteq> 0" "fw_files w a = Some f" "w1 = w\<lparr>fw_files := (fw_files w)(a \<mapsto> f\<lparr>fl_usage := fl_usage f - 1\<rparr>)\<rparr>"
    using s(1) by (auto simp: upd_file_Inr_iff)
  have at: "file_at a w1 = Inr (f\<lparr>fl_usage := fl_usage f - 1\<rparr>, w1)" using f by (simp add: file_at_Inr_iff)
  show thesis
  proof (cases "fl_usage f - 1 = 0")
    case True
    then obtain ok w2 where r: "release_file (f\<lparr>fl_usage := fl_usage f - 1\<rparr>) w1 = Inr (ok, w2)"
      "(if \<not> ok then fret False else fbind (free_file a) (\<lambda>_. fret True)) w2 = Inr (True, w')"
      using s(2) at by (auto elim: fbindE)
    then have "w' = w2\<lparr>fw_files := (fw_files w2)(a := None)\<rparr>" by (auto simp: free_file_def fupd_def fw_iffs split: if_split_asm)
    then show thesis using that f True release_file_tables [OF r(1)] by (simp add: dropped_def)
  next
    case False
    then have "w' = w1" using s(2) at by simp
    then show thesis using that f False by (simp add: dropped_def)
  qed
qed

lemma inv_unlink:
  assumes inv: "fd_inv w" and p: "fw_procs w p = Some fp" and find: "find_fd fd (open_files fp) = Inr (Some e)"
    and bits: "clear_fd_bit fd (fd_bitmap fp) = Inr bits" and f: "fw_files w (of_file e) = Some f"
    and w': "fw_procs w' = (fw_procs w)(p \<mapsto> fp\<lparr>fd_bitmap := bits, open_files := remove_fd fd (open_files fp)\<rparr>)"
      "fw_files w' = (fw_files w)(of_file e := dropped f)" "fw_fresh w' = fw_fresh w"
  shows "fd_inv w'"
proof -
  let ?fp = "fp\<lparr>fd_bitmap := bits, open_files := remove_fd fd (open_files fp)\<rparr>"
  have i: "room_ok w" "counts_ok w" "fd_table_ok fp" using inv p by (auto simp: fd_inv_def)
  have fin: "finite (dom (fw_procs w))" using i(1) by (simp add: room_ok_def)
  note tr = table_remove [OF i(3) find bits]
  have r: "refs b (fw_procs w') + (if b = of_file e then 1 else 0) = refs b (fw_procs w)" for b
    using refs_upd(1) [OF fin p, of b ?fp] tr(2) [of b] by (simp add: w'(1))
  have "counts_ok w'"
  proof (rule counts_step [OF i(2), of "of_file e"])
    have u: "unat (fl_usage f) = Suc (refs (of_file e) (fw_procs w'))" using countsD(2) [OF i(2) f] r [of "of_file e"] by simp
    then have "fl_usage f \<noteq> 0" by auto
    then have "unat (fl_usage f - 1) = refs (of_file e) (fw_procs w')" using u by (simp add: unat_minus_one)
    then show "case fw_files w' (of_file e) of None \<Rightarrow> refs (of_file e) (fw_procs w') = 0
       | Some f \<Rightarrow> unat (fl_usage f) = refs (of_file e) (fw_procs w') \<and> refs (of_file e) (fw_procs w') > 0"
      by (auto simp: w'(2) dropped_def unat_eq_0 [symmetric] simp del: unat_eq_0)
  next
    fix b
    assume "b \<noteq> of_file e"
    then show "fw_files w' b = fw_files w b \<and> refs b (fw_procs w') = refs b (fw_procs w)" using r [of b] by (simp add: w'(2))
  qed
  moreover have "room_ok w'"
  proof -
    have "p \<noteq> 0" using p i(1) unfolding room_ok_def by (metis option.distinct(1))
    moreover have "of_file e < fw_fresh w" using f i(1) unfolding room_ok_def by (metis not_less option.distinct(1))
    moreover have "of_file e \<noteq> 0" using f i(1) unfolding room_ok_def by (metis option.distinct(1))
    ultimately show ?thesis using i(1) p f by (auto simp: room_ok_def w' insert_absorb domI dropped_def)
  qed
  moreover have "fd_table_ok ?fp" using tr(1) .
  ultimately show ?thesis using inv by (auto simp: fd_inv_def w')
qed

text \<open>A successful removal, step by step.\<close>

lemma remove_fdE:
  assumes m: "remove_fd_list p fd REMOVE_ALL w = Inr (r, w')" "r \<noteq> -1" and q: "proc_or_current p w = Inr (q, w)"
  obtains fp e f bits where "q \<noteq> 0" "0 \<le> fd" "fw_procs w q = Some fp" "find_fd fd (open_files fp) = Inr (Some e)"
    "clear_fd_bit fd (fd_bitmap fp) = Inr bits" "fw_files w (of_file e) = Some f" "of_file e \<noteq> 0" "r = 0"
    "fw_procs w' = (fw_procs w)(q \<mapsto> fp\<lparr>fd_bitmap := bits, open_files := remove_fd fd (open_files fp)\<rparr>)"
    "fw_files w' = (fw_files w)(of_file e := dropped f)" "fw_fresh w' = fw_fresh w"
proof -
  have "remove_fd_list p fd REMOVE_ALL w = Inr (-1, w)" if "fd < 0 \<or> q = 0"
    using that q by (auto simp: remove_fd_list_def fret_def)
  then have fd: "\<not> fd < 0" and q0: "q \<noteq> 0" using m by auto
  have qq: "proc_or_current q w = Inr (q, w)" using q0 by (simp add: proc_or_current_def fread_def)
  obtain eo where eo: "get_open_fd_elt q fd w = Inr (eo, w)" "eo \<noteq> None"
    using m q fd q0 qq
    by (cases "get_open_fd_elt q fd w")
      (auto simp: remove_fd_list_def fbind_Inr_iff get_open_fd_elt_def link_of_def fw_iffs split: if_split_asm option.split_asm)
  then obtain e fp where e: "eo = Some e" "fw_procs w q = Some fp" "find_fd fd (open_files fp) = Inr (Some e)"
    using q0 qq by (auto simp: get_open_fd_elt_def link_of_def fw_iffs split: if_split_asm)
  have rest: "fbind (drop_file (of_file e)) (\<lambda>ok. if \<not> ok then fret (-1) else
      fbind (proc_at q) (\<lambda>p. fbind (fread (\<lambda>_. clear_fd_bit fd (fd_bitmap p))) (\<lambda>bits.
      fbind (upd_proc q (\<lambda>p. p\<lparr>fd_bitmap := bits, open_files := remove_fd fd (open_files p)\<rparr>)) (\<lambda>_. fret 0)))) w = Inr (r, w')"
    using m(1) q fd q0 eo(1) e(1) by (simp add: remove_fd_list_def cong: if_cong)
  then obtain ok w1 where ok: "drop_file (of_file e) w = Inr (ok, w1)"
    "(if \<not> ok then fret (-1) else
      fbind (proc_at q) (\<lambda>p. fbind (fread (\<lambda>_. clear_fd_bit fd (fd_bitmap p))) (\<lambda>bits.
      fbind (upd_proc q (\<lambda>p. p\<lparr>fd_bitmap := bits, open_files := remove_fd fd (open_files p)\<rparr>)) (\<lambda>_. fret 0)))) w1 = Inr (r, w')"
    by (rule fbindE)
  then have t: "ok" using m(2) by (auto split: if_split_asm)
  then obtain f where f: "of_file e \<noteq> 0" "fw_files w (of_file e) = Some f" "fw_files w1 = (fw_files w)(of_file e := dropped f)"
    "fw_procs w1 = fw_procs w" "fw_fresh w1 = fw_fresh w" using drop_fileE ok(1) by (metis (full_types))
  obtain bits where b: "clear_fd_bit fd (fd_bitmap fp) = Inr bits" "r = 0"
    "w' = w1\<lparr>fw_procs := (fw_procs w)(q \<mapsto> fp\<lparr>fd_bitmap := bits, open_files := remove_fd fd (open_files fp)\<rparr>)\<rparr>"
    using ok(2) t e(2) f(4) by (auto simp: fw_iffs)
  show thesis using that [OF q0 _ e(2,3) b(1) f(2,1) b(2)] b(3) f fd by simp
qed

lemma remove_inv:
  assumes inv: "fd_inv w" and m: "remove_fd_list p fd REMOVE_ALL w = Inr (r, w')" "r \<noteq> -1" and q: "proc_or_current p w = Inr (q, w)"
  shows "fd_inv w' \<and> r = 0 \<and> (\<forall>fp. fw_procs w' q = Some fp \<longrightarrow> fd \<notin> set (fds fp))"
proof -
  obtain fp e f bits where s: "fw_procs w q = Some fp" "find_fd fd (open_files fp) = Inr (Some e)"
    "clear_fd_bit fd (fd_bitmap fp) = Inr bits" "fw_files w (of_file e) = Some f" "r = 0"
    "fw_procs w' = (fw_procs w)(q \<mapsto> fp\<lparr>fd_bitmap := bits, open_files := remove_fd fd (open_files fp)\<rparr>)"
    "fw_files w' = (fw_files w)(of_file e := dropped f)" "fw_fresh w' = fw_fresh w"
    using remove_fdE [OF m q] by metis
  have "fd_inv w'" by (rule inv_unlink [OF inv s(1-4,6-8)])
  moreover have "fd_table_ok fp" using inv s(1) by (simp add: fd_inv_def)
  ultimately show ?thesis using s(5,6) table_remove(3) [OF _ s(2,3)] by simp
qed

lemma dup2_inv:
  assumes inv: "fd_inv w" and m: "dup2_fs p fd new_fd w = Inr (r, w')" "r \<noteq> -1"
  shows "fd_inv w'"
proof -
  obtain q where q: "proc_or_current p w = Inr (q, w)" by (auto simp: proc_or_current_def fread_def)
  then have qq: "proc_or_current q w = Inr (q, w)" by (auto simp: proc_or_current_def fread_def split: if_split_asm)
  have g: "0 \<le> new_fd" "new_fd < MAX_FS" using m by (auto simp: dup2_fs_def split: if_split_asm)
  obtain a eo where q1: "q \<noteq> 0" and a: "get_open_fd_elt q new_fd w = Inr (eo, w)"
    "fbind (if eo = None then fret 0 else remove_fd_list q new_fd REMOVE_ALL) (\<lambda>r.
      if r < 0 then fret (-1)
      else fbind (dup_open_file q a new_fd) (\<lambda>eo. fret (case eo of None \<Rightarrow> -1 | Some _ \<Rightarrow> new_fd))) w = Inr (r, w')"
  proof -
    obtain a w1 where 1: "get_fs_list_elt q fd w = Inr (a, w1)"
      "(if a = 0 then fret (-1) else fbind (get_open_fd_elt q new_fd) (\<lambda>eo.
         fbind (if eo = None then fret 0 else remove_fd_list q new_fd REMOVE_ALL) (\<lambda>r. if r < 0 then fret (-1)
         else fbind (dup_open_file q a new_fd) (\<lambda>eo. fret (case eo of None \<Rightarrow> -1 | Some _ \<Rightarrow> new_fd))))) w1 = Inr (r, w')"
      using m q by (auto simp: dup2_fs_def elim!: fbindE split: if_split_asm)
    have "w1 = w" using 1(1) qq by (auto simp: get_fs_list_elt_def link_of_def fw_iffs split: if_split_asm)
    then obtain eo w2 where 2: "get_open_fd_elt q new_fd w = Inr (eo, w2)" "fbind (if eo = None then fret 0 else remove_fd_list q new_fd REMOVE_ALL) (\<lambda>r. if r < 0 then fret (-1)
         else fbind (dup_open_file q a new_fd) (\<lambda>eo. fret (case eo of None \<Rightarrow> -1 | Some _ \<Rightarrow> new_fd))) w2 = Inr (r, w')"
      using 1(2) m(2) by (auto elim!: fbindE split: if_split_asm)
    then have "w2 = w" using qq by (auto simp: get_open_fd_elt_def link_of_def fw_iffs split: if_split_asm)
    moreover have "a \<noteq> 0" using 1(2) m(2) by (auto split: if_split_asm)
    then have "q \<noteq> 0" using 1(1) qq by (auto simp: get_fs_list_elt_def link_of_def fw_iffs split: if_split_asm)
    ultimately show thesis using that 2 by blast
  qed
  obtain w1 v d where w1: "(if eo = None then fret 0 else remove_fd_list q new_fd REMOVE_ALL) w = Inr (v, w1)" "v \<ge> 0"
    "dup_open_file q a new_fd w1 = Inr (d, w')"
    using a(2) m(2) by (auto elim!: fbindE split: if_split_asm)
  have 1: "fd_inv w1 \<and> (\<forall>fp. fw_procs w1 q = Some fp \<longrightarrow> new_fd \<notin> set (fds fp))"
  proof (cases eo)
    case None
    then have "find_fd new_fd (open_files fp) = Inr None" if "fw_procs w q = Some fp" for fp
      using a(1) qq g that inv by (auto simp: get_open_fd_elt_def link_of_def fw_iffs fd_inv_def room_ok_def split: if_split_asm)
    then show ?thesis using inv w1(1) None find_fd_None by (auto simp: fds_def)
  next
    case (Some e)
    then show ?thesis using remove_inv [OF inv _ _ qq, of new_fd v w1] w1 by auto
  qed
  show ?thesis
  proof (rule dup_inv [OF _ w1(3)])
    fix q' fp
    assume "proc_or_current q w1 = Inr (q', w1)" "fw_procs w1 q' = Some fp"
    then show "new_fd \<notin> set (fds fp)" using 1 q1 by (simp add: proc_or_current_def fread_def)
  qed (use 1 in simp)
qed

section \<open>A new process\<close>

text \<open>
  The copying of the links: the list of the child is that of the parent turned round, and each file counts
  one more for each of its links. Only the counts hold in between; the map of the child is complete from
  the start.
\<close>

lemma copy_links_counts:
  "copy_links c ls w = Inr (r, w') \<Longrightarrow> r \<noteq> -1 \<Longrightarrow> counts_ok w \<Longrightarrow> room_ok w \<Longrightarrow> None \<notin> set ls \<Longrightarrow> fw_procs w c = Some cp \<Longrightarrow>
     (\<And>a. refs a (fw_procs w) + length ls \<le> 2 ^ 31) \<Longrightarrow>
     counts_ok w' \<and> room_ok w' \<and> fw_procs w' = (fw_procs w)(c \<mapsto> cp\<lparr>open_files := rev ls @ open_files cp\<rparr>)"
proof (induction ls arbitrary: w cp)
  case Nil
  then show ?case by auto
next
  case (Cons l ls)
  then obtain e where l: "l = Some e" by (cases l) auto
  have fin: "finite (dom (fw_procs w))" using Cons.prems(4) by (simp add: room_ok_def)
  obtain f s where f: "of_file e \<noteq> 0" "fw_files w (of_file e) = Some f" "c \<noteq> 0"
    and rest: "copy_links c ls (w\<lparr>fw_fs := s, fw_files := (fw_files w)(of_file e \<mapsto> f\<lparr>fl_usage := fl_usage f + 1\<rparr>),
      fw_procs := (fw_procs w)(c \<mapsto> cp\<lparr>open_files := Some e # open_files cp\<rparr>)\<rparr>) = Inr (r, w')" (is "copy_links c ls ?w = _")
    using Cons.prems(1,2,6) l by (auto simp: fw_iffs split: if_split_asm)
  let ?cp = "cp\<lparr>open_files := Some e # open_files cp\<rparr>"
  have r: "refs b (fw_procs ?w) = refs b (fw_procs w) + (if b = of_file e then 1 else 0)" for b
    using refs_add [OF fin Cons.prems(6), of ?cp "of_file e" b] by (simp add: files_of_def)
  have "counts_ok ?w"
  proof (rule counts_step [OF Cons.prems(3), of "of_file e"])
    have "unat (fl_usage f) < 2 ^ 31" using countsD(2) [OF Cons.prems(3) f(2)] Cons.prems(7) [of "of_file e"] by simp
    then have "unat (fl_usage f + 1) = refs (of_file e) (fw_procs w) + 1"
      using usage_plus countsD(2) [OF Cons.prems(3) f(2)] by simp
    then show "case fw_files ?w (of_file e) of None \<Rightarrow> refs (of_file e) (fw_procs ?w) = 0
       | Some f \<Rightarrow> unat (fl_usage f) = refs (of_file e) (fw_procs ?w) \<and> refs (of_file e) (fw_procs ?w) > 0"
      using r by simp
  qed (use r in simp)
  moreover have "of_file e < fw_fresh w" using f(2) Cons.prems(4) unfolding room_ok_def by (metis not_less option.distinct(1))
  then have "room_ok ?w" using Cons.prems(4,6) f by (auto simp: room_ok_def insert_absorb domI)
  moreover have "refs a (fw_procs ?w) + length ls \<le> 2 ^ 31" for a using Cons.prems(7) [of a] r [of a] by (simp split: if_split_asm)
  moreover have "None \<notin> set ls" "fw_procs ?w c = Some ?cp" using Cons.prems(5) by simp_all
  ultimately have "counts_ok w' \<and> room_ok w' \<and> fw_procs w' = (fw_procs ?w)(c \<mapsto> ?cp\<lparr>open_files := rev ls @ open_files ?cp\<rparr>)"
    using Cons.prems(2) by (intro Cons.IH [OF rest])
  then show ?case by (simp add: l)
qed

lemma copy_dir_fs: "copy_dir d w = Inr (d', w') \<Longrightarrow> \<exists>s. w' = w\<lparr>fw_fs := s\<rparr>"
  by (auto simp: copy_dir_def fw_iffs split: if_split_asm)

lemma fork_inv:
  assumes inv: "fd_inv w" and m: "fork_files c p w = Inr (0, w')"
    and new: "fw_procs w c = None" "c \<noteq> 0" "card (dom (fw_procs w)) + 1 < 2 ^ 22"
  shows "fd_inv w'"
proof -
  obtain fp where p: "fw_procs w p = Some fp" "p \<noteq> 0" using m by (auto simp: fork_files_def fw_iffs)
  obtain d1 d2 w1 w2 w3 u r where d: "copy_dir (root_dir fp) w = Inr (d1, w1)" "copy_dir (cur_dir fp) w1 = Inr (d2, w2)"
    "fupd (\<lambda>w. w\<lparr>fw_procs := (fw_procs w)(c \<mapsto> \<lparr>root_dir = d1, cur_dir = d2, fd_bitmap = fd_bitmap fp, open_files = []\<rparr>)\<rparr>) w2 = Inr (u, w3)"
    "copy_proc_fds c p w3 = Inr (r, w')" "\<not> r < 0"
    using m p by (auto simp: fork_files_def fw_iffs split: if_split_asm)
  let ?cp = "\<lparr>root_dir = d1, cur_dir = d2, fd_bitmap = fd_bitmap fp, open_files = []\<rparr>"
  obtain s where w3: "w3 = w\<lparr>fw_fs := s, fw_procs := (fw_procs w)(c \<mapsto> ?cp)\<rparr>"
    using copy_dir_fs [OF d(1)] copy_dir_fs [OF d(2)] d(3) by (auto simp: fupd_def)
  have pc: "p \<noteq> c" using p new(1) by auto
  have copy: "copy_links c (open_files fp) w3 = Inr (r, w')"
    using d(4) p pc new(2) by (auto simp: copy_proc_fds_def w3 fw_iffs)
  have i: "room_ok w" "counts_ok w" "fd_table_ok fp" using inv p by (auto simp: fd_inv_def)
  have fin: "finite (dom (fw_procs w))" using i(1) by (simp add: room_ok_def)
  have same: "refs a (fw_procs w3) = refs a (fw_procs w)" for a
    using refs_upd(2) [OF fin new(1), of a ?cp] by (simp add: w3 files_of_def)
  have "counts_ok w3"
    by (rule counts_step [OF i(2), of 0]) (use same countsD i(1,2) in \<open>auto simp: w3 room_ok_def\<close>)
  moreover have "room_ok w3" using i(1) new by (simp add: room_ok_def w3 domIff)
  moreover have "refs a (fw_procs w3) + length (open_files fp) \<le> 2 ^ 31" for a
    using refs_bound [OF inv, of a] same [of a] table_size [OF i(3)] by simp
  ultimately have e: "counts_ok w' \<and> room_ok w' \<and> fw_procs w' = (fw_procs w3)(c \<mapsto> ?cp\<lparr>open_files := rev (open_files fp) @ open_files ?cp\<rparr>)"
    using d(5) i(3) by (intro copy_links_counts [OF copy]) (simp_all add: w3 fd_table_ok_def)
  have "fd_table_ok (?cp\<lparr>open_files := rev (open_files fp)\<rparr>)" using i(3) by (simp add: fd_table_ok_def fds_def rev_map [symmetric])
  then show ?thesis using e inv by (auto simp: fd_inv_def w3)
qed

end
