(* ===== verification/DirCalls.thy ===== *)
theory DirCalls
  imports FileCalls
begin

text \<open>
  The calls on directories, \<^verbatim>\<open>src/kernel/fs/dir_api.c\<close>, and the directories and files that a new file
  system gets (\<^verbatim>\<open>ext2.c\<close>).
\<close>

section \<open>The absolute form of a path\<close>

text \<open>
  The copy of a directory name, without testing the result of \<^verbatim>\<open>malloc\<close>. It is a string when its size
  counts the terminator.
\<close>

definition copy_name :: "byte list option \<Rightarrow> u32 \<Rightarrow> byte list fwm" where
  "copy_name name n_size =
     fbind (in_fs fs_malloc) (\<lambda>ok.
     case name of
       None \<Rightarrow> ffail (if n_size = 0 then Out_of_bounds else Null_deref)
     | Some s \<Rightarrow> if \<not> ok then ffail Null_deref else if unat n_size \<noteq> Suc (length s) then ffail Out_of_bounds else fret s)"

text \<open>
  The loop over the components. When \<^verbatim>\<open>malloc\<close> fails in \<^verbatim>\<open>navigate_to_directory\<close>, the text and the
  components are freed and the loop goes on to use them.
\<close>

fun final_loop :: "byte list list \<Rightarrow> byte list \<Rightarrow> byte list fwm" where
  "final_loop [] s = fret s"
| "final_loop (c # cs) s =
     (if c = DOT \<or> c = DOT_DOT then final_loop cs (path_step s c)
      else fbind (in_fs fs_malloc) (\<lambda>ok. if \<not> ok then ffail Use_after_free else final_loop cs (path_step s c)))"

definition get_final_string :: "byte list option \<Rightarrow> byte list option fwm" where
  "get_final_string path =
     (case path of
        None \<Rightarrow> fret None
      | Some s \<Rightarrow>
          fbind (if is_absolute_directory s
                 then fbind (get_root_dir_name_size 0) (\<lambda>n. fbind (get_root_dir_name 0) (\<lambda>d. copy_name d n))
                 else fbind (get_current_dir_name_size 0) (\<lambda>n. fbind (get_current_dir_name 0) (\<lambda>d. copy_name d n))) (\<lambda>start.
          fbind (in_fs (extract_files path)) (\<lambda>fso.
          case fso of
            None \<Rightarrow> fret None
          | Some files \<Rightarrow>
              fbind (final_loop files start) (\<lambda>t.
              fbind (in_fs fs_malloc) (\<lambda>ok. if \<not> ok then ffail Null_deref else fret (Some t))))))"

section \<open>The calls\<close>

definition chdir :: "byte list option \<Rightarrow> int fwm" where
  "chdir path =
     (if path = None then fret (-1)
      else fbind (get_final_string path) (\<lambda>final.
        case final of
          None \<Rightarrow> fret (-1)
        | Some t \<Rightarrow>
            fbind (walk_and_get final 0) (\<lambda>a.
            fbind (is_dir a) (\<lambda>d.
            if \<not> d then fret (-1)
            else fbind (set_current_dir 0 final (of_nat (length t) + 1) a) (\<lambda>r. fret (if r < 0 then -1 else 0))))))"

text \<open>The bytes that are put into the buffer; \<open>None\<close> when NULL is returned.\<close>

definition getcwd :: "bool \<Rightarrow> u64 \<Rightarrow> byte list option fwm" where
  "getcwd has_buf n_size =
     (if \<not> has_buf \<or> n_size = 0 then fret None
      else fbind (get_current_dir_name_size 0) (\<lambda>n.
        if n_size < ucast n then fret None
        else fbind (get_current_dir_name 0) (\<lambda>name.
          case name of
            None \<Rightarrow> fret None
          | Some s \<Rightarrow> if unat n > Suc (length s) then ffail Out_of_bounds else fret (Some (take (unat n) (s @ [0]))))))"

text \<open>A new inode is a directory before its entry is added; when there is none the call returns 0.\<close>

definition mkdir :: "byte list option \<Rightarrow> int fwm" where
  "mkdir path =
     (if path = None then fret (-1)
      else fbind (get_final_string path) (\<lambda>final.
        if final = None then fret (-1)
        else fbind (in_fs (extract_files final)) (\<lambda>fso.
          case fso of
            None \<Rightarrow> fret (-1)
          | Some files \<Rightarrow>
              fbind (walk_and_get final 1) (\<lambda>parent.
              if parent = 0 then fret (-1)
              else fbind (in_fs alloc_inode) (\<lambda>a.
                if a = 0 then fret 0
                else fbind (set_inode a (\<lambda>i. i\<lparr>i_mode := EXT2_S_IFDIR, i_links_count := 1\<rparr>)) (\<lambda>_.
                  fbind (inode_number a) (\<lambda>n.
                  fbind (last_name files) (\<lambda>name.
                  fbind (in_fs (add_inode_directory parent n EXT2_FT_DIR name)) (\<lambda>r.
                  if r < 0 then fbind (inode_number a) (\<lambda>n. fbind (in_fs (free_inode a n)) (\<lambda>_. fret (-1)))
                  else fbind (in_fs (add_dot_directories a parent)) (\<lambda>r. fret (if r < 0 then -1 else 0)))))))))))"

text \<open>A directory that is not empty is left and the call returns 0.\<close>

definition rmdir :: "byte list option \<Rightarrow> int fwm" where
  "rmdir path =
     (if path = None then fret (-1)
      else fbind (get_final_string path) (\<lambda>final.
        if final = None then fret (-1)
        else fbind (walk_and_get final 0) (\<lambda>a. fbind (walk_and_get final 1) (\<lambda>parent.
          if a = 0 \<or> parent = 0 then fret (-1)
          else fbind (the_inode a) (\<lambda>i.
            if i_mode i \<noteq> EXT2_S_IFDIR then fret (-1)
            else fbind (in_fs (extract_files final)) (\<lambda>fso.
              case fso of
                None \<Rightarrow> fret (-1)
              | Some files \<Rightarrow>
                  if i_size i \<noteq> BASIC_DOT_DIR_SIZE then fret 0
                  else fbind (last_name files) (\<lambda>name.
                    fbind (in_fs (remove_inode_dir parent (Some name))) (\<lambda>r.
                    if r < 0 then fret (-1)
                    else fbind (inode_number a) (\<lambda>n.
                      fbind (in_fs (free_inode a n)) (\<lambda>r. fret (if r < 0 then -1 else 0)))))))))))"

definition getdents :: "int \<Rightarrow> bool \<Rightarrow> u32 \<Rightarrow> (int \<times> dirent list) fwm" where
  "getdents fd has_buf cnt =
     (if \<not> has_buf then fret (-1, [])
      else fbind (get_fs_list_elt 0 fd) (\<lambda>a.
        if a = 0 then fret (-1, [])
        else if cnt = 0 then fret (0, [])
        else fbind (file_at a) (\<lambda>f. in_fs (getdents_i (fl_inode f) cnt))))"

section \<open>A new file system\<close>

definition dev_dir :: "byte list" where "dev_dir = [47, 100, 101, 118]"
definition bin_dir :: "byte list" where "bin_dir = [47, 98, 105, 110]"
definition tmp_dir :: "byte list" where "tmp_dir = [47, 116, 109, 112]"
definition usr_dir :: "byte list" where "usr_dir = [47, 117, 115, 114]"
definition terminal_file :: "byte list" where
  "terminal_file = dev_dir @ [47, 116, 101, 114, 109, 105, 110, 97, 108]"

fun make_dirs :: "byte list list \<Rightarrow> int fwm" where
  "make_dirs [] = fret 0"
| "make_dirs (d # ds) = fbind (mkdir (Some d)) (\<lambda>r. if r < 0 then fret (-1) else make_dirs ds)"

definition create_base_dirs :: "int fwm" where
  "create_base_dirs = make_dirs [dev_dir, bin_dir, tmp_dir, usr_dir]"

definition create_base_files :: "int fwm" where
  "create_base_files = fbind (mknod (Some terminal_file) 0x00010000) (\<lambda>r. fret (if r < 0 then -1 else 0))"

definition configure_ext2_file_system :: "byte \<Rightarrow> int fwm" where
  "configure_ext2_file_system part =
     fbind (in_fs (format_partition part)) (\<lambda>r.
     if r < 0 then fret (-1)
     else fbind create_base_dirs (\<lambda>r.
       if r < 0 then fret (-1)
       else fbind create_base_files (\<lambda>r.
         if r < 0 then fret (-1) else fbind (in_fs sync_all) (\<lambda>_. fret 0))))"

end
