(* ===== verification/FdRun.thy ===== *)
theory FdRun
  imports FdInv DirCalls AllocProps
begin

text \<open>
  Runs of calls on files by any processes. Each call keeps the descriptor tables consistent, so no
  descriptor ever refers to an open file that was freed, and the numbers of two descriptors differ.
\<close>

section \<open>The other calls\<close>

lemma keeps_any_uses [keeps_intros]: "keeps (any_uses n ls)"
proof (induction n ls rule: any_uses.induct)
  case (3 n e ls)
  show ?case unfolding any_uses.simps
  proof (intro keeps_bind keeps_walk)
    show "keeps (if fl_number (f :: flip) = n then fret True else any_uses n ls)" for f using 3 [of f] by simp
  qed
qed simp_all

lemma keeps_check [keeps_intros]: "keeps (check_if_inode_is_being_used p n)"
  unfolding check_if_inode_is_being_used_def by (intro keeps_intros)

lemma keeps_unlink [keeps_intros]: "keeps (unlink_fs path)" "keeps (sys_link old new)"
  unfolding unlink_fs_def sys_link_def by (intro keeps_intros)+

lemma keeps_rename [keeps_intros]: "keeps (rename_fs old new)"
  unfolding rename_fs_def replace_target_def link_new_name_def unlink_old_name_def by (intro keeps_intros)

lemma keeps_status [keeps_intros]: "keeps (stat_fs path b)" "keeps (fstat_fs fd b)" "keeps (getdents fd' b n)" "keeps (mknod path dev)"
  unfolding stat_fs_def fstat_fs_def conf_stat_buf_def getdents_def mknod_def Let_def by (intro keeps_intros)+

lemma keeps_fields [keeps_intros]:
  "keeps (get_root_dir_name_size p)" "keeps (get_current_dir_name_size p)" "keeps (get_root_dir_name p)" "keeps (get_current_dir_name p)"
  unfolding get_root_dir_name_size_def get_current_dir_name_size_def get_root_dir_name_def get_current_dir_name_def field_of_proc_def
  by (intro keeps_intros)+

lemma keeps_final_loop [keeps_intros]: "keeps (final_loop cs s)"
  by (induction cs arbitrary: s) (auto intro!: keeps_intros)

lemma keeps_final_string [keeps_intros]: "keeps (get_final_string path)"
  unfolding get_final_string_def copy_name_def by (intro keeps_intros)

lemma keeps_dir_calls [keeps_intros]: "keeps (mkdir path)" "keeps (rmdir path)" "keeps (getcwd b n)"
  unfolding mkdir_def rmdir_def getcwd_def by (intro keeps_intros)+

text \<open>A new current directory is no descriptor.\<close>

lemma preserves_set_dir [preserves_intros]: "preserves (set_current_dir p nm n a)"
  unfolding preserves_def
proof (intro allI impI)
  fix w r w'
  assume inv: "fd_inv w" and m: "set_current_dir p nm n a w = Inr (r, w')"
  show "fd_inv w'"
  proof (cases "w' = w")
    case False
    then obtain q fp where q: "fw_procs w q = Some fp"
      "w' = w\<lparr>fw_procs := (fw_procs w)(q \<mapsto> fp\<lparr>cur_dir := \<lparr>dir_inode = a, dir_name = nm, name_size = n\<rparr>\<rparr>)\<rparr>"
      using m by (auto simp: set_current_dir_def proc_or_current_def fw_iffs split: if_split_asm)
    let ?fp = "fp\<lparr>cur_dir := \<lparr>dir_inode = a, dir_name = nm, name_size = n\<rparr>\<rparr>"
    have i: "room_ok w" "fd_table_ok fp" using inv q(1) by (auto simp: fd_inv_def)
    have "refs b (fw_procs w') = refs b (fw_procs w)" for b
      using refs_eq [of ?fp fp "fw_procs w" q b] q i(1) by (simp add: files_of_def room_ok_def)
    moreover have "fw_files w' = fw_files w" using q(2) by simp
    ultimately have "counts_ok w'" using inv by (simp add: fd_inv_def counts_ok_def cong: option.case_cong)
    moreover have "q \<noteq> 0" using q(1) i(1) unfolding room_ok_def by (metis option.distinct(1))
    then have "room_ok w'" using i(1) q by (auto simp: room_ok_def insert_absorb domI)
    moreover have "fd_table_ok ?fp" using i(2) by (simp add: fd_table_ok_def fds_def)
    ultimately show ?thesis using inv q by (auto simp: fd_inv_def)
  qed (use inv in simp)
qed

lemma preserves_calls:
  "preserves (open_fs p path flags)" "preserves (chdir path)" "preserves (write_fs fd buf n)" "preserves (read_fs fd n)"
  "preserves (lseek fd off wh)" "preserves (mkdir path)" "preserves (rmdir path)" "preserves (getcwd b n)"
  "preserves (unlink_fs path)" "preserves (sys_link path path')" "preserves (rename_fs path path')" "preserves (mknod path dev)"
  "preserves (getdents fd b cnt)" "preserves (stat_fs path b)" "preserves (fstat_fs fd' b)"
  unfolding open_fs_def chdir_def
  by (rule preserves_intros | (rule keeps_preserves, (rule keeps_intros)+))+

text \<open>Both ends of a pipe, when there is one.\<close>

lemma keeps_new_pipe [keeps_intros]: "keeps new_pipe"
proof -
  have "keeps (fupd (\<lambda>w. if ok then w\<lparr>fw_fresh := Suc (fw_fresh w)\<rparr> else w))" for ok
    by (auto simp: keeps_def fupd_def same_tables_def)
  then show ?thesis unfolding new_pipe_def by (intro keeps_intros)
qed

text \<open>Calls that keep the invariant when their result says so.\<close>

definition preserves_when :: "('a \<Rightarrow> bool) \<Rightarrow> 'a fwm \<Rightarrow> bool" where
  "preserves_when P m \<longleftrightarrow> (\<forall>w r w'. fd_inv w \<longrightarrow> m w = Inr (r, w') \<longrightarrow> P r \<longrightarrow> fd_inv w')"

lemma when_preserves: "preserves m \<Longrightarrow> preserves_when P m"
  by (simp add: preserves_def preserves_when_def)

lemma when_never: "(\<And>w r w'. m w = Inr (r, w') \<Longrightarrow> \<not> P r) \<Longrightarrow> preserves_when P m"
  by (auto simp: preserves_when_def)

lemma when_bind: "preserves m \<Longrightarrow> (\<And>a. preserves_when P (f a)) \<Longrightarrow> preserves_when P (fbind m f)"
  unfolding preserves_def preserves_when_def fbind_Inr_iff by blast

lemma when_option: "preserves_when P m \<Longrightarrow> (\<And>a. preserves_when P (f a)) \<Longrightarrow> preserves_when P (case x of None \<Rightarrow> m | Some a \<Rightarrow> f a)"
  by (cases x) simp_all

lemma when_if: "preserves_when P m \<Longrightarrow> preserves_when P n \<Longrightarrow> preserves_when P (if b then m else n)"
  by simp

lemma keeps_pipe_end [keeps_intros]: "keeps (upd_file x (pipe_end a r))"
  by (rule keeps_upd_file) (simp add: pipe_end_def)

lemma pipe_inv: "preserves_when (\<lambda>(r, _). r = 0) (sys_pipe b)"
  unfolding sys_pipe_def
  by (rule when_if when_option preserves_new | (rule when_never, fastforce simp: fbind_Inr_iff)
      | rule when_bind | (rule keeps_preserves, (rule keeps_intros)+) | rule when_preserves)+

text \<open>All descriptors of a process.\<close>

lemma close_loop_failed: "close_loop q ls (-1) w = Inr (v, w') \<Longrightarrow> v = -1"
proof (induction q ls "-1 :: int" arbitrary: w rule: close_loop.induct)
  case (3 q e ls)
  then show ?case by (auto simp: fbind_Inr_iff split: if_split_asm)
qed auto

lemma close_loop_inv:
  "close_loop q ls r w = Inr (v, w') \<Longrightarrow> v \<noteq> -1 \<Longrightarrow> q \<noteq> 0 \<Longrightarrow> fd_inv w \<Longrightarrow> fd_inv w'"
proof (induction q ls r arbitrary: w rule: close_loop.induct)
  case (3 q e ls r)
  obtain u w1 where u: "remove_fd_list q (of_fd e) REMOVE_ALL w = Inr (u, w1)" "close_loop q ls (if u < 0 then -1 else r) w1 = Inr (v, w')"
    using 3(2) unfolding close_loop.simps by (rule fbindE)
  have q: "proc_or_current q w = Inr (q, w)" using 3(4) by (simp add: proc_or_current_def fread_def)
  have "u \<noteq> -1" using u(2) 3(3) close_loop_failed by auto
  then have "fd_inv w1" using remove_inv [OF 3(5) u(1) _ q] by simp
  then show ?case using 3(1) u(2) 3(3,4) by blast
qed auto

lemma close_all_inv:
  assumes inv: "fd_inv w" and m: "close_all_files p w = Inr (0, w')"
  shows "fd_inv w'"
proof -
  obtain q where "proc_or_current p w = Inr (q, w)"
    "(if q = 0 then fret (-1) else fbind (proc_at q) (\<lambda>p. close_loop q (open_files p) 0)) w = Inr (0, w')"
    using m by (auto simp: close_all_files_def proc_or_current_def fbind_Inr_iff fread_Inr_iff)
  then obtain fp :: fproc where "q \<noteq> 0" "close_loop q (open_files fp) 0 w = Inr (0, w')"
    by (cases "q = 0") (auto simp: fbind_Inr_iff proc_at_Inr_iff)
  then show ?thesis using close_loop_inv inv by simp
qed

text \<open>The first process of a family starts without descriptors.\<close>

lemma init_inv:
  assumes inv: "fd_inv w" and m: "init_files c w = Inr (u, w')"
    and new: "fw_procs w c = None" "c \<noteq> 0" "card (dom (fw_procs w)) + 1 < 2 ^ 22"
  shows "fd_inv w'"
proof -
  obtain s d1 d2 where w': "w' = w\<lparr>fw_fs := s, fw_procs := (fw_procs w)(c \<mapsto> \<lparr>root_dir = d1, cur_dir = d2,
     fd_bitmap = replicate SIZE_BIT_MAP 0, open_files = []\<rparr>)\<rparr>"
    using m by (auto simp: init_files_def root_name_def fupd_def fw_iffs split: if_split_asm)
  have i: "room_ok w" "counts_ok w" using inv by (auto simp: fd_inv_def)
  have "refs a (fw_procs w') = refs a (fw_procs w)" for a
    using refs_upd(2) [of "fw_procs w" c a] i(1) new(1) by (simp add: w' files_of_def room_ok_def)
  moreover have "fw_files w' = fw_files w" by (simp add: w')
  ultimately have "counts_ok w'" using i(2) by (simp add: counts_ok_def cong: option.case_cong)
  moreover have "room_ok w'" using i(1) new by (simp add: room_ok_def w' domIff)
  moreover have "fd_table_ok \<lparr>root_dir = d1, cur_dir = d2, fd_bitmap = replicate SIZE_BIT_MAP 0, open_files = []\<rparr>"
    by (simp add: fd_table_ok_def fds_def bbit_def SIZE_BIT_MAP_def)
  ultimately show ?thesis using inv by (auto simp: fd_inv_def w')
qed

section \<open>Runs\<close>

text \<open>
  A call that has returned, of any process: the running process and the state of the kernel change freely
  between two calls. A close, a \<^verbatim>\<open>dup2\<close>, a \<^verbatim>\<open>pipe\<close>, a \<^verbatim>\<open>fork\<close> or the closing of all files that returns -1 is a
  step when it failed before it changed a table, as for a bad descriptor. One that failed in the middle of its
  changes is not: the code leaves a descriptor to a file whose count is lower already (\<^verbatim>\<open>close\<close>, \<^verbatim>\<open>dup2\<close> and
  the closing of all files), one whose element is freed (\<^verbatim>\<open>pipe\<close>), or a part of the parent's
  descriptors under the whole map (\<^verbatim>\<open>fork\<close>).
\<close>

definition tables_kept :: "fworld \<Rightarrow> fworld \<Rightarrow> bool" where
  "tables_kept w w' \<longleftrightarrow> fw_procs w' = fw_procs w \<and> fw_files w' = fw_files w \<and> fw_fresh w \<le> fw_fresh w'"

lemma tables_kept_inv: "tables_kept w w' \<Longrightarrow> fd_inv w \<Longrightarrow> fd_inv w'"
  by (auto simp: tables_kept_def fd_inv_def room_ok_def counts_ok_def cong: option.case_cong)

inductive fd_step :: "fworld \<Rightarrow> fworld \<Rightarrow> bool" where
  other_kernel: "fd_step w (w\<lparr>fw_pw := k\<rparr>)"
| call_open: "open_fs p path flags w = Inr (r, w') \<Longrightarrow> fd_step w w'"
| call_close: "close_fs fd w = Inr (0, w') \<Longrightarrow> fd_step w w'"
| call_write: "write_fs fd buf n w = Inr (io, w') \<Longrightarrow> fd_step w w'"
| call_read: "read_fs fd n w = Inr (got, w') \<Longrightarrow> fd_step w w'"
| call_lseek: "lseek fd off wh w = Inr (r, w') \<Longrightarrow> fd_step w w'"
| call_dup: "dup_fs p fd w = Inr (r, w') \<Longrightarrow> fd_step w w'"
| call_dup2: "dup2_fs p fd fd' w = Inr (r, w') \<Longrightarrow> r \<noteq> -1 \<Longrightarrow> fd_step w w'"
| call_pipe: "sys_pipe b w = Inr ((0, ends), w') \<Longrightarrow> fd_step w w'"
| call_unlink: "unlink_fs path w = Inr (r, w') \<Longrightarrow> fd_step w w'"
| call_link: "sys_link path path2 w = Inr (r, w') \<Longrightarrow> fd_step w w'"
| call_rename: "rename_fs path path2 w = Inr (r, w') \<Longrightarrow> fd_step w w'"
| call_stat: "stat_fs path b w = Inr (st, w') \<Longrightarrow> fd_step w w'"
| call_fstat: "fstat_fs fdn b w = Inr (st, w') \<Longrightarrow> fd_step w w'"
| call_mknod: "mknod path dev w = Inr (r, w') \<Longrightarrow> fd_step w w'"
| call_chdir: "chdir path w = Inr (r, w') \<Longrightarrow> fd_step w w'"
| call_getcwd: "getcwd b len w = Inr (txt, w') \<Longrightarrow> fd_step w w'"
| call_mkdir: "mkdir path w = Inr (r, w') \<Longrightarrow> fd_step w w'"
| call_rmdir: "rmdir path w = Inr (r, w') \<Longrightarrow> fd_step w w'"
| call_getdents: "getdents fd b cnt w = Inr (ents, w') \<Longrightarrow> fd_step w w'"
| new_process: "init_files c w = Inr (u, w') \<Longrightarrow> fw_procs w c = None \<Longrightarrow> c \<noteq> 0 \<Longrightarrow> card (dom (fw_procs w)) + 1 < 2 ^ 22 \<Longrightarrow> fd_step w w'"
| call_fork: "fork_files c p w = Inr (0, w') \<Longrightarrow> fw_procs w c = None \<Longrightarrow> c \<noteq> 0 \<Longrightarrow> card (dom (fw_procs w)) + 1 < 2 ^ 22 \<Longrightarrow> fd_step w w'"
| close_all: "close_all_files p w = Inr (0, w') \<Longrightarrow> fd_step w w'"
| failed_close: "close_fs fd w = Inr (-1, w') \<Longrightarrow> tables_kept w w' \<Longrightarrow> fd_step w w'"
| failed_dup2: "dup2_fs p fd fd' w = Inr (-1, w') \<Longrightarrow> tables_kept w w' \<Longrightarrow> fd_step w w'"
| failed_pipe: "sys_pipe b w = Inr ((-1, None), w') \<Longrightarrow> tables_kept w w' \<Longrightarrow> fd_step w w'"
| failed_fork: "fork_files c p w = Inr (-1, w') \<Longrightarrow> tables_kept w w' \<Longrightarrow> fd_step w w'"
| failed_close_all: "close_all_files p w = Inr (-1, w') \<Longrightarrow> tables_kept w w' \<Longrightarrow> fd_step w w'"

lemma preservesD: "preserves m \<Longrightarrow> m w = Inr (r, w') \<Longrightarrow> fd_inv w \<Longrightarrow> fd_inv w'"
  by (auto simp: preserves_def)

lemma close_inv:
  assumes inv: "fd_inv w" and m: "close_fs fd w = Inr (0, w')"
  shows "fd_inv w'"
proof -
  obtain s w1 where w1: "w1 = w\<lparr>fw_fs := s\<rparr>" "remove_fd_list 0 fd REMOVE_ALL w1 = Inr (0, w')"
    using m by (auto simp: close_fs_def fbind_Inr_iff in_fs_Inr_iff)
  obtain q where "proc_or_current 0 w1 = Inr (q, w1)" by (simp add: proc_or_current_def fread_def)
  then show ?thesis using remove_inv [OF _ w1(2)] inv w1(1) by simp
qed

lemma dup_call_inv: "fd_inv w \<Longrightarrow> dup_fs p fd w = Inr (r, w') \<Longrightarrow> fd_inv w'"
proof -
  assume inv: "fd_inv w" and m: "dup_fs p fd w = Inr (r, w')"
  have d: "preserves (dup_open_file 0 a (-1))" for a using dup_inv [of _ 0 a "-1"] by (auto simp: preserves_def)
  have "preserves (dup_fs p fd)"
    unfolding dup_fs_def by (intro preserves_intros d keeps_preserves [OF keeps_links(2)])
  then show "fd_inv w'" using inv m by (auto simp: preserves_def)
qed

lemma pipe_call_inv: "sys_pipe b w = Inr ((0, ends), w') \<Longrightarrow> fd_inv w \<Longrightarrow> fd_inv w'"
  using pipe_inv [of b] by (auto simp: preserves_when_def)

lemma other_kernel_inv: "fd_inv w \<Longrightarrow> fd_inv (w\<lparr>fw_pw := k\<rparr>)"
  by simp

lemmas call_invs = tables_kept_inv preserves_calls [THEN preservesD] other_kernel_inv close_inv dup_call_inv dup2_inv pipe_call_inv init_inv fork_inv close_all_inv

lemma fd_step_inv: "fd_step w w' \<Longrightarrow> fd_inv w \<Longrightarrow> fd_inv w'"
  by (induction rule: fd_step.induct) (rule call_invs; assumption)+

lemma fd_run_inv: "fd_step\<^sup>*\<^sup>* w w' \<Longrightarrow> fd_inv w \<Longrightarrow> fd_inv w'"
  by (induction rule: rtranclp_induct) (auto dest: fd_step_inv)

text \<open>Before the first process there are no descriptors.\<close>

definition no_files :: "fworld \<Rightarrow> bool" where
  "no_files w \<longleftrightarrow> fw_procs w = Map.empty \<and> fw_files w = Map.empty \<and> 0 < fw_fresh w"

lemma no_files_inv: "no_files w \<Longrightarrow> fd_inv w"
  by (simp add: no_files_def fd_inv_def room_ok_def counts_ok_def refs_def)

end
