(* ===== verification/FdProps.thy ===== *)
theory FdProps
  imports FdRun KSched
begin

text \<open>
  What the calls on files promise their callers: consistent descriptors in every run, the lowest free
  number for a new one, positions inside the file, and paths that mean what their text says. Two calls
  are undefined on ordinary arguments.
\<close>

section \<open>A small system\<close>

definition root_dir_inode :: inode_t where
  "root_dir_inode = (bytes_inode (replicate 128 0))\<lparr>i_mode := EXT2_S_IFDIR, i_size := 24\<rparr>"

lemma root_dir_fields [simp]: "i_mode root_dir_inode = EXT2_S_IFDIR" "i_size root_dir_inode = 24"
  by (simp_all add: root_dir_inode_def)

definition files_fs :: ext2 where
  "files_fs = small_fs\<lparr>inode_list := [\<lparr>ie_address = 1, ie_id = 11, ie_usage = 1\<rparr>], inodes := [1 \<mapsto> root_dir_inode], ffresh := 2\<rparr>"

definition files_world :: fworld where
  "files_world = \<lparr>fw_pw = \<lparr>pw_kernel = small_kernel, pw_pipes = Map.empty\<rparr>, fw_fs = files_fs, fw_files = Map.empty, fw_fresh = 1,
     fw_procs = Map.empty, fw_devices = replicate NUM_DEV False, fw_stale = (FS_FT_UNKNOWN, 0)\<rparr>"

definition first_proc :: fproc where
  "first_proc = (let d = \<lparr>dir_inode = 1, dir_name = Some [SLASH], name_size = 2\<rparr> in
     \<lparr>root_dir = d, cur_dir = d, fd_bitmap = replicate SIZE_BIT_MAP 0, open_files = []\<rparr>)"

definition proc_world :: fworld where
  "proc_world = files_world\<lparr>fw_fs := files_fs\<lparr>inode_list := [\<lparr>ie_address = 1, ie_id = 11, ie_usage = 3\<rparr>]\<rparr>, fw_procs := [2 \<mapsto> first_proc]\<rparr>"

text \<open>The process has a pipe, whose ends are 0 and 1.\<close>

definition pipe_flip :: "bool \<Rightarrow> flip" where
  "pipe_flip r = (new_flip (FS_FT_UNKNOWN, 0))\<lparr>fl_type := FS_FT_PIPE, fl_pipe := 3, fl_can_read := r, fl_can_write := \<not> r\<rparr>"

definition pipe_proc :: fproc where
  "pipe_proc = first_proc\<lparr>fd_bitmap := 3 # replicate 63 0,
     open_files := [Some \<lparr>of_fd = 1, of_file = 2\<rparr>, Some \<lparr>of_fd = 0, of_file = 1\<rparr>]\<rparr>"

definition pipe_world :: fworld where
  "pipe_world = proc_world\<lparr>fw_pw := snd (create_pipe 3 (fw_pw proc_world)), fw_files := [1 \<mapsto> pipe_flip True, 2 \<mapsto> pipe_flip False],
     fw_fresh := 4, fw_procs := [2 \<mapsto> pipe_proc]\<rparr>"

lemmas small_files_defs = files_world_def files_fs_def small_fs_def proc_world_def pipe_world_def

lemma files_cache [simp]: "c_fs small_cache = Some geo2048"
  by (simp add: small_cache_def)

lemma small_running [simp]: "get_process_struct_of_pid (getpid small_kernel) small_kernel = 2"
  by (simp add: getpid_def get_process_struct_of_pid_def small_kernel_def)

lemma small_init: "init_files 2 files_world = Inr ((), proc_world)"
  by (simp add: init_files_def root_name_def fbind_def in_fs_def fupd_def fret_def small_files_defs get_inode_def get_super_block_def
    get_desc_table_def get_inode_t_elt_from_id_def fs_malloc_def EXT2_GOOD_OLD_FIRST_INO_def first_proc_def small_super_def small_desc_def Let_def)

lemma least_fd:
  assumes "length bits = SIZE_BIT_MAP" "n < 512" "\<not> bbit bits n" "\<And>m. m < n \<Longrightarrow> bbit bits m"
  shows "alloc_bit_fdmap bits = int n"
proof -
  have "alloc_bit_fdmap bits \<noteq> -1" using alloc_fd(1) [OF assms(1), of n] assms(2,3) by auto
  then obtain k where "alloc_bit_fdmap bits = int k" "\<not> bbit bits k" "\<forall>m < k. bbit bits m" using alloc_fd(2) [OF assms(1)] by blast
  moreover from this have "k = n" using assms(3,4) by (metis linorder_neqE_nat)
  ultimately show ?thesis by simp
qed

lemma small_fds: "alloc_bit_fdmap (replicate SIZE_BIT_MAP 0) = 0" "alloc_bit_fdmap (1 # replicate 63 0) = 1"
  using least_fd [of "replicate SIZE_BIT_MAP 0" 0] least_fd [of "1 # replicate 63 0" 1]
  by (simp_all add: SIZE_BIT_MAP_def bbit_def)

lemma small_semaphore: "create_pipe 3 \<lparr>pw_kernel = small_kernel, pw_pipes = Map.empty\<rparr> =
    (3, snd (create_pipe 3 \<lparr>pw_kernel = small_kernel, pw_pipes = Map.empty\<rparr>))"
  by (simp add: create_pipe_def screate_def small_kernel_def kalloc_def kmalloc_def increment_semaphore_id_def Let_def NB_MAX_SEMS_def)

lemma small_bits: "set_fd_bit 0 (replicate SIZE_BIT_MAP 0) = Inr (1 # replicate 63 0)" "set_fd_bit 1 (1 # replicate 63 0) = Inr (3 # replicate 63 0)"
proof -
  have "replicate SIZE_BIT_MAP 0 = (0 :: byte) # replicate 63 0" using replicate_Suc [of 63 "0 :: byte"] by (simp add: SIZE_BIT_MAP_def)
  then show "set_fd_bit 0 (replicate SIZE_BIT_MAP 0) = Inr (1 # replicate 63 0)" "set_fd_bit 1 (1 # replicate 63 0) = Inr (3 # replicate 63 0)"
    by (simp_all add: set_fd_bit_def SIZE_BIT_MAP_def set_bit_at_def)
qed

lemma malloc_ok: "fmem s = [] \<Longrightarrow> fs_malloc s = Inr (True, s)"
  by (simp add: fs_malloc_def)

lemma in_fs_ok [simp]: "fmem (fw_fs w) = [] \<Longrightarrow> in_fs fs_malloc w = Inr (True, w)"
  by (simp add: in_fs_def malloc_ok)

lemma add_new_eval:
  assumes "get_process_struct_of_pid (getpid (pw_kernel (fw_pw w))) (pw_kernel (fw_pw w)) = q" "q \<noteq> 0" "fmem (fw_fs w) = []"
    "fw_procs w q = Some p" "set_fd_bit (alloc_bit_fdmap (fd_bitmap p)) (fd_bitmap p) = Inr bits"
    "e = \<lparr>of_fd = alloc_bit_fdmap (fd_bitmap p), of_file = fw_fresh w\<rparr>"
  shows "add_new_element_open_files 0 w = Inr (Some e,
    w\<lparr>fw_procs := (fw_procs w)(q \<mapsto> p\<lparr>fd_bitmap := bits, open_files := Some e # open_files p\<rparr>),
      fw_files := (fw_files w)(fw_fresh w \<mapsto> new_flip (fw_stale w)), fw_fresh := Suc (fw_fresh w)\<rparr>)"
  using assms
  by (simp add: add_new_element_open_files_def proc_or_current_def fbind_def fupd_def fret_def fread_def malloc_ok in_fs_def
    proc_at_def add_link_def upd_proc_def Let_def)

lemma small_pipe: "sys_pipe True proc_world = Inr ((0, Some (0, 1)), pipe_world)"
proof -
  let ?p1 = "first_proc\<lparr>fd_bitmap := 1 # replicate 63 0, open_files := [Some \<lparr>of_fd = 0, of_file = 1\<rparr>]\<rparr>"
  let ?w1 = "proc_world\<lparr>fw_procs := [2 \<mapsto> ?p1], fw_files := [1 \<mapsto> new_flip (FS_FT_UNKNOWN, 0)], fw_fresh := 2\<rparr>"
  let ?w2 = "proc_world\<lparr>fw_procs := [2 \<mapsto> pipe_proc], fw_files := [1 \<mapsto> new_flip (FS_FT_UNKNOWN, 0), 2 \<mapsto> new_flip (FS_FT_UNKNOWN, 0)],
     fw_fresh := 3\<rparr>"
  have 1: "add_new_element_open_files 0 proc_world = Inr (Some \<lparr>of_fd = 0, of_file = 1\<rparr>, ?w1)"
    by (subst add_new_eval [of _ 2 first_proc "1 # replicate 63 0" "\<lparr>of_fd = 0, of_file = 1\<rparr>"])
      (simp_all add: small_files_defs first_proc_def small_fds small_bits Let_def)
  have 2: "add_new_element_open_files 0 ?w1 = Inr (Some \<lparr>of_fd = 1, of_file = 2\<rparr>, ?w2)"
    by (subst add_new_eval [of _ 2 ?p1 "3 # replicate 63 0" "\<lparr>of_fd = 1, of_file = 2\<rparr>"])
      (simp_all add: small_files_defs first_proc_def pipe_proc_def small_fds small_bits Let_def numeral_3_eq_3)
  have 3: "new_pipe ?w2 = Inr (3, ?w2\<lparr>fw_fresh := 4, fw_pw := snd (create_pipe 3 (fw_pw proc_world))\<rparr>)"
  proof -
    obtain pw where "create_pipe 3 \<lparr>pw_kernel = small_kernel, pw_pipes = Map.empty\<rparr> = (3, pw)" using small_semaphore by blast
    then show ?thesis by (simp add: new_pipe_def fread_def fupd_def in_pipes_def small_files_defs fbind_def malloc_ok in_fs_def)
  qed
  show ?thesis
    by (simp add: sys_pipe_def 1 2 3 fbind_def upd_file_def file_at_def fread_def fupd_def fret_def del: One_nat_def)
      (simp add: small_files_defs pipe_flip_def pipe_end_def fun_upd_twist new_flip_def)
qed

text \<open>The root directory is opened.\<close>

definition root_flip :: flip where
  "root_flip = (new_flip (FS_FT_UNKNOWN, 0))\<lparr>fl_inode := 1, fl_type := FS_FT_INODE_FILE, fl_can_read := True, fl_number := 11\<rparr>"

definition open_world :: fworld where
  "open_world = pipe_world\<lparr>fw_fs := files_fs\<lparr>inode_list := [\<lparr>ie_address = 1, ie_id = 11, ie_usage = 4\<rparr>]\<rparr>,
     fw_files := (fw_files pipe_world)(4 \<mapsto> root_flip), fw_fresh := 5,
     fw_procs := [2 \<mapsto> pipe_proc\<lparr>fd_bitmap := 7 # replicate 63 0, open_files := Some \<lparr>of_fd = 2, of_file = 4\<rparr> # open_files pipe_proc\<rparr>]\<rparr>"

lemma tokens_root [simp]: "path_tokens [SLASH] = []"
  using tokens_render [of "[]"] by (simp add: render_def)

lemma extract_root [simp]: "fmem (fw_fs w) = [] \<Longrightarrow> in_fs (extract_files (Some [SLASH])) w = Inr (Some [], w)"
  by (simp add: in_fs_def extract_files_def sbind_def malloc_ok sret_def PATH_SIZE_MAX_def)

lemma walk_root:
  assumes "fmem (fw_fs w) = []"
  shows "walk_and_get (Some [SLASH]) back w = in_fs (get_inode EXT2_GOOD_OLD_FIRST_INO) w"
proof (cases "in_fs (get_inode EXT2_GOOD_OLD_FIRST_INO) w")
  case (Inr r)
  then show ?thesis using assms
    by (cases r) (simp add: walk_and_get_def walk_from_def is_absolute_directory_def fret_def)
qed (use assms in \<open>simp add: walk_and_get_def walk_from_def is_absolute_directory_def fbind_def\<close>)

lemma small_get_root:
  "fw_fs w = files_fs\<lparr>inode_list := [\<lparr>ie_address = 1, ie_id = 11, ie_usage = u\<rparr>]\<rparr> \<Longrightarrow>
   in_fs (get_inode EXT2_GOOD_OLD_FIRST_INO) w = Inr (1, w\<lparr>fw_fs := files_fs\<lparr>inode_list := [\<lparr>ie_address = 1, ie_id = 11, ie_usage = u + 1\<rparr>]\<rparr>\<rparr>)"
  by (simp add: in_fs_def get_inode_def files_fs_def small_fs_def get_super_block_def get_desc_table_def get_inode_t_elt_from_id_def
    EXT2_GOOD_OLD_FIRST_INO_def small_super_def small_desc_def)

lemma small_inode:
  "fw_fs w = files_fs\<lparr>inode_list := es\<rparr> \<Longrightarrow> the_inode 1 w = Inr (root_dir_inode, w)"
  by (simp add: the_inode_def in_fs_def inode_at_def sread_def files_fs_def)

lemma small_open: "open_fs 2 (Some [SLASH]) 0 pipe_world = Inr (2, open_world)"
proof -
  let ?fs = "files_fs\<lparr>inode_list := [\<lparr>ie_address = 1, ie_id = 11, ie_usage = 4\<rparr>]\<rparr>"
  have m: "fmem (fw_fs pipe_world) = []" "fmem ?fs = []" by (simp_all add: small_files_defs)
  have w: "walk_and_get (Some [SLASH]) 0 pipe_world = Inr (1, pipe_world\<lparr>fw_fs := ?fs\<rparr>)"
    using walk_root [OF m(1)] small_get_root [of pipe_world 3] by (simp add: pipe_world_def proc_world_def)
  have "alloc_bit_fdmap (fd_bitmap pipe_proc) = int 2"
    by (rule least_fd) (auto simp: pipe_proc_def SIZE_BIT_MAP_def bbit_def less_2_cases_iff)
  then have b: "alloc_bit_fdmap (fd_bitmap pipe_proc) = 2" by simp
  have s: "set_fd_bit 2 (fd_bitmap pipe_proc) = Inr (7 # replicate 63 0)"
    by (simp add: pipe_proc_def set_fd_bit_def SIZE_BIT_MAP_def set_bit_at_def)
  let ?w2 = "open_world\<lparr>fw_files := (fw_files pipe_world)(4 \<mapsto> new_flip (FS_FT_UNKNOWN, 0))\<rparr>"
  have a: "add_new_element_open_files 2 (pipe_world\<lparr>fw_fs := ?fs\<rparr>) = Inr (Some \<lparr>of_fd = 2, of_file = 4\<rparr>, ?w2)"
    using b s m
    by (simp add: add_new_element_open_files_def proc_or_current_def fbind_def fupd_def fret_def fread_def malloc_ok in_fs_def
      proc_at_def add_link_def upd_proc_def Let_def)
      (simp add: open_world_def pipe_world_def proc_world_def files_world_def)
  have i: "the_inode 1 w = Inr (root_dir_inode, w)" if "fw_fs w = ?fs" for w using small_inode that by blast
  have "open_fs 2 (Some [SLASH]) 0 pipe_world = configure_file \<lparr>of_fd = 2, of_file = 4\<rparr> 1 0 ?w2"
    using m w a i [of "pipe_world\<lparr>fw_fs := ?fs\<rparr>"] by (simp add: open_fs_def fret_def del: One_nat_def)
  also have "\<dots> = Inr (2, open_world)"
  proof -
    have n: "inode_number 1 w = Inr (11, w)" if "fw_fs w = ?fs" for w
      using that by (simp add: inode_number_def fread_def get_inode_number_def get_inode_t_elt_def files_fs_def small_fs_def)
    have "fw_fs open_world = ?fs" "of_file \<lparr>of_fd = 2, of_file = 4\<rparr> = 4" "i_mode root_dir_inode = EXT2_S_IFDIR"
      by (simp_all add: open_world_def root_dir_inode_def)
    moreover have "EXT2_S_IFDIR \<noteq> EXT2_S_IFREG" by (simp add: EXT2_S_IFDIR_def EXT2_S_IFREG_def)
    ultimately show ?thesis
      by (simp add: configure_file_def i n upd_file_def file_at_def fread_def fbind_def fupd_def fret_def access_mode_def O_RDONLY_def
        del: One_nat_def)
        (simp add: open_world_def new_flip_def root_flip_def)
  qed
  finally show ?thesis .
qed

section \<open>Properties\<close>

text \<open>
  C4. Descriptors in every run of file calls by any processes, starting without files, in which every
  close, \<^verbatim>\<open>dup2\<close>, \<^verbatim>\<open>pipe\<close>, \<^verbatim>\<open>fork\<close> and closing of all files succeeds or fails before it changes the
  tables: in each process no descriptor is there twice, the bits of its map are its descriptors, and each
  of them refers to an open file that has not been freed and counts exactly the descriptors, of all
  processes, that refer to it. (One of these five that fails half-way leaves the tables inconsistent; the
  other calls may fail in any way.)
\<close>
theorem descriptors_refer_to_live_files:
  assumes "no_files w" "fd_step\<^sup>*\<^sup>* w w'" "fw_procs w' p = Some fp"
  shows "None \<notin> set (open_files fp) \<and> distinct (fds fp) \<and> (\<forall>n < 512. bbit (fd_bitmap fp) n \<longleftrightarrow> int n \<in> set (fds fp)) \<and>
    (\<forall>a \<in> set (files_of fp). \<exists>f. fw_files w' a = Some f \<and> unat (fl_usage f) = refs a (fw_procs w'))"
proof -
  have inv: "fd_inv w'" using fd_run_inv assms(1,2) no_files_inv by blast
  then have t: "fd_table_ok fp" "finite (dom (fw_procs w'))" using assms(3) by (auto simp: fd_inv_def room_ok_def)
  have "\<exists>f. fw_files w' a = Some f \<and> unat (fl_usage f) = refs a (fw_procs w')" if "a \<in> set (files_of fp)" for a
  proof -
    have "count_list (files_of (the (fw_procs w' p))) a \<le> refs a (fw_procs w')"
      unfolding refs_def using t(2) assms(3) by (intro member_le_sum) (auto simp: domI)
    moreover have "count_list (files_of fp) a \<noteq> 0" using that by (simp add: count_list_0_iff)
    ultimately have "refs a (fw_procs w') \<noteq> 0" using assms(3) by simp
    then show ?thesis using countsD [of w' a] inv by (cases "fw_files w' a") (auto simp: fd_inv_def)
  qed
  then show ?thesis using t(1) by (simp add: fd_table_ok_def)
qed

text \<open>A process is made, it creates a pipe, and the write end becomes its descriptor 5 too.\<close>

lemma dup_eval:
  assumes "p \<noteq> 0" "fmem (fw_fs w) = []" "fw_procs w p = Some fp" "0 \<le> fd" "fd < MAX_FS" "set_fd_bit fd (fd_bitmap fp) = Inr bits"
    "a \<noteq> 0" "e = \<lparr>of_fd = fd, of_file = a\<rparr>"
  shows "dup_open_file p a fd w = (case fw_files w a of None \<Rightarrow> Inl Use_after_free
     | Some f \<Rightarrow> Inr (Some e, w\<lparr>fw_procs := (fw_procs w)(p \<mapsto> fp\<lparr>fd_bitmap := bits, open_files := Some e # open_files fp\<rparr>),
         fw_files := (fw_files w)(a \<mapsto> f\<lparr>fl_usage := fl_usage f + 1\<rparr>)\<rparr>))"
  using assms
  by (auto simp: dup_open_file_def proc_or_current_def fbind_def fupd_def fret_def fread_def malloc_ok in_fs_def
    proc_at_def add_link_def upd_proc_def upd_file_def file_at_def Let_def split: option.split)

lemma fd_lookup:
  assumes "p \<noteq> 0" "0 \<le> fd" "fd < MAX_FS" "fw_procs w p = Some fp" "find_fd fd (open_files fp) = Inr eo"
  shows "get_open_fd_elt p fd w = Inr (eo, w)" "get_fs_list_elt p fd w = Inr (case eo of None \<Rightarrow> 0 | Some e \<Rightarrow> of_file e, w)"
  using assms by (auto simp: get_open_fd_elt_def get_fs_list_elt_def link_of_def proc_or_current_def proc_at_def fbind_def fread_def fret_def)

lemma small_dup2: "\<exists>w. dup2_fs 2 1 5 pipe_world = Inr (5, w) \<and>
    fw_procs w = [2 \<mapsto> pipe_proc\<lparr>fd_bitmap := 35 # replicate 63 0, open_files := Some \<lparr>of_fd = 5, of_file = 2\<rparr> # open_files pipe_proc\<rparr>]"
proof -
  have p: "fw_procs pipe_world 2 = Some pipe_proc" "fw_files pipe_world 2 = Some (pipe_flip False)" "fmem (fw_fs pipe_world) = []"
    by (simp_all add: small_files_defs)
  have f: "find_fd 1 (open_files pipe_proc) = Inr (Some \<lparr>of_fd = 1, of_file = 2\<rparr>)" "find_fd 5 (open_files pipe_proc) = Inr None"
    by (simp_all add: pipe_proc_def)
  have b: "set_fd_bit 5 (fd_bitmap pipe_proc) = Inr (35 # replicate 63 0)"
    by (simp add: pipe_proc_def set_fd_bit_def SIZE_BIT_MAP_def set_bit_at_def)
  have "fw_procs pipe_world = [2 \<mapsto> pipe_proc]" by (simp add: pipe_world_def)
  then show ?thesis
    using p fd_lookup(2) [OF _ _ _ p(1) f(1)] fd_lookup(1) [OF _ _ _ p(1) f(2)] dup_eval [OF _ p(3,1) _ _ b, of 2]
    by (simp add: dup2_fs_def MAX_FS_def proc_or_current_def fread_def fbind_def fret_def)
qed

theorem descriptors_refer_to_live_files_witness:
  "\<exists>w f. fd_step\<^sup>*\<^sup>* files_world w \<and> fw_files w 2 = Some f \<and> unat (fl_usage f) = refs 2 (fw_procs w) \<and> 5 \<in> set (fds (the (fw_procs w 2)))"
proof -
  let ?p = "pipe_proc\<lparr>fd_bitmap := 35 # replicate 63 0, open_files := Some \<lparr>of_fd = 5, of_file = 2\<rparr> # open_files pipe_proc\<rparr>"
  obtain w where w: "dup2_fs 2 1 5 pipe_world = Inr (5, w)" "fw_procs w = [2 \<mapsto> ?p]" using small_dup2 by blast
  have s: "no_files files_world" by (simp add: no_files_def files_world_def)
  have "fd_step files_world proc_world" by (rule new_process [OF small_init]) (simp_all add: files_world_def)
  moreover have "fd_step proc_world pipe_world" by (rule call_pipe [OF small_pipe])
  moreover have "fd_step pipe_world w" by (rule call_dup2 [OF w(1)]) simp
  ultimately have r: "fd_step\<^sup>*\<^sup>* files_world w"
    using rtranclp.rtrancl_refl [of fd_step files_world] by (blast intro: rtranclp.rtrancl_into_rtrancl)
  have "2 \<in> set (files_of ?p)" "5 \<in> set (fds ?p)" by (simp_all add: files_of_def fds_def)
  then show ?thesis using r w(2) descriptors_refer_to_live_files [OF s r, of 2 ?p] by auto
qed

text \<open>The last part of \<^verbatim>\<open>open\<close> gives the number of the new descriptor or fails.\<close>

lemma configure_result: "configure_file e a flags w = Inr (r, w') \<Longrightarrow> r = -1 \<or> r = of_fd e"
  by (auto simp: configure_file_def fbind_Inr_iff split: if_split_asm)

lemma open_parts:
  assumes "open_fs p path flags w = Inr (r, w')" "r \<noteq> -1"
  obtains w1 e w2 a where "same_tables w w1" "add_new_element_open_files p w1 = Inr (Some e, w2)" "same_tables w2 w'" "r = of_fd e"
proof -
  have front: "keeps (if flags AND O_CREAT \<noteq> 0 then open_create path files flags else fbind (walk_and_get path 0) (\<lambda>a. fret (Some a)))" for files
    by (intro keeps_intros)
  obtain fs w0 where 0: "in_fs (extract_files path) w = Inr (fs, w0)"
    "(case fs of
          None \<Rightarrow> fret (-1)
        | Some files \<Rightarrow>
            fbind (if flags AND O_CREAT \<noteq> 0 then open_create path files flags
                   else fbind (walk_and_get path 0) (\<lambda>a. fret (Some a))) (\<lambda>ao.
            case ao of
              None \<Rightarrow> fret (-1)
            | Some a \<Rightarrow>
                if a = 0 then fret (-1)
                else fbind (the_inode a) (\<lambda>i.
                  if flags AND O_DIRECTORY \<noteq> 0 \<and> i_mode i \<noteq> EXT2_S_IFDIR then fret (-1)
                  else fbind (add_new_element_open_files p) (\<lambda>eo.
                    case eo of None \<Rightarrow> fret (-1) | Some e \<Rightarrow> configure_file e a flags)))) w0 = Inr (r, w')"
    using assms unfolding open_fs_def by (auto elim!: fbindE split: if_split_asm)
  then obtain files where files: "fs = Some files" using assms(2) by (cases fs) auto
  obtain ao w1 where 1: "(if flags AND O_CREAT \<noteq> 0 then open_create path files flags
                   else fbind (walk_and_get path 0) (\<lambda>a. fret (Some a))) w0 = Inr (ao, w1)"
    "(case ao of
              None \<Rightarrow> fret (-1)
            | Some a \<Rightarrow>
                if a = 0 then fret (-1)
                else fbind (the_inode a) (\<lambda>i.
                  if flags AND O_DIRECTORY \<noteq> 0 \<and> i_mode i \<noteq> EXT2_S_IFDIR then fret (-1)
                  else fbind (add_new_element_open_files p) (\<lambda>eo.
                    case eo of None \<Rightarrow> fret (-1) | Some e \<Rightarrow> configure_file e a flags))) w1 = Inr (r, w')"
    using 0(2) unfolding files option.case by (rule fbindE)
  then obtain a where a: "ao = Some a" "a \<noteq> 0" using assms(2) by (cases ao) (auto split: if_split_asm)
  with 1(2) obtain i w2 eo w3 where 2: "the_inode a w1 = Inr (i, w2)" "add_new_element_open_files p w2 = Inr (eo, w3)"
    "(case eo of None \<Rightarrow> fret (-1) | Some e \<Rightarrow> configure_file e a flags) w3 = Inr (r, w')"
    using assms(2) by (auto elim!: fbindE split: if_split_asm)
  then obtain e where e: "eo = Some e" using assms(2) by (cases eo) auto
  have "same_tables w w2"
    using keepsD [OF keeps_basic(4) 0(1)] keepsD [OF front 1(1)] keepsD [OF keeps_walk(3) 2(1)] same_tables_trans by blast
  moreover have "same_tables w3 w'" "r = of_fd e"
    using keepsD [OF keeps_configure] configure_result 2(3) e assms(2) by (simp, fastforce)+
  ultimately show thesis using that 2(2) e by blast
qed

text \<open>
  C20. \<^verbatim>\<open>open\<close> gives the lowest free descriptor: when it succeeds, its result was not a descriptor of the
  process, every smaller number was, and afterwards the descriptors of the process are the old ones and this
  one.
\<close>
theorem open_returns_lowest_descriptor:
  assumes "fd_inv w" "open_fs p path flags w = Inr (r, w')" "r \<noteq> -1"
  shows "\<exists>q fp fp'. (p \<noteq> 0 \<longrightarrow> q = p) \<and> fw_procs w q = Some fp \<and> fw_procs w' q = Some fp' \<and> fds fp' = r # fds fp \<and>
    0 \<le> r \<and> r < MAX_FS \<and> r \<notin> set (fds fp) \<and> (\<forall>k. 0 \<le> k \<and> k < r \<longrightarrow> k \<in> set (fds fp))"
proof -
  obtain w1 e w2 where s: "same_tables w w1" "add_new_element_open_files p w1 = Inr (Some e, w2)" "same_tables w2 w'" "r = of_fd e"
    using open_parts [OF assms(2,3)] by metis
  obtain q fp bits where q: "p \<noteq> 0 \<longrightarrow> q = p" "fw_procs w1 q = Some fp" "set_fd_bit (of_fd e) (fd_bitmap fp) = Inr bits"
    "of_fd e = alloc_bit_fdmap (fd_bitmap fp)" "fw_procs w2 q = Some (fp\<lparr>fd_bitmap := bits, open_files := Some e # open_files fp\<rparr>)"
    using s(2) by (auto simp: add_new_element_open_files_def add_link_def fupd_def fw_iffs proc_or_current_def Let_def split: if_split_asm)
  have p: "fw_procs w q = Some fp" "fw_procs w' q = Some (fp\<lparr>fd_bitmap := bits, open_files := Some e # open_files fp\<rparr>)"
    using q(2,5) s(1,3) by (simp_all add: same_tables_def)
  have t: "fd_table_ok fp" using assms(1) p(1) by (simp add: fd_inv_def)
  then have l: "length (fd_bitmap fp) = SIZE_BIT_MAP" by (simp add: fd_table_ok_def)
  obtain k where k: "k < 512" "r = int k" "\<not> bbit (fd_bitmap fp) k" "\<forall>m < k. bbit (fd_bitmap fp) m"
    using alloc_fd(2) [OF l] q(4) s(4) assms(3) by auto
  have b: "bbit (fd_bitmap fp) n \<longleftrightarrow> int n \<in> set (fds fp)" if "n < 512" for n using t that by (simp add: fd_table_ok_def)
  have "j \<in> set (fds fp)" if "0 \<le> j" "j < r" for j using k b [of "nat j"] that by simp
  moreover have "r \<notin> set (fds fp)" using k b by simp
  ultimately show ?thesis using p q(1) s(4) k(1,2) by (intro exI [of _ q]) (simp add: fds_def MAX_FS_def)
qed

theorem open_returns_lowest_descriptor_witness:
  "open_fs 2 (Some [SLASH]) 0 pipe_world = Inr (2, open_world) \<and> fds (the (fw_procs pipe_world 2)) = [1, 0] \<and>
   fds (the (fw_procs open_world 2)) = [2, 1, 0]"
proof -
  have "fd_inv proc_world" by (rule fd_step_inv [OF new_process [OF small_init]]) (simp_all add: files_world_def no_files_inv no_files_def)
  then have "fd_inv pipe_world" by (rule fd_step_inv [OF call_pipe [OF small_pipe]])
  moreover have "fw_procs pipe_world 2 = Some pipe_proc" "fds pipe_proc = [1, 0]"
    by (simp_all add: pipe_world_def pipe_proc_def fds_def)
  ultimately show ?thesis using open_returns_lowest_descriptor [OF _ small_open] small_open by auto
qed

lemma clamp_bounds:
  "0 \<le> sint (fl_position (clamp_position len f)) \<and> sint (fl_position (clamp_position len f)) \<le> uint len"
proof -
  have "sint (ucast len :: s64) = uint len"
  proof -
    have "uint len < 2 ^ 32" using uint_lt2p [of len] by simp
    moreover from this have "uint (ucast len :: s64) = uint len" by (simp add: unsigned_ucast_eq take_bit_int_eq_self)
    moreover have "- (2 ^ 63) \<le> uint len" by (rule order_trans [OF _ uint_ge_0]) simp
    moreover have "uint len < 2 ^ 63" using uint_lt2p [of len] by simp
    ultimately have "uint (ucast len :: s64) = uint len" "- (2 ^ 63) \<le> uint len" "uint len < 2 ^ 63" by simp_all
    moreover from this(2,3) have "signed_take_bit 63 (uint len) = uint len" by (rule signed_take_bit_int_eq_self)
    ultimately show ?thesis by (simp add: sint_uint)
  qed
  then show ?thesis by (simp add: clamp_position_def)
qed

text \<open>
  C23. Positions stay in the file: whatever the offset and the origin, \<^verbatim>\<open>lseek\<close> either fails or leaves the
  open file of the descriptor at the position it returns, between the start and the end of the file, and
  changes nothing else.
\<close>
theorem lseek_stays_in_file:
  assumes "lseek fd off wh w = Inr (r, w')" "r \<noteq> -1"
  shows "\<exists>a f i. get_fs_list_elt 0 fd w = Inr (a, w) \<and> fw_files w a = Some f \<and> fl_type f = FS_FT_INODE_FILE \<and>
    the_inode (fl_inode f) w = Inr (i, w) \<and> 0 \<le> r \<and> r \<le> uint (i_size i) \<and>
    w' = w\<lparr>fw_files := (fw_files w)(a \<mapsto> f\<lparr>fl_position := of_int r\<rparr>)\<rparr>"
proof -
  have wh: "wh \<le> 2 \<and> 0 \<le> wh" using assms by (auto simp: lseek_def split: if_split_asm)
  obtain a w1 where a: "get_fs_list_elt 0 fd w = Inr (a, w1)" "a \<noteq> 0"
    "fbind (file_at a) (\<lambda>f.
          if fl_type f \<noteq> FS_FT_INODE_FILE then fret (-1)
          else fbind (the_inode (fl_inode f)) (\<lambda>i.
            fbind (upd_file a (\<lambda>f. clamp_position (i_size i) (seek_position off wh (i_size i) f))) (\<lambda>_.
            fbind (file_at a) (\<lambda>f. fret (sint (fl_position f)))))) w1 = Inr (r, w')"
    using assms wh by (auto simp: lseek_def elim!: fbindE split: if_split_asm)
  have w1: "w1 = w" using a(1) by (auto simp: get_fs_list_elt_def link_of_def proc_or_current_def fw_iffs split: if_split_asm)
  obtain f i s where f: "fw_files w a = Some f" "fl_type f = FS_FT_INODE_FILE" "inode_at (fl_inode f) (fw_fs w) = Inr (i, s)"
    "r = sint (fl_position (clamp_position (i_size i) (seek_position off wh (i_size i) f)))"
    "w' = w\<lparr>fw_fs := s, fw_files := (fw_files w)(a \<mapsto> clamp_position (i_size i) (seek_position off wh (i_size i) f))\<rparr>"
    using a(2,3) assms(2) by (auto simp: w1 the_inode_def fw_iffs split: if_split_asm)
  have s: "s = fw_fs w" using f(3) by (auto simp: inode_at_def sread_def elim: rbindE)
  let ?g = "clamp_position (i_size i) (seek_position off wh (i_size i) f)"
  have "?g = f\<lparr>fl_position := fl_position ?g\<rparr>" by (simp add: clamp_position_def seek_position_def)
  moreover have "fl_position ?g = of_int r" by (simp add: f(4))
  moreover have "the_inode (fl_inode f) w = Inr (i, w)" using f(3) s by (simp add: the_inode_def in_fs_def)
  moreover have "w' = w\<lparr>fw_files := (fw_files w)(a \<mapsto> ?g)\<rparr>" using f(5) s by simp
  ultimately show ?thesis using a(1) f w1 clamp_bounds [of "i_size i"] by metis
qed

text \<open>Seeking behind the end of the root directory, which has 24 bytes.\<close>

lemma running_first: "get_process_struct_of_pid (getpid (pw_kernel (fw_pw open_world))) (pw_kernel (fw_pw open_world)) = 2"
  by (simp add: open_world_def pipe_world_def proc_world_def files_world_def create_pipe_def screate_def small_kernel_def kalloc_def
    kmalloc_def increment_semaphore_id_def Let_def NB_MAX_SEMS_def put_pipe_def getpid_def get_process_struct_of_pid_def)

theorem lseek_stays_in_file_witness:
  "\<exists>w' i. lseek 2 100 SEEK_SET open_world = Inr (24, w') \<and> the_inode 1 open_world = Inr (i, open_world) \<and> 24 \<le> uint (i_size i)"
proof -
  have p: "fw_procs open_world 2 = Some (pipe_proc\<lparr>fd_bitmap := 7 # replicate 63 0,
      open_files := Some \<lparr>of_fd = 2, of_file = 4\<rparr> # open_files pipe_proc\<rparr>)" "fw_files open_world 4 = Some root_flip"
    by (simp_all add: open_world_def)
  have a: "get_fs_list_elt 0 2 open_world = Inr (4, open_world)"
    using p running_first by (simp add: get_fs_list_elt_def link_of_def proc_or_current_def proc_at_def fread_def fbind_def fret_def)
  have i: "the_inode 1 open_world = Inr (root_dir_inode, open_world)" by (rule small_inode) (simp add: open_world_def)
  obtain w' where l: "lseek 2 100 SEEK_SET open_world = Inr (24, w')"
    using a p i by (simp add: lseek_def SEEK_SET_def fbind_def file_at_def fread_def upd_file_def fupd_def fret_def root_flip_def
      clamp_position_def seek_position_def root_dir_inode_def del: One_nat_def)
  show ?thesis using lseek_stays_in_file [OF l] l a p(2) i by (auto simp: root_flip_def)
qed

text \<open>
  C33. \<^verbatim>\<open>dup2\<close> of a descriptor on itself, which has to do nothing, frees the open file when the descriptor is
  its only one, and then counts a new reference in the freed memory.
\<close>
theorem dup2_on_itself_uses_freed_file:
  assumes "p \<noteq> 0" "0 \<le> fd" "fd < MAX_FS" "fw_procs w p = Some fp" "find_fd fd (open_files fp) = Inr (Some e)"
    "fw_files w (of_file e) = Some f" "fl_usage f = 1" "remove_fd_list p fd REMOVE_ALL w = Inr (0, w1)" "fmem (fw_fs w1) = []"
  shows "dup2_fs p fd fd w = Inl Use_after_free"
proof -
  have q: "proc_or_current p w = Inr (p, w)" using assms(1) by (simp add: proc_or_current_def fread_def)
  obtain fp' e' f' bits where s: "fw_procs w p = Some fp'" "find_fd fd (open_files fp') = Inr (Some e')" "fw_files w (of_file e') = Some f'"
    "of_file e' \<noteq> 0" "fw_procs w1 = (fw_procs w)(p \<mapsto> fp'\<lparr>fd_bitmap := bits, open_files := remove_fd fd (open_files fp')\<rparr>)"
    "fw_files w1 = (fw_files w)(of_file e' := dropped f')"
    using remove_fdE [OF assms(8) _ q] by (metis zero_neq_neg_one)
  let ?fp = "fp\<lparr>fd_bitmap := bits, open_files := remove_fd fd (open_files fp)\<rparr>"
  have w1: "fw_procs w1 p = Some ?fp" "fw_files w1 (of_file e) = None" "of_file e \<noteq> 0"
    using s assms(4-7) by (simp_all add: dropped_def)
  have "fd div 8 < int SIZE_BIT_MAP" using assms(3) by (simp add: SIZE_BIT_MAP_def MAX_FS_def)
  then obtain b where b: "set_fd_bit fd (fd_bitmap ?fp) = Inr b" using assms(2) by (simp add: set_fd_bit_def)
  have "dup_open_file p (of_file e) fd w1 = Inl Use_after_free"
    using dup_eval [OF assms(1,9) w1(1) assms(2,3) b w1(3) refl] w1(2) by simp
  then show ?thesis
    using assms(2,3,8) q fd_lookup [OF assms(1-5)] w1(3) by (simp add: dup2_fs_def fbind_def)
qed

text \<open>The read end of the pipe.\<close>

lemma small_pipe_entry: "\<exists>p. pw_pipes (fw_pw pipe_world) 3 = Some p \<and> can_write p"
  by (simp add: pipe_world_def proc_world_def files_world_def create_pipe_def screate_def small_kernel_def kalloc_def
    kmalloc_def increment_semaphore_id_def Let_def NB_MAX_SEMS_def put_pipe_def)

theorem dup2_on_itself_uses_freed_file_witness: "dup2_fs 2 0 0 pipe_world = Inl Use_after_free"
proof -
  have p: "fw_procs pipe_world 2 = Some pipe_proc" "fw_files pipe_world 1 = Some (pipe_flip True)"
    "find_fd 0 (open_files pipe_proc) = Inr (Some \<lparr>of_fd = 0, of_file = 1\<rparr>)"
    by (simp_all add: pipe_world_def pipe_proc_def)
  obtain q where q: "pw_pipes (fw_pw pipe_world) 3 = Some q" "can_write q" using small_pipe_entry by blast
  have c: "close_pipe 3 CLOSE_READ (fw_pw pipe_world) = Inr (-1, put_pipe 3 (close_end CLOSE_READ q) (fw_pw pipe_world))"
    using q by (simp add: close_pipe_def pipe_at_def close_end_def Let_def)
  obtain b where b: "clear_fd_bit 0 (fd_bitmap pipe_proc) = Inr b" by (simp add: clear_fd_bit_def SIZE_BIT_MAP_def)
  obtain w1 where "remove_fd_list 2 0 REMOVE_ALL pipe_world = Inr (0, w1)" "fw_fs w1 = fw_fs pipe_world"
    using fd_lookup(1) [OF _ _ _ p(1,3)] p(1,2) b c
    by (simp add: remove_fd_list_def proc_or_current_def fread_def fbind_def MAX_FS_def drop_file_def upd_file_def file_at_def fupd_def
      release_file_def pipe_flip_def new_flip_def in_pipes_def fret_def free_file_def proc_at_def upd_proc_def)
  moreover have "fmem (fw_fs pipe_world) = []" by (simp add: small_files_defs)
  ultimately show ?thesis
    using p by (intro dup2_on_itself_uses_freed_file [of 2 0 pipe_world pipe_proc "\<lparr>of_fd = 0, of_file = 1\<rparr>" "pipe_flip True" w1])
      (simp_all add: MAX_FS_def pipe_flip_def new_flip_def)
qed

text \<open>
  \<^verbatim>\<open>open\<close> of the root directory with \<^verbatim>\<open>O_CREAT\<close>: the path has no components, and the name that is looked
  up is read in front of the array of components.
\<close>
theorem create_root_out_of_bounds:
  assumes "flags AND O_CREAT \<noteq> 0" "fmem (fw_fs w) = []" "get_inode EXT2_GOOD_OLD_FIRST_INO (fw_fs w) = Inr (a, s)" "a \<noteq> 0"
    "inodes s a = Some i" "i_mode i = EXT2_S_IFDIR"
  shows "open_fs p (Some [SLASH]) flags w = Inl Out_of_bounds"
proof -
  have "walk_and_get (Some [SLASH]) 1 w = Inr (a, w\<lparr>fw_fs := s\<rparr>)" using walk_root [OF assms(2)] assms(3) by (simp add: in_fs_def)
  moreover have "the_inode a (w\<lparr>fw_fs := s\<rparr>) = Inr (i, w\<lparr>fw_fs := s\<rparr>)"
    using assms(4,5) by (simp add: the_inode_def in_fs_def inode_at_def sread_def)
  ultimately show ?thesis
    using assms(1,2,4,6) by (simp add: open_fs_def open_create_def is_dir_def last_name_def fread_def fret_def fbind_def)
qed

theorem create_root_out_of_bounds_witness: "open_fs 2 (Some [SLASH]) (O_RDWR OR O_CREAT) files_world = Inl Out_of_bounds"
proof (rule create_root_out_of_bounds [where i = root_dir_inode])
  show "get_inode EXT2_GOOD_OLD_FIRST_INO (fw_fs files_world) = Inr (1, files_fs\<lparr>inode_list := [\<lparr>ie_address = 1, ie_id = 11, ie_usage = 2\<rparr>]\<rparr>)"
    using small_get_root [of files_world 1] by (auto simp: in_fs_def files_world_def files_fs_def elim!: rbindE)
qed (simp_all add: files_world_def files_fs_def small_fs_def O_RDWR_def O_CREAT_def)

end
