(* ===== verification/PathProps.thy ===== *)
theory PathProps
  imports FdProps
begin

text \<open>
  The directory calls on the text of paths: the absolute form of a path is the one a stack of names
  computes, and the current directory that \<^verbatim>\<open>chdir\<close> sets is the one that \<^verbatim>\<open>getcwd\<close> gives.
\<close>

section \<open>Calls that only use the file system\<close>

named_theorems only_fs_intros \<open>computations that change the file system alone\<close>

definition only_fs :: "'a fwm \<Rightarrow> bool" where
  "only_fs m \<longleftrightarrow> (\<forall>w r w'. m w = Inr (r, w') \<longrightarrow> (\<exists>s. w' = w\<lparr>fw_fs := s\<rparr>))"

lemma only_fs_basic [only_fs_intros]: "only_fs (fret a)" "only_fs (ffail e)" "only_fs (fread f)" "only_fs (in_fs g)"
  by (auto simp: only_fs_def ffail_def fw_iffs intro: exI [of _ "fw_fs _"]) (metis fworld.surjective fworld.update_convs(2))+

lemma only_fs_bind [only_fs_intros]:
  assumes "only_fs m" "\<And>a. only_fs (f a)"
  shows "only_fs (fbind m f)"
  unfolding only_fs_def
proof (intro allI impI)
  fix w r w'
  assume "fbind m f w = Inr (r, w')"
  then obtain a w1 where 1: "m w = Inr (a, w1)" "f a w1 = Inr (r, w')" by (rule fbindE)
  then obtain s s' where "w1 = w\<lparr>fw_fs := s\<rparr>" "w' = w1\<lparr>fw_fs := s'\<rparr>" using assms unfolding only_fs_def by metis
  then show "\<exists>s. w' = w\<lparr>fw_fs := s\<rparr>" by auto
qed

lemma only_fs_if [only_fs_intros]: "only_fs m \<Longrightarrow> only_fs n \<Longrightarrow> only_fs (if b then m else n)"
  by simp

lemma only_fs_option [only_fs_intros]: "only_fs m \<Longrightarrow> (\<And>a. only_fs (f a)) \<Longrightarrow> only_fs (case x of None \<Rightarrow> m | Some a \<Rightarrow> f a)"
  by (cases x) simp_all

lemma only_fs_pair [only_fs_intros]: "(\<And>a b. only_fs (f a b)) \<Longrightarrow> only_fs (case x of (a, b) \<Rightarrow> f a b)"
  by (cases x) simp_all

lemma only_fs_walk [only_fs_intros]: "only_fs (walk_and_get path back)" "only_fs (is_dir a)"
  unfolding walk_and_get_def walk_from_def get_current_dir_def dir_of_proc_def proc_or_current_def inode_number_def proc_at_def
    is_dir_def the_inode_def
  by (intro only_fs_intros)+

section \<open>The absolute form of a path\<close>

definition dirs_ok :: "byte list list \<Rightarrow> fproc \<Rightarrow> bool" where
  "dirs_ok cs p \<longleftrightarrow> (\<forall>c \<in> set cs. name_ok c) \<and> DOT \<notin> set cs \<and> DOT_DOT \<notin> set cs \<and> length (render cs) < PATH_SIZE_MAX \<and>
     dir_name (root_dir p) = Some (render []) \<and> name_size (root_dir p) = 2 \<and>
     dir_name (cur_dir p) = Some (render cs) \<and> name_size (cur_dir p) = of_nat (length (render cs)) + 1"

definition running :: "fworld \<Rightarrow> ptr" where
  "running w = get_process_struct_of_pid (getpid (pw_kernel (fw_pw w))) (pw_kernel (fw_pw w))"

text \<open>What a path means for a process in the directory of the names \<open>cs\<close>.\<close>

definition path_stack :: "byte list list \<Rightarrow> byte list \<Rightarrow> byte list list" where
  "path_stack cs s = foldl stack_step (if is_absolute_directory s then [] else cs) (path_tokens s)"

lemma final_loop_eval: "fmem (fw_fs w) = [] \<Longrightarrow> final_loop cs s w = Inr (foldl path_step s cs, w)"
  by (induction cs arbitrary: s) (simp_all add: fret_def)

lemma small_length: "n < PATH_SIZE_MAX \<Longrightarrow> unat (of_nat n + 1 :: u32) = Suc n"
proof -
  assume "n < PATH_SIZE_MAX"
  then have "unat (of_nat (Suc n) :: u32) = Suc n" by (subst unat_of_nat) (simp add: PATH_SIZE_MAX_def)
  then show ?thesis by (simp add: add.commute)
qed

lemma path_stack_ok:
  assumes "\<forall>c \<in> set cs. name_ok c" "DOT \<notin> set cs" "DOT_DOT \<notin> set cs"
  shows "(\<forall>c \<in> set (path_stack cs s). name_ok c) \<and> DOT \<notin> set (path_stack cs s) \<and> DOT_DOT \<notin> set (path_stack cs s)"
  using path_steps_render [of "if is_absolute_directory s then [] else cs" "path_tokens s"]
    stack_no_dots [of "if is_absolute_directory s then [] else cs" "path_tokens s"] tokens_ok [of s] assms
  by (simp add: path_stack_def split: if_splits)

lemma field_eval:
  "running w \<noteq> 0 \<Longrightarrow> fw_procs w (running w) = Some p \<Longrightarrow> field_of_proc none field 0 w = Inr (field p, w)"
  by (simp add: field_of_proc_def proc_or_current_def running_def fread_def fbind_def proc_at_def fret_def)

lemmas dir_fields = get_root_dir_name_size_def get_root_dir_name_def get_current_dir_name_size_def get_current_dir_name_def

lemma final_string_eval:
  assumes w: "fmem (fw_fs w) = []" "running w \<noteq> 0" "fw_procs w (running w) = Some p" and p: "dirs_ok cs p"
    and s: "length s < PATH_SIZE_MAX"
  shows "get_final_string (Some s) w = Inr (Some (render (path_stack cs s)), w)"
proof -
  have c: "copy_name (Some (render ds)) n w = Inr (render ds, w)" if "unat n = Suc (length (render ds))" for n ds
    using that w(1) by (simp add: copy_name_def fret_def)
  have n: "unat (of_nat (length (render cs)) + 1 :: u32) = Suc (length (render cs))"
    using p by (intro small_length) (simp add: dirs_ok_def)
  have e: "in_fs (extract_files (Some s)) w = Inr (Some (path_tokens s), w)"
  proof -
    have "copy_tokens ts s' = Inr ((), s')" if "fmem s' = []" for ts s'
      using that by (induction ts) (simp_all add: sret_def sbind_def malloc_ok)
    then show ?thesis using w(1) s by (simp add: in_fs_def extract_files_def sbind_def malloc_ok sret_def)
  qed
  let ?ds = "if is_absolute_directory s then [] else cs"
  have start: "(if is_absolute_directory s
                 then fbind (get_root_dir_name_size 0) (\<lambda>n. fbind (get_root_dir_name 0) (\<lambda>d. copy_name d n))
                 else fbind (get_current_dir_name_size 0) (\<lambda>n. fbind (get_current_dir_name 0) (\<lambda>d. copy_name d n))) w = Inr (render ?ds, w)"
  proof -
    have "unat (2 :: u32) = Suc (length (render []))" by (simp add: render_def)
    then show ?thesis using p c n by (simp add: dir_fields dirs_ok_def field_eval [OF w(2,3)])
  qed
  have "foldl path_step (render ?ds) (path_tokens s) = render (path_stack cs s)"
    using path_steps_render [of ?ds "path_tokens s"] tokens_ok [of s] p by (simp add: path_stack_def dirs_ok_def)
  then show ?thesis using start e w(1) final_loop_eval [OF w(1)] by (simp add: get_final_string_def fret_def)
qed

text \<open>
  C11. The absolute form of a path is what a stack of names computes: starting from the root for an absolute
  path and from the current directory otherwise, a dot stays, two dots pop (and stay at the root), a name is
  pushed; the text is the names of the stack, without dot names. The model of the text itself cuts and
  appends bytes.
\<close>
theorem final_string_is_stack:
  assumes "fmem (fw_fs w) = []" "running w \<noteq> 0" "fw_procs w (running w) = Some p" "dirs_ok cs p" "length s < PATH_SIZE_MAX"
  shows "get_final_string (Some s) w = Inr (Some (render (path_stack cs s)), w) \<and>
    (\<forall>c \<in> set (path_stack cs s). name_ok c) \<and> DOT \<notin> set (path_stack cs s) \<and> DOT_DOT \<notin> set (path_stack cs s)"
  using final_string_eval [OF assms] path_stack_ok [of cs s] assms(4) by (simp add: dirs_ok_def)

text \<open>Two dots in the directory \<^verbatim>\<open>/a/b\<close>.\<close>

definition deep_world :: fworld where
  "deep_world = open_world\<lparr>fw_procs := [2 \<mapsto> pipe_proc\<lparr>cur_dir := \<lparr>dir_inode = 0, dir_name = Some [47, 97, 47, 98], name_size = 5\<rparr>\<rparr>]\<rparr>"

lemma tokens_parent: "path_tokens DOT_DOT = [DOT_DOT]" "\<not> is_absolute_directory DOT_DOT"
proof -
  have "strtok DOT_DOT = Some (DOT_DOT, [])" "strtok [] = None"
    by (simp_all add: strtok_def DOT_DOT_def is_delim_def BACKSLASH_def SLASH_def)
  then show "path_tokens DOT_DOT = [DOT_DOT]" by (simp add: path_tokens.simps [of DOT_DOT] path_tokens.simps [of "[]"])
  show "\<not> is_absolute_directory DOT_DOT" by (simp add: is_absolute_directory_def DOT_DOT_def SLASH_def)
qed

theorem final_string_is_stack_witness: "get_final_string (Some DOT_DOT) deep_world = Inr (Some [47, 97], deep_world)"
proof -
  let ?p = "pipe_proc\<lparr>cur_dir := \<lparr>dir_inode = 0, dir_name = Some [47, 97, 47, 98], name_size = 5\<rparr>\<rparr>"
  have r: "running deep_world = 2" using running_first by (simp add: running_def deep_world_def)
  have d: "dirs_ok [[97], [98]] ?p"
    by (simp add: dirs_ok_def name_ok_def is_delim_def BACKSLASH_def SLASH_def DOT_def DOT_DOT_def render_def PATH_SIZE_MAX_def
      pipe_proc_def first_proc_def Let_def)
  have "path_stack [[97], [98]] DOT_DOT = [[97]]"
    by (simp add: path_stack_def tokens_parent) (simp add: stack_step_def DOT_def DOT_DOT_def)
  moreover have "fmem (fw_fs deep_world) = []" by (simp add: deep_world_def open_world_def files_fs_def small_fs_def)
  moreover have "fw_procs deep_world 2 = Some ?p" "length DOT_DOT < PATH_SIZE_MAX"
    by (simp_all add: deep_world_def DOT_DOT_def PATH_SIZE_MAX_def)
  ultimately show ?thesis using final_string_is_stack [of deep_world ?p "[[97], [98]]" DOT_DOT] d r
    by (simp add: render_def SLASH_def)
qed

section \<open>The current directory\<close>

lemma running_fs [simp]: "running (w\<lparr>fw_fs := s\<rparr>) = running w"
  by (simp add: running_def)

lemma chdir_effect:
  assumes "fmem (fw_fs w) = []" "running w \<noteq> 0" "fw_procs w (running w) = Some p" "dirs_ok cs p" "length s < PATH_SIZE_MAX"
    and m: "chdir (Some s) w = Inr (0, w')"
  shows "\<exists>p'. fw_procs w' (running w') = Some p' \<and> running w' \<noteq> 0 \<and> dirs_ok (path_stack cs s) p'"
proof -
  let ?t = "render (path_stack cs s)"
  obtain a w1 d w2 r where 1: "walk_and_get (Some ?t) 0 w = Inr (a, w1)" "is_dir a w1 = Inr (d, w2)" "d"
    "set_current_dir 0 (Some ?t) (of_nat (length ?t) + 1) a w2 = Inr (r, w')" "r \<ge> 0"
    using m final_string_eval [OF assms(1-5)] by (auto simp: chdir_def elim!: fbindE split: if_split_asm)
  have "a \<noteq> 0" using 1(2,3) by (auto simp: is_dir_def split: if_split_asm)
  have l: "length ?t < PATH_SIZE_MAX"
  proof (rule ccontr)
    assume "\<not> length ?t < PATH_SIZE_MAX"
    then have "in_fs (extract_files (Some ?t)) w = Inr (None, w) \<or> in_fs (extract_files (Some ?t)) w = Inl Out_of_bounds"
      by (auto simp: in_fs_def extract_files_def sret_def sfail_def)
    then show False using 1(1) \<open>a \<noteq> 0\<close> by (auto simp: walk_and_get_def walk_from_def fbind_def)
  qed
  obtain t where w2: "w2 = w\<lparr>fw_fs := t\<rparr>"
    using 1(1,2) only_fs_walk unfolding only_fs_def by (metis (no_types, lifting) fworld.update_convs(2) fworld.surjective)
  have "unat (of_nat (length ?t) + 1 :: u32) = Suc (length ?t)" using small_length [OF l] .
  then have "of_nat (length ?t) + 1 \<noteq> (0 :: u32)" by (metis unat_0 nat.distinct(1))
  then have w': "w' = w2\<lparr>fw_procs := (fw_procs w)(running w \<mapsto>
      p\<lparr>cur_dir := \<lparr>dir_inode = a, dir_name = Some ?t, name_size = of_nat (length ?t) + 1\<rparr>\<rparr>)\<rparr>"
    using 1(4) \<open>a \<noteq> 0\<close> assms(2,3) w2
    by (auto simp: set_current_dir_def proc_or_current_def running_def fw_iffs split: if_split_asm)
  then have "running w' = running w" by (simp add: running_def w2)
  moreover have "dirs_ok (path_stack cs s) (p\<lparr>cur_dir := \<lparr>dir_inode = a, dir_name = Some ?t, name_size = of_nat (length ?t) + 1\<rparr>\<rparr>)"
    using l path_stack_ok [of cs s] assms(4) by (simp add: dirs_ok_def)
  ultimately show ?thesis using w' assms(2) by simp
qed

text \<open>
  C21. \<^verbatim>\<open>getcwd\<close> after \<^verbatim>\<open>chdir\<close>: when \<^verbatim>\<open>chdir\<close> succeeds, a buffer that is long enough receives the absolute
  form of the path with its terminator, a buffer that is not receives nothing, and the directories of the
  process are well formed again, so that the next path starts from there.
\<close>
theorem getcwd_after_chdir:
  assumes "fmem (fw_fs w) = []" "running w \<noteq> 0" "fw_procs w (running w) = Some p" "dirs_ok cs p" "length s < PATH_SIZE_MAX"
    and "chdir (Some s) w = Inr (0, w')"
  shows "getcwd True n w' = Inr (if unat n > length (render (path_stack cs s)) then Some (render (path_stack cs s) @ [0]) else None, w') \<and>
    (\<exists>p'. fw_procs w' (running w') = Some p' \<and> dirs_ok (path_stack cs s) p')"
proof -
  obtain p' where p': "fw_procs w' (running w') = Some p'" "running w' \<noteq> 0" "dirs_ok (path_stack cs s) p'"
    using chdir_effect [OF assms] by blast
  let ?t = "render (path_stack cs s)"
  let ?n = "of_nat (length ?t) + 1 :: u32"
  have l: "length ?t < PATH_SIZE_MAX" and f: "name_size (cur_dir p') = ?n" "dir_name (cur_dir p') = Some ?t"
    using p'(3) by (simp_all add: dirs_ok_def)
  have u: "unat ?n = Suc (length ?t)" by (rule small_length [OF l])
  have "unat ?n < 2 ^ 64" using u l by (simp add: PATH_SIZE_MAX_def)
  then have "unat (ucast ?n :: u64) = unat ?n" by (simp only: unsigned_ucast_eq) (simp add: take_bit_nat_eq_self)
  then have c: "n < ucast ?n \<longleftrightarrow> \<not> unat n > length ?t" using u by (simp add: word_less_nat_alt less_Suc_eq_le not_less)
  have z: "n = 0 \<longrightarrow> \<not> unat n > length ?t" by simp
  have "getcwd True n w' = Inr (if unat n > length ?t then Some (?t @ [0]) else None, w')"
    using c z u by (auto simp: getcwd_def dir_fields field_eval [OF p'(2,1)] f fret_def)
  then show ?thesis using p' by blast
qed

theorem getcwd_after_chdir_witness:
  "\<exists>w'. chdir (Some DOT_DOT) open_world = Inr (0, w') \<and> getcwd True 2 w' = Inr (Some [47, 0], w') \<and> getcwd True 1 w' = Inr (None, w')"
proof -
  let ?p = "pipe_proc\<lparr>fd_bitmap := 7 # replicate 63 0, open_files := Some \<lparr>of_fd = 2, of_file = 4\<rparr> # open_files pipe_proc\<rparr>"
  have r: "running open_world = 2" using running_first by (simp add: running_def)
  have p: "fw_procs open_world 2 = Some ?p" by (simp add: open_world_def)
  have m: "fmem (fw_fs open_world) = []" by (simp add: open_world_def files_fs_def small_fs_def)
  have d: "dirs_ok [] ?p" by (simp add: dirs_ok_def render_def PATH_SIZE_MAX_def pipe_proc_def first_proc_def Let_def)
  have l: "length DOT_DOT < PATH_SIZE_MAX" by (simp add: DOT_DOT_def PATH_SIZE_MAX_def)
  have s: "render (path_stack [] DOT_DOT) = [SLASH]"
    by (simp add: path_stack_def tokens_parent) (simp add: stack_step_def DOT_def DOT_DOT_def render_def)
  let ?w1 = "open_world\<lparr>fw_fs := files_fs\<lparr>inode_list := [\<lparr>ie_address = 1, ie_id = 11, ie_usage = 5\<rparr>]\<rparr>\<rparr>"
  have f: "get_final_string (Some DOT_DOT) open_world = Inr (Some [SLASH], open_world)"
    using final_string_eval [of open_world ?p "[]" DOT_DOT] m r p d l s by simp
  have g: "walk_and_get (Some [SLASH]) 0 open_world = Inr (1, ?w1)"
    using walk_root [OF m] small_get_root [of open_world 4] by (simp add: open_world_def)
  have i: "is_dir 1 ?w1 = Inr (True, ?w1)"
    using small_inode [of ?w1] by (simp add: is_dir_def fret_def)
  obtain w' where w': "chdir (Some DOT_DOT) open_world = Inr (0, w')"
    using f g i p r by (simp add: chdir_def set_current_dir_def proc_or_current_def running_def fread_def fbind_def fret_def upd_proc_def
      proc_at_def fupd_def del: One_nat_def)
  show ?thesis
    using getcwd_after_chdir [OF m _ _ d l w', of 2] getcwd_after_chdir [OF m _ _ d l w', of 1] r p w' s by (simp add: SLASH_def)
qed

end
