(* ===== verification/CString.thy ===== *)
theory CString
  imports Paths "HOL-Library.List_Lexorder"
begin

text \<open>
  The string functions of \<^verbatim>\<open>src/lib/string\<close>. A pointer into an array is the list of the bytes from there to
  the end of the array; reading or writing behind the array is out of bounds. A \<^verbatim>\<open>char\<close> is unsigned on RISC-V.
  The theory shows that the comparison is the lexicographic order and that the copies are block copies when
  the places do not overlap in the wrong way.
\<close>

section \<open>Scanning\<close>

fun strlen :: "byte list \<Rightarrow> nat res" where
  "strlen [] = Inl Out_of_bounds"
| "strlen (c # s) = (if c = 0 then Inr 0 else rbind (strlen s) (\<lambda>n. Inr (Suc n)))"

text \<open>The index of the character, \<open>None\<close> for NULL; the terminator itself is not found.\<close>

fun strchr :: "byte list \<Rightarrow> int \<Rightarrow> nat option res" where
  "strchr [] c = Inl Out_of_bounds"
| "strchr (x # s) c =
     (if x = 0 then Inr None else if uint x = c then Inr (Some 0)
      else rbind (strchr s c) (\<lambda>r. Inr (map_option Suc r)))"

fun memchr :: "byte list \<Rightarrow> int \<Rightarrow> nat \<Rightarrow> nat option res" where
  "memchr s c 0 = Inr None"
| "memchr [] c (Suc n) = Inl Out_of_bounds"
| "memchr (x # s) c (Suc n) = (if uint x = c then Inr (Some 0) else rbind (memchr s c n) (\<lambda>r. Inr (map_option Suc r)))"

section \<open>Comparing\<close>

fun strcmp :: "byte list \<Rightarrow> byte list \<Rightarrow> int res" where
  "strcmp [] t = Inl Out_of_bounds"
| "strcmp (a # s) [] = Inl Out_of_bounds"
| "strcmp (a # s) (b # t) = (if a \<noteq> 0 \<and> b \<noteq> 0 \<and> a = b then strcmp s t else Inr (uint a - uint b))"

fun strncmp :: "byte list \<Rightarrow> byte list \<Rightarrow> nat \<Rightarrow> int res" where
  "strncmp s t 0 = Inr 0"
| "strncmp (a # s) (b # t) (Suc n) = (if a \<noteq> b then Inr (uint a - uint b) else if a = 0 then Inr 0 else strncmp s t n)"
| "strncmp s t (Suc n) = Inl Out_of_bounds"

fun memcmp :: "byte list \<Rightarrow> byte list \<Rightarrow> nat \<Rightarrow> int res" where
  "memcmp s t 0 = Inr 0"
| "memcmp (a # s) (b # t) (Suc n) = (if a \<noteq> b then Inr (uint a - uint b) else memcmp s t n)"
| "memcmp s t (Suc n) = Inl Out_of_bounds"

section \<open>Copying\<close>

text \<open>One byte from place \<open>s\<close> to place \<open>d\<close> after the other, in one memory: the places may overlap.\<close>

fun memcpy :: "nat \<Rightarrow> nat \<Rightarrow> nat \<Rightarrow> byte list \<Rightarrow> byte list res" where
  "memcpy d s 0 m = Inr m"
| "memcpy d s (Suc n) m =
     (if s \<ge> length m \<or> d \<ge> length m then Inl Out_of_bounds else memcpy (Suc d) (Suc s) n (m[d := m ! s]))"

fun memset :: "nat \<Rightarrow> int \<Rightarrow> nat \<Rightarrow> byte list \<Rightarrow> byte list res" where
  "memset d c 0 m = Inr m"
| "memset d c (Suc n) m = (if d \<ge> length m then Inl Out_of_bounds else memset (Suc d) c n (m[d := of_int c]))"

text \<open>The second loop writes zeros once the first has met the terminator.\<close>

fun zero_fill :: "byte list \<Rightarrow> nat \<Rightarrow> byte list res" where
  "zero_fill dst 0 = Inr dst"
| "zero_fill [] (Suc n) = Inl Out_of_bounds"
| "zero_fill (x # dst) (Suc n) = rbind (zero_fill dst n) (\<lambda>r. Inr (0 # r))"

fun strncpy :: "byte list \<Rightarrow> byte list \<Rightarrow> nat \<Rightarrow> byte list res" where
  "strncpy dst src 0 = Inr dst"
| "strncpy dst [] (Suc n) = Inl Out_of_bounds"
| "strncpy dst (c # src) (Suc n) =
     (if c = 0 then zero_fill dst (Suc n)
      else case dst of [] \<Rightarrow> Inl Out_of_bounds | x # dst1 \<Rightarrow> rbind (strncpy dst1 src n) (\<lambda>r. Inr (c # r)))"

definition strcpy :: "byte list \<Rightarrow> byte list \<Rightarrow> byte list res" where
  "strcpy dst src = rbind (strlen src) (\<lambda>n. strncpy dst src (n + 1))"

text \<open>The new array, \<open>None\<close> for NULL; \<open>ok\<close> is the outcome of \<^verbatim>\<open>malloc\<close> and \<open>junk\<close> what the memory holds.\<close>

definition strdup :: "bool \<Rightarrow> (nat \<Rightarrow> byte list) \<Rightarrow> byte list option \<Rightarrow> byte list option res" where
  "strdup ok junk str =
     (case str of
        None \<Rightarrow> Inr None
      | Some s \<Rightarrow> rbind (strlen s) (\<lambda>n.
          if \<not> ok then Inr None else rbind (strcpy (take (n + 1) (junk (n + 1))) s) (\<lambda>d. Inr (Some d))))"

text \<open>On the text of a path, without its terminator.\<close>

definition basename :: "byte list \<Rightarrow> byte list" where
  "basename path = (case strrchr path SLASH of None \<Rightarrow> path | Some i \<Rightarrow> drop (i + 1) path)"

section \<open>Strings in an array\<close>

text \<open>The array holds the string, its terminator and anything behind it.\<close>

definition cstring :: "byte list \<Rightarrow> byte list \<Rightarrow> bool" where
  "cstring a s \<longleftrightarrow> 0 \<notin> set s \<and> (\<exists>v. a = s @ 0 # v)"

lemma cstring_Nil [simp]: "cstring a [] \<longleftrightarrow> (\<exists>v. a = 0 # v)"
  by (simp add: cstring_def)

lemma cstring_Cons [simp]: "cstring a (c # s) \<longleftrightarrow> c \<noteq> 0 \<and> (\<exists>b. a = c # b \<and> cstring b s)"
  by (auto simp: cstring_def)

lemma cstring_unique: "cstring a s \<Longrightarrow> cstring a t \<Longrightarrow> s = t"
proof (induction s arbitrary: a t)
  case Nil
  then show ?case by (cases t) auto
next
  case (Cons c s)
  then show ?case by (cases t) auto
qed

lemma strlen_cstring: "cstring a s \<Longrightarrow> strlen a = Inr (length s)"
  by (induction s arbitrary: a) auto

lemma drop_two: "drop 2 (a # b # xs) = xs"
  by (simp add: numeral_2_eq_2)

lemma uint_pos: "(c :: byte) \<noteq> 0 \<Longrightarrow> 0 < uint c"
  by (simp add: word_neq_0_conv word_less_def)

lemma strcmp_cstring:
  "cstring a s \<Longrightarrow> cstring b t \<Longrightarrow>
     \<exists>r. strcmp a b = Inr r \<and> (r < 0 \<longleftrightarrow> s < t) \<and> (r = 0 \<longleftrightarrow> s = t) \<and> (r > 0 \<longleftrightarrow> s > t)"
proof (induction s arbitrary: a b t)
  case Nil
  then show ?case by (cases t) (auto simp: uint_0_iff uint_pos)
next
  case (Cons x s)
  obtain a1 where a: "a = x # a1" "x \<noteq> 0" "cstring a1 s" using Cons.prems by auto
  show ?case
  proof (cases t)
    case Nil
    then show ?thesis using Cons.prems a by (auto simp: uint_0_iff uint_pos)
  next
    case (Cons y t1)
    then obtain b1 where b: "b = y # b1" "y \<noteq> 0" "cstring b1 t1" using Cons.prems by auto
    show ?thesis
    proof (cases "x = y")
      case True
      then show ?thesis using Cons.IH [OF a(3) b(3)] a b Cons by simp
    next
      case False
      then show ?thesis using a b Cons by (auto simp: word_less_def word_uint_eq_iff)
    qed
  qed
qed

lemma take_Suc_update: "d < length m \<Longrightarrow> take (Suc d) (m[d := x]) = take d m @ [x]"
  by (simp add: take_Suc_conv_app_nth)

lemma memcpy_poke:
  assumes "s + n \<le> length m" "d + n \<le> length m" "d \<le> s \<or> s + n \<le> d"
  shows "memcpy d s n m = Inr (poke d (peek s n m) m)"
  using assms
proof (induction n arbitrary: d s m)
  case (Suc n)
  let ?m = "m[d := m ! s]"
  have "memcpy (Suc d) (Suc s) n ?m = Inr (poke (Suc d) (peek (Suc s) n ?m) ?m)"
    using Suc.prems by (intro Suc.IH) auto
  moreover have "poke (Suc d) (peek (Suc s) n ?m) ?m = poke d (peek s (Suc n) m) m"
  proof -
    have "peek (Suc s) n ?m = peek (Suc s) n m"
      using Suc.prems by (intro nth_equalityI) (auto simp: peek_def nth_list_update)
    moreover have "peek s (Suc n) m = m ! s # peek (Suc s) n m"
      using Suc.prems by (simp add: peek_def Cons_nth_drop_Suc [symmetric])
    moreover have "length (peek (Suc s) n m) = n" using Suc.prems by (simp add: peek_def)
    ultimately show ?thesis
      using Suc.prems by (simp add: poke_def take_Suc_update)
  qed
  ultimately show ?case using Suc.prems by simp
qed (simp add: peek_def)

lemma memset_poke: "d + n \<le> length m \<Longrightarrow> memset d c n m = Inr (poke d (replicate n (of_int c)) m)"
proof (induction n arbitrary: d m)
  case (Suc n)
  then show ?case by (simp add: poke_def take_Suc_update)
qed simp

lemma zero_fill_replicate: "n \<le> length dst \<Longrightarrow> zero_fill dst n = Inr (replicate n 0 @ drop n dst)"
  by (induction dst n rule: zero_fill.induct) auto

lemma strncpy_cstring:
  "cstring a s \<Longrightarrow> n \<le> length dst \<Longrightarrow>
     strncpy dst a n = Inr (take n s @ replicate (n - length s) 0 @ drop n dst)"
proof (induction s arbitrary: a n dst)
  case Nil
  then show ?case by (cases n) (auto simp: zero_fill_replicate simp del: zero_fill.simps)
next
  case (Cons c s)
  then show ?case by (cases n; cases dst) auto
qed

lemma strcpy_cstring:
  "cstring a s \<Longrightarrow> length s < length dst \<Longrightarrow> strcpy dst a = Inr (s @ 0 # drop (Suc (length s)) dst)"
  by (simp add: strcpy_def strlen_cstring strncpy_cstring)

text \<open>A copy into an array without room for the terminator writes behind it.\<close>

lemma zero_fill_short: "length dst < n \<Longrightarrow> zero_fill dst n = Inl Out_of_bounds"
  by (induction dst n rule: zero_fill.induct) auto

lemma strncpy_short: "cstring a s \<Longrightarrow> length dst < n \<Longrightarrow> strncpy dst a n = Inl Out_of_bounds"
proof (induction s arbitrary: a n dst)
  case Nil
  then show ?case by (cases n) (auto simp: zero_fill_short simp del: zero_fill.simps)
next
  case (Cons c s)
  then show ?case by (cases n; cases dst) auto
qed

lemma strcpy_short: "cstring a s \<Longrightarrow> length dst \<le> length s \<Longrightarrow> strcpy dst a = Inl Out_of_bounds"
  by (simp add: strcpy_def strlen_cstring strncpy_short)

lemma strdup_cstring:
  assumes "cstring a s" "\<And>n. length (junk n) = n"
  shows "strdup ok junk (Some a) = Inr (if ok then Some (s @ [0]) else None)"
proof -
  have "strcpy (take (length s + 1) (junk (length s + 1))) a = Inr (s @ [0])"
    using strcpy_cstring [OF assms(1), of "junk (Suc (length s))"] assms(2) by simp
  then show ?thesis using assms by (simp add: strdup_def strlen_cstring)
qed

lemma strncmp_prefix:
  "cstring a s \<Longrightarrow> cstring b t \<Longrightarrow> \<exists>r. strncmp a b (length t) = Inr r \<and> (r = 0 \<longleftrightarrow> take (length t) s = t)"
proof (induction t arbitrary: a b s)
  case (Cons y t)
  then obtain b1 where b: "b = y # b1" "y \<noteq> 0" "cstring b1 t" by auto
  show ?case
  proof (cases s)
    case Nil
    then show ?thesis using Cons.prems b uint_pos [of y] by auto
  next
    case (Cons x s1)
    then obtain a1 where a: "a = x # a1" "x \<noteq> 0" "cstring a1 s1" using Cons.prems by auto
    then show ?thesis using Cons.IH [OF a(3) b(3)] b \<open>s = x # s1\<close> by (auto simp: word_uint_eq_iff)
  qed
qed simp

text \<open>
  C38. \<^verbatim>\<open>strcmp\<close> compares two terminated strings as the lexicographic order of their bytes does: its result is
  negative, zero or positive when the first string is smaller, equal or greater; bytes above 127 count as
  larger than the ASCII characters.
\<close>

theorem strcmp_is_lexicographic:
  assumes "cstring a s" "cstring b t"
  shows "\<exists>r. strcmp a b = Inr r \<and> (r < 0 \<longleftrightarrow> s < t) \<and> (r = 0 \<longleftrightarrow> s = t) \<and> (r > 0 \<longleftrightarrow> s > t)"
  by (rule strcmp_cstring [OF assms])

lemma strcmp_is_lexicographic_witness:
  "\<exists>r. strcmp [97, 98, 0, 7] [97, 233, 0] = Inr r \<and> (r < 0 \<longleftrightarrow> [97, 98 :: byte] < [97, 233])
     \<and> (r = 0 \<longleftrightarrow> [97, 98 :: byte] = [97, 233]) \<and> (r > 0 \<longleftrightarrow> [97, 98 :: byte] > [97, 233])"
  by (rule strcmp_is_lexicographic) simp_all

end
