(* ===== verification/FormatProps.thy ===== *)
theory FormatProps
  imports Format
begin

text \<open>
  What \<^verbatim>\<open>vsnprintf\<close> prints: a format is a sequence of pieces, the text the concatenation of what each piece
  stands for, and the buffer receives as much of it as it has room for. The numbers printed are read back by
  \<^verbatim>\<open>atoi\<close> and \<^verbatim>\<open>strtol\<close>.
\<close>

section \<open>Adding a text to the output\<close>

text \<open>The output after a text, the part behind the size of the buffer dropped.\<close>

definition put_string :: "nat \<Rightarrow> byte list \<Rightarrow> out \<Rightarrow> out" where
  "put_string n t st = (map_option (poke (snd st) (take (n - snd st) t)) (fst st), snd st + length t)"

definition room :: "nat \<Rightarrow> out \<Rightarrow> bool" where
  "room n st \<longleftrightarrow> (case fst st of None \<Rightarrow> True | Some b \<Rightarrow> n \<le> length b)"

lemma poke_empty_from: "n - pos = 0 \<Longrightarrow> poke pos (take (n - pos) t) b = b"
  by simp

lemma room_put_string [simp]: "room n st \<Longrightarrow> room n (put_string n t st)"
proof (cases "snd st \<le> n")
  case True
  assume "room n st"
  moreover have "snd st + length (take (n - snd st) t) \<le> n" using True by simp
  ultimately show ?thesis by (auto simp: room_def put_string_def split: option.splits)
qed (auto simp: room_def put_string_def split: option.splits)

lemma put_string_Nil [simp]: "put_string n [] st = st"
  by (cases st; cases "fst st") (simp_all add: put_string_def)

lemma poke_append:
  assumes "i + length xs + length ys \<le> length b"
  shows "poke (i + length xs) ys (poke i xs b) = poke i (xs @ ys) b"
  using assms by (simp add: poke_def ac_simps)

lemma put_string_append:
  assumes "room n st"
  shows "put_string n u (put_string n t st) = put_string n (t @ u) st"
proof -
  obtain out pos where st: "st = (out, pos)" by (cases st)
  show ?thesis
  proof (cases "pos + length t \<le> n")
    case True
    then show ?thesis using assms poke_append [of pos t "take (n - (pos + length t)) u"]
      by (cases out) (auto simp: put_string_def st room_def)
  next
    case False
    then show ?thesis by (cases out) (auto simp: put_string_def st)
  qed
qed

lemma put_out_string: "room n st \<Longrightarrow> put_out n c st = Inr (put_string n [c] st)"
  by (cases st) (auto simp: put_out_def set_out_def put_string_def room_def poke_def upd_conv_take_nth_drop
      split: option.splits)

lemma put_text_string: "room n st \<Longrightarrow> cstring a s \<Longrightarrow> put_text n a st = Inr (put_string n s st)"
proof (induction s arbitrary: a st)
  case (Cons c s)
  then obtain b where b: "a = c # b" "c \<noteq> 0" "cstring b s" by auto
  have "put_text n b (put_string n [c] st) = Inr (put_string n s (put_string n [c] st))"
    using Cons.prems(1) b(3) by (intro Cons.IH) simp_all
  then show ?case using Cons.prems(1) b by (simp add: put_out_string put_string_append)
qed auto

section \<open>Digits\<close>

text \<open>The last \<open>k\<close> digits of a number, and as many as it has.\<close>

fun digits :: "nat \<Rightarrow> nat \<Rightarrow> byte list" where
  "digits 0 v = []"
| "digits (Suc k) v = digits k (v div 10) @ [of_nat (48 + v mod 10)]"

fun decimal :: "nat \<Rightarrow> byte list" where
  "decimal v = (if v < 10 then [of_nat (48 + v)] else decimal (v div 10) @ [of_nat (48 + v mod 10)])"

declare decimal.simps [simp del]

definition decimal_int :: "int \<Rightarrow> byte list" where
  "decimal_int i = (if i < 0 then 45 # decimal (nat (- i)) else decimal (nat i))"

lemma length_digits [simp]: "length (digits k v) = k"
  by (induction k arbitrary: v) simp_all

lemma sdiv_nonneg: "0 \<le> k \<Longrightarrow> k sdiv 10 = k div 10" "0 \<le> k \<Longrightarrow> k smod 10 = k mod (10 :: int)"
  by (cases "k = 0"; simp add: signed_divide_int_def signed_modulo_int_def minus_div_mult_eq_mod)+

lemma count_digits_nat: "count_digits (int v) = length (decimal v)"
proof (induction v rule: decimal.induct)
  case (1 v)
  have d: "int v sdiv 10 = int (v div 10)" by (simp add: sdiv_nonneg zdiv_int)
  show ?case
  proof (cases "v < 10")
    case True
    then show ?thesis using d by (simp add: count_digits.simps [of "int v"] decimal.simps [of v])
  next
    case False
    then have "int v sdiv 10 \<noteq> 0" using d by (simp add: div_greater_zero_iff)
    then show ?thesis using 1 False d by (simp add: count_digits.simps [of "int v"] decimal.simps [of v])
  qed
qed

lemma digits_decimal: "digits (length (decimal v)) v = decimal v"
proof (induction v rule: decimal.induct)
  case (1 v)
  then show ?case by (cases "v < 10") (simp_all add: decimal.simps [of v])
qed

lemma put_digits_string:
  "room n (out, pos) \<Longrightarrow> put_digits n pos k (int v) out = Inr (map_option (poke pos (take (n - pos) (digits k v))) out)"
proof (induction k arbitrary: v out)
  case 0
  show ?case by (cases out) simp_all
next
  case (Suc k)
  let ?c = "of_nat (48 + v mod 10) :: byte"
  have "48 + int v smod 10 = int (48 + v mod 10)" by (simp add: sdiv_nonneg zmod_int)
  then have c: "of_int (48 + int v smod 10) = ?c" by (simp only: of_int_of_nat_eq)
  have v: "int v sdiv 10 = int (v div 10)" by (simp add: sdiv_nonneg zdiv_int)
  show ?case
  proof (cases out)
    case None
    then show ?thesis using Suc.IH [of None "v div 10"] v by (simp add: set_out_def room_def)
  next
    case (Some b)
    have n: "n \<le> length b" using Suc.prems Some by (simp add: room_def)
    show ?thesis
    proof (cases "pos + k < n")
      case True
      have "poke pos (digits k (v div 10)) (b[pos + k := ?c]) = poke pos (digits k (v div 10) @ [?c]) b"
        using True n by (simp add: poke_def drop_update_swap Cons_nth_drop_Suc [symmetric])
      then show ?thesis using True n Some Suc.IH [of "Some (b[pos + k := ?c])" "v div 10"] v c
        by (simp add: set_out_def room_def)
    next
      case False
      then show ?thesis using n Some Suc.IH [of out "v div 10"] v Suc.prems by (simp add: set_out_def)
    qed
  qed
qed

lemma put_decimal:
  assumes "room n st"
  shows "rbind (put_digits n (snd st) (count_digits (int v)) (int v) (fst st))
           (\<lambda>out. Inr (out, snd st + count_digits (int v))) = Inr (put_string n (decimal v) st)"
  using assms put_digits_string [of n "fst st" "snd st" "length (decimal v)" v]
  by (simp add: count_digits_nat digits_decimal put_string_def)

definition hex_digits :: "nat \<Rightarrow> int \<Rightarrow> byte list" where
  "hex_digits k v = map (\<lambda>i. hex_char (v div 2 ^ (4 * i) mod 16)) (rev [0..<k])"

lemma put_hex_string: "room n st \<Longrightarrow> put_hex n k v st = Inr (put_string n (hex_digits k v) st)"
  by (induction k arbitrary: st) (simp_all add: hex_digits_def put_out_string put_string_append)

section \<open>Pieces of a format\<close>

datatype piece =
    Lit byte
  | Dec int
  | Long_dec int
  | Uns nat
  | Long_uns nat
  | Hex u32
  | Long_hex u64
  | Pointer u64
  | Txt "byte list"
  | Chr byte

text \<open>What a piece looks like in the format, the arguments it takes and the text it stands for.\<close>

fun piece_format :: "piece \<Rightarrow> byte list" where
  "piece_format (Lit c) = [c]"
| "piece_format (Dec i) = [37, 100]"
| "piece_format (Long_dec i) = [37, 108, 100]"
| "piece_format (Uns v) = [37, 117]"
| "piece_format (Long_uns v) = [37, 108, 117]"
| "piece_format (Hex x) = [37, 120]"
| "piece_format (Long_hex x) = [37, 108, 120]"
| "piece_format (Pointer x) = [37, 112]"
| "piece_format (Txt s) = [37, 115]"
| "piece_format (Chr c) = [37, 99]"

definition va_slot :: "u64 \<Rightarrow> va" where
  "va_slot x = \<lparr>v_bits = x, v_text = []\<rparr>"

fun piece_args :: "piece \<Rightarrow> va list" where
  "piece_args (Lit c) = []"
| "piece_args (Dec i) = [va_slot (of_int i)]"
| "piece_args (Long_dec i) = [va_slot (of_int i)]"
| "piece_args (Uns v) = [va_slot (of_nat v)]"
| "piece_args (Long_uns v) = [va_slot (of_nat v)]"
| "piece_args (Hex x) = [va_slot (ucast x)]"
| "piece_args (Long_hex x) = [va_slot x]"
| "piece_args (Pointer x) = [va_slot x]"
| "piece_args (Txt s) = [\<lparr>v_bits = 0, v_text = s @ [0]\<rparr>]"
| "piece_args (Chr c) = [va_slot (ucast c)]"

fun piece_text :: "piece \<Rightarrow> byte list" where
  "piece_text (Lit c) = [c]"
| "piece_text (Dec i) = decimal_int i"
| "piece_text (Long_dec i) = decimal_int i"
| "piece_text (Uns v) = decimal v"
| "piece_text (Long_uns v) = decimal v"
| "piece_text (Hex x) = hex_digits 8 (uint x)"
| "piece_text (Long_hex x) = hex_digits 16 (uint x)"
| "piece_text (Pointer x) = [48, 120] @ hex_digits 16 (uint x)"
| "piece_text (Txt s) = s"
| "piece_text (Chr c) = [c]"

fun piece_ok :: "piece \<Rightarrow> bool" where
  "piece_ok (Lit c) \<longleftrightarrow> c \<noteq> 0 \<and> c \<noteq> PERCENT"
| "piece_ok (Dec i) \<longleftrightarrow> - (2 ^ 31) \<le> i \<and> i < 2 ^ 31"
| "piece_ok (Long_dec i) \<longleftrightarrow> - (2 ^ 63) < i \<and> i < 2 ^ 63"
| "piece_ok (Uns v) \<longleftrightarrow> v < 2 ^ 32"
| "piece_ok (Long_uns v) \<longleftrightarrow> v < 2 ^ 63"
| "piece_ok (Txt s) \<longleftrightarrow> 0 \<notin> set s"
| "piece_ok (Hex x) \<longleftrightarrow> True"
| "piece_ok (Long_hex x) \<longleftrightarrow> True"
| "piece_ok (Pointer x) \<longleftrightarrow> True"
| "piece_ok (Chr c) \<longleftrightarrow> True"

definition formats :: "piece list \<Rightarrow> byte list" where
  "formats ps = concat (map piece_format ps) @ [0]"

definition arguments :: "piece list \<Rightarrow> va list" where
  "arguments ps = concat (map piece_args ps)"

definition texts :: "piece list \<Rightarrow> byte list" where
  "texts ps = concat (map piece_text ps)"

lemma signed_long_id: "- (2 ^ 63) \<le> i \<Longrightarrow> i < 2 ^ 63 \<Longrightarrow> signed_long i = i"
  by (simp add: signed_long_def signed_of_int signed_take_bit_int_eq_self)

lemma signed_long_large: "2 ^ 63 \<le> v \<Longrightarrow> v < 2 ^ 64 \<Longrightarrow> signed_long (int v) = - int (2 ^ 64 - v)"
proof -
  assume a: "2 ^ 63 \<le> v" "v < 2 ^ 64"
  have "(of_int (int v) :: u64) = of_int (int v - 2 ^ 64)" by (simp add: word_of_int_2p_len)
  then have "signed_long (int v) = signed_long (int v - 2 ^ 64)" by (simp only: signed_long_def)
  also have "... = int v - 2 ^ 64" using a by (intro signed_long_id) auto
  finally show ?thesis using a by (simp add: of_nat_diff)
qed

lemma count_digits_minus: "count_digits (- k) = count_digits k"
proof (induction k rule: count_digits.induct)
  case (1 k)
  have "(- k) sdiv 10 = - (k sdiv 10)" by (simp add: signed_divide_int_def)
  then show ?case using 1 by (simp add: count_digits.simps [of k] count_digits.simps [of "- k"])
qed

lemma conv_signed_decimal:
  assumes "room n st" "signed_arg l a = i" "- (2 ^ 63) < i" "i < 2 ^ 63"
  shows "conv_signed n l a st = Inr (put_string n (decimal_int i) st)"
proof (cases "i < 0")
  case True
  have "signed_long (- i) = int (nat (- i))" using assms True by (simp add: signed_long_id)
  then show ?thesis using assms True put_decimal [of n "put_string n [45] st" "nat (- i)"]
    by (simp add: conv_signed_def put_out_string decimal_int_def put_string_append Let_def)
next
  case False
  then have "int (nat i) = i" by simp
  then show ?thesis using assms False put_decimal [of n st "nat i"]
    by (simp add: conv_signed_def decimal_int_def Let_def)
qed

lemma conv_unsigned_decimal:
  assumes "room n st" "unsigned_arg l a = int v" "v < 2 ^ 63"
  shows "conv_unsigned n l a st = Inr (put_string n (decimal v) st)"
proof -
  have "int v < 2 ^ 63" using assms(3) by (metis of_nat_less_iff of_nat_numeral of_nat_power)
  then have "signed_long (int v) = int v" by (intro signed_long_id) auto
  then show ?thesis using assms put_decimal [OF assms(1), of v] by (simp add: conv_unsigned_def Let_def)
qed

lemma hex_digits_mod: "hex_digits k (v mod 2 ^ (4 * k)) = hex_digits k v"
proof -
  have "v mod 2 ^ (4 * k) div 2 ^ (4 * i) mod 16 = v div 2 ^ (4 * i) mod 16" if "i < k" for i
  proof -
    have "take_bit 4 (drop_bit (4 * i) (take_bit (4 * k) v)) = take_bit 4 (drop_bit (4 * i) v)"
      using that by (simp add: drop_bit_take_bit min_absorb1)
    then show ?thesis by (simp add: take_bit_eq_mod drop_bit_eq_div)
  qed
  then show ?thesis by (simp add: hex_digits_def)
qed

lemma hex_digits_sint:
  "hex_digits 16 (sint (x :: u64)) = hex_digits 16 (uint x)"
  "hex_digits 8 (sint (y :: u32)) = hex_digits 8 (uint y)"
proof -
  have "sint x mod 2 ^ 64 = uint x" "sint y mod 2 ^ 32 = uint y"
    using uint_sint [of x] uint_sint [of y] by (simp_all add: take_bit_eq_mod)
  then show "hex_digits 16 (sint x) = hex_digits 16 (uint x)" "hex_digits 8 (sint y) = hex_digits 8 (uint y)"
    using hex_digits_mod [of 16 "sint x"] hex_digits_mod [of 8 "sint y"] by simp_all
qed

lemma narrow_again [simp]: "(ucast (ucast (y :: u32) :: u64) :: u32) = y" "(ucast (ucast (c :: byte) :: u64) :: byte) = c"
  by (auto intro!: bit_word_eqI simp: bit_ucast_iff)

text \<open>The arguments as the conversions read them.\<close>

lemma slot_args:
  "signed_arg True (va_slot x) = sint x"
  "signed_arg False (va_slot (ucast y)) = sint (y :: u32)"
  "- (2 ^ 31) \<le> i \<Longrightarrow> i < 2 ^ 31 \<Longrightarrow> signed_arg False (va_slot (of_int i)) = i"
  "- (2 ^ 63) \<le> j \<Longrightarrow> j < 2 ^ 63 \<Longrightarrow> signed_arg True (va_slot (of_int j)) = j"
  "v < 2 ^ 32 \<Longrightarrow> unsigned_arg False (va_slot (of_nat v)) = int v"
  "w < 2 ^ 64 \<Longrightarrow> unsigned_arg True (va_slot (of_nat w)) = int w"
proof -
  have u: "(ucast (of_int i :: u64) :: u32) = of_int i" for i :: int
    by (simp add: word_uint_eq_iff unsigned_of_int unsigned_ucast_eq take_bit_take_bit)
  show "signed_arg True (va_slot x) = sint x" by (simp add: signed_arg_def va_slot_def)
  show "signed_arg False (va_slot (ucast y)) = sint (y :: u32)" by (simp add: signed_arg_def va_slot_def)
  show "signed_arg False (va_slot (of_int i)) = i" if "- (2 ^ 31) \<le> i" "i < 2 ^ 31"
    using that u [of i] by (simp add: signed_arg_def va_slot_def signed_of_int signed_take_bit_int_eq_self)
  show "signed_arg True (va_slot (of_int j)) = j" if "- (2 ^ 63) \<le> j" "j < 2 ^ 63"
    using that by (simp add: signed_arg_def va_slot_def signed_of_int signed_take_bit_int_eq_self)
  show "unsigned_arg False (va_slot (of_nat v)) = int v" if "v < 2 ^ 32"
    using that u [of "int v"] by (simp add: unsigned_arg_def va_slot_def unsigned_of_nat take_bit_nat_eq_self)
  show "unsigned_arg True (va_slot (of_nat w)) = int w" if "w < 2 ^ 64"
    using that by (simp add: unsigned_arg_def va_slot_def unsigned_of_nat take_bit_nat_eq_self)
qed

lemma conv_hex_digits:
  "room n st \<Longrightarrow> conv_hex n True (va_slot x) st = Inr (put_string n (hex_digits 16 (uint x)) st)"
  "room n st \<Longrightarrow> conv_hex n False (va_slot (ucast y)) st = Inr (put_string n (hex_digits 8 (uint (y :: u32))) st)"
  by (simp_all add: conv_hex_def slot_args put_hex_string hex_digits_sint)

lemma conv_pointer:
  "room n st \<Longrightarrow>
     put_string n (hex_digits 16 (uint x)) (put_string n [120] (put_string n [48] st)) =
       put_string n (48 # 120 # hex_digits 16 (uint x)) st"
  by (simp add: put_string_append)

lemma conv_text_string: "room n st \<Longrightarrow> 0 \<notin> set s \<Longrightarrow>
    conv_text n l \<lparr>v_bits = x, v_text = s @ [0]\<rparr> st = Inr (put_string n s st)"
  by (simp add: conv_text_def put_text_string cstring_def)

lemma va_arg_Cons [simp]: "va_arg (a # as) = Inr (a, as)"
  by (simp add: va_arg_def)

text \<open>Pieces that always take their arguments.\<close>

fun is_char :: "piece \<Rightarrow> bool" where
  "is_char (Chr c) \<longleftrightarrow> True"
| "is_char p \<longleftrightarrow> False"

lemma format_piece:
  assumes "room n st" "piece_ok p" "\<not> is_char p"
  shows "format_loop n (piece_format p @ s) False False (piece_args p @ vl) st =
     format_loop n s False False vl (put_string n (piece_text p) st)"
  using assms
  by (cases p)
    (simp_all add: PERCENT_def conversion_def conv_signed_decimal [OF _ slot_args(3)] conv_signed_decimal [OF _ slot_args(4)]
      conv_unsigned_decimal slot_args conv_hex_digits conv_pointer conv_text_string put_out_string)

text \<open>A character piece: taken from the arguments when it is written, and only counted otherwise.\<close>

lemma put_string_outside: "fst st = None \<or> n \<le> snd st \<Longrightarrow> put_string n t st = (fst st, snd st + length t)"
  by (cases st; cases "fst st") (auto simp: put_string_def)

lemma conv_char_string:
  "room n st \<Longrightarrow> conv_char n (va_slot (ucast c) # vl) st =
     Inr (if fst st \<noteq> None \<and> snd st < n then vl else va_slot (ucast c) # vl, put_string n [c] st)"
  by (auto simp: conv_char_def put_out_string put_string_outside va_slot_def)

text \<open>Only characters follow the first character piece.\<close>

fun no_args :: "piece \<Rightarrow> bool" where
  "no_args (Lit c) \<longleftrightarrow> True"
| "no_args (Chr c) \<longleftrightarrow> True"
| "no_args p \<longleftrightarrow> False"

definition chars_last :: "piece list \<Rightarrow> bool" where
  "chars_last ps \<longleftrightarrow> (\<forall>p \<in> set (dropWhile (\<lambda>p. \<not> is_char p) ps). no_args p)"

lemma format_outside:
  "fst st = None \<or> n \<le> snd st \<Longrightarrow> room n st \<Longrightarrow> \<forall>p \<in> set ps. piece_ok p \<and> no_args p \<Longrightarrow>
     format_loop n (formats ps) False False vl st = Inr (put_string n (texts ps) st)"
proof (induction ps arbitrary: st)
  case Nil
  then show ?case by (simp add: formats_def texts_def)
next
  case (Cons p ps)
  have IH: "format_loop n (formats ps) False False vl (put_string n (piece_text p) st) =
      Inr (put_string n (texts ps) (put_string n (piece_text p) st))"
    using Cons.prems room_put_string [of n st "piece_text p"] by (intro Cons.IH) (auto simp: put_string_outside)
  obtain c where "p = Lit c \<or> p = Chr c" using Cons.prems(3) by (cases p) auto
  then show ?case
    using IH Cons.prems
    by (elim disjE)
      (auto simp: formats_def texts_def PERCENT_def put_out_string conv_char_def put_string_append put_string_outside)
qed

lemma format_chars:
  "room n st \<Longrightarrow> \<forall>p \<in> set ps. piece_ok p \<and> no_args p \<Longrightarrow>
     format_loop n (formats ps) False False (arguments ps) st = Inr (put_string n (texts ps) st)"
proof (induction ps arbitrary: st)
  case Nil
  then show ?case by (simp add: formats_def texts_def)
next
  case (Cons p ps)
  have r: "room n (put_string n (piece_text p) st)" using Cons.prems(1) by simp
  have IH: "format_loop n (formats ps) False False (arguments ps) (put_string n (piece_text p) st) =
      Inr (put_string n (texts ps) (put_string n (piece_text p) st))"
    using Cons.prems r by (intro Cons.IH) auto
  consider c where "p = Lit c" | c where "p = Chr c" using Cons.prems(2) by (cases p) auto
  then show ?case
  proof cases
    case 1
    then show ?thesis using IH Cons.prems by (auto simp: formats_def texts_def arguments_def PERCENT_def put_out_string put_string_append)
  next
    case (2 c)
    show ?thesis
    proof (cases "fst st = None \<or> n \<le> snd st")
      case True
      then show ?thesis using Cons.prems by (intro format_outside) auto
    next
      case False
      then have "conv_char n (va_slot (ucast c) # arguments ps) st = Inr (arguments ps, put_string n [c] st)"
        using Cons.prems(1) by (simp add: conv_char_string)
      then show ?thesis using IH 2 Cons.prems(1)
        by (simp add: formats_def texts_def arguments_def PERCENT_def put_string_append)
    qed
  qed
qed

lemma format_all:
  "room n st \<Longrightarrow> \<forall>p \<in> set ps. piece_ok p \<Longrightarrow> chars_last ps \<Longrightarrow>
     format_loop n (formats ps) False False (arguments ps) st = Inr (put_string n (texts ps) st)"
proof (induction ps arbitrary: st)
  case Nil
  then show ?case by (simp add: formats_def texts_def)
next
  case (Cons p ps)
  show ?case
  proof (cases "is_char p")
    case True
    then show ?thesis using Cons.prems by (intro format_chars) (auto simp: chars_last_def)
  next
    case False
    then have "format_loop n (formats ps) False False (arguments ps) (put_string n (piece_text p) st) =
        Inr (put_string n (texts ps) (put_string n (piece_text p) st))"
      using Cons.prems by (intro Cons.IH) (auto simp: chars_last_def)
    then show ?thesis using Cons.prems False format_piece [of n st p "formats ps" "arguments ps"]
      by (simp add: formats_def texts_def arguments_def put_string_append)
  qed
qed

text \<open>The array afterwards.\<close>

definition cut_text :: "nat \<Rightarrow> byte list \<Rightarrow> byte list" where
  "cut_text n t = (if n = 0 then [] else take (n - 1) t @ [0])"

lemma terminated:
  assumes "n \<le> length b"
  shows "(if length t < n then set_out n (length t) 0 (Some (poke 0 (take n t) b))
     else if n \<noteq> 0 then set_out n (n - 1) 0 (Some (poke 0 (take n t) b)) else Inr (Some (poke 0 (take n t) b))) =
    Inr (Some (poke 0 (cut_text n t) b))"
proof (cases "length t < n")
  case True
  then show ?thesis using assms by (simp add: set_out_def cut_text_def poke_def upd_conv_take_nth_drop)
next
  case False
  have "(take n t @ drop n b)[n - 1 := 0] = take (n - 1) t @ 0 # drop n b" if "0 < n"
    using that False by (simp add: list_update_append1 upd_conv_take_nth_drop min_def)
  then show ?thesis using assms False by (auto simp: set_out_def cut_text_def poke_def)
qed

lemma vsnprintf_pieces:
  assumes "\<forall>p \<in> set ps. piece_ok p" "n \<le> length b" "length (texts ps) < 2 ^ 31" "chars_last ps"
  shows "vsnprintf (Some b) n (formats ps) (arguments ps) = Inr (int (length (texts ps)), Some (poke 0 (cut_text n (texts ps)) b))"
    and "vsnprintf None m (formats ps) (arguments ps) = Inr (int (length (texts ps)), None)"
proof -
  let ?k = "length (texts ps)"
  have r: "sint (of_nat ?k :: u32) = int ?k"
    using assms(3) by (simp add: signed_of_nat signed_take_bit_int_eq_self)
  have "format_loop n (formats ps) False False (arguments ps) (Some b, 0) = Inr (Some (poke 0 (take n (texts ps)) b), ?k)"
    using format_all [of n "(Some b, 0)" ps] assms by (simp add: room_def put_string_def)
  then show "vsnprintf (Some b) n (formats ps) (arguments ps) = Inr (int ?k, Some (poke 0 (cut_text n (texts ps)) b))"
    unfolding vsnprintf_def using terminated [OF assms(2), of "texts ps"] r by (simp del: One_nat_def)
  have "format_loop m (formats ps) False False (arguments ps) (None, 0) = Inr (None, ?k)"
    using format_all [of m "(None, 0)" ps] assms by (simp add: room_def put_string_def)
  then show "vsnprintf None m (formats ps) (arguments ps) = Inr (int ?k, None)"
    using r by (simp add: vsnprintf_def set_out_def)
qed

section \<open>Reading numbers back\<close>

definition digit_char :: "nat \<Rightarrow> byte" where
  "digit_char d = of_nat (48 + d)"

lemma uint_byte: "0 \<le> k \<Longrightarrow> k < 256 \<Longrightarrow> uint (of_int k :: byte) = k"
  by (simp add: unsigned_of_int take_bit_int_eq_self)

lemma digit_facts:
  assumes "d < 10"
  shows "uint (digit_char d) = 48 + int d" "digit_char d \<noteq> 0"
    "(ucast (digit_char d) :: u32) - 48 = of_nat d" "is_digit (digit_char d)" "\<not> is_space (digit_char d)"
    "digit_char d \<noteq> 45" "digit_char d \<noteq> 43"
proof -
  show u: "uint (digit_char d) = 48 + int d" using assms uint_byte [of "48 + int d"] by (simp add: digit_char_def)
  then show "digit_char d \<noteq> 0" "is_digit (digit_char d)" "\<not> is_space (digit_char d)"
    "digit_char d \<noteq> 45" "digit_char d \<noteq> 43"
    using assms by (auto simp: is_digit_def is_space_def)
  have "uint (ucast (digit_char d) :: u32) = 48 + int d" using assms u by (simp add: unsigned_ucast_eq take_bit_int_eq_self)
  then have "(ucast (digit_char d) :: u32) = of_int (48 + int d)" by (metis word_of_int_uint)
  then show "(ucast (digit_char d) :: u32) - 48 = of_nat d" by simp
qed

lemma decimal_digit_chars: "\<exists>ds. decimal v = map digit_char ds \<and> ds \<noteq> [] \<and> (\<forall>d \<in> set ds. d < 10) \<and> foldl (\<lambda>r d. r * 10 + d) 0 ds = v"
proof (induction v rule: decimal.induct)
  case (1 v)
  show ?case
  proof (cases "v < 10")
    case True
    then show ?thesis by (intro exI [of _ "[v]"]) (simp add: decimal.simps [of v] digit_char_def)
  next
    case False
    then obtain ds where ds: "decimal (v div 10) = map digit_char ds" "\<forall>d \<in> set ds. d < 10" "foldl (\<lambda>r d. r * 10 + d) 0 ds = v div 10"
      using 1 by auto
    then show ?thesis using False by (intro exI [of _ "ds @ [v mod 10]"]) (auto simp: decimal.simps [of v] digit_char_def)
  qed
qed

lemma length_decimal: "v < 10 ^ k \<Longrightarrow> 0 < k \<Longrightarrow> length (decimal v) \<le> k"
proof (induction v arbitrary: k rule: decimal.induct)
  case (1 v)
  show ?case
  proof (cases "v < 10")
    case True
    then show ?thesis using 1 by (simp add: decimal.simps [of v])
  next
    case False
    then obtain j where k: "k = Suc j" "0 < j" using 1 by (cases k; cases "k = 1") auto
    have "v div 10 < 10 ^ j" using 1 k by (simp add: less_mult_imp_div_less mult.commute)
    then show ?thesis using 1 False k by (simp add: decimal.simps [of v])
  qed
qed

lemma decimal_int_short: "- (2 ^ 31) \<le> i \<Longrightarrow> i < 2 ^ 31 \<Longrightarrow> length (decimal_int i) \<le> 11"
proof -
  assume "- (2 ^ 31) \<le> i" "i < 2 ^ 31"
  then have "nat \<bar>i\<bar> < 10 ^ 10" by simp
  then have "length (decimal (nat \<bar>i\<bar>)) \<le> 10" by (rule length_decimal) simp
  then show ?thesis by (auto simp: decimal_int_def)
qed

lemma atoi_digits_value:
  "\<forall>d \<in> set ds. d < 10 \<Longrightarrow>
     atoi_digits (map digit_char ds @ 0 # v) (of_nat r) = Inr (of_nat (foldl (\<lambda>r d. r * 10 + d) r ds))"
proof (induction ds arbitrary: r)
  case Nil
  show ?case by (simp add: is_digit_def)
next
  case (Cons d ds)
  have "(of_nat r :: u32) * 10 + of_nat d = of_nat (r * 10 + d)" by simp
  then show ?case using Cons digit_facts [of d] by (simp del: of_nat_add of_nat_mult)
qed

lemma atoi_decimal: "atoi (decimal_int i @ 0 # v) = Inr (of_int i)"
proof -
  obtain ds where ds: "decimal (nat \<bar>i\<bar>) = map digit_char ds" "ds \<noteq> []" "\<forall>d \<in> set ds. d < 10"
      "foldl (\<lambda>r d. r * 10 + d) 0 ds = nat \<bar>i\<bar>"
    using decimal_digit_chars by blast
  have a: "atoi_digits (map digit_char ds @ 0 # v) 0 = Inr (of_nat (nat \<bar>i\<bar>))"
    using atoi_digits_value [OF ds(3), of v 0] ds(4) by simp
  obtain d ds1 where d: "ds = d # ds1" "d < 10" using ds(2,3) by (cases ds) auto
  show ?thesis
  proof (cases "i < 0")
    case True
    have m: "\<not> is_space 45" by (simp add: is_space_def)
    have "(of_nat (nat \<bar>i\<bar>) :: u32) = - of_int i" using True by simp
    then show ?thesis using True a ds(1) m by (simp add: decimal_int_def atoi_def)
  next
    case False
    then show ?thesis using a ds(1) d digit_facts [of d] by (simp add: decimal_int_def atoi_def)
  qed
qed

lemma hex_char_value: "0 \<le> d \<Longrightarrow> d < 16 \<Longrightarrow> digit_value 16 (hex_char d) = Some d"
proof -
  assume d: "0 \<le> d" "d < 16"
  have "uint (hex_char d) = (if d < 10 then 48 + d else 87 + d)"
    using d uint_byte [of "48 + d"] uint_byte [of "87 + d"] by (simp add: hex_char_def)
  then show ?thesis using d by (auto simp: digit_value_def Let_def)
qed

lemma hex_digits_value: "0 \<le> (v :: int) \<Longrightarrow> v < 16 ^ k \<Longrightarrow>
    foldl (\<lambda>r d. r * 16 + d) r (map (\<lambda>i. v div 2 ^ (4 * i) mod 16) (rev [0..<k])) = r * 16 ^ k + v"
proof (induction k arbitrary: v r)
  case 0
  then have "v = 0" by simp
  then show ?case by simp
next
  case (Suc k)
  have p: "(2 :: int) ^ (4 * i) = 16 ^ i" for i by (simp add: power_mult)
  have "v div 16 ^ k * 16 ^ k + v mod 16 ^ k = v" "0 \<le> v mod 16 ^ k" by (rule div_mult_mod_eq) simp
  then have "v div 16 ^ k * 16 ^ k < 16 * 16 ^ k" using Suc.prems by (simp only: power_Suc)
  then have q: "v div 16 ^ k < 16" "0 \<le> v div 16 ^ k" using Suc.prems by (simp_all add: pos_imp_zdiv_nonneg_iff)
  have m: "map (\<lambda>i. v div 2 ^ (4 * i) mod 16) (rev [0..<k]) = map (\<lambda>i. v mod 16 ^ k div 2 ^ (4 * i) mod 16) (rev [0..<k])"
  proof (rule map_cong [OF refl])
    fix i assume "i \<in> set (rev [0..<k])"
    then have "take_bit 4 (drop_bit (4 * i) (take_bit (4 * k) v)) = take_bit 4 (drop_bit (4 * i) v)"
      by (simp add: drop_bit_take_bit min_absorb1)
    then show "v div 2 ^ (4 * i) mod 16 = v mod 16 ^ k div 2 ^ (4 * i) mod 16"
      by (simp add: take_bit_eq_mod drop_bit_eq_div p)
  qed
  have "foldl (\<lambda>r d. r * 16 + d) (r * 16 + v div 16 ^ k) (map (\<lambda>i. v mod 16 ^ k div 2 ^ (4 * i) mod 16) (rev [0..<k])) =
      (r * 16 + v div 16 ^ k) * 16 ^ k + v mod 16 ^ k"
    by (rule Suc.IH) simp_all
  also have "... = r * 16 ^ Suc k + v" by (simp add: algebra_simps)
  finally have f: "foldl (\<lambda>r d. r * 16 + d) (r * 16 + v div 16 ^ k) (map (\<lambda>i. v mod 16 ^ k div 2 ^ (4 * i) mod 16) (rev [0..<k])) =
      r * 16 ^ Suc k + v" .
  show ?case using q f [folded m] by (simp add: p)
qed

lemma strtol_digits_hex:
  "\<forall>d \<in> set ds. 0 \<le> d \<and> d < 16 \<Longrightarrow>
     strtol_digits 16 (map hex_char ds @ p) (of_int r) = strtol_digits 16 p (of_int (foldl (\<lambda>r d. r * 16 + d) r ds))"
proof (induction ds arbitrary: r)
  case (Cons d ds)
  have "(of_int r :: u64) * 16 + of_int d = of_int (r * 16 + d)" by simp
  then show ?case using Cons hex_char_value [of d] by (simp del: of_int_add of_int_mult)
qed simp

lemma hex_digits_read: "strtol_digits 16 (hex_digits 16 (uint (x :: u64)) @ 0 # v) 0 = Inr (x, 0 # v)"
proof -
  let ?ds = "map (\<lambda>i. uint x div 2 ^ (4 * i) mod 16) (rev [0..<16])"
  have "foldl (\<lambda>r d. r * 16 + d) 0 ?ds = uint x"
    using hex_digits_value [of "uint x" 16 0] uint_lt2p [of x] by simp
  moreover have "digit_value 16 0 = None" by (simp add: digit_value_def)
  moreover have "hex_digits 16 (uint x) = map hex_char ?ds" by (simp add: hex_digits_def del: upt_rec_numeral)
  ultimately show ?thesis using strtol_digits_hex [of ?ds "0 # v" 0] by (simp del: upt_rec_numeral)
qed

lemma strtol_pointer:
  assumes "base = 16 \<or> base = 0"
  shows "strtol ([48, 120] @ hex_digits 16 (uint (x :: u64)) @ 0 # v) base = Inr (x, 0 # v)"
proof -
  have "\<not> is_space 48" by (simp add: is_space_def)
  then show ?thesis using assms hex_digits_read [of x v]
    by (auto simp: strtol_def hex_prefix_def Let_def drop_two)
qed

section \<open>Properties\<close>

text \<open>
  C25. A format made of ordinary characters and the conversions d, ld, u, lu, x, lx, p, s and c, in which only
  characters follow a \<^verbatim>\<open>%c\<close> (\<open>chars_last\<close>), with arguments of d and u in their 32 bits, of ld above
  -2^63 and of lu below 2^63 (see \<open>large_unsigned_loses_digits\<close> for the others), and a text of less than
  2^31 - 1 bytes, stands for the concatenation of the texts of its pieces. The buffer receives that text, cut
  to one byte less than its size, and the terminator, and nothing behind its size is written; the value returned
  is the length of the whole text; and \<^verbatim>\<open>vprintf\<close>, which measures first, hands exactly the text to the console.
\<close>

theorem formatted_text_is_cut:
  assumes "\<forall>p \<in> set ps. piece_ok p" "chars_last ps" "n \<le> length b" "length (texts ps) < 2 ^ 31 - 1"
    "\<And>k. length (junk k) = k"
  shows "vsnprintf (Some b) n (formats ps) (arguments ps) =
      Inr (int (length (texts ps)), Some (poke 0 (cut_text n (texts ps)) b))
    \<and> vprintf junk (formats ps) (arguments ps) = Inr (int (length (texts ps)), texts ps)"
proof
  show "vsnprintf (Some b) n (formats ps) (arguments ps) = Inr (int (length (texts ps)), Some (poke 0 (cut_text n (texts ps)) b))"
    using assms by (intro vsnprintf_pieces) auto
  let ?k = "length (texts ps)"
  have "vsnprintf (Some (junk (?k + 1))) (?k + 1) (formats ps) (arguments ps) =
      Inr (int ?k, Some (texts ps @ [0]))"
    using vsnprintf_pieces(1) [OF assms(1), of "?k + 1" "junk (?k + 1)"] assms(2,4,5) by (simp add: cut_text_def poke_def)
  then show "vprintf junk (formats ps) (arguments ps) = Inr (int ?k, texts ps)"
    using vsnprintf_pieces(2) [OF assms(1,3), of "2 ^ 64 - 1"] assms(2,4,5)
    by (simp add: vprintf_def poke_def nat_add_distrib)
qed

lemma formatted_text_is_cut_witness:
  "vsnprintf (Some (replicate 6 7)) 6 [91, 37, 100, 93, 37, 115, 0] (arguments [Lit 91, Dec (- 12), Lit 93, Txt [104, 105]]) =
     Inr (7, Some [91, 45, 49, 50, 93, 0])
   \<and> vprintf (\<lambda>k. replicate k 7) [91, 37, 100, 93, 37, 115, 0] (arguments [Lit 91, Dec (- 12), Lit 93, Txt [104, 105]]) =
     Inr (7, [91, 45, 49, 50, 93, 104, 105])"
proof -
  let ?ps = "[Lit 91, Dec (- 12), Lit 93, Txt [104, 105]]"
  have d: "decimal 12 = [49, 50]" by (simp add: decimal.simps [of 12] decimal.simps [of "Suc 0"])
  have t: "texts ?ps = [91, 45, 49, 50, 93, 104, 105]" by (simp add: texts_def decimal_int_def d)
  have f: "formats ?ps = [91, 37, 100, 93, 37, 115, 0]" by (simp add: formats_def)
  show ?thesis
    using formatted_text_is_cut [of ?ps 6 "replicate 6 7" "\<lambda>k. replicate k 7"] unfolding t f
    by (simp add: PERCENT_def cut_text_def poke_def chars_last_def)
qed

text \<open>
  C27. What is printed is read back: \<^verbatim>\<open>atoi\<close> of the text of d is the integer, for every \<^verbatim>\<open>int\<close>, and \<^verbatim>\<open>strtol\<close>
  of the text of p is the pointer, for every pointer, in base 16 and in the base 0 that looks at the prefix.
\<close>

theorem printed_numbers_are_read_back:
  assumes "- (2 ^ 31) \<le> i" "i < 2 ^ 31" "12 \<le> n" "n \<le> length b" "19 \<le> m" "m \<le> length a" "base = 16 \<or> base = 0"
  shows "(\<exists>r t. vsnprintf (Some b) n (formats [Dec i]) (arguments [Dec i]) = Inr (r, Some t) \<and> atoi t = Inr (of_int i))
    \<and> (\<exists>r t rest. vsnprintf (Some a) m (formats [Pointer x]) (arguments [Pointer x]) = Inr (r, Some t)
         \<and> strtol t base = Inr (x, rest))"
proof
  have l: "length (decimal_int i) \<le> 11" by (rule decimal_int_short) (use assms in auto)
  then have c: "cut_text n (texts [Dec i]) = decimal_int i @ [0]" using assms(3) by (simp add: cut_text_def texts_def)
  have "vsnprintf (Some b) n (formats [Dec i]) (arguments [Dec i]) =
      Inr (int (length (decimal_int i)), Some (poke 0 (decimal_int i @ [0]) b))"
    using vsnprintf_pieces(1) [of "[Dec i]" n b] assms(1,2,4) l c by (simp add: texts_def chars_last_def)
  moreover have "atoi (poke 0 (decimal_int i @ [0]) b) = Inr (of_int i)" by (simp add: poke_def atoi_decimal)
  ultimately show "\<exists>r t. vsnprintf (Some b) n (formats [Dec i]) (arguments [Dec i]) = Inr (r, Some t) \<and> atoi t = Inr (of_int i)"
    by blast
next
  let ?t = "[48, 120] @ hex_digits 16 (uint x)"
  have l: "length (hex_digits 16 (uint x)) = 16" by (simp add: hex_digits_def del: upt_rec_numeral)
  then have c: "cut_text m (texts [Pointer x]) = ?t @ [0]" using assms(5) by (simp add: cut_text_def texts_def)
  have "vsnprintf (Some a) m (formats [Pointer x]) (arguments [Pointer x]) = Inr (18, Some (poke 0 (?t @ [0]) a))"
    using vsnprintf_pieces(1) [of "[Pointer x]" m a] assms(6) l c by (simp add: texts_def chars_last_def)
  moreover have "strtol (poke 0 (?t @ [0]) a) base = Inr (x, 0 # drop 19 a)"
    using strtol_pointer [OF assms(7), of x "drop 19 a"] l by (simp add: poke_def)
  ultimately show "\<exists>r t rest. vsnprintf (Some a) m (formats [Pointer x]) (arguments [Pointer x]) = Inr (r, Some t)
      \<and> strtol t base = Inr (x, rest)" by blast
qed

lemma printed_numbers_are_read_back_witness:
  "(\<exists>r t. vsnprintf (Some (replicate 12 7)) 12 (formats [Dec (- 2147483648)]) (arguments [Dec (- 2147483648)]) = Inr (r, Some t)
       \<and> atoi t = Inr (of_int (- 2147483648)))
   \<and> (\<exists>r t rest. vsnprintf (Some (replicate 20 7)) 19 (formats [Pointer 1073741824]) (arguments [Pointer 1073741824]) = Inr (r, Some t)
       \<and> strtol t 0 = Inr (1073741824, rest))"
  by (rule printed_numbers_are_read_back) simp_all

text \<open>
  An unsigned number of at least \<open>2 ^ 63\<close> loses digits: the loop that counts them works on a signed
  \<^verbatim>\<open>long\<close>, so that as many of the last digits are printed as the distance to \<open>2 ^ 64\<close> has.
\<close>

theorem large_unsigned_loses_digits:
  assumes "2 ^ 63 \<le> v" "v < 2 ^ 64" "n \<le> length b" "k = length (decimal (2 ^ 64 - v))"
  shows "vsnprintf (Some b) n (formats [Long_uns v]) (arguments [Long_uns v]) =
      Inr (int k, Some (poke 0 (cut_text n (digits k v)) b))"
proof -
  have c: "count_digits (signed_long (int v)) = k"
    using assms count_digits_nat [of "2 ^ 64 - v"] count_digits_minus [of "int (2 ^ 64 - v)"] signed_long_large [OF assms(1,2)]
    by simp
  have "put_digits n 0 k (int v) (Some b) = Inr (Some (poke 0 (take n (digits k v)) b))"
    using put_digits_string [of n "Some b" 0 k v] assms(3) by (simp add: room_def)
  then have "conv_unsigned n True (va_slot (of_nat v)) (Some b, 0) = Inr (Some (poke 0 (take n (digits k v)) b), k)"
    using assms(2) c by (simp add: conv_unsigned_def slot_args Let_def)
  then have f: "format_loop n (formats [Long_uns v]) False False (arguments [Long_uns v]) (Some b, 0) =
      Inr (Some (poke 0 (take n (digits k v)) b), k)"
    by (simp add: formats_def arguments_def PERCENT_def conversion_def)
  have "k \<le> 19" unfolding assms(4) by (rule length_decimal) (use assms in auto)
  then have "sint (of_nat k :: u32) = int k" by (simp add: signed_of_nat signed_take_bit_int_eq_self)
  then show ?thesis unfolding vsnprintf_def f rbind.simps prod.case terminated [OF assms(3), of "digits k v", unfolded length_digits]
    by simp
qed

lemma large_unsigned_loses_digits_witness:
  "vsnprintf (Some (replicate 32 7)) 32 (formats [Long_uns 18446744073709551615]) (arguments [Long_uns 18446744073709551615]) =
     Inr (1, Some (poke 0 [53, 0] (replicate 32 7)))"
proof -
  have "digits 1 18446744073709551615 = [53]" by simp
  moreover have "length (decimal (2 ^ 64 - 18446744073709551615)) = 1" by (simp add: decimal.simps [of "Suc 0"])
  ultimately show ?thesis
    using large_unsigned_loses_digits [of 18446744073709551615 32 "replicate 32 7" 1] by (simp add: cut_text_def)
qed

text \<open>
  C40. A character in front of another argument makes \<^verbatim>\<open>printf\<close> lose text: in the first pass, which measures
  the text without a buffer, the character is not taken from the arguments, and the number behind it is
  measured with the code of the character as its value; no more than that is printed.
\<close>

theorem char_before_number_is_cut:
  assumes "- (2 ^ 31) \<le> i" "i < 2 ^ 31" "k = Suc (length (decimal (unat c)))" "k \<le> Suc (length (decimal_int i))"
    "\<And>k. length (junk k) = k"
  shows "vprintf junk (formats [Chr c, Dec i]) (arguments [Chr c, Dec i]) = Inr (int k, take k (c # decimal_int i))"
proof -
  have u: "unat c < 256" using unsigned_less [of c, where 'a = nat] by simp
  then have "length (decimal (unat c)) \<le> 3" by (intro length_decimal) auto
  then have k: "k \<le> 4" using assms(3) by simp
  then have r: "sint (of_nat k :: u32) = int k" by (simp add: signed_of_nat signed_take_bit_int_eq_self)
  have "va_slot (ucast c) = va_slot (of_int (int (unat c)))" by (simp add: va_slot_def)
  moreover have "decimal_int (int (unat c)) = decimal (unat c)" by (simp add: decimal_int_def)
  ultimately have d: "conv_signed n False (va_slot (ucast c)) st = Inr (put_string n (decimal (unat c)) st)" if "room n st" for n st
    using that uint_lt2p [of c] order_trans [OF _ uint_ge_0 [of c], of "- (2 ^ 31)"] conv_signed_decimal [OF that slot_args(3) [of "int (unat c)"]] by simp
  have "format_loop m (formats [Chr c, Dec i]) False False (arguments [Chr c, Dec i]) (None, 0) = Inr (None, k)" for m
    using assms(3) by (simp add: formats_def arguments_def PERCENT_def conversion_def conv_char_def d room_def put_string_def)
  then have m: "vsnprintf None m (formats [Chr c, Dec i]) (arguments [Chr c, Dec i]) = Inr (int k, None)" for m
    using r by (simp add: vsnprintf_def set_out_def)
  let ?b = "junk (Suc k)" and ?t = "c # decimal_int i"
  have "format_loop (Suc k) (formats [Chr c, Dec i]) False False (arguments [Chr c, Dec i]) (Some ?b, 0) =
      format_loop (Suc k) (formats [Dec i]) False False (arguments [Dec i]) (put_string (Suc k) [c] (Some ?b, 0))"
    using assms(5) by (simp add: formats_def arguments_def PERCENT_def conv_char_string room_def)
  also have "... = Inr (Some (poke 0 (take (Suc k) ?t) ?b), length ?t)"
    using format_all [of "Suc k" "put_string (Suc k) [c] (Some ?b, 0)" "[Dec i]"] assms(1,2,5)
    by (simp add: room_def chars_last_def put_string_append texts_def) (simp add: put_string_def)
  finally have f: "format_loop (Suc k) (formats [Chr c, Dec i]) False False (arguments [Chr c, Dec i]) (Some ?b, 0) =
      Inr (Some (poke 0 (take (Suc k) ?t) ?b), length ?t)" .
  have t: "(if length ?t < Suc k then set_out (Suc k) (length ?t) 0 (Some (poke 0 (take (Suc k) ?t) ?b))
      else if Suc k \<noteq> 0 then set_out (Suc k) (Suc k - 1) 0 (Some (poke 0 (take (Suc k) ?t) ?b)) else Inr (Some (poke 0 (take (Suc k) ?t) ?b))) =
      Inr (Some (poke 0 (cut_text (Suc k) ?t) ?b))"
    using terminated [of "Suc k" ?b ?t] assms(5) by simp
  have "\<exists>x. vsnprintf (Some ?b) (Suc k) (formats [Chr c, Dec i]) (arguments [Chr c, Dec i]) = Inr (x, Some (poke 0 (cut_text (Suc k) ?t) ?b))"
    unfolding vsnprintf_def f rbind.simps prod.case t by blast
  moreover have "take k (poke 0 (cut_text (Suc k) ?t) ?b) = take k ?t" using assms(4) by (simp add: cut_text_def poke_def)
  ultimately show ?thesis using m [of "2 ^ 64 - 1"] by (auto simp: vprintf_def nat_add_distrib)
qed

lemma char_before_number_is_cut_witness:
  "vprintf (\<lambda>k. replicate k 7) (formats [Chr 97, Dec 12345]) (arguments [Chr 97, Dec 12345]) = Inr (3, [97, 49, 50])"
proof -
  have d: "decimal 97 = [57, 55]" "decimal 12345 = [49, 50, 51, 52, 53]"
    by (simp_all add: decimal.simps [of 97] decimal.simps [of 9] decimal.simps [of 12345] decimal.simps [of 1234]
        decimal.simps [of 123] decimal.simps [of 12] decimal.simps [of "Suc 0"])
  show ?thesis using char_before_number_is_cut [of 12345 3 97 "\<lambda>k. replicate k 7"]
    by (simp add: d decimal_int_def numeral_3_eq_3)
qed

text \<open>Two per cent signs print none, and the letter that follows them takes an argument.\<close>

lemma percent_percent_takes_argument: "vsnprintf None n [37, 37, 32, 100, 0] [] = Inl Out_of_bounds"
  by (simp add: vsnprintf_def PERCENT_def conversion_def va_arg_def)

text \<open>The sign plus is not skipped.\<close>

lemma strtol_plus: "strtol [43, 53, 0] 10 = Inr (0, [43, 53, 0])"
  by (simp add: strtol_def is_space_def digit_value_def)

end
