(* ===== verification/Shell.thy ===== *)
theory Shell
  imports CString
begin

text \<open>
  The command line of the shell, \<^verbatim>\<open>src/user/ensishell\<close>: the words of a line and the parser of
  \<^verbatim>\<open>readcmd.c\<close>, the list of background jobs, the argument of \<^verbatim>\<open>cd\<close> and the choice of what to do with a
  line. Memory is available: \<^verbatim>\<open>xmalloc\<close> ends the shell when it is not.
\<close>

lemma rbind_cong [fundef_cong]: "m = m' \<Longrightarrow> (\<And>a. m' = Inr a \<Longrightarrow> f a = g a) \<Longrightarrow> rbind m f = rbind m' g"
  by (cases m') auto

section \<open>Characters\<close>

definition BLANKS :: "byte set" where "BLANKS = {32, 9}"
definition OPERATORS :: "byte set" where "OPERATORS = {60, 62, 124, 38}"
definition QUOTE :: byte where "QUOTE = 39"
definition DOUBLE_QUOTE :: byte where "DOUBLE_QUOTE = 34"
definition ESCAPE :: byte where "ESCAPE = 92"

section \<open>Reading a word\<close>

text \<open>
  A call works on the rest of the line and on what has been written to the buffer, whose size is \<open>cap\<close>.
\<close>

definition put_buf :: "nat \<Rightarrow> byte \<Rightarrow> byte list \<Rightarrow> byte list res" where
  "put_buf cap c w = (if length w < cap then Inr (w @ [c]) else Inl Out_of_bounds)"

fun single_quote_loop :: "nat \<Rightarrow> byte list \<Rightarrow> byte list \<Rightarrow> (byte list \<times> byte list) res" where
  "single_quote_loop cap [] w = Inl Out_of_bounds"
| "single_quote_loop cap (c # cur) w =
     (if c = QUOTE then Inr (cur, w)
      else if c = 0 then Inr (c # cur, w)
      else rbind (put_buf cap c w) (\<lambda>w1. single_quote_loop cap cur w1))"

fun double_quote_loop :: "nat \<Rightarrow> byte list \<Rightarrow> byte list \<Rightarrow> (byte list \<times> byte list) res" where
  "double_quote_loop cap [] w = Inl Out_of_bounds"
| "double_quote_loop cap (c # cur) w =
     (if c = DOUBLE_QUOTE then Inr (cur, w)
      else if c = ESCAPE then
        (case cur of [] \<Rightarrow> Inl Out_of_bounds | x # cur1 \<Rightarrow> rbind (put_buf cap x w) (\<lambda>w1. double_quote_loop cap cur1 w1))
      else if c = 0 then Inr (c # cur, w)
      else rbind (put_buf cap c w) (\<lambda>w1. double_quote_loop cap cur w1))"

text \<open>The first character is the quotation mark.\<close>

definition read_single_quote :: "nat \<Rightarrow> byte list \<Rightarrow> byte list \<Rightarrow> (byte list \<times> byte list) res" where
  "read_single_quote cap cur w = single_quote_loop cap (drop 1 cur) w"

definition read_double_quote :: "nat \<Rightarrow> byte list \<Rightarrow> byte list \<Rightarrow> (byte list \<times> byte list) res" where
  "read_double_quote cap cur w = double_quote_loop cap (drop 1 cur) w"

lemma single_quote_rest: "single_quote_loop cap cur w = Inr (r, w1) \<Longrightarrow> length r \<le> length cur"
proof (induction cap cur w rule: single_quote_loop.induct)
  case (2 cap c cur w)
  then show ?case by (cases "put_buf cap c w") (auto split: if_splits intro: le_SucI)
qed simp

lemma double_quote_rest: "double_quote_loop cap cur w = Inr (r, w1) \<Longrightarrow> length r \<le> length cur"
proof (induction cap cur w rule: double_quote_loop.induct)
  case (2 cap c cur w)
  then show ?case
    by (cases "put_buf cap c w"; cases cur) (auto simp: res_simps split: if_splits intro: le_SucI)
qed simp

text \<open>One round of the loop of \<^verbatim>\<open>read_word\<close>; \<open>None\<close> is the return.\<close>

definition word_round :: "nat \<Rightarrow> byte list \<Rightarrow> byte list \<Rightarrow> (byte list \<times> byte list) option res" where
  "word_round cap cur w =
     (case cur of
        [] \<Rightarrow> Inl Out_of_bounds
      | c # rest \<Rightarrow>
          if c = 0 \<or> c \<in> BLANKS \<or> c \<in> OPERATORS then Inr None
          else if c = QUOTE then rbind (read_single_quote cap cur w) (\<lambda>r. Inr (Some r))
          else if c = DOUBLE_QUOTE then rbind (read_double_quote cap cur w) (\<lambda>r. Inr (Some r))
          else if c = ESCAPE then
            (case rest of [] \<Rightarrow> Inl Out_of_bounds | x # rest1 \<Rightarrow> rbind (put_buf cap x w) (\<lambda>w1. Inr (Some (rest1, w1))))
          else rbind (put_buf cap c w) (\<lambda>w1. Inr (Some (rest, w1))))"

lemma word_round_shorter: "word_round cap cur w = Inr (Some (r, w1)) \<Longrightarrow> length r < length cur"
  by (auto simp: word_round_def read_single_quote_def read_double_quote_def res_simps le_imp_less_Suc
      split: list.splits if_splits dest: single_quote_rest double_quote_rest
      simp del: single_quote_loop.simps double_quote_loop.simps)

text \<open>What is left of the line and what the buffer holds, its terminator excluded.\<close>

function read_word :: "nat \<Rightarrow> byte list \<Rightarrow> byte list \<Rightarrow> (byte list \<times> byte list) res" where
  "read_word cap cur w =
     rbind (word_round cap cur w) (\<lambda>r.
     case r of
       None \<Rightarrow> rbind (put_buf cap 0 w) (\<lambda>_. Inr (cur, w))
     | Some (cur1, w1) \<Rightarrow> read_word cap cur1 w1)"
  by pat_completeness auto
termination
  by (relation "measure (\<lambda>(cap, cur, w). length cur)") (auto dest: word_round_shorter)

declare read_word.simps [simp del]

lemma read_word_rest: "read_word cap cur w = Inr (r, w1) \<Longrightarrow> length r \<le> length cur"
proof (induction cap cur w rule: read_word.induct)
  case (1 cap cur w)
  obtain t where t: "word_round cap cur w = Inr t" using 1 read_word.simps [of cap cur w] by (auto simp: res_simps)
  show ?case
  proof (cases t)
    case None
    then show ?thesis using 1 t read_word.simps [of cap cur w] by (auto simp: res_simps)
  next
    case (Some cw)
    obtain cur1 w2 where cw: "cw = (cur1, w2)" by (cases cw)
    then have "length r \<le> length cur1" using 1 t Some read_word.simps [of cap cur w] by simp
    then show ?thesis using word_round_shorter [of cap cur w cur1 w2] t Some cw by simp
  qed
qed

text \<open>A word that does not begin with a character that ends words is not empty.\<close>

lemma read_word_shorter:
  assumes "read_word cap (c # cur) w = Inr (r, w1)" "c \<noteq> 0" "c \<notin> BLANKS" "c \<notin> OPERATORS"
  shows "length r < length (c # cur)"
proof -
  obtain t where t: "word_round cap (c # cur) w = Inr t" using assms(1) read_word.simps [of cap "c # cur" w] by (auto simp: res_simps)
  moreover have "t \<noteq> None" using assms(2-4) t by (auto simp: word_round_def res_simps split: list.splits if_splits)
  ultimately obtain cur1 w2 where "word_round cap (c # cur) w = Inr (Some (cur1, w2))" by (cases t) auto
  then show ?thesis using assms(1) read_word.simps [of cap "c # cur" w] word_round_shorter read_word_rest by fastforce
qed

section \<open>The words of a line\<close>

text \<open>A word of one operator is a literal of the program, the others are copies in allocated memory.\<close>

datatype word_t = Literal byte | Dup "byte list"

fun word_text :: "word_t \<Rightarrow> byte list" where
  "word_text (Literal c) = [c]"
| "word_text (Dup s) = s"

definition first_char :: "word_t \<Rightarrow> byte" where
  "first_char w = (case word_text w of [] \<Rightarrow> 0 | c # _ \<Rightarrow> c)"

text \<open>The copy ends at the first zero of the buffer.\<close>

function split_loop :: "nat \<Rightarrow> byte list \<Rightarrow> word_t list res" where
  "split_loop cap [] = Inl Out_of_bounds"
| "split_loop cap (c # cur) =
     (if c = 0 then Inr []
      else if c \<in> BLANKS then split_loop cap cur
      else if c \<in> OPERATORS then rbind (split_loop cap cur) (\<lambda>ws. Inr (Literal c # ws))
      else rbind (read_word cap (c # cur) []) (\<lambda>r.
        rbind (split_loop cap (fst r)) (\<lambda>ws. Inr (Dup (takeWhile (\<lambda>x. x \<noteq> 0) (snd r)) # ws))))"
  by pat_completeness auto
termination
  by (relation "measure (\<lambda>(cap, cur). length cur)") (auto dest: read_word_shorter)

definition split_in_words :: "byte list \<Rightarrow> word_t list res" where
  "split_in_words line = rbind (strlen line) (\<lambda>n. split_loop (n + 1) line)"

section \<open>The parser\<close>

datatype parse_error =
    Only_one_input
  | Input_missing
  | Input_incorrect
  | Only_one_output
  | Output_missing
  | Output_incorrect
  | Misplaced_ampersand
  | Only_one_ampersand
  | Misplaced_pipe
  | Second_missing
  | Pipe_incorrect

record cmdline =
  cl_err :: "parse_error option"
  cl_in :: "word_t option"
  cl_out :: "word_t option"
  cl_bg :: bool
  cl_seq :: "word_t list list option"

text \<open>The variables of the loop over the words.\<close>

record parse_state =
  ps_in :: "word_t option"
  ps_out :: "word_t option"
  ps_bg :: bool
  ps_seq :: "word_t list list"
  ps_cmd :: "word_t list"

definition is_operator :: "word_t \<Rightarrow> bool" where
  "is_operator w \<longleftrightarrow> first_char w \<in> OPERATORS"

text \<open>The file name of a redirection and the words behind it.\<close>

definition redirect :: "word_t option \<Rightarrow> parse_error \<Rightarrow> parse_error \<Rightarrow> parse_error \<Rightarrow> word_t list \<Rightarrow>
    parse_error + word_t \<times> word_t list" where
  "redirect old one missing bad ws =
     (if old \<noteq> None then Inl one
      else case ws of [] \<Rightarrow> Inl missing | f # rest \<Rightarrow> if is_operator f then Inl bad else Inr (f, rest))"

text \<open>One round; \<open>ws\<close> are the words from \<^verbatim>\<open>words[i]\<close> on.\<close>

definition parse_round :: "word_t \<Rightarrow> word_t list \<Rightarrow> parse_state \<Rightarrow> parse_error + word_t list \<times> parse_state" where
  "parse_round w ws p =
     (if first_char w = 60 then
        (case redirect (ps_in p) Only_one_input Input_missing Input_incorrect ws of
           Inl e \<Rightarrow> Inl e | Inr (f, rest) \<Rightarrow> Inr (rest, p\<lparr>ps_in := Some f\<rparr>))
      else if first_char w = 62 then
        (case redirect (ps_out p) Only_one_output Output_missing Output_incorrect ws of
           Inl e \<Rightarrow> Inl e | Inr (f, rest) \<Rightarrow> Inr (rest, p\<lparr>ps_out := Some f\<rparr>))
      else if first_char w = 38 then
        if ps_cmd p = [] \<or> ws \<noteq> [] then Inl Misplaced_ampersand
        else if ps_bg p then Inl Only_one_ampersand
        else Inr (ws, p\<lparr>ps_bg := True\<rparr>)
      else if first_char w = 124 then
        if ps_cmd p = [] then Inl Misplaced_pipe
        else (case ws of
                [] \<Rightarrow> Inl Second_missing
              | v # _ \<Rightarrow> if is_operator v then Inl Pipe_incorrect
                         else Inr (ws, p\<lparr>ps_seq := ps_seq p @ [ps_cmd p], ps_cmd := []\<rparr>))
      else Inr (ws, p\<lparr>ps_cmd := ps_cmd p @ [w]\<rparr>))"

lemma parse_round_rest: "parse_round w ws p = Inr (rest, q) \<Longrightarrow> length rest \<le> length ws"
  by (auto simp: parse_round_def redirect_def split: if_splits list.splits)

text \<open>The error with the words not yet looked at, and the variables.\<close>

function parse_loop :: "word_t list \<Rightarrow> parse_state \<Rightarrow> (parse_error \<times> word_t list) option \<times> parse_state" where
  "parse_loop [] p = (None, p)"
| "parse_loop (w # ws) p =
     (case parse_round w ws p of Inl e \<Rightarrow> (Some (e, ws), p) | Inr r \<Rightarrow> parse_loop (fst r) (snd r))"
  by pat_completeness auto
termination
  by (relation "measure (\<lambda>(ws, p). length ws)") (auto simp: le_imp_less_Suc dest: parse_round_rest)

definition start_state :: parse_state where
  "start_state = \<lparr>ps_in = None, ps_out = None, ps_bg = False, ps_seq = [], ps_cmd = []\<rparr>"

definition opt_list :: "'a option \<Rightarrow> 'a list" where
  "opt_list x = (case x of None \<Rightarrow> [] | Some a \<Rightarrow> [a])"

text \<open>\<^verbatim>\<open>freecmd\<close> and \<^verbatim>\<open>freeseq\<close>: the words they free.\<close>

definition freecmd :: "cmdline \<Rightarrow> word_t list" where
  "freecmd s = opt_list (cl_in s) @ opt_list (cl_out s) @ (case cl_seq s of None \<Rightarrow> [] | Some seq \<Rightarrow> concat seq)"

text \<open>The end behind the label \<^verbatim>\<open>error\<close>: the structure and the words freed.\<close>

definition parse_failed :: "parse_error \<Rightarrow> word_t list \<Rightarrow> parse_state \<Rightarrow> cmdline \<times> word_t list" where
  "parse_failed e ws p =
     (\<lparr>cl_err = Some e, cl_in = None, cl_out = None, cl_bg = ps_bg p, cl_seq = None\<rparr>,
      filter (\<lambda>w. \<not> is_operator w) ws @ concat (ps_seq p) @ ps_cmd p @ opt_list (ps_in p) @ opt_list (ps_out p))"

definition parse_words :: "word_t list \<Rightarrow> cmdline \<times> word_t list" where
  "parse_words words =
     (case parse_loop words start_state of
        (Some (e, ws), p) \<Rightarrow> parse_failed e ws p
      | (None, p) \<Rightarrow>
          if ps_cmd p = [] \<and> ps_seq p \<noteq> [] then parse_failed Misplaced_pipe [] p
          else (\<lparr>cl_err = None, cl_in = ps_in p, cl_out = ps_out p, cl_bg = ps_bg p,
                 cl_seq = Some (if ps_cmd p \<noteq> [] then ps_seq p @ [ps_cmd p] else ps_seq p)\<rparr>, []))"

text \<open>
  The buffer \<^verbatim>\<open>readline\<close> returns when \<^verbatim>\<open>cons_read\<close> has delivered \<open>typed\<close>, which is at most the length it
  was asked for.
\<close>

definition LINE_LEN :: nat where "LINE_LEN = 100"

definition readline :: "byte list \<Rightarrow> byte list" where
  "readline typed = poke 0 (take LINE_LEN typed) (replicate LINE_LEN 0)"

text \<open>
  The structure returned, which is kept for the next call, and the words freed. \<open>None\<close> for the line is the
  end of the input.
\<close>

definition parsecmd :: "cmdline option \<Rightarrow> byte list option \<Rightarrow> (cmdline option \<times> word_t list) res" where
  "parsecmd static_cmdline line =
     (let old = (case static_cmdline of None \<Rightarrow> [] | Some s \<Rightarrow> freecmd s) in
      case line of
        None \<Rightarrow> Inr (None, old)
      | Some l \<Rightarrow> rbind (split_in_words l) (\<lambda>words.
          let r = parse_words words in Inr (Some (fst r), old @ snd r)))"

section \<open>Background jobs\<close>

record job_bg =
  job_name :: "byte list"
  job_id :: int

text \<open>
  The list with a job at its end: \<open>junk\<close> is what the memory holds, and the array for the name has as many
  bytes as the name without its terminator.
\<close>

definition add_job :: "(nat \<Rightarrow> byte list) \<Rightarrow> byte list \<Rightarrow> int \<Rightarrow> job_bg list \<Rightarrow> job_bg list res" where
  "add_job junk name pid jobs =
     rbind (strlen name) (\<lambda>n. rbind (strcpy (junk n) name) (\<lambda>s. Inr (jobs @ [\<lparr>job_name = s, job_id = pid\<rparr>])))"

text \<open>A job that is not in the list: the loop ends with NULL, which is read.\<close>

fun remove_job :: "int \<Rightarrow> job_bg list \<Rightarrow> job_bg list res" where
  "remove_job pid [] = Inl Null_deref"
| "remove_job pid (j # jobs) = (if job_id j = pid then Inr jobs else rbind (remove_job pid jobs) (\<lambda>js. Inr (j # js)))"

section \<open>The argument of cd\<close>

fun count_spaces :: "byte list \<Rightarrow> nat res" where
  "count_spaces [] = Inl Out_of_bounds"
| "count_spaces (c # s) = (if c \<noteq> 0 \<and> c = 32 then rbind (count_spaces s) (\<lambda>n. Inr (Suc n)) else Inr 0)"

text \<open>The positions count from \<^verbatim>\<open>newDir\<close>; the last one of an empty string is -1.\<close>

function end_position :: "byte list \<Rightarrow> int \<Rightarrow> int \<Rightarrow> int" where
  "end_position s start e = (if e > start \<and> s ! nat e = 32 then end_position s start (e - 1) else e)"
  by pat_completeness auto
termination
  by (relation "measure (\<lambda>(s, start, e). nat (e - start))") auto

declare end_position.simps [simp del]

text \<open>The directory given to \<^verbatim>\<open>chdir\<close>, \<open>None\<close> when nothing is left; \<open>junk\<close> is the new memory.\<close>

definition trimmed_directory :: "(nat \<Rightarrow> byte list) \<Rightarrow> byte list \<Rightarrow> byte list option res" where
  "trimmed_directory junk newDir =
     rbind (count_spaces newDir) (\<lambda>start.
     rbind (strlen newDir) (\<lambda>len.
     let e = end_position newDir (int start) (int len - 1); n = nat (e - int start + 1) in
     if n = 0 then Inr None
     else rbind (strncpy (junk (n + 1)) (drop start newDir) n) (\<lambda>d. Inr (Some (d[n := 0])))))"

section \<open>What is done with a line\<close>

datatype shell_action = Terminate | Show_jobs | Change_directory "byte list" | Run_command

definition EXIT_NAME :: "byte list" where "EXIT_NAME = [101, 120, 105, 116, 0]"
definition JOBS_NAME :: "byte list" where "JOBS_NAME = [106, 111, 98, 115, 0]"
definition CD_NAME :: "byte list" where "CD_NAME = [99, 100, 0]"

definition shell_dispatch :: "byte list option \<Rightarrow> shell_action res" where
  "shell_dispatch line =
     (case line of
        None \<Rightarrow> Inr Terminate
      | Some l \<Rightarrow>
          rbind (strncmp l EXIT_NAME 4) (\<lambda>r. if r = 0 then Inr Terminate
          else rbind (strncmp l JOBS_NAME 4) (\<lambda>r. if r = 0 then Inr Show_jobs
          else rbind (strncmp l CD_NAME 2) (\<lambda>r. if r = 0 then Inr (Change_directory (drop 2 l))
          else Inr Run_command))))"

end
