(* ===== verification/ShellProps.thy ===== *)
theory ShellProps
  imports Shell
begin

text \<open>
  What the shell makes of a line: the ways a word can be spelled, the command lines the parser accepts, what
  happens to the memory of the words, and where the parser and its callers go wrong.
\<close>

section \<open>Spelling\<close>

definition ENDS_WORD :: "byte set" where "ENDS_WORD = insert 0 (BLANKS \<union> OPERATORS)"
definition SPECIAL :: "byte set" where "SPECIAL = ENDS_WORD \<union> {QUOTE, DOUBLE_QUOTE, ESCAPE}"

lemmas char_defs = ENDS_WORD_def SPECIAL_def BLANKS_def OPERATORS_def QUOTE_def DOUBLE_QUOTE_def ESCAPE_def

text \<open>The text between double quotes and what it stands for; the spelling of a word; the text of a line.\<close>

inductive in_double :: "byte list \<Rightarrow> byte list \<Rightarrow> bool" where
  double_end: "in_double [] []"
| double_plain: "c \<notin> {0, DOUBLE_QUOTE, ESCAPE} \<Longrightarrow> in_double q t \<Longrightarrow> in_double (c # q) (c # t)"
| double_escape: "c \<noteq> 0 \<Longrightarrow> in_double q t \<Longrightarrow> in_double (ESCAPE # c # q) (c # t)"

inductive spells :: "byte list \<Rightarrow> byte list \<Rightarrow> bool" where
  spells_end: "spells [] []"
| spells_plain: "c \<notin> SPECIAL \<Longrightarrow> spells s w \<Longrightarrow> spells (c # s) (c # w)"
| spells_escape: "c \<noteq> 0 \<Longrightarrow> spells s w \<Longrightarrow> spells (ESCAPE # c # s) (c # w)"
| spells_single: "0 \<notin> set q \<Longrightarrow> QUOTE \<notin> set q \<Longrightarrow> spells s w \<Longrightarrow> spells (QUOTE # q @ QUOTE # s) (q @ w)"
| spells_double: "in_double q t \<Longrightarrow> spells s w \<Longrightarrow> spells (DOUBLE_QUOTE # q @ DOUBLE_QUOTE # s) (t @ w)"

inductive spells_line :: "byte list \<Rightarrow> word_t list \<Rightarrow> bool" where
  line_end: "spells_line [] []"
| line_blank: "c \<in> BLANKS \<Longrightarrow> spells_line l ws \<Longrightarrow> spells_line (c # l) ws"
| line_operator: "c \<in> OPERATORS \<Longrightarrow> spells_line l ws \<Longrightarrow> spells_line (c # l) (Literal c # ws)"
| line_word: "spells s w \<Longrightarrow> s \<noteq> [] \<Longrightarrow> l = [] \<or> l ! 0 \<in> ENDS_WORD \<Longrightarrow> spells_line l ws \<Longrightarrow>
    spells_line (s @ l) (Dup w # ws)"

section \<open>The words of a spelled line\<close>

lemma single_loop_reads:
  "0 \<notin> set q \<Longrightarrow> QUOTE \<notin> set q \<Longrightarrow> length u + length q \<le> cap \<Longrightarrow>
     single_quote_loop cap (q @ QUOTE # r) u = Inr (r, u @ q)"
  by (induction q arbitrary: u) (auto simp: put_buf_def)

lemma double_loop_reads:
  "in_double q t \<Longrightarrow> length u + length t \<le> cap \<Longrightarrow>
     double_quote_loop cap (q @ DOUBLE_QUOTE # r) u = Inr (r, u @ t)"
  by (induction q t arbitrary: u rule: in_double.induct) (auto simp: put_buf_def DOUBLE_QUOTE_def ESCAPE_def)

lemma double_facts: "in_double q t \<Longrightarrow> length t \<le> length q \<and> 0 \<notin> set t \<and> 0 \<notin> set q"
  by (induction rule: in_double.induct) (auto simp: ESCAPE_def)

lemma spells_length: "spells s w \<Longrightarrow> length w \<le> length s"
  by (induction rule: spells.induct) (auto dest: double_facts)

lemma spells_no_zero: "spells s w \<Longrightarrow> 0 \<notin> set w \<and> 0 \<notin> set s"
  by (induction rule: spells.induct) (auto simp: char_defs dest: double_facts)

lemma spells_begin: "spells s w \<Longrightarrow> s \<noteq> [] \<Longrightarrow> s ! 0 \<notin> ENDS_WORD"
  by (cases rule: spells.cases) (auto simp: char_defs)

lemma read_word_reads:
  assumes "spells s w" "r \<noteq> []" "r ! 0 \<in> ENDS_WORD" "length u + length w < cap"
  shows "read_word cap (s @ r) u = Inr (r, u @ w)"
  using assms
proof (induction s w arbitrary: u rule: spells.induct)
  case spells_end
  then show ?case
    by (cases r) (auto simp: read_word.simps word_round_def put_buf_def ENDS_WORD_def)
next
  case (spells_plain c s w)
  then have "word_round cap (c # s @ r) u = Inr (Some (s @ r, u @ [c]))"
    by (auto simp: word_round_def put_buf_def SPECIAL_def ENDS_WORD_def)
  then show ?case using spells_plain.IH [of "u @ [c]"] spells_plain.prems by (simp add: read_word.simps [of cap "c # s @ r"])
next
  case (spells_escape c s w)
  then have "word_round cap (ESCAPE # c # s @ r) u = Inr (Some (s @ r, u @ [c]))"
    by (auto simp: word_round_def put_buf_def char_defs)
  then show ?case using spells_escape.IH [of "u @ [c]"] spells_escape.prems by (simp add: read_word.simps [of cap "ESCAPE # c # s @ r"])
next
  case (spells_single q s w)
  then have "word_round cap (QUOTE # q @ QUOTE # s @ r) u = Inr (Some (s @ r, u @ q))"
    using single_loop_reads [of q u cap "s @ r"] by (auto simp: word_round_def read_single_quote_def char_defs)
  then show ?case using spells_single.IH [of "u @ q"] spells_single.prems
    by (simp add: read_word.simps [of cap "QUOTE # q @ QUOTE # s @ r"])
next
  case (spells_double q t s w)
  then have "word_round cap (DOUBLE_QUOTE # q @ DOUBLE_QUOTE # s @ r) u = Inr (Some (s @ r, u @ t))"
    using double_loop_reads [of q t u cap "s @ r"] by (auto simp: word_round_def read_double_quote_def char_defs)
  then show ?case using spells_double.IH [of "u @ t"] spells_double.prems
    by (simp add: read_word.simps [of cap "DOUBLE_QUOTE # q @ DOUBLE_QUOTE # s @ r"])
qed

lemma split_loop_spelled: "spells_line l ws \<Longrightarrow> length l < cap \<Longrightarrow> split_loop cap (l @ 0 # v) = Inr ws"
proof (induction l ws rule: spells_line.induct)
  case (line_word s w l ws)
  obtain c s1 where s: "s = c # s1" using line_word.hyps(2) by (cases s) auto
  have c: "c \<notin> ENDS_WORD" using spells_begin [OF line_word.hyps(1)] s by simp
  have "read_word cap (s @ l @ 0 # v) [] = Inr (l @ 0 # v, [] @ w)"
    using line_word.hyps(1) by (rule read_word_reads)
      (use line_word.hyps(3) line_word.prems spells_length [OF line_word.hyps(1)] in \<open>auto simp: ENDS_WORD_def nth_append\<close>)
  moreover have "takeWhile (\<lambda>x. x \<noteq> 0) w = w"
    using spells_no_zero [OF line_word.hyps(1)] by (auto simp: takeWhile_eq_all_conv)
  ultimately show ?case using c s line_word.IH line_word.prems by (auto simp: ENDS_WORD_def)
qed (auto simp: char_defs)

lemma line_no_zero: "spells_line l ws \<Longrightarrow> 0 \<notin> set l"
  by (induction rule: spells_line.induct) (auto simp: char_defs dest: spells_no_zero)

lemma split_spelled: "spells_line l ws \<Longrightarrow> split_in_words (l @ 0 # v) = Inr ws"
proof -
  assume a: "spells_line l ws"
  then have "cstring (l @ 0 # v) l" by (auto simp: cstring_def dest: line_no_zero)
  then show ?thesis using split_loop_spelled [OF a, of "length l + 1" v] by (simp add: split_in_words_def strlen_cstring)
qed

section \<open>Command lines\<close>

datatype item = Arg "byte list" | Input "byte list" | Output "byte list"

fun item_words :: "item \<Rightarrow> word_t list" where
  "item_words (Arg w) = [Dup w]"
| "item_words (Input f) = [Literal 60, Dup f]"
| "item_words (Output f) = [Literal 62, Dup f]"

fun item_text :: "item \<Rightarrow> byte list" where
  "item_text (Arg w) = w"
| "item_text (Input f) = f"
| "item_text (Output f) = f"

fun args_of :: "item list \<Rightarrow> word_t list" where
  "args_of [] = []"
| "args_of (Arg w # is) = Dup w # args_of is"
| "args_of (Input f # is) = args_of is"
| "args_of (Output f # is) = args_of is"

fun inputs_of :: "item list \<Rightarrow> word_t list" where
  "inputs_of [] = []"
| "inputs_of (Input f # is) = Dup f # inputs_of is"
| "inputs_of (Arg w # is) = inputs_of is"
| "inputs_of (Output f # is) = inputs_of is"

fun outputs_of :: "item list \<Rightarrow> word_t list" where
  "outputs_of [] = []"
| "outputs_of (Output f # is) = Dup f # outputs_of is"
| "outputs_of (Arg w # is) = outputs_of is"
| "outputs_of (Input f # is) = outputs_of is"

definition first_of :: "'a list \<Rightarrow> 'a option" where
  "first_of xs = (case xs of [] \<Rightarrow> None | x # _ \<Rightarrow> Some x)"

text \<open>The commands of a line, each a list of arguments and redirections, joined by the pipe sign.\<close>

fun pipe_words :: "item list list \<Rightarrow> word_t list" where
  "pipe_words [] = []"
| "pipe_words [st] = concat (map item_words st)"
| "pipe_words (st # st' # sts) = concat (map item_words st) @ Literal 124 # pipe_words (st' # sts)"

definition line_words :: "item list list \<Rightarrow> bool \<Rightarrow> word_t list" where
  "line_words sts bg = pipe_words sts @ (if bg then [Literal 38] else [])"

definition line_ok :: "item list list \<Rightarrow> bool \<Rightarrow> bool" where
  "line_ok sts bg \<longleftrightarrow>
     (\<forall>st \<in> set sts. args_of st \<noteq> [] \<and> (\<forall>i \<in> set st. \<not> is_operator (Dup (item_text i))))
     \<and> (\<forall>st \<in> set (tl sts). \<exists>w is. st = Arg w # is)
     \<and> length (inputs_of (concat sts)) \<le> 1 \<and> length (outputs_of (concat sts)) \<le> 1
     \<and> (bg \<longrightarrow> sts \<noteq> [])"

lemma items_append [simp]:
  "args_of (xs @ ys) = args_of xs @ args_of ys"
  "inputs_of (xs @ ys) = inputs_of xs @ inputs_of ys"
  "outputs_of (xs @ ys) = outputs_of xs @ outputs_of ys"
  by (induction xs rule: args_of.induct; simp)+

text \<open>The new value of a redirection.\<close>

definition redirected :: "'a list \<Rightarrow> 'a option \<Rightarrow> 'a option" where
  "redirected fs old = (case fs of [] \<Rightarrow> old | f # _ \<Rightarrow> Some f)"

lemma redirected_append: "length xs + length ys \<le> 1 \<Longrightarrow> redirected ys (redirected xs old) = redirected (xs @ ys) old"
  by (cases xs; cases ys) (simp_all add: redirected_def)

lemma operator_chars: "\<not> is_operator w \<Longrightarrow> first_char w \<noteq> 60 \<and> first_char w \<noteq> 62 \<and> first_char w \<noteq> 124 \<and> first_char w \<noteq> 38"
  by (auto simp: is_operator_def OPERATORS_def)

lemma first_char_Literal [simp]: "first_char (Literal c) = c"
  by (simp add: first_char_def)

lemma parse_plain:
  "\<not> is_operator w \<Longrightarrow> parse_loop (w # ws) p = parse_loop ws (p\<lparr>ps_cmd := ps_cmd p @ [w]\<rparr>)"
  by (simp add: parse_round_def operator_chars)

lemma parse_items:
  assumes "\<forall>i \<in> set is. \<not> is_operator (Dup (item_text i))"
    "length (inputs_of is) + length (opt_list (ps_in p)) \<le> 1" "length (outputs_of is) + length (opt_list (ps_out p)) \<le> 1"
  shows "parse_loop (concat (map item_words is) @ ws) p =
    parse_loop ws (p\<lparr>ps_in := redirected (inputs_of is) (ps_in p), ps_out := redirected (outputs_of is) (ps_out p),
      ps_cmd := ps_cmd p @ args_of is\<rparr>)"
  using assms
proof (induction "is" arbitrary: p)
  case Nil
  then show ?case by (simp add: redirected_def)
next
  case (Cons i "is")
  show ?case
  proof (cases i)
    case (Arg w)
    then have "\<not> is_operator (Dup w)" using Cons.prems by simp
    then show ?thesis using Cons.prems Arg Cons.IH [of "p\<lparr>ps_cmd := ps_cmd p @ [Dup w]\<rparr>"]
      by (simp add: parse_plain del: parse_loop.simps)
  next
    case (Input f)
    then have f: "\<not> is_operator (Dup f)" "ps_in p = None" "inputs_of is = []"
      using Cons.prems by (auto simp: opt_list_def split: option.splits)
    then have "parse_loop (Literal 60 # Dup f # concat (map item_words is) @ ws) p =
        parse_loop (concat (map item_words is) @ ws) (p\<lparr>ps_in := Some (Dup f)\<rparr>)"
      by (simp add: parse_round_def redirect_def)
    then show ?thesis using Cons.prems Input f Cons.IH [of "p\<lparr>ps_in := Some (Dup f)\<rparr>"]
      by (simp add: redirected_def opt_list_def)
  next
    case (Output f)
    then have f: "\<not> is_operator (Dup f)" "ps_out p = None" "outputs_of is = []"
      using Cons.prems by (auto simp: opt_list_def split: option.splits)
    then have "parse_loop (Literal 62 # Dup f # concat (map item_words is) @ ws) p =
        parse_loop (concat (map item_words is) @ ws) (p\<lparr>ps_out := Some (Dup f)\<rparr>)"
      by (simp add: parse_round_def redirect_def)
    then show ?thesis using Cons.prems Output f Cons.IH [of "p\<lparr>ps_out := Some (Dup f)\<rparr>"]
      by (simp add: redirected_def opt_list_def)
  qed
qed

lemma parse_pipe:
  assumes "sts \<noteq> []" "\<forall>st \<in> set sts. args_of st \<noteq> [] \<and> (\<forall>i \<in> set st. \<not> is_operator (Dup (item_text i)))"
    "\<forall>st \<in> set (tl sts). \<exists>w is. st = Arg w # is" "ps_cmd p = []"
    "length (inputs_of (concat sts)) + length (opt_list (ps_in p)) \<le> 1"
    "length (outputs_of (concat sts)) + length (opt_list (ps_out p)) \<le> 1"
  shows "parse_loop (pipe_words sts @ ws) p =
    parse_loop ws (p\<lparr>ps_in := redirected (inputs_of (concat sts)) (ps_in p),
      ps_out := redirected (outputs_of (concat sts)) (ps_out p),
      ps_seq := ps_seq p @ map args_of (butlast sts), ps_cmd := args_of (last sts)\<rparr>)"
  using assms
proof (induction sts arbitrary: p rule: pipe_words.induct)
  case (2 st)
  then show ?case using parse_items [of st p ws] by simp
next
  case (3 st st' sts)
  let ?p = "p\<lparr>ps_in := redirected (inputs_of st) (ps_in p), ps_out := redirected (outputs_of st) (ps_out p), ps_cmd := args_of st\<rparr>"
  let ?q = "?p\<lparr>ps_seq := ps_seq p @ [args_of st], ps_cmd := []\<rparr>"
  have 1: "parse_loop (pipe_words (st # st' # sts) @ ws) p = parse_loop (Literal 124 # pipe_words (st' # sts) @ ws) ?p"
    using "3.prems" parse_items [of st p "Literal 124 # pipe_words (st' # sts) @ ws"] by simp
  obtain w "is" where st': "st' = Arg w # is" using "3.prems"(3) by auto
  have w: "\<not> is_operator (Dup w)" using "3.prems"(2) st' by simp
  have "\<exists>tl. pipe_words (st' # sts) = Dup w # tl" using st' by (cases sts) simp_all
  then obtain tl where tl: "pipe_words (st' # sts) @ ws = Dup w # tl" by auto
  have 2: "parse_loop (Literal 124 # pipe_words (st' # sts) @ ws) ?p = parse_loop (pipe_words (st' # sts) @ ws) ?q"
    unfolding tl using "3.prems"(2) w by (simp add: parse_round_def del: parse_loop.simps(2)) (simp add: parse_round_def)
  have 3: "parse_loop (pipe_words (st' # sts) @ ws) ?q = parse_loop ws (?q\<lparr>
      ps_in := redirected (inputs_of (concat (st' # sts))) (ps_in ?q),
      ps_out := redirected (outputs_of (concat (st' # sts))) (ps_out ?q),
      ps_seq := ps_seq ?q @ map args_of (butlast (st' # sts)), ps_cmd := args_of (last (st' # sts))\<rparr>)"
    using "3.prems" by (intro "3.IH") (auto simp: redirected_def opt_list_def split: list.splits option.splits)
  have "redirected (inputs_of (concat (st' # sts))) (redirected (inputs_of st) (ps_in p)) =
      redirected (inputs_of (concat (st # st' # sts))) (ps_in p)"
    "redirected (outputs_of (concat (st' # sts))) (redirected (outputs_of st) (ps_out p)) =
      redirected (outputs_of (concat (st # st' # sts))) (ps_out p)"
    using redirected_append [of "inputs_of st" "inputs_of (concat (st' # sts))"]
      redirected_append [of "outputs_of st" "outputs_of (concat (st' # sts))"] "3.prems"(5,6) by simp_all
  then show ?case unfolding 1 2 3 by simp
qed simp

lemma parse_words_line:
  assumes "line_ok sts bg"
  shows "parse_words (line_words sts bg) =
    (\<lparr>cl_err = None, cl_in = first_of (inputs_of (concat sts)), cl_out = first_of (outputs_of (concat sts)), cl_bg = bg,
      cl_seq = Some (map args_of sts)\<rparr>, [])"
proof (cases "sts = []")
  case True
  then show ?thesis using assms by (simp add: line_ok_def line_words_def parse_words_def start_state_def first_of_def)
next
  case False
  let ?p = "start_state\<lparr>ps_in := redirected (inputs_of (concat sts)) None, ps_out := redirected (outputs_of (concat sts)) None,
      ps_seq := map args_of (butlast sts), ps_cmd := args_of (last sts)\<rparr>"
  have l: "args_of (last sts) \<noteq> []" using assms False by (simp add: line_ok_def)
  have "parse_loop (line_words sts bg) start_state = parse_loop (if bg then [Literal 38] else []) ?p"
    using assms False parse_pipe [of sts start_state "if bg then [Literal 38] else []"]
    by (simp add: line_ok_def line_words_def start_state_def opt_list_def del: parse_loop.simps)
  also have "... = (None, ?p\<lparr>ps_bg := bg\<rparr>)"
    using l by (cases bg) (simp_all add: parse_round_def start_state_def)
  finally have r: "parse_loop (line_words sts bg) start_state = (None, ?p\<lparr>ps_bg := bg\<rparr>)" .
  have "map args_of (butlast sts) @ [args_of (last sts)] = map args_of sts" 
    using False by (cases sts rule: rev_cases) simp_all
  then show ?thesis unfolding parse_words_def r using l
    by (simp add: first_of_def redirected_def start_state_def split: list.splits)
qed

section \<open>No access outside the line and the buffer\<close>

text \<open>
  The rest of the line ends with two zeros, or with one when nothing is in front of it: that is what is left
  behind a backslash that takes the first zero.
\<close>

definition ends_twice :: "byte list \<Rightarrow> byte list \<Rightarrow> bool" where
  "ends_twice cur t \<longleftrightarrow> 0 \<notin> set t \<and> (\<exists>v. cur = t @ 0 # v \<and> (t \<noteq> [] \<longrightarrow> (\<exists>u. v = 0 # u)))"

lemma ends_twice_Nil [simp]: "ends_twice cur [] \<longleftrightarrow> (\<exists>v. cur = 0 # v)"
  by (auto simp: ends_twice_def)

lemma ends_twice_Cons: "ends_twice cur (c # t) \<longleftrightarrow> c \<noteq> 0 \<and> (\<exists>r. cur = c # r \<and> ends_twice r t \<and> (t = [] \<longrightarrow> (\<exists>u. r = 0 # 0 # u)))"
  by (auto simp: ends_twice_def)

text \<open>
  What a step may return: the rest of the line still ends that way, and no more has been written than read.
\<close>

definition within_buf :: "nat \<Rightarrow> byte list \<Rightarrow> byte list \<Rightarrow> nat \<Rightarrow> bool" where
  "within_buf cap cur w k \<longleftrightarrow> (\<exists>t. ends_twice cur t \<and> length t + length w < cap \<and> length t + length w \<le> k)"

lemma single_loop_fits:
  "ends_twice cur t \<Longrightarrow> length t + length w < cap \<Longrightarrow>
     \<exists>r w1. single_quote_loop cap cur w = Inr (r, w1) \<and> within_buf cap r w1 (length t + length w)"
proof (induction t arbitrary: cur w)
  case Nil
  then show ?case by (fastforce simp: within_buf_def QUOTE_def)
next
  case (Cons c t)
  then obtain r where r: "cur = c # r" "c \<noteq> 0" "ends_twice r t" by (auto simp: ends_twice_Cons)
  show ?case
  proof (cases "c = QUOTE")
    case True
    then show ?thesis using r Cons.prems by (auto simp: within_buf_def intro!: exI [of _ t])
  next
    case False
    then show ?thesis using r Cons.prems Cons.IH [of r "w @ [c]"] by (auto simp: put_buf_def)
  qed
qed

lemma fits_mono: "within_buf cap cur w k \<Longrightarrow> k \<le> k' \<Longrightarrow> within_buf cap cur w k'"
  by (auto simp: within_buf_def)

lemma fitsI: "ends_twice cur t \<Longrightarrow> length t + length w < cap \<Longrightarrow> length t + length w \<le> k \<Longrightarrow> within_buf cap cur w k"
  by (auto simp: within_buf_def)

lemma fits_Suc: "within_buf cap cur w k \<Longrightarrow> within_buf cap cur w (Suc k)"
  by (auto simp: within_buf_def)

lemma double_loop_fits:
  "ends_twice cur t \<Longrightarrow> length t + length w < cap \<Longrightarrow>
     \<exists>r w1. double_quote_loop cap cur w = Inr (r, w1) \<and> within_buf cap r w1 (length t + length w)"
proof (induction "length t" arbitrary: t cur w rule: less_induct)
  case less
  show ?case
  proof (cases t)
    case Nil
    then show ?thesis using less.prems by (fastforce simp: within_buf_def DOUBLE_QUOTE_def ESCAPE_def)
  next
    case (Cons c t1)
    then obtain r where r: "cur = c # r" "c \<noteq> 0" "ends_twice r t1" "t1 = [] \<Longrightarrow> \<exists>u. r = 0 # 0 # u"
      using less.prems by (auto simp: ends_twice_Cons)
    consider "c = DOUBLE_QUOTE" | "c = ESCAPE" "c \<noteq> DOUBLE_QUOTE" "t1 = []" | x t2 where "c = ESCAPE" "c \<noteq> DOUBLE_QUOTE" "t1 = x # t2"
      | "c \<noteq> ESCAPE" "c \<noteq> DOUBLE_QUOTE" by (cases t1) auto
    then show ?thesis
    proof cases
      case 1
      then show ?thesis using r less.prems Cons by (auto simp: within_buf_def intro!: exI [of _ t1])
    next
      case 2
      then obtain u where "r = 0 # 0 # u" using r by auto
      then show ?thesis using 2 r less.prems Cons
        by (auto simp: put_buf_def within_buf_def DOUBLE_QUOTE_def ESCAPE_def intro!: exI [of _ "[]"])
    next
      case (3 x t2)
      then obtain r2 where r2: "r = x # r2" "ends_twice r2 t2" using r by (auto simp: ends_twice_Cons)
      obtain r3 w3 where "double_quote_loop cap r2 (w @ [x]) = Inr (r3, w3)" "within_buf cap r3 w3 (length t2 + length (w @ [x]))"
        using less.hyps [of t2 r2 "w @ [x]"] less.prems Cons 3 r2 by auto
      then show ?thesis using 3 r r2 less.prems Cons by (auto simp: put_buf_def elim: fits_mono)
    next
      case 4
      obtain r3 w3 where "double_quote_loop cap r (w @ [c]) = Inr (r3, w3)" "within_buf cap r3 w3 (length t1 + length (w @ [c]))"
        using less.hyps [of t1 r "w @ [c]"] less.prems Cons 4 r by auto
      then show ?thesis using 4 r less.prems Cons by (auto simp: put_buf_def)
    qed
  qed
qed

lemma word_round_fits:
  assumes "ends_twice cur t" "length t + length w < cap"
  shows "word_round cap cur w = Inr None \<or>
    (\<exists>r w1. word_round cap cur w = Inr (Some (r, w1)) \<and> within_buf cap r w1 (length t + length w))"
proof (cases t)
  case Nil
  then show ?thesis using assms by (auto simp: word_round_def)
next
  case (Cons c t1)
  then obtain r where r: "cur = c # r" "c \<noteq> 0" "ends_twice r t1" "t1 = [] \<Longrightarrow> \<exists>u. r = 0 # 0 # u"
    using assms by (auto simp: ends_twice_Cons)
  consider "c \<in> BLANKS \<or> c \<in> OPERATORS" | "c \<notin> BLANKS" "c \<notin> OPERATORS" "c = QUOTE"
    | "c \<notin> BLANKS" "c \<notin> OPERATORS" "c \<noteq> QUOTE" "c = DOUBLE_QUOTE"
    | "c \<notin> BLANKS" "c \<notin> OPERATORS" "c \<noteq> QUOTE" "c \<noteq> DOUBLE_QUOTE" "c = ESCAPE"
    | "c \<notin> BLANKS" "c \<notin> OPERATORS" "c \<noteq> QUOTE" "c \<noteq> DOUBLE_QUOTE" "c \<noteq> ESCAPE" by blast
  then show ?thesis
  proof cases
    case 1
    then show ?thesis using r by (auto simp: word_round_def)
  next
    case 2
    then show ?thesis using r single_loop_fits [OF r(3), of w cap] assms(2) Cons
      by (auto simp: word_round_def read_single_quote_def intro: fits_Suc)
  next
    case 3
    then show ?thesis using r double_loop_fits [OF r(3), of w cap] assms(2) Cons
      by (auto simp: word_round_def read_double_quote_def intro: fits_Suc)
  next
    case 4
    show ?thesis
    proof (cases t1)
      case Nil
      then obtain u where u: "r = 0 # 0 # u" using r by auto
      then have "word_round cap cur w = Inr (Some (0 # u, w @ [0]))"
        using 4 r assms(2) Cons by (auto simp: word_round_def put_buf_def)
      moreover have "within_buf cap (0 # u) (w @ [0]) (length t + length w)"
        using assms(2) Cons by (auto simp: within_buf_def intro!: exI [of _ "[]"])
      ultimately show ?thesis by blast
    next
      case (Cons x t2)
      then obtain r2 where r2: "r = x # r2" "ends_twice r2 t2" using r by (auto simp: ends_twice_Cons)
      have "word_round cap cur w = Inr (Some (r2, w @ [x]))"
        using 4 r r2 assms(2) Cons \<open>t = c # t1\<close> by (auto simp: word_round_def put_buf_def)
      moreover have "within_buf cap r2 (w @ [x]) (length t + length w)"
        using r2(2) by (rule fitsI) (use assms(2) Cons \<open>t = c # t1\<close> in auto)
      ultimately show ?thesis by blast
    qed
  next
    case 5
    then show ?thesis using r assms(2) Cons by (auto simp: word_round_def put_buf_def intro: fitsI)
  qed
qed

lemma read_word_fits:
  "ends_twice cur t \<Longrightarrow> length t + length w < cap \<Longrightarrow>
     \<exists>r w1. read_word cap cur w = Inr (r, w1) \<and> within_buf cap r w1 (length t + length w)"
proof (induction cap cur w arbitrary: t rule: read_word.induct)
  case (1 cap cur w)
  from word_round_fits [OF "1.prems"] show ?case
  proof (elim disjE exE conjE)
    assume n: "word_round cap cur w = Inr None"
    then show ?thesis using "1.prems" read_word.simps [of cap cur w]
      by (auto simp: put_buf_def within_buf_def intro!: exI [of _ t])
  next
    fix r w1
    assume s: "word_round cap cur w = Inr (Some (r, w1))" and f: "within_buf cap r w1 (length t + length w)"
    then obtain t1 where t1: "ends_twice r t1" "length t1 + length w1 < cap" "length t1 + length w1 \<le> length t + length w"
      by (auto simp: within_buf_def)
    from "1.IH" [OF s refl refl t1(1,2)] show ?thesis
      using s t1(3) read_word.simps [of cap cur w] by (auto elim: fits_mono)
  qed
qed

lemma split_loop_fits: "ends_twice cur t \<Longrightarrow> length t < cap \<Longrightarrow> \<exists>ws. split_loop cap cur = Inr ws"
proof (induction "length cur" arbitrary: cur t rule: less_induct)
  case less
  show ?case
  proof (cases t)
    case Nil
    then show ?thesis using less.prems by auto
  next
    case (Cons c t1)
    then obtain r where r: "cur = c # r" "c \<noteq> 0" "ends_twice r t1" using less.prems by (auto simp: ends_twice_Cons)
    show ?thesis
    proof (cases "c \<in> BLANKS \<or> c \<in> OPERATORS")
      case True
      then show ?thesis using r less.hyps [of r t1] less.prems Cons by auto
    next
      case False
      obtain r1 w1 where w: "read_word cap cur [] = Inr (r1, w1)" "within_buf cap r1 w1 (length t)"
        using read_word_fits [of cur t "[]" cap] less.prems by auto
      then have "length r1 < length cur" using read_word_shorter r False by blast
      moreover obtain t2 where "ends_twice r1 t2" "length t2 < cap" using w(2) by (auto simp: within_buf_def)
      ultimately show ?thesis using less.hyps [of r1 t2] w r False by auto
    qed
  qed
qed

lemma readline_buffer:
  assumes "length typed < LINE_LEN"
  shows "readline typed = typed @ 0 # replicate (LINE_LEN - length typed - 1) 0"
proof -
  obtain n where n: "LINE_LEN - length typed = Suc n" using assms by (metis Suc_diff_Suc)
  then show ?thesis using assms by (simp add: readline_def poke_def)
qed

lemma readline_words:
  assumes "0 \<notin> set typed" "length typed + 1 < LINE_LEN"
  shows "\<exists>ws. split_in_words (readline typed) = Inr ws"
proof -
  obtain n where n: "LINE_LEN - length typed - 1 = Suc n" using assms(2) by (metis Suc_diff_Suc diff_diff_left)
  then have r: "readline typed = typed @ 0 # 0 # replicate n 0" using assms by (simp add: readline_buffer)
  then have "cstring (readline typed) typed" "ends_twice (readline typed) typed"
    using assms(1) by (auto simp: cstring_def ends_twice_def)
  then show ?thesis using split_loop_fits [of "readline typed" typed] by (simp add: split_in_words_def strlen_cstring)
qed

text \<open>A line that fills the buffer has no terminator.\<close>

lemma strlen_unterminated: "0 \<notin> set s \<Longrightarrow> strlen s = Inl Out_of_bounds"
  by (induction s) auto

lemma readline_full: "0 \<notin> set typed \<Longrightarrow> LINE_LEN \<le> length typed \<Longrightarrow> split_in_words (readline typed) = Inl Out_of_bounds"
proof -
  assume a: "0 \<notin> set typed" "LINE_LEN \<le> length typed"
  then have "0 \<notin> set (take LINE_LEN typed)" by (auto dest: in_set_takeD)
  then show ?thesis using a by (simp add: split_in_words_def readline_def poke_def strlen_unterminated)
qed

section \<open>The memory of the words\<close>

text \<open>The words the variables of the parser refer to.\<close>

definition held :: "parse_state \<Rightarrow> word_t multiset" where
  "held p = mset (concat (ps_seq p) @ ps_cmd p @ opt_list (ps_in p) @ opt_list (ps_out p))"

definition copied :: "word_t list \<Rightarrow> word_t list" where
  "copied ws = filter (\<lambda>w. \<not> is_operator w) ws"

text \<open>What the loop keeps: an ampersand is the last word, and a command follows a pipe sign.\<close>

definition loop_ok :: "word_t list \<Rightarrow> parse_state \<Rightarrow> bool" where
  "loop_ok ws p \<longleftrightarrow>
     (ps_bg p \<longrightarrow> ws = [])
     \<and> (ps_seq p \<noteq> [] \<and> ps_cmd p = [] \<longrightarrow> (\<exists>v vs. ws = v # vs \<and> \<not> is_operator v))
     \<and> [] \<notin> set (ps_seq p)"

lemma first_char_operator: "first_char w \<in> {60, 62, 38, 124} \<Longrightarrow> is_operator w"
  by (auto simp: is_operator_def OPERATORS_def)

lemma operator_cases: "is_operator w \<longleftrightarrow> first_char w = 60 \<or> first_char w = 62 \<or> first_char w = 38 \<or> first_char w = 124"
  by (auto simp: is_operator_def OPERATORS_def)

lemma redirect_cases:
  "redirect old a b c ws = Inr (f, rest) \<Longrightarrow> old = None \<and> ws = f # rest \<and> \<not> is_operator f"
  by (auto simp: redirect_def split: if_splits list.splits)

lemma parse_round_keeps:
  assumes "parse_round w ws p = Inr (rest, q)" "loop_ok (w # ws) p"
  shows "loop_ok rest q \<and> held q + mset (copied rest) = held p + mset (copied (w # ws))"
proof -
  have bg: "\<not> ps_bg p" and seq: "ps_seq p \<noteq> [] \<and> ps_cmd p = [] \<Longrightarrow> \<not> is_operator w" "[] \<notin> set (ps_seq p)"
    using assms(2) by (auto simp: loop_ok_def)
  consider "first_char w = 60" | "first_char w = 62" | "first_char w = 38" | "first_char w = 124" | "\<not> is_operator w"
    by (auto simp: operator_cases)
  then show ?thesis
  proof cases
    case 1
    then obtain f where f: "ps_in p = None" "ws = f # rest" "\<not> is_operator f" "q = p\<lparr>ps_in := Some f\<rparr>"
      using assms(1) by (auto simp: parse_round_def split: sum.splits dest: redirect_cases)
    then show ?thesis using bg seq 1 by (auto simp: loop_ok_def held_def copied_def operator_cases opt_list_def)
  next
    case 2
    then obtain f where f: "ps_out p = None" "ws = f # rest" "\<not> is_operator f" "q = p\<lparr>ps_out := Some f\<rparr>"
      using assms(1) by (auto simp: parse_round_def split: sum.splits dest: redirect_cases)
    then show ?thesis using bg seq 2 by (auto simp: loop_ok_def held_def copied_def operator_cases opt_list_def)
  next
    case 3
    then have "ws = []" "rest = []" "ps_cmd p \<noteq> []" "q = p\<lparr>ps_bg := True\<rparr>"
      using assms(1) by (auto simp: parse_round_def split: if_splits)
    then show ?thesis using 3 seq by (auto simp: loop_ok_def held_def copied_def operator_cases)
  next
    case 4
    then obtain v vs where "ps_cmd p \<noteq> []" "ws = v # vs" "\<not> is_operator v" "rest = ws" "q = p\<lparr>ps_seq := ps_seq p @ [ps_cmd p], ps_cmd := []\<rparr>"
      using assms(1) by (auto simp: parse_round_def split: if_splits list.splits)
    then show ?thesis using 4 bg seq by (auto simp: loop_ok_def held_def copied_def operator_cases)
  next
    case 5
    then have "rest = ws" "q = p\<lparr>ps_cmd := ps_cmd p @ [w]\<rparr>" using assms(1) by (auto simp: parse_round_def operator_cases)
    then show ?thesis using 5 bg seq by (auto simp: loop_ok_def held_def copied_def)
  qed
qed

lemma parse_round_error: "parse_round w ws p = Inl e \<Longrightarrow> \<not> ps_bg p \<Longrightarrow> is_operator w \<and> e \<noteq> Only_one_ampersand"
  by (auto simp: parse_round_def redirect_def operator_cases split: if_splits list.splits)

lemma parse_loop_keeps:
  assumes "loop_ok ws p"
  shows "case parse_loop ws p of
      (None, q) \<Rightarrow> loop_ok [] q \<and> held q = held p + mset (copied ws)
    | (Some (e, rest), q) \<Rightarrow> \<not> ps_bg q \<and> e \<noteq> Only_one_ampersand \<and> held q + mset (copied rest) = held p + mset (copied ws)"
  using assms
proof (induction ws p rule: parse_loop.induct)
  case (2 w ws p)
  show ?case
  proof (cases "parse_round w ws p")
    case (Inl e)
    have "\<not> ps_bg p" using 2(2) by (simp add: loop_ok_def)
    then show ?thesis using Inl parse_round_error [OF Inl] by (simp add: copied_def)
  next
    case (Inr r)
    obtain rest q where r: "r = (rest, q)" by (cases r)
    have "loop_ok rest q \<and> held q + mset (copied rest) = held p + mset (copied (w # ws))"
      using Inr r 2(2) by (intro parse_round_keeps) simp_all
    then show ?thesis using 2(1) [OF Inr] Inr r by (auto split: prod.splits option.splits)
  qed
qed (simp add: copied_def)

section \<open>The argument of cd and the names of the built-in commands\<close>

definition strip_end :: "byte list \<Rightarrow> byte list" where
  "strip_end s = rev (dropWhile (\<lambda>c. c = 32) (rev s))"

definition strip :: "byte list \<Rightarrow> byte list" where
  "strip s = strip_end (dropWhile (\<lambda>c. c = 32) s)"

lemma count_spaces_cstring: "cstring a s \<Longrightarrow> count_spaces a = Inr (length (takeWhile (\<lambda>c. c = 32) s))"
  by (induction s arbitrary: a) auto

lemma strip_end_snoc: "strip_end (s @ [c]) = (if c = 32 then strip_end s else s @ [c])"
  by (simp add: strip_end_def)

lemma end_position_done: "e \<le> start \<Longrightarrow> end_position s start e = e"
  by (subst end_position.simps) simp

lemma end_position_strip:
  assumes "x \<noteq> 32"
  shows "end_position (p @ x # t @ r) (int (length p)) (int (length p + length t)) + 1 = int (length p + length (strip_end (x # t)))"
proof (induction t arbitrary: r rule: rev_induct)
  case Nil
  then show ?case using assms strip_end_snoc [of "[]" x] by (simp add: end_position_done)
next
  case (snoc y t)
  have n: "nat (1 + (int (length p) + int (length t))) = Suc (length p + length t)" by simp
  have y: "(p @ x # t @ y # r) ! Suc (length p + length t) = y" by (simp add: nth_append)
  have e: "end_position (p @ x # (t @ [y]) @ r) (int (length p)) (int (length p + length (t @ [y]))) =
      (if y = 32 then end_position (p @ x # t @ y # r) (int (length p)) (int (length p + length t)) else int (length p + length (t @ [y])))"
    by (subst end_position.simps) (simp add: n y)
  show ?case
    unfolding e using snoc.IH [of "y # r"] strip_end_snoc [of "x # t" y] by (cases "y = 32") simp_all
qed

lemma trimmed_cstring:
  assumes "cstring a s" "\<And>n. length (junk n) = n"
  shows "trimmed_directory junk a = Inr (if strip s = [] then None else Some (strip s @ [0]))"
proof (cases "dropWhile (\<lambda>c. c = 32) s")
  case Nil
  then have "length (takeWhile (\<lambda>c. c = 32) s) = length s" by (metis append_Nil2 takeWhile_dropWhile_id)
  moreover have "strip s = []" by (simp only: strip_def strip_end_def Nil rev.simps dropWhile.simps)
  ultimately show ?thesis using assms
    by (simp add: trimmed_directory_def count_spaces_cstring strlen_cstring end_position_done)
next
  case (Cons x t)
  let ?p = "takeWhile (\<lambda>c. c = 32) s"
  obtain v where a: "a = s @ 0 # v" "0 \<notin> set s" using assms(1) by (auto simp: cstring_def)
  have s: "s = ?p @ x # t" using Cons by (metis takeWhile_dropWhile_id)
  have x: "x \<noteq> 32" using hd_dropWhile [of "\<lambda>c. c = 32" s] Cons by simp
  let ?u = "strip_end (x # t)"
  have su: "strip s = ?u" by (simp add: strip_def Cons)
  have u: "?u \<noteq> []" using x by (auto simp: strip_end_def dropWhile_eq_Nil_conv)
  obtain w where w: "x # t = ?u @ w" unfolding strip_end_def by (metis rev_append rev_rev_ident takeWhile_dropWhile_id)
  have "end_position (?p @ x # t @ 0 # v) (int (length ?p)) (int (length ?p + length t)) + 1 = int (length ?p + length ?u)"
    using x by (rule end_position_strip)
  moreover have pa: "?p @ x # t @ 0 # v = a" using arg_cong [OF s, of "\<lambda>s. s @ 0 # v"] a(1) by simp
  moreover have "int (length ?p + length t) = int (length s) - 1" using arg_cong [OF s, of length] by simp
  ultimately have e: "nat (end_position a (int (length ?p)) (int (length s) - 1) - int (length ?p) + 1) = length ?u" by simp
  have "drop (length ?p) a = x # t @ 0 # v" by (metis append_eq_conv_conj pa)
  moreover have "0 \<notin> set (x # t)" using a(2) arg_cong [OF s, of set] by auto
  ultimately have z: "cstring (drop (length ?p) a) (x # t)" by (simp add: cstring_def)
  have "strncpy (junk (length ?u + 1)) (drop (length ?p) a) (length ?u) = Inr (take (length ?u) (x # t) @ drop (length ?u) (junk (length ?u + 1)))"
    using strncpy_cstring [OF z, of "length ?u" "junk (length ?u + 1)"] assms(2) arg_cong [OF w, of length] by simp
  moreover have "take (length ?u) (x # t) = ?u" by (subst w) simp
  moreover have "drop (length ?u) (junk (length ?u + 1)) = [junk (length ?u + 1) ! length ?u]"
    using assms(2) [of "length ?u + 1"] by (simp add: Cons_nth_drop_Suc [symmetric])
  ultimately have c: "rbind (strncpy (junk (length ?u + 1)) (drop (length ?p) a) (length ?u)) (\<lambda>d. Inr (Some (d[length ?u := 0]))) =
      Inr (Some (?u @ [0]))" by simp
  show ?thesis
    using assms(1) e u c by (simp add: trimmed_directory_def count_spaces_cstring strlen_cstring Let_def su del: nat_0_iff)
qed

lemma builtin_names: "cstring EXIT_NAME [101, 120, 105, 116]" "cstring JOBS_NAME [106, 111, 98, 115]" "cstring CD_NAME [99, 100]"
  by (simp_all add: EXIT_NAME_def JOBS_NAME_def CD_NAME_def)

text \<open>Only the first letters of a line are compared.\<close>

lemma dispatch_prefix:
  assumes "cstring l s"
  shows "shell_dispatch (Some l) = Inr
    (if take 4 s = [101, 120, 105, 116] then Terminate
     else if take 4 s = [106, 111, 98, 115] then Show_jobs
     else if take 2 s = [99, 100] then Change_directory (drop 2 l) else Run_command)"
proof -
  have "\<exists>r. strncmp l EXIT_NAME 4 = Inr r \<and> (r = 0 \<longleftrightarrow> take 4 s = [101, 120, 105, 116])"
    using strncmp_prefix [OF assms builtin_names(1)] by (simp add: numeral_eq_Suc)
  moreover have "\<exists>r. strncmp l JOBS_NAME 4 = Inr r \<and> (r = 0 \<longleftrightarrow> take 4 s = [106, 111, 98, 115])"
    using strncmp_prefix [OF assms builtin_names(2)] by (simp add: numeral_eq_Suc)
  moreover have "\<exists>r. strncmp l CD_NAME 2 = Inr r \<and> (r = 0 \<longleftrightarrow> take 2 s = [99, 100])"
    using strncmp_prefix [OF assms builtin_names(3)] by (simp add: numeral_eq_Suc)
  ultimately show ?thesis by (auto simp: shell_dispatch_def)
qed

section \<open>Properties\<close>

text \<open>
  C14. Every spelling of a command line of this shape is understood: commands separated by pipe signs, each
  with at least one argument, and each command behind a pipe sign beginning with an argument (the parser refuses a
  redirection right behind a pipe sign); at most one input and one output redirection in the whole line, elsewhere
  among the arguments; perhaps a background mark at the end; and no argument or file name that begins with one of
  the operator characters (a quoted one is taken for the operator). Words
  may be written with quotes, double quotes and backslashes in any mixture, and blanks may stand anywhere
  between words. The parser returns the arguments of each command of the pipe, the files and the background
  mark, frees the previous command line and nothing else.
\<close>

theorem spelled_line_is_parsed:
  assumes "line_ok sts bg" "spells_line l (line_words sts bg)"
  shows "parsecmd static_cmdline (Some (l @ 0 # v)) =
    Inr (Some \<lparr>cl_err = None, cl_in = first_of (inputs_of (concat sts)), cl_out = first_of (outputs_of (concat sts)),
      cl_bg = bg, cl_seq = Some (map args_of sts)\<rparr>, case static_cmdline of None \<Rightarrow> [] | Some s \<Rightarrow> freecmd s)"
  using split_spelled [OF assms(2), of v] parse_words_line [OF assms(1)] by (simp add: parsecmd_def Let_def)

text \<open>The line \<^verbatim>\<open>cat 'a b'|wc <f&\<close>.\<close>

lemma spelled_line_is_parsed_witness:
  "parsecmd None (Some ([99, 97, 116, 32, 39, 97, 32, 98, 39, 124, 119, 99, 32, 60, 102, 38] @ 0 # [])) =
     Inr (Some \<lparr>cl_err = None, cl_in = Some (Dup [102]), cl_out = None, cl_bg = True,
       cl_seq = Some [[Dup [99, 97, 116], Dup [97, 32, 98]], [Dup [119, 99]]]\<rparr>, [])"
proof -
  let ?sts = "[[Arg [99, 97, 116], Arg [97, 32, 98]], [Arg [119, 99], Input [102]]]"
  have ok: "line_ok ?sts True" by (simp add: line_ok_def is_operator_def first_char_def OPERATORS_def)
  have c: "c \<notin> {0, 9, 32, 34, 38, 39, 60, 62, 92, 124} \<Longrightarrow> c \<notin> SPECIAL" for c by (simp add: char_defs)
  have q: "spells (QUOTE # [97, 32, 98] @ QUOTE # []) ([97, 32, 98] @ [])"
    by (intro spells_single spells_end) (simp_all add: QUOTE_def)
  have w: "spells [99, 97, 116] [99, 97, 116]" "spells [119, 99] [119, 99]" "spells [102] [102]"
    by (intro spells_plain spells_end c; simp)+
  have "spells_line ([99, 97, 116] @ 32 # (QUOTE # [97, 32, 98] @ QUOTE # []) @ 124 # [119, 99] @ 32 # 60 # [102] @ 38 # [])
      [Dup [99, 97, 116], Dup ([97, 32, 98] @ []), Literal 124, Dup [119, 99], Literal 60, Dup [102], Literal 38]"
    by (intro line_word line_blank line_operator line_end w q) (simp_all add: char_defs)
  then have "spells_line [99, 97, 116, 32, 39, 97, 32, 98, 39, 124, 119, 99, 32, 60, 102, 38] (line_words ?sts True)"
    by (simp add: line_words_def QUOTE_def)
  from spelled_line_is_parsed [OF ok this, of None "[]"] show ?thesis by (simp add: first_of_def)
qed

text \<open>
  C31. Reading and parsing a line stay inside memory: a line of at most 98 characters, whatever quotes and
  backslashes it has, is read into the buffer of \<^verbatim>\<open>readline\<close> and parsed without an access outside the line
  or the buffer of the words. A line that fills the buffer has no terminator and is read behind its end.
\<close>

theorem typed_line_stays_in_buffer:
  assumes "0 \<notin> set typed"
  shows "(length typed + 1 < LINE_LEN \<longrightarrow> (\<exists>c freed. parsecmd static_cmdline (Some (readline typed)) = Inr (Some c, freed)))
    \<and> (LINE_LEN \<le> length typed \<longrightarrow> parsecmd static_cmdline (Some (readline typed)) = Inl Out_of_bounds)"
  using readline_words [OF assms] readline_full [OF assms] by (auto simp: parsecmd_def Let_def)

lemma typed_line_stays_in_buffer_witness:
  "(\<exists>c freed. parsecmd None (Some (readline [34, 97, 92])) = Inr (Some c, freed))
   \<and> parsecmd None (Some (readline (replicate 100 97))) = Inl Out_of_bounds"
  using typed_line_stays_in_buffer [of "[34, 97, 92]" None] typed_line_stays_in_buffer [of "replicate 100 97" None]
  by (simp add: LINE_LEN_def)

text \<open>
  C32. The parser loses no memory but that of quoted operators. When it accepts the words, the structure
  refers to every copied word that is not taken for an operator exactly once and nothing is freed; when it
  reports an error, exactly those words have been freed, once each, and the structure is empty; the message
  that a second ampersand is not supported is never issued, and no command is empty.
\<close>

theorem parser_frees_each_word_once:
  assumes "parse_words words = (c, freed)"
  shows "(cl_err c = None \<longrightarrow> freed = [] \<and> mset (freecmd c) = mset (copied words)
      \<and> (\<exists>seq. cl_seq c = Some seq \<and> [] \<notin> set seq))
    \<and> (cl_err c \<noteq> None \<longrightarrow> mset freed = mset (copied words) \<and> freecmd c = [] \<and> \<not> cl_bg c
      \<and> cl_err c \<noteq> Some Only_one_ampersand)"
proof -
  have s: "loop_ok words start_state" "held start_state = {#}"
    by (simp_all add: loop_ok_def held_def start_state_def opt_list_def)
  obtain r q where r: "parse_loop words start_state = (r, q)" by (cases "parse_loop words start_state")
  show ?thesis
  proof (cases r)
    case None
    then have q: "loop_ok [] q" "held q = mset (copied words)" using parse_loop_keeps [OF s(1)] s(2) r by simp_all
    then have "\<not> (ps_cmd q = [] \<and> ps_seq q \<noteq> [])" by (auto simp: loop_ok_def)
    then have c: "c = \<lparr>cl_err = None, cl_in = ps_in q, cl_out = ps_out q, cl_bg = ps_bg q,
        cl_seq = Some (if ps_cmd q \<noteq> [] then ps_seq q @ [ps_cmd q] else ps_seq q)\<rparr>" "freed = []"
      using assms r None by (auto simp: parse_words_def split: if_splits)
    then have "mset (freecmd c) = held q" by (simp add: freecmd_def held_def ac_simps)
    then show ?thesis using c q by (auto simp: loop_ok_def)
  next
    case (Some er)
    obtain e rest where er: "er = (e, rest)" by (cases er)
    then have "\<not> ps_bg q" "e \<noteq> Only_one_ampersand" "held q + mset (copied rest) = mset (copied words)"
      using parse_loop_keeps [OF s(1)] s(2) r Some by simp_all
    then show ?thesis using assms r Some er
      by (auto simp: parse_words_def parse_failed_def freecmd_def held_def copied_def opt_list_def ac_simps)
  qed
qed

lemma parser_frees_each_word_once_witness:
  "cl_err (fst (parse_words [Dup [99], Literal 124, Dup [100], Literal 60])) \<noteq> None
   \<and> mset (snd (parse_words [Dup [99], Literal 124, Dup [100], Literal 60])) = {#Dup [99], Dup [100]#}"
proof -
  let ?ws = "[Dup [99], Literal 124, Dup [100], Literal 60]"
  have "parse_words ?ws = (\<lparr>cl_err = Some Input_missing, cl_in = None, cl_out = None, cl_bg = False, cl_seq = None\<rparr>, [Dup [99], Dup [100]])"
    by (simp add: parse_words_def parse_round_def redirect_def first_char_def is_operator_def OPERATORS_def start_state_def
        parse_failed_def opt_list_def)
  then show ?thesis using parser_frees_each_word_once [of ?ws "fst (parse_words ?ws)" "snd (parse_words ?ws)"]
    by (simp add: copied_def is_operator_def first_char_def OPERATORS_def)
qed

text \<open>
  C39. A quoted word that begins with an operator is taken for the operator: whatever the spelling, a word
  that begins with the input sign between a command and another word redirects the input of the command
  from the file named by that other word, and the rest of the quoted word is dropped.
\<close>

theorem quoted_operator_redirects:
  assumes "spells_line l [Dup cmd, Dup (60 # x), Dup f]" "\<not> is_operator (Dup cmd)" "\<not> is_operator (Dup f)"
  shows "parsecmd None (Some (l @ 0 # v)) =
    Inr (Some \<lparr>cl_err = None, cl_in = Some (Dup f), cl_out = None, cl_bg = False, cl_seq = Some [[Dup cmd]]\<rparr>, [])"
proof -
  have "parse_round (Dup (60 # x)) [Dup f] p = Inr ([], p\<lparr>ps_in := Some (Dup f)\<rparr>)" if "ps_in p = None" for p
    using that assms(3) by (simp add: parse_round_def redirect_def first_char_def)
  moreover have "parse_loop [Dup cmd, Dup (60 # x), Dup f] start_state =
      parse_loop [Dup (60 # x), Dup f] (start_state\<lparr>ps_cmd := [Dup cmd]\<rparr>)"
    using parse_plain [OF assms(2)] by (simp add: start_state_def del: parse_loop.simps)
  ultimately have "parse_words [Dup cmd, Dup (60 # x), Dup f] =
      (\<lparr>cl_err = None, cl_in = Some (Dup f), cl_out = None, cl_bg = False, cl_seq = Some [[Dup cmd]]\<rparr>, [])"
    by (simp only: parse_words_def) (simp add: start_state_def)
  then show ?thesis using split_spelled [OF assms(1), of v] by (simp add: parsecmd_def Let_def)
qed

text \<open>The line \<^verbatim>\<open>a '<b' c\<close>.\<close>

lemma quoted_operator_redirects_witness:
  "parsecmd None (Some ([97, 32, 39, 60, 98, 39, 32, 99] @ 0 # [])) =
    Inr (Some \<lparr>cl_err = None, cl_in = Some (Dup [99]), cl_out = None, cl_bg = False, cl_seq = Some [[Dup [97]]]\<rparr>, [])"
proof -
  have q: "spells (QUOTE # [60, 98] @ QUOTE # []) ([60, 98] @ [])"
    by (intro spells_single spells_end) (simp_all add: QUOTE_def)
  have w: "spells [97] [97]" "spells [99] [99]" by (intro spells_plain spells_end; simp add: char_defs)+
  have "spells_line ([97] @ 32 # (QUOTE # [60, 98] @ QUOTE # []) @ 32 # [99] @ []) [Dup [97], Dup ([60, 98] @ []), Dup [99]]"
    by (intro line_word line_blank line_end w q) (simp_all add: char_defs)
  then have "spells_line [97, 32, 39, 60, 98, 39, 32, 99] [Dup [97], Dup [60, 98], Dup [99]]" by (simp add: QUOTE_def)
  then show ?thesis
    using quoted_operator_redirects [of "[97, 32, 39, 60, 98, 39, 32, 99]" "[97]" "[98]" "[99]" "[]"]
    by (simp add: is_operator_def first_char_def OPERATORS_def)
qed

text \<open>
  Starting a command in the background writes behind the memory for its name: the array is as long as
  the name and the copy has a terminator too.
\<close>

theorem background_job_overflows:
  assumes "cstring name s" "length (junk (length s)) = length s"
  shows "add_job junk name pid jobs = Inl Out_of_bounds"
  using assms by (simp add: add_job_def strlen_cstring strcpy_short)

lemma background_job_overflows_witness: "add_job (\<lambda>n. replicate n 7) [108, 115, 0] 3 [] = Inl Out_of_bounds"
  by (rule background_job_overflows [where s = "[108, 115]"]) simp_all

text \<open>
  A line is a built-in command when it begins with its letters, whatever follows; for \<^verbatim>\<open>cd\<close> the rest of
  the line without the spaces around it is the directory, and nothing is done when nothing is left.
\<close>

theorem builtin_by_prefix:
  assumes "cstring l s" "\<And>n. length (junk n) = n"
  shows "shell_dispatch (Some l) = Inr
      (if take 4 s = [101, 120, 105, 116] then Terminate
       else if take 4 s = [106, 111, 98, 115] then Show_jobs
       else if take 2 s = [99, 100] then Change_directory (drop 2 l) else Run_command)
    \<and> (take 2 s = [99, 100] \<longrightarrow> trimmed_directory junk (drop 2 l) =
         Inr (if strip (drop 2 s) = [] then None else Some (strip (drop 2 s) @ [0])))"
proof -
  have "cstring (drop 2 l) (drop 2 s)" if "take 2 s = [99, 100]"
  proof -
    have "s = 99 # 100 # drop 2 s" using that append_take_drop_id [of 2 s] by simp
    then show ?thesis using assms(1) by (metis cstring_Cons drop_two)
  qed
  then show ?thesis using dispatch_prefix [OF assms(1)] trimmed_cstring [OF _ assms(2)] by blast
qed

lemma builtin_by_prefix_witness:
  "shell_dispatch (Some [99, 100, 114, 32, 0]) = Inr (Change_directory [114, 32, 0])
   \<and> trimmed_directory (\<lambda>n. replicate n 7) [114, 32, 0] = Inr (Some [114, 0])"
  using builtin_by_prefix [of "[99, 100, 114, 32, 0]" "[99, 100, 114, 32]" "\<lambda>n. replicate n 7"]
  by (simp add: strip_def strip_end_def take_Cons_numeral drop_Cons_numeral)

end
