(* ===== verification/Spec2Isabelle.thy ===== *)
theory Spec2Isabelle
  imports HashTable ProcMemLayout ProcTree MsgProps CacheProps AllocProps Layout DirProps Fs PipeProps MbrProps
    Timer ConsoleProps PathProps FormatProps ShellProps
begin

text \<open>
  xinul, a small operating system kernel for RISC-V (\<^verbatim>\<open>src/kernel\<close>), with the parts of its library that the
  kernel is built on (\<^verbatim>\<open>src/lib\<close>): processes with priorities, virtual memory and semaphores, an ext2 file
  system behind a block cache, the file calls of its user programs, and the command line of its shell. All theories model C code: a machine
  integer is a word of its width (\<open>int\<close> for an \<^verbatim>\<open>int\<close> whose range is not reached, with the conversions
  written out), a pointer into a heap is a number of type \<open>ptr\<close>, 0 for NULL, and the heap a map.

  \<^bold>\<open>Errors.\<close> An operation that can stop the machine or leave defined behaviour returns \<open>kerr + 'a\<close>
  (\<open>Prelude\<close>): a failed assertion, a null or freed pointer that is read, an index out of bounds, a second
  free, a division by zero, and \<open>No_return\<close> for a loop that does not end. An error value that the code
  returns, such as -1, is an ordinary result. The outcome of \<^verbatim>\<open>malloc\<close> is a list of the results of the next
  calls in the state of each subsystem; when the list is used up they succeed.

  \<^bold>\<open>Parts and theories.\<close> Each part has a theory with its state and operations and, where it is large,
  others with its invariant and properties.

  \<^item> \<open>PQueue\<close>: the intrusive priority queue of \<^verbatim>\<open>lib/include/queue.h\<close>, as links in a heap and as sorted lists;
    runs on the links implement the lists. The kernel's own queues are the lists.
  \<^item> \<open>HashProbe\<close>, \<open>HashTable\<close>: the hash table of \<^verbatim>\<open>lib/hash/hash.c\<close>, which after a run is a finite map, up to the first call that memory refuses.
  \<^item> \<open>Frames\<close>, \<open>Pages\<close>, \<open>ProcMem\<close>, \<open>ProcMemLayout\<close>: the frame allocator (\<^verbatim>\<open>memory/frame_dist.c\<close>), page-table
    entries (\<^verbatim>\<open>pages.c\<close>, \<^verbatim>\<open>virtual_memory.c\<close>), the tables of a process (\<^verbatim>\<open>process/process_memory.c\<close>).
  \<^item> \<open>KState\<close>, \<open>KInv\<close>, \<open>Shm\<close>, \<open>Sched\<close>, \<open>KSched\<close>, \<open>Quiet\<close>: the record \<open>kernel\<close> (the processes, the process
    table, the queues, the clock, the tables of the other parts), shared pages (\<^verbatim>\<open>memory_api.c\<close>) and the
    scheduler (\<^verbatim>\<open>scheduler.c\<close>), which keeps the invariant \<open>kwf\<close> and runs a process of the highest priority.
  \<^item> \<open>Semaphore\<close>, \<open>SemInv\<close>; \<open>MsgQueue\<close>, \<open>MsgInv\<close>, \<open>MsgProps\<close>: \<^verbatim>\<open>sync/semaphore_api.c\<close> and \<^verbatim>\<open>sync/msgqueue.c\<close>
    with their invariants over runs of calls.
  \<^item> \<open>ForkList\<close>, \<open>Process\<close>, \<open>ProcTree\<close>: creation, fork, end, wait and kill (\<^verbatim>\<open>process_api.c\<close>, \<^verbatim>\<open>process.c\<close>), the
    linked list of the trap frames that forked children start from, and the tree of processes.
  \<^item> \<open>Timer\<close>: sleeping, the time of day and the timer interrupts (\<^verbatim>\<open>timer_api.c\<close>, \<^verbatim>\<open>time_syscall.c\<close>, \<^verbatim>\<open>timer.c\<close>).
  \<^item> \<open>Console\<close>, \<open>ConsoleProps\<close>: the line buffer, reading, writing and the keyboard (\<^verbatim>\<open>drivers/console.c\<close>,
    \<^verbatim>\<open>input-output\<close>).
  \<^item> \<open>Bytes\<close>, \<open>Mbr\<close>, \<open>MbrProps\<close>: bytes and sectors, the partition table (\<^verbatim>\<open>fs/mbr.c\<close>).
  \<^item> \<open>DiskCache\<close>, \<open>CacheInv\<close>, \<open>CacheTags\<close>, \<open>CacheProps\<close>: the block cache (\<^verbatim>\<open>fs/disk_buffer.c\<close>) as an array of blocks.
  \<^item> \<open>Ext2\<close>, \<open>Layout\<close>, \<open>Bitmap\<close>, \<open>Alloc\<close>, \<open>AllocProps\<close>, \<open>Inode\<close>, \<open>Dir\<close>, \<open>DirChain\<close>, \<open>DirProps\<close>, \<open>Fs\<close>: the structures of
    the file system and formatting (\<^verbatim>\<open>ext2.c\<close>), the allocators, inodes and directories (\<^verbatim>\<open>inode.c\<close>,
    \<^verbatim>\<open>inode_util.c\<close>), mounting and saving (\<^verbatim>\<open>fs.c\<close>).
  \<^item> \<open>Fifo\<close>, \<open>Pipe\<close>, \<open>PipeProps\<close>: pipes (\<^verbatim>\<open>fs/pipe.c\<close>).
  \<^item> \<open>Paths\<close>, \<open>FileTable\<close>, \<open>FileCalls\<close>, \<open>DirCalls\<close>, \<open>FdInv\<close>, \<open>FdRun\<close>, \<open>FdProps\<close>, \<open>PathProps\<close>: path names, the descriptors of
    the processes and the walk along a path (\<^verbatim>\<open>process/fs_bridge.c\<close>), the calls on files and directories
    (\<^verbatim>\<open>fs/fs_api.c\<close>, \<^verbatim>\<open>dir_api.c\<close>, \<^verbatim>\<open>chdev.c\<close>), the invariant of the descriptors and the properties.

  \<^item> \<open>CString\<close>, \<open>Format\<close>, \<open>FormatProps\<close>: the functions of \<^verbatim>\<open>lib/string\<close> on the bytes of an array, \<^verbatim>\<open>vsnprintf\<close>
    (\<^verbatim>\<open>lib/stdio/sprintf.c\<close>), \<^verbatim>\<open>vprintf\<close>, \<^verbatim>\<open>atoi\<close> and \<^verbatim>\<open>strtol\<close>; a format is a list of pieces with their texts.
  \<^item> \<open>Shell\<close>, \<open>ShellProps\<close>: the words of a line and the parser of the shell (\<^verbatim>\<open>user/ensishell/readcmd.c\<close>), its
    background jobs (\<^verbatim>\<open>jobs.c\<close>) and built-in commands (\<^verbatim>\<open>builtin.c\<close>, \<^verbatim>\<open>ensishell.c\<close>); a spelling is an inductive
    relation between a text and the words it stands for.

  \<^bold>\<open>How the parts are composed.\<close> The states are nested as the calls are: a \<open>kernel\<close> holds the processes
  and the tables of semaphores, message queues and shared pages; a \<open>pworld\<close> adds the pipes, whose operations
  use semaphores; an \<open>ext2\<close> holds the cache, which holds the disk; an \<open>fworld\<close> has a \<open>pworld\<close>, an \<open>ext2\<close>, the
  open files and the file-system part of each process; a \<open>cworld\<close> is the kernel with the console. An
  operation that gives up the processor is modelled up to the context switch, in the state in which the
  next process runs; what it does when it is resumed is a second definition (\<open>wait_resume\<close>,
  \<open>waitpid_resume\<close>, the turns of a pipe). The processes run on one processor and the kernel is not
  interrupted, so a run of the system is a sequence of such steps.

  \<^bold>\<open>Interfaces.\<close> \<open>prio_queue\<close> (\<open>PQueue\<close>) is the contract the scheduler relies on for its queues; \<open>dict\<close>
  (\<open>HashTable\<close>) that of the tables keyed by pid, semaphore and text; \<open>fifo\<close> (\<open>Fifo\<close>) that of a bounded buffer,
  provided by the ring of a message queue and by the bytes of a pipe; \<open>dir_text\<close> (\<open>Paths\<close>) that of the text of
  a directory. Each is interpreted on the definitions of the code.

  \<^bold>\<open>What is shown.\<close> For the data structures: refinement of an abstract one by any run of operations
  (priority queue, hash table, rings, block cache, directory blocks, path text). For the kernel: invariants
  over runs of calls (scheduler, semaphores, message queues, partitions, data blocks, descriptors), that the
  scheduler and the waking loops return, that messages and sleepers are not lost. For stored data: round
  trips (page-table entries, boot record, fork frames, a typed line, the current directory, printed numbers,
  every spelling of a command line) and the bounds of the formatted areas, of file positions and of the
  buffers of the shell. And cases in which the code fails: assertions that ordinary
  calls reach, memory used after it was freed, sums that wrap, loops that do not end.

  \<^bold>\<open>Bounds and fuel.\<close> A loop that the code does not bound has fuel, and running out of it is \<open>No_return\<close>.
  The fuel is enough in every state the properties are about, and where a property says that a call
  returns, this is part of its proof. The probe loop of the hash table ends or has seen every slot; the waking
  loops have a round per blocked or sleeping process (\<open>blocked_fuel\<close>), the search for a child one per
  process (\<open>tree_fuel\<close>); the loops over a directory block of \<open>n\<close> bytes have \<open>n + 1\<close>, since an entry
  that does not advance never ends; the loops of \<^verbatim>\<open>read\<close> and \<^verbatim>\<open>write\<close> have a round per byte and one more, since
  each round moves at least a byte; the loops over the console buffer have 201, its size and one more. At most
  \<open>2^22\<close> processes keep the counts of the open files in their 32 bits.

  \<^bold>\<open>Not modelled.\<close> The context switch, the entry and return of traps, start-up code (assembly, and the
  registers that only it sees) and the dispatch of system calls, which calls the modelled operations with the
  registers as arguments. Device drivers other than the console buffer: the disk is its interface
  (\<^verbatim>\<open>disk_device.h\<close>), sectors that are read and writes that can fail. \<^verbatim>\<open>execve\<close>, which loads a program over the
  running one and enters it by registers. In the kernel models the tables are maps, and an update of one does not
  run out of memory. \<^verbatim>\<open>lib/stdlib/malloc.c\<close> is a vendored allocator: its outcome is a
  parameter. The kernel models use the copying and
  comparing of memory as operations on lists (\<open>poke\<close>, \<open>peek\<close>, equality), which \<open>CString\<close> shows of the code for
  places that do not overlap in the wrong way. Of the rest of \<^verbatim>\<open>src/lib\<close>, the wrappers of system calls, \<^verbatim>\<open>sscanf\<close>,
  the reading of directories and \<^verbatim>\<open>qsort\<close>, a copy of the OpenBSD one, are left out. Printing and logging have no effect
  on the state. Of the shell, starting the processes of a command line. The other user programs, the tests and
  DOOM, a port of a third-party game with its data, are not part of the kernel.
\<close>

end
